(* ===== verification/Prelude.thy ===== *)
theory Prelude imports Main "HOL-Library.Word" begin

text \<open>
  Shared vocabulary of the development: the machine types of the 32-bit Windows client
  (bytes, \<^verbatim>\<open>DWORD\<close>, \<^verbatim>\<open>u_short\<close>), byte strings (\<^verbatim>\<open>std::string\<close>), faults as values, the
  \<^verbatim>\<open>std::string\<close> and C-string operations the sources use, and the big-endian memory image
  that \<^verbatim>\<open>htonl\<close>/\<^verbatim>\<open>htons\<close> followed by a raw copy produces on a little-endian machine.
  The collections \<^verbatim>\<open>byte_simps\<close> and \<^verbatim>\<open>res_simps\<close> gather the rewrite rules of those operations.
\<close>

unbundle bit_operations_syntax

section \<open>Types\<close>

type_synonym byte = "8 word"
type_synonym ushort = "16 word"
type_synonym dword = "32 word"
type_synonym bytes = "byte list"

named_theorems byte_simps \<open>rewriting of byte strings and their memory images\<close>
named_theorems res_simps \<open>rewriting of computations that may fault\<close>

section \<open>Faults\<close>

text \<open>
  What ends a run of the client otherwise than by returning: a C++ exception
  (\<open>OutOfRange\<close>, from \<^verbatim>\<open>std::string::substr\<close>), the invalid-parameter handler of a
  \<^verbatim>\<open>strcpy_s\<close> whose source does not fit (\<open>InvalidParameter\<close>), a write or read past a buffer
  (\<open>BufferOverrun\<close>, \<open>BadRead\<close>), a failed \<^verbatim>\<open>new\<close> or \<^verbatim>\<open>malloc\<close> (\<open>NoMemory\<close>), a division by zero
  (\<open>DivideByZero\<close>), a use of a null pointer (\<open>NullPointer\<close>) and memory freed twice
  (\<open>DoubleFree\<close>).
\<close>

datatype fault = OutOfRange | InvalidParameter | BufferOverrun | BadRead | NoMemory | DivideByZero | NullPointer | DoubleFree

type_synonym 'a res = "fault + 'a"

abbreviation ok :: "'a \<Rightarrow> 'a res" where "ok \<equiv> Inr"
abbreviation crash :: "fault \<Rightarrow> 'a res" where "crash \<equiv> Inl"

text \<open>Sequencing: the rest of the code runs on the value, a fault ends the run.\<close>

definition and_then :: "'a res \<Rightarrow> ('a \<Rightarrow> 'b res) \<Rightarrow> 'b res" where
  "and_then r k = (case r of Inl e \<Rightarrow> Inl e | Inr x \<Rightarrow> k x)"

definition is_ok :: "'a res \<Rightarrow> bool" where
  "is_ok r = (case r of Inl _ \<Rightarrow> False | Inr _ \<Rightarrow> True)"

section \<open>Strings\<close>

text \<open>A string literal of the source, as its bytes.\<close>

definition lit :: "string \<Rightarrow> bytes" where
  "lit s = map of_char s"

text \<open>What C code sees of a buffer: everything before the first NUL (\<^verbatim>\<open>s.c_str()\<close> handed to a
  parameter of type \<^verbatim>\<open>const char *\<close>).\<close>

definition c_str :: "bytes \<Rightarrow> bytes" where
  "c_str s = takeWhile (\<lambda>b. b \<noteq> 0) s"

text \<open>\<^verbatim>\<open>std::string::resize\<close>: cut, or pad with NUL.\<close>

definition resize :: "nat \<Rightarrow> bytes \<Rightarrow> bytes" where
  "resize n s = take n s @ replicate (n - length s) 0"

text \<open>\<^verbatim>\<open>std::string::substr(pos, n)\<close> throws when \<open>pos > size()\<close>.\<close>

definition substr :: "bytes \<Rightarrow> nat \<Rightarrow> nat \<Rightarrow> bytes res" where
  "substr s pos n = (if length s < pos then crash OutOfRange else ok (take n (drop pos s)))"

text \<open>\<^verbatim>\<open>strcpy_s\<close> into an array of \<open>n\<close> characters: the terminating NUL must fit too.\<close>

definition strcpy_s :: "nat \<Rightarrow> bytes \<Rightarrow> bytes res" where
  "strcpy_s n s = (if length (c_str s) < n then ok (c_str s) else crash InvalidParameter)"

section \<open>Network byte order\<close>

definition be32 :: "dword \<Rightarrow> bytes" where
  "be32 w = [ucast (drop_bit 24 w), ucast (drop_bit 16 w), ucast (drop_bit 8 w), ucast w]"

definition be16 :: "ushort \<Rightarrow> bytes" where
  "be16 w = [ucast (drop_bit 8 w), ucast w]"

definition le16 :: "ushort \<Rightarrow> bytes" where
  "le16 w = [ucast w, ucast (drop_bit 8 w)]"

fun rd_be32 :: "bytes \<Rightarrow> dword" where
  "rd_be32 (a # b # c # d # _) =
     push_bit 24 (ucast a) OR push_bit 16 (ucast b) OR push_bit 8 (ucast c) OR ucast d"
| "rd_be32 _ = 0"

fun rd_be16 :: "bytes \<Rightarrow> ushort" where
  "rd_be16 (a # b # _) = push_bit 8 (ucast a) OR ucast b"
| "rd_be16 _ = 0"

text \<open>Every outcome of a computation that may fault.\<close>

definition outcome :: "('a \<Rightarrow> bool) \<Rightarrow> 'a res \<Rightarrow> bool" where
  "outcome P r = (case r of Inl _ \<Rightarrow> True | Inr x \<Rightarrow> P x)"

named_theorems outcome_rules \<open>every outcome of a computation\<close>

text \<open>The faults a computation can end with.\<close>

definition faults_in :: "fault set \<Rightarrow> 'a res \<Rightarrow> bool" where
  "faults_in F r = (case r of Inl f \<Rightarrow> f \<in> F | Inr _ \<Rightarrow> True)"

named_theorems fault_rules \<open>the faults of a computation\<close>

section \<open>Lemmas\<close>

lemma and_then_simps [simp, res_simps]:
  "and_then (Inr x) k = k x" "and_then (Inl e) k = Inl e"
  by (simp_all add: and_then_def)

lemma is_ok_simps [simp, res_simps]: "is_ok (Inr x) = True" "is_ok (Inl e) = False"
  by (simp_all add: is_ok_def)

lemma is_ok_and_then [res_simps]:
  "is_ok (and_then r k) = (\<exists>x. r = Inr x \<and> is_ok (k x))"
  by (cases r) auto

lemma and_then_ok_iff:
  "and_then r k = Inr y \<longleftrightarrow> (\<exists>x. r = Inr x \<and> k x = Inr y)"
  by (cases r) auto

lemma length_resize [simp, byte_simps]: "length (resize n s) = n"
  by (simp add: resize_def)

lemma resize_exact: "length s = n \<Longrightarrow> resize n s = s"
  by (simp add: resize_def)

lemma length_be [simp, byte_simps]: "length (be32 w) = 4" "length (be16 v) = 2" "length (le16 v) = 2"
  by (simp_all add: be32_def be16_def le16_def)

lemma length_lit [simp]: "length (lit s) = length s"
  by (simp add: lit_def)

lemma c_str_id: "0 \<notin> set s \<Longrightarrow> c_str s = s"
  by (auto simp: c_str_def takeWhile_eq_all_conv)

lemma c_str_le: "length (c_str s) \<le> length s"
  by (simp add: c_str_def length_takeWhile_le)

lemma c_str_no_nul: "0 \<notin> set (c_str s)"
  by (auto simp: c_str_def dest: set_takeWhileD)

lemma c_str_idem [simp]: "c_str (c_str s) = c_str s"
  by (simp add: c_str_id c_str_no_nul)

lemma substr_ok: "pos \<le> length s \<Longrightarrow> substr s pos n = ok (take n (drop pos s))"
  by (simp add: substr_def)

lemma bytes_of_dword:
  fixes w :: dword
  shows "push_bit 24 (ucast (ucast (drop_bit 24 w) :: byte)) OR push_bit 16 (ucast (ucast (drop_bit 16 w) :: byte))
     OR push_bit 8 (ucast (ucast (drop_bit 8 w) :: byte)) OR ucast (ucast w :: byte) = w" (is "?l = w")
proof (rule bit_word_eqI)
  fix n assume "n < LENGTH(32)"
  then consider "n < 8" | "8 \<le> n" "n < 16" | "16 \<le> n" "n < 24" | "24 \<le> n" "n < 32"
    by fastforce
  then show "bit ?l n = bit w n"
    by cases (auto simp: bit_simps)
qed

lemma rd_be32_be32 [simp, byte_simps]: "rd_be32 (be32 w @ r) = w"
  unfolding be32_def by (simp only: append_Cons rd_be32.simps bytes_of_dword)

lemma bytes_of_ushort:
  fixes w :: ushort
  shows "push_bit 8 (ucast (ucast (drop_bit 8 w) :: byte)) OR ucast (ucast w :: byte) = w" (is "?l = w")
proof (rule bit_word_eqI)
  fix n assume "n < LENGTH(16)"
  then consider "n < 8" | "8 \<le> n" "n < 16"
    by fastforce
  then show "bit ?l n = bit w n"
    by cases (auto simp: bit_simps)
qed

lemma rd_be16_be16 [simp, byte_simps]: "rd_be16 (be16 w @ r) = w"
  unfolding be16_def by (simp only: append_Cons rd_be16.simps bytes_of_ushort)

text \<open>Shifts and masks of a byte as arithmetic.\<close>

lemma unat_shr_byte: "unat (drop_bit n (x::byte)) = unat x div 2 ^ n"
  by (rule trans [OF unat_drop_bit_eq]) (simp only: drop_bit_eq_div)

lemma unat_mask_byte: "unat (take_bit n (x::byte)) = unat x mod 2 ^ n"
  by (rule trans [OF unsigned_take_bit_eq]) (simp only: take_bit_eq_mod)

lemma and_3_mask: "(x::byte) AND 3 = take_bit 2 x"
  by (simp add: take_bit_eq_mask mask_eq_exp_minus_1)

lemma and_15_mask: "(x::byte) AND 15 = take_bit 4 x"
  by (simp add: take_bit_eq_mask mask_eq_exp_minus_1)

lemma and_127_mask: "(x::byte) AND 127 = take_bit 7 x"
  by (simp add: take_bit_eq_mask mask_eq_exp_minus_1)

lemma unat_of_nat_byte: "n < 256 \<Longrightarrow> unat (of_nat n :: byte) = n"
  by (simp add: unat_of_nat)

lemma unat_of_nat_dword: "n < 2 ^ 32 \<Longrightarrow> unat (of_nat n :: dword) = n"
  by (simp add: unat_of_nat)

lemma unat_byte_lt: "unat (x::byte) < 256"
  using unsigned_less [of x] by simp

lemma unat_dword_lt: "unat (x::dword) < 4294967296"
  using unsigned_less [of x] by simp

lemma unat_ucast_byte_dword [simp, byte_simps]: "unat (ucast (b::byte) :: dword) = unat b"
  using unat_byte_lt [of b] by (simp add: unsigned_ucast_eq take_bit_nat_eq_self)

lemma unat_ucast_dword_byte [byte_simps]: "unat (ucast (w::dword) :: byte) = unat w mod 256"
  by (simp add: unsigned_ucast_eq take_bit_eq_mod)

lemma dword_eq_iff: "(x::dword) = y \<longleftrightarrow> unat x = unat y"
  by (simp add: word_unat_eq_iff)

lemma byte_eq_iff: "(x::byte) = y \<longleftrightarrow> unat x = unat y"
  by (simp add: word_unat_eq_iff)

lemma outcome_ok [simp]: "outcome P (Inr x) = P x" "outcome P (Inl f)"
  by (simp_all add: outcome_def)

lemma outcome_and_then [outcome_rules]:
  "(\<And>x. r = Inr x \<Longrightarrow> outcome P (k x)) \<Longrightarrow> outcome P (and_then r k)"
  by (cases r) simp_all

lemma outcome_if [outcome_rules]:
  "(b \<Longrightarrow> outcome P x) \<Longrightarrow> (\<not> b \<Longrightarrow> outcome P y) \<Longrightarrow> outcome P (if b then x else y)"
  by simp

lemma outcome_prod [outcome_rules]:
  "(\<And>a b. p = (a, b) \<Longrightarrow> outcome P (f a b)) \<Longrightarrow> outcome P (case p of (a, b) \<Rightarrow> f a b)"
  by (cases p) simp

lemma outcome_option [outcome_rules]:
  "(z = None \<Longrightarrow> outcome P x) \<Longrightarrow> (\<And>a. z = Some a \<Longrightarrow> outcome P (f a)) \<Longrightarrow> outcome P (case z of None \<Rightarrow> x | Some a \<Rightarrow> f a)"
  by (cases z) simp_all

lemma outcomeI: "(\<And>x. r = Inr x \<Longrightarrow> P x) \<Longrightarrow> outcome P r"
  by (cases r) simp_all

lemma outcomeD: "outcome P r \<Longrightarrow> r = Inr x \<Longrightarrow> P x"
  by simp

lemma outcome_mono: "outcome P r \<Longrightarrow> (\<And>x. P x \<Longrightarrow> Q x) \<Longrightarrow> outcome Q r"
  by (cases r) simp_all

lemma faults_in_simps [simp]: "faults_in F (Inr x)" "faults_in F (Inl f) = (f \<in> F)"
  by (simp_all add: faults_in_def)

lemma faults_in_mono: "faults_in F r \<Longrightarrow> F \<subseteq> G \<Longrightarrow> faults_in G r"
  by (cases r) auto

lemma faults_in_and_then [fault_rules]:
  "faults_in F r \<Longrightarrow> (\<And>x. r = Inr x \<Longrightarrow> faults_in F (k x)) \<Longrightarrow> faults_in F (and_then r k)"
  by (cases r) simp_all

lemma faults_in_if [fault_rules]:
  "(b \<Longrightarrow> faults_in F x) \<Longrightarrow> (\<not> b \<Longrightarrow> faults_in F y) \<Longrightarrow> faults_in F (if b then x else y)"
  by simp

lemma faults_in_prod [fault_rules]:
  "(\<And>a b. p = (a, b) \<Longrightarrow> faults_in F (f a b)) \<Longrightarrow> faults_in F (case p of (a, b) \<Rightarrow> f a b)"
  by (cases p) simp

lemma faults_in_option [fault_rules]:
  "(z = None \<Longrightarrow> faults_in F x) \<Longrightarrow> (\<And>a. z = Some a \<Longrightarrow> faults_in F (f a)) \<Longrightarrow> faults_in F (case z of None \<Rightarrow> x | Some a \<Rightarrow> f a)"
  by (cases z) simp_all

lemma faults_in_ok: "is_ok r \<Longrightarrow> faults_in F r"
  by (cases r) simp_all

end
