(* ===== verification/Interfaces.thy ===== *)
theory Interfaces imports Prelude begin

text \<open>
  The interfaces between components, as locales. \<open>codec\<close>: an encoder and a decoder that agree on
  the valid values. \<open>prefix_codec\<close>: a codec whose decoder reads one item off the front of a
  stream, as the header parser and the receive loop of the long link use it. \<open>machine\<close>: a
  component driven by a sequence of events, with an invariant that every event keeps;
  \<open>guarded_machine\<close>: the same for the events the environment can deliver in a state. Each is
  interpreted in the theory of the component that provides it.
\<close>

section \<open>Codecs\<close>

locale codec =
  fixes enc :: "'a \<Rightarrow> 'b"
    and dec :: "'b \<Rightarrow> 'a option"
    and valid :: "'a \<Rightarrow> bool"
  assumes dec_enc: "valid x \<Longrightarrow> dec (enc x) = Some x"
begin

lemma enc_inj: "valid x \<Longrightarrow> valid y \<Longrightarrow> enc x = enc y \<Longrightarrow> x = y"
  using dec_enc by (metis option.inject)

lemma enc_inj_on: "inj_on enc {x. valid x}"
  by (auto intro: inj_onI enc_inj)

lemma dec_total_on_image: "valid x \<Longrightarrow> y = enc x \<Longrightarrow> dec y \<noteq> None"
  by (simp add: dec_enc)

end

text \<open>Reading \<open>n\<close> items off a stream, with the number of bytes each item took.\<close>

fun read_items :: "(bytes \<Rightarrow> ('a \<times> nat) option) \<Rightarrow> nat \<Rightarrow> bytes \<Rightarrow> ('a list \<times> bytes) option" where
  "read_items rd 0 s = Some ([], s)"
| "read_items rd (Suc n) s =
     (case rd s of None \<Rightarrow> None
      | Some (x, k) \<Rightarrow> map_option (\<lambda>(xs, r). (x # xs, r)) (read_items rd n (drop k s)))"

locale prefix_codec =
  fixes enc :: "'a \<Rightarrow> bytes"
    and rd :: "bytes \<Rightarrow> ('a \<times> nat) option"
    and valid :: "'a \<Rightarrow> bool"
  assumes rd_enc: "valid x \<Longrightarrow> rd (enc x @ r) = Some (x, length (enc x))"
begin

lemma rd_stream:
  "\<forall>x \<in> set xs. valid x \<Longrightarrow> read_items rd (length xs) (concat (map enc xs) @ r) = Some (xs, r)"
proof (induction xs)
  case Nil
  then show ?case by simp
next
  case (Cons x xs)
  then have "rd (enc x @ (concat (map enc xs) @ r)) = Some (x, length (enc x))"
    using rd_enc by simp
  with Cons show ?case by simp
qed

lemma stream_inj:
  assumes "\<forall>x \<in> set xs. valid x" "\<forall>y \<in> set ys. valid y" "length xs = length ys"
    and "concat (map enc xs) = concat (map enc ys)"
  shows "xs = ys"
  using rd_stream [OF assms(1), of "[]"] rd_stream [OF assms(2), of "[]"] assms(3,4) by simp

end

sublocale prefix_codec \<subseteq> whole: codec enc "\<lambda>s. map_option fst (rd s)" valid
proof unfold_locales
  fix x assume "valid x"
  then show "map_option fst (rd (enc x)) = Some x" using rd_enc [of x "[]"] by simp
qed

section \<open>Components driven by events\<close>

fun run_events :: "('s \<Rightarrow> 'e \<Rightarrow> 's) \<Rightarrow> 's \<Rightarrow> 'e list \<Rightarrow> 's" where
  "run_events step s [] = s"
| "run_events step s (e # es) = run_events step (step s e) es"

lemma run_events_append: "run_events step s (xs @ ys) = run_events step (run_events step s xs) ys"
  by (induction xs arbitrary: s) auto

locale machine =
  fixes step :: "'s \<Rightarrow> 'e \<Rightarrow> 's"
    and inv :: "'s \<Rightarrow> bool"
  assumes step_inv: "inv s \<Longrightarrow> inv (step s e)"
begin

lemma run_inv: "inv s \<Longrightarrow> inv (run_events step s es)"
  by (induction es arbitrary: s) (auto intro: step_inv)

lemma run_prefix_inv: "inv s \<Longrightarrow> es = xs @ ys \<Longrightarrow> inv (run_events step s xs)"
  by (simp add: run_inv)

end

text \<open>A guarded machine: only the events that the environment can deliver in a state count.\<close>

fun run_ok :: "('s \<Rightarrow> 'e \<Rightarrow> bool) \<Rightarrow> ('s \<Rightarrow> 'e \<Rightarrow> 's) \<Rightarrow> 's \<Rightarrow> 'e list \<Rightarrow> bool" where
  "run_ok pre step s [] = True"
| "run_ok pre step s (e # es) = (pre s e \<and> run_ok pre step (step s e) es)"

locale guarded_machine =
  fixes pre :: "'s \<Rightarrow> 'e \<Rightarrow> bool"
    and step :: "'s \<Rightarrow> 'e \<Rightarrow> 's"
    and inv :: "'s \<Rightarrow> bool"
  assumes step_guarded: "inv s \<Longrightarrow> pre s e \<Longrightarrow> inv (step s e)"
begin

lemma run_guarded: "inv s \<Longrightarrow> run_ok pre step s es \<Longrightarrow> inv (run_events step s es)"
  by (induction es arbitrary: s) (auto intro: step_guarded)

end

end
