(* ===== verification/Codec.thy ===== *)
theory Codec imports Interfaces begin

text \<open>
  The text and number codings of \<^verbatim>\<open>Business/fun.cpp\<close>: \<^verbatim>\<open>Hex2bin\<close>/\<^verbatim>\<open>Bin2Hex\<close> (how binary sync
  keys and RSA constants are stored as text) and \<^verbatim>\<open>Dword2String\<close>/\<^verbatim>\<open>String2Dword\<close> (the base-128
  numbers of the request and response headers). The reference coding \<open>leb128\<close> is what the
  reader accepts; \<open>varint_exact\<close> characterises the numbers for which the writer produces it.
\<close>

section \<open>Hexadecimal text\<close>

text \<open>\<^verbatim>\<open>CStringA::MakeLower\<close> in the C locale.\<close>

definition to_lower :: "byte \<Rightarrow> byte" where
  "to_lower c = (if 65 \<le> c \<and> c \<le> 90 then c + 32 else c)"

definition hex_value :: "byte \<Rightarrow> dword option" where
  "hex_value c =
     (if 48 \<le> c \<and> c \<le> 57 then Some (ucast c - 48)
      else if 97 \<le> c \<and> c \<le> 102 then Some (ucast c - 97 + 10)
      else None)"

text \<open>The loop takes two characters at a time; a pair that is not hexadecimal is skipped, and
  a character left over is ignored. \<open>ret\<close> is \<^verbatim>\<open>strRet\<close>, \<open>cur\<close> is \<^verbatim>\<open>dwCur\<close>.\<close>

fun hex2bin_loop :: "bytes \<Rightarrow> bytes \<Rightarrow> nat \<Rightarrow> bytes" where
  "hex2bin_loop (a # b # rest) ret cur =
     (case hex_value a of
        None \<Rightarrow> hex2bin_loop rest ret cur
      | Some hi \<Rightarrow>
          (case hex_value b of
             None \<Rightarrow> hex2bin_loop rest ret cur
           | Some lo \<Rightarrow> hex2bin_loop rest (ret[cur := ucast (hi * 16 + lo)]) (Suc cur)))"
| "hex2bin_loop _ ret cur = ret"

definition Hex2bin :: "bytes \<Rightarrow> bytes" where
  "Hex2bin strHex =
     (let s = map to_lower (filter (\<lambda>c. c \<noteq> 32) strHex)
      in hex2bin_loop s (replicate (length s div 2) 0) 0)"

text \<open>\<^verbatim>\<open>sprintf("%02x ", b)\<close>.\<close>

definition hex_char :: "byte \<Rightarrow> byte" where
  "hex_char d = (if d < 10 then 48 + d else 87 + d)"

definition hex_byte :: "byte \<Rightarrow> bytes" where
  "hex_byte b = [hex_char (drop_bit 4 b), hex_char (b AND 15), 32]"

definition Bin2Hex :: "bytes \<Rightarrow> bytes" where
  "Bin2Hex s = concat (map hex_byte s)"

section \<open>Base-128 numbers\<close>

text \<open>The writer's loop, from the most significant position (\<open>n\<close> is \<^verbatim>\<open>nLen\<close>) down; \<open>d\<close> is
  \<^verbatim>\<open>dwData\<close>, \<open>d2\<close> is \<^verbatim>\<open>dwData2\<close>, \<open>out\<close> is \<^verbatim>\<open>dwOutLen\<close>.\<close>

fun d2s_loop :: "nat \<Rightarrow> dword \<Rightarrow> dword \<Rightarrow> bytes \<Rightarrow> nat \<Rightarrow> dword \<times> bytes \<times> nat" where
  "d2s_loop 0 d d2 hex out = (d, hex, out)"
| "d2s_loop (Suc n) d d2 hex out =
     (if d > d2
      then d2s_loop n (d mod d2) (d2 div 0x80) (hex[Suc n := ucast (d div d2)]) (Suc out)
      else d2s_loop n d (d2 div 0x80) hex out)"

definition Dword2String :: "dword \<Rightarrow> bytes" where
  "Dword2String dw =
     (let (d, hex, out) = d2s_loop 4 dw 0x10000000 (replicate 5 0) 0;
          hex = hex[0 := ucast d];
          out = Suc out
      in map (\<lambda>b. b + 0x80) (take (out - 1) hex) @ [hex ! (out - 1)])"

text \<open>The reader: at most five bytes, up to the first without the top bit. It returns the value
  and the length consumed; on an empty string the length variable keeps its old value.\<close>

fun s2d_loop :: "bytes \<Rightarrow> nat \<Rightarrow> dword \<Rightarrow> dword \<Rightarrow> dword \<times> nat" where
  "s2d_loop [] n ret temp = (ret, n)"
| "s2d_loop (c # cs) n ret temp =
     (if n < 5 then
        if drop_bit 7 c = 0 then (ret + ucast c * temp, Suc n)
        else s2d_loop cs (Suc n) (ret + ucast (c AND 0x7f) * temp) (temp * 0x80)
      else (ret, n))"

definition String2Dword :: "bytes \<Rightarrow> nat \<Rightarrow> dword \<times> nat" where
  "String2Dword str old_len = (if str = [] then (0, old_len) else s2d_loop str 0 0 1)"

section \<open>Reference coding\<close>

fun leb128 :: "nat \<Rightarrow> bytes" where
  "leb128 n = (if n < 128 then [of_nat n] else of_nat (128 + n mod 128) # leb128 (n div 128))"

declare leb128.simps [simp del]

text \<open>Every base-128 remainder at and below the leading position exceeds its power: what makes
  the writer's strict comparison \<^verbatim>\<open>dwData > dwData2\<close> take every position.\<close>

definition varint_exact :: "dword \<Rightarrow> bool" where
  "varint_exact w =
     (let n = unat w in
        n < 128
      \<or> 128 < n \<and> n < 16384
      \<or> 16384 < n \<and> n < 2097152 \<and> 128 < n mod 16384
      \<or> 2097152 < n \<and> n < 268435456 \<and> 16384 < n mod 2097152 \<and> 128 < n mod 16384
      \<or> 268435456 < n \<and> 2097152 < n mod 268435456 \<and> 16384 < n mod 2097152 \<and> 128 < n mod 16384)"

section \<open>Lemmas: hexadecimal\<close>

lemma nibble_cases:
  assumes "d < (16::byte)"
  shows "d \<in> {0, 1, 2, 3, 4, 5, 6, 7, 8, 9, 10, 11, 12, 13, 14, 15}"
proof -
  have "unat d < 16" using assms by (simp add: word_less_nat_alt)
  then have "unat d \<in> {0, 1, 2, 3, 4, 5, 6, 7, 8, 9, 10, 11, 12, 13, 14, 15}" by (simp add: atLeast0LessThan flip: lessThan_iff) (auto simp: numeral_eq_Suc lessThan_Suc)
  then have "of_nat (unat d) \<in> (of_nat ` {0, 1, 2, 3, 4, 5, 6, 7, 8, 9, 10, 11, 12, 13, 14, 15} :: byte set)"
    by (rule imageI)
  then show ?thesis by simp
qed

lemma hex_char_ok:
  assumes "d < 16"
  shows "hex_value (hex_char d) = Some (ucast d)" "to_lower (hex_char d) = hex_char d" "hex_char d \<noteq> 32"
  using nibble_cases [OF assms] by (auto simp: hex_value_def hex_char_def to_lower_def)

lemma nibble_bounds: "drop_bit 4 (b::byte) < 16" "b AND 15 < (16::byte)"
  using unat_byte_lt [of b]
  by (simp_all add: word_less_nat_alt unat_shr_byte and_15_mask unat_mask_byte)

lemma nibbles_join: "ucast (ucast (drop_bit 4 b) * 16 + ucast (b AND 15) :: dword) = (b :: byte)"
proof -
  have "unat (ucast (drop_bit 4 b) * 16 + ucast (b AND 15) :: dword) = unat b"
    using unat_byte_lt [of b] by (simp add: unat_word_ariths and_15_mask unat_shr_byte unat_mask_byte)
  then show ?thesis
    using unat_byte_lt [of b] by (simp only: byte_eq_iff unat_ucast_dword_byte) simp
qed

lemma hex_byte_ok:
  "map to_lower (hex_byte b) = hex_byte b"
  "filter (\<lambda>c. c \<noteq> 32) (hex_byte b) = [hex_char (drop_bit 4 b), hex_char (b AND 15)]"
  using hex_char_ok [OF nibble_bounds(1), of b] hex_char_ok [OF nibble_bounds(2), of b]
  by (simp_all add: hex_byte_def, simp add: to_lower_def)

definition hex_pairs :: "bytes \<Rightarrow> bytes" where
  "hex_pairs s = concat (map (\<lambda>b. [hex_char (drop_bit 4 b), hex_char (b AND 15)]) s)"

lemma Bin2Hex_pairs: "map to_lower (filter (\<lambda>c. c \<noteq> 32) (Bin2Hex s)) = hex_pairs s"
proof (induction s)
  case Nil
  then show ?case by (simp add: Bin2Hex_def hex_pairs_def)
next
  case (Cons b s)
  have "map to_lower (filter (\<lambda>c. c \<noteq> 32) (hex_byte b)) = [hex_char (drop_bit 4 b), hex_char (b AND 15)]"
    using hex_char_ok [OF nibble_bounds(1), of b] hex_char_ok [OF nibble_bounds(2), of b]
    by (simp add: hex_byte_ok)
  with Cons show ?case by (simp add: Bin2Hex_def hex_pairs_def)
qed

lemma length_hex_pairs [simp]: "length (hex_pairs s) = 2 * length s"
  by (induction s) (simp_all add: hex_pairs_def)

lemma hex2bin_loop_pairs:
  "cur + length s \<le> length ret \<Longrightarrow>
     hex2bin_loop (hex_pairs s) ret cur = take cur ret @ s @ drop (cur + length s) ret"
proof (induction s arbitrary: ret cur)
  case Nil
  then show ?case by (simp add: hex_pairs_def)
next
  case (Cons b s)
  have "hex2bin_loop (hex_pairs (b # s)) ret cur = hex2bin_loop (hex_pairs s) (ret[cur := b]) (Suc cur)"
    using hex_char_ok [OF nibble_bounds(1), of b] hex_char_ok [OF nibble_bounds(2), of b] nibbles_join [of b]
    by (simp add: hex_pairs_def)
  also have "\<dots> = take (Suc cur) (ret[cur := b]) @ s @ drop (Suc cur + length s) (ret[cur := b])"
    using Cons.prems by (intro Cons.IH) simp
  finally show ?case
    using Cons.prems by (simp add: take_Suc_conv_app_nth)
qed

lemma Hex2bin_Bin2Hex: "Hex2bin (Bin2Hex s) = s"
  using hex2bin_loop_pairs [of 0 s "replicate (length s) 0"]
  by (simp add: Hex2bin_def Bin2Hex_pairs)

lemma length_hex2bin_loop: "length (hex2bin_loop s ret cur) = length ret"
  by (induction s ret cur rule: hex2bin_loop.induct) (auto split: option.splits)

lemma length_Bin2Hex: "length (Bin2Hex s) = 3 * length s"
  by (induction s) (simp_all add: Bin2Hex_def hex_byte_def)

lemma Bin2Hex_no_nul: "0 \<notin> set (Bin2Hex s)"
proof -
  have "hex_char d \<noteq> 0" if "d < 16" for d using nibble_cases [OF that] by (auto simp: hex_char_def)
  then show ?thesis
    using nibble_bounds by (fastforce simp: Bin2Hex_def hex_byte_def)
qed

lemma Bin2Hex_no_quote: "39 \<notin> set (Bin2Hex s)"
proof -
  have "hex_char d \<noteq> 39" if "d < 16" for d using nibble_cases [OF that] by (auto simp: hex_char_def)
  then show ?thesis
    using nibble_bounds by (fastforce simp: Bin2Hex_def hex_byte_def)
qed

interpretation hex_text: codec Bin2Hex "\<lambda>s. Some (Hex2bin s)" "\<lambda>_. True"
  by unfold_locales (simp add: Hex2bin_Bin2Hex)

section \<open>Lemmas: base-128 numbers\<close>

text \<open>A well-formed number: up to five bytes, the top bit set on all but the last.\<close>

definition wf_varint :: "bytes \<Rightarrow> bool" where
  "wf_varint v \<longleftrightarrow> v \<noteq> [] \<and> length v \<le> 5 \<and> (\<forall>b \<in> set (butlast v). drop_bit 7 b \<noteq> 0) \<and> drop_bit 7 (last v) = 0"

text \<open>The number a string of base-128 digits stands for.\<close>

fun digits_val :: "bytes \<Rightarrow> nat" where
  "digits_val [] = 0"
| "digits_val (b # bs) = unat b mod 128 + 128 * digits_val bs"

lemma top_bit: "drop_bit 7 (b::byte) = 0 \<longleftrightarrow> unat b < 128"
proof -
  have "drop_bit 7 b = 0 \<longleftrightarrow> unat (drop_bit 7 b) = 0" by (simp add: unat_eq_0)
  then show ?thesis using unat_byte_lt [of b] by (simp add: unat_shr_byte div_eq_0_iff)
qed

lemma low_bits: "unat (ucast (b AND 127 :: byte) :: dword) = unat b mod 128"
  by (simp add: and_127_mask unat_mask_byte)

lemma s2d_loop_wf:
  assumes "v \<noteq> []" "\<forall>b \<in> set (butlast v). drop_bit 7 b \<noteq> 0" "drop_bit 7 (last v) = 0" "n + length v \<le> 5"
  shows "s2d_loop (v @ r) n ret t = (ret + of_nat (digits_val v) * t, n + length v)"
  using assms
proof (induction v arbitrary: n ret t)
  case Nil
  then show ?case by simp
next
  case (Cons c v)
  show ?case
  proof (cases "v = []")
    case True
    with Cons.prems have "unat c < 128" by (simp add: top_bit)
    then have "ucast c = (of_nat (unat c mod 128) :: dword)" by (simp add: dword_eq_iff unat_of_nat)
    with True Cons.prems show ?thesis by simp
  next
    case False
    with Cons.prems have top: "drop_bit 7 c \<noteq> 0" and n: "n < 5" by auto
    have low: "ucast (c AND 127) = (of_nat (unat c mod 128) :: dword)"
      by (simp add: dword_eq_iff and_127_mask unat_mask_byte unat_of_nat)
    have "s2d_loop (v @ r) (Suc n) (ret + of_nat (unat c mod 128) * t) (t * 0x80)
        = (ret + of_nat (unat c mod 128) * t + of_nat (digits_val v) * (t * 0x80), Suc n + length v)"
      using Cons.prems False by (intro Cons.IH) auto
    with top n low show ?thesis by (simp add: algebra_simps)
  qed
qed

lemma String2Dword_wf:
  assumes "wf_varint v"
  shows "String2Dword (v @ r) old = (of_nat (digits_val v), length v)"
proof -
  from assms have "s2d_loop (v @ r) 0 0 1 = (0 + of_nat (digits_val v) * 1, 0 + length v)"
    by (intro s2d_loop_wf) (auto simp: wf_varint_def)
  with assms show ?thesis by (simp add: String2Dword_def wf_varint_def)
qed

lemma s2d_loop_take5: "n + k = 5 \<Longrightarrow> s2d_loop (take k s) n ret t = s2d_loop s n ret t"
proof (induction s arbitrary: n k ret t)
  case Nil
  then show ?case by simp
next
  case (Cons c s)
  show ?case
  proof (cases k)
    case 0
    with Cons.prems show ?thesis by simp
  next
    case (Suc j)
    with Cons.prems show ?thesis by (simp add: Cons.IH)
  qed
qed

lemma String2Dword_take5: "String2Dword (take 5 s) old = String2Dword s old"
  by (simp add: String2Dword_def s2d_loop_take5)

lemma leb128_props:
  "n < 128 ^ Suc k \<Longrightarrow> leb128 n \<noteq> [] \<and> length (leb128 n) \<le> Suc k
     \<and> (\<forall>b \<in> set (butlast (leb128 n)). drop_bit 7 b \<noteq> 0) \<and> drop_bit 7 (last (leb128 n)) = 0
     \<and> digits_val (leb128 n) = n"
proof (induction k arbitrary: n)
  case 0
  then show ?case by (simp add: leb128.simps [of n] top_bit unat_of_nat_byte)
next
  case (Suc k)
  show ?case
  proof (cases "n < 128")
    case True
    then show ?thesis by (simp add: leb128.simps [of n] top_bit unat_of_nat_byte)
  next
    case False
    from Suc.prems have "n div 128 < 128 ^ Suc k" by (simp add: div_less_iff_less_mult mult.commute)
    note ih = Suc.IH [OF this]
    have "unat (of_nat (128 + n mod 128) :: byte) = 128 + n mod 128"
      by (rule unat_of_nat_byte) simp
    with ih False show ?thesis
      by (simp add: leb128.simps [of n] top_bit del: of_nat_add)
  qed
qed

lemma leb128_wf: "n < 2 ^ 32 \<Longrightarrow> wf_varint (leb128 n)" "n < 2 ^ 32 \<Longrightarrow> digits_val (leb128 n) = n"
  using leb128_props [of n 4] by (simp_all add: wf_varint_def)

text \<open>How many positions the writer takes.\<close>

fun positions :: "nat \<Rightarrow> nat \<Rightarrow> nat" where
  "positions 0 d = 0"
| "positions (Suc n) d = (if 128 ^ Suc n < d then Suc (positions n (d mod 128 ^ Suc n)) else positions n d)"

lemma d2s_loop_positions:
  assumes "n \<le> 4" "unat d2 = 128 ^ n" "d2s_loop n d d2 hex out = (d', hex', out')"
  shows "out' = out + positions n (unat d) \<and> length hex' = length hex"
  using assms
proof (induction n arbitrary: d d2 hex out)
  case 0
  then show ?case by simp
next
  case (Suc n)
  have d2: "unat (d2 div 0x80) = 128 ^ n" using Suc.prems(2) by (simp add: unat_div)
  show ?case
  proof (cases "d2 < d")
    case True
    with Suc.prems have "out' = Suc out + positions n (unat (d mod d2)) \<and> length hex' = length (hex[Suc n := ucast (d div d2)])"
      by (intro Suc.IH) (simp_all add: d2)
    with True Suc.prems(2) show ?thesis by (simp add: word_less_nat_alt unat_mod)
  next
    case False
    with Suc.prems have "out' = out + positions n (unat d) \<and> length hex' = length hex"
      by (intro Suc.IH) (simp_all add: d2)
    with False Suc.prems(2) show ?thesis by (simp add: word_less_nat_alt)
  qed
qed

lemma positions_le: "positions n d \<le> n"
  by (induction n arbitrary: d) (auto simp: le_SucI)

lemma length_Dword2String: "length (Dword2String w) = Suc (positions 4 (unat w))"
proof -
  obtain d hex out where r: "d2s_loop 4 w 0x10000000 (replicate 5 0) 0 = (d, hex, out)"
    by (metis prod_cases3)
  from d2s_loop_positions [OF _ _ this] have "out = positions 4 (unat w)" "length hex = 5" by simp_all
  with r positions_le [of 4 "unat w"] show ?thesis by (simp add: Dword2String_def Let_def)
qed

lemma positions_4:
  "positions 4 n = (let d3 = if 268435456 < n then n mod 268435456 else n;
       d2 = if 2097152 < d3 then d3 mod 2097152 else d3;
       d1 = if 16384 < d2 then d2 mod 16384 else d2
     in (if 268435456 < n then 1 else 0) + (if 2097152 < d3 then 1 else 0) + (if 16384 < d2 then 1 else 0)
        + (if 128 < d1 then 1 else 0))"
  using positions.simps(2) [of 3 n] positions.simps(2) [of 2] positions.simps(2) [of 1] positions.simps(2) [of 0]
  by (simp add: Let_def numeral_2_eq_2 [symmetric])

lemma not_exact_short: "\<not> varint_exact w \<Longrightarrow> 128 ^ Suc (positions 4 (unat w)) \<le> unat w"
proof -
  assume ne: "\<not> varint_exact w"
  define n where "n = unat w"
  from ne have ne': "\<not> n < 128" "\<not> (128 < n \<and> n < 16384)" "\<not> (16384 < n \<and> n < 2097152 \<and> 128 < n mod 16384)"
    "\<not> (2097152 < n \<and> n < 268435456 \<and> 16384 < n mod 2097152 \<and> 128 < n mod 16384)"
    "\<not> (268435456 < n \<and> 2097152 < n mod 268435456 \<and> 16384 < n mod 2097152 \<and> 128 < n mod 16384)"
    by (auto simp: varint_exact_def n_def Let_def)
  have mods: "n mod 268435456 mod 2097152 = n mod 2097152" "n mod 2097152 mod 16384 = n mod 16384"
    "n mod 268435456 mod 16384 = n mod 16384"
    by (simp_all add: mod_mod_cancel)
  have top: ?thesis if "positions 4 n \<le> k" "128 ^ Suc k \<le> n" for k
  proof -
    have "(128::nat) ^ Suc (positions 4 n) \<le> 128 ^ Suc k" using that by (intro power_increasing) simp_all
    with that show ?thesis unfolding n_def by (rule_tac order_trans)
  qed
  consider "n \<le> 128" | "128 < n" "n \<le> 16384" | "16384 < n" "n \<le> 2097152"
    | "2097152 < n" "n \<le> 268435456" | "268435456 < n"
    by linarith
  then show ?thesis
  proof cases
    case 1
    with ne'(1) show ?thesis by (intro top [of 0]) (simp_all add: positions_4)
  next
    case 2
    with ne'(2) have "n = 16384" by linarith
    then show ?thesis by (intro top [of 1]) (simp_all add: positions_4)
  next
    case 3
    with ne'(3) have "n = 2097152 \<or> n mod 16384 \<le> 128" by linarith
    with 3 show ?thesis by (intro top [of 1]) (auto simp: positions_4)
  next
    case 4
    with ne'(4) have "n = 268435456 \<or> n mod 2097152 \<le> 16384 \<or> n mod 16384 \<le> 128" by linarith
    with 4 show ?thesis by (intro top [of 2]) (auto simp: positions_4 Let_def mods)
  next
    case 5
    with ne'(5) have "n mod 268435456 \<le> 2097152 \<or> n mod 2097152 \<le> 16384 \<or> n mod 16384 \<le> 128" by linarith
    with 5 show ?thesis by (intro top [of 3]) (auto simp: positions_4 Let_def mods)
  qed
qed

lemma digits_val_less: "digits_val v < 128 ^ length v"
proof (induction v)
  case Nil
  then show ?case by simp
next
  case (Cons b v)
  have "unat b mod 128 < 128" by simp
  with Cons show ?case by simp
qed

lemma s2d_loop_prefix: "\<exists>j \<le> length v. fst (s2d_loop v n ret t) = ret + of_nat (digits_val (take j v)) * t"
proof (induction v arbitrary: n ret t)
  case Nil
  then show ?case by simp
next
  case (Cons c v)
  have low: "ucast (c AND 127) = (of_nat (unat c mod 128) :: dword)"
    by (simp add: dword_eq_iff and_127_mask unat_mask_byte unat_of_nat)
  show ?case
  proof (cases "n < 5")
    case False
    then show ?thesis by (intro exI [of _ 0]) simp
  next
    case n: True
    show ?thesis
    proof (cases "drop_bit 7 c = 0")
      case True
      then have "ucast c = (of_nat (unat c mod 128) :: dword)"
        by (simp add: dword_eq_iff unat_of_nat top_bit)
      with n True show ?thesis by (intro exI [of _ 1]) simp
    next
      case False
      obtain j where "j \<le> length v" "fst (s2d_loop v (Suc n) (ret + of_nat (unat c mod 128) * t) (t * 0x80))
          = ret + of_nat (unat c mod 128) * t + of_nat (digits_val (take j v)) * (t * 0x80)"
        using Cons.IH by blast
      with n False low show ?thesis by (intro exI [of _ "Suc j"]) (simp add: algebra_simps)
    qed
  qed
qed

lemma String2Dword_bound: "unat (fst (String2Dword v old)) < 128 ^ length v"
proof (cases "v = []")
  case True
  then show ?thesis by (simp add: String2Dword_def)
next
  case False
  obtain j where j: "j \<le> length v" and r: "fst (s2d_loop v 0 0 1) = 0 + of_nat (digits_val (take j v)) * (1::dword)"
    using s2d_loop_prefix by blast
  have "unat (of_nat (digits_val (take j v)) :: dword) \<le> digits_val (take j v)"
    by (simp add: unat_of_nat)
  also have "\<dots> < 128 ^ length (take j v)" by (rule digits_val_less)
  also have "\<dots> \<le> (128::nat) ^ length v" by (intro power_increasing) simp_all
  finally show ?thesis using r False by (simp add: String2Dword_def)
qed

lemma d2s_4: "d2s_loop 4 d d2 hex out =
    (if d > d2 then d2s_loop 3 (d mod d2) (d2 div 0x80) (hex[4 := ucast (d div d2)]) (Suc out)
     else d2s_loop 3 d (d2 div 0x80) hex out)"
  using d2s_loop.simps(2) [of 3] by simp

lemma d2s_3: "d2s_loop 3 d d2 hex out =
    (if d > d2 then d2s_loop 2 (d mod d2) (d2 div 0x80) (hex[3 := ucast (d div d2)]) (Suc out)
     else d2s_loop 2 d (d2 div 0x80) hex out)"
  using d2s_loop.simps(2) [of 2] by simp

lemma d2s_2: "d2s_loop 2 d d2 hex out =
    (if d > d2 then d2s_loop (Suc 0) (d mod d2) (d2 div 0x80) (hex[2 := ucast (d div d2)]) (Suc out)
     else d2s_loop (Suc 0) d (d2 div 0x80) hex out)"
  by (simp only: numeral_2_eq_2 d2s_loop.simps)

lemmas d2s_num = d2s_4 d2s_3 d2s_2

lemma replicate_5: "replicate 5 x = [x, x, x, x, x]"
  by (simp add: numeral_eq_Suc)

lemma digit_byte: "k < 128 \<Longrightarrow> unat (ucast w :: byte) = k \<Longrightarrow> ucast w + 128 = (of_nat (128 + k) :: byte)" for w :: dword
  by (simp add: byte_eq_iff unat_word_ariths unat_of_nat)

lemma div_mod_exchange: "0 < m \<Longrightarrow> n mod (m * q) div m = n div m mod (q::nat)"
  by (simp add: mod_mult2_eq div_add1_eq)

lemma words_of_bounds:
  fixes w :: dword
  shows "w > 0x10000000 \<longleftrightarrow> 268435456 < unat w" "w > 0x200000 \<longleftrightarrow> 2097152 < unat w"
    "w > 0x4000 \<longleftrightarrow> 16384 < unat w" "w > 0x80 \<longleftrightarrow> 128 < unat w"
  by (simp_all add: word_less_nat_alt)

lemma exact_2:
  assumes "128 < unat w" "unat w < 16384"
  shows "Dword2String w = [ucast (w mod 0x80) + 0x80, ucast (w div 0x80)]"
  using assms by (simp add: Dword2String_def d2s_num words_of_bounds replicate_5 not_less_iff_gr_or_eq unat_mod unat_div Let_def)

lemma exact_3:
  assumes "16384 < unat w" "unat w < 2097152" "128 < unat w mod 16384"
  shows "Dword2String w = [ucast (w mod 0x4000 mod 0x80) + 0x80, ucast (w mod 0x4000 div 0x80) + 0x80, ucast (w div 0x4000)]"
  using assms by (simp add: Dword2String_def d2s_num words_of_bounds replicate_5 unat_mod Let_def)

lemma exact_4:
  assumes "2097152 < unat w" "unat w < 268435456" "16384 < unat w mod 2097152" "128 < unat w mod 16384"
  shows "Dword2String w = [ucast (w mod 0x4000 mod 0x80) + 0x80, ucast (w mod 0x4000 div 0x80) + 0x80,
     ucast (w mod 0x200000 div 0x4000) + 0x80, ucast (w div 0x200000)]"
proof -
  have "w mod 0x200000 mod 0x4000 = w mod 0x4000"
    by (simp add: dword_eq_iff unat_mod mod_mod_cancel)
  with assms show ?thesis by (simp add: Dword2String_def d2s_num words_of_bounds replicate_5 unat_mod Let_def)
qed

lemma exact_5:
  assumes "268435456 < unat w" "2097152 < unat w mod 268435456" "16384 < unat w mod 2097152" "128 < unat w mod 16384"
  shows "Dword2String w = [ucast (w mod 0x4000 mod 0x80) + 0x80, ucast (w mod 0x4000 div 0x80) + 0x80,
     ucast (w mod 0x200000 div 0x4000) + 0x80, ucast (w mod 0x10000000 div 0x200000) + 0x80, ucast (w div 0x10000000)]"
proof -
  have "w mod 0x10000000 mod 0x200000 = w mod 0x200000" "w mod 0x200000 mod 0x4000 = w mod 0x4000"
    by (simp_all add: dword_eq_iff unat_mod mod_mod_cancel)
  with assms show ?thesis by (simp add: Dword2String_def d2s_num words_of_bounds replicate_5 unat_mod Let_def)
qed

text \<open>One continuation byte, and the last byte, against the reference digits.\<close>

lemma cont_byte: "unat w mod 256 mod 128 = k \<Longrightarrow> unat w < 128 \<Longrightarrow> ucast w + 0x80 = (of_nat (128 + k) :: byte)" for w :: dword
  by (rule digit_byte) (simp_all add: unat_ucast_dword_byte)

lemma last_byte: "unat w = k \<Longrightarrow> ucast w = (of_nat k :: byte)" for w :: dword
  by (simp add: byte_eq_iff unat_ucast_dword_byte unat_of_nat)

lemma chunk_7: "unat w mod (m * 128) div m = unat w div m mod 128" if "0 < m" for w :: dword
  using that by (rule div_mod_exchange)

lemma leb128_ge: "128 \<le> m \<Longrightarrow> leb128 m = of_nat (128 + m mod 128) # leb128 (m div 128)"
  by (simp add: leb128.simps [of m])

lemma leb128_lt: "m < 128 \<Longrightarrow> leb128 m = [of_nat m]"
  by (simp add: leb128.simps [of m])

lemma div_chain:
  fixes n :: nat
  shows "n div 128 div 128 = n div 16384" "n div 16384 div 128 = n div 2097152" "n div 2097152 div 128 = n div 268435456"
  by (simp_all add: div_mult2_eq [symmetric])

lemma chunk_digits:
  "unat w mod 16384 div 128 = unat w div 128 mod 128" "unat w mod 2097152 div 16384 = unat w div 16384 mod 128"
  "unat w mod 268435456 div 2097152 = unat w div 2097152 mod 128" "unat w mod 16384 mod 128 = unat w mod 128"
  for w :: dword
  using chunk_7 [of 128 w] chunk_7 [of 16384 w] chunk_7 [of 2097152 w] by (simp_all add: mod_mod_cancel)

lemma cont_digits:
  fixes w :: dword
  shows "ucast (w mod 0x4000 mod 0x80) + 0x80 = (of_nat (128 + unat w mod 128) :: byte)"
    "ucast (w mod 0x4000 div 0x80) + 0x80 = (of_nat (128 + unat w div 128 mod 128) :: byte)"
    "ucast (w mod 0x200000 div 0x4000) + 0x80 = (of_nat (128 + unat w div 16384 mod 128) :: byte)"
    "ucast (w mod 0x10000000 div 0x200000) + 0x80 = (of_nat (128 + unat w div 2097152 mod 128) :: byte)"
  by (rule cont_byte, simp add: unat_mod unat_div chunk_digits, simp add: unat_mod unat_div chunk_digits)+

lemma cont_digit: "ucast (w mod 0x80) + 0x80 = (of_nat (128 + unat w mod 128) :: byte)" for w :: dword
  by (rule cont_byte) (simp_all add: unat_mod)

lemma last_digits:
  fixes w :: dword
  shows "ucast (w div 0x80) = (of_nat (unat w div 128) :: byte)"
    "ucast (w div 0x4000) = (of_nat (unat w div 16384) :: byte)"
    "ucast (w div 0x200000) = (of_nat (unat w div 2097152) :: byte)"
    "ucast (w div 0x10000000) = (of_nat (unat w div 268435456) :: byte)"
  by (rule last_byte, simp add: unat_div)+

lemma Dword2String_leb128:
  assumes "varint_exact w"
  shows "Dword2String w = leb128 (unat w)"
proof -
  let ?n = "unat w"
  have small: "?n div 268435456 < 128" using unat_dword_lt [of w] by simp
  note steps = div_chain div_less_iff_less_mult less_eq_div_iff_mult_less_eq
  from assms consider "?n < 128" | "128 < ?n" "?n < 16384" | "16384 < ?n" "?n < 2097152" "128 < ?n mod 16384"
    | "2097152 < ?n" "?n < 268435456" "16384 < ?n mod 2097152" "128 < ?n mod 16384"
    | "268435456 < ?n" "2097152 < ?n mod 268435456" "16384 < ?n mod 2097152" "128 < ?n mod 16384"
    unfolding varint_exact_def Let_def by (elim disjE conjE) simp_all
  then show ?thesis
  proof cases
    case 1
    then have "Dword2String w = [ucast w]"
      by (simp add: Dword2String_def d2s_num words_of_bounds replicate_5 Let_def)
    with 1 show ?thesis by (simp only: leb128_lt last_byte [OF refl])
  next
    case 2
    then have b: "128 \<le> ?n" "?n div 128 < 128" by (simp_all add: steps)
    show ?thesis
      unfolding exact_2 [OF 2] cont_digit last_digits leb128_ge [OF b(1)] leb128_lt [OF b(2)] ..
  next
    case 3
    then have b: "128 \<le> ?n" "128 \<le> ?n div 128" "?n div 128 div 128 < 128" by (simp_all add: steps)
    show ?thesis
      unfolding exact_3 [OF 3] cont_digits unfolding last_digits leb128_ge [OF b(1)] leb128_ge [OF b(2)] leb128_lt [OF b(3)] unfolding div_chain ..
  next
    case 4
    then have b: "128 \<le> ?n" "128 \<le> ?n div 128" "128 \<le> ?n div 128 div 128" "?n div 128 div 128 div 128 < 128"
      by (simp_all add: steps)
    show ?thesis
      unfolding exact_4 [OF 4] cont_digits unfolding last_digits leb128_ge [OF b(1)] leb128_ge [OF b(2)] leb128_ge [OF b(3)]
        leb128_lt [OF b(4)] unfolding div_chain ..
  next
    case 5
    then have b: "128 \<le> ?n" "128 \<le> ?n div 128" "128 \<le> ?n div 128 div 128" "128 \<le> ?n div 128 div 128 div 128"
      "?n div 128 div 128 div 128 div 128 < 128" using small by (simp_all add: steps)
    show ?thesis
      unfolding exact_5 [OF 5] cont_digits unfolding last_digits leb128_ge [OF b(1)] leb128_ge [OF b(2)] leb128_ge [OF b(3)]
        leb128_ge [OF b(4)] leb128_lt [OF b(5)] unfolding div_chain ..
  qed
qed

lemma Dword2String_wf: "varint_exact w \<Longrightarrow> wf_varint (Dword2String w) \<and> digits_val (Dword2String w) = unat w"
  using leb128_wf [of "unat w"] unat_dword_lt [of w] by (simp add: Dword2String_leb128)

lemma Dword2String_not_wf:
  "\<not> varint_exact w \<Longrightarrow> unat (fst (String2Dword (Dword2String w) old)) < unat w"
  using String2Dword_bound [of "Dword2String w" old] not_exact_short [of w] by (simp add: length_Dword2String)

text \<open>The reader as a prefix decoder. The empty string and a string of continuation bytes only are
  not numbers; for those the code's result is not used by a caller that checks, so the reading
  function fails.\<close>

definition read_varint :: "bytes \<Rightarrow> (dword \<times> nat) option" where
  "read_varint s = (if s = [] then None else Some (String2Dword s 0))"

interpretation varint: prefix_codec Dword2String read_varint varint_exact
  using Dword2String_wf
  by unfold_locales (auto simp: read_varint_def String2Dword_wf wf_varint_def)

section \<open>Properties\<close>

text \<open>C23: \<^verbatim>\<open>String2Dword\<close> reads back what \<^verbatim>\<open>Dword2String\<close> wrote exactly when the number is
  \<open>varint_exact\<close>; the writer's strict comparison loses every other number (128 is the
  smallest, and every number from 16384 to 16512 is lost).\<close>

theorem varint_roundtrip_iff: "fst (String2Dword (Dword2String w) old) = w \<longleftrightarrow> varint_exact w"
proof
  assume "varint_exact w"
  then have "wf_varint (Dword2String w)" "digits_val (Dword2String w) = unat w"
    using Dword2String_wf by blast+
  then show "fst (String2Dword (Dword2String w) old) = w"
    using String2Dword_wf [of "Dword2String w" "[]" old] by simp
next
  assume r: "fst (String2Dword (Dword2String w) old) = w"
  show "varint_exact w"
  proof (rule ccontr)
    assume "\<not> varint_exact w"
    from Dword2String_not_wf [OF this, of old] r show False by simp
  qed
qed

text \<open>Where the number is exact, the writer agrees with the standard base-128 coding, and the
  reader finds it, with its length, at the front of whatever follows.\<close>

theorem varint_prefix:
  assumes "varint_exact w"
  shows "Dword2String w = leb128 (unat w)
    \<and> String2Dword (take 5 (Dword2String w @ rest)) old = (w, length (Dword2String w))"
  using Dword2String_wf [OF assms] Dword2String_leb128 [OF assms]
  by (simp only: String2Dword_take5) (simp add: String2Dword_wf)

theorem varint_prefix_witness:
  "varint_exact 701 \<and> Dword2String 701 = leb128 701
    \<and> String2Dword (take 5 (Dword2String 701 @ [7, 7, 7, 7])) 0 = (701, length (Dword2String 701))"
proof -
  have e: "varint_exact 701" by (simp add: varint_exact_def)
  have u: "unat (701 :: dword) = 701" by simp
  show ?thesis using e varint_prefix [OF e, of "[7, 7, 7, 7]" 0, unfolded u] by blast
qed

text \<open>Hexadecimal text is a faithful store of binary data: decoding what \<^verbatim>\<open>Bin2Hex\<close> wrote gives
  the bytes back, and the text is three characters per byte, with no NUL and no quote.\<close>

theorem hex_store:
  "Hex2bin (Bin2Hex s) = s \<and> length (Bin2Hex s) = 3 * length s
     \<and> 0 \<notin> set (Bin2Hex s) \<and> 39 \<notin> set (Bin2Hex s)"
  by (simp add: Hex2bin_Bin2Hex length_Bin2Hex Bin2Hex_no_nul Bin2Hex_no_quote)

end
