(* ===== verification/External.thy ===== *)
theory External imports Codec begin

text \<open>
  What the client calls but does not implement: OpenSSL, zlib, the protobuf runtime with its
  generated classes, and the Windows code-page conversions. They are the fields of \<open>ext\<close>, a
  parameter of every definition that uses them. A protobuf message is a finite list of named
  fields; the accessors give a missing field its protobuf default, as the generated code does.
  \<open>aes_ok\<close>, \<open>zlib_ok\<close> and \<open>rsa_ok\<close> state the documented behaviour some theorems rely on, \<open>cipher_ok\<close>
  adds that allocations succeed. The two
  code-page helpers of \<^verbatim>\<open>fun.cpp\<close>, which only compose API calls, are here too.
\<close>

section \<open>Protobuf messages\<close>

datatype pb = PB "(string \<times> pbval) list"
  and pbval = PInt int | PBytes bytes | PMsg pb | PRep "pb list"

fun pb_get :: "pb \<Rightarrow> string \<Rightarrow> pbval option" where
  "pb_get (PB fs) f = map_of fs f"

definition pb_int :: "pb \<Rightarrow> string \<Rightarrow> int" where
  "pb_int m f = (case pb_get m f of Some (PInt i) \<Rightarrow> i | _ \<Rightarrow> 0)"

definition pb_bytes :: "pb \<Rightarrow> string \<Rightarrow> bytes" where
  "pb_bytes m f = (case pb_get m f of Some (PBytes b) \<Rightarrow> b | _ \<Rightarrow> [])"

definition pb_sub :: "pb \<Rightarrow> string \<Rightarrow> pb" where
  "pb_sub m f = (case pb_get m f of Some (PMsg s) \<Rightarrow> s | _ \<Rightarrow> PB [])"

definition pb_rep :: "pb \<Rightarrow> string \<Rightarrow> pb list" where
  "pb_rep m f = (case pb_get m f of Some (PRep ms) \<Rightarrow> ms | _ \<Rightarrow> [])"

text \<open>A nested field, by its path.\<close>

fun pb_path :: "pb \<Rightarrow> string list \<Rightarrow> pb" where
  "pb_path m [] = m"
| "pb_path m (f # fs) = pb_path (pb_sub m f) fs"

section \<open>The external functions\<close>

record ext =
  \<comment> \<open>OpenSSL AES: which key lengths (in bits) the key schedule takes, and CBC over key, iv, data\<close>
  aes_key_ok :: "nat \<Rightarrow> bool"
  aes_cbc_enc :: "bytes \<Rightarrow> bytes \<Rightarrow> bytes \<Rightarrow> bytes"
  aes_cbc_dec :: "bytes \<Rightarrow> bytes \<Rightarrow> bytes \<Rightarrow> bytes"
  \<comment> \<open>zlib\<close>
  z_bound :: "nat \<Rightarrow> nat"
  z_compress :: "bytes \<Rightarrow> bytes option"
  z_uncompress :: "bytes \<Rightarrow> nat \<Rightarrow> bytes option"
  \<comment> \<open>whether an allocation of that many bytes succeeds\<close>
  alloc_ok :: "nat \<Rightarrow> bool"
  \<comment> \<open>OpenSSL RSA: number parsing, modulus size, PKCS1 encryption of one block under (e, n)\<close>
  bn_ok :: "bytes \<Rightarrow> bool"
  rsa_size :: "bytes \<Rightarrow> nat"
  rsa_enc :: "bytes \<Rightarrow> bytes \<Rightarrow> bytes \<Rightarrow> bytes option"
  \<comment> \<open>OpenSSL EC: known curves, key generation, the encoded fresh keys (reported length, buffer)\<close>
  ec_curve_ok :: "nat \<Rightarrow> bool"
  ec_generate_ok :: "nat \<Rightarrow> bool"
  ec_public :: "nat \<Rightarrow> nat \<times> bytes option"
  ec_private :: "nat \<Rightarrow> nat \<times> bytes option"
  ec_parse_public :: "nat \<Rightarrow> bytes \<Rightarrow> bool"
  ec_parse_private :: "nat \<Rightarrow> bytes \<Rightarrow> bool"
  ec_shared :: "nat \<Rightarrow> bytes \<Rightarrow> bytes \<Rightarrow> bytes option"
  md5 :: "bytes \<Rightarrow> bytes"
  \<comment> \<open>Windows code pages: to and from wide characters\<close>
  to_wide :: "nat \<Rightarrow> bytes \<Rightarrow> ushort list"
  from_wide :: "nat \<Rightarrow> ushort list \<Rightarrow> bytes"
  \<comment> \<open>protobuf: serialise a message of a type, parse bytes as a message of a type\<close>
  pb_ser :: "string \<Rightarrow> pb \<Rightarrow> bytes"
  pb_parse :: "string \<Rightarrow> bytes \<Rightarrow> pb option"

definition CP_ACP :: nat where "CP_ACP = 0"
definition CP_UTF8 :: nat where "CP_UTF8 = 65001"

definition CStringA2Utf8 :: "ext \<Rightarrow> bytes \<Rightarrow> bytes" where
  "CStringA2Utf8 E strGbk = from_wide E CP_UTF8 (to_wide E CP_ACP strGbk)"

definition Utf82CStringA :: "ext \<Rightarrow> bytes \<Rightarrow> bytes" where
  "Utf82CStringA E strUtf8 = from_wide E CP_ACP (to_wide E CP_UTF8 strUtf8)"

section \<open>Documented behaviour\<close>

text \<open>AES takes 128, 192 and 256 bit keys; CBC works on whole 16-byte blocks, keeps the
  length there, and decryption under the same key and iv undoes encryption.\<close>

definition aes_ok :: "ext \<Rightarrow> bool" where
  "aes_ok E \<longleftrightarrow>
     (\<forall>n. aes_key_ok E n \<longleftrightarrow> n \<in> {128, 192, 256})
   \<and> (\<forall>k iv d. 16 dvd length d \<longrightarrow> length (aes_cbc_enc E k iv d) = length d
        \<and> aes_cbc_dec E k iv (aes_cbc_enc E k iv d) = d)"

text \<open>The buffers of the cipher code can be allocated. This is no documented behaviour but the case that
  the theorems on the two AES paths are about: where an allocation fails, encrypting gives nothing and
  decrypting a compressed message throws.\<close>

definition buffers_allocate :: "ext \<Rightarrow> bool" where
  "buffers_allocate E \<longleftrightarrow> (\<forall>n. alloc_ok E n)"

definition cipher_ok :: "ext \<Rightarrow> bool" where
  "cipher_ok E \<longleftrightarrow> aes_ok E \<and> buffers_allocate E"

text \<open>What \<^verbatim>\<open>uncompress\<close> gives for what \<^verbatim>\<open>compress\<close> wrote, with room for exactly the original.\<close>

definition zlib_ok :: "ext \<Rightarrow> bool" where
  "zlib_ok E \<longleftrightarrow> (\<forall>s c. z_compress E s = Some c \<longrightarrow> z_uncompress E c (length s) = Some s)"

text \<open>PKCS1 encryption takes blocks of up to \<open>size - 11\<close> bytes and gives \<open>size\<close> bytes.\<close>

definition rsa_ok :: "ext \<Rightarrow> bool" where
  "rsa_ok E \<longleftrightarrow> (\<forall>e n b. length b + 11 \<le> rsa_size E n \<longrightarrow>
     (\<exists>c. rsa_enc E e n b = Some c \<and> length c = rsa_size E n))"

lemma cipher_okD:
  assumes "cipher_ok E"
  shows "aes_key_ok E n \<longleftrightarrow> n \<in> {128, 192, 256}" "alloc_ok E n"
    and "16 dvd length d \<Longrightarrow> length (aes_cbc_enc E k iv d) = length d"
    and "16 dvd length d \<Longrightarrow> aes_cbc_dec E k iv (aes_cbc_enc E k iv d) = d"
  using assms by (auto simp: cipher_ok_def aes_ok_def buffers_allocate_def)

section \<open>An instance\<close>

text \<open>A concrete instance of the parameters that meets the documented behaviour, used by the
  witnesses: reversal as the cipher, storing as compression, zero padding as RSA, and messages
  serialised to nothing.\<close>

definition sample_ext :: ext where
  "sample_ext = \<lparr>
     aes_key_ok = (\<lambda>n. n \<in> {128, 192, 256}),
     aes_cbc_enc = (\<lambda>k iv d. rev d),
     aes_cbc_dec = (\<lambda>k iv d. rev d),
     z_bound = (\<lambda>n. n + 13),
     z_compress = Some,
     z_uncompress = (\<lambda>c n. if length c \<le> n then Some c else None),
     alloc_ok = (\<lambda>_. True),
     bn_ok = (\<lambda>s. s \<noteq> []),
     rsa_size = (\<lambda>n. length n),
     rsa_enc = (\<lambda>e n b. if length b + 11 \<le> length n then Some (resize (length n) b) else None),
     ec_curve_ok = (\<lambda>nid. nid = 713),
     ec_generate_ok = (\<lambda>_. True),
     ec_public = (\<lambda>_. (3, Some [4, 5, 6])),
     ec_private = (\<lambda>_. (3, Some [4, 5, 6])),
     ec_parse_public = (\<lambda>_ s. s \<noteq> []),
     ec_parse_private = (\<lambda>_ s. s \<noteq> []),
     ec_shared = (\<lambda>_ p q. if p = q then Some p else None),
     md5 = (\<lambda>s. resize 16 s),
     to_wide = (\<lambda>_ s. map ucast s),
     from_wide = (\<lambda>_ s. map ucast s),
     pb_ser = (\<lambda>_ _. []),
     pb_parse = (\<lambda>_ _. Some (PB [])) \<rparr>"

lemma sample_cipher_ok: "cipher_ok sample_ext"
  by (simp add: cipher_ok_def aes_ok_def buffers_allocate_def sample_ext_def)

lemma sample_zlib_ok: "zlib_ok sample_ext"
  by (simp add: zlib_ok_def sample_ext_def)

lemma sample_rsa_ok: "rsa_ok sample_ext"
  by (simp add: rsa_ok_def sample_ext_def)

end
