(* ===== verification/Crypto.thy ===== *)
theory Crypto imports External begin

text \<open>
  \<^verbatim>\<open>Business/crypto/mmCryptInterface.cpp\<close>: compression and AES-CBC with the client's own padding,
  blockwise RSA, the ECDH key agreement with its MD5 key derivation, and MD5 as text. OpenSSL and
  zlib are the parameter \<open>E\<close>. The lemmas show the padding and the two AES paths invert, that the RSA
  blocks partition the input within the PKCS1 limit, and what every error path returns.
\<close>

section \<open>AES\<close>

text \<open>The padding of both encryptors: to the next multiple of the \<^emph>\<open>key\<close> length, a whole
  block when it already fits.\<close>

definition padding_len :: "bytes \<Rightarrow> bytes \<Rightarrow> nat" where
  "padding_len key s = length key - length s mod length key"

definition aes_pad :: "bytes \<Rightarrow> bytes \<Rightarrow> bytes" where
  "aes_pad key s = s @ replicate (padding_len key s) (of_nat (padding_len key s))"

definition nocompress_aes :: "ext \<Rightarrow> bytes \<Rightarrow> bytes \<Rightarrow> bytes" where
  "nocompress_aes E key inp =
     (if \<not> aes_key_ok E (length key * 8) then []
      else let uiTotalLen = length inp + padding_len key inp
           in if \<not> alloc_ok E uiTotalLen then []
              else resize uiTotalLen (aes_cbc_enc E key key (aes_pad key inp)))"

text \<open>Returns the ciphertext and \<^verbatim>\<open>dwLenCompressed\<close>.\<close>

definition compress_aes :: "ext \<Rightarrow> bytes \<Rightarrow> bytes \<Rightarrow> bytes \<times> nat" where
  "compress_aes E key inp =
     (case z_compress E inp of
        None \<Rightarrow> ([], z_bound E (length inp))
      | Some strCompressed \<Rightarrow>
          (if \<not> aes_key_ok E (length key * 8) then ([], length strCompressed)
           else let uiTotalLen = length strCompressed + padding_len key strCompressed
                in if \<not> alloc_ok E uiTotalLen then ([], length strCompressed)
                   else (resize uiTotalLen (aes_cbc_enc E key key (aes_pad key strCompressed)),
                         length strCompressed)))"

text \<open>The padding length is read through a signed \<^verbatim>\<open>char\<close>: a byte from 128 up becomes a huge
  unsigned number.\<close>

definition sign_extend_char :: "byte \<Rightarrow> nat" where
  "sign_extend_char b = (if unat b < 128 then unat b else unat b + (2 ^ 32 - 256))"

text \<open>Shrinking by more than the length wraps to a huge size, which \<^verbatim>\<open>resize\<close> refuses by
  throwing.\<close>

definition strip_padding :: "bytes \<Rightarrow> bytes \<Rightarrow> bytes option res" where
  "strip_padding key s =
     (let uiPaddingLen = sign_extend_char (last s)
      in if uiPaddingLen > length key then ok None
         else if uiPaddingLen > length s then crash OutOfRange
         else ok (Some (take (length s - uiPaddingLen) s)))"

definition aes_nouncompress :: "ext \<Rightarrow> bytes \<Rightarrow> bytes \<Rightarrow> bytes res" where
  "aes_nouncompress E key inp =
     (if inp = [] then ok []
      else if \<not> aes_key_ok E (length key * 8) then ok []
      else and_then (strip_padding key (resize (length inp) (aes_cbc_dec E key key inp)))
             (\<lambda>r. case r of None \<Rightarrow> ok [] | Some strCompressed \<Rightarrow> ok strCompressed))"

definition aes_uncompress :: "ext \<Rightarrow> bytes \<Rightarrow> bytes \<Rightarrow> nat \<Rightarrow> bytes res" where
  "aes_uncompress E key inp dwLenOut =
     (if inp = [] then ok []
      else if \<not> aes_key_ok E (length key * 8) then ok []
      else and_then (strip_padding key (resize (length inp) (aes_cbc_dec E key key inp)))
             (\<lambda>r. case r of
                None \<Rightarrow> ok []
              | Some strCompressed \<Rightarrow>
                  (if \<not> alloc_ok E dwLenOut then crash NoMemory
                   else case z_uncompress E strCompressed dwLenOut of
                          None \<Rightarrow> ok []
                        | Some strOut \<Rightarrow> if length strOut \<noteq> dwLenOut then ok [] else ok strOut)))"

section \<open>RSA\<close>

text \<open>\<^verbatim>\<open>rsa_len - 12\<close> as the unsigned divisor the comparison and the divisions use.\<close>

definition rsa_chunk :: "nat \<Rightarrow> nat" where
  "rsa_chunk rsa_len = nat ((int rsa_len - 12) mod 2 ^ 32)"

definition block_count :: "nat \<Rightarrow> nat \<Rightarrow> nat" where
  "block_count n chunk = n div chunk + (if n mod chunk = 0 then 0 else 1)"

text \<open>The \<open>i\<close>-th plaintext block: a full chunk, or what is left.\<close>

definition rsa_block :: "bytes \<Rightarrow> nat \<Rightarrow> nat \<Rightarrow> nat \<Rightarrow> bytes" where
  "rsa_block s chunk cnt i =
     (let blockSize = (if i = cnt - 1 then length s - i * chunk else chunk)
      in take blockSize (drop (i * chunk) s))"

text \<open>Encrypting block by block into an output of \<open>cnt * rsa_len\<close> bytes. One failure empties the
  output for good, whatever the later blocks do.\<close>

definition rsa_blocks :: "ext \<Rightarrow> bytes \<Rightarrow> bytes \<Rightarrow> bytes list \<Rightarrow> bytes" where
  "rsa_blocks E e n blocks =
     (if \<exists>b \<in> set blocks. rsa_enc E e n b = None then []
      else concat (map (\<lambda>b. resize (rsa_size E n) (the (rsa_enc E e n b))) blocks))"

definition nocompress_rsa :: "ext \<Rightarrow> bytes \<Rightarrow> bytes \<Rightarrow> bytes \<Rightarrow> bytes res" where
  "nocompress_rsa E keye keyn inp =
     (if \<not> bn_ok E keyn \<or> \<not> bn_ok E keye then ok []
      else let rsa_len = rsa_size E keyn
           in if int (length inp) \<ge> int rsa_len - 12
              then let chunk = rsa_chunk rsa_len; cnt = block_count (length inp) chunk
                   in if chunk = 0 then crash DivideByZero
                      else ok (rsa_blocks E keye keyn (map (rsa_block inp chunk cnt) [0..<cnt]))
              else ok (rsa_blocks E keye keyn [inp]))"

definition compress_rsa :: "ext \<Rightarrow> bytes \<Rightarrow> bytes \<Rightarrow> bytes \<Rightarrow> (bytes \<times> nat) res" where
  "compress_rsa E keye keyn inp =
     (case z_compress E inp of
        None \<Rightarrow> ok ([], z_bound E (length inp))
      | Some strCompressed \<Rightarrow>
          (if \<not> bn_ok E keyn \<or> \<not> bn_ok E keye then ok ([], length strCompressed)
           else let rsa_len = rsa_size E keyn
                in if int (length strCompressed) \<ge> int rsa_len - 12
                   then let chunk = rsa_chunk rsa_len; cnt = block_count (length strCompressed) chunk
                        in if chunk = 0 then crash DivideByZero
                           else ok (rsa_blocks E keye keyn (map (rsa_block strCompressed chunk cnt) [0..<cnt]),
                                    length strCompressed)
                   else ok (rsa_blocks E keye keyn [strCompressed], length strCompressed)))"

section \<open>MD5 and ECDH\<close>

definition MD5_DIGEST_LENGTH :: nat where "MD5_DIGEST_LENGTH = 16"

text \<open>An empty input gives an empty string, not the digest of the empty string.\<close>

definition GetMd5 :: "ext \<Rightarrow> bytes \<Rightarrow> bytes" where
  "GetMd5 E inp = (if inp = [] then [] else resize MD5_DIGEST_LENGTH (md5 E inp))"

definition GetMd5_32 :: "ext \<Rightarrow> bytes \<Rightarrow> bytes" where
  "GetMd5_32 E inp = concat (map (\<lambda>b. [hex_char (drop_bit 4 b), hex_char (b AND 15)]) (GetMd5 E inp))"

text \<open>Returns the flag and the two key strings, which keep their old value or an interim size
  when a step fails.\<close>

definition GenEcdh :: "ext \<Rightarrow> nat \<Rightarrow> bytes \<Rightarrow> bytes \<Rightarrow> bool \<times> bytes \<times> bytes" where
  "GenEcdh E nid strPubKey strPriKey =
     (if \<not> ec_curve_ok E nid then (False, strPubKey, strPriKey)
      else if \<not> ec_generate_ok E nid then (False, strPubKey, strPriKey)
      else let (nLenPub, pub) = ec_public E nid
           in case pub of
                None \<Rightarrow> (False, resize nLenPub strPubKey, strPriKey)
              | Some p \<Rightarrow>
                  (let (nLenPri, pri) = ec_private E nid
                   in case pri of
                        None \<Rightarrow> (False, take nLenPub p, resize nLenPri strPriKey)
                      | Some q \<Rightarrow> (True, take nLenPub p, take nLenPri q)))"

text \<open>The key derivation: \<open>None\<close> is a null result, which makes \<^verbatim>\<open>ECDH_compute_key\<close> fail.\<close>

definition KDF_MD5 :: "ext \<Rightarrow> bytes \<Rightarrow> nat \<Rightarrow> bytes option" where
  "KDF_MD5 E inp outlen =
     (if outlen < MD5_DIGEST_LENGTH then None
      else let strOut = GetMd5 E inp
           in if length strOut = MD5_DIGEST_LENGTH then Some strOut else None)"

datatype ecdh_result =
    EcdhKey bytes        \<comment> \<open>the derived key, empty when an input could not be parsed\<close>
  | EcdhDoubleFree       \<comment> \<open>both EC keys are freed twice\<close>

definition DoEcdh :: "ext \<Rightarrow> nat \<Rightarrow> bytes \<Rightarrow> bytes \<Rightarrow> ecdh_result" where
  "DoEcdh E nid strServerPubKey strLocalPriKey =
     (if \<not> ec_curve_ok E nid then EcdhKey []
      else if \<not> ec_parse_public E nid strServerPubKey then EcdhKey []
      else if \<not> ec_parse_private E nid strLocalPriKey then EcdhKey []
      else case ec_shared E nid strServerPubKey strLocalPriKey of
             None \<Rightarrow> EcdhDoubleFree
           | Some z \<Rightarrow> (case KDF_MD5 E z MD5_DIGEST_LENGTH of
                          None \<Rightarrow> EcdhDoubleFree
                        | Some key \<Rightarrow> EcdhKey key))"

section \<open>Lemmas: AES\<close>

lemma padding_len_bounds: "0 < length key \<Longrightarrow> 0 < padding_len key s \<and> padding_len key s \<le> length key"
  by (simp add: padding_len_def)

lemma length_aes_pad: "length (aes_pad key s) = length s + padding_len key s"
  by (simp add: aes_pad_def)

lemma aes_pad_dvd:
  assumes "0 < length key"
  shows "length key dvd length (aes_pad key s)"
proof -
  let ?k = "length key"
  have "length s mod ?k \<le> ?k" using assms by (simp add: less_imp_le)
  then have "length s + (?k - length s mod ?k) = length s div ?k * ?k + ?k"
    using div_mult_mod_eq [of "length s" ?k] by linarith
  then have "length (aes_pad key s) = (Suc (length s div ?k)) * ?k"
    by (simp only: length_aes_pad padding_len_def mult_Suc add.commute)
  then show ?thesis by (metis dvd_triv_right)
qed

lemma strip_aes_pad:
  assumes "0 < length key" "length key < 128"
  shows "strip_padding key (aes_pad key s) = ok (Some s)"
proof -
  let ?p = "padding_len key s"
  have p: "0 < ?p" "?p \<le> length key" using padding_len_bounds [OF assms(1)] by auto
  then have "sign_extend_char (last (aes_pad key s)) = ?p"
    using assms(2) by (simp add: aes_pad_def sign_extend_char_def unat_of_nat_byte last_replicate)
  with p show ?thesis
    by (simp add: strip_padding_def Let_def length_aes_pad aes_pad_def)
qed

text \<open>Encrypting pads to whole cipher blocks, so decryption sees exactly the padded text.\<close>

lemma aes_key_facts:
  assumes "cipher_ok E" "length key \<in> {16, 32}"
  shows "aes_key_ok E (length key * 8)" "0 < length key" "length key < 128" "16 dvd length key"
    "alloc_ok E n"
  using assms by (auto simp: cipher_okD)

lemma aes_blocks:
  assumes "cipher_ok E" "length key \<in> {16, 32}"
  shows "16 dvd length (aes_pad key s)" "aes_pad key s \<noteq> []"
    and "resize (length s + padding_len key s) (aes_cbc_enc E key key (aes_pad key s)) = aes_cbc_enc E key key (aes_pad key s)"
proof -
  note k = aes_key_facts [OF assms]
  show d: "16 dvd length (aes_pad key s)" using k(4) aes_pad_dvd [OF k(2)] by (rule dvd_trans)
  show "aes_pad key s \<noteq> []" using padding_len_bounds [OF k(2), of s] by (simp add: aes_pad_def)
  show "resize (length s + padding_len key s) (aes_cbc_enc E key key (aes_pad key s)) = aes_cbc_enc E key key (aes_pad key s)"
    using cipher_okD(3) [OF assms(1) d, of key key] by (simp add: resize_exact length_aes_pad)
qed

lemma nocompress_aes_value:
  assumes "cipher_ok E" "length key \<in> {16, 32}"
  shows "nocompress_aes E key s = aes_cbc_enc E key key (aes_pad key s)"
  using aes_blocks [OF assms, of s] aes_key_facts [OF assms] cipher_okD(2) [OF assms(1)] by (simp add: nocompress_aes_def Let_def)

lemma aes_decrypt_padded:
  assumes "cipher_ok E" "length key \<in> {16, 32}"
  shows "strip_padding key (resize (length (aes_cbc_enc E key key (aes_pad key s)))
           (aes_cbc_dec E key key (aes_cbc_enc E key key (aes_pad key s)))) = ok (Some s)"
  using aes_blocks [OF assms, of s] aes_key_facts [OF assms] cipher_okD(3,4) [OF assms(1), of "aes_pad key s" key key]
  by (simp add: resize_exact strip_aes_pad)

lemma aes_cipher_nonempty:
  assumes "cipher_ok E" "length key \<in> {16, 32}"
  shows "aes_cbc_enc E key key (aes_pad key s) \<noteq> []"
  using aes_blocks [OF assms, of s] aes_key_facts [OF assms] cipher_okD(3) [OF assms(1), of "aes_pad key s" key key] by auto

lemma aes_roundtrip:
  assumes "cipher_ok E" "length key \<in> {16, 32}"
  shows "aes_nouncompress E key (nocompress_aes E key s) = ok s"
  using aes_decrypt_padded [OF assms, of s] aes_cipher_nonempty [OF assms, of s] aes_key_facts(1) [OF assms]
  by (simp add: aes_nouncompress_def nocompress_aes_value [OF assms])

lemma aes_zip_roundtrip:
  assumes "cipher_ok E" "zlib_ok E" "length key \<in> {16, 32}" "z_compress E s = Some z"
  shows "aes_uncompress E key (fst (compress_aes E key s)) (length s) = ok s"
proof -
  have "fst (compress_aes E key s) = aes_cbc_enc E key key (aes_pad key z)"
    using aes_blocks [OF assms(1,3), of z] aes_key_facts [OF assms(1,3)] cipher_okD(2) [OF assms(1)] assms(4)
    by (simp add: compress_aes_def Let_def)
  moreover have "z_uncompress E z (length s) = Some s"
    using assms(2,4) by (simp add: zlib_ok_def)
  ultimately show ?thesis
    using aes_decrypt_padded [OF assms(1,3), of z] aes_cipher_nonempty [OF assms(1,3), of z]
      aes_key_facts(1) [OF assms(1,3)] cipher_okD(2) [OF assms(1)]
    by (simp add: aes_uncompress_def)
qed

text \<open>A key of any other length encrypts nothing: the request is empty, and the task fails.\<close>

lemma bad_key_no_request:
  assumes "cipher_ok E" "length key \<notin> {16, 24, 32}"
  shows "nocompress_aes E key s = []" "fst (compress_aes E key s) = []"
    "aes_nouncompress E key c = ok []" "aes_uncompress E key c n = ok []"
  using assms by (auto simp: nocompress_aes_def compress_aes_def aes_nouncompress_def aes_uncompress_def
      cipher_okD split: option.splits)

section \<open>Lemmas: RSA\<close>

text \<open>The last block starts at \<open>(cnt - 1) * chunk\<close> and holds between one byte and a chunk.\<close>

lemma last_block_bounds:
  assumes "0 < c" "0 < n"
  shows "0 < block_count n c" "(block_count n c - 1) * c < n" "n \<le> (block_count n c - 1) * c + c"
proof -
  have dm: "n div c * c + n mod c = n" by (rule div_mult_mod_eq)
  have lt: "n mod c < c" using assms by simp
  show "0 < block_count n c"
    using assms dm by (cases "n mod c = 0") (auto simp: block_count_def intro: Nat.gr0I)
  show "(block_count n c - 1) * c < n"
  proof (cases "n mod c = 0")
    case True
    then have "n div c * c = n" using dm by simp
    with True assms show ?thesis by (simp add: block_count_def diff_mult_distrib)
  next
    case False
    then have "n div c * c < n" using dm by linarith
    with False show ?thesis by (simp add: block_count_def)
  qed
  show "n \<le> (block_count n c - 1) * c + c"
  proof (cases "n mod c = 0")
    case True
    then have "n div c * c = n" "0 < n div c" using dm assms by (auto intro: Nat.gr0I)
    with True show ?thesis by (simp add: block_count_def diff_mult_distrib)
  next
    case False
    have "n \<le> n div c * c + c" using dm lt by linarith
    with False show ?thesis by (simp add: block_count_def)
  qed
qed

lemma concat_chunks:
  "concat (map (\<lambda>i. take c (drop (i * c) s)) [0..<k]) = take (k * c) s"
proof (induction k)
  case 0
  then show ?case by simp
next
  case (Suc k)
  have "take (k * c) s @ take c (drop (k * c) s) = take (k * c + c) s" by (simp add: take_add)
  with Suc show ?case by (simp add: add.commute)
qed

lemma rsa_blocks_partition:
  assumes "0 < c" "s \<noteq> []"
  shows "concat (map (rsa_block s c (block_count (length s) c)) [0..<block_count (length s) c]) = s"
proof -
  let ?cnt = "block_count (length s) c"
  note b = last_block_bounds [of c "length s"]
  have cnt: "?cnt = Suc (?cnt - 1)" using b(1) assms by simp
  have "map (rsa_block s c ?cnt) [0..<?cnt - 1] = map (\<lambda>i. take c (drop (i * c) s)) [0..<?cnt - 1]"
    by (intro map_cong refl) (auto simp: rsa_block_def)
  then have "concat (map (rsa_block s c ?cnt) [0..<Suc (?cnt - 1)]) = take ((?cnt - 1) * c) s @ rsa_block s c ?cnt (?cnt - 1)"
    by (simp only: upt_Suc_append [OF le0] map_append concat_append concat_chunks list.map concat.simps append_Nil2)
  also have "rsa_block s c ?cnt (?cnt - 1) = drop ((?cnt - 1) * c) s"
    by (simp add: rsa_block_def)
  finally show ?thesis using cnt by simp
qed

lemma rsa_block_len:
  assumes "0 < c" "s \<noteq> []" "i < block_count (length s) c"
  shows "length (rsa_block s c (block_count (length s) c) i) \<le> c"
proof (cases "i = block_count (length s) c - 1")
  case True
  then show ?thesis using last_block_bounds(3) [of c "length s"] assms by (simp add: rsa_block_def)
next
  case False
  then show ?thesis by (simp add: rsa_block_def)
qed

lemma rsa_blocks_ok:
  assumes "rsa_ok E" "\<forall>b \<in> set bs. length b + 11 \<le> rsa_size E n"
  shows "length (rsa_blocks E e n bs) = length bs * rsa_size E n"
proof -
  have "rsa_enc E e n b \<noteq> None" if "b \<in> set bs" for b
    using assms that unfolding rsa_ok_def by fastforce
  then have "rsa_blocks E e n bs = concat (map (\<lambda>b. resize (rsa_size E n) (the (rsa_enc E e n b))) bs)"
    unfolding rsa_blocks_def by (intro if_not_P) blast
  then show ?thesis by (simp add: length_concat comp_def map_replicate_const sum_list_replicate)
qed

lemma rsa_chunk_normal: "12 < k \<Longrightarrow> k < 2 ^ 32 \<Longrightarrow> rsa_chunk k = k - 12"
  by (simp add: rsa_chunk_def of_nat_diff [symmetric] nat_mod_as_int del: of_nat_diff)

section \<open>Properties\<close>

text \<open>C32: The two AES paths invert. With a 16- or 32-byte key (the session key is a 16-byte MD5),
  what \<^verbatim>\<open>nocompress_aes\<close> wrote decrypts with \<^verbatim>\<open>aes_nouncompress\<close>, and what \<^verbatim>\<open>compress_aes\<close> wrote
  decrypts and inflates with \<^verbatim>\<open>aes_uncompress\<close> given the original length; the padding is never
  lost or mistaken.\<close>

theorem aes_paths_invert:
  assumes "cipher_ok E" "zlib_ok E" "length key \<in> {16, 32}" "z_compress E s = Some z"
  shows "aes_nouncompress E key (nocompress_aes E key s) = ok s
    \<and> aes_uncompress E key (fst (compress_aes E key s)) (length s) = ok s"
  using aes_roundtrip [OF assms(1,3)] aes_zip_roundtrip [OF assms] by simp

theorem aes_paths_invert_witness:
  "aes_nouncompress sample_ext (replicate 16 7) (nocompress_aes sample_ext (replicate 16 7) [1, 2, 3]) = ok [1, 2, 3]
    \<and> aes_uncompress sample_ext (replicate 16 7) (fst (compress_aes sample_ext (replicate 16 7) [1, 2, 3])) (length [1, 2, 3 :: byte]) = ok [1, 2, 3]"
  by (rule aes_paths_invert [OF sample_cipher_ok sample_zlib_ok, where z = "[1, 2, 3]"])
    (simp_all add: sample_ext_def)

text \<open>A key of any length but 16, 24 and 32 encrypts to nothing: every request built with it is
  empty and every response read with it is empty. So a session key cut short at a NUL makes
  all later requests fail.\<close>

theorem bad_key_fails:
  assumes "cipher_ok E" "length key \<notin> {16, 24, 32}"
  shows "nocompress_aes E key s = [] \<and> fst (compress_aes E key s) = []
    \<and> aes_nouncompress E key c = ok [] \<and> aes_uncompress E key c n = ok []"
  using bad_key_no_request [OF assms] by simp

theorem bad_key_fails_witness:
  "nocompress_aes sample_ext [1, 2, 3] [5] = [] \<and> fst (compress_aes sample_ext [1, 2, 3] [5]) = []
    \<and> aes_nouncompress sample_ext [1, 2, 3] [9] = ok [] \<and> aes_uncompress sample_ext [1, 2, 3] [9] 4 = ok []"
  by (rule bad_key_fails [OF sample_cipher_ok]) simp

text \<open>Blockwise RSA cuts the input into consecutive blocks that lose nothing, none over the
  PKCS1 limit of the modulus, so every block encrypts and the output is one modulus size per
  block.\<close>

theorem rsa_blockwise:
  assumes "rsa_ok E" "bn_ok E e" "bn_ok E n" "12 < rsa_size E n" "rsa_size E n < 2 ^ 32"
  shows "\<exists>bs. nocompress_rsa E e n s = ok (rsa_blocks E e n bs) \<and> concat bs = s
    \<and> (\<forall>b \<in> set bs. length b \<le> rsa_size E n - 12)
    \<and> length (rsa_blocks E e n bs) = length bs * rsa_size E n"
proof (cases "length s < rsa_size E n - 12")
  case True
  then have "nocompress_rsa E e n s = ok (rsa_blocks E e n [s])"
    using assms by (simp add: nocompress_rsa_def Let_def) linarith
  with True rsa_blocks_ok [OF assms(1), of "[s]" n e] show ?thesis by (intro exI [of _ "[s]"]) simp
next
  case False
  let ?c = "rsa_size E n - 12"
  let ?cnt = "block_count (length s) ?c"
  let ?bs = "map (rsa_block s ?c ?cnt) [0..<?cnt]"
  have c: "rsa_chunk (rsa_size E n) = ?c" "0 < ?c" using assms(4,5) rsa_chunk_normal by auto
  have s: "s \<noteq> []" using False c(2) by auto
  have "nocompress_rsa E e n s = ok (rsa_blocks E e n ?bs)"
    using assms(2-4) False c by (simp add: nocompress_rsa_def Let_def) linarith
  moreover have len: "\<forall>b \<in> set ?bs. length b \<le> ?c" using rsa_block_len [OF c(2) s] by simp
  moreover have "length (rsa_blocks E e n ?bs) = length ?bs * rsa_size E n"
    using len assms(4) by (intro rsa_blocks_ok [OF assms(1)]) fastforce
  ultimately show ?thesis
    using rsa_blocks_partition [OF c(2) s] by (intro exI [of _ ?bs]) simp
qed

theorem rsa_blockwise_witness:
  "\<exists>bs. nocompress_rsa sample_ext [1] (replicate 14 9) [1, 2, 3] = ok (rsa_blocks sample_ext [1] (replicate 14 9) bs)
    \<and> concat bs = [1, 2, 3] \<and> (\<forall>b \<in> set bs. length b \<le> rsa_size sample_ext (replicate 14 9) - 12)
    \<and> length (rsa_blocks sample_ext [1] (replicate 14 9) bs) = length bs * rsa_size sample_ext (replicate 14 9)"
  by (rule rsa_blockwise [OF sample_rsa_ok]) (simp_all add: sample_ext_def)

text \<open>Key agreement either returns an empty or a 16-byte key or frees both EC keys twice; the
  double free happens exactly when the curve and both keys were accepted and the shared secret
  could not be computed or was empty.\<close>

theorem DoEcdh_double_free:
  "(DoEcdh E nid pub pri = EcdhDoubleFree \<longleftrightarrow>
      ec_curve_ok E nid \<and> ec_parse_public E nid pub \<and> ec_parse_private E nid pri
      \<and> ec_shared E nid pub pri \<in> {None, Some []})
   \<and> (DoEcdh E nid pub pri \<in> {EcdhDoubleFree, EcdhKey []}
      \<or> (\<exists>k. DoEcdh E nid pub pri = EcdhKey k \<and> length k = 16))"
  by (auto simp: DoEcdh_def KDF_MD5_def GetMd5_def MD5_DIGEST_LENGTH_def split: option.splits if_splits)

end
