(* ===== verification/Header.thy ===== *)
theory Header imports Crypto begin

text \<open>
  The packet headers: \<^verbatim>\<open>BaseHeader\<close> (\<^verbatim>\<open>MakeHeader.cpp\<close>) and its variants in the login task
  (\<^verbatim>\<open>ManualAuthCGITask.cpp\<close>), the phone-binding task (\<^verbatim>\<open>bindCGITask.cpp\<close>) and the sync report
  (\<^verbatim>\<open>ReportSyncKVCGITask.cpp\<close>), with the process-wide state they read and write: the statics of
  \<^verbatim>\<open>BaseHeader\<close> and the singleton \<^verbatim>\<open>CAuthInfo\<close> (\<^verbatim>\<open>AuthInfo.h\<close>). The lemmas show that the readers
  never fault, when the declared header length is the real one, and that the readers recover the
  body and the lengths from the writers' packets and from the server's frames.
\<close>

section \<open>State\<close>

definition CLIENT_VERSION :: dword where "CLIENT_VERSION = 637927472"
definition LOGIN_RSA_VER :: byte where "LOGIN_RSA_VER = 158"

text \<open>\<^verbatim>\<open>CAuthInfo\<close> and the static members of \<^verbatim>\<open>BaseHeader\<close>. The uninitialised \<^verbatim>\<open>m_ClientVersion\<close>
  is a parameter of the initial state.\<close>

record auth =
  m_UserName :: bytes
  m_WxId :: bytes
  m_uin :: dword
  m_Alias :: bytes
  m_Session :: bytes
  m_ClientVersion :: dword
  m_guid_15 :: bytes
  m_guid :: bytes
  m_androidVer :: bytes
  m_launguage :: bytes
  m_cookie :: bytes
  m_mobilecode_authticket :: bytes
  m_mobileNum :: bytes
  s_dwVersion :: dword
  s_dwUin :: dword
  s_cookie :: bytes

definition auth0 :: "dword \<Rightarrow> auth" where
  "auth0 cv = \<lparr> m_UserName = [], m_WxId = [], m_uin = 0, m_Alias = [], m_Session = [],
     m_ClientVersion = cv, m_guid_15 = [], m_guid = [], m_androidVer = [], m_launguage = [],
     m_cookie = [], m_mobilecode_authticket = [], m_mobileNum = [],
     s_dwVersion = CLIENT_VERSION, s_dwUin = 0, s_cookie = [] \<rparr>"

text \<open>The members of one header object.\<close>

record hdr =
  m_nLenRespCompressed :: dword
  m_nLenRespProtobuf :: dword
  m_nDecryptType :: nat
  m_bCompressed :: bool

definition hdr0 :: hdr where
  "hdr0 = \<lparr> m_nLenRespCompressed = 0, m_nLenRespProtobuf = 0, m_nDecryptType = 5, m_bCompressed = False \<rparr>"

section \<open>Writers\<close>

text \<open>\<open>nCur\<close> counts the bytes the code believes it wrote; the cookie always counts as 15. The
  \<^verbatim>\<open>cookie\<close> argument is not used.\<close>

definition MakeHeader :: "auth \<Rightarrow> bytes \<Rightarrow> dword \<Rightarrow> dword \<Rightarrow> dword \<Rightarrow> bytes" where
  "MakeHeader a cookie cgiType nLenProtobuf nLenCompressed =
     (let SecondByte = (if nLenProtobuf = nLenCompressed then 2 else 1);
          ThirdByte = push_bit 4 5 + 0xf;
          strCgi = Dword2String cgiType;
          strProtobuf = Dword2String nLenProtobuf;
          strCompressed = Dword2String nLenCompressed;
          nCur = 1 + 1 + 1 + 4 + 4 + 0xf + length strCgi + length strProtobuf + length strCompressed + 15;
          strHeader = [0xbf, SecondByte, ThirdByte] @ be32 (s_dwVersion a) @ be32 (m_uin a) @ m_cookie a
            @ strCgi @ strProtobuf @ strCompressed @ replicate 15 0
      in strHeader[1 := SecondByte + push_bit 2 (of_nat nCur)])"

definition ManualAuth_MakeHeader :: "auth \<Rightarrow> dword \<Rightarrow> dword \<Rightarrow> dword \<Rightarrow> bytes" where
  "ManualAuth_MakeHeader a cgiType nLenProtobuf nLenCompressed =
     (let SecondByte = 2;
          ThirdByte = push_bit 4 7 + 0xf;
          strCgi = Dword2String cgiType;
          strLenProtobuf = Dword2String nLenProtobuf;
          strLenCompressed = Dword2String nLenCompressed;
          nCur = 1 + 1 + 4 + 4 + 15 + length strCgi + length strLenProtobuf + length strLenCompressed + 1 + 2;
          strHeader = [SecondByte, ThirdByte] @ be32 (s_dwVersion a) @ be32 0 @ replicate 15 0
            @ strCgi @ strLenProtobuf @ strLenCompressed @ [LOGIN_RSA_VER] @ [1, 2]
      in strHeader[0 := SecondByte + push_bit 2 (of_nat nCur)])"

text \<open>The RSA length goes out as a raw \<^verbatim>\<open>short\<close>, not in network order.\<close>

definition Bind_MakeHeader :: "auth \<Rightarrow> dword \<Rightarrow> dword \<Rightarrow> dword \<Rightarrow> dword \<Rightarrow> bytes" where
  "Bind_MakeHeader a cgiType nLenProtobuf nLenCompressed nLenRsa =
     (let SecondByte = 1;
          ThirdByte = push_bit 4 1 + 0;
          strCgi = Dword2String cgiType;
          strLenProtobuf = Dword2String nLenProtobuf;
          strLenCompressed = Dword2String nLenCompressed;
          uLenProtobuf = ucast nLenRsa :: ushort;
          nCur = 1 + 1 + 1 + 4 + 4 + length strCgi + length strLenProtobuf + length strLenCompressed + 1 + 2 + 2 + 5;
          strHeader = [0xbf, SecondByte, ThirdByte] @ be32 (s_dwVersion a) @ be32 0
            @ strCgi @ strLenProtobuf @ strLenCompressed @ [LOGIN_RSA_VER] @ [1, 2]
            @ le16 uLenProtobuf @ replicate 5 0
      in strHeader[1 := SecondByte + push_bit 2 (of_nat nCur)])"

definition ReportSyncKV_MakeHeader :: "dword \<Rightarrow> bytes" where
  "ReportSyncKV_MakeHeader nLenProtobuf = [0, 0, 0, 0xD0] @ be32 nLenProtobuf"

section \<open>Readers\<close>

text \<open>The part the three readers share: the flag bytes (position, \<open>nHeadLen\<close>, \<open>nCookieLen\<close>), then
  after version, uin and cookie the three numbers and the body.\<close>

definition unpack_first :: "bytes \<Rightarrow> hdr \<Rightarrow> nat \<times> nat \<times> nat \<times> hdr" where
  "unpack_first pack h =
     (let nCur = (if pack ! 0 = 0xbf then 1 else 0);
          nHeadLen = unat (drop_bit 2 (pack ! nCur));
          h = h\<lparr> m_bCompressed := (pack ! nCur AND 3 = 1) \<rparr>;
          nCur = nCur + 1;
          h = h\<lparr> m_nDecryptType := unat (drop_bit 4 (pack ! nCur)) \<rparr>;
          nCookieLen = unat (pack ! nCur AND 0xF)
      in (nCur + 1, nHeadLen, nCookieLen, h))"

definition unpack_rest :: "bytes \<Rightarrow> nat \<Rightarrow> nat \<Rightarrow> hdr \<Rightarrow> auth \<Rightarrow> (bytes \<times> hdr \<times> auth) res" where
  "unpack_rest pack nHeadLen nCur h a =
     and_then (substr pack nCur 5) (\<lambda>s. let (dwCgiType, dwLen) = String2Dword s 0; nCur = nCur + dwLen in
     and_then (substr pack nCur 5) (\<lambda>s. let (lp, dwLen) = String2Dword s dwLen;
         h = h\<lparr> m_nLenRespProtobuf := lp \<rparr>; nCur = nCur + dwLen in
     and_then (substr pack nCur 5) (\<lambda>s. let (lc, dwLen) = String2Dword s dwLen;
         h = h\<lparr> m_nLenRespCompressed := lc \<rparr> in
       (if nHeadLen < length pack then ok (drop nHeadLen pack, h, a) else ok ([], h, a)))))"

definition UnPackHeader :: "bytes \<Rightarrow> hdr \<Rightarrow> auth \<Rightarrow> (bytes \<times> hdr \<times> auth) res" where
  "UnPackHeader pack h a =
     (if length pack < 0x20 then ok ([], h, a)
      else let (nCur, nHeadLen, nCookieLen, h) = unpack_first pack h;
               nCur = nCur + 4;
               nCur = nCur + 4
           in if nCookieLen \<noteq> 0 \<and> nCookieLen \<le> 0xf
              then and_then (substr pack nCur nCookieLen) (\<lambda>ck.
                     unpack_rest pack nHeadLen (nCur + 0xf) h (a\<lparr> s_cookie := ck, m_cookie := ck \<rparr>))
              else if nCookieLen > 0xf then ok ([], h, a)
              else unpack_rest pack nHeadLen nCur h a)"

definition ManualAuth_UnPackHeader :: "bytes \<Rightarrow> hdr \<Rightarrow> auth \<Rightarrow> (bytes \<times> hdr \<times> auth) res" where
  "ManualAuth_UnPackHeader pack h a =
     (if length pack < 0x20 then ok ([], h, a)
      else let (nCur, nHeadLen, nCookieLen, h) = unpack_first pack h;
               nCur = nCur + 4;
               a = a\<lparr> s_dwUin := rd_be32 (take 4 (drop nCur pack)) \<rparr>;
               nCur = nCur + 4
           in if nCookieLen \<noteq> 0 \<and> nCookieLen \<le> 0xf
              then and_then (substr pack nCur nCookieLen) (\<lambda>ck.
                     unpack_rest pack nHeadLen (nCur + nCookieLen) h (a\<lparr> s_cookie := ck, m_cookie := ck \<rparr>))
              else if nCookieLen > 0xf then ok ([], h, a)
              else unpack_rest pack nHeadLen nCur h a)"

definition Bind_UnPackHeader :: "bytes \<Rightarrow> hdr \<Rightarrow> auth \<Rightarrow> (bytes \<times> hdr \<times> auth) res" where
  "Bind_UnPackHeader pack h a =
     (if length pack < 0x20 then ok ([], h, a)
      else let (nCur, nHeadLen, nCookieLen, h) = unpack_first pack h;
               nCur = nCur + 4;
               nCur = nCur + 4
           in if nCookieLen \<noteq> 0 \<and> nCookieLen \<le> 0xf
              then unpack_rest pack nHeadLen (nCur + nCookieLen) h a
              else if nCookieLen > 0xf then ok ([], h, a)
              else unpack_rest pack nHeadLen nCur h a)"

section \<open>Lemmas: the readers never fault\<close>

lemma s2d_loop_len: "n \<le> 5 \<Longrightarrow> snd (s2d_loop s n ret t) \<le> n + length s \<and> snd (s2d_loop s n ret t) \<le> 5"
  by (induction s n ret t rule: s2d_loop.induct) auto

lemma String2Dword_len: "s \<noteq> [] \<Longrightarrow> snd (String2Dword s old) \<le> length s \<and> snd (String2Dword s old) \<le> 5"
  using s2d_loop_len [of 0 s 0 1] by (simp add: String2Dword_def)

lemma unpack_rest_ok:
  assumes "nCur + 6 \<le> length pack"
  shows "is_ok (unpack_rest pack nHeadLen nCur h a)"
proof -
  let ?s1 = "take 5 (drop nCur pack)"
  obtain v1 k1 where r1: "String2Dword ?s1 0 = (v1, k1)" by (metis prod.collapse)
  have k1: "k1 \<le> 5" using String2Dword_len [of ?s1 0] r1 assms by auto
  let ?s2 = "take 5 (drop (nCur + k1) pack)"
  obtain v2 k2 where r2: "String2Dword ?s2 k1 = (v2, k2)" by (metis prod.collapse)
  have k2: "nCur + k1 + k2 \<le> length pack" using String2Dword_len [of ?s2 k1] r2 k1 assms by auto
  show ?thesis
    using r1 r2 k1 k2 assms
    by (auto simp: unpack_rest_def substr_ok Let_def split: prod.splits)
qed

lemma unpack_first_bounds:
  assumes "unpack_first pack h = (nCur, nHeadLen, nCookieLen, h')"
  shows "nCur \<le> 3" "nHeadLen < 64" "nCookieLen < 16"
proof -
  show "nCur \<le> 3" using assms by (auto simp: unpack_first_def Let_def split: if_splits)
  show "nHeadLen < 64"
    using assms unat_byte_lt by (auto simp: unpack_first_def Let_def unat_shr_byte div_less_iff_less_mult split: if_splits)
  show "nCookieLen < 16" using assms by (auto simp: unpack_first_def Let_def and_15_mask unat_mask_byte split: if_splits)
qed

lemma readers_ok:
  "is_ok (UnPackHeader pack h a)" "is_ok (ManualAuth_UnPackHeader pack h a)" "is_ok (Bind_UnPackHeader pack h a)"
proof -
  obtain nCur nHeadLen nCookieLen h' where f: "unpack_first pack h = (nCur, nHeadLen, nCookieLen, h')"
    by (metis prod_cases4)
  note b = unpack_first_bounds [OF f]
  show "is_ok (UnPackHeader pack h a)"
    using f b by (auto simp: UnPackHeader_def Let_def substr_ok intro!: unpack_rest_ok)
  show "is_ok (ManualAuth_UnPackHeader pack h a)"
    using f b by (auto simp: ManualAuth_UnPackHeader_def Let_def substr_ok intro!: unpack_rest_ok)
  show "is_ok (Bind_UnPackHeader pack h a)"
    using f b by (auto simp: Bind_UnPackHeader_def Let_def substr_ok intro!: unpack_rest_ok)
qed

section \<open>Lemmas: frames\<close>

text \<open>The wire format both sides agree on: an optional 0xbf, the declared header length \<open>n\<close> with the
  compression bits \<open>c\<close>, the cipher \<open>d\<close> with the cookie length, version, uin, cookie, three
  numbers, and the rest.\<close>

definition frame :: "nat \<Rightarrow> bool \<Rightarrow> nat \<Rightarrow> nat \<Rightarrow> dword \<Rightarrow> dword \<Rightarrow> bytes \<Rightarrow> bytes \<Rightarrow> bytes \<Rightarrow> bytes \<Rightarrow> bytes \<Rightarrow> bytes" where
  "frame n android c d ver uin ck v1 v2 v3 rest =
     (if android then [0xbf] else []) @ [of_nat (4 * n + c), of_nat (16 * d + length ck)]
       @ be32 ver @ be32 uin @ ck @ v1 @ v2 @ v3 @ rest"

definition frame_ok :: "nat \<Rightarrow> bool \<Rightarrow> nat \<Rightarrow> nat \<Rightarrow> bytes \<Rightarrow> bool" where
  "frame_ok n android c d ck \<longleftrightarrow> n < 64 \<and> c < 4 \<and> (android \<or> c \<noteq> 3) \<and> d < 16 \<and> length ck \<le> 15"

lemma flag_byte: "n < 64 \<Longrightarrow> c < 4 \<Longrightarrow> unat (of_nat (4 * n + c) :: byte) = 4 * n + c"
  by (rule unat_of_nat_byte) linarith

lemma cipher_byte: "d < 16 \<Longrightarrow> k < 16 \<Longrightarrow> unat (of_nat (16 * d + k) :: byte) = 16 * d + k"
  by (rule unat_of_nat_byte) linarith

lemma byte_and_3: "(b::byte) AND 3 = 1 \<longleftrightarrow> unat b mod 4 = 1"
  by (simp add: and_3_mask byte_eq_iff unat_mask_byte)

lemma unpack_first_frame:
  assumes "frame_ok n android c d ck"
  shows "unpack_first (frame n android c d ver uin ck v1 v2 v3 rest) h
    = (if android then 3 else 2, n, length ck, h\<lparr> m_bCompressed := (c = 1), m_nDecryptType := d \<rparr>)"
proof -
  from assms have b: "n < 64" "c < 4" "d < 16" "length ck < 16" by (auto simp: frame_ok_def)
  let ?f = "of_nat (4 * n + c) :: byte" and ?g = "of_nat (16 * d + length ck) :: byte"
  have f: "unat (drop_bit 2 ?f) = n" "?f AND 3 = 1 \<longleftrightarrow> c = 1"
    using b by (simp_all only: unat_shr_byte byte_and_3 flag_byte) simp_all
  have g: "unat (drop_bit 4 ?g) = d" "unat (?g AND 15) = length ck"
    using b by (simp_all only: unat_shr_byte and_15_mask unat_mask_byte cipher_byte) simp_all
  have "?f \<noteq> 0xbf" if "c \<noteq> 3"
  proof
    assume "?f = 0xbf"
    then have "4 * n + c = 191" using b by (simp only: byte_eq_iff flag_byte) simp
    with b(2) that show False by presburger
  qed
  with assms f g show ?thesis
    by (cases android) (simp_all add: unpack_first_def frame_def frame_ok_def Let_def del: of_nat_add of_nat_mult)
qed

lemma unpack_rest_reads:
  assumes "substr p k 5 = ok s1" "String2Dword s1 0 = (w1, l1)"
    and "substr p (k + l1) 5 = ok s2" "String2Dword s2 l1 = (w2, l2)"
    and "substr p (k + l1 + l2) 5 = ok s3" "String2Dword s3 l2 = (w3, l3)"
  shows "unpack_rest p n k h a
    = ok (drop n p, h\<lparr> m_nLenRespProtobuf := w2, m_nLenRespCompressed := w3 \<rparr>, a)"
  using assms by (simp add: unpack_rest_def Let_def)

lemma unpack_rest_wf:
  assumes "wf_varint v1" "wf_varint v2" "wf_varint v3" "k = length pre" "p = pre @ v1 @ v2 @ v3 @ rest"
  shows "unpack_rest p n k h a
    = ok (drop n p, h\<lparr> m_nLenRespProtobuf := of_nat (digits_val v2), m_nLenRespCompressed := of_nat (digits_val v3) \<rparr>, a)"
proof -
  have rd: "String2Dword (take 5 (v @ r)) old = (of_nat (digits_val v), length v)" if "wf_varint v" for v r old
    using String2Dword_wf [OF that] by (simp only: String2Dword_take5)
  have "substr p k 5 = ok (take 5 (v1 @ v2 @ v3 @ rest))"
    "substr p (k + length v1) 5 = ok (take 5 (v2 @ v3 @ rest))"
    "substr p (k + length v1 + length v2) 5 = ok (take 5 (v3 @ rest))"
    using assms(4,5) by (simp_all add: substr_def)
  from unpack_rest_reads [OF this(1) rd [OF assms(1)] this(2) rd [OF assms(2)] this(3) rd [OF assms(3)]]
  show ?thesis .
qed

text \<open>Everything before the three numbers.\<close>

definition frame_pre :: "nat \<Rightarrow> bool \<Rightarrow> nat \<Rightarrow> nat \<Rightarrow> dword \<Rightarrow> dword \<Rightarrow> bytes \<Rightarrow> bytes" where
  "frame_pre n android c d ver uin ck =
     (if android then [0xbf] else []) @ [of_nat (4 * n + c), of_nat (16 * d + length ck)] @ be32 ver @ be32 uin @ ck"

lemma frame_split: "frame n android c d ver uin ck v1 v2 v3 rest = frame_pre n android c d ver uin ck @ v1 @ v2 @ v3 @ rest"
  by (simp add: frame_def frame_pre_def)

lemma length_frame_pre: "length (frame_pre n android c d ver uin ck) = (if android then 3 else 2) + 4 + 4 + length ck"
  by (simp add: frame_pre_def)

lemma take_at: "drop k p = ck @ r \<Longrightarrow> take (length ck) (drop k p) = ck"
  by simp

lemma frame_cookie:
  "substr (frame n android c d ver uin ck v1 v2 v3 rest) ((if android then 3 else 2) + 4 + 4) (length ck) = ok ck"
  by (cases android) (simp_all add: substr_def frame_def)

lemma frame_uin: "rd_be32 (take 4 (drop ((if android then 3 else 2) + 4) (frame n android c d ver uin ck v1 v2 v3 rest))) = uin"
proof -
  have "drop ((if android then 3 else 2) + 4) (frame n android c d ver uin ck v1 v2 v3 rest) = be32 uin @ ck @ v1 @ v2 @ v3 @ rest"
    by (cases android) (simp_all add: frame_def)
  then show ?thesis using rd_be32_be32 [of uin "[]"] by simp
qed

lemma frame_long: "frame_ok n android c d ck \<Longrightarrow> length (frame n android c d ver uin ck v1 v2 v3 rest)
    = (if android then 11 else 10) + length ck + length v1 + length v2 + length v3 + length rest"
  by (simp add: frame_def)

text \<open>What the readers make of a frame. The base reader skips 15 bytes for any cookie.\<close>

definition read_lens :: "hdr \<Rightarrow> nat \<Rightarrow> nat \<Rightarrow> bytes \<Rightarrow> bytes \<Rightarrow> hdr" where
  "read_lens h c d v2 v3 = h\<lparr> m_bCompressed := (c = 1), m_nDecryptType := d,
     m_nLenRespProtobuf := of_nat (digits_val v2), m_nLenRespCompressed := of_nat (digits_val v3) \<rparr>"

definition keep_cookie :: "auth \<Rightarrow> bytes \<Rightarrow> auth" where
  "keep_cookie a ck = (if ck = [] then a else a\<lparr> s_cookie := ck, m_cookie := ck \<rparr>)"

lemma read_frame:
  assumes "frame_ok n android c d ck" "wf_varint v1" "wf_varint v2" "wf_varint v3"
    and p: "p = frame n android c d ver uin ck v1 v2 v3 rest" and "32 \<le> length p"
  shows "Bind_UnPackHeader p h a = ok (drop n p, read_lens h c d v2 v3, a)"
    and "ManualAuth_UnPackHeader p h a = ok (drop n p, read_lens h c d v2 v3, keep_cookie (a\<lparr> s_dwUin := uin \<rparr>) ck)"
    and "length ck \<in> {0, 15} \<Longrightarrow> UnPackHeader p h a = ok (drop n p, read_lens h c d v2 v3, keep_cookie a ck)"
proof -
  let ?k = "if android then 3 else 2 :: nat"
  have ck: "length ck \<le> 15" using assms(1) by (simp add: frame_ok_def)
  note first = unpack_first_frame [OF assms(1), of ver uin v1 v2 v3 rest h, folded p]
  note cookie = frame_cookie [of n android c d ver uin ck v1 v2 v3 rest, folded p]
  note uin = frame_uin [of android n c d ver uin ck v1 v2 v3 rest, folded p]
  have rest: "unpack_rest p n (?k + 4 + 4 + length ck) (h\<lparr> m_bCompressed := (c = 1), m_nDecryptType := d \<rparr>) a'
    = ok (drop n p, read_lens h c d v2 v3, a')" for a'
    using unpack_rest_wf [OF assms(2-4) _ p [unfolded frame_split], of "?k + 4 + 4 + length ck"]
    by (simp add: length_frame_pre read_lens_def)
  have len: "\<not> length p < 0x20" using assms(6) by simp
  show "Bind_UnPackHeader p h a = ok (drop n p, read_lens h c d v2 v3, a)"
    using len first rest [of a] ck
    by (cases android; cases "ck = []") (simp_all add: Bind_UnPackHeader_def Let_def)
  show "ManualAuth_UnPackHeader p h a = ok (drop n p, read_lens h c d v2 v3, keep_cookie (a\<lparr> s_dwUin := uin \<rparr>) ck)"
    using len first cookie uin rest ck
    by (cases android; cases "ck = []") (simp_all add: ManualAuth_UnPackHeader_def Let_def keep_cookie_def)
  show "UnPackHeader p h a = ok (drop n p, read_lens h c d v2 v3, keep_cookie a ck)" if "length ck \<in> {0, 15}"
    using len first cookie rest ck that
    by (cases android; cases "ck = []") (simp_all add: UnPackHeader_def Let_def keep_cookie_def)
qed

section \<open>Lemmas: the writers' packets\<close>

lemma Dword2String_short: "length (Dword2String w) \<le> 5" "0 < length (Dword2String w)"
  using positions_le [of 4 "unat w"] by (simp_all add: length_Dword2String)

text \<open>The declared length of a header, as the readers take it.\<close>

definition declared_len :: "bytes \<Rightarrow> nat" where
  "declared_len p = fst (snd (unpack_first p hdr0))"

definition header_numbers :: "dword \<Rightarrow> dword \<Rightarrow> dword \<Rightarrow> nat" where
  "header_numbers cgi lp lc = length (Dword2String cgi) + length (Dword2String lp) + length (Dword2String lc)"

lemma header_numbers_le: "header_numbers cgi lp lc \<le> 15"
  using Dword2String_short(1) [of cgi] Dword2String_short(1) [of lp] Dword2String_short(1) [of lc]
  by (simp add: header_numbers_def)

lemma MakeHeader_form:
  "MakeHeader a x cgi lp lc = 0xbf # of_nat (4 * (41 + header_numbers cgi lp lc) + (if lp = lc then 2 else 1)) # 0x5f
     # be32 (s_dwVersion a) @ be32 (m_uin a) @ m_cookie a @ Dword2String cgi @ Dword2String lp @ Dword2String lc @ replicate 15 0"
  by (simp add: MakeHeader_def Let_def push_bit_eq_mult header_numbers_def algebra_simps)

lemma MakeHeader_frame:
  assumes "length (m_cookie a) = 15"
  shows "MakeHeader a x cgi lp lc @ body
    = frame (41 + header_numbers cgi lp lc) True (if lp = lc then 2 else 1) 5 (s_dwVersion a) (m_uin a) (m_cookie a)
        (Dword2String cgi) (Dword2String lp) (Dword2String lc) (replicate 15 0 @ body)"
  using assms by (simp add: MakeHeader_form frame_def)

lemma ManualAuth_frame:
  "ManualAuth_MakeHeader a cgi lp lc @ body
    = frame (28 + header_numbers cgi lp lc) False 2 7 (s_dwVersion a) 0 (replicate 15 0)
        (Dword2String cgi) (Dword2String lp) (Dword2String lc) ([LOGIN_RSA_VER, 1, 2] @ body)"
  by (simp add: ManualAuth_MakeHeader_def Let_def push_bit_eq_mult header_numbers_def frame_def algebra_simps)

lemma Bind_frame:
  "Bind_MakeHeader a cgi lp lc lr @ body
    = frame (21 + header_numbers cgi lp lc) True 1 1 (s_dwVersion a) 0 []
        (Dword2String cgi) (Dword2String lp) (Dword2String lc) ([LOGIN_RSA_VER, 1, 2] @ le16 (ucast lr) @ replicate 5 0 @ body)"
  by (simp add: Bind_MakeHeader_def Let_def push_bit_eq_mult header_numbers_def frame_def algebra_simps)

lemma header_lengths:
  "length (MakeHeader a x cgi lp lc) = 26 + length (m_cookie a) + header_numbers cgi lp lc"
  "length (ManualAuth_MakeHeader a cgi lp lc) = 28 + header_numbers cgi lp lc"
  "length (Bind_MakeHeader a cgi lp lc lr) = 21 + header_numbers cgi lp lc"
  by (simp_all add: MakeHeader_def ManualAuth_MakeHeader_def Bind_MakeHeader_def Let_def header_numbers_def)

lemma declared_lens:
  "declared_len (MakeHeader a x cgi lp lc) = 41 + header_numbers cgi lp lc"
  "declared_len (ManualAuth_MakeHeader a cgi lp lc) = 28 + header_numbers cgi lp lc"
  "declared_len (Bind_MakeHeader a cgi lp lc lr) = 21 + header_numbers cgi lp lc"
proof -
  note b = header_numbers_le [of cgi lp lc]
  have "unat (of_nat (4 * (41 + header_numbers cgi lp lc) + (if lp = lc then 2 else 1)) :: byte)
      = 4 * (41 + header_numbers cgi lp lc) + (if lp = lc then 2 else 1)"
    using b by (intro flag_byte) auto
  then show "declared_len (MakeHeader a x cgi lp lc) = 41 + header_numbers cgi lp lc"
    by (simp add: declared_len_def unpack_first_def MakeHeader_form unat_shr_byte del: of_nat_add of_nat_mult)
  show "declared_len (ManualAuth_MakeHeader a cgi lp lc) = 28 + header_numbers cgi lp lc"
    using b ManualAuth_frame [of a cgi lp lc "[]"] by (simp add: declared_len_def unpack_first_frame frame_ok_def)
  show "declared_len (Bind_MakeHeader a cgi lp lc lr) = 21 + header_numbers cgi lp lc"
    using b Bind_frame [of a cgi lp lc lr "[]"] by (simp add: declared_len_def unpack_first_frame frame_ok_def)
qed

section \<open>Lemmas: what the readers leave alone\<close>

text \<open>The members of \<^verbatim>\<open>CAuthInfo\<close> that no header reader touches.\<close>

definition same_login :: "auth \<Rightarrow> auth \<Rightarrow> bool" where
  "same_login a a' \<longleftrightarrow> m_Session a' = m_Session a \<and> m_uin a' = m_uin a \<and> m_guid_15 a' = m_guid_15 a \<and> m_WxId a' = m_WxId a"

lemma same_login_refl [simp]: "same_login a a"
  by (simp add: same_login_def)

lemma same_login_trans: "same_login a b \<Longrightarrow> same_login b c \<Longrightarrow> same_login a c"
  by (simp add: same_login_def)

lemma same_login_update [simp]:
  "same_login a (b\<lparr> s_dwUin := u \<rparr>) = same_login a b"
  "same_login a (b\<lparr> s_cookie := c, m_cookie := c \<rparr>) = same_login a b"
  by (simp_all add: same_login_def)

lemma unpack_rest_keeps:
  assumes "same_login a b"
  shows "outcome (\<lambda>(_, _, a'). same_login a a') (unpack_rest pack nHeadLen nCur h b)"
  unfolding unpack_rest_def Let_def by (intro outcome_rules) (simp_all add: assms)

lemma readers_keep_login:
  "outcome (\<lambda>(_, _, a'). same_login a a') (UnPackHeader pack h a)"
  "outcome (\<lambda>(_, _, a'). same_login a a') (ManualAuth_UnPackHeader pack h a)"
  "outcome (\<lambda>(_, _, a'). same_login a a') (Bind_UnPackHeader pack h a)"
  unfolding UnPackHeader_def ManualAuth_UnPackHeader_def Bind_UnPackHeader_def Let_def
  by (intro outcome_rules unpack_rest_keeps; simp)+

section \<open>Properties\<close>

text \<open>C35: None of the three header readers can fault, whatever bytes the server sends: every
  \<^verbatim>\<open>substr\<close> stays inside a packet of at least 32 bytes, and shorter packets are refused.\<close>

theorem readers_never_fault:
  "is_ok (UnPackHeader pack h a) \<and> is_ok (ManualAuth_UnPackHeader pack h a) \<and> is_ok (Bind_UnPackHeader pack h a)"
  by (simp add: readers_ok)

text \<open>C38: The login and binding headers always declare their real length; the ordinary header does
  exactly when the stored cookie has 15 bytes, because the writer counts 15 bytes for any
  cookie.\<close>

theorem declared_length_right_iff:
  "(declared_len (MakeHeader a x cgi lp lc) = length (MakeHeader a x cgi lp lc) \<longleftrightarrow> length (m_cookie a) = 15)
    \<and> declared_len (ManualAuth_MakeHeader a cgi lp lc) = length (ManualAuth_MakeHeader a cgi lp lc)
    \<and> declared_len (Bind_MakeHeader a cgi lp lc lr) = length (Bind_MakeHeader a cgi lp lc lr)"
  by (simp add: declared_lens header_lengths)

text \<open>C31: An ordinary request reads back: with a 15-byte cookie and numbers the base-128 writer can
  carry, the reader finds the body, both lengths, the compression flag and the cookie.\<close>

theorem request_reads_back:
  assumes "length (m_cookie a) = 15" "varint_exact cgi" "varint_exact lp" "varint_exact lc"
  shows "UnPackHeader (MakeHeader a x cgi lp lc @ body) h b
    = ok (body, h\<lparr> m_bCompressed := (lp \<noteq> lc), m_nDecryptType := 5, m_nLenRespProtobuf := lp, m_nLenRespCompressed := lc \<rparr>,
          b\<lparr> s_cookie := m_cookie a, m_cookie := m_cookie a \<rparr>)"
proof -
  let ?n = "41 + header_numbers cgi lp lc" and ?c = "if lp = lc then 2 else 1 :: nat"
  have ok: "frame_ok ?n True ?c 5 (m_cookie a)"
    using header_numbers_le [of cgi lp lc] assms(1) by (simp add: frame_ok_def)
  note wf = Dword2String_wf [OF assms(2)] Dword2String_wf [OF assms(3)] Dword2String_wf [OF assms(4)]
  have len: "length (MakeHeader a x cgi lp lc) = ?n" using assms(1) by (simp add: header_lengths)
  have "UnPackHeader (MakeHeader a x cgi lp lc @ body) h b
      = ok (drop ?n (MakeHeader a x cgi lp lc @ body), read_lens h ?c 5 (Dword2String lp) (Dword2String lc), keep_cookie b (m_cookie a))"
    using wf assms(1) len by (intro read_frame(3) [OF ok _ _ _ MakeHeader_frame [OF assms(1)]]) simp_all
  with wf assms(1) len show ?thesis by (auto simp: read_lens_def keep_cookie_def)
qed

theorem request_reads_back_witness:
  "UnPackHeader (MakeHeader ((auth0 0)\<lparr> m_cookie := replicate 15 1 \<rparr>) [] 701 50 300 @ [9, 9]) hdr0 (auth0 0)
    = ok ([9, 9], hdr0\<lparr> m_bCompressed := ((50 :: dword) \<noteq> 300), m_nDecryptType := 5, m_nLenRespProtobuf := 50, m_nLenRespCompressed := 300 \<rparr>,
          (auth0 0)\<lparr> s_cookie := m_cookie ((auth0 0)\<lparr> m_cookie := replicate 15 1 \<rparr>), m_cookie := m_cookie ((auth0 0)\<lparr> m_cookie := replicate 15 1 \<rparr>) \<rparr>)"
  by (rule request_reads_back) (simp_all add: varint_exact_def)

text \<open>The login and binding readers take apart every well-formed server frame, whatever the
  cookie length, login also storing uin and cookie; the ordinary reader does when the frame has
  no cookie or a 15-byte one. In these cases the three agree on body and lengths.\<close>

theorem frame_readers:
  assumes "frame_ok n android c d ck" "wf_varint v1" "wf_varint v2" "wf_varint v3"
    and "p = frame n android c d ver uin ck v1 v2 v3 rest" "32 \<le> length p"
  shows "Bind_UnPackHeader p h a = ok (drop n p, read_lens h c d v2 v3, a)
    \<and> ManualAuth_UnPackHeader p h a = ok (drop n p, read_lens h c d v2 v3, keep_cookie (a\<lparr> s_dwUin := uin \<rparr>) ck)
    \<and> (length ck \<in> {0, 15} \<longrightarrow> UnPackHeader p h a = ok (drop n p, read_lens h c d v2 v3, keep_cookie a ck))"
  using read_frame [OF assms] by simp

theorem frame_readers_witness:
  "Bind_UnPackHeader (frame 13 False 1 5 0 77 [] [1] [2] [3] (replicate 20 8)) hdr0 (auth0 0)
      = ok (replicate 20 8, read_lens hdr0 1 5 [2] [3], auth0 0)
    \<and> UnPackHeader (frame 13 False 1 5 0 77 [] [1] [2] [3] (replicate 20 8)) hdr0 (auth0 0)
      = ok (replicate 20 8, read_lens hdr0 1 5 [2] [3], auth0 0)"
proof -
  have "frame_ok 13 False 1 5 []" "wf_varint [1]" "wf_varint [2]" "wf_varint [3]"
    by (simp_all add: frame_ok_def wf_varint_def top_bit)
  from frame_readers [OF this refl, of 0 77 "replicate 20 8" hdr0 "auth0 0"]
  show ?thesis by (simp add: frame_def keep_cookie_def)
qed

end
