(* ===== verification/Sql_Store.thy ===== *)
theory Sql_Store imports External begin

text \<open>
  \<^verbatim>\<open>db/sql.cpp\<close>: one open SQLite database, statements run at once or queued for a worker thread
  that brackets what it finds in a transaction. SQLite itself is the parameter \<open>Q\<close>: what a
  statement answers on a database, given everything run before. The worker and the threads that
  use the class are interleaved as sequences of events, one per critical section. The lemmas show that the queue is served
  first in, first out, and what closing the database loses.
\<close>

section \<open>SQLite\<close>

text \<open>A row of an answer: column names and values, a value may be null. The log records what was
  run, on which database, and (for the theorems only) where it came from.\<close>

type_synonym sql_row = "(bytes \<times> bytes option) list"

datatype sql_origin = Direct | Queued | Bracket

type_synonym sql_log = "(sql_origin \<times> bytes \<times> bytes) list"

record sqlite =
  sq_open :: "bytes \<Rightarrow> int"
  sq_rc :: "(bytes \<times> bytes) list \<Rightarrow> bytes \<Rightarrow> bytes \<Rightarrow> int"
  sq_rows :: "(bytes \<times> bytes) list \<Rightarrow> bytes \<Rightarrow> bytes \<Rightarrow> sql_row list"

definition SQLITE_OK :: int where "SQLITE_OK = 0"
definition SQLITE_FAIL :: int where "SQLITE_FAIL = 3"

section \<open>State\<close>

text \<open>The worker is idle between two rounds, or holds a statement it took off the queue, with
  \<^verbatim>\<open>bNeedCommit\<close>.\<close>

datatype worker = WIdle | WExec "ushort list" bool

record sql3 =
  m_pDB :: "bytes option"
  m_SqlList :: "ushort list list"
  m_worker :: worker
  m_log :: sql_log

definition Sql3 :: sql3 where
  "Sql3 = \<lparr> m_pDB = None, m_SqlList = [], m_worker = WIdle, m_log = [] \<rparr>"

definition wlit :: "string \<Rightarrow> ushort list" where
  "wlit s = map of_char s"

definition UnicodeToUtf8 :: "ext \<Rightarrow> ushort list \<Rightarrow> bytes" where
  "UnicodeToUtf8 E strUnicode = from_wide E CP_UTF8 strUnicode"

definition Utf8ToUnicode :: "ext \<Rightarrow> bytes \<Rightarrow> ushort list" where
  "Utf8ToUnicode E strUtf8 = to_wide E CP_UTF8 strUtf8"

section \<open>Operations\<close>

text \<open>\<^verbatim>\<open>sqlite3_exec\<close> on the open database.\<close>

definition run_sql :: "sqlite \<Rightarrow> sql_origin \<Rightarrow> bytes \<Rightarrow> bytes \<Rightarrow> sql3 \<Rightarrow> int \<times> sql_row list \<times> sql3" where
  "run_sql Q og name stmt s =
     (sq_rc Q (map snd (m_log s)) name stmt, sq_rows Q (map snd (m_log s)) name stmt,
      s\<lparr> m_log := m_log s @ [(og, name, stmt)] \<rparr>)"

text \<open>\<^verbatim>\<open>ExecSQL(LPCSTR, callback, arg)\<close>: the rows are what the callback is called with.\<close>

definition exec_as :: "sqlite \<Rightarrow> sql_origin \<Rightarrow> bytes \<Rightarrow> sql3 \<Rightarrow> int \<times> sql_row list \<times> sql3" where
  "exec_as Q og strSQLUtf8 s =
     (case m_pDB s of None \<Rightarrow> (SQLITE_FAIL, [], s) | Some name \<Rightarrow> run_sql Q og name strSQLUtf8 s)"

definition ExecSQL :: "sqlite \<Rightarrow> bytes \<Rightarrow> sql3 \<Rightarrow> int \<times> sql_row list \<times> sql3" where
  "ExecSQL Q strSQLUtf8 s = exec_as Q Direct strSQLUtf8 s"

text \<open>\<^verbatim>\<open>ExecSQL(LPCTSTR)\<close>: queues the statement.\<close>

definition ExecSQLAsync :: "ushort list \<Rightarrow> sql3 \<Rightarrow> int \<times> sql3" where
  "ExecSQLAsync strSql s =
     (case m_pDB s of None \<Rightarrow> (1, s) | Some _ \<Rightarrow> (0, s\<lparr> m_SqlList := m_SqlList s @ [strSql] \<rparr>))"

definition Begin :: "sqlite \<Rightarrow> sql3 \<Rightarrow> int \<times> sql3" where
  "Begin Q s = (let (rc, _, s) = exec_as Q Bracket (lit ''begin;'') s in (rc, s))"

definition Commit :: "sqlite \<Rightarrow> sql3 \<Rightarrow> int \<times> sql3" where
  "Commit Q s = (let (rc, _, s) = exec_as Q Bracket (lit ''commit;'') s in (rc, s))"

definition Close :: "sqlite \<Rightarrow> sql3 \<Rightarrow> sql3" where
  "Close Q s =
     (case m_pDB s of
        None \<Rightarrow> s
      | Some _ \<Rightarrow> (let (_, s) = Commit Q s in s\<lparr> m_pDB := None, m_SqlList := [] \<rparr>))"

text \<open>\<^verbatim>\<open>Init\<close> closes, opens and creates the tables (a virtual function, here an argument). The handle
  is set even when opening fails.\<close>

definition Init :: "sqlite \<Rightarrow> (sql3 \<Rightarrow> sql3) \<Rightarrow> bytes \<Rightarrow> sql3 \<Rightarrow> sql3" where
  "Init Q CreateTable strDbNameUtf8 s =
     (let s = (Close Q s)\<lparr> m_pDB := Some strDbNameUtf8 \<rparr>
      in if sq_open Q strDbNameUtf8 \<noteq> SQLITE_OK then s else CreateTable s)"

text \<open>One round of the worker up to the next point where it does not hold the queue lock: with a
  statement in hand it runs it, then takes the next one, beginning a transaction first when none
  is open, or commits and rests.\<close>

definition worker_take :: "sqlite \<Rightarrow> bool \<Rightarrow> sql3 \<Rightarrow> sql3" where
  "worker_take Q bNeedCommit s =
     (case m_SqlList s of
        [] \<Rightarrow> (if bNeedCommit then (snd (Commit Q s))\<lparr> m_worker := WIdle \<rparr> else s\<lparr> m_worker := WIdle \<rparr>)
      | strSql # rest \<Rightarrow>
          (let (bNeedCommit, s) =
                 (if bNeedCommit then (True, s)
                  else let (rc, s) = Begin Q s in (rc = SQLITE_OK, s))
           in s\<lparr> m_SqlList := rest, m_worker := WExec strSql bNeedCommit \<rparr>))"

definition ExecSQLThread :: "ext \<Rightarrow> sqlite \<Rightarrow> sql3 \<Rightarrow> sql3" where
  "ExecSQLThread E Q s =
     (case m_worker s of
        WIdle \<Rightarrow> worker_take Q False s
      | WExec strSql bNeedCommit \<Rightarrow>
          (let (_, _, s) = exec_as Q Queued (UnicodeToUtf8 E strSql) s in worker_take Q bNeedCommit s))"

section \<open>Interleavings\<close>

datatype sql_event = EvQueue "ushort list" | EvDirect bytes | EvWorker | EvClose

definition sql_step :: "ext \<Rightarrow> sqlite \<Rightarrow> sql3 \<Rightarrow> sql_event \<Rightarrow> sql3" where
  "sql_step E Q s e =
     (case e of
        EvQueue w \<Rightarrow> snd (ExecSQLAsync w s)
      | EvDirect b \<Rightarrow> snd (snd (ExecSQL Q b s))
      | EvWorker \<Rightarrow> ExecSQLThread E Q s
      | EvClose \<Rightarrow> Close Q s)"

text \<open>The statements of one origin that were run, and what is still to come.\<close>

definition ran :: "sql_origin \<Rightarrow> sql3 \<Rightarrow> bytes list" where
  "ran og s = map (snd \<circ> snd) (filter (\<lambda>(k, _). k = og) (m_log s))"

definition in_hand :: "sql3 \<Rightarrow> ushort list list" where
  "in_hand s = (case m_worker s of WIdle \<Rightarrow> [] | WExec w _ \<Rightarrow> [w])"

definition pending :: "sql3 \<Rightarrow> ushort list list" where
  "pending s = in_hand s @ m_SqlList s"

definition queued :: "sql_event list \<Rightarrow> ushort list list" where
  "queued es = concat (map (\<lambda>e. case e of EvQueue w \<Rightarrow> [w] | _ \<Rightarrow> []) es)"

section \<open>Lemmas\<close>

lemma exec_as_simps:
  assumes "exec_as Q og b s = (rc, rows, s')"
  shows "m_pDB s' = m_pDB s" "m_SqlList s' = m_SqlList s" "m_worker s' = m_worker s"
    "m_log s' = m_log s @ (case m_pDB s of None \<Rightarrow> [] | Some n \<Rightarrow> [(og, n, b)])"
  using assms by (auto simp: exec_as_def run_sql_def split: option.splits)

lemma ran_append: "m_log s' = m_log s @ l \<Longrightarrow> ran k s' = ran k s @ map (snd \<circ> snd) (filter (\<lambda>(k', _). k' = k) l)"
  by (simp add: ran_def)

lemma worker_take_keeps:
  assumes "m_pDB s = Some n"
  shows "ran Queued (worker_take Q nc s) = ran Queued s \<and> pending (worker_take Q nc s) = m_SqlList s
    \<and> m_pDB (worker_take Q nc s) = Some n \<and> ran Direct (worker_take Q nc s) = ran Direct s"
  using assms
  by (cases "m_SqlList s"; cases nc)
    (auto simp: worker_take_def Begin_def Commit_def exec_as_def run_sql_def ran_def pending_def in_hand_def
      Let_def split: prod.splits)

text \<open>While the database stays open, what was run, is in hand and is queued is what was queued, in
  order.\<close>

lemma sql_step_fifo:
  assumes "m_pDB s = Some n" "e \<noteq> EvClose"
  shows "m_pDB (sql_step E Q s e) = Some n \<and>
    ran Queued (sql_step E Q s e) @ map (UnicodeToUtf8 E) (pending (sql_step E Q s e))
    = ran Queued s @ map (UnicodeToUtf8 E) (pending s @ queued [e])"
proof (cases e)
  case (EvQueue w)
  with assms show ?thesis by (simp add: sql_step_def ExecSQLAsync_def ran_def pending_def in_hand_def queued_def)
next
  case (EvDirect b)
  with assms show ?thesis
    by (simp add: sql_step_def ExecSQL_def exec_as_def run_sql_def ran_def pending_def in_hand_def queued_def)
next
  case EvWorker
  show ?thesis
  proof (cases "m_worker s")
    case WIdle
    with EvWorker worker_take_keeps [OF assms(1), of Q False] show ?thesis
      by (simp add: sql_step_def ExecSQLThread_def pending_def in_hand_def queued_def)
  next
    case (WExec w nc)
    define s' where "s' = s\<lparr> m_log := m_log s @ [(Queued, n, UnicodeToUtf8 E w)] \<rparr>"
    have "sql_step E Q s e = worker_take Q nc s'"
      using EvWorker WExec assms(1)
      by (simp add: sql_step_def ExecSQLThread_def exec_as_def run_sql_def s'_def)
    moreover have "m_pDB s' = Some n" using assms(1) by (simp add: s'_def)
    moreover have "ran Queued s' = ran Queued s @ [UnicodeToUtf8 E w]" "m_SqlList s' = m_SqlList s"
      by (simp_all add: s'_def ran_def)
    ultimately show ?thesis
      using worker_take_keeps [of s' n Q nc] EvWorker WExec
      by (simp add: pending_def in_hand_def queued_def)
  qed
next
  case EvClose
  with assms show ?thesis by simp
qed

lemma queued_Cons: "queued (e # es) = queued [e] @ queued es"
  by (simp add: queued_def)

lemma sql_run_fifo:
  "m_pDB s = Some n \<Longrightarrow> EvClose \<notin> set es \<Longrightarrow>
    m_pDB (run_events (sql_step E Q) s es) = Some n \<and>
    ran Queued (run_events (sql_step E Q) s es) @ map (UnicodeToUtf8 E) (pending (run_events (sql_step E Q) s es))
    = ran Queued s @ map (UnicodeToUtf8 E) (pending s @ queued es)"
proof (induction es arbitrary: s)
  case Nil
  then show ?case by (simp add: queued_def)
next
  case (Cons e es)
  then have "e \<noteq> EvClose" by auto
  note st = sql_step_fifo [OF Cons.prems(1) this, of E Q]
  with Cons.IH [of "sql_step E Q s e"] Cons.prems(2) show ?case
    by (simp add: queued_Cons [of e es])
qed

text \<open>The worker gets through the queue in one round per statement.\<close>

lemma worker_rounds:
  "m_pDB s = Some n \<Longrightarrow> m_worker s = WExec w nc \<Longrightarrow> length (m_SqlList s) = k \<Longrightarrow>
    let s' = run_events (sql_step E Q) s (replicate (Suc k) EvWorker) in m_worker s' = WIdle \<and> m_SqlList s' = []"
proof (induction k arbitrary: s w nc)
  case 0
  then show ?case
    by (simp add: sql_step_def ExecSQLThread_def exec_as_def run_sql_def worker_take_def Commit_def Let_def)
next
  case (Suc k)
  obtain v vs where q: "m_SqlList s = v # vs" "length vs = k" using Suc.prems(3) by (cases "m_SqlList s") auto
  obtain nc' where st: "m_worker (sql_step E Q s EvWorker) = WExec v nc'"
    "m_SqlList (sql_step E Q s EvWorker) = vs" "m_pDB (sql_step E Q s EvWorker) = Some n"
    using Suc.prems q
    by (cases nc) (auto simp: sql_step_def ExecSQLThread_def exec_as_def run_sql_def worker_take_def Begin_def Let_def)
  have "run_events (sql_step E Q) s (replicate (Suc (Suc k)) EvWorker)
      = run_events (sql_step E Q) (sql_step E Q s EvWorker) (replicate (Suc k) EvWorker)" by simp
  with Suc.IH [OF st(3) st(1)] st(2) q(2) show ?case by simp
qed

lemma worker_empties:
  assumes "m_pDB s = Some n"
  shows "let s' = run_events (sql_step E Q) s (replicate (Suc (length (pending s))) EvWorker)
    in m_worker s' = WIdle \<and> m_SqlList s' = []"
proof (cases "m_worker s")
  case (WExec w nc)
  have rest: "m_pDB s' = Some n \<Longrightarrow> m_worker s' = WIdle \<Longrightarrow> m_SqlList s' = [] \<Longrightarrow>
      m_worker (sql_step E Q s' EvWorker) = WIdle \<and> m_SqlList (sql_step E Q s' EvWorker) = []" for s'
    by (simp add: sql_step_def ExecSQLThread_def worker_take_def)
  define s1 where "s1 = run_events (sql_step E Q) s (replicate (Suc (length (m_SqlList s))) EvWorker)"
  have "m_worker s1 = WIdle" "m_SqlList s1 = []"
    using worker_rounds [OF assms WExec refl, of E Q] by (simp_all add: s1_def Let_def)
  moreover have "m_pDB s1 = Some n"
    unfolding s1_def by (rule sql_run_fifo [OF assms, THEN conjunct1]) simp
  moreover have "replicate (Suc (length (pending s))) EvWorker = replicate (Suc (length (m_SqlList s))) EvWorker @ [EvWorker]"
    using WExec by (simp add: pending_def in_hand_def replicate_append_same)
  ultimately show ?thesis
    using rest [of s1] by (simp only: run_events_append s1_def [symmetric] Let_def) simp
next
  case WIdle
  show ?thesis
  proof (cases "m_SqlList s")
    case Nil
    with WIdle assms show ?thesis by (simp add: pending_def in_hand_def sql_step_def ExecSQLThread_def worker_take_def)
  next
    case (Cons v vs)
    obtain nc' where st: "m_worker (sql_step E Q s EvWorker) = WExec v nc'"
      "m_SqlList (sql_step E Q s EvWorker) = vs" "m_pDB (sql_step E Q s EvWorker) = Some n"
      using WIdle Cons assms by (auto simp: sql_step_def ExecSQLThread_def exec_as_def run_sql_def worker_take_def Begin_def Let_def)
    with worker_rounds [OF st(3) st(1) refl, of E Q] WIdle Cons show ?thesis
      by (simp add: pending_def in_hand_def Let_def)
  qed
qed

text \<open>Transactions. \<open>txn\<close> follows the log: a queued statement needs an open transaction, \<^verbatim>\<open>begin\<close> a
  closed one and \<^verbatim>\<open>commit\<close> an open one.\<close>

fun txn :: "bool \<Rightarrow> sql_log \<Rightarrow> bool option" where
  "txn b [] = Some b"
| "txn b ((Direct, _, _) # l) = txn b l"
| "txn b ((Queued, _, _) # l) = (if b then txn b l else None)"
| "txn b ((Bracket, _, c) # l) =
     (if c = lit ''begin;'' then (if b then None else txn True l) else if b then txn False l else None)"

lemma txn_append: "txn b (l @ m) = (case txn b l of None \<Rightarrow> None | Some c \<Rightarrow> txn c m)"
  by (induction b l rule: txn.induct) auto

definition begins :: "sqlite \<Rightarrow> bool" where
  "begins Q \<longleftrightarrow> (\<forall>h n. sq_rc Q h n (lit ''begin;'') = SQLITE_OK)"

definition txn_inv :: "sql3 \<Rightarrow> bool" where
  "txn_inv s \<longleftrightarrow> m_pDB s \<noteq> None
     \<and> (case m_worker s of WIdle \<Rightarrow> txn False (m_log s) = Some False
        | WExec _ nc \<Rightarrow> nc \<and> txn False (m_log s) = Some True)"

lemma commit_not_begin: "lit ''commit;'' \<noteq> lit ''begin;''"
  by (simp add: lit_def)

lemma worker_take_txn:
  assumes "begins Q" "m_pDB s = Some n" "txn False (m_log s) = Some nc"
  shows "txn_inv (worker_take Q nc s)"
proof (cases "m_SqlList s")
  case Nil
  with assms commit_not_begin show ?thesis
    by (cases nc) (simp_all add: worker_take_def txn_inv_def Commit_def exec_as_def run_sql_def txn_append)
next
  case (Cons v vs)
  with assms show ?thesis
    by (cases nc) (simp_all add: worker_take_def txn_inv_def Begin_def exec_as_def run_sql_def txn_append begins_def)
qed

lemma sql_step_txn:
  assumes "begins Q" "e \<noteq> EvClose" "txn_inv s"
  shows "txn_inv (sql_step E Q s e)"
proof -
  from assms(3) obtain n where n: "m_pDB s = Some n" by (auto simp: txn_inv_def)
  show ?thesis
  proof (cases e)
    case EvWorker
    show ?thesis
    proof (cases "m_worker s")
      case WIdle
      with assms n EvWorker show ?thesis
        by (simp add: sql_step_def ExecSQLThread_def worker_take_txn txn_inv_def [of s])
    next
      case (WExec w nc)
      then have "txn False (m_log s @ [(Queued, n, UnicodeToUtf8 E w)]) = Some True" "nc"
        using assms(3) by (simp_all add: txn_inv_def txn_append)
      with WExec EvWorker n worker_take_txn [OF assms(1), of "s\<lparr> m_log := m_log s @ [(Queued, n, UnicodeToUtf8 E w)] \<rparr>" n True]
      show ?thesis by (simp add: sql_step_def ExecSQLThread_def exec_as_def run_sql_def)
    qed
  next
    case (EvDirect b)
    with n assms(3) show ?thesis
      by (auto simp: sql_step_def ExecSQL_def exec_as_def run_sql_def txn_inv_def txn_append split: worker.splits)
  next
    case (EvQueue w)
    with n assms(3) show ?thesis by (auto simp: sql_step_def ExecSQLAsync_def txn_inv_def split: worker.splits)
  qed (use assms in simp)
qed

interpretation sql_worker: guarded_machine "\<lambda>s e. begins Q \<and> e \<noteq> EvClose" "sql_step E Q" txn_inv for E Q
  by unfold_locales (simp add: sql_step_txn)

section \<open>Properties\<close>

text \<open>C30: While a database stays open, whatever the threads do in between (closing it drops the queue), the
  queued statements are run first in, first out, none lost and none twice; left alone, the worker gets through
  everything with one round per statement and rests.\<close>

theorem sql_queue_served:
  assumes "m_pDB s = Some n" "EvClose \<notin> set es"
  shows "let t = run_events (sql_step E Q) s es;
             u = run_events (sql_step E Q) t (replicate (Suc (length (pending t))) EvWorker)
         in (\<exists>rest. ran Queued s @ map (UnicodeToUtf8 E) (pending s @ queued es) = ran Queued t @ rest)
            \<and> ran Queued u = ran Queued s @ map (UnicodeToUtf8 E) (pending s @ queued es) \<and> m_worker u = WIdle"
proof -
  define t where "t = run_events (sql_step E Q) s es"
  let ?ws = "replicate (Suc (length (pending t))) EvWorker"
  define u where "u = run_events (sql_step E Q) t ?ws"
  have t: "m_pDB t = Some n"
    "ran Queued t @ map (UnicodeToUtf8 E) (pending t) = ran Queued s @ map (UnicodeToUtf8 E) (pending s @ queued es)"
    using sql_run_fifo [OF assms, of E Q] unfolding t_def by blast+
  have "queued ?ws = []" by (simp add: queued_def)
  moreover have "EvClose \<notin> set ?ws" by simp
  ultimately have u: "ran Queued u @ map (UnicodeToUtf8 E) (pending u) = ran Queued t @ map (UnicodeToUtf8 E) (pending t)"
    using sql_run_fifo [OF t(1), of ?ws E Q] unfolding u_def by simp
  have w: "m_worker u = WIdle" "m_SqlList u = []"
    using worker_empties [OF t(1), of E Q] unfolding u_def Let_def by blast+
  then have "pending u = []" by (simp add: pending_def in_hand_def)
  with u t(2) have "ran Queued u = ran Queued s @ map (UnicodeToUtf8 E) (pending s @ queued es)" by simp
  with t(2) [symmetric] w(1) show ?thesis
    unfolding Let_def t_def [symmetric] u_def [symmetric] by blast
qed

definition no_rows :: sqlite where
  "no_rows = \<lparr> sq_open = (\<lambda>_. SQLITE_OK), sq_rc = (\<lambda>_ _ _. SQLITE_OK), sq_rows = (\<lambda>_ _ _. []) \<rparr>"

theorem sql_queue_served_witness:
  "let t = run_events (sql_step sample_ext no_rows) (Sql3\<lparr> m_pDB := Some [1] \<rparr>) [EvQueue [7], EvWorker, EvDirect [9], EvQueue [8]];
       u = run_events (sql_step sample_ext no_rows) t (replicate (Suc (length (pending t))) EvWorker)
   in (\<exists>rest. ran Queued (Sql3\<lparr> m_pDB := Some [1] \<rparr>) @ map (UnicodeToUtf8 sample_ext) (pending (Sql3\<lparr> m_pDB := Some [1] \<rparr>) @ queued [EvQueue [7], EvWorker, EvDirect [9], EvQueue [8]])
        = ran Queued t @ rest)
      \<and> ran Queued u = ran Queued (Sql3\<lparr> m_pDB := Some [1] \<rparr>) @ map (UnicodeToUtf8 sample_ext) (pending (Sql3\<lparr> m_pDB := Some [1] \<rparr>) @ queued [EvQueue [7], EvWorker, EvDirect [9], EvQueue [8]])
      \<and> m_worker u = WIdle"
  by (rule sql_queue_served) (simp_all add: Sql3_def)

text \<open>The worker's transactions are well bracketed: if SQLite accepts every \<^verbatim>\<open>begin\<close>, then in any
  interleaving on an open database no \<^verbatim>\<open>begin\<close> meets an open transaction, no \<^verbatim>\<open>commit\<close> a closed
  one, and every queued statement runs inside a transaction.\<close>

theorem sql_brackets:
  assumes "begins Q" "EvClose \<notin> set es"
  shows "txn False (m_log (run_events (sql_step E Q) (Sql3\<lparr> m_pDB := Some n \<rparr>) es)) \<noteq> None"
proof -
  have ok: "run_ok (\<lambda>s e. begins Q \<and> e \<noteq> EvClose) (sql_step E Q) s es" for s
    using assms by (induction es arbitrary: s) auto
  have "txn_inv (Sql3\<lparr> m_pDB := Some n \<rparr>)" by (simp add: txn_inv_def Sql3_def)
  then have "txn_inv (run_events (sql_step E Q) (Sql3\<lparr> m_pDB := Some n \<rparr>) es)"
    using ok by (rule sql_worker.run_guarded)
  then show ?thesis by (auto simp: txn_inv_def split: worker.splits)
qed

theorem sql_brackets_witness:
  "txn False (m_log (run_events (sql_step sample_ext no_rows) (Sql3\<lparr> m_pDB := Some [1] \<rparr>) [EvQueue [7], EvWorker, EvDirect [9], EvWorker])) \<noteq> None"
  by (rule sql_brackets) (simp_all add: begins_def no_rows_def)

end
