(* ===== verification/Auto_Buffer.thy ===== *)
theory Auto_Buffer imports Interfaces begin

text \<open>
  \<^verbatim>\<open>mars/comm/autobuffer.cc\<close>: the growing byte buffer with a cursor that carries every packet. The
  model keeps the allocated memory, the cursor, the length and the capacity, with \<^verbatim>\<open>size_t\<close>
  arithmetic at 32 bits; \<open>R n\<close> says whether \<^verbatim>\<open>realloc\<close> of \<open>n\<close> bytes succeeds. The assertions of
  the source only log, so what follows them is modelled, and an access outside the allocated
  memory is a fault. The abstract view of a buffer is its data and its cursor; the lemmas show
  the invariant and what each operation does to that view.
\<close>

section \<open>State\<close>

record abuf =
  ab_mem :: "bytes option"
  ab_pos :: int
  ab_len :: nat
  ab_cap :: nat
  ab_unit :: nat

definition ab_bytes :: "abuf \<Rightarrow> bytes" where
  "ab_bytes b = (case ab_mem b of None \<Rightarrow> [] | Some m \<Rightarrow> m)"

definition AutoBuffer :: "nat \<Rightarrow> abuf" where
  "AutoBuffer nSize = \<lparr> ab_mem = None, ab_pos = 0, ab_len = 0, ab_cap = 0, ab_unit = nSize \<rparr>"

abbreviation new_buffer :: abuf where "new_buffer \<equiv> AutoBuffer 128"

datatype seek_origin = ESeekStart | ESeekCur | ESeekEnd

section \<open>Operations\<close>

definition Reset :: "abuf \<Rightarrow> abuf" where
  "Reset b = b\<lparr> ab_mem := None, ab_pos := 0, ab_len := 0, ab_cap := 0 \<rparr>"

text \<open>The rounded size may wrap at 32 bits; the \<^verbatim>\<open>memset\<close> behind a failed \<^verbatim>\<open>realloc\<close> goes through a
  null pointer, and behind a wrapped one past the block.\<close>

definition FitSize :: "(nat \<Rightarrow> bool) \<Rightarrow> nat \<Rightarrow> abuf \<Rightarrow> abuf res" where
  "FitSize R n b =
     (if n > ab_cap b
      then if ab_unit b = 0 then crash DivideByZero
           else let mallocsize = (n + ab_unit b - 1) mod 2 ^ 32 div ab_unit b * ab_unit b
                in if \<not> R mallocsize then crash NullPointer
                   else if mallocsize < ab_cap b then crash BufferOverrun
                   else ok (b\<lparr> ab_mem := Some (ab_bytes b @ replicate (mallocsize - ab_cap b) 0),
                               ab_cap := mallocsize \<rparr>)
      else ok b)"

definition Seek :: "int \<Rightarrow> seek_origin \<Rightarrow> abuf \<Rightarrow> abuf" where
  "Seek offset eorigin b =
     (let p = (case eorigin of ESeekStart \<Rightarrow> offset
                             | ESeekCur \<Rightarrow> ab_pos b + offset
                             | ESeekEnd \<Rightarrow> int (ab_len b) + offset);
          p = (if p < 0 then 0 else p);
          p = (if nat p > ab_len b then int (ab_len b) else p)
      in b\<lparr> ab_pos := p \<rparr>)"

text \<open>\<^verbatim>\<open>Length(pos, length)\<close>.\<close>

definition SetLength :: "int \<Rightarrow> nat \<Rightarrow> abuf \<Rightarrow> abuf" where
  "SetLength p n b = Seek p ESeekStart (b\<lparr> ab_len := n \<rparr>)"

definition AllocWrite :: "(nat \<Rightarrow> bool) \<Rightarrow> nat \<Rightarrow> bool \<Rightarrow> abuf \<Rightarrow> abuf res" where
  "AllocWrite R readytowrite changelength b =
     (let nLen = nat ((ab_pos b + int readytowrite) mod 2 ^ 32)
      in and_then (FitSize R nLen b)
           (\<lambda>b. ok (if changelength then b\<lparr> ab_len := max nLen (ab_len b) \<rparr> else b)))"

definition AddCapacity :: "(nat \<Rightarrow> bool) \<Rightarrow> nat \<Rightarrow> abuf \<Rightarrow> abuf res" where
  "AddCapacity R n b = FitSize R ((ab_cap b + n) mod 2 ^ 32) b"

definition poke :: "nat \<Rightarrow> bytes \<Rightarrow> bytes \<Rightarrow> bytes" where
  "poke p s m = take p m @ s @ drop (p + length s) m"

text \<open>\<^verbatim>\<open>Write(const off_t& _pos, const void*, size_t)\<close>, which leaves the cursor alone.\<close>

definition WriteAt :: "(nat \<Rightarrow> bool) \<Rightarrow> int \<Rightarrow> bytes \<Rightarrow> abuf \<Rightarrow> abuf res" where
  "WriteAt R p s b =
     (let nLen = nat ((p + int (length s)) mod 2 ^ 32)
      in and_then (FitSize R nLen b)
           (\<lambda>b. let b = b\<lparr> ab_len := max nLen (ab_len b) \<rparr>
                in if s = [] then ok b
                   else if p < 0 \<or> nat p + length s > ab_cap b then crash BufferOverrun
                   else ok (b\<lparr> ab_mem := Some (poke (nat p) s (ab_bytes b)) \<rparr>)))"

text \<open>\<^verbatim>\<open>Write(const void*, size_t)\<close> writes at the cursor and moves it; \<^verbatim>\<open>Write(off_t& _pos, ...)\<close>
  moves the caller's position instead.\<close>

definition Write :: "(nat \<Rightarrow> bool) \<Rightarrow> bytes \<Rightarrow> abuf \<Rightarrow> abuf res" where
  "Write R s b = and_then (WriteAt R (ab_pos b) s b) (\<lambda>b. ok (Seek (int (length s)) ESeekCur b))"

definition WritePos :: "(nat \<Rightarrow> bool) \<Rightarrow> int \<Rightarrow> bytes \<Rightarrow> abuf \<Rightarrow> (abuf \<times> int) res" where
  "WritePos R p s b = and_then (WriteAt R p s b) (\<lambda>b. ok (b, p + int (length s)))"

definition WriteSeek :: "(nat \<Rightarrow> bool) \<Rightarrow> seek_origin \<Rightarrow> bytes \<Rightarrow> abuf \<Rightarrow> abuf res" where
  "WriteSeek R seek s b =
     (let p = (case seek of ESeekStart \<Rightarrow> 0 | ESeekCur \<Rightarrow> ab_pos b | ESeekEnd \<Rightarrow> int (ab_len b))
      in and_then (WritePos R p s b) (\<lambda>(b, _). ok b))"

text \<open>\<open>n\<close> bytes of the memory from the offset on.\<close>

definition Peek :: "int \<Rightarrow> nat \<Rightarrow> abuf \<Rightarrow> bytes res" where
  "Peek p n b =
     (if n = 0 then ok []
      else if p < 0 \<or> nat p + n > ab_cap b then crash BadRead
      else ok (take n (drop (nat p) (ab_bytes b))))"

text \<open>\<^verbatim>\<open>Read(const off_t& _pos, void*, size_t)\<close>: the length is counted from \<^verbatim>\<open>_pos\<close>, the bytes come
  from the cursor.\<close>

definition read_len :: "int \<Rightarrow> nat \<Rightarrow> abuf \<Rightarrow> nat" where
  "read_len p n b = min (nat ((int (ab_len b) - p) mod 2 ^ 32)) n"

definition ReadAt :: "int \<Rightarrow> nat \<Rightarrow> abuf \<Rightarrow> bytes res" where
  "ReadAt p n b = Peek (ab_pos b) (read_len p n b) b"

definition Read :: "nat \<Rightarrow> abuf \<Rightarrow> (bytes \<times> abuf) res" where
  "Read n b = and_then (ReadAt (ab_pos b) n b) (\<lambda>s. ok (s, Seek (int (length s)) ESeekCur b))"

definition ReadPos :: "int \<Rightarrow> nat \<Rightarrow> abuf \<Rightarrow> (bytes \<times> int) res" where
  "ReadPos p n b = and_then (ReadAt p n b) (\<lambda>s. ok (s, p + int (length s)))"

text \<open>\<^verbatim>\<open>Read(const off_t& _pos, AutoBuffer& _rhs, size_t)\<close>: appends at the other buffer's cursor.\<close>

definition ReadInto :: "(nat \<Rightarrow> bool) \<Rightarrow> int \<Rightarrow> nat \<Rightarrow> abuf \<Rightarrow> abuf \<Rightarrow> abuf res" where
  "ReadInto R p n b rhs = and_then (Peek (ab_pos b) (read_len p n b) b) (\<lambda>s. Write R s rhs)"

definition Move :: "(nat \<Rightarrow> bool) \<Rightarrow> int \<Rightarrow> abuf \<Rightarrow> (abuf \<times> nat) res" where
  "Move R k b =
     (if 0 < k
      then and_then (FitSize R ((ab_len b + nat k) mod 2 ^ 32) b)
             (\<lambda>b. if nat k + ab_len b > ab_cap b then crash BufferOverrun
                  else let m = ab_bytes b;
                           b = b\<lparr> ab_mem := Some (replicate (nat k) 0 @ take (ab_len b) m @ drop (nat k + ab_len b) m) \<rparr>;
                           b = SetLength (ab_pos b + k) (ab_len b + nat k) b
                       in ok (b, ab_len b))
      else let n = nat (- k);
               n = (if n > ab_len b then ab_len b else n);
               m = ab_bytes b;
               b = b\<lparr> ab_mem := map_option (\<lambda>m. drop n (take (ab_len b) m) @ drop (ab_len b - n) m) (ab_mem b) \<rparr>;
               b = SetLength (if n < nat (ab_pos b) then ab_pos b - int n else 0) (ab_len b - n) b
           in ok (b, ab_len b))"

definition PosLength :: "abuf \<Rightarrow> nat" where
  "PosLength b = nat ((int (ab_len b) - ab_pos b) mod 2 ^ 32)"

text \<open>\<^verbatim>\<open>Attach\<close> takes over a block, or another buffer's content; \<^verbatim>\<open>Detach\<close> gives the block away.\<close>

definition Attach :: "bytes \<Rightarrow> abuf \<Rightarrow> abuf" where
  "Attach m b = (Reset b)\<lparr> ab_mem := Some m, ab_len := length m, ab_cap := length m \<rparr>"

definition AttachBuffer :: "abuf \<Rightarrow> abuf \<Rightarrow> abuf \<times> abuf" where
  "AttachBuffer b rhs =
     ((Reset b)\<lparr> ab_mem := ab_mem rhs, ab_pos := ab_pos rhs, ab_len := ab_len rhs, ab_cap := ab_cap rhs \<rparr>,
      Reset rhs)"

definition Detach :: "abuf \<Rightarrow> bytes option \<times> nat \<times> abuf" where
  "Detach b = (ab_mem b, ab_len b, Reset b)"

section \<open>Invariant and abstract view\<close>

definition ab_ok :: "abuf \<Rightarrow> bool" where
  "ab_ok b \<longleftrightarrow> length (ab_bytes b) = ab_cap b \<and> ab_len b \<le> ab_cap b
     \<and> 0 \<le> ab_pos b \<and> nat (ab_pos b) \<le> ab_len b \<and> 0 < ab_unit b"

definition data :: "abuf \<Rightarrow> bytes" where
  "data b = take (ab_len b) (ab_bytes b)"

definition cursor :: "abuf \<Rightarrow> nat" where
  "cursor b = nat (ab_pos b)"

text \<open>The allocator serves what the client asks for: the source asserts a limit of 10 MB.\<close>

definition heap_limit :: nat where "heap_limit = 10 * 1024 * 1024"

definition heap_ok :: "(nat \<Rightarrow> bool) \<Rightarrow> bool" where
  "heap_ok R \<longleftrightarrow> (\<forall>n \<le> 2 * heap_limit. R n)"

definition small_unit :: "abuf \<Rightarrow> bool" where
  "small_unit b \<longleftrightarrow> ab_unit b \<le> heap_limit"

section \<open>Lemmas\<close>

named_theorems ab_simps \<open>buffer operations on the abstract view\<close>

lemma ab_ok_new [simp]: "0 < n \<Longrightarrow> ab_ok (AutoBuffer n)"
  by (simp add: ab_ok_def AutoBuffer_def ab_bytes_def)

lemma new_view [ab_simps]: "data (AutoBuffer n) = []" "cursor (AutoBuffer n) = 0"
  by (simp_all add: data_def cursor_def AutoBuffer_def)

lemma length_data: "ab_ok b \<Longrightarrow> length (data b) = ab_len b"
  by (simp add: ab_ok_def data_def)

lemma Seek_ok [simp]: "ab_ok b \<Longrightarrow> ab_ok (Seek k sk b)"
  by (simp add: ab_ok_def Seek_def Let_def ab_bytes_def)

lemma Seek_view [ab_simps]:
  "data (Seek k sk b) = data b" "ab_len (Seek k sk b) = ab_len b" "ab_cap (Seek k sk b) = ab_cap b"
  "ab_mem (Seek k sk b) = ab_mem b" "ab_unit (Seek k sk b) = ab_unit b"
  by (simp_all add: data_def Seek_def Let_def ab_bytes_def)

lemma cursor_Seek_start [ab_simps]: "cursor (Seek k ESeekStart b) = min (nat k) (ab_len b)"
  by (simp add: cursor_def Seek_def Let_def)

lemma cursor_Seek_cur: "0 \<le> ab_pos b \<Longrightarrow> cursor (Seek (int k) ESeekCur b) = min (cursor b + k) (ab_len b)"
  by (simp add: cursor_def Seek_def Let_def nat_add_distrib)

lemma round_up_fits:
  assumes "0 < (u::nat)" "n \<le> heap_limit" "u \<le> heap_limit"
  shows "n \<le> (n + u - 1) mod 2 ^ 32 div u * u" "(n + u - 1) mod 2 ^ 32 div u * u \<le> 2 * heap_limit"
proof -
  have small: "(n + u - 1) mod 2 ^ 32 = n + u - 1"
    using assms by (simp add: heap_limit_def)
  have dm: "(n + u - 1) div u * u + (n + u - 1) mod u = n + u - 1" by (rule div_mult_mod_eq)
  have "(n + u - 1) mod u < u" using assms by simp
  then show "n \<le> (n + u - 1) mod 2 ^ 32 div u * u" unfolding small using dm assms(1) by linarith
  show "(n + u - 1) mod 2 ^ 32 div u * u \<le> 2 * heap_limit" unfolding small using dm assms by linarith
qed

lemma FitSize_fits:
  assumes "ab_ok b" "heap_ok R" "n \<le> heap_limit" "small_unit b"
  shows "\<exists>b'. FitSize R n b = ok b' \<and> ab_ok b' \<and> data b' = data b \<and> ab_pos b' = ab_pos b
     \<and> ab_len b' = ab_len b \<and> ab_unit b' = ab_unit b \<and> n \<le> ab_cap b' \<and> ab_cap b \<le> ab_cap b'"
proof (cases "n > ab_cap b")
  case True
  let ?m = "(n + ab_unit b - 1) mod 2 ^ 32 div ab_unit b * ab_unit b"
  have u: "0 < ab_unit b" using assms(1) by (simp add: ab_ok_def)
  have m: "n \<le> ?m" "?m \<le> 2 * heap_limit"
    using round_up_fits [OF u assms(3)] assms(4) by (simp_all add: small_unit_def)
  have "R ?m" using assms(2) m(2) by (simp add: heap_ok_def)
  with True u m assms(1) show ?thesis
    by (simp add: FitSize_def Let_def ab_ok_def ab_bytes_def data_def)
next
  case False
  with assms show ?thesis by (simp add: FitSize_def)
qed

lemma FitSize_ok: "ab_ok b \<Longrightarrow> FitSize R n b = ok b' \<Longrightarrow> ab_ok b' \<and> ab_len b' = ab_len b \<and> ab_pos b' = ab_pos b"
  by (auto simp: FitSize_def ab_ok_def ab_bytes_def Let_def split: if_splits)

lemma poke_view:
  assumes "p \<le> n" "p + length s \<le> length m"
  shows "take (max (p + length s) n) (poke p s m) = take p m @ s @ drop (p + length s) (take n m)"
proof (cases "p + length s \<le> n")
  case True
  then have "take n (poke p s m) = take p m @ s @ take (n - p - length s) (drop (p + length s) m)"
  proof -
    have "length (take p m) = p" "length s \<le> n - p" "min n p = p" using True assms by simp_all
    then show ?thesis unfolding poke_def take_append by simp
  qed
  moreover have "drop (p + length s) (take n m) = take (n - p - length s) (drop (p + length s) m)"
    by (simp add: drop_take)
  ultimately show ?thesis using True by (simp add: max_def)
next
  case False
  then have "take (p + length s) (poke p s m) = take p m @ s"
    using assms by (simp add: poke_def min_def)
  with False show ?thesis by (simp add: max_def)
qed

lemma WriteAt_view:
  assumes "ab_ok b" "heap_ok R" "small_unit b" "0 \<le> p" "nat p \<le> ab_len b" "nat p + length s \<le> heap_limit"
  shows "\<exists>b'. WriteAt R p s b = ok b' \<and> ab_ok b' \<and> small_unit b' \<and> ab_pos b' = ab_pos b
    \<and> data b' = take (nat p) (data b) @ s @ drop (nat p + length s) (data b)"
proof -
  let ?n = "nat p + length s"
  have n: "nat ((p + int (length s)) mod 2 ^ 32) = ?n"
    using assms(4,6) by (simp add: heap_limit_def nat_add_distrib)
  obtain c where c: "FitSize R ?n b = ok c" "ab_ok c" "data c = data b" "ab_pos c = ab_pos b"
    "ab_len c = ab_len b" "ab_unit c = ab_unit b" "?n \<le> ab_cap c"
    using FitSize_fits [OF assms(1,2,6,3)] by blast
  let ?d = "c\<lparr> ab_len := max ?n (ab_len c), ab_mem := Some (poke (nat p) s (ab_bytes c)) \<rparr>"
  have len: "length (ab_bytes c) = ab_cap c" "ab_len c \<le> ab_cap c" using c(2) by (simp_all add: ab_ok_def)
  show ?thesis
  proof (cases "s = []")
    case True
    then have "WriteAt R p s b = ok (c\<lparr> ab_len := max ?n (ab_len c) \<rparr>)"
      using n c(1) by (simp add: WriteAt_def Let_def)
    moreover have "c\<lparr> ab_len := max ?n (ab_len c) \<rparr> = c"
      using True assms(5) c(5) by (cases c) (simp add: max_def)
    ultimately show ?thesis using True c assms(3) by (simp add: small_unit_def)
  next
    case False
    have "WriteAt R p s b = ok ?d"
      using False c(7) assms(4) by (simp only: WriteAt_def Let_def n c(1) and_then_simps) (simp add: ab_bytes_def)
    moreover have "data ?d = take (nat p) (data b) @ s @ drop (nat p + length s) (data b)"
    proof -
      have "data ?d = take (max ?n (ab_len c)) (poke (nat p) s (ab_bytes c))"
        by (simp add: data_def ab_bytes_def)
      also have "\<dots> = take (nat p) (ab_bytes c) @ s @ drop ?n (take (ab_len c) (ab_bytes c))"
        using c(5,7) len assms(5) by (intro poke_view) simp_all
      also have "take (nat p) (ab_bytes c) = take (nat p) (data c)"
        using c(5) assms(5) by (simp add: data_def min_def)
      finally show ?thesis by (simp only: data_def [of c, symmetric] c(3))
    qed
    moreover have "ab_ok ?d"
      using c len assms(5) by (auto simp: ab_ok_def ab_bytes_def poke_def)
    ultimately show ?thesis using c assms(3) by (simp add: small_unit_def)
  qed
qed

lemma Write_view:
  assumes "ab_ok b" "heap_ok R" "small_unit b" "cursor b + length s \<le> heap_limit"
  shows "\<exists>b'. Write R s b = ok b' \<and> ab_ok b' \<and> small_unit b' \<and> cursor b' = cursor b + length s
    \<and> data b' = take (cursor b) (data b) @ s @ drop (cursor b + length s) (data b)"
proof -
  have pos: "0 \<le> ab_pos b" "nat (ab_pos b) \<le> ab_len b" using assms(1) by (simp_all add: ab_ok_def)
  obtain c where c: "WriteAt R (ab_pos b) s b = ok c" "ab_ok c" "small_unit c" "ab_pos c = ab_pos b"
    "data c = take (cursor b) (data b) @ s @ drop (cursor b + length s) (data b)"
    using WriteAt_view [OF assms(1-3) pos] assms(4) unfolding cursor_def by blast
  have "cursor b + length s \<le> ab_len c"
    using c(5) length_data [OF c(2)] length_data [OF assms(1)] pos(2) by (simp add: cursor_def)
  then have "cursor (Seek (int (length s)) ESeekCur c) = cursor b + length s"
    using cursor_Seek_cur [of c "length s"] c(4) pos(1) by (simp add: cursor_def)
  with c show ?thesis by (simp add: Write_def ab_simps small_unit_def)
qed

lemma AllocWrite_view:
  assumes "ab_ok b" "heap_ok R" "small_unit b" "cursor b + n \<le> heap_limit"
  shows "\<exists>b'. AllocWrite R n grow b = ok b' \<and> ab_ok b' \<and> small_unit b' \<and> cursor b' = cursor b
    \<and> take (ab_len b) (data b') = data b \<and> length (data b') = (if grow then max (cursor b + n) (length (data b)) else length (data b))"
proof -
  have m: "nat ((ab_pos b + int n) mod 2 ^ 32) = cursor b + n"
    using assms(1,4) by (simp add: heap_limit_def cursor_def ab_ok_def nat_add_distrib)
  obtain c where c: "FitSize R (cursor b + n) b = ok c" "ab_ok c" "data c = data b" "ab_pos c = ab_pos b"
    "ab_len c = ab_len b" "ab_unit c = ab_unit b" "cursor b + n \<le> ab_cap c"
    using FitSize_fits [OF assms(1,2,4,3)] by blast
  have "AllocWrite R n grow b = ok (if grow then c\<lparr> ab_len := max (cursor b + n) (ab_len c) \<rparr> else c)"
    using m c(1) by (simp add: AllocWrite_def Let_def)
  moreover have "take (ab_len b) (data (c\<lparr> ab_len := max (cursor b + n) (ab_len c) \<rparr>)) = data b"
    using c(3,5) by (simp add: data_def ab_bytes_def min_def split: option.splits)
  moreover have "ab_ok (c\<lparr> ab_len := max (cursor b + n) (ab_len c) \<rparr>)"
    using c by (auto simp: ab_ok_def ab_bytes_def)
  moreover have "ab_pos (c\<lparr> ab_len := max (cursor b + n) (ab_len c) \<rparr>) = ab_pos b" "take (ab_len b) (data b) = data b"
    using c(4) by (simp_all add: data_def)
  ultimately show ?thesis
    using c assms(3) length_data [OF assms(1)] length_data by (simp add: small_unit_def cursor_def)
qed

lemma Move_back_view:
  assumes "ab_ok b" "k \<le> 0"
  shows "\<exists>b'. Move R k b = ok (b', length (data b')) \<and> ab_ok b' \<and> ab_unit b' = ab_unit b
    \<and> data b' = drop (nat (- k)) (data b) \<and> cursor b' = cursor b - nat (- k)"
proof -
  define n where "n = (if nat (- k) > ab_len b then ab_len b else nat (- k))"
  define c where "c = b\<lparr> ab_mem := map_option (\<lambda>m. drop n (take (ab_len b) m) @ drop (ab_len b - n) m) (ab_mem b) \<rparr>"
  define d where "d = SetLength (if n < nat (ab_pos b) then ab_pos b - int n else 0) (ab_len b - n) c"
  have n: "n \<le> ab_len b" by (simp add: n_def)
  have b: "length (ab_bytes b) = ab_cap b" "ab_len b \<le> ab_cap b" "0 \<le> ab_pos b" "nat (ab_pos b) \<le> ab_len b" "0 < ab_unit b"
    using assms(1) by (simp_all add: ab_ok_def)
  have bytes: "ab_bytes c = drop n (take (ab_len b) (ab_bytes b)) @ drop (ab_len b - n) (ab_bytes b)"
    using b by (simp add: c_def ab_bytes_def split: option.splits)
  have c: "length (ab_bytes c) = ab_cap b" "ab_cap c = ab_cap b" "ab_unit c = ab_unit b" "ab_pos c = ab_pos b"
    using b n by (simp_all add: bytes) (simp_all add: c_def)
  have d: "ab_bytes d = ab_bytes c" "ab_cap d = ab_cap c" "ab_unit d = ab_unit c" "ab_len d = ab_len b - n"
    by (simp_all add: d_def SetLength_def ab_simps ab_bytes_def)
  have pos: "ab_pos d = int (nat (ab_pos b) - n)"
  proof -
    obtain q where q: "ab_pos b = int q" using b(3) nonneg_int_cases by blast
    then show ?thesis using b(4) n by (auto simp: d_def SetLength_def Seek_def Let_def)
  qed
  have "ab_len b - n \<le> ab_cap b" "nat (ab_pos b) - n \<le> ab_len b - n" using b by linarith+
  with b c d pos have ok: "ab_ok d" by (simp add: ab_ok_def)
  have "data d = drop n (data b)" using b n by (simp add: data_def d bytes)
  moreover have "drop n (data b) = drop (nat (- k)) (data b)" using b by (simp add: n_def data_def)
  moreover have "cursor d = cursor b - nat (- k)" using b by (simp add: cursor_def pos n_def)
  moreover have "Move R k b = ok (d, ab_len d)"
    using assms(2) by (simp add: Move_def Let_def n_def [symmetric] c_def d_def)
  ultimately show ?thesis using ok c d length_data [OF ok] by auto
qed

lemma Move_consume:
  "ab_ok b \<Longrightarrow> \<exists>b'. Move R (- int k) b = ok (b', length (data b')) \<and> ab_ok b'
    \<and> data b' = drop k (data b) \<and> cursor b' = cursor b - k"
  using Move_back_view [of b "- int k" R] by auto

lemma Move_forward_view:
  assumes "ab_ok b" "heap_ok R" "small_unit b" "0 < k" "ab_len b + nat k \<le> heap_limit"
  shows "\<exists>b'. Move R k b = ok (b', length (data b')) \<and> ab_ok b' \<and> ab_unit b' = ab_unit b
    \<and> data b' = replicate (nat k) 0 @ data b \<and> cursor b' = cursor b + nat k"
proof -
  have m: "(ab_len b + nat k) mod 2 ^ 32 = ab_len b + nat k" using assms(5) by (simp add: heap_limit_def)
  obtain c where c: "FitSize R (ab_len b + nat k) b = ok c" "ab_ok c" "data c = data b" "ab_pos c = ab_pos b"
    "ab_len c = ab_len b" "ab_unit c = ab_unit b" "ab_len b + nat k \<le> ab_cap c"
    using FitSize_fits [OF assms(1,2,5,3)] by blast
  define d where "d = SetLength (ab_pos c + k) (ab_len c + nat k)
    (c\<lparr> ab_mem := Some (replicate (nat k) 0 @ take (ab_len c) (ab_bytes c) @ drop (nat k + ab_len c) (ab_bytes c)) \<rparr>)"
  have "length (ab_bytes c) = ab_cap c" "0 \<le> ab_pos c" "nat (ab_pos c) \<le> ab_len c" "0 < ab_unit c"
    using c(2) by (simp_all add: ab_ok_def)
  note b = this
  have d: "ab_bytes d = replicate (nat k) 0 @ take (ab_len c) (ab_bytes c) @ drop (nat k + ab_len c) (ab_bytes c)"
    "ab_len d = ab_len c + nat k" "ab_cap d = ab_cap c" "ab_unit d = ab_unit c"
    by (simp_all add: d_def SetLength_def ab_simps ab_bytes_def)
  have pos: "ab_pos d = ab_pos c + k"
    using b assms(4) by (simp add: d_def SetLength_def Seek_def Let_def nat_add_distrib)
  have ok: "ab_ok d" using b c d pos assms(4) by (simp add: ab_ok_def nat_add_distrib)
  have "Move R k b = ok (d, ab_len d)"
    using assms(4) m c(1,5,7) by (simp add: Move_def Let_def d_def)
  moreover have "data d = replicate (nat k) 0 @ data b"
  proof -
    have "data d = replicate (nat k) 0 @ take (ab_len c) (ab_bytes c)"
      using b c(7) by (simp add: data_def d c(5) min_def)
    then show ?thesis using c(3) by (simp add: data_def)
  qed
  moreover have "cursor d = cursor b + nat k" using b assms(4) by (simp add: cursor_def pos c(4) [symmetric] nat_add_distrib)
  ultimately show ?thesis using ok c d length_data [OF ok] by auto
qed

lemma Peek_data:
  assumes "ab_ok b" "p + n \<le> ab_len b"
  shows "Peek (int p) n b = ok (take n (drop p (data b)))"
proof -
  have "take n (drop p (data b)) = take n (drop p (ab_bytes b))"
    using assms(2) by (simp add: data_def drop_take min_def)
  with assms show ?thesis by (simp add: Peek_def ab_ok_def)
qed

section \<open>Sequences of operations\<close>

datatype ab_op = OpAllocWrite nat bool | OpWrite bytes | OpWriteAt nat bytes | OpWriteSeek seek_origin bytes
  | OpRead nat | OpReadAt nat nat | OpReadInto nat nat abuf | OpSeek int seek_origin | OpSetLength int nat | OpMove int
  | OpAddCapacity nat | OpAttach bytes | OpAttachBuffer abuf | OpDetach | OpReset

definition ab_apply :: "(nat \<Rightarrow> bool) \<Rightarrow> ab_op \<Rightarrow> abuf \<Rightarrow> abuf res" where
  "ab_apply R e b =
     (case e of
        OpAllocWrite n c \<Rightarrow> AllocWrite R n c b
      | OpWrite s \<Rightarrow> Write R s b
      | OpWriteAt p s \<Rightarrow> WriteAt R (int p) s b
      | OpWriteSeek sk s \<Rightarrow> WriteSeek R sk s b
      | OpRead n \<Rightarrow> and_then (Read n b) (\<lambda>(s, b). ok b)
      | OpReadAt p n \<Rightarrow> and_then (ReadPos (int p) n b) (\<lambda>_. ok b)
      | OpReadInto p n rhs \<Rightarrow> and_then (ReadInto R (int p) n b rhs) (\<lambda>_. ok b)
      | OpSeek k sk \<Rightarrow> ok (Seek k sk b)
      | OpSetLength p n \<Rightarrow> ok (SetLength p n b)
      | OpMove k \<Rightarrow> and_then (Move R k b) (\<lambda>(b, n). ok b)
      | OpAddCapacity n \<Rightarrow> AddCapacity R n b
      | OpAttach m \<Rightarrow> ok (Attach m b)
      | OpAttachBuffer rhs \<Rightarrow> ok (fst (AttachBuffer b rhs))
      | OpDetach \<Rightarrow> ok (snd (snd (Detach b)))
      | OpReset \<Rightarrow> ok (Reset b))"

text \<open>What a caller must respect: the positions the source asserts, the 10 MB limit, and one thing that
  the source does not assert: a read at a position copies from the cursor as many bytes as lie behind the
  position, so the cursor must not be behind the position. An attached buffer or block is well formed, a
  \<^verbatim>\<open>size_t\<close> has 32 bits.\<close>

definition ab_whole :: "abuf \<Rightarrow> bool" where
  "ab_whole b \<longleftrightarrow> ab_ok b \<and> small_unit b \<and> ab_len b < 2 ^ 32"

definition ab_allowed :: "abuf res \<Rightarrow> ab_op \<Rightarrow> bool" where
  "ab_allowed r e =
     (case r of Inl _ \<Rightarrow> False
      | Inr b \<Rightarrow> (case e of
          OpAllocWrite n c \<Rightarrow> cursor b + n \<le> heap_limit
        | OpWrite s \<Rightarrow> cursor b + length s \<le> heap_limit
        | OpWriteAt p s \<Rightarrow> p \<le> ab_len b \<and> p + length s \<le> heap_limit
        | OpWriteSeek sk s \<Rightarrow> ab_len b + length s \<le> heap_limit
        | OpReadAt p n \<Rightarrow> cursor b \<le> p \<and> p \<le> ab_len b
        | OpReadInto p n rhs \<Rightarrow> cursor b \<le> p \<and> p \<le> ab_len b \<and> ab_whole rhs \<and> cursor rhs + n \<le> heap_limit
        | OpSetLength p n \<Rightarrow> 0 \<le> p \<and> p \<le> int n \<and> n \<le> ab_cap b \<and> n < 2 ^ 32
        | OpMove k \<Rightarrow> int (ab_len b) + k \<le> int heap_limit
        | OpAddCapacity n \<Rightarrow> ab_cap b + n \<le> heap_limit
        | OpAttach m \<Rightarrow> length m < 2 ^ 32
        | OpAttachBuffer rhs \<Rightarrow> ab_whole rhs
        | _ \<Rightarrow> True))"

definition ab_good :: "abuf res \<Rightarrow> bool" where
  "ab_good r = (case r of Inl _ \<Rightarrow> False | Inr b \<Rightarrow> ab_whole b)"

definition ab_step :: "(nat \<Rightarrow> bool) \<Rightarrow> abuf res \<Rightarrow> ab_op \<Rightarrow> abuf res" where
  "ab_step R r e = and_then r (ab_apply R e)"

lemma Read_ok:
  assumes "ab_ok b" "ab_len b < 2 ^ 32"
  shows "Read n b = ok (take n (drop (cursor b) (data b)), Seek (int (length (take n (drop (cursor b) (data b))))) ESeekCur b)"
proof -
  have pos: "ab_pos b = int (cursor b)" "cursor b \<le> ab_len b" using assms(1) by (simp_all add: ab_ok_def cursor_def)
  have n: "read_len (ab_pos b) n b = min (ab_len b - cursor b) n"
    using assms(2) pos by (simp add: read_len_def nat_diff_distrib' flip: of_nat_diff)
  have "Peek (int (cursor b)) (min (ab_len b - cursor b) n) b = ok (take (min (ab_len b - cursor b) n) (drop (cursor b) (data b)))"
    using pos by (intro Peek_data [OF assms(1)]) auto
  moreover have "take (min (ab_len b - cursor b) n) (drop (cursor b) (data b)) = take n (drop (cursor b) (data b))"
    using length_data [OF assms(1)] by (simp add: min_def)
  ultimately show ?thesis by (simp add: Read_def ReadAt_def n) (simp add: pos(1))
qed

text \<open>A read at a position behind the cursor stays within the data; it returns what lies at the cursor.\<close>

lemma read_len_behind: "p \<le> ab_len b \<Longrightarrow> ab_len b < 2 ^ 32 \<Longrightarrow> read_len (int p) n b = min (ab_len b - p) n"
  by (simp add: read_len_def flip: of_nat_diff)

lemma Peek_behind:
  assumes "ab_ok b" "ab_len b < 2 ^ 32" "cursor b \<le> p" "p \<le> ab_len b"
  shows "Peek (ab_pos b) (read_len (int p) n b) b = ok (take (min (ab_len b - p) n) (drop (cursor b) (data b)))"
proof -
  have "ab_pos b = int (cursor b)" using assms(1) by (simp add: ab_ok_def cursor_def)
  moreover have "cursor b + min (ab_len b - p) n \<le> ab_len b" using assms(3,4) by linarith
  ultimately show ?thesis
    using Peek_data [OF assms(1), of "cursor b" "min (ab_len b - p) n"] read_len_behind [OF assms(4,2)] by simp
qed

lemma WriteSeek_as_WriteAt:
  "WriteSeek R sk s b = WriteAt R (case sk of ESeekStart \<Rightarrow> 0 | ESeekCur \<Rightarrow> ab_pos b | ESeekEnd \<Rightarrow> int (ab_len b)) s b"
  by (cases "WriteAt R (case sk of ESeekStart \<Rightarrow> 0 | ESeekCur \<Rightarrow> ab_pos b | ESeekEnd \<Rightarrow> int (ab_len b)) s b")
    (simp_all add: WriteSeek_def WritePos_def Let_def)

lemma ab_good_I: "ab_ok b \<Longrightarrow> small_unit b \<Longrightarrow> length (data b) < 2 ^ 32 \<Longrightarrow> ab_good (ok b)"
  by (simp add: ab_good_def ab_whole_def length_data)

lemma heap_limit_lt: "n \<le> heap_limit \<Longrightarrow> n < 2 ^ 32"
  by (simp add: heap_limit_def)

lemma WriteAt_good:
  assumes "ab_ok b" "heap_ok R" "small_unit b" "0 \<le> p" "nat p \<le> ab_len b" "nat p + length s \<le> heap_limit" "ab_len b < 2 ^ 32"
  shows "ab_good (WriteAt R p s b)"
proof -
  obtain c where c: "WriteAt R p s b = ok c" "ab_ok c" "small_unit c"
    "data c = take (nat p) (data b) @ s @ drop (nat p + length s) (data b)"
    using WriteAt_view [OF assms(1-6)] by blast
  have "length (data c) < 2 ^ 32"
    using heap_limit_lt [OF assms(6)] assms(7) length_data [OF assms(1)] assms(5) by (simp add: c(4))
  with c show ?thesis by (simp add: ab_good_I)
qed

lemma ab_step_good:
  assumes R: "heap_ok R" and good: "ab_good r" and allowed: "ab_allowed r e"
  shows "ab_good (ab_step R r e)"
proof -
  from good obtain b where r: "r = ok b" and b: "ab_ok b" "small_unit b" "ab_len b < 2 ^ 32"
    by (auto simp: ab_good_def ab_whole_def split: sum.splits)
  have pos: "0 \<le> ab_pos b" "nat (ab_pos b) \<le> ab_len b" using b(1) by (simp_all add: ab_ok_def)
  have "ab_good (ab_apply R e b)"
  proof (cases e)
    case (OpAllocWrite n c)
    with allowed r have "cursor b + n \<le> heap_limit" by (simp add: ab_allowed_def)
    with AllocWrite_view [OF b(1) R b(2) this, of c] heap_limit_lt [OF this] b length_data [OF b(1)] OpAllocWrite
    show ?thesis by (auto simp: ab_apply_def intro!: ab_good_I split: if_splits)
  next
    case (OpWrite s)
    with allowed r have n: "cursor b + length s \<le> heap_limit" by (simp add: ab_allowed_def)
    obtain c where "Write R s b = ok c" "ab_ok c" "small_unit c"
      "data c = take (cursor b) (data b) @ s @ drop (cursor b + length s) (data b)"
      using Write_view [OF b(1) R b(2) n] by blast
    with OpWrite heap_limit_lt [OF n] b length_data [OF b(1)] pos
    show ?thesis by (auto simp: ab_apply_def cursor_def intro!: ab_good_I)
  next
    case (OpWriteAt p s)
    with allowed r b R show ?thesis by (auto simp: ab_apply_def ab_allowed_def intro!: WriteAt_good)
  next
    case (OpWriteSeek sk s)
    with allowed r b R pos show ?thesis
      by (cases sk) (auto simp: ab_apply_def ab_allowed_def WriteSeek_as_WriteAt intro!: WriteAt_good)
  next
    case (OpRead n)
    with b Read_ok [OF b(1,3), of n] show ?thesis
      by (simp add: ab_apply_def ab_good_def ab_whole_def small_unit_def ab_simps)
  next
    case (OpReadAt p n)
    with allowed r have "cursor b \<le> p" "p \<le> ab_len b" by (simp_all add: ab_allowed_def)
    from Peek_behind [OF b(1,3) this, of n] b OpReadAt show ?thesis
      by (simp add: ab_apply_def ab_good_def ab_whole_def ReadPos_def ReadAt_def)
  next
    case (OpReadInto p n rhs)
    with allowed r have n: "cursor b \<le> p" "p \<le> ab_len b" "ab_ok rhs" "small_unit rhs" "cursor rhs + n \<le> heap_limit"
      by (simp_all add: ab_allowed_def ab_whole_def)
    let ?s = "take (min (ab_len b - p) n) (drop (cursor b) (data b))"
    have "cursor rhs + length ?s \<le> heap_limit" using n(5) by simp
    from Write_view [OF n(3) R n(4) this] obtain c where "Write R ?s rhs = ok c" by blast
    with Peek_behind [OF b(1,3) n(1,2), of n] b OpReadInto show ?thesis
      by (simp add: ab_apply_def ab_good_def ab_whole_def ReadInto_def)
  next
    case (OpSeek k sk)
    with b show ?thesis by (simp add: ab_apply_def ab_good_def ab_whole_def small_unit_def ab_simps)
  next
    case (OpSetLength p n)
    with allowed r have "n \<le> ab_cap b" "n < 2 ^ 32" by (simp_all add: ab_allowed_def)
    moreover have "ab_ok (b\<lparr> ab_len := n, ab_pos := 0 \<rparr>)" using b(1) \<open>n \<le> ab_cap b\<close> by (simp add: ab_ok_def ab_bytes_def)
    then have "ab_ok (Seek p ESeekStart (b\<lparr> ab_len := n, ab_pos := 0 \<rparr>))" by simp
    moreover have "Seek p ESeekStart (b\<lparr> ab_len := n, ab_pos := 0 \<rparr>) = SetLength p n b"
      by (simp add: SetLength_def Seek_def Let_def)
    ultimately show ?thesis using b OpSetLength
      by (simp add: ab_apply_def ab_good_def ab_whole_def) (simp add: SetLength_def small_unit_def ab_simps)
  next
    case (OpAddCapacity n)
    with allowed r have n: "ab_cap b + n \<le> heap_limit" by (simp add: ab_allowed_def)
    have "(ab_cap b + n) mod 2 ^ 32 = ab_cap b + n" using n by (simp add: heap_limit_def)
    with FitSize_fits [OF b(1) R n b(2)] b OpAddCapacity
    show ?thesis by (auto simp: ab_apply_def ab_good_def ab_whole_def small_unit_def AddCapacity_def)
  next
    case (OpAttach m)
    with allowed r b show ?thesis
      by (simp add: ab_allowed_def ab_apply_def ab_good_def ab_whole_def Attach_def Reset_def ab_ok_def ab_bytes_def small_unit_def)
  next
    case (OpAttachBuffer rhs)
    with allowed r b show ?thesis
      by (simp add: ab_allowed_def ab_apply_def ab_good_def ab_whole_def AttachBuffer_def Reset_def ab_ok_def ab_bytes_def small_unit_def)
  next
    case OpDetach
    with b show ?thesis
      by (simp add: ab_apply_def ab_good_def ab_whole_def Detach_def Reset_def ab_ok_def ab_bytes_def small_unit_def)
  next
    case (OpMove k)
    show ?thesis
    proof (cases "0 < k")
      case True
      then have "ab_len b + nat k \<le> heap_limit"
        using OpMove allowed r by (simp add: ab_allowed_def)
      with Move_forward_view [OF b(1) R b(2) True this] heap_limit_lt [OF this] b length_data [OF b(1)] OpMove
      show ?thesis by (auto simp: ab_apply_def small_unit_def intro!: ab_good_I)
    next
      case False
      with Move_back_view [OF b(1), of k R] b length_data [OF b(1)] OpMove
      show ?thesis by (auto simp: ab_apply_def small_unit_def intro!: ab_good_I)
    qed
  next
    case OpReset
    with b show ?thesis
      by (simp add: ab_apply_def ab_good_def ab_whole_def ab_ok_def small_unit_def Reset_def ab_bytes_def)
  qed
  with r show ?thesis by (simp add: ab_step_def)
qed

text \<open>The buffer as a guarded machine: under the caller's obligations no sequence of operations
  faults, and the invariant holds throughout.\<close>

interpretation buffer: guarded_machine "\<lambda>r e. heap_ok R \<and> ab_allowed r e" "ab_step R" ab_good for R
  by unfold_locales (auto intro: ab_step_good)

section \<open>Properties\<close>

text \<open>C24: A client that keeps to the asserted positions and the 10 MB limit, and reads at a position only
  with the cursor not behind it, can run any sequence of the buffer's operations (writes at the cursor, at
  a position and from an origin, reads at the cursor, at a position and into another buffer, seeks,
  lengths, moves, reservations, attaching, detaching, reset) on a fresh buffer: no operation touches
  memory outside the block, and the cursor, length and capacity stay ordered.\<close>

theorem buffer_sequences_safe:
  assumes "heap_ok R" "run_ok ab_allowed (ab_step R) (ok (AutoBuffer 128)) es"
  shows "ab_good (run_events (ab_step R) (ok (AutoBuffer 128)) es)"
proof (rule buffer.run_guarded)
  show "ab_good (ok (AutoBuffer 128))"
    using ab_ok_new [of 128] by (simp add: ab_good_def ab_whole_def AutoBuffer_def small_unit_def heap_limit_def)
  show "run_ok (\<lambda>r e. heap_ok R \<and> ab_allowed r e) (ab_step R) (ok (AutoBuffer 128)) es"
  proof -
    have "run_ok ab_allowed (ab_step R) r es \<Longrightarrow> run_ok (\<lambda>r e. heap_ok R \<and> ab_allowed r e) (ab_step R) r es" for r
      using assms(1) by (induction es arbitrary: r) auto
    with assms(2) show ?thesis by simp
  qed
qed

theorem buffer_sequences_safe_witness:
  "ab_good (run_events (ab_step (\<lambda>_. True)) (ok (AutoBuffer 128)) [OpWrite [1, 2, 3], OpSeek 1 ESeekStart, OpMove (- 1)])"
proof (rule buffer_sequences_safe)
  show R: "heap_ok (\<lambda>_. True)" by (simp add: heap_ok_def)
  have b: "ab_ok (AutoBuffer 128)" "small_unit (AutoBuffer 128)" "cursor (AutoBuffer 128) + length [1, 2, 3 :: byte] \<le> heap_limit"
    by (simp_all add: ab_simps) (simp_all add: small_unit_def AutoBuffer_def heap_limit_def)
  obtain c where c: "Write (\<lambda>_. True) [1, 2, 3] (AutoBuffer 128) = ok c" "ab_ok c" "data c = [1, 2, 3]"
    using Write_view [OF b(1) R b(2,3)] by (auto simp: ab_simps)
  then have "ab_len c = 3" using length_data [OF c(2)] by simp
  with b(3) c(1) show "run_ok ab_allowed (ab_step (\<lambda>_. True)) (ok (AutoBuffer 128)) [OpWrite [1, 2, 3], OpSeek 1 ESeekStart, OpMove (- 1)]"
    by (simp add: ab_step_def ab_apply_def) (simp add: ab_allowed_def ab_simps heap_limit_def)
qed

text \<open>C33: What writing and consuming mean for the data: a write replaces what lies at the cursor and
  moves the cursor behind it; consuming \<open>k\<close> bytes with \<^verbatim>\<open>Move(-k)\<close> drops exactly those from the
  front and keeps the cursor on the same byte.\<close>

theorem buffer_refines_bytes:
  assumes "ab_ok b" "heap_ok R" "small_unit b" "cursor b + length s \<le> heap_limit"
  shows "(\<exists>b'. Write R s b = ok b' \<and> ab_ok b' \<and> cursor b' = cursor b + length s
      \<and> data b' = take (cursor b) (data b) @ s @ drop (cursor b + length s) (data b))
    \<and> (\<exists>b'. Move R (- int k) b = ok (b', length (data b')) \<and> ab_ok b'
      \<and> data b' = drop k (data b) \<and> cursor b' = cursor b - k)"
  using Write_view [OF assms] Move_consume [OF assms(1), of R k] by auto

theorem buffer_refines_bytes_witness:
  "(\<exists>b'. Write (\<lambda>_. True) [7, 8] (Attach [1, 2, 3] new_buffer) = ok b' \<and> ab_ok b'
      \<and> cursor b' = cursor (Attach [1, 2, 3] new_buffer) + length [7, 8 :: byte]
      \<and> data b' = take (cursor (Attach [1, 2, 3] new_buffer)) (data (Attach [1, 2, 3] new_buffer)) @ [7, 8]
          @ drop (cursor (Attach [1, 2, 3] new_buffer) + length [7, 8 :: byte]) (data (Attach [1, 2, 3] new_buffer)))
    \<and> (\<exists>b'. Move (\<lambda>_. True) (- int 2) (Attach [1, 2, 3] new_buffer) = ok (b', length (data b')) \<and> ab_ok b'
      \<and> data b' = drop 2 (data (Attach [1, 2, 3] new_buffer)) \<and> cursor b' = cursor (Attach [1, 2, 3] new_buffer) - 2)"
  by (rule buffer_refines_bytes)
    (simp_all add: ab_ok_def Attach_def Reset_def AutoBuffer_def ab_bytes_def heap_ok_def small_unit_def heap_limit_def cursor_def)

text \<open>\<^verbatim>\<open>Read\<close> at a position counts from the position but copies from the cursor: right after
  writing \<open>[1, 2, 3]\<close>, reading two bytes at position 0 gives two bytes from behind the data.\<close>

lemma ReadAt_ignores_position:
  "\<exists>b. ab_ok b \<and> data b = [1, 2, 3] \<and> ReadAt 0 2 b = ok [0, 0]"
  by (rule exI [of _ "\<lparr> ab_mem = Some [1, 2, 3, 0, 0], ab_pos = 3, ab_len = 3, ab_cap = 5, ab_unit = 5 \<rparr>"])
    (simp add: ab_ok_def data_def ReadAt_def read_len_def Peek_def ab_bytes_def numeral_eq_Suc)

end
