(* ===== verification/Longlink_Packer.thy ===== *)
theory Longlink_Packer imports Auto_Buffer begin

text \<open>
  The framing of the long connection: \<^verbatim>\<open>PublicComponentV2/longlink_packer.cc\<close> with the command ids
  of \<^verbatim>\<open>Business/define.h\<close>, and the loop of \<^verbatim>\<open>mars/stn/src/longlink.cc\<close> that takes the frames off the
  receive buffer. A frame is a 16-byte big-endian header and the body. The lemmas show that what
  \<open>longlink_pack\<close> writes is what \<open>longlink_unpack\<close> reads, whatever follows and however the stream
  is cut, the 1 MB limit of the reader, and the two ways a server frame breaks the client.
\<close>

section \<open>Command ids\<close>

datatype LongLinkCmdId = RECV_PUSH_CMDID | SEND_NOOP_CMDID | RECV_NOOP_CMDID | SEND_NEWSYNC_CMDID
  | RECV_NEWSYNC_CMDID | LONGLINK_IDENTIFY_REQ | LONGLINK_IDENTIFY_RESP | PUSH_DATA_CMDID
  | SEND_SYNC_SUCCESS | SIGNALKEEP_CMDID | MANUALAUTH

primrec cmd_id :: "LongLinkCmdId \<Rightarrow> dword" where
  "cmd_id RECV_PUSH_CMDID = 24"
| "cmd_id SEND_NOOP_CMDID = 6"
| "cmd_id RECV_NOOP_CMDID = 1000000006"
| "cmd_id SEND_NEWSYNC_CMDID = 121"
| "cmd_id RECV_NEWSYNC_CMDID = 1000000121"
| "cmd_id LONGLINK_IDENTIFY_REQ = 205"
| "cmd_id LONGLINK_IDENTIFY_RESP = 1000000205"
| "cmd_id PUSH_DATA_CMDID = 122"
| "cmd_id SEND_SYNC_SUCCESS = 1000000190"
| "cmd_id SIGNALKEEP_CMDID = 243"
| "cmd_id MANUALAUTH = 253"

definition LONGLINK_CLIENT_VER :: dword where "LONGLINK_CLIENT_VER = 1"

text \<open>Reserved task ids of \<^verbatim>\<open>mars/stn/stn.h\<close>.\<close>

definition kInvalidTaskID :: dword where "kInvalidTaskID = 0"
definition kNoopTaskID :: dword where "kNoopTaskID = 0xFFFFFFFF"
definition kLongLinkIdentifyCheckerTaskID :: dword where "kLongLinkIdentifyCheckerTaskID = 0xFFFFFFFE"
definition kSignallingKeeperTaskID :: dword where "kSignallingKeeperTaskID = 0xFFFFFFFD"

section \<open>Packing and unpacking\<close>

datatype unpack_ret = LONGLINK_UNPACK_CONTINUE | LONGLINK_UNPACK_FALSE | LONGLINK_UNPACK_OK

definition xp_header :: "dword \<Rightarrow> ushort \<Rightarrow> ushort \<Rightarrow> dword \<Rightarrow> dword \<Rightarrow> bytes" where
  "xp_header pack_length head_length client_version cmdid seq =
     be32 pack_length @ be16 head_length @ be16 client_version @ be32 cmdid @ be32 seq"

text \<open>\<open>ver\<close> is \<^verbatim>\<open>sg_client_version\<close>; the result holds the out-parameters too.\<close>

definition unpack_test :: "dword \<Rightarrow> bytes \<Rightarrow> dword \<Rightarrow> dword \<Rightarrow> unpack_ret \<times> dword \<times> dword \<times> dword \<times> dword" where
  "unpack_test ver packed cmdid seq =
     (if length packed < 16 then (LONGLINK_UNPACK_CONTINUE, cmdid, seq, 0, 0)
      else let head_len = rd_be16 (drop 4 packed);
               client_version = ucast (rd_be16 (drop 6 packed))
           in if client_version \<noteq> ver then (LONGLINK_UNPACK_FALSE, cmdid, seq, 0, 0)
              else let cmdid = rd_be32 (drop 8 packed);
                       seq = rd_be32 (drop 12 packed);
                       package_len = rd_be32 packed;
                       body_len = package_len - ucast head_len
                   in if package_len > 1024 * 1024 then (LONGLINK_UNPACK_FALSE, cmdid, seq, package_len, body_len)
                      else if unat package_len > length packed
                      then (LONGLINK_UNPACK_CONTINUE, cmdid, seq, package_len, body_len)
                      else (LONGLINK_UNPACK_OK, cmdid, seq, package_len, body_len))"

definition longlink_pack :: "(nat \<Rightarrow> bool) \<Rightarrow> dword \<Rightarrow> dword \<Rightarrow> dword \<Rightarrow> abuf \<Rightarrow> abuf \<Rightarrow> abuf res" where
  "longlink_pack R ver cmdid seq body packed =
     (let st = xp_header (of_nat (ab_len body + 16)) 16 (ucast ver) cmdid seq in
      and_then (AllocWrite R (16 + ab_len body) True packed) (\<lambda>packed.
      and_then (Write R st packed) (\<lambda>packed.
      and_then (if ab_mem body \<noteq> None then Write R (data body) packed else ok packed) (\<lambda>packed.
        ok (Seek 0 ESeekStart packed)))))"

definition longlink_unpack :: "(nat \<Rightarrow> bool) \<Rightarrow> dword \<Rightarrow> abuf \<Rightarrow> dword \<Rightarrow> dword \<Rightarrow> abuf
    \<Rightarrow> (unpack_ret \<times> dword \<times> dword \<times> dword \<times> abuf) res" where
  "longlink_unpack R ver packed cmdid seq body =
     (let (ret, cmdid, seq, package_len, body_len) = unpack_test ver (data packed) cmdid seq
      in if ret \<noteq> LONGLINK_UNPACK_OK then ok (ret, cmdid, seq, package_len, body)
         else and_then (Peek (sint (package_len - body_len)) (unat body_len) packed) (\<lambda>s.
              and_then (WriteSeek R ESeekCur s body) (\<lambda>body. ok (ret, cmdid, seq, package_len, body))))"

section \<open>What a frame means\<close>

definition longlink_noop_cmdid :: dword where "longlink_noop_cmdid = cmd_id SEND_NOOP_CMDID"
definition signal_keep_cmdid :: dword where "signal_keep_cmdid = cmd_id SIGNALKEEP_CMDID"
definition longlink_noop_interval :: dword where "longlink_noop_interval = 0"
definition longlink_complexconnect_need_verify :: bool where "longlink_complexconnect_need_verify = False"

definition longlink_noop_isresp :: "dword \<Rightarrow> dword \<Rightarrow> dword \<Rightarrow> bool" where
  "longlink_noop_isresp taskid cmdid recv_seq \<longleftrightarrow> kNoopTaskID = taskid \<and> cmd_id RECV_NOOP_CMDID = cmdid"

definition longlink_ispush :: "dword \<Rightarrow> dword \<Rightarrow> bool" where
  "longlink_ispush cmdid taskid \<longleftrightarrow>
     kInvalidTaskID = taskid \<and> (cmd_id PUSH_DATA_CMDID = cmdid \<or> cmd_id RECV_PUSH_CMDID = cmdid)"

definition longlink_identify_isresp :: "dword \<Rightarrow> dword \<Rightarrow> dword \<Rightarrow> bool" where
  "longlink_identify_isresp sent_seq cmdid recv_seq \<longleftrightarrow> sent_seq = recv_seq \<and> 0 \<noteq> sent_seq"

section \<open>The receive loop\<close>

text \<open>Taking frames off the buffer, as \<^verbatim>\<open>LongLink::__RunReadWrite\<close> does: \<open>fuel\<close> bounds the number of
  iterations (\<open>None\<close>: not finished). The frames taken are collected; \<open>drain\<close> stops when the
  buffer is empty, or with the answer that broke the loop.\<close>

datatype drain_stop = Drained | StopContinue | StopFalse

fun drain :: "(nat \<Rightarrow> bool) \<Rightarrow> dword \<Rightarrow> nat \<Rightarrow> abuf \<Rightarrow> (dword \<times> dword \<times> bytes) list
    \<Rightarrow> ((dword \<times> dword \<times> bytes) list \<times> drain_stop \<times> abuf) res option" where
  "drain R ver 0 bufrecv acc = None"
| "drain R ver (Suc fuel) bufrecv acc =
     (if ab_len bufrecv = 0 then Some (ok (acc, Drained, bufrecv))
      else case longlink_unpack R ver bufrecv 0 kInvalidTaskID new_buffer of
             Inl e \<Rightarrow> Some (crash e)
           | Inr (ret, cmdid, taskid, packlen, body) \<Rightarrow>
               (case ret of
                  LONGLINK_UNPACK_CONTINUE \<Rightarrow> Some (ok (acc, StopContinue, bufrecv))
                | LONGLINK_UNPACK_FALSE \<Rightarrow> Some (ok (acc, StopFalse, bufrecv))
                | LONGLINK_UNPACK_OK \<Rightarrow>
                    (case Move R (- sint packlen) bufrecv of
                       Inl e \<Rightarrow> Some (crash e)
                     | Inr (bufrecv, _) \<Rightarrow> drain R ver fuel bufrecv (acc @ [(cmdid, taskid, data body)]))))"

section \<open>Lemmas\<close>

text \<open>The bytes of a frame.\<close>

definition frame_bytes :: "dword \<Rightarrow> dword \<times> dword \<times> bytes \<Rightarrow> bytes" where
  "frame_bytes ver f = (case f of (cmdid, seq, body) \<Rightarrow>
     xp_header (of_nat (length body + 16)) 16 (ucast ver) cmdid seq @ body)"

definition frame_valid :: "dword \<times> dword \<times> bytes \<Rightarrow> bool" where
  "frame_valid f = (case f of (cmdid, seq, body) \<Rightarrow> length body + 16 \<le> 1024 * 1024)"

lemma length_xp_header [simp]: "length (xp_header p h v c s) = 16"
  by (simp add: xp_header_def)

lemma length_frame_bytes: "length (frame_bytes ver (c, s, body)) = 16 + length body"
  by (simp add: frame_bytes_def)

lemma xp_header_fields:
  "rd_be32 (xp_header p h v c s @ r) = p" "rd_be16 (drop 4 (xp_header p h v c s @ r)) = h"
  "rd_be16 (drop 6 (xp_header p h v c s @ r)) = v" "rd_be32 (drop 8 (xp_header p h v c s @ r)) = c"
  "rd_be32 (drop 12 (xp_header p h v c s @ r)) = s"
  by (simp_all add: xp_header_def)

lemma version_16: "ver < 2 ^ 16 \<Longrightarrow> ucast (ucast ver :: ushort) = (ver :: dword)"
  by (simp add: dword_eq_iff word_less_nat_alt unsigned_ucast_eq take_bit_eq_mod unat_mod)

lemma pack_frame:
  assumes "heap_ok R" "ab_ok body" "16 + ab_len body \<le> heap_limit"
  shows "\<exists>p. longlink_pack R ver cmdid seq body new_buffer = ok p \<and> ab_ok p \<and> cursor p = 0
    \<and> data p = frame_bytes ver (cmdid, seq, data body)"
proof -
  let ?st = "xp_header (of_nat (ab_len body + 16)) 16 (ucast ver) cmdid seq"
  have new: "ab_ok new_buffer" "small_unit new_buffer" "cursor new_buffer + (16 + ab_len body) \<le> heap_limit"
    using assms(3) by (simp_all add: ab_simps) (simp add: small_unit_def AutoBuffer_def heap_limit_def)
  obtain a where a: "AllocWrite R (16 + ab_len body) True new_buffer = ok a" "ab_ok a" "small_unit a"
    "cursor a = 0" "length (data a) = 16 + ab_len body"
    using AllocWrite_view [OF new(1) assms(1) new(2,3), of True] by (auto simp: ab_simps)
  obtain b where b: "Write R ?st a = ok b" "ab_ok b" "small_unit b" "cursor b = 16" "data b = ?st @ drop 16 (data a)"
    using Write_view [OF a(2) assms(1) a(3), of ?st] assms(3) a(4) by auto
  have body: "length (data body) = ab_len body" using assms(2) by (rule length_data)
  show ?thesis
  proof (cases "ab_mem body")
    case None
    then have "data body = []" by (simp add: data_def ab_bytes_def)
    with None body a b show ?thesis
      by (simp add: longlink_pack_def Let_def frame_bytes_def ab_simps)
  next
    case (Some m)
    obtain c where c: "Write R (data body) b = ok c" "ab_ok c" "data c = ?st @ data body"
      using Write_view [OF b(2) assms(1) b(3), of "data body"] assms(3) b(4,5) a(5) body by auto
    with Some a b body show ?thesis
      by (simp add: longlink_pack_def Let_def frame_bytes_def ab_simps)
  qed
qed

lemma one_mb: "n \<le> 1024 * 1024 \<Longrightarrow> unat (of_nat n :: dword) = n" "n \<le> 1024 * 1024 \<Longrightarrow> n \<le> heap_limit"
  by (simp_all add: unat_of_nat_dword heap_limit_def)

lemma unat_ushort_lt: "unat (h::ushort) < 65536"
  using unsigned_less [of h] by simp

lemma sint_small: "n < 2 ^ 31 \<Longrightarrow> sint (of_nat n :: dword) = int n"
  by (simp add: sint_uint signed_take_bit_int_eq_self uint_nat unat_of_nat)

lemma body_len_eq: "(of_nat (n + 16) :: dword) - ucast (16 :: ushort) = of_nat n"
  by simp

lemma unpack_test_header:
  assumes "ver < 2 ^ 16" "n + 16 \<le> 1024 * 1024"
  shows "unpack_test ver (xp_header (of_nat (n + 16)) 16 (ucast ver) c s @ x) c0 s0
    = (if n \<le> length x then LONGLINK_UNPACK_OK else LONGLINK_UNPACK_CONTINUE, c, s, of_nat (n + 16), of_nat n)"
proof -
  define p where "p = xp_header (of_nat (n + 16)) 16 (ucast ver) c s @ x"
  have f: "rd_be32 p = of_nat (n + 16)" "rd_be16 (drop 4 p) = 16" "rd_be16 (drop 6 p) = ucast ver"
    "rd_be32 (drop 8 p) = c" "rd_be32 (drop 12 p) = s" "length p = 16 + length x"
    by (simp_all only: p_def xp_header_fields length_append length_xp_header)
  have n: "unat (of_nat (n + 16) :: dword) = n + 16" using assms(2) by (rule one_mb)
  have "\<not> (of_nat (n + 16) :: dword) > 1024 * 1024"
    using assms(2) n by (simp add: word_less_nat_alt del: of_nat_add)
  with n show ?thesis
    unfolding p_def [symmetric] unpack_test_def Let_def f version_16 [OF assms(1)] body_len_eq by simp
qed

lemma unpack_test_frame:
  assumes "ver < 2 ^ 16" "frame_valid (c, s, body)"
  shows "unpack_test ver (frame_bytes ver (c, s, body) @ r) c0 s0
    = (LONGLINK_UNPACK_OK, c, s, of_nat (length body + 16), of_nat (length body))"
  using unpack_test_header [OF assms(1), of "length body" c s "body @ r"] assms(2)
  by (simp add: frame_bytes_def frame_valid_def del: of_nat_add)

text \<open>A frame that has not arrived whole is awaited.\<close>

lemma unpack_test_partial:
  assumes "ver < 2 ^ 16" "frame_valid (c, s, body)" "k < length (frame_bytes ver (c, s, body))"
  shows "fst (unpack_test ver (take k (frame_bytes ver (c, s, body))) c0 s0) = LONGLINK_UNPACK_CONTINUE"
proof (cases "k < 16")
  case True
  then have "length (take k (frame_bytes ver (c, s, body))) < 16" by simp
  then show ?thesis by (simp only: unpack_test_def if_True fst_conv)
next
  case False
  have p: "take k (frame_bytes ver (c, s, body)) = xp_header (of_nat (length body + 16)) 16 (ucast ver) c s @ take (k - 16) body"
    using False by (simp add: frame_bytes_def)
  have "\<not> length body \<le> length (take (k - 16) body)" using assms(3) False by (simp add: length_frame_bytes)
  with assms(1,2) show ?thesis
    unfolding p by (subst unpack_test_header) (simp_all add: frame_valid_def)
qed

lemma unpack_step:
  assumes "heap_ok R" "ab_ok packed" "data packed = frame_bytes ver (c, s, body) @ r" "ver < 2 ^ 16" "frame_valid (c, s, body)"
  shows "\<exists>b. longlink_unpack R ver packed c0 s0 new_buffer = ok (LONGLINK_UNPACK_OK, c, s, of_nat (length body + 16), b)
    \<and> ab_ok b \<and> data b = body"
proof -
  let ?pl = "of_nat (length body + 16) :: dword"
  have n: "unat (of_nat (length body) :: dword) = length body" "length body \<le> heap_limit"
    using assms(5) by (auto simp: frame_valid_def intro!: one_mb)
  have off: "sint (?pl - of_nat (length body)) = int 16" by simp
  have "16 + length body \<le> ab_len packed"
    using length_data [OF assms(2)] assms(3) by (simp add: length_frame_bytes)
  then have "Peek (int 16) (length body) packed = ok (take (length body) (drop 16 (data packed)))"
    by (rule Peek_data [OF assms(2)])
  then have peek: "Peek (sint (?pl - of_nat (length body))) (unat (of_nat (length body) :: dword)) packed = ok body"
    unfolding off n(1) by (simp add: assms(3) frame_bytes_def)
  obtain b where b: "WriteAt R 0 body new_buffer = ok b" "ab_ok b" "data b = body"
    using WriteAt_view [OF _ assms(1), of new_buffer 0 body] n(2)
    by (auto simp: small_unit_def ab_simps) (auto simp: AutoBuffer_def heap_limit_def)
  have "WriteSeek R ESeekCur body new_buffer = ok b"
    using b(1) by (simp add: WriteSeek_as_WriteAt) (simp add: AutoBuffer_def)
  with peek b(2,3) show ?thesis
    by (simp add: longlink_unpack_def assms(3) unpack_test_frame [OF assms(4,5)] del: of_nat_add)
qed

text \<open>Draining a stream of whole frames followed by the beginning of another one.\<close>

lemma drain_frames:
  assumes R: "heap_ok R" and ver: "ver < 2 ^ 16"
  shows "ab_ok buf \<Longrightarrow> data buf = concat (map (frame_bytes ver) fs) @ tail \<Longrightarrow> list_all frame_valid fs
    \<Longrightarrow> tail = take k (frame_bytes ver g) \<Longrightarrow> frame_valid g \<Longrightarrow> k < length (frame_bytes ver g) \<Longrightarrow> length fs < fuel
    \<Longrightarrow> \<exists>b stop. drain R ver fuel buf acc = Some (ok (acc @ fs, stop, b)) \<and> ab_ok b \<and> data b = tail
      \<and> stop = (if tail = [] then Drained else StopContinue)"
proof (induction fs arbitrary: buf acc fuel)
  case Nil
  then obtain n where fuel: "fuel = Suc n" by (cases fuel) auto
  show ?case
  proof (cases "tail = []")
    case True
    have "data buf = []" using Nil(2) True by simp
    then have "ab_len buf = 0" using length_data [OF Nil(1)] by simp
    with \<open>data buf = []\<close> True Nil(1) fuel show ?thesis by simp
  next
    case False
    obtain c s body where g: "g = (c, s, body)" by (cases g)
    have "fst (unpack_test ver (data buf) 0 kInvalidTaskID) = LONGLINK_UNPACK_CONTINUE"
      using unpack_test_partial [OF ver] Nil g by simp
    moreover have "ab_len buf \<noteq> 0" using False Nil length_data [OF Nil(1)] by auto
    ultimately show ?thesis
      using Nil(1,2) False fuel by (auto simp: longlink_unpack_def split: prod.splits)
  qed
next
  case (Cons f fs)
  obtain c s body where f: "f = (c, s, body)" by (cases f)
  obtain n where fuel: "fuel = Suc n" "length fs < n" using Cons.prems(7) by (cases fuel) auto
  have valid: "frame_valid (c, s, body)" using Cons.prems(3) f by simp
  have d: "data buf = frame_bytes ver (c, s, body) @ concat (map (frame_bytes ver) fs) @ tail"
    using Cons.prems(2) f by simp
  obtain b where u: "longlink_unpack R ver buf 0 kInvalidTaskID new_buffer
      = ok (LONGLINK_UNPACK_OK, c, s, of_nat (length body + 16), b)" "data b = body"
    using unpack_step [OF R Cons.prems(1) d ver valid] by blast
  have k: "sint (of_nat (length body + 16) :: dword) = int (length body + 16)"
    using valid by (intro sint_small) (simp add: frame_valid_def)
  obtain buf' where m: "Move R (- int (length body + 16)) buf = ok (buf', length (data buf'))" "ab_ok buf'"
    "data buf' = drop (length body + 16) (data buf)"
    using Move_consume [OF Cons.prems(1), of R "length body + 16"] by blast
  have "data buf' = concat (map (frame_bytes ver) fs) @ tail"
    using m(3) d by (simp add: length_frame_bytes)
  then obtain b' stop where IH: "drain R ver n buf' (acc @ [f]) = Some (ok ((acc @ [f]) @ fs, stop, b'))"
    "ab_ok b'" "data b' = tail" "stop = (if tail = [] then Drained else StopContinue)"
    using Cons.IH [OF m(2) _ _ Cons.prems(4-6) fuel(2), of "acc @ [f]"] Cons.prems(3) by auto
  have "ab_len buf \<noteq> 0" using d length_data [OF Cons.prems(1)] length_frame_bytes [of ver c s body] by auto
  then have "drain R ver fuel buf acc = drain R ver n buf' (acc @ [f])"
    using u m(1) k by (simp add: fuel(1) f del: of_nat_add)
  with IH show ?case by auto
qed

section \<open>The frame as a prefix code\<close>

definition read_xp_frame :: "dword \<Rightarrow> bytes \<Rightarrow> ((dword \<times> dword \<times> bytes) \<times> nat) option" where
  "read_xp_frame ver s =
     (case longlink_unpack (\<lambda>_. True) ver (Attach s new_buffer) 0 kInvalidTaskID new_buffer of
        Inr (LONGLINK_UNPACK_OK, cmdid, seq, packlen, body) \<Rightarrow> Some ((cmdid, seq, data body), unat packlen)
      | _ \<Rightarrow> None)"

lemma Attach_ok: "ab_ok (Attach s new_buffer)" "data (Attach s new_buffer) = s"
  by (simp_all add: ab_ok_def data_def Attach_def Reset_def AutoBuffer_def ab_bytes_def)

interpretation xp_frames: prefix_codec "frame_bytes ver" "read_xp_frame ver" "\<lambda>f. ver < 2 ^ 16 \<and> frame_valid f" for ver
proof unfold_locales
  fix f r assume v: "ver < 2 ^ 16 \<and> frame_valid f"
  obtain c s body where f: "f = (c, s, body)" by (cases f)
  have "heap_ok (\<lambda>_. True)" by (simp add: heap_ok_def)
  then obtain b where b: "longlink_unpack (\<lambda>_. True) ver (Attach (frame_bytes ver f @ r) new_buffer) 0 kInvalidTaskID new_buffer
      = ok (LONGLINK_UNPACK_OK, c, s, of_nat (length body + 16), b)" "data b = body"
    using unpack_step [OF _ Attach_ok(1) Attach_ok(2) [unfolded f], of "\<lambda>_. True" ver c s body r 0 kInvalidTaskID] v f by auto
  have n: "unat (of_nat (length body + 16) :: dword) = length body + 16"
    using v f by (intro one_mb) (simp add: frame_valid_def)
  show "read_xp_frame ver (frame_bytes ver f @ r) = Some (f, length (frame_bytes ver f))"
    unfolding read_xp_frame_def b(1)
    by (simp only: sum.case prod.case unpack_ret.case n b(2)) (simp add: f length_frame_bytes)
qed

section \<open>Properties\<close>

text \<open>C15: However the stream is cut by the network, the receive loop takes off exactly the frames
  that have arrived whole, in order, with their command, task id and body, keeps the beginning
  of the next frame for the next read, and needs one iteration per frame.\<close>

theorem drain_takes_whole_frames:
  assumes "heap_ok R" "ver < 2 ^ 16" "ab_ok buf" "list_all frame_valid fs" "frame_valid g"
    and "data buf = concat (map (frame_bytes ver) fs) @ take k (frame_bytes ver g)" "k < length (frame_bytes ver g)"
  shows "\<exists>b stop. drain R ver (Suc (length fs)) buf [] = Some (ok (fs, stop, b)) \<and> ab_ok b
    \<and> data b = take k (frame_bytes ver g) \<and> stop = (if take k (frame_bytes ver g) = [] then Drained else StopContinue)"
  using drain_frames [OF assms(1-3) assms(6,4) refl assms(5,7), of "Suc (length fs)" "[]"] by simp

theorem drain_takes_whole_frames_witness:
  "\<exists>b stop. drain (\<lambda>_. True) 1 (Suc (length [(121, 7, [5, 6]) :: dword \<times> dword \<times> bytes])) (Attach (frame_bytes 1 (121, 7, [5, 6]) @ take 3 (frame_bytes 1 (6, 8, []))) new_buffer) []
      = Some (ok ([(121, 7, [5, 6])], stop, b)) \<and> ab_ok b
    \<and> data b = take 3 (frame_bytes 1 (6, 8, [])) \<and> stop = (if take 3 (frame_bytes 1 (6, 8, [])) = [] then Drained else StopContinue)"
  by (rule drain_takes_whole_frames) (simp_all add: heap_ok_def Attach_ok frame_valid_def length_frame_bytes)

text \<open>What \<^verbatim>\<open>longlink_pack\<close> writes, \<^verbatim>\<open>longlink_unpack\<close> reads back, up to a frame of 1 MB. A larger
  body is packed and sent without complaint, and the reader refuses it.\<close>

theorem pack_unpack_limit:
  assumes "heap_ok R" "ver < 2 ^ 16" "ab_ok body" "16 + ab_len body \<le> heap_limit"
  shows "\<exists>p. longlink_pack R ver cmdid seq body new_buffer = ok p \<and>
    (if 16 + ab_len body \<le> 1024 * 1024
     then \<exists>b. longlink_unpack R ver p 0 0 new_buffer = ok (LONGLINK_UNPACK_OK, cmdid, seq, of_nat (ab_len body + 16), b)
       \<and> data b = data body
     else \<exists>pl. longlink_unpack R ver p 0 0 new_buffer = ok (LONGLINK_UNPACK_FALSE, cmdid, seq, pl, new_buffer))"
proof -
  obtain p where p: "longlink_pack R ver cmdid seq body new_buffer = ok p" "ab_ok p"
    "data p = frame_bytes ver (cmdid, seq, data body)"
    using pack_frame [OF assms(1,3,4)] by blast
  have len: "length (data body) = ab_len body" using assms(3) by (rule length_data)
  show ?thesis
  proof (cases "16 + ab_len body \<le> 1024 * 1024")
    case True
    have d: "data p = frame_bytes ver (cmdid, seq, data body) @ []" using p(3) by simp
    have "frame_valid (cmdid, seq, data body)" using True len by (simp add: frame_valid_def)
    from unpack_step [OF assms(1) p(2) d assms(2) this, of 0 0] p(1) True len show ?thesis by auto
  next
    case False
    define q where "q = frame_bytes ver (cmdid, seq, data body)"
    have f: "rd_be32 q = of_nat (ab_len body + 16)" "rd_be16 (drop 4 q) = 16" "rd_be16 (drop 6 q) = ucast ver"
      "rd_be32 (drop 8 q) = cmdid" "rd_be32 (drop 12 q) = seq" "length q = 16 + ab_len body"
      by (simp_all only: q_def frame_bytes_def prod.case xp_header_fields length_append length_xp_header len)
    have "unat (of_nat (ab_len body + 16) :: dword) = ab_len body + 16"
      using assms(4) by (intro unat_of_nat_dword) (simp add: heap_limit_def)
    then have "(of_nat (ab_len body + 16) :: dword) > 1024 * 1024"
      using False by (simp add: word_less_nat_alt del: of_nat_add)
    then have "unpack_test ver q 0 0
        = (LONGLINK_UNPACK_FALSE, cmdid, seq, of_nat (ab_len body + 16), of_nat (ab_len body + 16) - ucast (16 :: ushort))"
      unfolding unpack_test_def Let_def f version_16 [OF assms(2)] by simp
    then have "longlink_unpack R ver p 0 0 new_buffer = ok (LONGLINK_UNPACK_FALSE, cmdid, seq, of_nat (ab_len body + 16), new_buffer)"
      by (simp add: longlink_unpack_def p(3) q_def [symmetric] del: of_nat_add)
    with p(1) False show ?thesis by auto
  qed
qed

theorem pack_unpack_limit_witness:
  "\<exists>p. longlink_pack (\<lambda>_. True) 1 121 7 new_buffer new_buffer = ok p \<and>
    (if 16 + ab_len new_buffer \<le> 1024 * 1024
     then \<exists>b. longlink_unpack (\<lambda>_. True) 1 p 0 0 new_buffer = ok (LONGLINK_UNPACK_OK, 121, 7, of_nat (ab_len new_buffer + 16), b)
       \<and> data b = data new_buffer
     else \<exists>pl. longlink_unpack (\<lambda>_. True) 1 p 0 0 new_buffer = ok (LONGLINK_UNPACK_FALSE, 121, 7, pl, new_buffer))"
  by (rule pack_unpack_limit) (simp_all add: heap_ok_def, simp add: AutoBuffer_def heap_limit_def)

text \<open>C34: Two server headers defeat the reader. One that declares a header longer than the package
  makes it copy about 4 GB: a fault. One that declares package and header length zero is accepted
  as an empty frame that takes nothing off the buffer, so the receive loop never ends.\<close>

theorem hostile_headers:
  assumes "ab_ok buf" "ab_cap buf < 2 ^ 32" "ver < 2 ^ 16" "data buf = xp_header pl h (ucast ver) c s @ r"
  shows "(pl < ucast h \<and> pl \<le> 1024 * 1024 \<and> unat pl \<le> length (data buf) \<longrightarrow> longlink_unpack R ver buf c0 s0 b = crash BadRead)
    \<and> (pl = 0 \<and> h = 0 \<longrightarrow> drain R ver fuel buf acc = None)"
proof -
  define q where "q = data buf"
  have f: "rd_be32 q = pl" "rd_be16 (drop 4 q) = h" "rd_be16 (drop 6 q) = ucast ver"
    "rd_be32 (drop 8 q) = c" "rd_be32 (drop 12 q) = s" "length q = 16 + length r"
    by (simp_all only: q_def assms(4) xp_header_fields length_append length_xp_header)
  have crash: "longlink_unpack R ver buf c0 s0 b = crash BadRead"
    if "pl < ucast h" "pl \<le> 1024 * 1024" "unat pl \<le> length (data buf)"
  proof -
    have t: "unpack_test ver q c0 s0 = (LONGLINK_UNPACK_OK, c, s, pl, pl - ucast h)"
      using that unfolding unpack_test_def Let_def f version_16 [OF assms(3)] q_def [symmetric] by (simp add: f not_less)
    have h: "unat (ucast h :: dword) = unat h" "unat h < 65536" "unat pl < unat h"
      using that(1) unat_ushort_lt [of h] by (simp_all add: word_less_nat_alt unsigned_ucast_eq take_bit_nat_eq_self)
    have "unat (pl - ucast h) = 2 ^ 32 + unat pl - unat h"
      using h by (simp add: unat_sub_if_size word_size)
    moreover have "pl - (pl - ucast h) = (of_nat (unat h) :: dword)"
      using h(1,2) unat_of_nat_dword [of "unat h"] by (simp add: dword_eq_iff)
    then have "sint (pl - (pl - ucast h)) = int (unat h)"
      using h(2) by (simp only:) (intro sint_small, simp)
    ultimately have "Peek (sint (pl - (pl - ucast h))) (unat (pl - ucast h)) buf = crash BadRead"
      using h(2,3) assms(2) by (simp add: Peek_def)
    with t show ?thesis by (simp add: longlink_unpack_def q_def)
  qed
  have spin: "drain R ver fuel buf acc = None" if "pl = 0" "h = 0"
  proof -
    have t: "unpack_test ver q 0 kInvalidTaskID = (LONGLINK_UNPACK_OK, c, s, 0, 0)"
      using that unfolding unpack_test_def Let_def f version_16 [OF assms(3)] by simp
    have mv: "Move R 0 buf = ok (buf, ab_len buf)"
      using assms(1) by (cases buf) (auto simp: Move_def Let_def SetLength_def Seek_def ab_ok_def ab_bytes_def option.map_ident split: option.splits)
    show ?thesis
    proof (induction fuel arbitrary: acc)
      case (Suc fuel)
      obtain b' where b': "WriteSeek R ESeekCur [] new_buffer = ok b'"
        by (simp add: WriteSeek_as_WriteAt WriteAt_def FitSize_def AutoBuffer_def)
      have "longlink_unpack R ver buf 0 kInvalidTaskID new_buffer = ok (LONGLINK_UNPACK_OK, c, s, 0, b')"
        using t b' by (simp add: longlink_unpack_def q_def Peek_def)
      moreover have "ab_len buf \<noteq> 0" using f(6) length_data [OF assms(1)] by (simp add: q_def)
      ultimately show ?case using mv Suc.IH by simp
    qed simp
  qed
  from crash spin show ?thesis by blast
qed

theorem hostile_headers_witness:
  "longlink_unpack (\<lambda>_. True) 1 (Attach (xp_header 16 17 (ucast (1 :: dword)) 0 0) new_buffer) 0 0 new_buffer = crash BadRead
    \<and> drain (\<lambda>_. True) 1 5 (Attach (xp_header 0 0 (ucast (1 :: dword)) 0 0) new_buffer) [] = None"
proof -
  have cap: "ab_cap (Attach (xp_header p h v c s) new_buffer) < 2 ^ 32" for p h v c s
    by (simp add: Attach_def)
  have d: "data (Attach (xp_header p h v c s) new_buffer) = xp_header p h v c s @ []" for p h v c s
    by (simp add: Attach_ok)
  show ?thesis
    using hostile_headers [OF Attach_ok(1) cap _ d, of 1 16 17 0 0 "\<lambda>_. True" 0 0 new_buffer]
      hostile_headers [OF Attach_ok(1) cap _ d, of 1 0 0 0 0 "\<lambda>_. True" 0 0 new_buffer 5 "[]"]
    by (simp add: Attach_ok)
qed

end
