(* ===== verification/Client_State.thy ===== *)
theory Client_State imports Header Sql_Store Longlink_Packer begin

text \<open>
  The state of the client process and the two operations everything goes through. From
  \<^verbatim>\<open>interface.h\<close>: error codes, CGI types, URIs and the result structures handed to the UI; from
  \<^verbatim>\<open>Business/define.h\<close>: channels and the device constants; from \<^verbatim>\<open>Wrapper/CGITask.h\<close> and the task
  headers: the tasks. \<open>proc\<close> collects the singletons (\<^verbatim>\<open>CAuthInfo\<close>, \<^verbatim>\<open>CMicroChatDB\<close>,
  \<^verbatim>\<open>NetworkService\<close>, the statics of the tasks, the globals of the UI callback file); \<open>env\<close> collects
  what is outside: libraries, clock, random numbers, the content of unassigned members, and the callback the UI registered. \<^verbatim>\<open>LOG\<close> output is not modelled.
\<close>

section \<open>Constants of \<^verbatim>\<open>interface.h\<close>\<close>

definition MAX_BUF :: nat where "MAX_BUF = 65535"

datatype CGI_ERR_CODE = CGI_CODE_LOGIN_NEED_MOBILE_MSG | CGI_CODE_LOGIN_NEED_SCAN_QRCODE
  | CGI_CODE_LOGIN_PWD_WRONG | CGI_CODE_LOGIN_FAIL | CGI_CODE_LOGIN_SUCC | CGI_CODE_OK
  | CGI_CODE_NETWORK_ERR | CGI_CODE_DECRYPT_ERR | CGI_CODE_PARSE_PROTOBUF_ERR | CGI_CODE_UNPACK_ERR
  | CGI_CODE_LOGIN_ECDH_ERR | CGI_CODE_LOGIN_SCAN_QRCODE_ERR | CGI_ERR_UNKNOWN

primrec code :: "CGI_ERR_CODE \<Rightarrow> int" where
  "code CGI_CODE_LOGIN_NEED_MOBILE_MSG = - 205"
| "code CGI_CODE_LOGIN_NEED_SCAN_QRCODE = - 106"
| "code CGI_CODE_LOGIN_PWD_WRONG = - 3"
| "code CGI_CODE_LOGIN_FAIL = - 1"
| "code CGI_CODE_LOGIN_SUCC = 0"
| "code CGI_CODE_OK = 0"
| "code CGI_CODE_NETWORK_ERR = 100001"
| "code CGI_CODE_DECRYPT_ERR = 100002"
| "code CGI_CODE_PARSE_PROTOBUF_ERR = 100003"
| "code CGI_CODE_UNPACK_ERR = 100004"
| "code CGI_CODE_LOGIN_ECDH_ERR = 100005"
| "code CGI_CODE_LOGIN_SCAN_QRCODE_ERR = 100006"
| "code CGI_ERR_UNKNOWN = 0x7FFFFFFF"

datatype CGI_TYPE = CGI_TYPE_INVALID | CGI_TYPE_UNKNOWN | CGI_TYPE_NEWSYNC | CGI_TYPE_NEWINIT
  | CGI_TYPE_GETPROFILE | CGI_TYPE_MANUALAUTH | CGI_TYPE_NEWSENDMSG | CGI_TYPE_SEARCHCONTACT
  | CGI_TYPE_GETCONTACT | CGI_TYPE_VERIFYUSER | CGI_TYPE_BIND | CGI_TYPE_PUSH | CGI_TYPE_MAX

primrec cgi_num :: "CGI_TYPE \<Rightarrow> dword" where
  "cgi_num CGI_TYPE_INVALID = - 1"
| "cgi_num CGI_TYPE_UNKNOWN = 0"
| "cgi_num CGI_TYPE_NEWSYNC = 138"
| "cgi_num CGI_TYPE_NEWINIT = 139"
| "cgi_num CGI_TYPE_GETPROFILE = 302"
| "cgi_num CGI_TYPE_MANUALAUTH = 701"
| "cgi_num CGI_TYPE_NEWSENDMSG = 522"
| "cgi_num CGI_TYPE_SEARCHCONTACT = 106"
| "cgi_num CGI_TYPE_GETCONTACT = 182"
| "cgi_num CGI_TYPE_VERIFYUSER = 30"
| "cgi_num CGI_TYPE_BIND = 145"
| "cgi_num CGI_TYPE_PUSH = 10001"
| "cgi_num CGI_TYPE_MAX = 0xFFFF"

definition CGI_NEWSYNC :: bytes where "CGI_NEWSYNC = lit ''/cgi-bin/micromsg-bin/newsync''"
definition CGI_MANUALAUTH :: bytes where "CGI_MANUALAUTH = lit ''/cgi-bin/micromsg-bin/manualauth''"
definition CGI_NEWSENDMSG :: bytes where "CGI_NEWSENDMSG = lit ''/cgi-bin/micromsg-bin/newsendmsg''"
definition CGI_NEWINIT :: bytes where "CGI_NEWINIT = lit ''/cgi-bin/micromsg-bin/newinit''"
definition CGI_GETPROFILE :: bytes where "CGI_GETPROFILE = lit ''/cgi-bin/micromsg-bin/getprofile''"
definition CGI_SEARCHCONTACT :: bytes where "CGI_SEARCHCONTACT = lit ''/cgi-bin/micromsg-bin/searchcontact''"
definition CGI_GETCONTACT :: bytes where "CGI_GETCONTACT = lit ''/cgi-bin/micromsg-bin/getcontact''"
definition CGI_VERIFYUSER :: bytes where "CGI_VERIFYUSER = lit ''/cgi-bin/micromsg-bin/verifyuser''"
definition CGI_BIND :: bytes where "CGI_BIND = lit ''/cgi-bin/micromsg-bin/bindopmobileforreg''"

section \<open>Result structures of \<^verbatim>\<open>interface.h\<close>\<close>

text \<open>A character array holds a C string that fits it. A pointer array is a list with \<open>None\<close> for a
  slot that was never assigned.\<close>

record LoginResult =
  szMsg :: bytes
  szUrl :: bytes
  szWxid :: bytes
  dwUin :: dword

definition new_LoginResult :: LoginResult where
  "new_LoginResult = \<lparr> szMsg = [], szUrl = [], szWxid = [], dwUin = 0 \<rparr>"

record MobileVerifyResult =
  mv_nCode :: int
  mv_szMsgResult :: bytes
  nOption :: int

definition new_MobileVerifyResult :: MobileVerifyResult where
  "new_MobileVerifyResult = \<lparr> mv_nCode = 0, mv_szMsgResult = [], nOption = 10 \<rparr>"

record ContactInfo =
  wxid :: bytes
  nickName :: bytes
  headicon :: bytes
  v1_Name :: bytes
  v2_Name :: bytes

definition new_ContactInfo :: ContactInfo where
  "new_ContactInfo = \<lparr> wxid = [], nickName = [], headicon = [], v1_Name = [], v2_Name = [] \<rparr>"

record NewMsg =
  svrid :: "64 word"
  szFrom :: bytes
  szTo :: bytes
  nType :: int
  utc :: dword
  szContent :: bytes

definition new_NewMsg :: NewMsg where
  "new_NewMsg = \<lparr> svrid = 0, szFrom = [], szTo = [], nType = 0, utc = 0, szContent = [] \<rparr>"

text \<open>\<^verbatim>\<open>NewInitResult\<close> and \<^verbatim>\<open>NewSyncResult\<close> have the same members; a null array is the empty list.\<close>

record BatchResult =
  ppContanct :: "ContactInfo option list"
  dwContanct :: nat
  ppNewMsg :: "NewMsg option list"
  dwNewMsg :: nat
  dwSize :: nat

definition new_BatchResult :: BatchResult where
  "new_BatchResult = \<lparr> ppContanct = [], dwContanct = 0, ppNewMsg = [], dwNewMsg = 0, dwSize = 0 \<rparr>"

record SearchContactResult =
  sc_nCode :: int
  sc_szMsgResult :: bytes
  szNickName :: bytes
  szV1_Name :: bytes
  szV2_Name :: bytes
  szHeadIcon :: bytes

definition new_SearchContactResult :: SearchContactResult where
  "new_SearchContactResult = \<lparr> sc_nCode = 0, sc_szMsgResult = [], szNickName = [], szV1_Name = [],
     szV2_Name = [], szHeadIcon = [] \<rparr>"

record VerifyUserResult =
  vu_nCode :: int
  vu_szMsgResult :: bytes

definition new_VerifyUserResult :: VerifyUserResult where
  "new_VerifyUserResult = \<lparr> vu_nCode = 0, vu_szMsgResult = [] \<rparr>"

text \<open>What \<^verbatim>\<open>void *m_res\<close> points to; \<open>ResUninit\<close> is a pointer no one assigned.\<close>

datatype cgi_result = ResUninit | ResLogin LoginResult | ResMobile MobileVerifyResult
  | ResInit BatchResult | ResSync BatchResult | ResSearch SearchContactResult | ResVerify VerifyUserResult

section \<open>Constants of \<^verbatim>\<open>define.h\<close>\<close>

datatype ChannelType = ChannelType_ShortConn | ChannelType_LongConn | ChannelType_All

primrec channel_num :: "ChannelType \<Rightarrow> nat" where
  "channel_num ChannelType_ShortConn = 1"
| "channel_num ChannelType_LongConn = 2"
| "channel_num ChannelType_All = 3"

definition LONGLINK_HOST :: bytes where "LONGLINK_HOST = lit ''long.weixin.qq.com''"
definition LONGLINK_PORT_443 :: nat where "LONGLINK_PORT_443 = 443"
definition LONGLINK_PORT_8080 :: nat where "LONGLINK_PORT_8080 = 8080"
definition LONGLINK_PORT_80 :: nat where "LONGLINK_PORT_80 = 80"
definition SHORTLINK_HOST :: bytes where "SHORTLINK_HOST = lit ''short.weixin.qq.com''"
definition SHORTLINK_PORT :: nat where "SHORTLINK_PORT = 80"
definition ECDH_NID :: nat where "ECDH_NID = 713"
definition DEVICE_INFO_GUID :: bytes where "DEVICE_INFO_GUID = lit ''A31d2152a33d83e7''"
definition DEVICE_INFO_CLIENT_SEQID :: bytes where "DEVICE_INFO_CLIENT_SEQID = lit ''A31cc712ad2d83e6_1512965043210''"
definition DEVICE_INFO_CLIENT_SEQID_SIGN :: bytes where "DEVICE_INFO_CLIENT_SEQID_SIGN = lit ''e89b238e77cf988ebd09eb65f5378e99''"
definition DEVICE_INFO_IMEI :: bytes where "DEVICE_INFO_IMEI = lit ''865167123366678''"
definition DEVICE_INFO_ANDROID_ID :: bytes where "DEVICE_INFO_ANDROID_ID = lit ''eabe1f220561a49f''"
definition DEVICE_INFO_ANDROID_VER :: bytes where "DEVICE_INFO_ANDROID_VER = lit ''android-26''"
definition DEVICE_INFO_MANUFACTURER :: "ext \<Rightarrow> bytes" where "DEVICE_INFO_MANUFACTURER E = CStringA2Utf8 E (lit ''iPhone'')"
definition DEVICE_INFO_MODELNAME :: "ext \<Rightarrow> bytes" where "DEVICE_INFO_MODELNAME E = CStringA2Utf8 E (lit ''X'')"
definition DEVICE_INFO_MOBILE_WIFI_MAC_ADDRESS :: bytes where "DEVICE_INFO_MOBILE_WIFI_MAC_ADDRESS = lit ''01:67:33:56:78:11''"
definition DEVICE_INFO_AP_BSSID :: bytes where "DEVICE_INFO_AP_BSSID = lit ''41:25:99:22:3f:14''"
definition DEVICE_INFO_LANGUAGE :: bytes where "DEVICE_INFO_LANGUAGE = lit ''zh_CN''"

section \<open>Tasks\<close>

text \<open>The members a task class adds to \<^verbatim>\<open>CGITask\<close> and \<^verbatim>\<open>BaseHeader\<close>.\<close>

record login_members =
  m_strUserName :: bytes
  m_strPwd :: bytes
  m_strAesKey :: bytes
  m_strLocalEcdhPubKey :: bytes
  m_strLocalEcdhPriKey :: bytes
  m_nid :: nat

record bind_members =
  m_strPhoneNum :: bytes
  m_strAuthTicket :: bytes
  m_nOptionType :: int
  m_strVerifyCode :: bytes
  b_strAesKey :: bytes

record verify_members =
  m_userName :: bytes
  m_v2Name :: bytes
  m_sayContent :: bytes
  m_tag2 :: int

datatype task_class =
    ManualAuthCGITask login_members
  | BindCGITask bind_members
  | NewSyncCGITask
  | NewInitCGITask
  | NewSendCGITask bytes bytes            \<comment> \<open>\<open>m_content\<close>, \<open>m_ToId\<close>\<close>
  | SearchContactCGITask bytes            \<comment> \<open>\<open>m_searchName\<close>\<close>
  | GetContactCGITask bytes               \<comment> \<open>\<open>m_searchName\<close>\<close>
  | VerifyUserCGITask verify_members
  | ReportSyncKVCGITask

text \<open>\<^verbatim>\<open>CGITask\<close>: a member no one assigned is \<open>None\<close>.\<close>

record task =
  t_taskid :: "dword option"
  t_channel_select :: "ChannelType option"
  t_cmdid :: "dword option"
  t_cgitype :: "dword option"
  t_cgi :: bytes
  t_host :: bytes
  m_res :: cgi_result
  t_hdr :: hdr
  t_class :: task_class

definition new_task :: "task_class \<Rightarrow> task" where
  "new_task c = \<lparr> t_taskid = None, t_channel_select = None, t_cmdid = None, t_cgitype = None, t_cgi = [],
     t_host = [], m_res = ResUninit, t_hdr = hdr0, t_class = c \<rparr>"

text \<open>The \<^verbatim>\<open>mars::stn::Task\<close> handed to the network layer, with the members the client sets.\<close>

record stn_task =
  st_taskid :: dword
  st_cmdid :: "dword option"
  st_channel_select :: "ChannelType option"
  st_shortlink_host_list :: "bytes list"
  st_cgi :: bytes
  st_send_only :: bool

section \<open>The process\<close>

text \<open>Window messages the UI callbacks post.\<close>

datatype ui_post =
    WM_LOGIN_SCAN_QRCODE cgi_result int
  | WM_SHOW_LOGIN_RESULT cgi_result int
  | WM_LOGIN_SUCC
  | WM_MOBILE_VERIFY cgi_result
  | WM_MAIN_ADD_FRIEND ContactInfo
  | WM_MAIN_ADD_NEW_MSG NewMsg
  | WM_FRIEND_SEARCH_CONTACT cgi_result
  | WM_FRIEND_ADD_NEW_FRIEND cgi_result
  | FORCE_QUIT int

record proc =
  p_auth :: auth
  p_db :: sql3
  s_bSyncing :: bool
  s_bNeedReSync :: bool
  map_task :: "dword \<rightharpoonup> task"
  gs_taskid :: dword
  p_cgiCallBack :: bool
  p_started :: "stn_task list"
  p_rands :: nat
  p_calls :: "(cgi_result \<times> dword option \<times> dword option \<times> int) list"
  p_posts :: "ui_post list"
  g_wxid :: bytes
  g_dwUin :: dword

definition proc0 :: "dword \<Rightarrow> proc" where
  "proc0 cv = \<lparr> p_auth = auth0 cv, p_db = Sql3, s_bSyncing = False, s_bNeedReSync = False,
     map_task = Map.empty, gs_taskid = 1, p_cgiCallBack = False, p_started = [], p_rands = 0,
     p_calls = [], p_posts = [], g_wxid = [], g_dwUin = 0 \<rparr>"

type_synonym tm = "int \<times> int \<times> int \<times> int \<times> int \<times> int"

text \<open>\<open>e_callback\<close> is the function behind \<^verbatim>\<open>m_cgiCallBack\<close>.\<close>

record env =
  e_ext :: ext
  e_sql :: sqlite
  e_heap :: "nat \<Rightarrow> bool"
  e_rand :: "nat \<Rightarrow> nat"
  e_time :: dword
  e_uninit :: dword
  e_localtime :: "dword \<Rightarrow> tm"
  e_callback :: "cgi_result \<Rightarrow> dword option \<Rightarrow> dword option \<Rightarrow> int \<Rightarrow> proc \<Rightarrow> proc res"

section \<open>Callback and task start\<close>

definition DoCallBack :: "env \<Rightarrow> cgi_result \<Rightarrow> dword option \<Rightarrow> dword option \<Rightarrow> int \<Rightarrow> proc \<Rightarrow> proc res" where
  "DoCallBack V result nCgiType nTaskId nCode p =
     (let p' = p\<lparr> p_calls := p_calls p @ [(result, nCgiType, nTaskId, nCode)] \<rparr>
      in if p_cgiCallBack p then e_callback V result nCgiType nTaskId nCode p' else ok p)"

text \<open>\<^verbatim>\<open>NetworkService::startTask\<close>. The constructor of \<^verbatim>\<open>mars::stn::Task\<close> draws the id.\<close>

definition startTask :: "task \<Rightarrow> bool \<Rightarrow> proc \<Rightarrow> dword \<times> proc" where
  "startTask t bSendOnly p =
     (let taskid = gs_taskid p;
          ctask = \<lparr> st_taskid = taskid, st_cmdid = t_cmdid t, st_channel_select = t_channel_select t,
            st_shortlink_host_list = [t_host t], st_cgi = t_cgi t, st_send_only = bSendOnly \<rparr>
      in (taskid, p\<lparr> gs_taskid := taskid + 1, map_task := (map_task p)(taskid \<mapsto> t),
                     p_started := p_started p @ [ctask] \<rparr>))"

section \<open>Shared steps of the tasks\<close>

text \<open>The request goes into the buffer of the network layer.\<close>

definition put_request :: "env \<Rightarrow> bytes \<Rightarrow> abuf \<Rightarrow> abuf res" where
  "put_request V req outbuffer =
     and_then (AllocWrite (e_heap V) (length req) True outbuffer) (Write (e_heap V) req)"

text \<open>\<open>string(s.c_str(), 16)\<close>: the terminator may be read, nothing behind it.\<close>

definition first16 :: "bytes \<Rightarrow> bytes res" where
  "first16 s = (if length s < 15 then crash BadRead else ok (take 16 (s @ [0])))"

text \<open>\<^verbatim>\<open>strcpy_s\<close> into a member array of \<open>n\<close> characters.\<close>

definition set_field :: "nat \<Rightarrow> bytes \<Rightarrow> (bytes \<Rightarrow> 'r) \<Rightarrow> 'r res" where
  "set_field n s upd = and_then (strcpy_s n s) (\<lambda>v. ok (upd v))"

lemma put_request_data:
  assumes "heap_ok (e_heap V)" "length req \<le> heap_limit"
  shows "\<exists>b. put_request V req new_buffer = ok b \<and> ab_ok b \<and> data b = req"
proof -
  have new: "ab_ok new_buffer" "small_unit new_buffer" "cursor new_buffer + length req \<le> heap_limit"
    using assms(2) by (simp_all add: ab_simps) (simp add: small_unit_def AutoBuffer_def heap_limit_def)
  obtain a where a: "AllocWrite (e_heap V) (length req) True new_buffer = ok a" "ab_ok a" "small_unit a"
    "cursor a = 0" "length (data a) = length req"
    using AllocWrite_view [OF new(1) assms(1) new(2,3), of True] by (auto simp: ab_simps)
  show ?thesis
    using Write_view [OF a(2) assms(1) a(3), of req] a assms(2) by (auto simp: put_request_def)
qed

lemma set_field_ok_iff: "set_field n s upd = Inr r \<longleftrightarrow> length (c_str s) < n \<and> r = upd (c_str s)"
  by (auto simp: set_field_def strcpy_s_def)

end
