(* ===== verification/Text_Util.thy ===== *)
theory Text_Util imports Interfaces begin

text \<open>
  Text: \<^verbatim>\<open>std::string::find\<close>, the number formats of \<^verbatim>\<open>snprintf\<close>, \<^verbatim>\<open>strtol\<close>, \<^verbatim>\<open>strcasecmp\<close>, and the
  operations of \<^verbatim>\<open>mars/comm/strutil.cc\<close> that the HTTP code uses. The lemmas say where a search finds
  something when more text follows, and that \<^verbatim>\<open>strtol\<close> reads what \<^verbatim>\<open>%u\<close> wrote.
\<close>

section \<open>Searching\<close>

text \<open>\<^verbatim>\<open>std::string::find\<close> from a position.\<close>

fun find_from :: "bytes \<Rightarrow> bytes \<Rightarrow> nat \<Rightarrow> nat option" where
  "find_from pat [] i = (if pat = [] then Some i else None)"
| "find_from pat (c # cs) i = (if take (length pat) (c # cs) = pat then Some i else find_from pat cs (Suc i))"

definition find_str :: "bytes \<Rightarrow> bytes \<Rightarrow> nat \<Rightarrow> nat option" where
  "find_str s pat start = (if length s < start then None else find_from pat (drop start s) start)"

definition StartsWith :: "bytes \<Rightarrow> bytes \<Rightarrow> bool" where
  "StartsWith str sub \<longleftrightarrow> find_str str sub 0 = Some 0"

section \<open>Numbers\<close>

text \<open>\<^verbatim>\<open>%u\<close> and \<^verbatim>\<open>%d\<close>.\<close>

fun dec_nat :: "nat \<Rightarrow> bytes" where
  "dec_nat n = (if n < 10 then [48 + of_nat n] else dec_nat (n div 10) @ [48 + of_nat (n mod 10)])"

declare dec_nat.simps [simp del]

definition dec_int :: "int \<Rightarrow> bytes" where
  "dec_int i = (if i < 0 then 45 # dec_nat (nat (- i)) else dec_nat (nat i))"

text \<open>\<^verbatim>\<open>isspace\<close> in the C locale, and \<^verbatim>\<open>strtol\<close> with the 32-bit \<^verbatim>\<open>long\<close> of the platform.\<close>

definition isspace :: "byte \<Rightarrow> bool" where
  "isspace c \<longleftrightarrow> c = 32 \<or> 9 \<le> c \<and> c \<le> 13"

definition digit_value :: "nat \<Rightarrow> byte \<Rightarrow> nat option" where
  "digit_value base c =
     (let v = (if 48 \<le> c \<and> c \<le> 57 then unat c - 48 else if 97 \<le> c \<and> c \<le> 122 then unat c - 87
               else if 65 \<le> c \<and> c \<le> 90 then unat c - 55 else base)
      in if v < base then Some v else None)"

definition digits_from :: "nat \<Rightarrow> bytes \<Rightarrow> nat" where
  "digits_from base s = foldl (\<lambda>v c. v * base + the (digit_value base c)) 0 (takeWhile (\<lambda>c. digit_value base c \<noteq> None) s)"

definition strtol :: "nat \<Rightarrow> bytes \<Rightarrow> int" where
  "strtol base str =
     (let s = dropWhile isspace (c_str str);
          neg = (s \<noteq> [] \<and> hd s = 45);
          s = (if s \<noteq> [] \<and> (hd s = 45 \<or> hd s = 43) then tl s else s);
          s = (if base = 16 \<and> (take 2 s = [48, 120] \<or> take 2 s = [48, 88]) then drop 2 s else s);
          v = int (digits_from base s)
      in max (- (2 ^ 31)) (min (2 ^ 31 - 1) (if neg then - v else v)))"

section \<open>\<^verbatim>\<open>strutil\<close>\<close>

definition Trim :: "bytes \<Rightarrow> bytes" where
  "Trim s = rev (dropWhile isspace (rev (dropWhile isspace s)))"

text \<open>\<^verbatim>\<open>Tokenizer::NextToken\<close> until it fails; \<open>d\<close> says which characters are delimiters.\<close>

function SplitToken :: "(byte \<Rightarrow> bool) \<Rightarrow> bytes \<Rightarrow> bytes list" where
  "SplitToken d s =
     (let t = dropWhile d s in
      if t = [] then [] else takeWhile (\<lambda>c. \<not> d c) t # SplitToken d (dropWhile (\<lambda>c. \<not> d c) t))"
  by auto
termination
proof (relation "measure (\<lambda>(d, s). length s)", simp)
  fix d s and t :: bytes
  assume t: "t = dropWhile d s" "t \<noteq> []"
  then have "\<not> d (hd t)" using hd_dropWhile [of d s] by (metis dropWhile_eq_Nil_conv)
  then have "length (dropWhile (\<lambda>c. \<not> d c) t) < length t"
    using t(2) by (cases t) (auto simp: le_imp_less_Suc length_dropWhile_le)
  also have "length t \<le> length s" unfolding t(1) by (rule length_dropWhile_le)
  finally show "((d, dropWhile (\<lambda>c. \<not> d c) t), d, s) \<in> measure (\<lambda>(d, s). length s)" by simp
qed

declare SplitToken.simps [simp del]

text \<open>\<^verbatim>\<open>strcasecmp\<close> is negative: the lowered strings compare as lists of bytes.\<close>

definition lower :: "byte \<Rightarrow> byte" where
  "lower c = (if 65 \<le> c \<and> c \<le> 90 then c + 32 else c)"

fun bytes_less :: "bytes \<Rightarrow> bytes \<Rightarrow> bool" where
  "bytes_less _ [] = False"
| "bytes_less [] (_ # _) = True"
| "bytes_less (a # s) (b # t) = (a < b \<or> a = b \<and> bytes_less s t)"

definition same_nocase :: "bytes \<Rightarrow> bytes \<Rightarrow> bool" where
  "same_nocase x y \<longleftrightarrow> map lower (c_str x) = map lower (c_str y)"

section \<open>Lemmas: searching\<close>

text \<open>The pattern occurs at position \<open>k\<close>.\<close>

definition occurs :: "bytes \<Rightarrow> bytes \<Rightarrow> nat \<Rightarrow> bool" where
  "occurs pat s k \<longleftrightarrow> k \<le> length s \<and> take (length pat) (drop k s) = pat"

lemma occurs_0 [simp]: "occurs pat s 0 \<longleftrightarrow> take (length pat) s = pat"
  by (simp add: occurs_def)

lemma occurs_Suc [simp]: "occurs pat (c # s) (Suc k) \<longleftrightarrow> occurs pat s k"
  by (simp add: occurs_def)

lemma find_from_iff:
  "find_from pat s i = Some k \<longleftrightarrow> (\<exists>j. k = i + j \<and> occurs pat s j \<and> (\<forall>m < j. \<not> occurs pat s m))"
proof (induction pat s i rule: find_from.induct)
  case (1 pat i)
  show ?case by (auto simp: occurs_def)
next
  case (2 pat c cs i)
  show ?case
  proof (cases "take (length pat) (c # cs) = pat")
    case True
    then show ?thesis by (auto intro: exI [of _ 0] dest: spec [of _ "0 :: nat"] simp: gr0_conv_Suc)
  next
    case False
    have "(\<exists>j. k = i + j \<and> occurs pat (c # cs) j \<and> (\<forall>m < j. \<not> occurs pat (c # cs) m))
      \<longleftrightarrow> (\<exists>j. k = Suc i + j \<and> occurs pat cs j \<and> (\<forall>m < j. \<not> occurs pat cs m))" (is "?L = ?R")
    proof
      assume ?L
      then obtain j where j: "k = i + j" "occurs pat (c # cs) j" "\<forall>m < j. \<not> occurs pat (c # cs) m" by blast
      with False obtain n where n: "j = Suc n" by (cases j) auto
      have "\<forall>m < n. \<not> occurs pat cs m" using j(3) unfolding n by (metis Suc_less_eq occurs_Suc)
      with j n show ?R by auto
    next
      assume ?R
      then obtain j where j: "k = Suc i + j" "occurs pat cs j" "\<forall>m < j. \<not> occurs pat cs m" by blast
      have "\<not> occurs pat (c # cs) m" if "m < Suc j" for m using that j(3) False by (cases m) auto
      with j show ?L by (intro exI [of _ "Suc j"]) auto
    qed
    then show ?thesis using 2 False by simp
  qed
qed

lemma find_str_iff: "find_str s pat 0 = Some k \<longleftrightarrow> occurs pat s k \<and> (\<forall>m < k. \<not> occurs pat s m)"
  by (simp add: find_str_def find_from_iff)

lemma find_str_none: "find_str s pat 0 = None \<longleftrightarrow> (\<forall>k. \<not> occurs pat s k)"
proof
  assume n: "find_str s pat 0 = None"
  have "\<not> occurs pat s k" for k
  proof (induction k rule: less_induct)
    case (less k)
    then show ?case using n find_str_iff [of s pat k] by auto
  qed
  then show "\<forall>k. \<not> occurs pat s k" by blast
next
  assume "\<forall>k. \<not> occurs pat s k"
  then show "find_str s pat 0 = None" using find_str_iff [of s pat] by (cases "find_str s pat 0") auto
qed

lemma occurs_split: "occurs pat s k \<longleftrightarrow> (\<exists>u r. s = u @ pat @ r \<and> length u = k)"
proof
  assume o: "occurs pat s k"
  then have "s = take k s @ pat @ drop (length pat) (drop k s)"
    using append_take_drop_id [of "length pat" "drop k s"] append_take_drop_id [of k s] by (simp add: occurs_def)
  moreover have "length (take k s) = k" using o by (simp add: occurs_def)
  ultimately show "\<exists>u r. s = u @ pat @ r \<and> length u = k" by blast
qed (auto simp: occurs_def)

lemma occurs_append: "occurs pat s k \<Longrightarrow> occurs pat (s @ t) k"
  by (fastforce simp: occurs_split)

lemma occurs_within: "occurs pat s k \<Longrightarrow> k + length pat \<le> length s"
  by (auto simp: occurs_split)

lemma occurs_before: "occurs pat (s @ t) k \<Longrightarrow> k + length pat \<le> length s \<Longrightarrow> occurs pat s k"
  by (simp add: occurs_def)

lemma find_str_append:
  assumes "find_str s pat 0 = Some k"
  shows "find_str (s @ t) pat 0 = Some k"
proof -
  have k: "occurs pat s k" "\<forall>m < k. \<not> occurs pat s m" using assms by (simp_all add: find_str_iff)
  have "\<not> occurs pat (s @ t) m" if "m < k" for m
    using k occurs_within [OF k(1)] that occurs_before [of pat s t m] by fastforce
  then show ?thesis using k(1) by (simp add: find_str_iff occurs_append)
qed

lemma StartsWith_iff: "StartsWith s pat \<longleftrightarrow> take (length pat) s = pat"
  by (simp add: StartsWith_def find_str_iff)

text \<open>A pattern that begins with a character that does not occur before.\<close>

lemma occurs_hd: "occurs (c # pat) s k \<Longrightarrow> k < length s \<and> s ! k = c"
  by (auto simp: occurs_split nth_append)

lemma find_str_here:
  assumes "c \<notin> set u"
  shows "find_str (u @ (c # pat) @ r) (c # pat) 0 = Some (length u)"
proof -
  have "\<not> occurs (c # pat) (u @ (c # pat) @ r) m" if "m < length u" for m
    using occurs_hd [of c pat "u @ (c # pat) @ r" m] that assms by (auto simp: nth_append)
  moreover have "occurs (c # pat) (u @ (c # pat) @ r) (length u)" by (simp add: occurs_def)
  ultimately show ?thesis by (simp add: find_str_iff)
qed

lemma find_str_absent: "c \<notin> set s \<Longrightarrow> find_str s (c # pat) 0 = None"
  using occurs_hd [of c pat s] nth_mem by (fastforce simp: find_str_none)

section \<open>Lemmas: numbers\<close>

lemma dec_nat_digits: "b \<in> set (dec_nat n) \<Longrightarrow> 48 \<le> unat b \<and> unat b \<le> 57"
proof (induction n rule: dec_nat.induct)
  case (1 n)
  have digit: "48 \<le> unat (48 + of_nat k :: byte) \<and> unat (48 + of_nat k :: byte) \<le> 57" if "k < 10" for k
    using that by (simp add: unat_word_ariths unat_of_nat)
  show ?case
  proof (cases "n < 10")
    case True
    then have "dec_nat n = [48 + of_nat n]" by (simp add: dec_nat.simps [of n])
    with 1(2) digit [OF True] show ?thesis by simp
  next
    case False
    then have "dec_nat n = dec_nat (n div 10) @ [48 + of_nat (n mod 10)]" by (simp add: dec_nat.simps [of n])
    with 1(2) consider "b \<in> set (dec_nat (n div 10))" | "b = 48 + of_nat (n mod 10)" by auto
    then show ?thesis
    proof cases
      case 1
      with False show ?thesis using \<open>\<lbrakk>\<not> n < 10; b \<in> set (dec_nat (n div 10))\<rbrakk> \<Longrightarrow> 48 \<le> unat b \<and> unat b \<le> 57\<close> by blast
    next
      case 2
      then show ?thesis using digit [of "n mod 10"] by simp
    qed
  qed
qed

text \<open>\<^verbatim>\<open>strtol\<close> reads digits.\<close>

lemma unat_byte_add: "a + k < 256 \<Longrightarrow> unat (of_nat a + of_nat k :: byte) = a + k"
  by (simp add: unat_of_nat flip: of_nat_add)

lemma digit_value_range:
  "digit_value b c = Some v \<Longrightarrow> b \<le> 16 \<Longrightarrow>
   48 \<le> unat c \<and> unat c \<le> 57 \<or> 97 \<le> unat c \<and> unat c \<le> 102 \<or> 65 \<le> unat c \<and> unat c \<le> 70"
  by (auto simp: digit_value_def Let_def word_le_nat_alt split: if_splits)

abbreviation digits :: "nat \<Rightarrow> bytes \<Rightarrow> bool" where
  "digits b s \<equiv> (\<forall>c \<in> set s. digit_value b c \<noteq> None)"

lemma digit_not:
  assumes "digit_value b c \<noteq> None" "b \<le> 16"
  shows "c \<noteq> 0" "\<not> isspace c" "c \<noteq> 45" "c \<noteq> 43" "c \<noteq> 120" "c \<noteq> 88" "c \<noteq> 13"
proof -
  obtain v where "digit_value b c = Some v" using assms by blast
  note r = digit_value_range [OF this assms(2)]
  show "c \<noteq> 0" "\<not> isspace c" "c \<noteq> 45" "c \<noteq> 43" "c \<noteq> 120" "c \<noteq> 88" "c \<noteq> 13"
    using r by (auto simp: isspace_def word_le_nat_alt)
qed

lemma digits_from_snoc:
  assumes "digits b s" "digit_value b c = Some v"
  shows "digits_from b (s @ [c]) = digits_from b s * b + v"
proof -
  have "takeWhile (\<lambda>c. digit_value b c \<noteq> None) s = s" "takeWhile (\<lambda>c. digit_value b c \<noteq> None) (s @ [c]) = s @ [c]"
    using assms by (auto simp: takeWhile_eq_all_conv)
  then show ?thesis using assms(2) unfolding digits_from_def by (simp only: foldl_append) simp
qed

lemma strtol_digits:
  assumes "digits b s" "b \<le> 16"
  shows "strtol b s = min (2 ^ 31 - 1) (int (digits_from b s))"
proof -
  have c: "c_str s = s" using assms digit_not(1) by (auto simp: c_str_def takeWhile_eq_all_conv)
  have w: "dropWhile isspace s = s"
  proof (cases s)
    case (Cons a t)
    with assms have "digit_value b a \<noteq> None" by simp
    from digit_not(2) [OF this assms(2)] Cons show ?thesis by simp
  qed simp
  have h: "(s \<noteq> [] \<and> hd s = 45) = False" "(s \<noteq> [] \<and> (hd s = 45 \<or> hd s = 43)) = False"
    using assms digit_not(3) [of b "hd s"] digit_not(4) [of b "hd s"] hd_in_set [of s] by blast+
  have "120 \<notin> set s" "88 \<notin> set s" using assms digit_not(5,6) by blast+
  then have "take 2 s \<noteq> [48, 120]" "take 2 s \<noteq> [48, 88]" by (metis in_set_takeD list.set_intros)+
  then show ?thesis unfolding strtol_def Let_def c w h if_False by simp
qed

lemma digit_value_dec: "k < 10 \<Longrightarrow> digit_value 10 (48 + of_nat k) = Some k"
  using unat_byte_add [of 48 k] by (simp add: digit_value_def word_le_nat_alt)

lemma digit_value_hex:
  "k < 10 \<Longrightarrow> digit_value 16 (48 + of_nat k) = Some k" "10 \<le> k \<Longrightarrow> k < 16 \<Longrightarrow> digit_value 16 (87 + of_nat k) = Some k"
  using unat_byte_add [of 48 k] unat_byte_add [of 87 k] by (simp_all add: digit_value_def word_le_nat_alt)

lemma dec_nat_read: "digits 10 (dec_nat n) \<and> dec_nat n \<noteq> [] \<and> digits_from 10 (dec_nat n) = n"
proof (induction n rule: dec_nat.induct)
  case (1 n)
  show ?case
  proof (cases "n < 10")
    case True
    then show ?thesis using digits_from_snoc [where b = 10 and s = "[]" and v = n] digit_value_dec [of n]
      by (simp add: dec_nat.simps [of n] digits_from_def)
  next
    case False
    then have IH: "digits 10 (dec_nat (n div 10)) \<and> dec_nat (n div 10) \<noteq> [] \<and> digits_from 10 (dec_nat (n div 10)) = n div 10"
      using 1 by blast
    have d: "digit_value 10 (48 + of_nat (n mod 10)) = Some (n mod 10)" by (rule digit_value_dec) simp
    have u: "dec_nat n = dec_nat (n div 10) @ [48 + of_nat (n mod 10)]" using False by (simp add: dec_nat.simps [of n])
    have "digits_from 10 (dec_nat n) = n div 10 * 10 + n mod 10"
      unfolding u using digits_from_snoc [OF _ d] IH by metis
    then show ?thesis using IH d unfolding u by (auto simp del: of_nat_mod)
  qed
qed

lemma strtol_dec_nat: "int n < 2 ^ 31 \<Longrightarrow> strtol 10 (dec_nat n) = int n"
  using strtol_digits [of "dec_nat n" 10] dec_nat_read [of n] by simp

section \<open>Lemmas: the order of byte strings\<close>

lemma bytes_less_irrefl [simp]: "\<not> bytes_less s s"
  by (induction s) auto

lemma bytes_less_trans: "bytes_less s t \<Longrightarrow> bytes_less t u \<Longrightarrow> bytes_less s u"
proof (induction s t arbitrary: u rule: bytes_less.induct)
  case (2 b t)
  then show ?case by (cases u) auto
next
  case (3 a s b t)
  then show ?case by (cases u) (auto dest: less_trans)
qed simp

lemma bytes_less_total: "s = t \<or> bytes_less s t \<or> bytes_less t s"
proof (induction s t rule: bytes_less.induct)
  case (1 s)
  then show ?case by (cases s) auto
qed auto

lemma length_dec_nat: "0 < k \<Longrightarrow> n < 10 ^ k \<Longrightarrow> length (dec_nat n) \<le> k"
proof (induction k arbitrary: n)
  case (Suc k)
  show ?case
  proof (cases "n < 10")
    case False
    then have "0 < k" using Suc.prems by (cases k) auto
    moreover have "n div 10 < 10 ^ k" using Suc.prems by auto
    ultimately show ?thesis using Suc.IH [of "n div 10"] False by (simp add: dec_nat.simps [of n])
  qed (simp add: dec_nat.simps [of n])
qed simp

end
