(* ===== verification/Chat_Db.thy ===== *)
theory Chat_Db imports Client_State Text_Util begin

text \<open>
  \<^verbatim>\<open>db/db.cpp\<close> on top of \<open>Sql_Store\<close>: the tables, the sync key, loading contacts and messages,
  adding a message; and \<^verbatim>\<open>CAuthInfo::GetSyncKey/SetSyncKey\<close> of \<^verbatim>\<open>AuthInfo.cpp\<close>, which keep the
  binary sync key as hexadecimal text. The statements are built as the code builds them, without
  escaping. The lemmas show when the sync key survives the database, what loading hands to the
  UI, and when an inserted message stays one statement.
\<close>

section \<open>Text\<close>

text \<open>\<^verbatim>\<open>%02d\<close>\<close>

definition dec2 :: "int \<Rightarrow> bytes" where
  "dec2 i = (if 0 \<le> i \<and> i < 10 then 48 # dec_int i else dec_int i)"

text \<open>\<^verbatim>\<open>atoi\<close>/\<^verbatim>\<open>atoll\<close>: blanks, a sign, digits.\<close>

fun ato_digits :: "bytes \<Rightarrow> int \<Rightarrow> int" where
  "ato_digits [] acc = acc"
| "ato_digits (c # cs) acc = (if 48 \<le> c \<and> c \<le> 57 then ato_digits cs (10 * acc + int (unat (c - 48))) else acc)"

definition atoi :: "bytes \<Rightarrow> int" where
  "atoi s =
     (let s = dropWhile (\<lambda>c. c = 32 \<or> 9 \<le> c \<and> c \<le> 13) s
      in case s of
           [] \<Rightarrow> 0
         | c # cs \<Rightarrow> if c = 45 then - ato_digits cs 0 else if c = 43 then ato_digits cs 0 else ato_digits s 0)"

definition Utc2BeijingTime :: "env \<Rightarrow> dword \<Rightarrow> bytes" where
  "Utc2BeijingTime V dwUtc =
     (let (year, mon, mday, hour, min, sec) = e_localtime V dwUtc
      in dec_int (year + 1900) @ [45] @ dec2 (mon + 1) @ [45] @ dec2 mday @ [32]
         @ dec2 hour @ [58] @ dec2 min @ [58] @ dec2 sec)"

text \<open>A value between single quotes.\<close>

definition quoted :: "bytes \<Rightarrow> bytes" where
  "quoted s = [39] @ s @ [39]"

section \<open>Statements on the client's database\<close>

definition db_exec :: "env \<Rightarrow> bytes \<Rightarrow> proc \<Rightarrow> int \<times> sql_row list \<times> proc" where
  "db_exec V stmt p = (let (rc, rows, s) = ExecSQL (e_sql V) stmt (p_db p) in (rc, rows, p\<lparr> p_db := s \<rparr>))"

definition CreateTable :: "sqlite \<Rightarrow> sql3 \<Rightarrow> sql3" where
  "CreateTable Q s =
     (let (_, _, s) = ExecSQL Q (lit ''create table synckey(key varchar(4096));'') s;
          (_, _, s) = ExecSQL Q (lit ''create table contact(wxid varchar(1024),nickname varchar(1024),headicon varchar(1024),v1_name varchar(1024));'') s;
          (_, _, s) = ExecSQL Q (lit ''create table msg(svrid bigint,utc integer,createtime varchar(1024),fromWxid varchar(1024),toWxid varchar(1024),type integer,content text(65535));'') s
      in s)"

definition ClearDB :: "env \<Rightarrow> proc \<Rightarrow> proc" where
  "ClearDB V p =
     (let (_, _, p) = db_exec V (lit ''delete from msg;'') p;
          (_, _, p) = db_exec V (lit ''delete from contact;'') p;
          (_, _, p) = db_exec V (lit ''delete from synckey;'') p
      in p)"

text \<open>\<^verbatim>\<open>strcpy\<close> into the 4096 characters of \<^verbatim>\<open>GetSyncKey\<close>, unchecked.\<close>

definition GetSyncKeyCallBack :: "sql_row \<Rightarrow> bytes \<Rightarrow> bytes res" where
  "GetSyncKeyCallBack row szSyncKey =
     (if length row \<noteq> 1 then ok szSyncKey
      else case snd (row ! 0) of
             None \<Rightarrow> crash NullPointer
           | Some v \<Rightarrow> if length (c_str v) < 4096 then ok (c_str v) else crash BufferOverrun)"

fun fold_rows :: "(sql_row \<Rightarrow> 'a \<Rightarrow> 'a res) \<Rightarrow> sql_row list \<Rightarrow> 'a \<Rightarrow> 'a res" where
  "fold_rows f [] a = ok a"
| "fold_rows f (r # rs) a = and_then (f r a) (fold_rows f rs)"

definition DB_GetSyncKey :: "env \<Rightarrow> proc \<Rightarrow> (bytes \<times> proc) res" where
  "DB_GetSyncKey V p =
     (let strSql = wlit ''select * from synckey;'';
          (_, rows, p) = db_exec V (UnicodeToUtf8 (e_ext V) strSql) p
      in and_then (fold_rows GetSyncKeyCallBack rows []) (\<lambda>szSyncKey. ok (szSyncKey, p)))"

definition UpdateSyncKey :: "env \<Rightarrow> bytes \<Rightarrow> proc \<Rightarrow> proc" where
  "UpdateSyncKey V strSyncKey p =
     (let E = e_ext V;
          (_, _, p) = db_exec V (UnicodeToUtf8 E (wlit ''delete from synckey;'')) p;
          strSql = wlit ''insert into synckey(key) values('' @ [39] @ to_wide E CP_ACP (c_str strSyncKey) @ [39] @ wlit '');'';
          (_, _, p) = db_exec V (UnicodeToUtf8 E strSql) p
      in p)"

text \<open>\<^verbatim>\<open>CAuthInfo\<close>.\<close>

definition GetSyncKey :: "env \<Rightarrow> proc \<Rightarrow> (bytes \<times> proc) res" where
  "GetSyncKey V p = and_then (DB_GetSyncKey V p) (\<lambda>(strSyncKey, p). ok (Hex2bin (c_str strSyncKey), p))"

definition SetSyncKey :: "env \<Rightarrow> bytes \<Rightarrow> proc \<Rightarrow> proc" where
  "SetSyncKey V strSyncKey p = UpdateSyncKey V (Bin2Hex strSyncKey) p"

section \<open>Loading and adding\<close>

text \<open>Assigning a slot of a pointer array.\<close>

definition put_ptr :: "nat \<Rightarrow> 'a \<Rightarrow> 'a option list \<Rightarrow> 'a option list res" where
  "put_ptr i x xs = (if i < length xs then ok (xs[i := Some x]) else crash BufferOverrun)"

definition copy_arg :: "nat \<Rightarrow> bytes option \<Rightarrow> bytes res" where
  "copy_arg n a = (case a of None \<Rightarrow> crash InvalidParameter | Some v \<Rightarrow> strcpy_s n v)"

definition LoadContactCallBack :: "sql_row \<Rightarrow> BatchResult \<Rightarrow> BatchResult res" where
  "LoadContactCallBack row res =
     (if length row \<noteq> 4 then ok res
      else and_then (copy_arg 100 (snd (row ! 0))) (\<lambda>a.
           and_then (copy_arg 100 (snd (row ! 1))) (\<lambda>b.
           and_then (copy_arg 200 (snd (row ! 2))) (\<lambda>c.
           and_then (copy_arg 200 (snd (row ! 3))) (\<lambda>d.
             let pInfo = new_ContactInfo\<lparr> wxid := a, nickName := b, headicon := c, v1_Name := d \<rparr>
             in and_then (put_ptr (dwContanct res) pInfo (ppContanct res)) (\<lambda>xs.
                ok (res\<lparr> ppContanct := xs, dwContanct := dwContanct res + 1, dwSize := dwSize res + 1 \<rparr>)))))))"

text \<open>The clean-up loop behind the query calls \<^verbatim>\<open>SafeFree\<close> on the unused slots; it frees nothing
  (its test is inverted), so it changes nothing.\<close>

definition LoadContact :: "env \<Rightarrow> proc \<Rightarrow> proc res" where
  "LoadContact V p =
     (let res = new_BatchResult\<lparr> ppContanct := replicate 1024 None \<rparr>;
          (_, rows, p) = db_exec V (UnicodeToUtf8 (e_ext V) (wlit ''select * from contact;'')) p
      in and_then (fold_rows LoadContactCallBack rows res) (\<lambda>res.
         DoCallBack V (ResInit res) (Some (cgi_num CGI_TYPE_NEWINIT)) (Some 0) (code CGI_CODE_OK) p))"

text \<open>One column of a message row.\<close>

definition msg_column :: "env \<Rightarrow> sql_row \<Rightarrow> (bytes \<times> bytes option) \<Rightarrow> NewMsg \<Rightarrow> NewMsg res" where
  "msg_column V row col m =
     (case snd col of
        None \<Rightarrow> ok m
      | Some v \<Rightarrow>
          (if fst col = lit ''fromWxid'' then set_field 1024 v (\<lambda>x. m\<lparr> szFrom := x \<rparr>)
           else if fst col = lit ''toWxid'' then set_field 1024 v (\<lambda>x. m\<lparr> szTo := x \<rparr>)
           else if fst col = lit ''content'' then set_field MAX_BUF (Utf82CStringA (e_ext V) v) (\<lambda>x. m\<lparr> szContent := x \<rparr>)
           else if fst col = lit ''type'' then ok (m\<lparr> nType := atoi v \<rparr>)
           else if fst col = lit ''utc'' then ok (m\<lparr> utc := of_int (atoi v) \<rparr>)
           else if fst col = lit ''svrid'' then
             (case snd (row ! 0) of None \<Rightarrow> crash NullPointer | Some w \<Rightarrow> ok (m\<lparr> svrid := of_int (atoi w) \<rparr>))
           else ok m))"

fun msg_columns :: "env \<Rightarrow> sql_row \<Rightarrow> sql_row \<Rightarrow> NewMsg \<Rightarrow> NewMsg res" where
  "msg_columns V row [] m = ok m"
| "msg_columns V row (c # cs) m = and_then (msg_column V row c m) (msg_columns V row cs)"

definition LoadMsgRecordCallBack :: "env \<Rightarrow> sql_row \<Rightarrow> BatchResult \<Rightarrow> BatchResult res" where
  "LoadMsgRecordCallBack V row res =
     (if length row \<noteq> 8 then ok res
      else and_then (msg_columns V row row new_NewMsg) (\<lambda>pMsg.
           and_then (put_ptr (dwNewMsg res) pMsg (ppNewMsg res)) (\<lambda>xs.
           ok (res\<lparr> ppNewMsg := xs, dwNewMsg := dwNewMsg res + 1, dwSize := dwSize res + 1 \<rparr>))))"

definition LoadMsgRecord :: "env \<Rightarrow> proc \<Rightarrow> proc res" where
  "LoadMsgRecord V p =
     (let res = new_BatchResult\<lparr> ppNewMsg := replicate 1024 None \<rparr>;
          (_, rows, p) = db_exec V (UnicodeToUtf8 (e_ext V) (wlit ''select *,count(fromWxid) from msg group by fromWxid;'')) p
      in and_then (fold_rows (LoadMsgRecordCallBack V) rows res) (\<lambda>res.
         DoCallBack V (ResSync res) (Some (cgi_num CGI_TYPE_NEWSYNC)) (Some 0) (code CGI_CODE_OK) p))"

definition AddMsg_sql :: "env \<Rightarrow> NewMsg \<Rightarrow> bytes" where
  "AddMsg_sql V m =
     lit ''insert into msg(svrid,utc,createtime,fromWxid,toWxid,type,content) values(''
       @ quoted (dec_int (sint (svrid m))) @ [44]
       @ quoted (dec_int (sint (utc m))) @ [44]
       @ quoted (Utc2BeijingTime V (utc m)) @ [44]
       @ quoted (szFrom m) @ [44]
       @ quoted (szTo m) @ [44]
       @ quoted (dec_int (nType m)) @ [44]
       @ quoted (CStringA2Utf8 (e_ext V) (szContent m)) @ lit '');''"

definition AddMsg :: "env \<Rightarrow> NewMsg \<Rightarrow> proc \<Rightarrow> proc" where
  "AddMsg V m p = snd (snd (db_exec V (AddMsg_sql V m) p))"

section \<open>Documented behaviour of the code pages and of SQLite\<close>

definition ascii :: "bytes \<Rightarrow> bool" where
  "ascii s \<longleftrightarrow> (\<forall>b \<in> set s. unat b < 128)"

text \<open>ASCII text is the same in the system code page, in UTF-16 and in UTF-8.\<close>

definition codepages_ok :: "ext \<Rightarrow> bool" where
  "codepages_ok E \<longleftrightarrow> (\<forall>s. ascii s \<longrightarrow> to_wide E CP_ACP s = map ucast s)
     \<and> (\<forall>s. ascii s \<longrightarrow> from_wide E CP_UTF8 (map ucast s) = s)"

text \<open>The statements of the client. Without the text of its string literals a statement is one of these: then
  its literals hold no quote, and it is the one statement the client means. A NUL would cut it short.\<close>

definition sync_delete :: bytes where "sync_delete = lit ''delete from synckey;''"
definition sync_select :: bytes where "sync_select = lit ''select * from synckey;''"
definition sync_create :: bytes where "sync_create = lit ''create table synckey(key varchar(4096));''"

definition sync_insert :: "bytes \<Rightarrow> bytes" where
  "sync_insert k = lit ''insert into synckey(key) values('' @ [39] @ k @ [39] @ lit '');''"

definition own_texts :: "bytes list" where
  "own_texts = [sync_create, sync_delete, sync_select, sync_insert [],
     lit ''create table contact(wxid varchar(1024),nickname varchar(1024),headicon varchar(1024),v1_name varchar(1024));'',
     lit ''create table msg(svrid bigint,utc integer,createtime varchar(1024),fromWxid varchar(1024),toWxid varchar(1024),type integer,content text(65535));'',
     lit ''delete from msg;'', lit ''delete from contact;'', lit ''select * from contact;'',
     lit ''select *,count(fromWxid) from msg group by fromWxid;'', lit ''begin;'', lit ''commit;'',
     lit ''insert into contact(wxid,nickname,headicon,v1_name) values('' @ concat (replicate 3 [39, 39, 44]) @ [39, 39] @ lit '');'',
     lit ''insert into msg(svrid,utc,createtime,fromWxid,toWxid,type,content) values('' @ concat (replicate 6 [39, 39, 44]) @ [39, 39] @ lit '');'']"

fun literal_free :: "bool \<Rightarrow> bytes \<Rightarrow> bytes" where
  "literal_free q [] = []"
| "literal_free q (c # cs) =
     (if c = 39 then 39 # literal_free (\<not> q) cs else if q then literal_free q cs else c # literal_free q cs)"

definition own_statement :: "bytes \<Rightarrow> bool" where
  "own_statement s \<longleftrightarrow> 0 \<notin> set s \<and> literal_free False s \<in> set own_texts"

text \<open>What was run so far: nothing but the client's statements, and the client tried to create the table
  in this database.\<close>

definition own_history :: "bytes \<Rightarrow> (bytes \<times> bytes) list \<Rightarrow> bool" where
  "own_history name h \<longleftrightarrow> (name, sync_create) \<in> set h \<and> list_all (\<lambda>(_, s). own_statement s) h"

text \<open>SQLite reports success for the three statements that replace the key and ask for it.\<close>

definition key_statements_succeed :: "sqlite \<Rightarrow> (bytes \<times> bytes) list \<Rightarrow> bytes \<Rightarrow> bytes \<Rightarrow> bool" where
  "key_statements_succeed Q h name k \<longleftrightarrow>
     sq_rc Q h name sync_delete = SQLITE_OK
     \<and> sq_rc Q (h @ [(name, sync_delete)]) name (sync_insert k) = SQLITE_OK
     \<and> sq_rc Q (h @ [(name, sync_delete), (name, sync_insert k)]) name sync_select = SQLITE_OK"

text \<open>SQLite on the files of this client (a file that is there already was made by it), as long as only the
  client's own statements reach it: when the three statements succeed, the table has the one row that was
  inserted. Nothing is said of a history without the table, of a statement that fails or of foreign text
  in a statement.\<close>

definition sync_table_ok :: "sqlite \<Rightarrow> bool" where
  "sync_table_ok Q \<longleftrightarrow> (\<forall>h name k. own_history name h \<and> ascii k \<and> 39 \<notin> set k \<and> 0 \<notin> set k \<and> key_statements_succeed Q h name k
     \<longrightarrow> sq_rows Q (h @ [(name, sync_delete), (name, sync_insert k)]) name sync_select = [[(lit ''key'', Some k)]])"

text \<open>An engine for the table, which starts without files: the rows of each database's table, \<open>None\<close> while there
  is no table. Statements on a missing table and a second creation fail.\<close>

definition inserted :: "bytes \<Rightarrow> bytes" where
  "inserted s = takeWhile (\<lambda>b. b \<noteq> 39) (drop (length (lit ''insert into synckey(key) values('') + 1) s)"

definition table_after :: "bytes \<Rightarrow> bytes list option \<Rightarrow> bytes list option" where
  "table_after s t =
     (if s = sync_create then (case t of None \<Rightarrow> Some [] | Some rows \<Rightarrow> Some rows)
      else if s = sync_delete then map_option (\<lambda>_. []) t
      else if s = sync_insert (inserted s) then map_option (\<lambda>rows. rows @ [inserted s]) t
      else t)"

definition key_table :: "(bytes \<times> bytes) list \<Rightarrow> bytes \<Rightarrow> bytes list option" where
  "key_table h name = fold (\<lambda>(n, s) t. if n = name then table_after s t else t) h None"

definition sample_sqlite :: sqlite where
  "sample_sqlite = \<lparr> sq_open = (\<lambda>_. SQLITE_OK),
     sq_rc = (\<lambda>h name s. if (s = sync_create) = (key_table h name = None) then SQLITE_OK else 1),
     sq_rows = (\<lambda>h name s. if s = sync_select then map (\<lambda>k. [(lit ''key'', Some k)]) (case key_table h name of None \<Rightarrow> [] | Some rows \<Rightarrow> rows) else []) \<rparr>"

lemma sync_statements:
  "sync_delete \<noteq> sync_create" "sync_select \<noteq> sync_create" "sync_insert k \<noteq> sync_create" "sync_insert k \<noteq> sync_delete" "sync_select \<noteq> sync_delete"
  by (simp_all add: sync_create_def sync_delete_def sync_select_def sync_insert_def lit_def)

lemma inserted_key: "39 \<notin> set k \<Longrightarrow> inserted (sync_insert k) = k"
  unfolding inserted_def sync_insert_def by (simp add: lit_def) (subst takeWhile_append2; auto)

lemma sample_sync_table_ok: "sync_table_ok sample_sqlite"
proof -
  have "sq_rows sample_sqlite (h @ [(name, sync_delete), (name, sync_insert k)]) name sync_select = [[(lit ''key'', Some k)]]"
    if "39 \<notin> set k" "key_statements_succeed sample_sqlite h name k" for h name k
  proof -
    have "key_table h name \<noteq> None"
      using that(2) sync_statements by (auto simp: key_statements_succeed_def sample_sqlite_def SQLITE_OK_def split: if_splits)
    with that(1) sync_statements inserted_key [OF that(1)] show ?thesis
      by (auto simp: sample_sqlite_def key_table_def table_after_def)
  qed
  then show ?thesis by (simp add: sync_table_ok_def)
qed

lemma sample_codepages_ok: "codepages_ok sample_ext"
proof -
  have "map (ucast \<circ> (ucast :: byte \<Rightarrow> ushort)) s = (s :: bytes)" for s
  proof (rule map_idI)
    fix x :: byte
    show "(ucast \<circ> (ucast :: byte \<Rightarrow> ushort)) x = x"
      unfolding comp_apply by (rule bit_word_eqI) (auto simp: bit_simps)
  qed
  then show ?thesis by (simp add: codepages_ok_def sample_ext_def)
qed

definition sample_env :: env where
  "sample_env = \<lparr> e_ext = sample_ext, e_sql = sample_sqlite, e_heap = (\<lambda>_. True), e_rand = (\<lambda>n. n),
     e_time = 1500000000, e_uninit = 0, e_localtime = (\<lambda>_. (117, 6, 14, 10, 40, 0)),
     e_callback = (\<lambda>_ _ _ _ p. ok p) \<rparr>"

section \<open>Lemmas: the sync key\<close>

lemma Bin2Hex_ascii: "ascii (Bin2Hex s)"
proof -
  have "unat (hex_char d) < 128" if "d < 16" for d using nibble_cases [OF that] by (auto simp: hex_char_def)
  then show ?thesis
    using nibble_bounds by (fastforce simp: ascii_def Bin2Hex_def hex_byte_def)
qed

definition ascii_string :: "string \<Rightarrow> bool" where
  "ascii_string s \<longleftrightarrow> (\<forall>c \<in> set s. (of_char c :: nat) < 128)"

lemma of_char_byte: "(of_char c :: nat) < 128 \<Longrightarrow> unat (of_char c :: byte) = of_char c"
  by (subst of_nat_of_char [symmetric]) (simp add: unat_of_nat)

lemma of_char_ushort: "(of_char c :: ushort) = ucast (of_char c :: byte)" if "(of_char c :: nat) < 128"
proof -
  have "(of_char c :: ushort) = of_nat (of_char c)" "(of_char c :: byte) = of_nat (of_char c)"
    by (simp_all add: of_nat_of_char)
  then show ?thesis using that by (simp add: word_unat_eq_iff unsigned_ucast_eq unat_of_nat take_bit_nat_eq_self del: of_nat_of_char)
qed

lemma wlit_lit: "ascii_string s \<Longrightarrow> wlit s = map ucast (lit s)" "ascii_string s \<Longrightarrow> ascii (lit s)"
  by (auto simp: wlit_def lit_def ascii_string_def ascii_def of_char_ushort of_char_byte)

lemma utf8_ascii:
  assumes "codepages_ok E" "ascii_string s" "ascii_string t" "ascii k"
  shows "UnicodeToUtf8 E (wlit s) = lit s"
    "UnicodeToUtf8 E (wlit s @ [39] @ to_wide E CP_ACP k @ [39] @ wlit t) = lit s @ [39] @ k @ [39] @ lit t"
proof -
  have "ascii (lit s @ [39] @ k @ [39] @ lit t)"
    using assms wlit_lit(2) by (auto simp: ascii_def)
  moreover have "wlit s @ [39] @ to_wide E CP_ACP k @ [39] @ wlit t = map ucast (lit s @ [39] @ k @ [39] @ lit t)"
    using assms by (simp add: codepages_ok_def wlit_lit)
  ultimately show "UnicodeToUtf8 E (wlit s @ [39] @ to_wide E CP_ACP k @ [39] @ wlit t) = lit s @ [39] @ k @ [39] @ lit t"
    using assms(1) unfolding UnicodeToUtf8_def codepages_ok_def by metis
  show "UnicodeToUtf8 E (wlit s) = lit s"
    using assms wlit_lit [of s] by (simp add: UnicodeToUtf8_def codepages_ok_def)
qed

lemma literal_free_inside: "39 \<notin> set k \<Longrightarrow> literal_free True (k @ r) = literal_free True r"
  by (induction k) simp_all

lemma key_text_own: "39 \<notin> set k \<Longrightarrow> 0 \<notin> set k \<Longrightarrow> own_statement (sync_insert k)"
  using literal_free_inside [of k "39 # lit '');''"]
  by (simp add: own_statement_def own_texts_def sync_insert_def lit_def)

lemma stored_text:
  assumes "sync_table_ok (e_sql V)" "codepages_ok (e_ext V)" "m_pDB (p_db p) = Some n"
    and "own_history n (map snd (m_log (p_db p)))" "key_statements_succeed (e_sql V) (map snd (m_log (p_db p))) n k"
    and "ascii k" "39 \<notin> set k" "0 \<notin> set k"
  shows "\<exists>p'. m_pDB (p_db p') = Some n \<and> DB_GetSyncKey V (UpdateSyncKey V k p) = (if length k < 4096 then ok (k, p') else crash BufferOverrun)"
proof -
  have u: "UnicodeToUtf8 (e_ext V) (wlit ''select * from synckey;'') = lit ''select * from synckey;''"
    "UnicodeToUtf8 (e_ext V) (wlit ''delete from synckey;'') = lit ''delete from synckey;''"
    "UnicodeToUtf8 (e_ext V) (wlit ''insert into synckey(key) values('' @ [39] @ to_wide (e_ext V) CP_ACP k @ [39] @ wlit '');'')
      = lit ''insert into synckey(key) values('' @ [39] @ k @ [39] @ lit '');''"
    using utf8_ascii [OF assms(2) _ _ assms(6), of "''select * from synckey;''" "[]"]
      utf8_ascii [OF assms(2) _ _ assms(6), of "''delete from synckey;''" "[]"]
      utf8_ascii [OF assms(2) _ _ assms(6), of "''insert into synckey(key) values(''" "'');''"]
    by (simp_all add: ascii_string_def)
  have q: "sq_rows (e_sql V) (map snd (m_log (p_db p)) @ [(n, sync_delete), (n, sync_insert k)]) n sync_select = [[(lit ''key'', Some k)]]"
    using assms(1,4-8) by (simp add: sync_table_ok_def)
  note q = q [unfolded sync_delete_def sync_insert_def sync_select_def]
  have c: "c_str k = k" using assms(8) by (rule c_str_id)
  have cb: "fold_rows GetSyncKeyCallBack [[(lit ''key'', Some k)]] [] = (if length k < 4096 then ok k else crash BufferOverrun)"
    by (simp add: GetSyncKeyCallBack_def c)
  define p1 where "p1 = UpdateSyncKey V k p"
  have p1: "m_pDB (p_db p1) = Some n"
    "map snd (m_log (p_db p1)) = map snd (m_log (p_db p)) @ [(n, lit ''delete from synckey;''), (n, lit ''insert into synckey(key) values('' @ [39] @ k @ [39] @ lit '');'')]"
    using assms(3) u(3) by (simp_all add: p1_def UpdateSyncKey_def c u(2) Let_def db_exec_def ExecSQL_def exec_as_def run_sql_def)
  define p2 where "p2 = snd (snd (db_exec V (lit ''select * from synckey;'') p1))"
  have "db_exec V (lit ''select * from synckey;'') p1 = (fst (db_exec V (lit ''select * from synckey;'') p1), [[(lit ''key'', Some k)]], p2)"
    using p1 q by (simp add: p2_def db_exec_def ExecSQL_def exec_as_def run_sql_def)
  then have "DB_GetSyncKey V p1 = and_then (if length k < 4096 then ok k else crash BufferOverrun) (\<lambda>s. ok (s, p2))"
    unfolding DB_GetSyncKey_def Let_def u(1) cb [symmetric] by (metis case_prod_conv)
  moreover have "m_pDB (p_db p2) = Some n"
    using p1(1) by (simp add: p2_def db_exec_def ExecSQL_def exec_as_def run_sql_def)
  ultimately show ?thesis unfolding p1_def by auto
qed

section \<open>Lemmas: loading\<close>

definition contact_row :: "ContactInfo \<Rightarrow> sql_row" where
  "contact_row c = [(lit ''wxid'', Some (wxid c)), (lit ''nickname'', Some (nickName c)),
     (lit ''headicon'', Some (headicon c)), (lit ''v1_name'', Some (v1_Name c))]"

definition contact_fits :: "ContactInfo \<Rightarrow> bool" where
  "contact_fits c \<longleftrightarrow> length (wxid c) < 100 \<and> length (nickName c) < 100 \<and> length (headicon c) < 200 \<and> length (v1_Name c) < 200
     \<and> 0 \<notin> set (wxid c) \<and> 0 \<notin> set (nickName c) \<and> 0 \<notin> set (headicon c) \<and> 0 \<notin> set (v1_Name c) \<and> v2_Name c = []"

lemma load_contact_row:
  assumes "contact_fits c" "length (ppContanct res) = 1024"
  shows "LoadContactCallBack (contact_row c) res =
    (if dwContanct res < 1024
     then ok (res\<lparr> ppContanct := (ppContanct res)[dwContanct res := Some c], dwContanct := dwContanct res + 1, dwSize := dwSize res + 1 \<rparr>)
     else crash BufferOverrun)"
proof -
  have "new_ContactInfo\<lparr> wxid := wxid c, nickName := nickName c, headicon := headicon c, v1_Name := v1_Name c \<rparr> = c"
    using assms(1) by (cases c) (simp add: new_ContactInfo_def contact_fits_def)
  then show ?thesis
    using assms
    by (simp add: LoadContactCallBack_def contact_row_def contact_fits_def copy_arg_def strcpy_s_def c_str_id put_ptr_def Let_def)
qed

lemma load_contact_rows:
  assumes "list_all contact_fits cs" "length (ppContanct res) = 1024" "take (dwContanct res) (ppContanct res) = map Some xs" "dwContanct res \<le> 1024"
  shows "if dwContanct res + length cs \<le> 1024
    then \<exists>res'. fold_rows LoadContactCallBack (map contact_row cs) res = ok res'
      \<and> take (dwContanct res') (ppContanct res') = map Some (xs @ cs)
      \<and> dwContanct res' = dwContanct res + length cs \<and> dwSize res' = dwSize res + length cs
    else fold_rows LoadContactCallBack (map contact_row cs) res = crash BufferOverrun"
  using assms
proof (induction cs arbitrary: res xs)
  case Nil
  then show ?case by simp
next
  case (Cons c cs)
  note row = load_contact_row [of c res]
  show ?case
  proof (cases "dwContanct res < 1024")
    case False
    with Cons.prems row show ?thesis by simp
  next
    case True
    let ?r = "res\<lparr> ppContanct := (ppContanct res)[dwContanct res := Some c], dwContanct := dwContanct res + 1, dwSize := dwSize res + 1 \<rparr>"
    have "take (dwContanct ?r) (ppContanct ?r) = map Some (xs @ [c])"
      using Cons.prems(2,3) True by (simp add: take_Suc_conv_app_nth)
    from Cons.IH [OF _ _ this] Cons.prems True
    have IH: "if dwContanct ?r + length cs \<le> 1024
      then \<exists>res'. fold_rows LoadContactCallBack (map contact_row cs) ?r = ok res'
        \<and> take (dwContanct res') (ppContanct res') = map Some ((xs @ [c]) @ cs)
        \<and> dwContanct res' = dwContanct ?r + length cs \<and> dwSize res' = dwSize ?r + length cs
      else fold_rows LoadContactCallBack (map contact_row cs) ?r = crash BufferOverrun"
      by simp
    have step: "fold_rows LoadContactCallBack (map contact_row (c # cs)) res = fold_rows LoadContactCallBack (map contact_row cs) ?r"
      using row Cons.prems True by simp
    show ?thesis using IH unfolding step
      by (cases "dwContanct res + length (c # cs) \<le> 1024") simp_all
  qed
qed

section \<open>Lemmas: one statement or several\<close>

text \<open>Counting the semicolons outside string literals.\<close>

fun sql_stmts :: "bool \<Rightarrow> bytes \<Rightarrow> nat" where
  "sql_stmts q [] = 0"
| "sql_stmts q (c # cs) =
     (if c = 39 then sql_stmts (\<not> q) cs else if c = 59 \<and> \<not> q then Suc (sql_stmts q cs) else sql_stmts q cs)"

definition quote_free :: "bytes \<Rightarrow> bool" where
  "quote_free s \<longleftrightarrow> 39 \<notin> set s"

lemma sql_stmts_inside: "quote_free s \<Longrightarrow> sql_stmts True (s @ r) = sql_stmts True r"
  by (induction s) (simp_all add: quote_free_def)

lemma sql_stmts_quoted: "quote_free s \<Longrightarrow> sql_stmts False (quoted s @ r) = sql_stmts False r"
  using sql_stmts_inside [of s "39 # r"] by (simp add: quoted_def)

lemma dec_quote_free: "quote_free (dec_int i)" "quote_free (dec2 i)"
proof -
  have n: "39 \<notin> set (dec_nat n)" for n using dec_nat_digits [of 39 n] by auto
  then show "quote_free (dec_int i)" by (simp add: quote_free_def dec_int_def)
  with n show "quote_free (dec2 i)" by (simp add: quote_free_def dec2_def)
qed

lemma time_quote_free: "quote_free (Utc2BeijingTime V t)"
  using dec_quote_free by (simp add: Utc2BeijingTime_def quote_free_def split: prod.splits)

lemma sql_head: "sql_stmts False (lit ''insert into msg(svrid,utc,createtime,fromWxid,toWxid,type,content) values('' @ r) = sql_stmts False r"
  by (simp add: lit_def)

lemma AddMsg_sql_one:
  assumes "quote_free (szFrom m)" "quote_free (szTo m)" "quote_free (CStringA2Utf8 (e_ext V) (szContent m))"
  shows "sql_stmts False (AddMsg_sql V m) = 1"
proof -
  have comma: "sql_stmts False (44 # r) = sql_stmts False r" for r by simp
  have tail: "sql_stmts False (lit '');'') = 1" by (simp add: lit_def)
  show ?thesis
    unfolding AddMsg_sql_def
    by (simp only: sql_head sql_stmts_quoted dec_quote_free time_quote_free assms append_Cons append_Nil comma tail)
qed

section \<open>Properties\<close>

text \<open>C37: The sync key survives the database: when only the client's own statements reached SQLite so far,
  the client's creation of the table among them, and SQLite reports success for the three statements, a
  key that is written as hexadecimal text and read back is the same bytes, as long as it is shorter than
  1366 bytes; from there on the unchecked copy overruns the 4096-character buffer. Whatever the key, its
  text makes no other statement.\<close>

theorem sync_key_survives:
  assumes "sync_table_ok (e_sql V)" "codepages_ok (e_ext V)" "m_pDB (p_db p) = Some n"
    and "own_history n (map snd (m_log (p_db p)))"
    and "key_statements_succeed (e_sql V) (map snd (m_log (p_db p))) n (Bin2Hex key)"
  shows "own_statement (sync_insert (Bin2Hex key))
    \<and> (\<exists>p'. GetSyncKey V (SetSyncKey V key p) = (if length key < 1366 then ok (key, p') else crash BufferOverrun))"
proof -
  obtain p' where "DB_GetSyncKey V (UpdateSyncKey V (Bin2Hex key) p)
      = (if length (Bin2Hex key) < 4096 then ok (Bin2Hex key, p') else crash BufferOverrun)"
    using stored_text [OF assms Bin2Hex_ascii Bin2Hex_no_quote Bin2Hex_no_nul] by blast
  moreover have "own_statement (sync_insert (Bin2Hex key))"
    by (rule key_text_own [OF Bin2Hex_no_quote Bin2Hex_no_nul])
  ultimately show ?thesis
    by (auto simp: GetSyncKey_def SetSyncKey_def length_Bin2Hex c_str_id Bin2Hex_no_nul Hex2bin_Bin2Hex)
qed

definition fresh_client :: proc where
  "fresh_client = (proc0 0)\<lparr> p_db := Init sample_sqlite (CreateTable sample_sqlite) [1] Sql3 \<rparr>"

lemma fresh_log:
  "m_pDB (p_db fresh_client) = Some [1]"
  "map snd (m_log (p_db fresh_client)) = map (Pair [1]) [sync_create,
     lit ''create table contact(wxid varchar(1024),nickname varchar(1024),headicon varchar(1024),v1_name varchar(1024));'',
     lit ''create table msg(svrid bigint,utc integer,createtime varchar(1024),fromWxid varchar(1024),toWxid varchar(1024),type integer,content text(65535));'']"
  by (simp_all add: fresh_client_def Init_def Close_def Sql3_def CreateTable_def ExecSQL_def exec_as_def run_sql_def Let_def sync_create_def
    sample_sqlite_def SQLITE_OK_def)

lemma fresh_own: "own_history [1] (map snd (m_log (p_db fresh_client)))"
  unfolding fresh_log own_history_def by (simp add: own_statement_def own_texts_def sync_create_def lit_def)

lemma fresh_succeeds: "key_statements_succeed sample_sqlite (map snd (m_log (p_db fresh_client))) [1] (Bin2Hex key)"
proof -
  have "key_table (map snd (m_log (p_db fresh_client))) [1] = Some []"
    unfolding fresh_log by (simp add: key_table_def table_after_def sync_create_def sync_delete_def sync_insert_def lit_def)
  then show ?thesis using sync_statements
    by (simp add: key_statements_succeed_def sample_sqlite_def key_table_def table_after_def)
qed

theorem sync_key_survives_witness:
  "own_statement (sync_insert (Bin2Hex [1, 2, 255]))
    \<and> (\<exists>p'. GetSyncKey sample_env (SetSyncKey sample_env [1, 2, 255] fresh_client)
      = (if length [1, 2, 255 :: byte] < 1366 then ok ([1, 2, 255], p') else crash BufferOverrun))"
  by (rule sync_key_survives [OF _ _ fresh_log(1) fresh_own])
    (simp_all add: sample_env_def sample_sync_table_ok sample_codepages_ok fresh_succeeds)

text \<open>Loading contacts hands the UI exactly the stored contacts, in the order SQLite gives them,
  up to 1024; the 1025th row is written behind the pointer array.\<close>

theorem load_contacts_complete:
  assumes "db_exec V (UnicodeToUtf8 (e_ext V) (wlit ''select * from contact;'')) p = (rc, map contact_row cs, p')"
    and "list_all contact_fits cs"
  shows "if length cs \<le> 1024
    then \<exists>res. LoadContact V p = DoCallBack V (ResInit res) (Some (cgi_num CGI_TYPE_NEWINIT)) (Some 0) (code CGI_CODE_OK) p'
      \<and> take (dwContanct res) (ppContanct res) = map Some cs \<and> dwContanct res = length cs \<and> dwSize res = length cs
    else LoadContact V p = crash BufferOverrun"
proof -
  let ?r0 = "new_BatchResult\<lparr> ppContanct := replicate 1024 None \<rparr>"
  have r0: "length (ppContanct ?r0) = 1024" "take (dwContanct ?r0) (ppContanct ?r0) = map Some []"
    "dwContanct ?r0 \<le> 1024" "dwContanct ?r0 = 0" "dwSize ?r0 = 0"
    by (simp_all add: new_BatchResult_def)
  have l: "LoadContact V p = and_then (fold_rows LoadContactCallBack (map contact_row cs) ?r0)
      (\<lambda>res. DoCallBack V (ResInit res) (Some (cgi_num CGI_TYPE_NEWINIT)) (Some 0) (code CGI_CODE_OK) p')"
    by (simp only: LoadContact_def Let_def assms(1) prod.case)
  from load_contact_rows [OF assms(2) r0(1-3), unfolded r0(4,5)]
  show ?thesis unfolding l by (cases "length cs \<le> 1024") auto
qed

theorem load_contacts_complete_witness:
  "if length ([] :: ContactInfo list) \<le> 1024
    then \<exists>res. LoadContact sample_env (proc0 0) = DoCallBack sample_env (ResInit res) (Some (cgi_num CGI_TYPE_NEWINIT)) (Some 0) (code CGI_CODE_OK) (proc0 0)
      \<and> take (dwContanct res) (ppContanct res) = map Some ([] :: ContactInfo list) \<and> dwContanct res = length ([] :: ContactInfo list) \<and> dwSize res = length ([] :: ContactInfo list)
    else LoadContact sample_env (proc0 0) = crash BufferOverrun"
  by (rule load_contacts_complete)
    (simp_all add: db_exec_def ExecSQL_def exec_as_def proc0_def Sql3_def)

text \<open>Storing a message is one SQL statement when sender, receiver and the converted content have
  no quote. Nothing escapes them: a sender name with a quote turns the insert into three
  statements, of which the second deletes every message.\<close>

theorem add_msg_one_statement:
  assumes "quote_free (szFrom m)" "quote_free (szTo m)" "quote_free (CStringA2Utf8 (e_ext V) (szContent m))"
  shows "sql_stmts False (AddMsg_sql V m) = 1
    \<and> sql_stmts False (AddMsg_sql V (m\<lparr> szFrom := [39] @ lit '',0,0,0);delete from msg;--'' \<rparr>)) > 1"
proof -
  let ?evil = "[39] @ lit '',0,0,0);delete from msg;--''"
  have comma: "sql_stmts False (44 # r) = sql_stmts False r" for r by simp
  have "sql_stmts False (quoted ?evil @ r) > 1" for r
    by (simp add: quoted_def lit_def)
  note evil = this
  have from_evil: "szFrom (m\<lparr> szFrom := ?evil \<rparr>) = ?evil" by simp
  have "sql_stmts False (AddMsg_sql V (m\<lparr> szFrom := ?evil \<rparr>)) > 1"
    unfolding AddMsg_sql_def sql_head from_evil
    by (simp only: sql_stmts_quoted dec_quote_free time_quote_free append_assoc append_Cons [of 44] append_Nil comma evil)
  with AddMsg_sql_one [OF assms] show ?thesis by simp
qed

theorem add_msg_one_statement_witness:
  "sql_stmts False (AddMsg_sql sample_env new_NewMsg) = 1
    \<and> sql_stmts False (AddMsg_sql sample_env (new_NewMsg\<lparr> szFrom := [39] @ lit '',0,0,0);delete from msg;--'' \<rparr>)) > 1"
  by (rule add_msg_one_statement)
    (simp_all add: new_NewMsg_def quote_free_def sample_env_def sample_ext_def CStringA2Utf8_def)

text \<open>Closing does not wait for the worker: a statement queued while account \<open>a\<close> was open and
  already taken off the queue runs on the database of account \<open>b\<close> opened next, whatever SQLite
  answers.\<close>

theorem late_statement_wrong_database:
  "let s = Init Q (CreateTable Q) a Sql3;
       s = sql_step E Q (sql_step E Q s (EvQueue w)) EvWorker;
       s = sql_step E Q (Init Q (CreateTable Q) b s) EvWorker
   in (Queued, b, UnicodeToUtf8 E w) \<in> set (m_log s)"
proof -
  define s1 where "s1 = Init Q (CreateTable Q) a Sql3"
  have s1: "m_pDB s1 = Some a" "m_SqlList s1 = []" "m_worker s1 = WIdle"
    by (simp_all add: s1_def Init_def Close_def Sql3_def CreateTable_def ExecSQL_def exec_as_def run_sql_def Let_def)
  define s2 where "s2 = sql_step E Q (sql_step E Q s1 (EvQueue w)) EvWorker"
  obtain nc where s2: "m_worker s2 = WExec w nc" "m_pDB s2 = Some a"
    using s1 by (auto simp: s2_def sql_step_def ExecSQLAsync_def ExecSQLThread_def worker_take_def Begin_def exec_as_def run_sql_def Let_def)
  define s3 where "s3 = Init Q (CreateTable Q) b s2"
  have s3: "m_worker s3 = WExec w nc" "m_pDB s3 = Some b"
    using s2 by (simp_all add: s3_def Init_def Close_def Commit_def CreateTable_def ExecSQL_def exec_as_def run_sql_def Let_def)
  have "set (m_log s) \<subseteq> set (m_log (worker_take Q nc s))" if "m_pDB s = Some b" for s
    using that by (cases "m_SqlList s"; cases nc) (auto simp: worker_take_def Begin_def Commit_def exec_as_def run_sql_def Let_def)
  note keeps = this
  define s4 where "s4 = s3\<lparr> m_log := m_log s3 @ [(Queued, b, UnicodeToUtf8 E w)] \<rparr>"
  have "sql_step E Q s3 EvWorker = worker_take Q nc s4"
    using s3 by (simp add: s4_def sql_step_def ExecSQLThread_def exec_as_def run_sql_def)
  moreover have "m_pDB s4 = Some b" "(Queued, b, UnicodeToUtf8 E w) \<in> set (m_log s4)"
    using s3 by (simp_all add: s4_def)
  ultimately have "(Queued, b, UnicodeToUtf8 E w) \<in> set (m_log (sql_step E Q s3 EvWorker))"
    using keeps by auto
  then show ?thesis by (simp only: Let_def s1_def s2_def s3_def)
qed

end
