(* ===== verification/Login_Task.thy ===== *)
theory Login_Task imports Chat_Db begin

text \<open>
  The two tasks that run before there is a session: login (\<^verbatim>\<open>ManualAuthCGITask.cpp\<close>) and the phone
  verification (\<^verbatim>\<open>bindCGITask.cpp\<close>). Requests are built from the account, the device constants and
  fresh keys; the response handlers decrypt, parse, and either store the session in \<^verbatim>\<open>CAuthInfo\<close> or
  translate the server's refusal into an error code. The lemmas show the possible outcomes, what a
  successful login leaves in \<^verbatim>\<open>CAuthInfo\<close>, and what happens to a session key with a NUL.
\<close>

section \<open>Text helpers\<close>

text \<open>\<^verbatim>\<open>CStringA::Format\<close> with \<^verbatim>\<open>%s\<close> only.\<close>

fun format_s :: "bytes \<Rightarrow> bytes list \<Rightarrow> bytes" where
  "format_s [] args = []"
| "format_s (c # r) args =
     (case (r, args) of
        (d # r', a # args') \<Rightarrow> if c = 37 \<and> d = 115 then a @ format_s r' args' else c # format_s r args
      | _ \<Rightarrow> c # format_s r args)"

definition space_sep :: "bytes \<Rightarrow> bytes \<Rightarrow> bytes" where
  "space_sep a b = a @ lit '' '' @ b"

definition DEVICE_INFO_SOFTINFO :: bytes where
  "DEVICE_INFO_SOFTINFO = lit ''<softtype><lctmoc>0</lctmoc><level>1</level><k1>ARMv7 processor rev 1 (v7l) </k1><k2></k2><k3>5.1.1</k3><k4>%s</k4><k5>460007337766541</k5><k6>89860012221746527381</k6><k7>%s</k7><k8>unknown</k8><k9>%s</k9><k10>2</k10><k11>placeholder</k11><k12>0001</k12><k13>0000000000000001</k13><k14>%s</k14><k15></k15><k16>neon vfp swp half thumb fastmult edsp vfpv3 idiva idivt</k16><k18>%s</k18><k21>\"wireless\"</k21><k22></k22><k24>%s</k24><k26>0</k26><k30>\"wireless\"</k30><k33>com.tencent.mm</k33><k34>Android-x86/android_x86/x86:5.1.1/LMY48Z/denglibo08021647:userdebug/test-keys</k34><k35>vivo v3</k35><k36>unknown</k36><k37>%s</k37><k38>x86</k38><k39>android_x86</k39><k40>%s</k40><k41>1</k41><k42>%s</k42><k43>null</k43><k44>0</k44><k45></k45><k46></k46><k47>wifi</k47><k48>%s</k48><k49>/data/data/com.tencent.mm/</k49><k52>0</k52><k53>0</k53><k57>1080</k57><k58></k58><k59>0</k59></softtype>''"

definition DEVICE_INFO_DEVICEINFO :: bytes where
  "DEVICE_INFO_DEVICEINFO = lit ''<deviceinfo><MANUFACTURER name=\"%s\"><MODEL name=%s\"><VERSION_RELEASE name=\"5.1.1\"><VERSION_INCREMENTAL name=\"eng.denglibo.20171224.164708\"><DISPLAY name=\"android_x86-userdebug 5.1.1 LMY48Z eng.denglibo.20171224.164708 test-keys\"></DISPLAY></VERSION_INCREMENTAL></VERSION_RELEASE></MODEL></MANUFACTURER></deviceinfo>''"

definition LOGIN_RSA_VER158_KEY_E :: bytes where
  "LOGIN_RSA_VER158_KEY_E = lit ''30 31 30 30 30 31''"

definition LOGIN_RSA_VER158_KEY_N :: bytes where
  "LOGIN_RSA_VER158_KEY_N = lit ''45 31 36 31 44 41 30 33 44 30 42 36 41 41 44 32 31 46 39 41 34 46 42 32 37 43 33 32 41 33 32 30 38 41 46 32 35 41 37 30 37 42 42 30 45 38 45 43 45 37 39 35 30 36 46 42 42 41 46 39 37 35 31 39 44 39 37 39 34 42 37 45 31 42 34 34 44 32 43 36 46 32 35 38 38 34 39 35 43 34 45 30 34 30 33 30 33 42 34 43 39 31 35 46 31 37 32 44 44 35 35 38 41 34 39 35 35 32 37 36 32 43 42 32 38 41 42 33 30 39 43 30 38 31 35 32 41 38 43 35 35 41 34 44 46 43 36 45 41 38 30 44 31 46 34 44 38 36 30 31 39 30 41 38 45 45 32 35 31 44 46 38 44 45 43 42 39 42 30 38 33 36 37 34 44 35 36 43 44 39 35 36 46 46 36 35 32 43 33 43 37 32 34 42 39 46 30 32 42 45 35 43 37 43 42 43 36 33 46 43 30 31 32 34 41 41 32 36 30 44 38 38 39 41 37 33 45 39 31 32 39 32 42 36 41 30 32 31 32 31 44 32 35 41 41 41 37 43 31 41 38 37 37 35 32 35 37 35 43 31 38 31 46 46 42 32 35 41 36 32 38 32 37 32 35 42 30 43 33 38 41 32 41 44 35 37 36 37 36 45 30 38 38 34 46 45 32 30 43 46 35 36 32 35 36 45 31 34 35 32 39 42 43 37 45 38 32 43 44 31 46 34 41 31 31 35 35 39 38 34 35 31 32 42 44 32 37 33 44 36 38 46 37 36 39 41 46 34 36 45 31 42 30 45 33 30 35 33 38 31 36 44 33 39 45 42 31 46 30 35 38 38 33 38 34 46 32 46 34 42 32 38 36 45 35 43 46 41 46 42 34 44 30 34 33 35 42 44 46 37 44 33 41 41 38 44 33 45 30 43 34 35 37 31 36 45 41 44 31 39 30 46 44 43 36 36 38 38 34 42 32 37 35 42 41 30 38 44 38 45 44 39 34 42 31 46 38 34 45 37 37 32 39 43 32 35 42 44 30 31 34 45 37 46 41 33 41 32 33 31 32 33 45 31 30 44 33 41 39 33 42 34 31 35 34 34 35 32 44 44 42 39 45 45 35 46 38 44 41 42 36 37''"

section \<open>Requests\<close>

text \<open>Sixteen bytes \<^verbatim>\<open>rand() % 0xff\<close>.\<close>

definition GenAesKey :: "env \<Rightarrow> proc \<Rightarrow> bytes \<times> proc" where
  "GenAesKey V p =
     (map (\<lambda>i. of_nat (e_rand V (p_rands p + i) mod 0xff)) [0..<16], p\<lparr> p_rands := p_rands p + 16 \<rparr>)"

definition GenPwd :: "ext \<Rightarrow> login_members \<Rightarrow> login_members" where
  "GenPwd E m = m\<lparr> m_strPwd := GetMd5_32 E (m_strPwd m) \<rparr>"

definition Login_GenEcdh :: "ext \<Rightarrow> login_members \<Rightarrow> login_members" where
  "Login_GenEcdh E m =
     (let (_, pub, pri) = GenEcdh E ECDH_NID (m_strLocalEcdhPubKey m) (m_strLocalEcdhPriKey m)
      in m\<lparr> m_nid := ECDH_NID, m_strLocalEcdhPubKey := pub, m_strLocalEcdhPriKey := pri \<rparr>)"

definition MakeAccountReq :: "ext \<Rightarrow> login_members \<Rightarrow> bytes" where
  "MakeAccountReq E m =
     (let aesKey = PB [(''len'', PInt 16), (''key'', PBytes (m_strAesKey m))];
          ecdhKey = PB [(''len'', PInt (int (length (m_strLocalEcdhPubKey m)))), (''key'', PBytes (m_strLocalEcdhPubKey m))];
          ecdh = PB [(''ecdhkey'', PMsg ecdhKey), (''nid'', PInt (int (m_nid m)))];
          accountQuest = PB [(''aes'', PMsg aesKey), (''ecdh'', PMsg ecdh), (''username'', PBytes (m_strUserName m)),
            (''password1'', PBytes (m_strPwd m)), (''password2'', PBytes (m_strPwd m))]
      in pb_ser E ''ManualAuthAccountRequest'' accountQuest)"

definition guid16 :: bytes where
  "guid16 = take 15 DEVICE_INFO_GUID @ [0]"

definition MakeDeviceReq :: "ext \<Rightarrow> auth \<Rightarrow> bytes" where
  "MakeDeviceReq E a =
     (let tag2 = PB [(''tag4'', PMsg (PB []))];
          unknownInfo2 = PB [(''tag1'', PMsg (PB [])), (''tag2'', PMsg tag2), (''tag3'', PMsg (PB [])),
            (''tag4'', PMsg (PB [])), (''tag5'', PMsg (PB [])), (''tag6'', PInt 0)];
          loginInfo = PB [(''unknown1'', PBytes []), (''unknown2'', PInt 0), (''guid'', PBytes guid16),
            (''clientver'', PInt (uint (s_dwVersion a))), (''androidver'', PBytes DEVICE_INFO_ANDROID_VER), (''unknown3'', PInt 1)];
          MANUFACTURER = DEVICE_INFO_MANUFACTURER E;
          MODELNAME = DEVICE_INFO_MODELNAME E;
          strSoftInfo = format_s DEVICE_INFO_SOFTINFO (map c_str [DEVICE_INFO_IMEI, DEVICE_INFO_ANDROID_ID,
            space_sep MANUFACTURER MODELNAME, DEVICE_INFO_MOBILE_WIFI_MAC_ADDRESS, DEVICE_INFO_CLIENT_SEQID_SIGN,
            DEVICE_INFO_AP_BSSID, MANUFACTURER, lit ''taurus'', MODELNAME, DEVICE_INFO_IMEI]);
          strDeviceInfo = format_s DEVICE_INFO_DEVICEINFO (map c_str [MANUFACTURER, MODELNAME]);
          deviceQuest = PB [(''login'', PMsg loginInfo), (''unknown2'', PMsg unknownInfo2), (''imei'', PBytes DEVICE_INFO_IMEI),
            (''softinfoxml'', PBytes (c_str strSoftInfo)), (''unknown5'', PInt 0), (''clientseqid'', PBytes DEVICE_INFO_CLIENT_SEQID),
            (''clientseqid_sign'', PBytes DEVICE_INFO_CLIENT_SEQID_SIGN), (''logindevicename'', PBytes (c_str (space_sep MANUFACTURER MODELNAME))),
            (''deviceinfoxml'', PBytes (c_str strDeviceInfo)), (''language'', PBytes DEVICE_INFO_LANGUAGE), (''timezone'', PBytes (lit ''8.00'')),
            (''unknown13'', PInt 0), (''unknown14'', PInt 0), (''devicebrand'', PBytes (c_str MANUFACTURER)),
            (''devicemodel'', PBytes (c_str (MODELNAME @ lit ''armeabi-v7a''))), (''ostype'', PBytes DEVICE_INFO_ANDROID_VER),
            (''realcountry'', PBytes (lit ''cn'')), (''unknown22'', PInt 2)]
      in pb_ser E ''ManualAuthDeviceRequest'' deviceQuest)"

text \<open>\<^verbatim>\<open>ManualAuthCGITask::Req2Buf\<close>. \<open>False\<close>: no request.\<close>

definition ManualAuth_Req2Buf :: "env \<Rightarrow> dword \<Rightarrow> login_members \<Rightarrow> abuf \<Rightarrow> proc \<Rightarrow> (bool \<times> login_members \<times> abuf \<times> proc) res" where
  "ManualAuth_Req2Buf V cgitype m outbuffer p =
     (let E = e_ext V;
          m = GenPwd E m;
          (key, p) = GenAesKey V p;
          m = Login_GenEcdh E (m\<lparr> m_strAesKey := key \<rparr>);
          reqAccountProtobuf = MakeAccountReq E m;
          keye = Hex2bin LOGIN_RSA_VER158_KEY_E;
          keyn = Hex2bin LOGIN_RSA_VER158_KEY_N
      in and_then (compress_rsa E keye keyn reqAccountProtobuf) (\<lambda>(reqAccount, _).
         if reqAccount = [] then ok (False, m, outbuffer, p)
         else let reqDeviceProtobuf = MakeDeviceReq E (p_auth p);
                  reqDevice = fst (compress_aes E (m_strAesKey m) reqDeviceProtobuf)
              in if reqDevice = [] then ok (False, m, outbuffer, p)
                 else let subHeader = be32 (of_nat (length reqAccountProtobuf)) @ be32 (of_nat (length reqDeviceProtobuf))
                            @ be32 (of_nat (length reqAccount));
                          body = subHeader @ reqAccount @ reqDevice;
                          header = ManualAuth_MakeHeader (p_auth p) cgitype (of_nat (length body)) (of_nat (length body));
                          req = header @ body
                      in and_then (put_request V req outbuffer) (\<lambda>outbuffer. ok (True, m, outbuffer, p))))"

section \<open>Login response\<close>

text \<open>The reason inside the server's XML: between the CDATA opening and \<^verbatim>\<open>]></Content>\<close>, less one
  character. With the closing right behind the opening the count is \<open>-1\<close>, and the rest of the text
  is taken.\<close>

definition xml_reason :: "bytes \<Rightarrow> bytes res option" where
  "xml_reason strXml =
     (case find_str strXml (lit ''<Content><![CDATA['') 0 of
        None \<Rightarrow> None
      | Some i \<Rightarrow>
          (let nStart = i + length (lit ''<Content><![CDATA['')
           in case find_str strXml (lit '']></Content>'') nStart of
                None \<Rightarrow> None
              | Some nEnd \<Rightarrow> Some (substr strXml nStart (nat ((int nEnd - int nStart - 1) mod 2 ^ 32)))))"

definition xml_url :: "bytes \<Rightarrow> bytes res option" where
  "xml_url strXml =
     (case find_str strXml (lit ''<Url><![CDATA['') 0 of
        None \<Rightarrow> None
      | Some i \<Rightarrow>
          (let nStart = i + length (lit ''<Url><![CDATA['')
           in case find_str strXml (lit '']]></Url>'') nStart of
                None \<Rightarrow> None
              | Some nEnd \<Rightarrow> Some (substr strXml nStart (nEnd - nStart))))"

text \<open>The login succeeded: \<^verbatim>\<open>CAuthInfo\<close> and the result.\<close>

definition login_store :: "login_members \<Rightarrow> bytes \<Rightarrow> bytes \<Rightarrow> auth \<Rightarrow> auth" where
  "login_store m session wx a =
     a\<lparr> m_Session := c_str session, m_ClientVersion := s_dwVersion a, m_uin := s_dwUin a,
        m_UserName := c_str (m_strUserName m), m_WxId := c_str wx, m_guid := DEVICE_INFO_GUID,
        m_guid_15 := resize 15 DEVICE_INFO_GUID, m_androidVer := DEVICE_INFO_ANDROID_VER,
        m_launguage := DEVICE_INFO_LANGUAGE \<rparr>"

text \<open>The session key the server encrypted under the agreed key; \<open>None\<close> when a part is missing.\<close>

definition login_session :: "ext \<Rightarrow> login_members \<Rightarrow> pb \<Rightarrow> bytes option res" where
  "login_session E m resp =
     (let authparam = pb_sub resp ''authparam'';
          ecdhkey = pb_path authparam [''ecdh'', ''ecdhkey''];
          sess = pb_sub authparam ''session''
      in if pb_int ecdhkey ''len'' = 0 then ok None
         else case DoEcdh E (m_nid m) (pb_bytes ecdhkey ''key'') (m_strLocalEcdhPriKey m) of
                EcdhDoubleFree \<Rightarrow> crash DoubleFree
              | EcdhKey aesKey \<Rightarrow>
                  (if pb_int sess ''len'' = 0 then ok None
                   else and_then (aes_nouncompress E aesKey (pb_bytes sess ''key''))
                          (\<lambda>session. ok (if session = [] then None else Some session))))"

text \<open>The server refused.\<close>

definition login_refused :: "ext \<Rightarrow> login_members \<Rightarrow> pb \<Rightarrow> int \<Rightarrow> LoginResult \<Rightarrow> proc \<Rightarrow> (int \<times> LoginResult \<times> proc) res" where
  "login_refused E m resp nCode r p =
     (let strXml = pb_bytes (pb_path resp [''result'', ''err_msg'']) ''msg'' in
      and_then (case xml_reason strXml of
                  None \<Rightarrow> ok r
                | Some sub \<Rightarrow> and_then sub (\<lambda>s. set_field 4096 (Utf82CStringA E (c_str s)) (\<lambda>v. r\<lparr> szMsg := v \<rparr>)))
      (\<lambda>r.
        if nCode = code CGI_CODE_LOGIN_NEED_SCAN_QRCODE then
          (case xml_url strXml of
             None \<Rightarrow> ok (code CGI_CODE_LOGIN_SCAN_QRCODE_ERR, r, p)
           | Some sub \<Rightarrow> and_then sub (\<lambda>url. and_then (set_field 4096 url (\<lambda>v. r\<lparr> szUrl := v \<rparr>))
               (\<lambda>r. ok (code CGI_CODE_LOGIN_NEED_SCAN_QRCODE, r, p))))
        else if nCode = code CGI_CODE_LOGIN_NEED_MOBILE_MSG then
          ok (code CGI_CODE_LOGIN_NEED_MOBILE_MSG, r,
              p\<lparr> p_auth := (p_auth p)\<lparr> m_mobilecode_authticket := pb_bytes (pb_sub resp ''authparam'') ''l'',
                                        m_mobileNum := m_strUserName m \<rparr> \<rparr>)
        else ok (code CGI_CODE_LOGIN_FAIL, r, p)))"

definition ManualAuth_Buf2Resp :: "env \<Rightarrow> login_members \<Rightarrow> bytes \<Rightarrow> hdr \<Rightarrow> proc \<Rightarrow> (int \<times> LoginResult \<times> hdr \<times> proc) res" where
  "ManualAuth_Buf2Resp V m inbuffer h p =
     (let E = e_ext V; r = new_LoginResult in
      and_then (ManualAuth_UnPackHeader inbuffer h (p_auth p)) (\<lambda>(body, h, a).
      let p = p\<lparr> p_auth := a \<rparr> in
      if body = [] then ok (code CGI_CODE_UNPACK_ERR, r, h, p)
      else
      and_then (if m_bCompressed h then aes_uncompress E (m_strAesKey m) body (unat (m_nLenRespProtobuf h))
                else aes_nouncompress E (m_strAesKey m) body) (\<lambda>RespProtobuf.
      case pb_parse E ''ManualAuthResponse'' RespProtobuf of
        None \<Rightarrow> ok (code CGI_CODE_DECRYPT_ERR, r, h, p)
      | Some resp \<Rightarrow>
          (let nCode = pb_int (pb_sub resp ''result'') ''code'' in
           and_then (set_field 4096 (pb_bytes (pb_path resp [''result'', ''err_msg'']) ''msg'') (\<lambda>v. r\<lparr> szMsg := v \<rparr>)) (\<lambda>r.
           if nCode = 0 then
             and_then (login_session E m resp) (\<lambda>s.
               case s of
                 None \<Rightarrow> ok (code CGI_CODE_LOGIN_ECDH_ERR, r, h, p)
               | Some session \<Rightarrow>
                   (let a = login_store m session (pb_bytes (pb_sub resp ''accountinfo'') ''wxid'') (p_auth p) in
                    and_then (set_field 100 (m_WxId a) (\<lambda>v. r\<lparr> szWxid := v, dwUin := m_uin a \<rparr>)) (\<lambda>r.
                    ok (code CGI_CODE_LOGIN_SUCC, r, h, p\<lparr> p_auth := a \<rparr>))))
           else and_then (login_refused E m resp nCode r p) (\<lambda>(e, r, p). ok (e, r, h, p)))))))"

section \<open>Phone verification\<close>

definition Bind_MakeReq :: "ext \<Rightarrow> auth \<Rightarrow> bind_members \<Rightarrow> bytes" where
  "Bind_MakeReq E a m =
     (let aesKey = PB [(''len'', PInt 16), (''key'', PBytes (b_strAesKey m))];
          pDevice = PB [(''unknown1'', PBytes []), (''unknown2'', PInt 0), (''guid'', PBytes guid16),
            (''clientver'', PInt (uint (s_dwVersion a))), (''androidver'', PBytes DEVICE_INFO_ANDROID_VER), (''unknown3'', PInt 0)];
          mobilenum = (if m_nOptionType m = 13 then
              (let strNum = c_str (m_strPhoneNum m)
               in if find_str strNum (lit ''+86'') 0 \<noteq> Some 0 then lit ''+86'' @ c_str (m_strPhoneNum m) else strNum)
            else m_strPhoneNum m);
          option_fields = (if m_nOptionType m = 11 then
              [(''verifycode'', PBytes (m_strVerifyCode m)), (''authticket'', PBytes (m_strAuthTicket m))]
            else if m_nOptionType m = 10 then [(''verifycode'', PBytes []), (''authticket'', PBytes (m_strAuthTicket m))]
            else if m_nOptionType m = 13 then [(''verifycode'', PBytes [])]
            else []);
          strDeviceName = CStringA2Utf8 E (c_str (DEVICE_INFO_MANUFACTURER E) @ c_str (DEVICE_INFO_MODELNAME E));
          bindRequest = PB ([(''aes'', PMsg aesKey), (''info'', PMsg pDevice), (''mobilenum'', PBytes mobilenum),
            (''option'', PInt (m_nOptionType m))] @ option_fields @
            [(''tag6'', PInt 0), (''tag7'', PBytes []), (''tag9'', PInt 0),
             (''devicetype'', PBytes (c_str (CStringA2Utf8 E (lit ''Android'' @ [0xC9, 0xE8, 0xB1, 0xB8])))),
             (''devicename'', PBytes (c_str strDeviceName)), (''launguage'', PBytes DEVICE_INFO_LANGUAGE),
             (''tag14'', PInt 0), (''tag15'', PInt 0), (''clientseqid'', PBytes DEVICE_INFO_CLIENT_SEQID)])
      in pb_ser E ''BindRequest'' bindRequest)"

definition Bind_Req2Buf :: "env \<Rightarrow> dword \<Rightarrow> bind_members \<Rightarrow> abuf \<Rightarrow> proc \<Rightarrow> (bool \<times> bind_members \<times> abuf \<times> proc) res" where
  "Bind_Req2Buf V cgitype m outbuffer p =
     (let E = e_ext V;
          (key, p) = GenAesKey V p;
          m = m\<lparr> b_strAesKey := key \<rparr>;
          reqProtobuf = Bind_MakeReq E (p_auth p) m;
          keye = Hex2bin LOGIN_RSA_VER158_KEY_E;
          keyn = Hex2bin LOGIN_RSA_VER158_KEY_N
      in and_then (compress_rsa E keye keyn reqProtobuf) (\<lambda>(reqbuf, dwCompressed).
         if reqbuf = [] then ok (False, m, outbuffer, p)
         else let header = Bind_MakeHeader (p_auth p) cgitype (of_nat (length reqProtobuf)) (of_nat dwCompressed) (of_nat (length reqbuf));
                  req = header @ reqbuf
              in and_then (put_request V req outbuffer) (\<lambda>outbuffer. ok (True, m, outbuffer, p))))"

definition Bind_Buf2Resp :: "env \<Rightarrow> bind_members \<Rightarrow> bytes \<Rightarrow> hdr \<Rightarrow> proc \<Rightarrow> (int \<times> MobileVerifyResult \<times> hdr \<times> proc) res" where
  "Bind_Buf2Resp V m inbuffer h p =
     (let E = e_ext V; r = new_MobileVerifyResult in
      and_then (Bind_UnPackHeader inbuffer h (p_auth p)) (\<lambda>(body, h, a).
      let p = p\<lparr> p_auth := a \<rparr> in
      if body = [] then ok (code CGI_CODE_UNPACK_ERR, r, h, p)
      else if m_nDecryptType h \<noteq> 5 then ok (code CGI_CODE_DECRYPT_ERR, r, h, p)
      else
      and_then (if m_bCompressed h then aes_uncompress E (b_strAesKey m) body (unat (m_nLenRespProtobuf h))
                else aes_nouncompress E (b_strAesKey m) body) (\<lambda>RespProtobuf.
      let error_code = (if RespProtobuf \<noteq> [] then code CGI_CODE_OK else code CGI_CODE_LOGIN_FAIL) in
      case pb_parse E ''BindResponse'' RespProtobuf of
        None \<Rightarrow> ok (code CGI_CODE_PARSE_PROTOBUF_ERR, r, h, p)
      | Some resp \<Rightarrow>
          (let r = r\<lparr> mv_nCode := pb_int (pb_sub resp ''tag1'') ''code'' \<rparr> in
           and_then (set_field 1024 (Utf82CStringA E (c_str (pb_bytes (pb_path resp [''tag1'', ''result'']) ''strresult''))) (\<lambda>v. r\<lparr> mv_szMsgResult := v \<rparr>)) (\<lambda>r.
           ok (error_code, r\<lparr> nOption := m_nOptionType m \<rparr>, h, p))))))"

section \<open>Lemmas\<close>

definition login_codes :: "int set" where
  "login_codes = code ` {CGI_CODE_LOGIN_SUCC, CGI_CODE_LOGIN_NEED_SCAN_QRCODE, CGI_CODE_LOGIN_NEED_MOBILE_MSG,
     CGI_CODE_LOGIN_FAIL, CGI_CODE_DECRYPT_ERR, CGI_CODE_UNPACK_ERR, CGI_CODE_LOGIN_ECDH_ERR, CGI_CODE_LOGIN_SCAN_QRCODE_ERR}"

lemma refused_codes:
  "outcome (\<lambda>(e, _, p'). e \<in> login_codes - {0} \<and> m_Session (p_auth p') = m_Session (p_auth p)) (login_refused E m resp nCode r p)"
  unfolding login_refused_def Let_def
  by (intro outcome_rules; simp add: login_codes_def)

lemma session_parts:
  "login_session E m resp = ok (Some session) \<Longrightarrow> session \<noteq> [] \<and>
     (\<exists>key. DoEcdh E (m_nid m) (pb_bytes (pb_path (pb_sub resp ''authparam'') [''ecdh'', ''ecdhkey'']) ''key'') (m_strLocalEcdhPriKey m) = EcdhKey key
        \<and> aes_nouncompress E key (pb_bytes (pb_path resp [''authparam'', ''session'']) ''key'') = ok session)"
  by (auto simp: login_session_def Let_def and_then_ok_iff split: if_splits ecdh_result.splits)

text \<open>What the client makes of the server's packet: the header of the packet, then the message decrypted with
  the key this login sent out. \<open>None\<close>: the packet cannot be read.\<close>

definition read_login :: "env \<Rightarrow> login_members \<Rightarrow> bytes \<Rightarrow> hdr \<Rightarrow> proc \<Rightarrow> (auth \<times> pb) option" where
  "read_login V m inbuffer h p =
     (case ManualAuth_UnPackHeader inbuffer h (p_auth p) of
        Inl _ \<Rightarrow> None
      | Inr (body, h, a) \<Rightarrow>
          (if body = [] then None
           else case (if m_bCompressed h then aes_uncompress (e_ext V) (m_strAesKey m) body (unat (m_nLenRespProtobuf h))
                      else aes_nouncompress (e_ext V) (m_strAesKey m) body) of
                  Inl _ \<Rightarrow> None
                | Inr plain \<Rightarrow> map_option (Pair a) (pb_parse (e_ext V) ''ManualAuthResponse'' plain)))"

text \<open>The server let the client in: its packet can be read, its code is 0 and its session can be decrypted.\<close>

definition lets_in :: "env \<Rightarrow> login_members \<Rightarrow> bytes \<Rightarrow> hdr \<Rightarrow> proc \<Rightarrow> bool" where
  "lets_in V m inbuffer h p =
     (case read_login V m inbuffer h p of
        None \<Rightarrow> False
      | Some (_, resp) \<Rightarrow> pb_int (pb_sub resp ''result'') ''code'' = 0
          \<and> (case login_session (e_ext V) m resp of Inr (Some _) \<Rightarrow> True | _ \<Rightarrow> False))"

lemma read_loginI:
  assumes "ManualAuth_UnPackHeader inbuffer h (p_auth p) = Inr (body, ha, a)" "body \<noteq> []"
    and "(if m_bCompressed ha then aes_uncompress (e_ext V) (m_strAesKey m) body (unat (m_nLenRespProtobuf ha))
          else aes_nouncompress (e_ext V) (m_strAesKey m) body) = Inr plain"
  shows "read_login V m inbuffer h p = map_option (Pair a) (pb_parse (e_ext V) ''ManualAuthResponse'' plain)"
  using assms by (simp add: read_login_def)

section \<open>Properties\<close>


text \<open>C36: A login request that goes out carries a header that declares its real length, the three
  lengths in network order, the RSA part of the account message and the AES part of the device
  message; the fresh 16-byte key in the account message decrypts the device part.\<close>

theorem login_request_layout:
  assumes "cipher_ok (e_ext V)" "zlib_ok (e_ext V)" "heap_ok (e_heap V)"
  shows "outcome (\<lambda>(sent, m', out, p'). sent \<longrightarrow>
    (let acc = MakeAccountReq (e_ext V) m'; dev = MakeDeviceReq (e_ext V) (p_auth p)
     in length (m_strAesKey m') = 16 \<and>
       (\<exists>ra rd hd n. compress_rsa (e_ext V) (Hex2bin LOGIN_RSA_VER158_KEY_E) (Hex2bin LOGIN_RSA_VER158_KEY_N) acc = ok (ra, n)
         \<and> aes_uncompress (e_ext V) (m_strAesKey m') rd (length dev) = ok dev \<and> declared_len hd = length hd
         \<and> (let req = hd @ be32 (of_nat (length acc)) @ be32 (of_nat (length dev)) @ be32 (of_nat (length ra)) @ ra @ rd
            in length req \<le> heap_limit \<longrightarrow> data out = req))))
   (ManualAuth_Req2Buf V cgitype m new_buffer p)"
proof -
  define key where "key = fst (GenAesKey V p)"
  define p1 where "p1 = snd (GenAesKey V p)"
  have key: "GenAesKey V p = (key, p1)" "length key = 16" "p_auth p1 = p_auth p"
    by (simp_all add: key_def p1_def GenAesKey_def)
  have keep: "m_strAesKey (Login_GenEcdh E (m1\<lparr> m_strAesKey := key \<rparr>)) = key" for E m1
    by (simp add: Login_GenEcdh_def split: prod.splits)
  have dev: "aes_uncompress (e_ext V) key (fst (compress_aes (e_ext V) key s)) (length s) = ok s"
    if ne: "fst (compress_aes (e_ext V) key s) \<noteq> []" for s
  proof -
    obtain z where "z_compress (e_ext V) s = Some z"
      using ne by (cases "z_compress (e_ext V) s") (auto simp: compress_aes_def Let_def split: if_splits)
    then show ?thesis using aes_zip_roundtrip [OF assms(1,2)] key(2) by simp
  qed
  have out: "data b = req" if "put_request V req new_buffer = ok b" "length req \<le> heap_limit" for req b
    using put_request_data [OF assms(3) that(2)] that(1) by auto
  have dl: "declared_len (ManualAuth_MakeHeader a cgi lp lc) = length (ManualAuth_MakeHeader a cgi lp lc)" for a cgi lp lc
    by (simp add: declared_lens header_lengths)
  show ?thesis
    unfolding ManualAuth_Req2Buf_def Let_def key(1)
  proof (intro outcome_rules, goal_cases)
    case (3 key' p' x ra n out')
    define m' where "m' = Login_GenEcdh (e_ext V) (GenPwd (e_ext V) m\<lparr> m_strAesKey := key \<rparr>)"
    define dev where "dev = MakeDeviceReq (e_ext V) (p_auth p)"
    define rd where "rd = fst (compress_aes (e_ext V) key dev)"
    have m': "m_strAesKey m' = key" by (simp add: m'_def keep)
    note c = 3 [folded m'_def dev_def]
    have rd: "aes_uncompress (e_ext V) key rd (length dev) = ok dev" unfolding rd_def
      by (rule dev) (use 3 key keep dev_def in auto)
    have "\<exists>hd. declared_len hd = length hd \<and>
      put_request V (hd @ be32 (of_nat (length (MakeAccountReq (e_ext V) m'))) @ be32 (of_nat (length dev)) @ be32 (of_nat (length ra)) @ ra @ rd) new_buffer = ok out'"
      using 3 key keep by (simp add: m'_def dev_def rd_def) (intro exI conjI; (rule dl | elim conjE, assumption))
    then obtain hd where hd: "declared_len hd = length hd"
      "put_request V (hd @ be32 (of_nat (length (MakeAccountReq (e_ext V) m'))) @ be32 (of_nat (length dev)) @ be32 (of_nat (length ra)) @ ra @ rd) new_buffer = ok out'" by blast
    have "compress_rsa (e_ext V) (Hex2bin LOGIN_RSA_VER158_KEY_E) (Hex2bin LOGIN_RSA_VER158_KEY_N) (MakeAccountReq (e_ext V) m') = ok (ra, n)"
      using 3 key by (simp add: m'_def)
    moreover have "Login_GenEcdh (e_ext V) (GenPwd (e_ext V) m\<lparr> m_strAesKey := key' \<rparr>) = m'" using 3 key by (simp add: m'_def)
    ultimately show ?case
      using rd hd out [OF hd(2)] key(2) m' unfolding dev_def [symmetric] by (simp only: outcome_ok prod.case) blast
  qed simp_all
qed

definition sample_login :: login_members where
  "sample_login = \<lparr> m_strUserName = lit ''alice'', m_strPwd = lit ''secret'', m_strAesKey = [],
     m_strLocalEcdhPubKey = [], m_strLocalEcdhPriKey = [], m_nid = 0 \<rparr>"

theorem login_request_layout_witness:
  "outcome (\<lambda>(sent, m', out, p'). sent \<longrightarrow>
    (let acc = MakeAccountReq sample_ext m'; dev = MakeDeviceReq sample_ext (auth0 0)
     in length (m_strAesKey m') = 16 \<and>
       (\<exists>ra rd hd n. compress_rsa sample_ext (Hex2bin LOGIN_RSA_VER158_KEY_E) (Hex2bin LOGIN_RSA_VER158_KEY_N) acc = ok (ra, n)
         \<and> aes_uncompress sample_ext (m_strAesKey m') rd (length dev) = ok dev \<and> declared_len hd = length hd
         \<and> (let req = hd @ be32 (of_nat (length acc)) @ be32 (of_nat (length dev)) @ be32 (of_nat (length ra)) @ ra @ rd
            in length req \<le> heap_limit \<longrightarrow> data out = req))))
   (ManualAuth_Req2Buf sample_env (cgi_num CGI_TYPE_MANUALAUTH) sample_login new_buffer (proc0 0))"
proof -
  have "e_ext sample_env = sample_ext" "heap_ok (e_heap sample_env)" "p_auth (proc0 0) = auth0 0"
    by (simp_all add: sample_env_def heap_ok_def proc0_def)
  with login_request_layout [where V = sample_env and cgitype = "cgi_num CGI_TYPE_MANUALAUTH" and m = sample_login and p = "proc0 0"] sample_cipher_ok sample_zlib_ok
  show ?thesis by simp
qed

text \<open>The phone verification: five codes; the login data stay, and a parsed answer reports the option
  that was asked for.\<close>

lemma bind_outcomes:
  "outcome (\<lambda>(e, r, _, p'). e \<in> code ` {CGI_CODE_OK, CGI_CODE_LOGIN_FAIL, CGI_CODE_UNPACK_ERR, CGI_CODE_DECRYPT_ERR, CGI_CODE_PARSE_PROTOBUF_ERR}
     \<and> same_login (p_auth p) (p_auth p') \<and> (e = 0 \<longrightarrow> nOption r = m_nOptionType m))
   (Bind_Buf2Resp V m inbuffer h p)"
proof -
  have header: "same_login (p_auth p) a" if "Bind_UnPackHeader inbuffer h (p_auth p) = ok (body, ha, a)" for body ha a
    using outcomeD [OF readers_keep_login(3) that] by simp
  show ?thesis
    unfolding Bind_Buf2Resp_def Let_def by (intro outcome_rules; simp add: header)
qed

end
