(* ===== verification/Sync_Tasks.thy ===== *)
theory Sync_Tasks imports Login_Task begin

text \<open>
  The tasks that keep the client in step with the server: \<^verbatim>\<open>NewInitCGITask.cpp\<close> (first login),
  \<^verbatim>\<open>NewSyncCGITask.cpp\<close> (message sync, with the two process-wide flags that serialise it) and
  \<^verbatim>\<open>ReportSyncKVCGITask.cpp\<close> (the acknowledgement). The response handlers loop over a count the
  server sent, and fill two pointer arrays of that size. Allocations of fixed size are taken to
  succeed; those whose size the server chooses may fail. The lemmas show the possible outcomes, that
  the arrays are never overrun, and what the flags promise.
\<close>

section \<open>What the session tasks share\<close>

text \<open>The request of a task that has a session: encrypted under it, without compression.\<close>

definition session_request :: "env \<Rightarrow> dword \<Rightarrow> bytes \<Rightarrow> abuf \<Rightarrow> proc \<Rightarrow> (bool \<times> abuf \<times> proc) res" where
  "session_request V nCgiType reqProtobuf outbuffer p =
     (let body = nocompress_aes (e_ext V) (m_Session (p_auth p)) reqProtobuf
      in if body = [] then ok (False, outbuffer, p)
         else let header = MakeHeader (p_auth p) (s_cookie (p_auth p)) nCgiType (of_nat (length reqProtobuf)) (of_nat (length reqProtobuf));
                  req = header @ body
              in and_then (put_request V req outbuffer) (\<lambda>outbuffer. ok (True, outbuffer, p)))"

definition session_plain :: "env \<Rightarrow> proc \<Rightarrow> hdr \<Rightarrow> bytes \<Rightarrow> bytes res" where
  "session_plain V p h body =
     (if m_bCompressed h then aes_uncompress (e_ext V) (m_Session (p_auth p)) body (unat (m_nLenRespProtobuf h))
      else aes_nouncompress (e_ext V) (m_Session (p_auth p)) body)"

text \<open>\<^verbatim>\<open>new T *[n]\<close> with the count of a message field.\<close>

definition new_array :: "ext \<Rightarrow> int \<Rightarrow> 'a option list res" where
  "new_array E n = (if n < 0 \<or> \<not> alloc_ok E (4 * nat n) then crash NoMemory else ok (replicate (nat n) None))"

text \<open>An element of a repeated field; the generated accessor does not check the index in release.\<close>

definition pb_elem :: "pb list \<Rightarrow> nat \<Rightarrow> pb res" where
  "pb_elem xs i = (if i < length xs then ok (xs ! i) else crash BadRead)"

definition new_msg_of :: "env \<Rightarrow> pb \<Rightarrow> NewMsg res" where
  "new_msg_of V c =
     (let m = new_NewMsg in
      and_then (set_field 1024 (pb_bytes (pb_sub c ''from'') ''id'') (\<lambda>v. m\<lparr> szFrom := v \<rparr>)) (\<lambda>m.
      and_then (set_field 1024 (pb_bytes (pb_sub c ''to'') ''id'') (\<lambda>v. m\<lparr> szTo := v \<rparr>)) (\<lambda>m.
      and_then (set_field MAX_BUF (Utf82CStringA (e_ext V) (c_str (pb_bytes (pb_sub c ''rawcontent'') ''content''))) (\<lambda>v. m\<lparr> szContent := v \<rparr>)) (\<lambda>m.
        ok (m\<lparr> nType := pb_int c ''type'', utc := of_int (pb_int c ''createtime''), svrid := of_int (pb_int c ''serverid'') \<rparr>)))))"

definition contact_of :: "pb \<Rightarrow> ContactInfo res" where
  "contact_of info =
     (let c = new_ContactInfo in
      and_then (set_field 100 (pb_bytes (pb_sub info ''wxid'') ''id'') (\<lambda>v. c\<lparr> wxid := v \<rparr>)) (\<lambda>c.
      and_then (set_field 100 (pb_bytes (pb_sub info ''nickname'') ''name'') (\<lambda>v. c\<lparr> nickName := v \<rparr>)) (\<lambda>c.
      and_then (set_field 200 (pb_bytes info ''headicon_small'') (\<lambda>v. c\<lparr> headicon := v \<rparr>)) (\<lambda>c.
      and_then (set_field 200 (pb_bytes info ''encryptname'') (\<lambda>v. c\<lparr> v1_Name := v \<rparr>)) ok))))"

definition push_msg :: "NewMsg \<Rightarrow> BatchResult \<Rightarrow> BatchResult res" where
  "push_msg m r = and_then (put_ptr (dwNewMsg r) m (ppNewMsg r)) (\<lambda>xs. ok (r\<lparr> ppNewMsg := xs, dwNewMsg := dwNewMsg r + 1 \<rparr>))"

definition push_contact :: "ContactInfo \<Rightarrow> BatchResult \<Rightarrow> BatchResult res" where
  "push_contact c r = and_then (put_ptr (dwContanct r) c (ppContanct r)) (\<lambda>xs. ok (r\<lparr> ppContanct := xs, dwContanct := dwContanct r + 1 \<rparr>))"

section \<open>The sync flags\<close>

definition IsSyncing :: "proc \<Rightarrow> bool \<times> proc" where
  "IsSyncing p =
     (if s_bSyncing p then (True, p\<lparr> s_bNeedReSync := True \<rparr>)
      else (False, p\<lparr> s_bSyncing := True \<rparr>))"

definition IsNeedReSync :: "proc \<Rightarrow> bool \<times> proc" where
  "IsNeedReSync p =
     (let (bRet, p) = (if s_bNeedReSync p then (True, p\<lparr> s_bSyncing := True \<rparr>) else (False, p\<lparr> s_bSyncing := False \<rparr>))
      in (bRet, p\<lparr> s_bNeedReSync := False \<rparr>))"

section \<open>The sync report\<close>

definition ReportSyncKV_Req2Buf :: "env \<Rightarrow> abuf \<Rightarrow> proc \<Rightarrow> (bool \<times> abuf \<times> proc) res" where
  "ReportSyncKV_Req2Buf V outbuffer p =
     and_then (GetSyncKey V p) (\<lambda>(strSyncKey, p).
     let reqProtobuf = (case pb_parse (e_ext V) ''syncMsgKey_'' strSyncKey of
                          None \<Rightarrow> []
                        | Some msgkey \<Rightarrow> pb_ser (e_ext V) ''MsgKey_'' (pb_sub msgkey ''msgkey''));
         req = ReportSyncKV_MakeHeader (of_nat (length reqProtobuf)) @ reqProtobuf
     in and_then (put_request V req outbuffer) (\<lambda>outbuffer. ok (True, outbuffer, p)))"

definition ReportSyncKV_task :: task where
  "ReportSyncKV_task = (new_task ReportSyncKVCGITask)\<lparr> t_channel_select := Some ChannelType_LongConn, t_cmdid := Some (cmd_id SEND_SYNC_SUCCESS) \<rparr>"

definition ReportSyncKV :: "proc \<Rightarrow> proc" where
  "ReportSyncKV p = snd (startTask ReportSyncKV_task True p)"

section \<open>\<^verbatim>\<open>NewSyncCGITask\<close>\<close>

definition nMsgType :: "int list" where
  "nMsgType = [1,2,3,4,5,7,8,9,10,11,13,14,101,102,103,104,105,107,109,111,112,201,203,204,205,1000,1001]"

text \<open>The key that starts a sync from nothing.\<close>

definition zero_sync_key :: "ext \<Rightarrow> bytes" where
  "zero_sync_key E =
     (let pMsgKey = PB [(''size'', PInt (int (length nMsgType))),
            (''key'', PRep (map (\<lambda>t. PB [(''type'', PInt t), (''synckey'', PInt 0)]) nMsgType))];
          pSyncMsgKey = PB [(''len'', PInt (int (length (pb_ser E ''MsgKey_'' pMsgKey)))), (''msgkey'', PMsg pMsgKey)]
      in pb_ser E ''syncMsgKey_'' pSyncMsgKey)"

definition MakeNewSyncReq :: "env \<Rightarrow> proc \<Rightarrow> (bytes \<times> proc) res" where
  "MakeNewSyncReq V p =
     and_then (GetSyncKey V p) (\<lambda>(k, p).
     and_then (if k = [] then ok (zero_sync_key (e_ext V), p) else GetSyncKey V p) (\<lambda>(strSyncKey, p).
     ok (pb_ser (e_ext V) ''NewSyncRequest'' (PB [(''continueflag'', PMsg (PB [(''flag'', PInt 0)])), (''selector'', PInt 262151),
           (''tagmsgkey'', PBytes strSyncKey), (''scene'', PInt 3), (''device'', PBytes DEVICE_INFO_ANDROID_VER),
           (''syncmsgdigest'', PInt 1)]), p)))"

definition NewSync_Req2Buf :: "env \<Rightarrow> abuf \<Rightarrow> proc \<Rightarrow> (bool \<times> abuf \<times> proc) res" where
  "NewSync_Req2Buf V outbuffer p =
     and_then (MakeNewSyncReq V p) (\<lambda>(reqProtobuf, p). session_request V (cgi_num CGI_TYPE_NEWSYNC) reqProtobuf outbuffer p)"

text \<open>One element of the answer. The flag says that the handler returns with
  \<^verbatim>\<open>CGI_CODE_PARSE_PROTOBUF_ERR\<close>.\<close>

definition sync_element :: "env \<Rightarrow> pb \<Rightarrow> BatchResult \<Rightarrow> proc \<Rightarrow> (bool \<times> BatchResult \<times> proc) res" where
  "sync_element V e r p =
     (if pb_int e ''type'' = 5 then
        (case pb_parse (e_ext V) ''NewSyncRespMsg_'' (pb_bytes e ''msg'') of
           None \<Rightarrow> ok (True, r, p)
         | Some msg \<Rightarrow>
             and_then (new_msg_of V (pb_sub msg ''content'')) (\<lambda>pMsg.
             and_then (push_msg pMsg r) (\<lambda>r. ok (False, r, AddMsg V pMsg p))))
      else if pb_int e ''type'' = 2 then
        (case pb_parse (e_ext V) ''commonMsg'' (pb_bytes e ''msg'') of
           None \<Rightarrow> ok (False, r, p)
         | Some common \<Rightarrow>
             (case pb_parse (e_ext V) ''ContactInfo'' (pb_bytes common ''msg'') of
                None \<Rightarrow> ok (True, r, p)
              | Some info \<Rightarrow> and_then (contact_of info) (\<lambda>pInfo. and_then (push_contact pInfo r) (\<lambda>r. ok (False, r, p)))))
      else ok (False, r, p))"

text \<open>The loop \<^verbatim>\<open>for (i = 0; i < cnt; i++)\<close> with \<open>n\<close> rounds left, over either kind of element.\<close>

fun element_loop :: "(pb \<Rightarrow> BatchResult \<Rightarrow> proc \<Rightarrow> (bool \<times> BatchResult \<times> proc) res) \<Rightarrow> pb list \<Rightarrow> nat \<Rightarrow> nat
    \<Rightarrow> BatchResult \<Rightarrow> proc \<Rightarrow> (bool \<times> BatchResult \<times> proc) res" where
  "element_loop f msgs i 0 r p = ok (False, r, p)"
| "element_loop f msgs i (Suc n) r p =
     and_then (pb_elem msgs i) (\<lambda>e.
     and_then (f e r p) (\<lambda>(stop, r, p). if stop then ok (True, r, p) else element_loop f msgs (Suc i) n r p))"

definition alloc_batch :: "ext \<Rightarrow> int \<Rightarrow> BatchResult \<Rightarrow> BatchResult res" where
  "alloc_batch E n r =
     and_then (new_array E n) (\<lambda>xs. and_then (new_array E n) (\<lambda>ys.
       ok (r\<lparr> ppNewMsg := xs, ppContanct := ys, dwSize := nat n \<rparr>)))"

definition NewSync_Buf2Resp :: "env \<Rightarrow> bytes \<Rightarrow> hdr \<Rightarrow> proc \<Rightarrow> (int \<times> BatchResult \<times> hdr \<times> proc) res" where
  "NewSync_Buf2Resp V inbuffer h p =
     (let E = e_ext V; r = new_BatchResult in
      and_then (UnPackHeader inbuffer h (p_auth p)) (\<lambda>(body, h, a).
      let p = p\<lparr> p_auth := a \<rparr> in
      if body = [] then ok (code CGI_CODE_UNPACK_ERR, r, h, p)
      else if m_nDecryptType h \<noteq> 5 then ok (code CGI_CODE_DECRYPT_ERR, r, h, p)
      else
      and_then (session_plain V p h body) (\<lambda>RespProtobuf.
      if RespProtobuf = [] then ok (code CGI_ERR_UNKNOWN, r, h, p)
      else case pb_parse E ''NewSyncResp'' RespProtobuf of
        None \<Rightarrow> ok (code CGI_CODE_PARSE_PROTOBUF_ERR, r, h, p)
      | Some resp \<Rightarrow>
          (let p = SetSyncKey V (pb_bytes resp ''strsynckey'') p;
               newmsg = pb_sub resp ''newmsg'';
               cnt = pb_int newmsg ''cnt''
           in if cnt = 0 then ok (code CGI_CODE_OK, r, h, p)
              else and_then (alloc_batch E cnt r) (\<lambda>r.
                   and_then (element_loop (sync_element V) (pb_rep newmsg ''msg'') 0 (nat cnt) r p) (\<lambda>(stop, r, p).
                   if stop then ok (code CGI_CODE_PARSE_PROTOBUF_ERR, r, h, p)
                   else ok (code CGI_CODE_OK, r, h, ReportSyncKV p)))))))"

section \<open>\<^verbatim>\<open>NewInitCGITask\<close>\<close>

definition NewInit_MakeReq :: "env \<Rightarrow> auth \<Rightarrow> bytes" where
  "NewInit_MakeReq V a =
     (let pInfo = PB [(''aeskey'', PBytes (c_str (m_Session a))), (''uin'', PInt (uint (m_uin a))), (''guid'', PBytes (m_guid_15 a)),
            (''clientver'', PInt (uint (m_ClientVersion a))), (''androidver'', PBytes (m_androidVer a)), (''unknown3'', PInt 3)]
      in pb_ser (e_ext V) ''NewInitRequest'' (PB [(''login'', PMsg pInfo), (''wxid'', PBytes (m_WxId a)),
           (''tag3'', PMsg (PB [])), (''tag4'', PMsg (PB [])), (''language'', PBytes (m_launguage a))]))"

text \<open>This header carries \<^verbatim>\<open>cmdid_\<close> where the others carry the cgi type.\<close>

definition NewInit_Req2Buf :: "env \<Rightarrow> dword \<Rightarrow> abuf \<Rightarrow> proc \<Rightarrow> (bool \<times> abuf \<times> proc) res" where
  "NewInit_Req2Buf V cmdid outbuffer p = session_request V cmdid (NewInit_MakeReq V (p_auth p)) outbuffer p"

text \<open>The statement that stores a contact.\<close>

definition insert_contact :: "env \<Rightarrow> ContactInfo \<Rightarrow> proc \<Rightarrow> proc" where
  "insert_contact V c p =
     (let E = e_ext V;
          strSql = wlit ''insert into contact(wxid,nickname,headicon,v1_name) values('' @ [39] @ to_wide E CP_ACP (wxid c)
            @ [39, 44, 39] @ Utf8ToUnicode E (nickName c) @ [39, 44, 39] @ to_wide E CP_ACP (headicon c)
            @ [39, 44, 39] @ to_wide E CP_ACP (v1_Name c) @ [39] @ wlit '');''
      in snd (snd (db_exec V (UnicodeToUtf8 E strSql) p)))"

definition init_element :: "env \<Rightarrow> pb \<Rightarrow> BatchResult \<Rightarrow> proc \<Rightarrow> (bool \<times> BatchResult \<times> proc) res" where
  "init_element V e r p =
     (let data = pb_bytes (pb_sub e ''data'') ''data'' in
      if pb_int e ''type'' = 1 then
        (case pb_parse (e_ext V) ''UserInfo'' data of None \<Rightarrow> ok (True, r, p) | Some info \<Rightarrow> ok (False, r, p))
      else if pb_int e ''type'' = 2 then
        (case pb_parse (e_ext V) ''ContactInfo'' data of
           None \<Rightarrow> ok (True, r, p)
         | Some info \<Rightarrow>
             and_then (contact_of info) (\<lambda>pInfo.
             and_then (push_contact pInfo r) (\<lambda>r. ok (False, r, insert_contact V pInfo p))))
      else if pb_int e ''type'' = 5 then
        (case pb_parse (e_ext V) ''NewMsgContent_'' data of
           None \<Rightarrow> ok (True, r, p)
         | Some msg \<Rightarrow>
             and_then (new_msg_of V msg) (\<lambda>pMsg.
             and_then (push_msg pMsg r) (\<lambda>r. ok (False, r, AddMsg V pMsg p))))
      else ok (False, r, p))"

text \<open>A response that does not parse leaves the code at \<^verbatim>\<open>CGI_CODE_OK\<close>.\<close>

definition NewInit_Buf2Resp :: "env \<Rightarrow> bytes \<Rightarrow> hdr \<Rightarrow> proc \<Rightarrow> (int \<times> BatchResult \<times> hdr \<times> proc) res" where
  "NewInit_Buf2Resp V inbuffer h p =
     (let E = e_ext V; r = new_BatchResult in
      and_then (UnPackHeader inbuffer h (p_auth p)) (\<lambda>(body, h, a).
      let p = p\<lparr> p_auth := a \<rparr> in
      if body = [] then ok (code CGI_CODE_UNPACK_ERR, r, h, p)
      else if m_nDecryptType h \<noteq> 5 then ok (code CGI_CODE_DECRYPT_ERR, r, h, p)
      else
      and_then (session_plain V p h body) (\<lambda>RespProtobuf.
      if RespProtobuf = [] then ok (code CGI_CODE_LOGIN_FAIL, r, h, p)
      else case pb_parse E ''NewInitResponse'' RespProtobuf of
        None \<Rightarrow> ok (code CGI_CODE_OK, r, h, p)
      | Some resp \<Rightarrow>
          (let p = SetSyncKey V (pb_bytes resp ''sync2'') p;
               cntlist = pb_int resp ''cntlist''
           in if cntlist = 0 then ok (code CGI_CODE_PARSE_PROTOBUF_ERR, r, h, p)
              else and_then (alloc_batch E cntlist r) (\<lambda>r.
                   and_then (element_loop (init_element V) (pb_rep resp ''tag7'') 0 (nat cntlist) r p) (\<lambda>(stop, r, p).
                   if stop then ok (code CGI_CODE_PARSE_PROTOBUF_ERR, r, h, p)
                   else ok (code CGI_CODE_OK, r, h, p)))))))"

section \<open>Lemmas: filling the arrays\<close>

text \<open>A result whose arrays hold exactly the messages \<open>xs\<close> and the contacts \<open>ys\<close>.\<close>

definition batch_holds :: "BatchResult \<Rightarrow> NewMsg list \<Rightarrow> ContactInfo list \<Rightarrow> bool" where
  "batch_holds r xs ys \<longleftrightarrow>
     length (ppNewMsg r) = dwSize r \<and> length (ppContanct r) = dwSize r
   \<and> length xs + length ys \<le> dwSize r \<and> dwNewMsg r = length xs \<and> dwContanct r = length ys
   \<and> take (length xs) (ppNewMsg r) = map Some xs \<and> take (length ys) (ppContanct r) = map Some ys"

lemma take_put: "take n xs = map Some ys \<Longrightarrow> n < length xs \<Longrightarrow> n = length ys \<Longrightarrow> take (Suc n) (xs[n := Some x]) = map Some (ys @ [x])"
  by (simp add: take_Suc_conv_app_nth)

lemma push_msg_holds:
  assumes "batch_holds r xs ys" "length xs + length ys < dwSize r"
  shows "\<exists>r'. push_msg m r = ok r' \<and> dwSize r' = dwSize r \<and> batch_holds r' (xs @ [m]) ys"
  using assms take_put [of "length xs" "ppNewMsg r" xs m]
  by (auto simp: push_msg_def put_ptr_def batch_holds_def)

lemma push_contact_holds:
  assumes "batch_holds r xs ys" "length xs + length ys < dwSize r"
  shows "\<exists>r'. push_contact c r = ok r' \<and> dwSize r' = dwSize r \<and> batch_holds r' xs (ys @ [c])"
  using assms take_put [of "length ys" "ppContanct r" ys c]
  by (auto simp: push_contact_def put_ptr_def batch_holds_def)

lemma alloc_batch_holds:
  "outcome (\<lambda>r'. dwSize r' = nat n \<and> batch_holds r' [] []) (alloc_batch E n new_BatchResult)"
  "faults_in {NoMemory} (alloc_batch E n new_BatchResult)"
  by (auto simp: alloc_batch_def new_array_def batch_holds_def new_BatchResult_def)

text \<open>Only the database changes.\<close>

definition db_only :: "proc \<Rightarrow> proc \<Rightarrow> bool" where
  "db_only p p' \<longleftrightarrow> (\<exists>d. p' = p\<lparr> p_db := d \<rparr>)"

lemma db_only_refl [simp]: "db_only p p"
  unfolding db_only_def by (rule exI [of _ "p_db p"]) simp

lemma db_only_trans: "db_only p q \<Longrightarrow> db_only q r \<Longrightarrow> db_only p r"
  by (auto simp: db_only_def)

lemma db_exec_only: "db_exec V stmt p = (rc, rows, p') \<Longrightarrow> db_only p p'"
  by (auto simp: db_exec_def db_only_def split: prod.splits)

lemma db_exec_state: "db_only p (snd (snd (db_exec V stmt p)))"
  by (cases "db_exec V stmt p") (auto dest: db_exec_only)

lemma db_writers: "db_only p (AddMsg V m p)" "db_only p (SetSyncKey V k p)" "db_only p (insert_contact V c p)"
  by (auto simp: AddMsg_def SetSyncKey_def UpdateSyncKey_def insert_contact_def Let_def db_exec_state split: prod.splits
      intro: db_only_trans dest!: db_exec_only)

lemma GetSyncKey_only: "GetSyncKey V p = ok (k, p') \<Longrightarrow> db_only p p'"
  by (auto simp: GetSyncKey_def DB_GetSyncKey_def and_then_ok_iff split: prod.splits dest: db_exec_only)

lemma field_faults [fault_rules]:
  "faults_in {InvalidParameter, BadRead} (set_field n s upd)" "faults_in {InvalidParameter, BadRead} (pb_elem es i)"
  by (simp_all add: set_field_def strcpy_s_def pb_elem_def)

lemma decode_faults: "faults_in {InvalidParameter, BadRead} (new_msg_of V c)" "faults_in {InvalidParameter, BadRead} (contact_of c)"
  unfolding new_msg_of_def contact_of_def Let_def by (intro fault_rules; simp)+

text \<open>An element handler files every element it takes under the messages or the contacts, and
  writes to the database only. The loop then files all of them, in order, and cannot leave the
  arrays.\<close>

locale batch_filler =
  fixes f :: "pb \<Rightarrow> BatchResult \<Rightarrow> proc \<Rightarrow> (bool \<times> BatchResult \<times> proc) res"
    and ms :: "pb \<Rightarrow> NewMsg list" and cs :: "pb \<Rightarrow> ContactInfo list" and st :: "pb \<Rightarrow> proc \<Rightarrow> proc"
  assumes step: "batch_holds r xs ys \<Longrightarrow> length xs + length ys < dwSize r \<Longrightarrow>
      outcome (\<lambda>(stop, r', p'). dwSize r' = dwSize r \<and>
        (if stop then r' = r \<and> p' = p else batch_holds r' (xs @ ms e) (ys @ cs e) \<and> p' = st e p)) (f e r p)"
    and one: "length (ms e) + length (cs e) \<le> 1"
    and step_faults: "batch_holds r xs ys \<Longrightarrow> length xs + length ys < dwSize r \<Longrightarrow> faults_in {InvalidParameter, BadRead} (f e r p)"
    and store: "db_only p (st e p)"
begin

lemma fold_store: "db_only p (fold st es p)"
  by (induction es arbitrary: p) (auto intro: db_only_trans store)

lemma loop:
  assumes "batch_holds r xs ys" "length xs + length ys + n \<le> dwSize r"
  shows "outcome (\<lambda>(stop, r', p'). dwSize r' = dwSize r \<and> (\<exists>es. batch_holds r' (xs @ concat (map ms es)) (ys @ concat (map cs es))
      \<and> p' = fold st es p \<and> (if stop then length es < n else es = take n (drop i msgs) \<and> i + n \<le> max i (length msgs)))) (element_loop f msgs i n r p)"
  using assms
proof (induction n arbitrary: i r p xs ys)
  case 0
  then show ?case by (auto intro: exI [of _ "[]"])
next
  case (Suc n)
  show ?case
  proof (cases "i < length msgs")
    case False
    then show ?thesis by (simp add: pb_elem_def)
  next
    case i: True
    have d: "take (Suc n) (drop i msgs) = msgs ! i # take n (drop (Suc i) msgs)"
      using i by (metis Cons_nth_drop_Suc take_Suc_Cons)
    have "outcome (\<lambda>(stop, r', p'). dwSize r' = dwSize r \<and>
        (if stop then r' = r \<and> p' = p else batch_holds r' (xs @ ms (msgs ! i)) (ys @ cs (msgs ! i)) \<and> p' = st (msgs ! i) p)) (f (msgs ! i) r p)"
      using step [OF Suc.prems(1)] Suc.prems(2) by simp
    then consider q where "f (msgs ! i) r p = Inl q" | "f (msgs ! i) r p = ok (True, r, p)"
      | r1 where "f (msgs ! i) r p = ok (False, r1, st (msgs ! i) p)" "dwSize r1 = dwSize r"
          "batch_holds r1 (xs @ ms (msgs ! i)) (ys @ cs (msgs ! i))"
      by (cases "f (msgs ! i) r p") (auto split: if_splits)
    then show ?thesis
    proof cases
      case 2
      then show ?thesis using Suc.prems(1) i by (auto simp: pb_elem_def intro: exI [of _ "[]"])
    next
      case (3 r1)
      have "length (xs @ ms (msgs ! i)) + length (ys @ cs (msgs ! i)) + n \<le> dwSize r1"
        using Suc.prems(2) one [of "msgs ! i"] 3(2) by simp
      from Suc.IH [OF 3(3) this, where i = "Suc i" and p = "st (msgs ! i) p"]
      show ?thesis using 3(1,2) i d
        by (auto simp: pb_elem_def elim!: outcome_mono split: if_splits
            intro: exI [of _ "msgs ! i # _"])
    qed (simp add: i pb_elem_def)
  qed
qed

lemma loop_faults:
  assumes "batch_holds r xs ys" "length xs + length ys + n \<le> dwSize r"
  shows "faults_in {InvalidParameter, BadRead} (element_loop f msgs i n r p)"
  using assms
proof (induction n arbitrary: i r p xs ys)
  case 0
  then show ?case by simp
next
  case (Suc n)
  have room: "length xs + length ys < dwSize r" using Suc.prems(2) by simp
  show ?case unfolding element_loop.simps
  proof (intro fault_rules, goal_cases)
    case (1 e)
    show ?case using step_faults [OF Suc.prems(1) room] .
  next
    case (3 e x stop b r' p')
    then have "dwSize r' = dwSize r" "batch_holds r' (xs @ ms e) (ys @ cs e)"
      using outcomeD [OF step [OF Suc.prems(1) room]] by auto
    with Suc.prems(2) one [of e] show ?case
      by (intro Suc.IH [where xs = "xs @ ms e" and ys = "ys @ cs e"]) simp_all
  qed simp_all
qed

end

subsection \<open>The two handlers as fillers\<close>

definition decoded :: "'a res \<Rightarrow> 'a list" where
  "decoded x = (case x of Inl _ \<Rightarrow> [] | Inr v \<Rightarrow> [v])"

definition parsed :: "ext \<Rightarrow> string \<Rightarrow> bytes \<Rightarrow> (pb \<Rightarrow> 'a list) \<Rightarrow> 'a list" where
  "parsed E ty b k = (case pb_parse E ty b of None \<Rightarrow> [] | Some x \<Rightarrow> k x)"

lemma decoded_simps [simp]: "decoded (Inr v) = [v]" "decoded (Inl q) = []"
  by (simp_all add: decoded_def)

lemma length_decoded [simp]: "length (decoded x) \<le> Suc 0"
  by (cases x) simp_all

lemma length_parsed: "(\<And>x. length (k x) \<le> Suc 0) \<Longrightarrow> length (parsed E ty b k) \<le> Suc 0"
  by (simp add: parsed_def split: option.split)

text \<open>What one element of a sync answer means: a message (type 5), a contact (type 2, wrapped
  twice), or nothing.\<close>

definition sync_msgs :: "env \<Rightarrow> pb \<Rightarrow> NewMsg list" where
  "sync_msgs V e = (if pb_int e ''type'' = 5
     then parsed (e_ext V) ''NewSyncRespMsg_'' (pb_bytes e ''msg'') (\<lambda>msg. decoded (new_msg_of V (pb_sub msg ''content''))) else [])"

definition sync_contacts :: "env \<Rightarrow> pb \<Rightarrow> ContactInfo list" where
  "sync_contacts V e = (if pb_int e ''type'' = 2
     then parsed (e_ext V) ''commonMsg'' (pb_bytes e ''msg'') (\<lambda>c.
            parsed (e_ext V) ''ContactInfo'' (pb_bytes c ''msg'') (\<lambda>info. decoded (contact_of info))) else [])"

definition sync_store :: "env \<Rightarrow> pb \<Rightarrow> proc \<Rightarrow> proc" where
  "sync_store V e p = fold (AddMsg V) (sync_msgs V e) p"

definition init_msgs :: "env \<Rightarrow> pb \<Rightarrow> NewMsg list" where
  "init_msgs V e = (if pb_int e ''type'' = 5
     then parsed (e_ext V) ''NewMsgContent_'' (pb_bytes (pb_sub e ''data'') ''data'') (\<lambda>msg. decoded (new_msg_of V msg)) else [])"

definition init_contacts :: "env \<Rightarrow> pb \<Rightarrow> ContactInfo list" where
  "init_contacts V e = (if pb_int e ''type'' = 2
     then parsed (e_ext V) ''ContactInfo'' (pb_bytes (pb_sub e ''data'') ''data'') (\<lambda>info. decoded (contact_of info)) else [])"

definition init_store :: "env \<Rightarrow> pb \<Rightarrow> proc \<Rightarrow> proc" where
  "init_store V e p = fold (AddMsg V) (init_msgs V e) (fold (insert_contact V) (init_contacts V e) p)"

lemma fold_db: "(\<And>x q. db_only q (g x q)) \<Longrightarrow> db_only p (fold g xs p)"
  by (induction xs arbitrary: p) (auto intro: db_only_trans)

lemma pushed [fault_rules]:
  assumes "batch_holds r xs ys" "length xs + length ys < dwSize r"
  shows "faults_in F (push_msg m r)" "faults_in F (push_contact c r)"
  using push_msg_holds [OF assms, of m] push_contact_holds [OF assms, of c] by auto

lemma pushed_holds:
  assumes "batch_holds r xs ys" "length xs + length ys < dwSize r"
  shows "push_msg m r = ok r' \<Longrightarrow> dwSize r' = dwSize r \<and> batch_holds r' (xs @ [m]) ys"
    "push_contact c r = ok r' \<Longrightarrow> dwSize r' = dwSize r \<and> batch_holds r' xs (ys @ [c])"
  using push_msg_holds [OF assms, of m] push_contact_holds [OF assms, of c] by auto

interpretation sync_filler: batch_filler "sync_element V" "sync_msgs V" "sync_contacts V" "sync_store V" for V
proof unfold_locales
  fix r xs ys e p
  assume b: "batch_holds r xs ys" "length xs + length ys < dwSize r"
  show "outcome (\<lambda>(stop, r', p'). dwSize r' = dwSize r \<and> (if stop then r' = r \<and> p' = p
      else batch_holds r' (xs @ sync_msgs V e) (ys @ sync_contacts V e) \<and> p' = sync_store V e p)) (sync_element V e r p)"
    unfolding sync_element_def using b
    by (intro outcome_rules) (auto simp: sync_msgs_def sync_contacts_def sync_store_def parsed_def dest!: pushed_holds [OF b])
  show "faults_in {InvalidParameter, BadRead} (sync_element V e r p)"
    unfolding sync_element_def by (intro fault_rules decode_faults pushed [OF b]) simp_all
next
  fix e show "length (sync_msgs V e) + length (sync_contacts V e) \<le> 1"
    by (auto simp: sync_msgs_def sync_contacts_def intro!: length_parsed)
next
  fix p e show "db_only p (sync_store V e p)"
    unfolding sync_store_def by (intro fold_db db_writers)
qed

interpretation init_filler: batch_filler "init_element V" "init_msgs V" "init_contacts V" "init_store V" for V
proof unfold_locales
  fix r xs ys e p
  assume b: "batch_holds r xs ys" "length xs + length ys < dwSize r"
  show "outcome (\<lambda>(stop, r', p'). dwSize r' = dwSize r \<and> (if stop then r' = r \<and> p' = p
      else batch_holds r' (xs @ init_msgs V e) (ys @ init_contacts V e) \<and> p' = init_store V e p)) (init_element V e r p)"
    unfolding init_element_def Let_def using b
    by (intro outcome_rules) (auto simp: init_msgs_def init_contacts_def init_store_def parsed_def dest!: pushed_holds [OF b])
  show "faults_in {InvalidParameter, BadRead} (init_element V e r p)"
    unfolding init_element_def Let_def by (intro fault_rules decode_faults pushed [OF b]) simp_all
next
  fix e show "length (init_msgs V e) + length (init_contacts V e) \<le> 1"
    by (auto simp: init_msgs_def init_contacts_def intro!: length_parsed)
next
  fix p e show "db_only p (init_store V e p)"
    unfolding init_store_def
    by (rule db_only_trans [where q = "fold (insert_contact V) (init_contacts V e) p"]) (intro fold_db db_writers)+
qed

section \<open>Lemmas: the handlers\<close>

lemma decrypt_faults: "faults_in {OutOfRange, NoMemory} (session_plain V p h body)"
  by (auto simp: session_plain_def aes_uncompress_def aes_nouncompress_def strip_padding_def Let_def and_then_def faults_in_def
      split: sum.splits option.splits if_splits)

lemma fold_concat_map: "fold (\<lambda>e. fold g (f e)) es p = fold g (concat (map f es)) p"
  by (induction es arbitrary: p) simp_all

lemma sync_loop:
  assumes "alloc_batch E n new_BatchResult = ok r0" "0 < n"
  shows "outcome (\<lambda>(stop, r, p'). dwSize r = nat n \<and> (\<exists>es. batch_holds r (concat (map (sync_msgs V) es)) (concat (map (sync_contacts V) es))
      \<and> p' = fold (AddMsg V) (concat (map (sync_msgs V) es)) p \<and> (\<not> stop \<longrightarrow> es = take (nat n) msgs \<and> nat n \<le> length msgs)))
    (element_loop (sync_element V) msgs 0 (nat n) r0 p)"
proof -
  have r0: "dwSize r0 = nat n" "batch_holds r0 [] []" using outcomeD [OF alloc_batch_holds(1) assms(1)] by auto
  have st: "sync_store V = (\<lambda>e. fold (AddMsg V) (sync_msgs V e))" by (simp add: sync_store_def fun_eq_iff)
  show ?thesis
    using sync_filler.loop [OF r0(2), where n = "nat n" and V = V and msgs = msgs and i = 0 and p = p] r0(1) assms(2)
    by (auto simp: st fold_concat_map elim!: outcome_mono split: if_splits)
qed

lemma sync_faults: "faults_in {InvalidParameter, BadRead, OutOfRange, NoMemory} (NewSync_Buf2Resp V inbuffer h p)"
  (is "faults_in ?F ?r")
proof -
  have al: "faults_in ?F (alloc_batch E n new_BatchResult)" for E n
    by (rule faults_in_mono [OF alloc_batch_holds(2)]) auto
  have pl: "faults_in ?F (session_plain V q g b)" for q g b
    by (rule faults_in_mono [OF decrypt_faults]) auto
  have lp: "faults_in ?F (element_loop (sync_element V) ms 0 (nat n) r q)"
    if "alloc_batch E n new_BatchResult = ok r" for E n r ms q
  proof -
    have "dwSize r = nat n" "batch_holds r [] []" using outcomeD [OF alloc_batch_holds(1) that] by auto
    then have "faults_in {InvalidParameter, BadRead} (element_loop (sync_element V) ms 0 (nat n) r q)"
      by (intro sync_filler.loop_faults [where xs = "[]" and ys = "[]"]) simp_all
    then show ?thesis by (rule faults_in_mono) auto
  qed
  show ?thesis
    unfolding NewSync_Buf2Resp_def Let_def
    by (intro fault_rules faults_in_ok [OF readers_ok(1)] al pl lp; simp)
qed

lemma sync_elements:
  assumes "alloc_batch E n new_BatchResult = ok r0" "n \<noteq> 0" "element_loop (sync_element V) msgs 0 (nat n) r0 q = ok (stop, r, p')"
  shows "\<exists>es. 0 < n \<and> dwSize r = nat n \<and> batch_holds r (concat (map (sync_msgs V) es)) (concat (map (sync_contacts V) es))
    \<and> p' = fold (AddMsg V) (concat (map (sync_msgs V) es)) q \<and> db_only q p' \<and> (\<not> stop \<longrightarrow> es = take (dwSize r) msgs \<and> length es = dwSize r)"
proof -
  have n: "0 < n" using assms(1,2) by (auto simp: alloc_batch_def new_array_def and_then_ok_iff split: if_splits)
  from outcomeD [OF sync_loop [OF assms(1) n] assms(3)] obtain es where es: "dwSize r = nat n"
    "batch_holds r (concat (map (sync_msgs V) es)) (concat (map (sync_contacts V) es))"
    "p' = fold (AddMsg V) (concat (map (sync_msgs V) es)) q"
    "\<not> stop \<longrightarrow> es = take (nat n) msgs \<and> nat n \<le> length msgs" by auto
  moreover have "db_only q p'" unfolding es(3) by (rule fold_db [OF db_writers(1)])
  ultimately show ?thesis using n by (intro exI [of _ es]) auto
qed

lemma init_faults: "faults_in {InvalidParameter, BadRead, OutOfRange, NoMemory} (NewInit_Buf2Resp V inbuffer h p)"
  (is "faults_in ?F ?r")
proof -
  have al: "faults_in ?F (alloc_batch E n new_BatchResult)" for E n
    by (rule faults_in_mono [OF alloc_batch_holds(2)]) auto
  have pl: "faults_in ?F (session_plain V q g b)" for q g b
    by (rule faults_in_mono [OF decrypt_faults]) auto
  have lp: "faults_in ?F (element_loop (init_element V) ms 0 (nat n) r q)"
    if "alloc_batch E n new_BatchResult = ok r" for E n r ms q
  proof -
    have "dwSize r = nat n" "batch_holds r [] []" using outcomeD [OF alloc_batch_holds(1) that] by auto
    then have "faults_in {InvalidParameter, BadRead} (element_loop (init_element V) ms 0 (nat n) r q)"
      by (intro init_filler.loop_faults [where xs = "[]" and ys = "[]"]) simp_all
    then show ?thesis by (rule faults_in_mono) auto
  qed
  show ?thesis
    unfolding NewInit_Buf2Resp_def Let_def
    by (intro fault_rules faults_in_ok [OF readers_ok(1)] al pl lp; simp)
qed

lemma init_elements:
  assumes "alloc_batch E n new_BatchResult = ok r0" "element_loop (init_element V) msgs 0 (nat n) r0 q = ok (stop, r, p')"
  shows "\<exists>es. batch_holds r (concat (map (init_msgs V) es)) (concat (map (init_contacts V) es)) \<and> p' = fold (init_store V) es q
    \<and> (\<not> stop \<longrightarrow> es = take (dwSize r) msgs \<and> length es = dwSize r)"
proof -
  have r0: "dwSize r0 = nat n" "batch_holds r0 [] []" using outcomeD [OF alloc_batch_holds(1) assms(1)] by auto
  from outcomeD [OF init_filler.loop [OF r0(2), where n = "nat n" and V = V and msgs = msgs and i = 0 and p = q] assms(2)] r0(1)
  obtain es where "dwSize r = dwSize r0" "batch_holds r (concat (map (init_msgs V) es)) (concat (map (init_contacts V) es))"
    "p' = fold (init_store V) es q" "\<not> stop \<longrightarrow> es = take (nat n) msgs \<and> nat n \<le> length msgs" by (auto split: if_splits)
  then show ?thesis using r0(1) by (intro exI [of _ es]) auto
qed

lemma init_outcomes:
  "outcome (\<lambda>(e, r, _, p'). \<exists>a es q. e \<in> code ` {CGI_CODE_OK, CGI_CODE_LOGIN_FAIL, CGI_CODE_UNPACK_ERR, CGI_CODE_DECRYPT_ERR, CGI_CODE_PARSE_PROTOBUF_ERR}
     \<and> batch_holds r (concat (map (init_msgs V) es)) (concat (map (init_contacts V) es)) \<and> db_only (p\<lparr> p_auth := a \<rparr>) q \<and> p' = fold (init_store V) es q)
   (NewInit_Buf2Resp V inbuffer h p)"
  (is "outcome ?P ?r")
proof -
  have plain: "?P (code c, new_BatchResult, h', p')"
    if "c \<in> {CGI_CODE_OK, CGI_CODE_LOGIN_FAIL, CGI_CODE_UNPACK_ERR, CGI_CODE_DECRYPT_ERR, CGI_CODE_PARSE_PROTOBUF_ERR}"
      "db_only (p\<lparr> p_auth := a \<rparr>) p'" for c h' p' a
    unfolding prod.case
    by (intro conjI exI [of _ a] exI [of _ "[]"] exI [of _ p'] imageI that) (simp_all add: batch_holds_def new_BatchResult_def)
  have filled: "?P (code c, r, h', p')"
    if "alloc_batch (e_ext V) n new_BatchResult = ok r0" "c \<in> {CGI_CODE_OK, CGI_CODE_PARSE_PROTOBUF_ERR}"
      "element_loop (init_element V) msgs 0 (nat n) r0 (SetSyncKey V k (p\<lparr> p_auth := a \<rparr>)) = ok (stop, r, p')"
    for n r0 msgs k a stop r p' h' c
  proof -
    from init_elements [OF that(1,3)] obtain es where es: "batch_holds r (concat (map (init_msgs V) es)) (concat (map (init_contacts V) es))"
      "p' = fold (init_store V) es (SetSyncKey V k (p\<lparr> p_auth := a \<rparr>))" by blast
    show ?thesis unfolding prod.case
      by (intro conjI exI [of _ a] exI [of _ es] exI [of _ "SetSyncKey V k (p\<lparr> p_auth := a \<rparr>)"] imageI es db_writers) (use that(2) in auto)
  qed
  show ?thesis
    unfolding NewInit_Buf2Resp_def Let_def
  proof (intro outcome_rules, goal_cases)
    case (6 x body b ha a xa resp r0 xc stop ba r pa)
    then show ?case using filled [of _ r0 CGI_CODE_PARSE_PROTOBUF_ERR _ _ a stop r pa ha] by (simp only: outcome_ok) blast
  next
    case (7 x body b ha a xa resp r0 xc stop ba r pa)
    then show ?case using filled [of _ r0 CGI_CODE_OK _ _ a stop r pa ha] by (simp only: outcome_ok) blast
  qed (simp only: outcome_ok, rule plain, simp, rule db_only_refl db_writers(2))+
qed

section \<open>Lemmas: the flags\<close>

text \<open>The two flags alone, driven by requests for a sync and by ends of report tasks.\<close>

datatype sync_event = EvRequestSync | EvReportEnd

definition flag_step :: "proc \<Rightarrow> sync_event \<Rightarrow> proc" where
  "flag_step p e = (case e of EvRequestSync \<Rightarrow> snd (IsSyncing p) | EvReportEnd \<Rightarrow> snd (IsNeedReSync p))"

text \<open>Whether the event starts a sync task.\<close>

definition flag_starts :: "proc \<Rightarrow> sync_event \<Rightarrow> bool" where
  "flag_starts p e = (case e of EvRequestSync \<Rightarrow> \<not> fst (IsSyncing p) | EvReportEnd \<Rightarrow> fst (IsNeedReSync p))"

fun flag_starts_in :: "proc \<Rightarrow> sync_event list \<Rightarrow> nat" where
  "flag_starts_in p [] = 0"
| "flag_starts_in p (e # es) = (if flag_starts p e then 1 else 0) + flag_starts_in (flag_step p e) es"

lemmas flag_defs = flag_step_def flag_starts_def IsSyncing_def IsNeedReSync_def

interpretation sync_flags: machine flag_step "\<lambda>p. s_bNeedReSync p \<longrightarrow> s_bSyncing p"
  by unfold_locales (auto simp: flag_defs split: sync_event.splits)

lemma requests_while_syncing:
  "s_bSyncing p \<Longrightarrow> flag_starts_in p (replicate n EvRequestSync) = 0
     \<and> run_events flag_step p (replicate n EvRequestSync) = (if n = 0 then p else p\<lparr> s_bNeedReSync := True \<rparr>)"
  by (induction n arbitrary: p) (auto simp: flag_defs)

lemma requests_when_idle:
  assumes "\<not> s_bSyncing p"
  shows "flag_starts_in p (replicate (Suc n) EvRequestSync) = 1
     \<and> run_events flag_step p (replicate (Suc n) EvRequestSync)
       = (if n = 0 then p\<lparr> s_bSyncing := True \<rparr> else p\<lparr> s_bSyncing := True, s_bNeedReSync := True \<rparr>)"
  using assms requests_while_syncing [of "p\<lparr> s_bSyncing := True \<rparr>" n] by (auto simp: flag_defs)

section \<open>Lemmas: the answer to a sync\<close>

definition sync_codes :: "int set" where
  "sync_codes = code ` {CGI_CODE_OK, CGI_ERR_UNKNOWN, CGI_CODE_UNPACK_ERR, CGI_CODE_DECRYPT_ERR, CGI_CODE_PARSE_PROTOBUF_ERR}"

text \<open>The message of an answer that can be read: unpacked, decrypted and parsed.\<close>

definition read_sync :: "env \<Rightarrow> bytes \<Rightarrow> hdr \<Rightarrow> proc \<Rightarrow> (auth \<times> pb) option" where
  "read_sync V inbuffer h p =
     (case UnPackHeader inbuffer h (p_auth p) of
        Inl _ \<Rightarrow> None
      | Inr (body, h, a) \<Rightarrow>
          (case session_plain V (p\<lparr> p_auth := a \<rparr>) h body of
             Inl _ \<Rightarrow> None
           | Inr plain \<Rightarrow> map_option (Pair a) (pb_parse (e_ext V) ''NewSyncResp'' plain)))"

lemma sync_answer_cases:
  "outcome (\<lambda>(e, r, _, p'). e \<in> sync_codes \<and>
     (\<exists>a es. batch_holds r (concat (map (sync_msgs V) es)) (concat (map (sync_contacts V) es)) \<and>
       (if e = 0
        then \<exists>resp. read_sync V inbuffer h p = Some (a, resp)
          \<and> (let newmsg = pb_sub resp ''newmsg''; cnt = pb_int newmsg ''cnt'';
                 stored = fold (AddMsg V) (concat (map (sync_msgs V) es)) (SetSyncKey V (pb_bytes resp ''strsynckey'') (p\<lparr> p_auth := a \<rparr>))
             in es = take (nat cnt) (pb_rep newmsg ''msg'') \<and> length es = nat cnt \<and> p' = (if cnt = 0 then stored else ReportSyncKV stored))
        else db_only (p\<lparr> p_auth := a \<rparr>) p'))) (NewSync_Buf2Resp V inbuffer h p)"
  (is "outcome ?P ?r")
proof -
  have codes: "code c \<in> sync_codes" if "c \<in> {CGI_CODE_OK, CGI_ERR_UNKNOWN, CGI_CODE_UNPACK_ERR, CGI_CODE_DECRYPT_ERR, CGI_CODE_PARSE_PROTOBUF_ERR}" for c
    using that by (auto simp: sync_codes_def)
  have empty: "batch_holds new_BatchResult (concat (map (sync_msgs V) [])) (concat (map (sync_contacts V) []))"
    by (simp add: batch_holds_def new_BatchResult_def)
  have plain: "?P (code c, new_BatchResult, h', p')"
    if "c \<in> {CGI_ERR_UNKNOWN, CGI_CODE_UNPACK_ERR, CGI_CODE_DECRYPT_ERR, CGI_CODE_PARSE_PROTOBUF_ERR}" "db_only (p\<lparr> p_auth := a \<rparr>) p'" for c h' p' a
    unfolding prod.case by (intro conjI codes exI [of _ a] exI [of _ "[]"] empty) (use that in auto)
  have filled: "?P (if stop then code CGI_CODE_PARSE_PROTOBUF_ERR else code CGI_CODE_OK, r, h', if stop then p' else ReportSyncKV p')"
    if "alloc_batch (e_ext V) n new_BatchResult = ok r0" "n \<noteq> 0" "read_sync V inbuffer h p = Some (a, resp)" "n = pb_int (pb_sub resp ''newmsg'') ''cnt''"
      "element_loop (sync_element V) (pb_rep (pb_sub resp ''newmsg'') ''msg'') 0 (nat n) r0 (SetSyncKey V (pb_bytes resp ''strsynckey'') (p\<lparr> p_auth := a \<rparr>)) = ok (stop, r, p')"
    for n r0 resp a stop r p' h'
  proof -
    from sync_elements [OF that(1,2,5)] obtain es where es: "0 < n" "dwSize r = nat n"
      "batch_holds r (concat (map (sync_msgs V) es)) (concat (map (sync_contacts V) es))"
      "p' = fold (AddMsg V) (concat (map (sync_msgs V) es)) (SetSyncKey V (pb_bytes resp ''strsynckey'') (p\<lparr> p_auth := a \<rparr>))"
      "db_only (SetSyncKey V (pb_bytes resp ''strsynckey'') (p\<lparr> p_auth := a \<rparr>)) p'"
      "\<not> stop \<longrightarrow> es = take (dwSize r) (pb_rep (pb_sub resp ''newmsg'') ''msg'') \<and> length es = dwSize r" by blast
    have db: "db_only (p\<lparr> p_auth := a \<rparr>) p'" by (rule db_only_trans [OF db_writers(2) es(5)])
    have ok: "code CGI_CODE_PARSE_PROTOBUF_ERR \<in> sync_codes" "code CGI_CODE_OK \<in> sync_codes" by (rule codes, simp)+
    show ?thesis
    proof (cases stop)
      case True
      show ?thesis unfolding prod.case if_P [OF True]
        by (intro conjI exI [of _ a] exI [of _ es] ok es(3)) (simp add: db)
    next
      case False
      then have k: "es = take (nat n) (pb_rep (pb_sub resp ''newmsg'') ''msg'')" "length es = nat n" using es(6) unfolding es(2) by blast+
      have z: "code CGI_CODE_OK = 0" by simp
      show ?thesis unfolding prod.case if_not_P [OF False] if_P [OF z]
        by (intro conjI exI [of _ a] exI [of _ es] exI [of _ resp] ok es(3) that(3))
           (unfold Let_def that(4) [symmetric] if_not_P [OF that(2)], intro conjI k arg_cong [OF es(4)])
    qed
  qed
  show "outcome ?P ?r"
    unfolding NewSync_Buf2Resp_def Let_def
  proof (intro outcome_rules, goal_cases)
    case (5 x body b ha a xa resp)
    then have "read_sync V inbuffer h p = Some (a, resp)" by (simp add: read_sync_def)
    with 5 show ?case unfolding outcome_ok prod.case
      by (intro conjI codes exI [of _ a] exI [of _ "[]"] empty) (simp_all add: Let_def)
  next
    case (6 x body b ha a xa resp r0 xc stop ba r pa)
    then have "read_sync V inbuffer h p = Some (a, resp)" by (simp add: read_sync_def)
    with 6 show ?case using filled [of "pb_int (pb_sub resp ''newmsg'') ''cnt''" r0 a resp stop r pa ha, unfolded Let_def] by (simp only: outcome_ok if_True simp_thms)
  next
    case (7 x body b ha a xa resp r0 xc stop ba r pa)
    then have "read_sync V inbuffer h p = Some (a, resp)" by (simp add: read_sync_def)
    with 7 show ?case using filled [of "pb_int (pb_sub resp ''newmsg'') ''cnt''" r0 a resp stop r pa ha, unfolded Let_def] by (simp only: outcome_ok if_False simp_thms)
  qed (simp only: outcome_ok, rule plain [unfolded Let_def], simp, rule db_only_refl db_writers(2))+
qed

section \<open>Properties\<close>

text \<open>C6: The sync handler never runs over its arrays, whatever counts the server sends: it can
  end with an exception of \<^verbatim>\<open>strcpy_s\<close>, of the allocator, of \<^verbatim>\<open>resize\<close>, or with a read behind the
  repeated field, but not with a write out of bounds. When it returns, the arrays hold exactly the
  messages and contacts decoded from the first elements of the answer, in order. With code 0 the answer was
  unpacked, decrypted and parsed, these are all the elements it announces, the sync key and then the messages, and
  nothing else, went to the database in that order, and the report to the server was started if there were
  any. With any other code nothing but the database and the session has changed.\<close>

theorem sync_answer_filed:
  "faults_in {InvalidParameter, BadRead, OutOfRange, NoMemory} (NewSync_Buf2Resp V inbuffer h p) \<and>
   outcome (\<lambda>(e, r, _, p'). e \<in> sync_codes \<and>
     (\<exists>a es. batch_holds r (concat (map (sync_msgs V) es)) (concat (map (sync_contacts V) es)) \<and>
       (if e = 0
        then \<exists>resp. read_sync V inbuffer h p = Some (a, resp)
          \<and> (let newmsg = pb_sub resp ''newmsg''; cnt = pb_int newmsg ''cnt'';
                 stored = fold (AddMsg V) (concat (map (sync_msgs V) es)) (SetSyncKey V (pb_bytes resp ''strsynckey'') (p\<lparr> p_auth := a \<rparr>))
             in es = take (nat cnt) (pb_rep newmsg ''msg'') \<and> length es = nat cnt \<and> p' = (if cnt = 0 then stored else ReportSyncKV stored))
        else db_only (p\<lparr> p_auth := a \<rparr>) p'))) (NewSync_Buf2Resp V inbuffer h p)"
  by (rule conjI [OF sync_faults sync_answer_cases])

text \<open>The two flags serialise the syncs and lose no request. Between two ends of a report at
  most one sync is started, however many requests arrive: none if a sync is under way, and the
  request is then remembered; the end of the report starts the remembered sync, and otherwise
  frees the flag.\<close>

theorem sync_flags_serialise:
  assumes "s_bNeedReSync p \<longrightarrow> s_bSyncing p"
  shows "let es = replicate n EvRequestSync; q = run_events flag_step p es; again = flag_starts q EvReportEnd
     in flag_starts_in p es = (if s_bSyncing p \<or> n = 0 then 0 else 1)
      \<and> again = (s_bNeedReSync p \<or> (if s_bSyncing p then 0 < n else 1 < n))
      \<and> s_bSyncing (flag_step q EvReportEnd) = again \<and> \<not> s_bNeedReSync (flag_step q EvReportEnd)"
proof (cases "s_bSyncing p")
  case True
  then show ?thesis using requests_while_syncing [OF True, of n] by (simp add: Let_def flag_defs)
next
  case idle: False
  show ?thesis
  proof (cases n)
    case 0
    then show ?thesis using idle assms by (simp add: Let_def flag_defs)
  next
    case (Suc k)
    then show ?thesis using requests_when_idle [OF idle, of k] idle assms by (auto simp: Let_def flag_defs)
  qed
qed

theorem sync_flags_serialise_witness:
  "let es = replicate 3 EvRequestSync; q = run_events flag_step (proc0 0) es; again = flag_starts q EvReportEnd
     in flag_starts_in (proc0 0) es = (if s_bSyncing (proc0 0) \<or> (3::nat) = 0 then 0 else 1)
      \<and> again = (s_bNeedReSync (proc0 0) \<or> (if s_bSyncing (proc0 0) then 0 < (3::nat) else 1 < (3::nat)))
      \<and> s_bSyncing (flag_step q EvReportEnd) = again \<and> \<not> s_bNeedReSync (flag_step q EvReportEnd)"
  by (rule sync_flags_serialise) (simp add: proc0_def)

end
