(* ===== verification/Contact_Tasks.thy ===== *)
theory Contact_Tasks imports Sync_Tasks begin

text \<open>
  The tasks behind the user's actions: sending a message (\<^verbatim>\<open>NewSendMsgCGITask.cpp\<close>), searching and
  fetching a contact (\<^verbatim>\<open>SearchContactCGITask.cpp\<close>, \<^verbatim>\<open>GetContactCGITask.cpp\<close>) and asking for a
  friendship (\<^verbatim>\<open>VerifyUserCGITask.cpp\<close>, which starts a second request when the server wants one).
  Their response handlers share the opening of the answer. The lemmas show the possible outcomes
  and the one follow-up request.
\<close>

section \<open>Sending a message\<close>

definition NewSend_MakeMsgReq :: "env \<Rightarrow> bytes \<Rightarrow> bytes \<Rightarrow> bytes" where
  "NewSend_MakeMsgReq V m_content m_ToId =
     (let pToid = PB [(''id'', PBytes m_ToId)];
          pInfo = PB [(''toid'', PMsg pToid), (''content'', PBytes m_content), (''unknown2'', PInt 1),
            (''utc'', PInt (sint (e_time V))), (''unknown3'', PInt 0x12345678)]
      in pb_ser (e_ext V) ''NewSendMsgRequest'' (PB [(''cnt'', PInt 1), (''info'', PMsg pInfo)]))"

definition NewSend_Req2Buf :: "env \<Rightarrow> bytes \<Rightarrow> bytes \<Rightarrow> abuf \<Rightarrow> proc \<Rightarrow> (bool \<times> abuf \<times> proc) res" where
  "NewSend_Req2Buf V m_content m_ToId outbuffer p =
     session_request V (cgi_num CGI_TYPE_NEWSENDMSG) (NewSend_MakeMsgReq V m_content m_ToId) outbuffer p"

text \<open>The answer is not read: the message is stored as sent, and the error code stays.\<close>

definition NewSend_Buf2Resp :: "env \<Rightarrow> bytes \<Rightarrow> bytes \<Rightarrow> proc \<Rightarrow> proc res" where
  "NewSend_Buf2Resp V m_content m_ToId p =
     (let msg = new_NewMsg\<lparr> utc := e_time V \<rparr> in
      and_then (set_field 1024 (m_WxId (p_auth p)) (\<lambda>v. msg\<lparr> szFrom := v \<rparr>)) (\<lambda>msg.
      and_then (set_field 1024 m_ToId (\<lambda>v. msg\<lparr> szTo := v \<rparr>)) (\<lambda>msg.
      and_then (set_field 1024 (m_WxId (p_auth p)) (\<lambda>v. msg\<lparr> szFrom := v \<rparr>)) (\<lambda>msg.
      and_then (set_field MAX_BUF m_content (\<lambda>v. msg\<lparr> nType := 1, szContent := v \<rparr>)) (\<lambda>msg.
      ok (AddMsg V msg p))))))"

section \<open>Contacts\<close>

text \<open>The login part of the three requests.\<close>

definition login_info :: "env \<Rightarrow> auth \<Rightarrow> int \<Rightarrow> pb res" where
  "login_info V a unknown3 =
     and_then (first16 (m_guid_15 a)) (\<lambda>guid.
       ok (PB [(''aeskey'', PBytes (c_str (m_Session a))), (''uin'', PInt (uint (m_uin a))), (''guid'', PBytes guid),
         (''clientver'', PInt (uint (m_ClientVersion a))), (''androidver'', PBytes (m_androidVer a)), (''unknown3'', PInt unknown3)]))"

definition SearchContact_Req2Buf :: "env \<Rightarrow> bytes \<Rightarrow> abuf \<Rightarrow> proc \<Rightarrow> (bool \<times> abuf \<times> proc) res" where
  "SearchContact_Req2Buf V m_searchName outbuffer p =
     and_then (login_info V (p_auth p) 3) (\<lambda>pLogin.
     let reqProtobuf = pb_ser (e_ext V) ''SearchContactRequest'' (PB [(''login'', PMsg pLogin),
           (''name'', PMsg (PB [(''name'', PBytes (c_str m_searchName))])), (''tag3'', PInt 0), (''tag5'', PInt 1), (''tag6'', PInt 3)])
     in session_request V (cgi_num CGI_TYPE_SEARCHCONTACT) reqProtobuf outbuffer p)"

definition GetContact_Req2Buf :: "env \<Rightarrow> bytes \<Rightarrow> abuf \<Rightarrow> proc \<Rightarrow> (bool \<times> abuf \<times> proc) res" where
  "GetContact_Req2Buf V m_searchName outbuffer p =
     and_then (login_info V (p_auth p) 3) (\<lambda>pLogin.
     let reqProtobuf = pb_ser (e_ext V) ''GetContactRequest'' (PB [(''login'', PMsg pLogin),
           (''name'', PMsg (PB [(''name'', PBytes m_searchName)])), (''tag7'', PMsg (PB [(''tag1'', PBytes [])])),
           (''tag2'', PInt 1), (''tag4'', PInt 0), (''tag6'', PInt 1), (''tag8'', PInt 0)])
     in session_request V (cgi_num CGI_TYPE_GETCONTACT) reqProtobuf outbuffer p)"

definition VerifyUser_Req2Buf :: "env \<Rightarrow> verify_members \<Rightarrow> abuf \<Rightarrow> proc \<Rightarrow> (bool \<times> abuf \<times> proc) res" where
  "VerifyUser_Req2Buf V m outbuffer p =
     and_then (login_info V (p_auth p) 0) (\<lambda>pLogin.
     let pUserName = PB ([(''tag1'', PBytes (c_str (m_userName m))), (''tag2'', PBytes []), (''tag3'', PBytes (c_str (m_v2Name m))),
           (''tag4'', PInt 0)] @ (if m_tag2 m = 1 then [(''tag5'', PBytes [])] else []) @ [(''tag8'', PInt 0), (''tag9'', PBytes [])]);
         reqProtobuf = pb_ser (e_ext V) ''VerifyUserRequest'' (PB [(''login'', PMsg pLogin), (''tag2'', PInt (m_tag2 m)), (''tag3'', PInt 1),
           (''name'', PMsg pUserName), (''content'', PBytes (if m_tag2 m = 2 then c_str (m_sayContent m) else [])),
           (''tag6'', PInt 1), (''tag7'', PBytes [0xf])])
     in session_request V (cgi_num CGI_TYPE_VERIFYUSER) reqProtobuf outbuffer p)"

section \<open>Answers\<close>

text \<open>How the three handlers open an answer: either the code they return with, or the code so far
  and the message.\<close>

datatype answer = Refused int | Parsed int pb

definition open_answer :: "env \<Rightarrow> string \<Rightarrow> bytes \<Rightarrow> hdr \<Rightarrow> proc \<Rightarrow> (answer \<times> hdr \<times> proc) res" where
  "open_answer V ty inbuffer h p =
     and_then (UnPackHeader inbuffer h (p_auth p)) (\<lambda>(body, h, a).
     let p = p\<lparr> p_auth := a \<rparr> in
     if body = [] then ok (Refused (code CGI_CODE_UNPACK_ERR), h, p)
     else if m_nDecryptType h \<noteq> 5 then ok (Refused (code CGI_CODE_DECRYPT_ERR), h, p)
     else and_then (session_plain V p h body) (\<lambda>RespProtobuf.
          let error_code = (if RespProtobuf \<noteq> [] then code CGI_CODE_OK else code CGI_ERR_UNKNOWN) in
          case pb_parse (e_ext V) ty RespProtobuf of
            None \<Rightarrow> ok (Refused (code CGI_CODE_PARSE_PROTOBUF_ERR), h, p)
          | Some resp \<Rightarrow> ok (Parsed error_code resp, h, p)))"

definition SearchContact_Buf2Resp :: "env \<Rightarrow> bytes \<Rightarrow> hdr \<Rightarrow> proc \<Rightarrow> (int \<times> SearchContactResult \<times> hdr \<times> proc) res" where
  "SearchContact_Buf2Resp V inbuffer h p =
     (let E = e_ext V; r = new_SearchContactResult in
      and_then (open_answer V ''SearchContactResponse'' inbuffer h p) (\<lambda>(ans, h, p).
      case ans of
        Refused e \<Rightarrow> ok (e, r, h, p)
      | Parsed e resp \<Rightarrow>
          (let r = r\<lparr> sc_nCode := pb_int (pb_sub resp ''tag1'') ''code'' \<rparr> in
           and_then (set_field 1024 (Utf82CStringA E (c_str (pb_bytes (pb_path resp [''tag1'', ''result'']) ''strresult''))) (\<lambda>v. r\<lparr> sc_szMsgResult := v \<rparr>)) (\<lambda>r.
           and_then (set_field 100 (Utf82CStringA E (c_str (pb_bytes (pb_sub resp ''nickname'') ''name''))) (\<lambda>v. r\<lparr> szNickName := v \<rparr>)) (\<lambda>r.
           and_then (set_field 200 (pb_bytes (pb_sub resp ''v1'') ''v1_name'') (\<lambda>v. r\<lparr> szV1_Name := v \<rparr>)) (\<lambda>r.
           and_then (set_field 200 (pb_bytes resp ''v2_name'') (\<lambda>v. r\<lparr> szV2_Name := v \<rparr>)) (\<lambda>r.
           and_then (set_field 200 (pb_bytes resp ''headicon'') (\<lambda>v. r\<lparr> szHeadIcon := v \<rparr>)) (\<lambda>r.
           ok (e, r, h, p)))))))))"

definition GetContact_Buf2Resp :: "env \<Rightarrow> bytes \<Rightarrow> hdr \<Rightarrow> proc \<Rightarrow> (int \<times> SearchContactResult \<times> hdr \<times> proc) res" where
  "GetContact_Buf2Resp V inbuffer h p =
     (let E = e_ext V; r = new_SearchContactResult in
      and_then (open_answer V ''GetContactResponse'' inbuffer h p) (\<lambda>(ans, h, p).
      case ans of
        Refused e \<Rightarrow> ok (e, r, h, p)
      | Parsed e resp \<Rightarrow>
          (let r = r\<lparr> sc_nCode := pb_int (pb_sub resp ''tag1'') ''code'' \<rparr> in
           and_then (set_field 1024 (Utf82CStringA E (c_str (pb_bytes (pb_path resp [''tag1'', ''result'']) ''strresult''))) (\<lambda>v. r\<lparr> sc_szMsgResult := v \<rparr>)) (\<lambda>r.
           and_then (set_field 200 (pb_bytes (pb_path resp [''tag3'', ''v1'']) ''v1_name'') (\<lambda>v. r\<lparr> szV1_Name := v \<rparr>)) (\<lambda>r.
           ok (e, r, h, p))))))"

text \<open>The second request, with the greeting.\<close>

definition confirm_task :: "verify_members \<Rightarrow> task" where
  "confirm_task m = (new_task (VerifyUserCGITask (m\<lparr> m_tag2 := 2 \<rparr>)))\<lparr> t_channel_select := Some ChannelType_ShortConn,
     t_cmdid := Some (cgi_num CGI_TYPE_VERIFYUSER), t_cgi := CGI_VERIFYUSER, t_cgitype := Some (cgi_num CGI_TYPE_VERIFYUSER),
     t_host := SHORTLINK_HOST \<rparr>"

definition VerifyUser_Buf2Resp :: "env \<Rightarrow> verify_members \<Rightarrow> bytes \<Rightarrow> hdr \<Rightarrow> proc \<Rightarrow> (int \<times> VerifyUserResult \<times> hdr \<times> proc) res" where
  "VerifyUser_Buf2Resp V m inbuffer h p =
     (let E = e_ext V; r = new_VerifyUserResult in
      and_then (open_answer V ''VerifyUserResponse'' inbuffer h p) (\<lambda>(ans, h, p).
      case ans of
        Refused e \<Rightarrow> ok (e, r, h, p)
      | Parsed e resp \<Rightarrow>
          (let r = r\<lparr> vu_nCode := pb_int (pb_sub resp ''tag1'') ''code'' \<rparr> in
           and_then (set_field 1024 (Utf82CStringA E (c_str (pb_bytes (pb_path resp [''tag1'', ''result'']) ''strresult''))) (\<lambda>v. r\<lparr> vu_szMsgResult := v \<rparr>)) (\<lambda>r.
           let p = (if m_tag2 m = 1 \<and> pb_int (pb_sub resp ''tag1'') ''code'' \<noteq> 0 then snd (startTask (confirm_task m) False p) else p)
           in ok (e, r, h, p)))))"

section \<open>Lemmas\<close>

definition contact_codes :: "int set" where
  "contact_codes = code ` {CGI_CODE_OK, CGI_ERR_UNKNOWN, CGI_CODE_UNPACK_ERR, CGI_CODE_DECRYPT_ERR, CGI_CODE_PARSE_PROTOBUF_ERR}"

lemma outcome_answer [outcome_rules]:
  "(\<And>e. ans = Refused e \<Longrightarrow> outcome P (f e)) \<Longrightarrow> (\<And>e r. ans = Parsed e r \<Longrightarrow> outcome P (g e r))
    \<Longrightarrow> outcome P (case ans of Refused e \<Rightarrow> f e | Parsed e r \<Rightarrow> g e r)"
  by (cases ans) simp_all

primrec answer_code :: "answer \<Rightarrow> int" where
  "answer_code (Refused e) = e"
| "answer_code (Parsed e r) = e"

lemma open_answer_outcomes:
  "outcome (\<lambda>(ans, _, p'). answer_code ans \<in> contact_codes \<and> (\<exists>a. same_login (p_auth p) a \<and> p' = p\<lparr> p_auth := a \<rparr>)) (open_answer V ty inbuffer h p)"
  unfolding open_answer_def Let_def
  by (intro outcome_rules) (auto simp: contact_codes_def dest: outcomeD [OF readers_keep_login(1)])

lemma search_outcomes:
  "outcome (\<lambda>(e, _, _, p'). e \<in> contact_codes \<and> (\<exists>a. same_login (p_auth p) a \<and> p' = p\<lparr> p_auth := a \<rparr>)) (SearchContact_Buf2Resp V inbuffer h p)"
  "outcome (\<lambda>(e, _, _, p'). e \<in> contact_codes \<and> (\<exists>a. same_login (p_auth p) a \<and> p' = p\<lparr> p_auth := a \<rparr>)) (GetContact_Buf2Resp V inbuffer h p)"
  unfolding SearchContact_Buf2Resp_def GetContact_Buf2Resp_def Let_def
  by (intro outcome_rules; force dest: outcomeD [OF open_answer_outcomes])+

text \<open>A second request is sent at most once: it carries \<^verbatim>\<open>m_tag2 = 2\<close>, and its own answer starts
  nothing.\<close>

lemma verify_outcomes:
  "outcome (\<lambda>(e, r, _, p'). e \<in> contact_codes \<and> (\<exists>a. same_login (p_auth p) a \<and>
     p' = (if m_tag2 m = 1 \<and> vu_nCode r \<noteq> 0 then snd (startTask (confirm_task m) False (p\<lparr> p_auth := a \<rparr>)) else p\<lparr> p_auth := a \<rparr>)))
   (VerifyUser_Buf2Resp V m inbuffer h p)"
  unfolding VerifyUser_Buf2Resp_def Let_def
  by (intro outcome_rules; auto simp: set_field_ok_iff new_VerifyUserResult_def dest!: outcomeD [OF open_answer_outcomes])

end
