(* ===== verification/Stn_Task.thy ===== *)
theory Stn_Task imports Prelude "HOL-Library.Multiset" begin

text \<open>
  Tasks of the network engine: \<^verbatim>\<open>mars::stn::Task\<close> with its defaults (\<^verbatim>\<open>stn.h\<close>, \<^verbatim>\<open>stn.cc\<close>), the error
  classes, the run-time record \<^verbatim>\<open>TaskProfile\<close> of a task (\<^verbatim>\<open>task_profile.h\<close>) and the timeouts computed
  for it (\<^verbatim>\<open>src/task_profile.cc\<close> with the constants of \<^verbatim>\<open>config.h\<close>). Times are the 64-bit values of
  \<^verbatim>\<open>gettickcount()\<close>, in milliseconds; \<^verbatim>\<open>size_t\<close> and \<^verbatim>\<open>unsigned long\<close> have 32 bits on the platform of the
  project. Connection details that are only logged or reported are left out of the profiles.
\<close>

type_synonym qword = "64 word"

text \<open>The value an expression of type \<^verbatim>\<open>int\<close> takes on a two's complement machine.\<close>

definition int32 :: "int \<Rightarrow> int" where
  "int32 i = sint (word_of_int i :: dword)"

section \<open>\<^verbatim>\<open>Task\<close>\<close>

definition kChannelShort :: dword where "kChannelShort = 1"
definition kChannelLong :: dword where "kChannelLong = 2"
definition kChannelBoth :: dword where "kChannelBoth = 3"

definition kChannelNormalStrategy :: int where "kChannelNormalStrategy = 0"
definition kChannelFastStrategy :: int where "kChannelFastStrategy = 1"
definition kTaskPriorityNormal :: int where "kTaskPriorityNormal = 3"

record mtask =
  mt_taskid :: dword
  mt_cmdid :: dword
  mt_channel_id :: qword
  mt_channel_select :: dword
  mt_cgi :: bytes
  mt_send_only :: bool
  mt_need_authed :: bool
  mt_limit_flow :: bool
  mt_limit_frequency :: bool
  mt_network_status_sensitive :: bool
  mt_channel_strategy :: int
  mt_priority :: int
  mt_retry_count :: int
  mt_server_process_cost :: int
  mt_total_timetout :: int
  mt_shortlink_host_list :: "bytes list"

text \<open>The constructor \<^verbatim>\<open>Task(uint32_t)\<close>.\<close>

definition new_mtask :: "dword \<Rightarrow> mtask" where
  "new_mtask taskid = \<lparr> mt_taskid = taskid, mt_cmdid = 0, mt_channel_id = 0, mt_channel_select = 0, mt_cgi = [],
     mt_send_only = False, mt_need_authed = False, mt_limit_flow = True, mt_limit_frequency = True,
     mt_network_status_sensitive = False, mt_channel_strategy = kChannelNormalStrategy, mt_priority = kTaskPriorityNormal,
     mt_retry_count = -1, mt_server_process_cost = -1, mt_total_timetout = -1, mt_shortlink_host_list = [] \<rparr>"

datatype ErrCmdType = kEctOK | kEctFalse | kEctDial | kEctDns | kEctSocket | kEctHttp | kEctNetMsgXP
  | kEctEnDecode | kEctServer | kEctLocal | kEctCanceld

primrec ect_num :: "ErrCmdType \<Rightarrow> int" where
  "ect_num kEctOK = 0"
| "ect_num kEctFalse = 1"
| "ect_num kEctDial = 2"
| "ect_num kEctDns = 3"
| "ect_num kEctSocket = 4"
| "ect_num kEctHttp = 5"
| "ect_num kEctNetMsgXP = 6"
| "ect_num kEctEnDecode = 7"
| "ect_num kEctServer = 8"
| "ect_num kEctLocal = 9"
| "ect_num kEctCanceld = 10"

definition kEctLocalTaskTimeout :: int where "kEctLocalTaskTimeout = -1"
definition kEctLocalStartTaskFail :: int where "kEctLocalStartTaskFail = -3"
definition kEctLocalAntiAvalanche :: int where "kEctLocalAntiAvalanche = -4"
definition kEctLocalChannelSelect :: int where "kEctLocalChannelSelect = -5"
definition kEctLocalNoNet :: int where "kEctLocalNoNet = -6"
definition kEctLocalReset :: int where "kEctLocalReset = -9"
definition kEctLocalTaskParam :: int where "kEctLocalTaskParam = -12"
definition kEctLocalChannelID :: int where "kEctLocalChannelID = -14"
definition kEctLongFirstPkgTimeout :: int where "kEctLongFirstPkgTimeout = -500"
definition kEctLongPkgPkgTimeout :: int where "kEctLongPkgPkgTimeout = -501"
definition kEctLongReadWriteTimeout :: int where "kEctLongReadWriteTimeout = -502"
definition kEctLongTaskTimeout :: int where "kEctLongTaskTimeout = -503"
definition kEctHttpFirstPkgTimeout :: int where "kEctHttpFirstPkgTimeout = -500"
definition kEctHttpPkgPkgTimeout :: int where "kEctHttpPkgPkgTimeout = -501"
definition kEctHttpReadWriteTimeout :: int where "kEctHttpReadWriteTimeout = -502"
definition kEctSocketMakeSocketPrepared :: int where "kEctSocketMakeSocketPrepared = -10087"

text \<open>\<^verbatim>\<open>TaskFailHandleType\<close>: what to do with a task after an error.\<close>

definition kTaskFailHandleNoError :: int where "kTaskFailHandleNoError = 0"
definition kTaskFailHandleDefault :: int where "kTaskFailHandleDefault = -1"
definition kTaskFailHandleRetryAllTasks :: int where "kTaskFailHandleRetryAllTasks = -12"
definition kTaskFailHandleSessionTimeout :: int where "kTaskFailHandleSessionTimeout = -13"
definition kTaskFailHandleTaskEnd :: int where "kTaskFailHandleTaskEnd = -14"
definition kTaskFailHandleTaskTimeout :: int where "kTaskFailHandleTaskTimeout = -15"

lemmas fail_handles = kTaskFailHandleNoError_def kTaskFailHandleDefault_def kTaskFailHandleRetryAllTasks_def
  kTaskFailHandleSessionTimeout_def kTaskFailHandleTaskEnd_def kTaskFailHandleTaskTimeout_def

text \<open>What the client answers when the engine asks for a packet that identifies the connection.\<close>

datatype IdentifyMode = kCheckNow | kCheckNext | kCheckNever

section \<open>Network kind and timing constants\<close>

datatype NetType = kNoNet | kWifi | kMobile | kOtherNet

text \<open>The constants come in a mobile and an ordinary variant.\<close>

definition by_net :: "NetType \<Rightarrow> 'a \<Rightarrow> 'a \<Rightarrow> 'a" where
  "by_net net wifi gprs = (if net \<noteq> kMobile then wifi else gprs)"

definition kPackageInterval :: "NetType \<Rightarrow> qword" where "kPackageInterval net = by_net net 8000 12000"
definition kTaskDelay :: "NetType \<Rightarrow> qword" where "kTaskDelay net = by_net net 1500 3000"
definition kMinRate :: "NetType \<Rightarrow> qword" where "kMinRate net = by_net net (12 * 1024) (4 * 1024)"
definition kBaseFirstPackageTimeout :: "NetType \<Rightarrow> qword" where "kBaseFirstPackageTimeout net = by_net net 12000 15000"
definition kMaxFirstPackageTimeout :: "NetType \<Rightarrow> qword" where "kMaxFirstPackageTimeout net = by_net net 22000 30000"
definition kDynTimeFirstPackageTimeout :: "NetType \<Rightarrow> qword" where "kDynTimeFirstPackageTimeout net = by_net net 7000 10000"
definition kMaxRecvLen :: dword where "kMaxRecvLen = 64 * 1024"
definition DEF_TASK_RETRY_COUNT :: int where "DEF_TASK_RETRY_COUNT = 1"
definition DEF_TASK_RETRY_INTERNAL :: qword where "DEF_TASK_RETRY_INTERNAL = 1000"

datatype DynamicTimeoutStatus = kEValuating | kExcellent | kBad

text \<open>\<^verbatim>\<open>1000 * _sendlen\<close> is computed in 32 bits; the rest in 64.\<close>

definition FirstPkgTimeout :: "NetType \<Rightarrow> int \<Rightarrow> dword \<Rightarrow> nat \<Rightarrow> DynamicTimeoutStatus \<Rightarrow> qword" where
  "FirstPkgTimeout net init_first_pkg_timeout sendlen send_count status =
     (if status = kExcellent \<and> init_first_pkg_timeout = 0
      then kDynTimeFirstPackageTimeout net + of_nat send_count * kTaskDelay net
      else let transfer = ucast (1000 * sendlen) div kMinRate net;
               ret = (if 0 < init_first_pkg_timeout then word_of_int init_first_pkg_timeout + transfer
                      else min (kBaseFirstPackageTimeout net + transfer) (kMaxFirstPackageTimeout net))
           in ret + of_nat send_count * kTaskDelay net)"

definition ReadWriteTimeout :: "NetType \<Rightarrow> qword \<Rightarrow> qword" where
  "ReadWriteTimeout net first_pkg_timeout = first_pkg_timeout + ucast (1000 * kMaxRecvLen) div kMinRate net"

section \<open>\<^verbatim>\<open>TaskProfile\<close>\<close>

record transfer =
  tr_loop_start_task_time :: qword
  tr_first_start_send_time :: qword
  tr_start_send_time :: qword
  tr_last_receive_pkg_time :: qword
  tr_read_write_timeout :: qword
  tr_first_pkg_timeout :: qword
  tr_send_data_size :: dword
  tr_received_size :: dword
  tr_receive_data_size :: dword

definition transfer_reset :: transfer where
  "transfer_reset = \<lparr> tr_loop_start_task_time = 0, tr_first_start_send_time = 0, tr_start_send_time = 0,
     tr_last_receive_pkg_time = 0, tr_read_write_timeout = 0, tr_first_pkg_timeout = 0, tr_send_data_size = 0,
     tr_received_size = 0, tr_receive_data_size = 0 \<rparr>"

definition ComputeTaskTimeout :: "mtask \<Rightarrow> qword" where
  "ComputeTaskTimeout t =
     (let readwritetimeout = (if 0 < mt_server_process_cost t then word_of_int (int32 (mt_server_process_cost t + 15 * 1000)) else 15 * 1000);
          trycount = (if 0 \<le> mt_retry_count t then mt_retry_count t else 0) + 1;
          task_timeout = (readwritetimeout + 5 * 1000) * word_of_int trycount
      in if 0 < mt_total_timetout t \<and> word_of_int (mt_total_timetout t) < task_timeout
         then word_of_int (mt_total_timetout t) else task_timeout)"

text \<open>\<open>tp_running_id\<close> is 0, 1 on the long link, or the number of the short link's worker.\<close>

record task_profile =
  tp_task :: mtask
  tp_transfer :: transfer
  tp_running_id :: nat
  tp_task_timeout :: qword
  tp_start_task_time :: qword
  tp_retry_start_time :: qword
  tp_remain_retry_count :: int
  tp_last_failed_dyntime_status :: "DynamicTimeoutStatus option"
  tp_current_dyntime_status :: "DynamicTimeoutStatus option"
  tp_antiavalanche_checked :: bool
  tp_use_proxy :: bool
  tp_retry_time_interval :: qword
  tp_history :: "transfer list"

definition new_profile :: "qword \<Rightarrow> mtask \<Rightarrow> task_profile" where
  "new_profile now t = \<lparr> tp_task = t, tp_transfer = transfer_reset, tp_running_id = 0, tp_task_timeout = ComputeTaskTimeout t,
     tp_start_task_time = now, tp_retry_start_time = 0, tp_remain_retry_count = mt_retry_count t,
     tp_last_failed_dyntime_status = None, tp_current_dyntime_status = None, tp_antiavalanche_checked = False,
     tp_use_proxy = False, tp_retry_time_interval = 0, tp_history = [] \<rparr>"

definition InitSendParam :: "task_profile \<Rightarrow> task_profile" where
  "InitSendParam p = p\<lparr> tp_transfer := transfer_reset, tp_running_id := 0 \<rparr>"

definition PushHistory :: "task_profile \<Rightarrow> task_profile" where
  "PushHistory p = p\<lparr> tp_history := tp_history p @ [tp_transfer p] \<rparr>"

definition SetLastFailedStatus :: "task_profile \<Rightarrow> task_profile" where
  "SetLastFailedStatus p =
     (if tp_remain_retry_count p > 0 then p\<lparr> tp_last_failed_dyntime_status := tp_current_dyntime_status p \<rparr> else p)"

text \<open>\<^verbatim>\<open>lst_cmd_.push_back(task); lst_cmd_.sort(__CompareTask)\<close>: \<^verbatim>\<open>std::list::sort\<close> is stable.\<close>

definition CompareTask :: "mtask \<Rightarrow> mtask \<Rightarrow> bool" where
  "CompareTask a b \<longleftrightarrow> mt_priority a < mt_priority b"

definition queue_task :: "task_profile \<Rightarrow> task_profile list \<Rightarrow> task_profile list" where
  "queue_task p ps = sort_key (\<lambda>q. mt_priority (tp_task q)) (ps @ [p])"

definition prof_id :: "task_profile \<Rightarrow> dword" where
  "prof_id p = mt_taskid (tp_task p)"

section \<open>Lemmas\<close>

lemma int32_id: "- (2 ^ 31) \<le> i \<Longrightarrow> i < 2 ^ 31 \<Longrightarrow> int32 i = i"
  by (simp add: int32_def signed_of_int signed_take_bit_int_eq_self)

lemma unat_word_of_int: "0 \<le> i \<Longrightarrow> i < 2 ^ 64 \<Longrightarrow> unat (word_of_int i :: qword) = nat i"
  by (simp add: unsigned_of_int take_bit_int_eq_self)

lemma prof_id_simps [simp]:
  "prof_id (InitSendParam p) = prof_id p" "prof_id (PushHistory p) = prof_id p"
  "prof_id (SetLastFailedStatus p) = prof_id p" "prof_id (new_profile now t) = mt_taskid t"
  by (simp_all add: prof_id_def InitSendParam_def PushHistory_def SetLastFailedStatus_def new_profile_def)

lemma mset_queue_task: "mset (map f (queue_task p ps)) = mset (map f ps) + {# f p #}"
  by (simp add: queue_task_def)

end
