(* ===== verification/Service.thy ===== *)
theory Service imports Contact_Tasks Stn_Task begin

text \<open>
  \<^verbatim>\<open>Wrapper/NetworkService.cpp\<close>, which connects the tasks with the network layer and the UI; the
  callbacks of \<^verbatim>\<open>PublicComponentV2/stn_callback.cpp\<close>, which forward to it; and the functions of
  \<^verbatim>\<open>interface.cpp\<close>, which the UI calls to start tasks. The virtual calls \<^verbatim>\<open>CGITask::Req2Buf\<close> and
  \<^verbatim>\<open>CGITask::Buf2Resp\<close> are the two dispatch functions. The lemmas describe what each entry point does
  to the task table and to the list of started tasks.
\<close>

section \<open>Virtual calls\<close>

definition known :: "env \<Rightarrow> dword option \<Rightarrow> dword" where
  "known V m = (case m of None \<Rightarrow> e_uninit V | Some v \<Rightarrow> v)"

definition task_Req2Buf :: "env \<Rightarrow> task \<Rightarrow> abuf \<Rightarrow> proc \<Rightarrow> (bool \<times> task \<times> abuf \<times> proc) res" where
  "task_Req2Buf V t outbuffer p =
     (let keep = (\<lambda>(b, out, p). ok (b, t, out, p)) in
      case t_class t of
        ManualAuthCGITask m \<Rightarrow> and_then (ManualAuth_Req2Buf V (known V (t_cgitype t)) m outbuffer p)
          (\<lambda>(b, m, out, p). ok (b, t\<lparr> t_class := ManualAuthCGITask m \<rparr>, out, p))
      | BindCGITask m \<Rightarrow> and_then (Bind_Req2Buf V (known V (t_cgitype t)) m outbuffer p)
          (\<lambda>(b, m, out, p). ok (b, t\<lparr> t_class := BindCGITask m \<rparr>, out, p))
      | NewSyncCGITask \<Rightarrow> and_then (NewSync_Req2Buf V outbuffer p) keep
      | NewInitCGITask \<Rightarrow> and_then (NewInit_Req2Buf V (known V (t_cmdid t)) outbuffer p) keep
      | NewSendCGITask content to \<Rightarrow> and_then (NewSend_Req2Buf V content to outbuffer p) keep
      | SearchContactCGITask name \<Rightarrow> and_then (SearchContact_Req2Buf V name outbuffer p) keep
      | GetContactCGITask name \<Rightarrow> and_then (GetContact_Req2Buf V name outbuffer p) keep
      | VerifyUserCGITask m \<Rightarrow> and_then (VerifyUser_Req2Buf V m outbuffer p) keep
      | ReportSyncKVCGITask \<Rightarrow> and_then (ReportSyncKV_Req2Buf V outbuffer p) keep)"

text \<open>The new code, and the task with its result and header members.\<close>

definition task_Buf2Resp :: "env \<Rightarrow> task \<Rightarrow> bytes \<Rightarrow> int \<Rightarrow> proc \<Rightarrow> (int \<times> task \<times> proc) res" where
  "task_Buf2Resp V t inbuffer error_code p =
     (let h = t_hdr t in
      case t_class t of
        ManualAuthCGITask m \<Rightarrow> and_then (ManualAuth_Buf2Resp V m inbuffer h p) (\<lambda>(e, r, h, p). ok (e, t\<lparr> m_res := ResLogin r, t_hdr := h \<rparr>, p))
      | BindCGITask m \<Rightarrow> and_then (Bind_Buf2Resp V m inbuffer h p) (\<lambda>(e, r, h, p). ok (e, t\<lparr> m_res := ResMobile r, t_hdr := h \<rparr>, p))
      | NewSyncCGITask \<Rightarrow> and_then (NewSync_Buf2Resp V inbuffer h p) (\<lambda>(e, r, h, p). ok (e, t\<lparr> m_res := ResSync r, t_hdr := h \<rparr>, p))
      | NewInitCGITask \<Rightarrow> and_then (NewInit_Buf2Resp V inbuffer h p) (\<lambda>(e, r, h, p). ok (e, t\<lparr> m_res := ResInit r, t_hdr := h \<rparr>, p))
      | NewSendCGITask content to \<Rightarrow> and_then (NewSend_Buf2Resp V content to p) (\<lambda>p. ok (error_code, t, p))
      | SearchContactCGITask _ \<Rightarrow> and_then (SearchContact_Buf2Resp V inbuffer h p) (\<lambda>(e, r, h, p). ok (e, t\<lparr> m_res := ResSearch r, t_hdr := h \<rparr>, p))
      | GetContactCGITask _ \<Rightarrow> and_then (GetContact_Buf2Resp V inbuffer h p) (\<lambda>(e, r, h, p). ok (e, t\<lparr> m_res := ResSearch r, t_hdr := h \<rparr>, p))
      | VerifyUserCGITask m \<Rightarrow> and_then (VerifyUser_Buf2Resp V m inbuffer h p) (\<lambda>(e, r, h, p). ok (e, t\<lparr> m_res := ResVerify r, t_hdr := h \<rparr>, p))
      | ReportSyncKVCGITask \<Rightarrow> ok (error_code, t, p))"

section \<open>\<^verbatim>\<open>interface.cpp\<close>\<close>

definition short_task :: "task_class \<Rightarrow> CGI_TYPE \<Rightarrow> bytes \<Rightarrow> task" where
  "short_task c ty cgi = (new_task c)\<lparr> t_channel_select := Some ChannelType_ShortConn, t_cmdid := Some (cgi_num ty),
     t_cgitype := Some (cgi_num ty), t_cgi := cgi, t_host := SHORTLINK_HOST \<rparr>"

definition setCgiCallBack :: "proc \<Rightarrow> proc" where
  "setCgiCallBack p = p\<lparr> p_cgiCallBack := True \<rparr>"

definition Login :: "bytes \<Rightarrow> bytes \<Rightarrow> proc \<Rightarrow> dword \<times> proc" where
  "Login user pwd p =
     startTask ((new_task (ManualAuthCGITask \<lparr> m_strUserName = user, m_strPwd = pwd, m_strAesKey = [],
         m_strLocalEcdhPubKey = [], m_strLocalEcdhPriKey = [], m_nid = ECDH_NID \<rparr>))
       \<lparr> t_channel_select := Some ChannelType_LongConn, t_cmdid := Some (cmd_id MANUALAUTH),
         t_cgitype := Some (cgi_num CGI_TYPE_MANUALAUTH), t_cgi := CGI_MANUALAUTH, t_host := SHORTLINK_HOST \<rparr>) False p"

definition RecvMobileVerifyCode :: "proc \<Rightarrow> proc" where
  "RecvMobileVerifyCode p =
     snd (startTask (short_task (BindCGITask \<lparr> m_strPhoneNum = m_mobileNum (p_auth p), m_strAuthTicket = m_mobilecode_authticket (p_auth p),
       m_nOptionType = 10, m_strVerifyCode = [], b_strAesKey = [] \<rparr>) CGI_TYPE_BIND CGI_BIND) False p)"

definition SendMobileVerifyCode :: "bytes \<Rightarrow> proc \<Rightarrow> dword \<times> proc" where
  "SendMobileVerifyCode verifycode p =
     startTask (short_task (BindCGITask \<lparr> m_strPhoneNum = m_mobileNum (p_auth p), m_strAuthTicket = m_mobilecode_authticket (p_auth p),
       m_nOptionType = 11, m_strVerifyCode = verifycode, b_strAesKey = [] \<rparr>) CGI_TYPE_BIND CGI_BIND) False p"

definition IsNeedVerify :: "bytes \<Rightarrow> proc \<Rightarrow> proc" where
  "IsNeedVerify MobileNum p =
     snd (startTask (short_task (BindCGITask \<lparr> m_strPhoneNum = MobileNum, m_strAuthTicket = [],
       m_nOptionType = 13, m_strVerifyCode = [], b_strAesKey = [] \<rparr>) CGI_TYPE_BIND CGI_BIND) False p)"

definition NewInit :: "proc \<Rightarrow> dword \<times> proc" where
  "NewInit p = startTask (short_task NewInitCGITask CGI_TYPE_NEWINIT CGI_NEWINIT) False p"

text \<open>\<^verbatim>\<open>NewSendMsg\<close> leaves \<^verbatim>\<open>cgitype_\<close> unassigned.\<close>

definition NewSendMsg :: "bytes \<Rightarrow> bytes \<Rightarrow> proc \<Rightarrow> proc" where
  "NewSendMsg content toWxid p =
     snd (startTask ((short_task (NewSendCGITask content toWxid) CGI_TYPE_NEWSENDMSG CGI_NEWSENDMSG)\<lparr> t_cgitype := None \<rparr>) False p)"

definition NewSync_task :: task where
  "NewSync_task = (new_task NewSyncCGITask)\<lparr> t_channel_select := Some ChannelType_LongConn, t_cmdid := Some (cmd_id SEND_NEWSYNC_CMDID),
     t_cgi := CGI_NEWSYNC, t_cgitype := Some (cgi_num CGI_TYPE_NEWSYNC), t_host := SHORTLINK_HOST \<rparr>"

definition NewSync :: "proc \<Rightarrow> proc" where
  "NewSync p = (let (syncing, p) = IsSyncing p in if syncing then p else snd (startTask NewSync_task False p))"

definition SearchContact :: "bytes \<Rightarrow> proc \<Rightarrow> proc" where
  "SearchContact szName p = snd (startTask (short_task (SearchContactCGITask szName) CGI_TYPE_SEARCHCONTACT CGI_SEARCHCONTACT) False p)"

definition AddNewFriend :: "bytes \<Rightarrow> bytes \<Rightarrow> bytes \<Rightarrow> proc \<Rightarrow> proc" where
  "AddNewFriend szUserName szV2Name szGreeting p =
     snd (startTask (short_task (VerifyUserCGITask \<lparr> m_userName = szUserName, m_v2Name = szV2Name, m_sayContent = szGreeting, m_tag2 = 1 \<rparr>)
       CGI_TYPE_VERIFYUSER CGI_VERIFYUSER) False p)"

text \<open>\<^verbatim>\<open>MicroChat-%08x.db\<close>.\<close>

definition db_file_name :: "dword \<Rightarrow> ushort list" where
  "db_file_name uin = wlit ''MicroChat-'' @ map (\<lambda>i. ucast (hex_char (ucast (drop_bit (4 * i) uin AND 15)))) (rev [0..<8]) @ wlit ''.db''"

definition LoadFromDB :: "env \<Rightarrow> proc \<Rightarrow> proc res" where
  "LoadFromDB V p =
     (let p = p\<lparr> p_db := Init (e_sql V) (CreateTable (e_sql V)) (UnicodeToUtf8 (e_ext V) (db_file_name (m_uin (p_auth p)))) (p_db p) \<rparr>
      in and_then (GetSyncKey V p) (\<lambda>(strSync, p).
         if strSync = [] then ok (snd (NewInit (ClearDB V p)))
         else and_then (LoadContact V p) (LoadMsgRecord V)))"

text \<open>\<^verbatim>\<open>SafeFree\<close> deletes its argument only when it is null: nothing is freed. The argument is \<open>True\<close> for
  a null pointer; the result says whether memory was freed.\<close>

definition SafeFree :: "bool \<Rightarrow> bool" where
  "SafeFree isnull = (let deletes = isnull in deletes \<and> \<not> isnull)"

section \<open>\<^verbatim>\<open>NetworkService\<close>\<close>

definition NS_Req2Buf :: "env \<Rightarrow> dword \<Rightarrow> abuf \<Rightarrow> proc \<Rightarrow> (bool \<times> abuf \<times> proc) res" where
  "NS_Req2Buf V tid outbuffer p =
     (case map_task p tid of
        None \<Rightarrow> ok (False, outbuffer, p)
      | Some t \<Rightarrow> and_then (task_Req2Buf V t outbuffer p) (\<lambda>(b, t, out, p). ok (b, out, p\<lparr> map_task := (map_task p)(tid \<mapsto> t) \<rparr>)))"

text \<open>\<open>error_code\<close> is the network layer's variable that the task overwrites. The task object is changed
  in place: the table shows the change unless a task started meanwhile took over its id.\<close>

definition NS_Buf2Resp :: "env \<Rightarrow> dword \<Rightarrow> bytes \<Rightarrow> int \<Rightarrow> proc \<Rightarrow> (int \<times> int \<times> proc) res" where
  "NS_Buf2Resp V tid inbuffer error_code p =
     (case map_task p tid of
        None \<Rightarrow> ok (kTaskFailHandleNoError, error_code, p)
      | Some t0 \<Rightarrow> and_then (task_Buf2Resp V t0 inbuffer error_code p) (\<lambda>(e, t, p).
          let p = p\<lparr> map_task := (if map_task p tid = Some t0 then (map_task p)(tid \<mapsto> t) else map_task p) \<rparr>
          in and_then (DoCallBack V (m_res t) (t_cgitype t) (t_taskid t) e p) (\<lambda>p. ok (kTaskFailHandleNoError, e, p))))"

definition NS_OnTaskEnd :: "env \<Rightarrow> dword \<Rightarrow> proc \<Rightarrow> proc" where
  "NS_OnTaskEnd V tid p =
     (let cmdid = (case map_task p tid of None \<Rightarrow> 0 | Some t \<Rightarrow> known V (t_cmdid t));
          p = p\<lparr> map_task := (map_task p)(tid := None) \<rparr>
      in if cmd_id SEND_SYNC_SUCCESS = cmdid
         then let (again, p) = IsNeedReSync p in if again then snd (startTask NewSync_task False p) else p
         else p)"

definition NS_OnPush :: "env \<Rightarrow> proc \<Rightarrow> proc res" where
  "NS_OnPush V p = and_then (GetSyncKey V p) (\<lambda>(k, p). ok (if k \<noteq> [] then NewSync p else p))"

text \<open>The request that would confirm the long link is behind an unconditional return.\<close>

definition GetLonglinkIdentifyCheckBuffer :: "abuf \<Rightarrow> abuf \<Rightarrow> int \<Rightarrow> IdentifyMode \<times> abuf \<times> abuf \<times> int" where
  "GetLonglinkIdentifyCheckBuffer identify_buffer buffer_hash cmdid = (kCheckNever, identify_buffer, buffer_hash, cmdid)"

definition OnLonglinkIdentifyResponse :: "bytes \<Rightarrow> bytes \<Rightarrow> bool" where
  "OnLonglinkIdentifyResponse response hash = True"

definition RequestSync :: "proc \<Rightarrow> proc" where
  "RequestSync p = NewSync p"

definition MakesureAuthed :: bool where "MakesureAuthed = True"

definition OnNewDns :: "bytes \<Rightarrow> bytes list" where "OnNewDns host = []"

end
