(* ===== verification/Ui_Callback.thy ===== *)
theory Ui_Callback imports Service begin

text \<open>
  \<^verbatim>\<open>MicroChat/business/callback.cpp\<close>: what the UI does when a task has ended. Messages to the windows
  are appended to \<open>p_posts\<close>; \<^verbatim>\<open>ForceQuit\<close>, which shows a box and terminates the process, is the post
  \<open>FORCE_QUIT\<close>. A result pointer of the wrong type, or one no one assigned, is read as \<open>BadRead\<close>. The
  lemmas show that a batch filled by the tasks reaches the window completely and in order.
\<close>

section \<open>Errors\<close>

definition post :: "ui_post \<Rightarrow> proc \<Rightarrow> proc" where
  "post m p = p\<lparr> p_posts := p_posts p @ [m] \<rparr>"

definition HandleCallBackError :: "cgi_result \<Rightarrow> int \<Rightarrow> proc \<Rightarrow> proc" where
  "HandleCallBackError result nCode p =
     (if nCode = code CGI_CODE_LOGIN_NEED_SCAN_QRCODE then post (WM_LOGIN_SCAN_QRCODE result nCode) p
      else if nCode = code CGI_CODE_LOGIN_NEED_MOBILE_MSG then RecvMobileVerifyCode p
      else if nCode = code CGI_CODE_LOGIN_FAIL then post (WM_SHOW_LOGIN_RESULT result nCode) p
      else if nCode \<in> {code CGI_CODE_NETWORK_ERR, code CGI_CODE_DECRYPT_ERR, code CGI_CODE_PARSE_PROTOBUF_ERR, code CGI_CODE_UNPACK_ERR,
             code CGI_CODE_LOGIN_ECDH_ERR, code CGI_CODE_LOGIN_SCAN_QRCODE_ERR, code CGI_ERR_UNKNOWN} then post (FORCE_QUIT nCode) p
      else p)"

section \<open>Results\<close>

definition LoginCallBack :: "LoginResult \<Rightarrow> proc \<Rightarrow> proc res" where
  "LoginCallBack res p =
     and_then (set_field 100 (szWxid res) (\<lambda>v. p\<lparr> g_dwUin := dwUin res, g_wxid := v \<rparr>)) (\<lambda>p. ok (post WM_LOGIN_SUCC p))"

text \<open>Reading a slot of a pointer array.\<close>

definition slot :: "'a option list \<Rightarrow> nat \<Rightarrow> 'a res" where
  "slot xs i = (if i < length xs then (case xs ! i of None \<Rightarrow> crash BadRead | Some x \<Rightarrow> ok x) else crash BadRead)"

fun for_slots :: "('a \<Rightarrow> proc \<Rightarrow> proc) \<Rightarrow> 'a option list \<Rightarrow> nat \<Rightarrow> nat \<Rightarrow> proc \<Rightarrow> proc res" where
  "for_slots f xs i 0 p = ok p"
| "for_slots f xs i (Suc n) p = and_then (slot xs i) (\<lambda>x. for_slots f xs (Suc i) n (f x p))"

text \<open>The loop that clears the unused slots writes to every slot up to \<^verbatim>\<open>dwSize\<close>.\<close>

definition clear_rest :: "'a option list \<Rightarrow> nat \<Rightarrow> nat \<Rightarrow> unit res" where
  "clear_rest xs used n = (if used < n \<and> length xs < n then crash BufferOverrun else ok ())"

definition is_chatter :: "NewMsg \<Rightarrow> bool" where
  "is_chatter m \<longleftrightarrow> (nType m = 10002 \<or> nType m = 9999) \<and> szFrom m = lit ''weixin''"

definition show_batch :: "BatchResult \<Rightarrow> proc \<Rightarrow> proc res" where
  "show_batch res p =
     and_then (if dwContanct res = 0 then ok p
               else and_then (for_slots (\<lambda>c. post (WM_MAIN_ADD_FRIEND c)) (ppContanct res) 0 (dwContanct res) p) (\<lambda>p.
                    and_then (clear_rest (ppContanct res) (dwContanct res) (dwSize res)) (\<lambda>_. ok p))) (\<lambda>p.
     if dwNewMsg res = 0 then ok p
     else and_then (for_slots (\<lambda>m. if is_chatter m then id else post (WM_MAIN_ADD_NEW_MSG m)) (ppNewMsg res) 0 (dwNewMsg res) p) (\<lambda>p.
          and_then (clear_rest (ppNewMsg res) (dwNewMsg res) (dwSize res)) (\<lambda>_. ok p)))"

definition NewInitCallBack :: "BatchResult \<Rightarrow> proc \<Rightarrow> proc res" where
  "NewInitCallBack res p = and_then (show_batch res p) (\<lambda>p. ok (NewSync p))"

definition NewSyncCallBack :: "BatchResult \<Rightarrow> proc \<Rightarrow> proc res" where
  "NewSyncCallBack res p = show_batch res p"

definition MobileVerifyCallBack :: "cgi_result \<Rightarrow> proc \<Rightarrow> proc" where
  "MobileVerifyCallBack res p = post (WM_MOBILE_VERIFY res) p"

definition SearchContactCallBack :: "cgi_result \<Rightarrow> proc \<Rightarrow> proc" where
  "SearchContactCallBack res p = post (WM_FRIEND_SEARCH_CONTACT res) p"

definition AddNewFriendCallBack :: "cgi_result \<Rightarrow> proc \<Rightarrow> proc" where
  "AddNewFriendCallBack res p = post (WM_FRIEND_ADD_NEW_FRIEND res) p"

text \<open>\<open>u\<close> is what an unassigned \<^verbatim>\<open>cgitype_\<close> holds.\<close>

definition SDKCallBack :: "dword \<Rightarrow> cgi_result \<Rightarrow> dword option \<Rightarrow> dword option \<Rightarrow> int \<Rightarrow> proc \<Rightarrow> proc res" where
  "SDKCallBack u result nCgiType nTaskId nCode p =
     (if nCode \<noteq> 0 then ok (HandleCallBackError result nCode p)
      else let ty = (case nCgiType of None \<Rightarrow> u | Some c \<Rightarrow> c) in
        if ty = cgi_num CGI_TYPE_MANUALAUTH then (case result of ResLogin r \<Rightarrow> LoginCallBack r p | _ \<Rightarrow> crash BadRead)
        else if ty = cgi_num CGI_TYPE_BIND then ok (MobileVerifyCallBack result p)
        else if ty = cgi_num CGI_TYPE_NEWINIT then (case result of ResInit r \<Rightarrow> NewInitCallBack r p | _ \<Rightarrow> crash BadRead)
        else if ty = cgi_num CGI_TYPE_NEWSYNC then (case result of ResSync r \<Rightarrow> NewSyncCallBack r p | _ \<Rightarrow> crash BadRead)
        else if ty = cgi_num CGI_TYPE_SEARCHCONTACT then ok (SearchContactCallBack result p)
        else if ty = cgi_num CGI_TYPE_VERIFYUSER then ok (AddNewFriendCallBack result p)
        else ok p)"

section \<open>Lemmas\<close>

lemma for_slots_take:
  assumes "take n (drop i xs) = map Some ys" "i + n \<le> length xs"
  shows "for_slots f xs i n p = ok (fold f ys p)"
  using assms
proof (induction n arbitrary: i ys p)
  case 0
  then show ?case by simp
next
  case (Suc n)
  have "i < length xs" using Suc.prems(2) by simp
  then have d: "take (Suc n) (drop i xs) = xs ! i # take n (drop (Suc i) xs)"
    by (metis Cons_nth_drop_Suc take_Suc_Cons)
  with Suc.prems(1) obtain y ys' where ys: "ys = y # ys'" "xs ! i = Some y" "take n (drop (Suc i) xs) = map Some ys'"
    by (cases ys) auto
  then show ?case using Suc.IH [OF ys(3)] Suc.prems(2) by (simp add: slot_def)
qed

lemma fold_post: "fold (\<lambda>x. if c x then id else post (g x)) xs p = p\<lparr> p_posts := p_posts p @ map g (filter (\<lambda>x. \<not> c x) xs) \<rparr>"
  by (induction xs arbitrary: p) (simp_all add: post_def)

lemma fold_post_all: "fold (\<lambda>x. post (g x)) xs p = p\<lparr> p_posts := p_posts p @ map g xs \<rparr>"
  by (induction xs arbitrary: p) (simp_all add: post_def)

lemma show_batch_holds:
  assumes "batch_holds r xs ys"
  shows "show_batch r p = ok (p\<lparr> p_posts := p_posts p @ map WM_MAIN_ADD_FRIEND ys @ map WM_MAIN_ADD_NEW_MSG (filter (\<lambda>m. \<not> is_chatter m) xs) \<rparr>)"
proof -
  have c: "for_slots f (ppContanct r) 0 (length ys) q = ok (fold f ys q)" for f q
    by (rule for_slots_take) (use assms in \<open>auto simp: batch_holds_def\<close>)
  have m: "for_slots f (ppNewMsg r) 0 (length xs) q = ok (fold f xs q)" for f q
    by (rule for_slots_take) (use assms in \<open>auto simp: batch_holds_def\<close>)
  show ?thesis
    using assms by (auto simp: show_batch_def c m fold_post fold_post_all clear_rest_def batch_holds_def)
qed

section \<open>Properties\<close>

text \<open>A batch whose arrays hold the messages \<open>xs\<close> and the contacts \<open>ys\<close> reaches the window
  completely and in order, contacts first, without the chatter of the account \<^verbatim>\<open>weixin\<close>, and without
  reading an unassigned slot; the callback of the first synchronisation then asks for a sync.\<close>

theorem ui_shows_batch:
  assumes "batch_holds r xs ys"
  shows "let q = p\<lparr> p_posts := p_posts p @ map WM_MAIN_ADD_FRIEND ys @ map WM_MAIN_ADD_NEW_MSG (filter (\<lambda>m. \<not> is_chatter m) xs) \<rparr>
     in SDKCallBack u (ResSync r) (Some (cgi_num CGI_TYPE_NEWSYNC)) tid 0 p = ok q
      \<and> SDKCallBack u (ResInit r) (Some (cgi_num CGI_TYPE_NEWINIT)) tid 0 p = ok (NewSync q)"
  using show_batch_holds [OF assms, of p] by (simp add: SDKCallBack_def NewSyncCallBack_def NewInitCallBack_def)

definition sample_msg :: "bytes \<Rightarrow> int \<Rightarrow> NewMsg" where
  "sample_msg from ty = new_NewMsg\<lparr> szFrom := from, nType := ty \<rparr>"

definition sample_batch :: BatchResult where
  "sample_batch = \<lparr> ppContanct = [Some new_ContactInfo, None, None], dwContanct = 1,
     ppNewMsg = [Some (sample_msg (lit ''bob'') 1), Some (sample_msg (lit ''weixin'') 9999), None], dwNewMsg = 2, dwSize = 3 \<rparr>"

theorem ui_shows_batch_witness:
  "let q = (proc0 0)\<lparr> p_posts := [WM_MAIN_ADD_FRIEND new_ContactInfo, WM_MAIN_ADD_NEW_MSG (sample_msg (lit ''bob'') 1)] \<rparr>
     in SDKCallBack 7 (ResSync sample_batch) (Some (cgi_num CGI_TYPE_NEWSYNC)) None 0 (proc0 0) = ok q
      \<and> SDKCallBack 7 (ResInit sample_batch) (Some (cgi_num CGI_TYPE_NEWINIT)) None 0 (proc0 0) = ok (NewSync q)"
proof -
  have "batch_holds sample_batch [sample_msg (lit ''bob'') 1, sample_msg (lit ''weixin'') 9999] [new_ContactInfo]"
    by (simp add: batch_holds_def sample_batch_def)
  from ui_shows_batch [OF this, of "proc0 0" 7 None] show ?thesis
    by (simp add: is_chatter_def sample_msg_def new_NewMsg_def lit_def proc0_def)
qed

end
