(* ===== verification/Client.thy ===== *)
theory Client imports Ui_Callback begin

text \<open>
  The whole client as an event-driven process: calls of the UI, requests and answers of the network
  layer, ends of tasks, pushes and the timer. An answer is followed at once by the end of its task, as
  the network layer does in one go. The lemmas follow the message sync across \<^verbatim>\<open>interface.cpp\<close>,
  \<^verbatim>\<open>NewSyncCGITask.cpp\<close>, \<^verbatim>\<open>ReportSyncKVCGITask.cpp\<close>, \<^verbatim>\<open>NetworkService.cpp\<close> and the UI callback: at most
  one sync or report is under way, and a sync that ends without its report blocks every later one.
\<close>

section \<open>Events\<close>

datatype api_call = ApiLogin bytes bytes | ApiSendCode bytes | ApiRecvCode | ApiNeedVerify bytes | ApiLoadFromDB | ApiNewInit
  | ApiSendMsg bytes bytes | ApiSync | ApiSearch bytes | ApiAddFriend bytes bytes bytes

definition api :: "env \<Rightarrow> api_call \<Rightarrow> proc \<Rightarrow> proc res" where
  "api V c p =
     (case c of
        ApiLogin user pwd \<Rightarrow> ok (snd (Login user pwd p))
      | ApiSendCode s \<Rightarrow> ok (snd (SendMobileVerifyCode s p))
      | ApiRecvCode \<Rightarrow> ok (RecvMobileVerifyCode p)
      | ApiNeedVerify n \<Rightarrow> ok (IsNeedVerify n p)
      | ApiLoadFromDB \<Rightarrow> LoadFromDB V p
      | ApiNewInit \<Rightarrow> ok (snd (NewInit p))
      | ApiSendMsg s w \<Rightarrow> ok (NewSendMsg s w p)
      | ApiSync \<Rightarrow> ok (NewSync p)
      | ApiSearch n \<Rightarrow> ok (SearchContact n p)
      | ApiAddFriend a b c \<Rightarrow> ok (AddNewFriend a b c p))"

datatype client_event = EvApi api_call | EvRequest dword | EvAnswer dword bytes | EvTaskEnd dword | EvPush | EvTimer

text \<open>The request buffer starts empty, and the error code of an answer at 0.\<close>

definition client_step :: "env \<Rightarrow> proc res \<Rightarrow> client_event \<Rightarrow> proc res" where
  "client_step V s e = and_then s (\<lambda>p.
     case e of
       EvApi c \<Rightarrow> api V c p
     | EvRequest tid \<Rightarrow> and_then (NS_Req2Buf V tid new_buffer p) (\<lambda>(_, _, p). ok p)
     | EvAnswer tid inbuffer \<Rightarrow> and_then (NS_Buf2Resp V tid inbuffer 0 p) (\<lambda>(_, _, p). ok (NS_OnTaskEnd V tid p))
     | EvTaskEnd tid \<Rightarrow> ok (NS_OnTaskEnd V tid p)
     | EvPush \<Rightarrow> NS_OnPush V p
     | EvTimer \<Rightarrow> ok (RequestSync p))"

text \<open>The client with its own UI callback registered.\<close>

definition with_ui :: "env \<Rightarrow> env" where
  "with_ui V = V\<lparr> e_callback := SDKCallBack (e_uninit V) \<rparr>"

section \<open>Syncs and reports in the task table\<close>

definition sync_cmds :: "dword set" where
  "sync_cmds = {cmd_id SEND_NEWSYNC_CMDID, cmd_id SEND_SYNC_SUCCESS}"

definition is_sync :: "task \<Rightarrow> bool" where
  "is_sync t \<longleftrightarrow> (\<exists>c \<in> sync_cmds. t_cmdid t = Some c)"

definition syncs :: "proc \<Rightarrow> dword set" where
  "syncs p = {tid. \<exists>t. map_task p tid = Some t \<and> is_sync t}"

definition reports :: "proc \<Rightarrow> dword set" where
  "reports p = {tid. \<exists>t. map_task p tid = Some t \<and> t_cmdid t = Some (cmd_id SEND_SYNC_SUCCESS)}"

text \<open>The members that identify a task are set the way its class sets them.\<close>

definition wf_task :: "task \<Rightarrow> bool" where
  "wf_task t \<longleftrightarrow> t_cmdid t \<noteq> None
     \<and> (t_class t = NewSyncCGITask \<longleftrightarrow> t_cmdid t = Some (cmd_id SEND_NEWSYNC_CMDID))
     \<and> (t_class t = ReportSyncKVCGITask \<longleftrightarrow> t_cmdid t = Some (cmd_id SEND_SYNC_SUCCESS))"

definition wf_tasks :: "proc \<Rightarrow> bool" where
  "wf_tasks p \<longleftrightarrow> (\<forall>tid t. map_task p tid = Some t \<longrightarrow> wf_task t)"

definition sync_inv :: "proc \<Rightarrow> bool" where
  "sync_inv p \<longleftrightarrow> wf_tasks p \<and> (if s_bSyncing p then (\<exists>tid. syncs p \<subseteq> {tid}) else syncs p = {} \<and> \<not> s_bNeedReSync p)"

text \<open>The blocked state: a sync is marked as under way, but no task is.\<close>

definition stuck :: "proc \<Rightarrow> bool" where
  "stuck p \<longleftrightarrow> wf_tasks p \<and> s_bSyncing p \<and> syncs p = {}"

definition sync_starts :: "proc \<Rightarrow> stn_task list" where
  "sync_starts p = filter (\<lambda>t. st_cmdid t = Some (cmd_id SEND_NEWSYNC_CMDID)) (p_started p)"

section \<open>Lemmas: what leaves the sync alone\<close>

text \<open>Same task table, flags, started tasks and next task id.\<close>

definition same_net :: "proc \<Rightarrow> proc \<Rightarrow> bool" where
  "same_net p p' \<longleftrightarrow> map_task p' = map_task p \<and> s_bSyncing p' = s_bSyncing p \<and> s_bNeedReSync p' = s_bNeedReSync p \<and> p_started p' = p_started p
     \<and> gs_taskid p' = gs_taskid p"

lemma same_net_refl [simp]: "same_net p p"
  by (simp add: same_net_def)

lemma same_net_trans: "same_net p q \<Longrightarrow> same_net q r \<Longrightarrow> same_net p r"
  by (simp add: same_net_def)

lemma same_net_update [simp]:
  "same_net p (q\<lparr> p_auth := a \<rparr>) = same_net p q" "same_net p (q\<lparr> p_db := d \<rparr>) = same_net p q"
  "same_net p (q\<lparr> p_rands := n \<rparr>) = same_net p q" "same_net p (q\<lparr> p_calls := c \<rparr>) = same_net p q"
  "same_net p (q\<lparr> p_posts := w \<rparr>) = same_net p q" "same_net p (q\<lparr> g_dwUin := u, g_wxid := v \<rparr>) = same_net p q"
  by (simp_all add: same_net_def)

lemma same_net_db: "db_only p p' \<Longrightarrow> same_net p p'"
  by (auto simp: db_only_def same_net_def)

text \<open>Bookkeeping of task ids: the tasks started in a step have the next ids in turn, and the task table
  gains exactly them.\<close>

definition serial :: "dword \<Rightarrow> nat \<Rightarrow> dword list" where
  "serial g n = map (\<lambda>i. g + of_nat i) [0..<n]"

definition tracks :: "proc \<Rightarrow> proc \<Rightarrow> bool" where
  "tracks p p' \<longleftrightarrow> (\<exists>new. p_started p' = p_started p @ new \<and> map st_taskid new = serial (gs_taskid p) (length new)
     \<and> gs_taskid p' = gs_taskid p + of_nat (length new) \<and> dom (map_task p') = dom (map_task p) \<union> set (map st_taskid new))"

lemma serial_add: "serial g (m + n) = serial g m @ serial (g + of_nat m) n"
proof -
  have "map (\<lambda>i. g + of_nat i) [m..<m + n] = map (\<lambda>i. g + of_nat m + of_nat i) [0..<n]"
    by (rule nth_equalityI) (auto simp: ac_simps)
  then show ?thesis by (simp add: serial_def upt_add_eq_append [of 0 m n, simplified])
qed

lemma tracks_refl [simp]: "tracks p p"
  by (simp add: tracks_def serial_def)

lemma tracks_trans:
  assumes "tracks p q" "tracks q r"
  shows "tracks p r"
proof -
  from assms obtain xs ys where "p_started q = p_started p @ xs" "map st_taskid xs = serial (gs_taskid p) (length xs)"
      "gs_taskid q = gs_taskid p + of_nat (length xs)" "dom (map_task q) = dom (map_task p) \<union> set (map st_taskid xs)"
      "p_started r = p_started q @ ys" "map st_taskid ys = serial (gs_taskid q) (length ys)"
      "gs_taskid r = gs_taskid q + of_nat (length ys)" "dom (map_task r) = dom (map_task q) \<union> set (map st_taskid ys)"
    unfolding tracks_def by blast
  then show ?thesis unfolding tracks_def by (intro exI [of _ "xs @ ys"]) (simp add: serial_add Un_assoc)
qed

lemma same_net_tracks: "same_net p p' \<Longrightarrow> tracks p p'"
  by (simp add: same_net_def tracks_def serial_def)

lemma start_tracks: "tracks p (snd (startTask t b p))"
  by (auto simp: tracks_def startTask_def Let_def serial_def)

lemma tracks_flags: "tracks (p\<lparr> s_bSyncing := a \<rparr>) q = tracks p q" "tracks (p\<lparr> s_bNeedReSync := a \<rparr>) q = tracks p q"
  by (simp_all add: tracks_def)

text \<open>Nothing is added to the syncs under way, and the flags stay.\<close>

definition quiet :: "proc \<Rightarrow> proc \<Rightarrow> bool" where
  "quiet p p' \<longleftrightarrow> (wf_tasks p \<longrightarrow> wf_tasks p') \<and> syncs p' \<subseteq> syncs p \<and> reports p' \<subseteq> reports p \<and> s_bSyncing p' = s_bSyncing p
     \<and> s_bNeedReSync p' = s_bNeedReSync p \<and> sync_starts p' = sync_starts p \<and> tracks p p'"

lemma quiet_refl [simp]: "quiet p p"
  by (simp add: quiet_def)

lemma quiet_trans: "quiet p q \<Longrightarrow> quiet q r \<Longrightarrow> quiet p r"
  by (auto simp: quiet_def intro: tracks_trans)

lemma same_net_quiet: "same_net p p' \<Longrightarrow> quiet p p'"
  using same_net_tracks by (simp add: same_net_def quiet_def wf_tasks_def syncs_def reports_def sync_starts_def)

lemma start_quiet: "wf_task t \<Longrightarrow> \<not> is_sync t \<Longrightarrow> quiet p (snd (startTask t b p))"
  using start_tracks [of p t b] by (auto simp: quiet_def startTask_def Let_def wf_tasks_def syncs_def reports_def sync_starts_def is_sync_def sync_cmds_def split: if_splits)

lemma change_quiet:
  "map_task p tid = Some t0 \<Longrightarrow> wf_task t \<Longrightarrow> t_cmdid t = t_cmdid t0 \<Longrightarrow> quiet p (p\<lparr> map_task := (map_task p)(tid \<mapsto> t) \<rparr>)"
  by (auto simp: quiet_def wf_tasks_def syncs_def reports_def sync_starts_def is_sync_def tracks_def serial_def split: if_splits)

text \<open>Steps that keep the invariant, and start no sync when the client is blocked.\<close>

definition keeps :: "proc \<Rightarrow> proc \<Rightarrow> bool" where
  "keeps p p' \<longleftrightarrow> (sync_inv p \<longrightarrow> sync_inv p') \<and> (stuck p \<longrightarrow> stuck p' \<and> sync_starts p' = sync_starts p)"

lemma keeps_refl [simp]: "keeps p p"
  by (simp add: keeps_def)

lemma keeps_trans: "keeps p q \<Longrightarrow> keeps q r \<Longrightarrow> keeps p r"
  by (simp add: keeps_def)

lemma quiet_keeps: "quiet p p' \<Longrightarrow> keeps p p'"
  by (auto simp: keeps_def quiet_def sync_inv_def stuck_def)

lemma remove_keeps: "keeps p (p\<lparr> map_task := (map_task p)(tid := None) \<rparr>)"
proof -
  let ?q = "p\<lparr> map_task := (map_task p)(tid := None) \<rparr>"
  have "syncs ?q \<subseteq> syncs p" "wf_tasks p \<Longrightarrow> wf_tasks ?q" by (auto simp: syncs_def wf_tasks_def split: if_splits)
  then show ?thesis by (auto simp: keeps_def sync_inv_def stuck_def sync_starts_def)
qed

lemmas same_net_keeps = quiet_keeps [OF same_net_quiet]

lemma cmd_ids: "cmd_id SEND_NEWSYNC_CMDID = 121" "cmd_id SEND_SYNC_SUCCESS = 1000000190" "cmd_id MANUALAUTH = 253"
  by simp_all

lemma NewSync_task_wf: "wf_task NewSync_task" "wf_task ReportSyncKV_task"
  by (simp_all add: wf_task_def NewSync_task_def ReportSyncKV_task_def new_task_def)

lemma start_sync_inv:
  assumes "wf_tasks p" "syncs p = {}" "s_bSyncing p" "wf_task t"
  shows "sync_inv (snd (startTask t b p))"
proof -
  have "syncs (snd (startTask t b p)) \<subseteq> {gs_taskid p}"
    using assms(2) by (auto simp: syncs_def startTask_def Let_def split: if_splits)
  then show ?thesis using assms by (auto simp: sync_inv_def startTask_def Let_def wf_tasks_def)
qed

lemma NewSync_keeps: "keeps p (NewSync p)"
proof (cases "s_bSyncing p")
  case True
  then show ?thesis by (simp add: keeps_def NewSync_def IsSyncing_def sync_inv_def stuck_def wf_tasks_def syncs_def sync_starts_def)
next
  case False
  have "sync_inv (snd (startTask NewSync_task False (p\<lparr> s_bSyncing := True \<rparr>)))" if "sync_inv p"
    by (rule start_sync_inv) (use that False NewSync_task_wf in \<open>auto simp: sync_inv_def wf_tasks_def syncs_def\<close>)
  with False show ?thesis by (simp add: keeps_def NewSync_def IsSyncing_def stuck_def)
qed

text \<open>While a sync is marked, a request for another one only sets the flag.\<close>

lemma NewSync_marked: "s_bSyncing p \<Longrightarrow> NewSync p = p\<lparr> s_bNeedReSync := True \<rparr>"
  by (simp add: NewSync_def IsSyncing_def)

lemma short_task_wf:
  "ty \<in> {CGI_TYPE_NEWINIT, CGI_TYPE_NEWSENDMSG, CGI_TYPE_SEARCHCONTACT, CGI_TYPE_VERIFYUSER, CGI_TYPE_BIND} \<Longrightarrow>
     c \<notin> {NewSyncCGITask, ReportSyncKVCGITask} \<Longrightarrow> wf_task (short_task c ty cgi) \<and> \<not> is_sync (short_task c ty cgi)"
  by (auto simp: wf_task_def is_sync_def sync_cmds_def short_task_def new_task_def)

section \<open>Lemmas: the handlers\<close>

lemma session_request_net: "same_net p0 p \<Longrightarrow> outcome (\<lambda>(_, _, p'). same_net p0 p') (session_request V c req b p)"
  unfolding session_request_def Let_def by (intro outcome_rules) simp_all

lemma GetSyncKey_net: "outcome (\<lambda>(_, p'). same_net p p') (GetSyncKey V p)"
  by (rule outcomeI) (auto dest: GetSyncKey_only same_net_db)

lemma MakeNewSyncReq_net: "outcome (\<lambda>(_, p'). same_net p p') (MakeNewSyncReq V p)"
  unfolding MakeNewSyncReq_def
  by (intro outcome_rules) (auto dest!: outcomeD [OF GetSyncKey_net] elim: same_net_trans split: if_splits)

lemma req_net:
  "outcome (\<lambda>(_, _, _, p'). same_net p p') (ManualAuth_Req2Buf V c lm b p)"
  "outcome (\<lambda>(_, _, _, p'). same_net p p') (Bind_Req2Buf V c bm b p)"
  "outcome (\<lambda>(_, _, p'). same_net p p') (NewSync_Req2Buf V b p)"
  "outcome (\<lambda>(_, _, p'). same_net p p') (NewInit_Req2Buf V c b p)"
  "outcome (\<lambda>(_, _, p'). same_net p p') (NewSend_Req2Buf V s1 s2 b p)"
  "outcome (\<lambda>(_, _, p'). same_net p p') (SearchContact_Req2Buf V s1 b p)"
  "outcome (\<lambda>(_, _, p'). same_net p p') (GetContact_Req2Buf V s1 b p)"
  "outcome (\<lambda>(_, _, p'). same_net p p') (VerifyUser_Req2Buf V vm b p)"
  "outcome (\<lambda>(_, _, p'). same_net p p') (ReportSyncKV_Req2Buf V b p)"
  unfolding ManualAuth_Req2Buf_def Bind_Req2Buf_def NewSync_Req2Buf_def NewInit_Req2Buf_def NewSend_Req2Buf_def
    SearchContact_Req2Buf_def GetContact_Req2Buf_def VerifyUser_Req2Buf_def ReportSyncKV_Req2Buf_def Let_def GenAesKey_def
  by (intro outcome_rules session_request_net; auto dest!: outcomeD [OF GetSyncKey_net] outcomeD [OF MakeNewSyncReq_net])+

lemma task_req_net:
  "outcome (\<lambda>(_, t', _, p'). same_net p p' \<and> t_cmdid t' = t_cmdid t \<and> (wf_task t \<longrightarrow> wf_task t')) (task_Req2Buf V t b p)"
  unfolding task_Req2Buf_def Let_def
  by (cases "t_class t"; simp; intro outcome_rules; auto simp: wf_task_def dest: req_net [THEN outcomeD])

lemma resp_net:
  "outcome (\<lambda>(_, _, _, p'). same_net p p') (ManualAuth_Buf2Resp V lm d h p)"
  "outcome (\<lambda>(_, _, _, p'). same_net p p') (Bind_Buf2Resp V bm d h p)"
  unfolding ManualAuth_Buf2Resp_def login_refused_def Bind_Buf2Resp_def Let_def
  by (intro outcome_rules; force simp: and_then_ok_iff split: if_splits option.splits)+

lemma init_net: "outcome (\<lambda>(_, _, _, p'). same_net p p') (NewInit_Buf2Resp V d h p)"
proof (rule outcome_mono [OF init_outcomes], clarify)
  fix a es q
  assume "db_only (p\<lparr> p_auth := a \<rparr>) q"
  then have "same_net (p\<lparr> p_auth := a \<rparr>) (fold (init_store V) es q)"
    by (rule same_net_trans [OF same_net_db same_net_db [OF init_filler.fold_store]])
  then show "same_net p (fold (init_store V) es q)" by (simp add: same_net_def)
qed

lemma send_net: "outcome (\<lambda>p'. same_net p p') (NewSend_Buf2Resp V s w p)"
  unfolding NewSend_Buf2Resp_def Let_def by (intro outcome_rules) (simp add: same_net_db db_writers)

lemma contact_net:
  "outcome (\<lambda>(_, _, _, p'). same_net p p') (SearchContact_Buf2Resp V d h p)"
  "outcome (\<lambda>(_, _, _, p'). same_net p p') (GetContact_Buf2Resp V d h p)"
  by (auto intro: outcome_mono [OF search_outcomes(1)] outcome_mono [OF search_outcomes(2)])

lemma verify_quiet: "outcome (\<lambda>(_, _, _, p'). quiet p p') (VerifyUser_Buf2Resp V m d h p)"
proof (rule outcome_mono [OF verify_outcomes], clarify)
  fix r a
  have a: "quiet p (p\<lparr> p_auth := a \<rparr>)" by (simp add: same_net_quiet)
  have "wf_task (confirm_task m) \<and> \<not> is_sync (confirm_task m)"
    by (simp add: confirm_task_def wf_task_def is_sync_def sync_cmds_def new_task_def)
  then have "quiet (p\<lparr> p_auth := a \<rparr>) (snd (startTask (confirm_task m) False (p\<lparr> p_auth := a \<rparr>)))"
    by (simp add: start_quiet)
  with a show "quiet p (if m_tag2 m = 1 \<and> vu_nCode r \<noteq> 0 then snd (startTask (confirm_task m) False (p\<lparr> p_auth := a \<rparr>)) else p\<lparr> p_auth := a \<rparr>)"
    by (auto elim: quiet_trans)
qed

text \<open>Every answer but a sync's leaves the syncs alone.\<close>

lemma task_resp_quiet:
  assumes "t_class t \<noteq> NewSyncCGITask"
  shows "outcome (\<lambda>(_, t', p'). quiet p p' \<and> t_cmdid t' = t_cmdid t \<and> t_class t' = t_class t) (task_Buf2Resp V t d e p)"
proof -
  note nets = resp_net [THEN outcomeD] init_net [THEN outcomeD] send_net [THEN outcomeD] contact_net [THEN outcomeD]
  show ?thesis
    using assms unfolding task_Buf2Resp_def Let_def
    by (cases "t_class t"; simp; (intro outcome_rules)?;
        auto dest!: nets verify_quiet [THEN outcomeD] intro: same_net_quiet)
qed

section \<open>Lemmas: the UI callback\<close>

text \<open>The callback leaves the syncs alone or asks for a sync at the end.\<close>

definition ui_effect :: "proc \<Rightarrow> proc \<Rightarrow> bool" where
  "ui_effect p p' \<longleftrightarrow> quiet p p' \<or> (\<exists>q. quiet p q \<and> p' = NewSync q)"

lemma ui_effectI: "quiet p q \<Longrightarrow> ui_effect p q" "quiet p q \<Longrightarrow> ui_effect p (NewSync q)"
  by (auto simp: ui_effect_def)

lemma ui_keeps: "ui_effect p p' \<Longrightarrow> keeps p p'"
  by (auto simp: ui_effect_def intro: quiet_keeps keeps_trans NewSync_keeps)

lemma recv_code_quiet: "quiet p (RecvMobileVerifyCode p)"
  unfolding RecvMobileVerifyCode_def by (intro start_quiet) (simp_all add: short_task_wf)

lemma error_quiet: "quiet p (HandleCallBackError r c p)"
  by (auto simp: HandleCallBackError_def post_def recv_code_quiet intro: same_net_quiet)

lemma for_slots_net:
  "(\<And>x q. same_net q (f x q)) \<Longrightarrow> for_slots f xs i n p = ok p' \<Longrightarrow> same_net p p'"
  by (induction f xs i n p rule: for_slots.induct) (auto simp: and_then_ok_iff intro: same_net_trans)

lemma show_batch_net: "outcome (\<lambda>p'. same_net p p') (show_batch r p)"
proof -
  have f: "same_net q (post m q)" for m q by (simp add: post_def)
  show ?thesis unfolding show_batch_def
    by (rule outcomeI) (auto simp: and_then_ok_iff f split: if_splits dest!: for_slots_net [rotated] elim: same_net_trans)
qed

lemma callback_effect: "outcome (ui_effect p) (SDKCallBack u r c i e p)"
proof -
  have f: "quiet q (post m q)" for m q by (simp add: post_def same_net_quiet)
  have b: "outcome (quiet p) (show_batch r p)" for r
    by (rule outcome_mono [OF show_batch_net same_net_quiet])
  have l: "outcome (ui_effect p) (LoginCallBack r p)" for r
    unfolding LoginCallBack_def by (intro outcome_rules) (auto simp: set_field_ok_iff ui_effect_def post_def intro!: same_net_quiet)
  show ?thesis
    unfolding SDKCallBack_def Let_def
    by (intro outcome_rules; (cases r)?; auto simp: l NewInitCallBack_def NewSyncCallBack_def MobileVerifyCallBack_def
        SearchContactCallBack_def AddNewFriendCallBack_def f error_quiet dest: outcomeD [OF b]
        intro!: outcome_and_then outcome_mono [OF b] ui_effectI)
qed

lemma do_callback_effect: "outcome (ui_effect p) (DoCallBack (with_ui V) r c i e p)"
proof -
  have q: "quiet p (p\<lparr> p_calls := x \<rparr>)" for x by (simp add: same_net_quiet)
  have c: "ui_effect p p'" if "ui_effect (p\<lparr> p_calls := x \<rparr>) p'" for x p'
    using that q [of x] quiet_trans unfolding ui_effect_def by blast
  have "outcome (ui_effect p) (SDKCallBack (e_uninit V) r c i e (p\<lparr> p_calls := x \<rparr>))" for x
    by (rule outcome_mono [OF callback_effect c])
  then show ?thesis by (auto simp: DoCallBack_def with_ui_def Let_def ui_effect_def [of p p])
qed

section \<open>Lemmas: ends of tasks and answers\<close>

text \<open>After the end of a task the flags are consistent again, if what is left under way is the task
  itself and at most the report \<open>rid\<close>.\<close>

lemma report_end:
  assumes "wf_tasks p" "syncs p = {}"
  shows "sync_inv (let (again, p) = IsNeedReSync p in if again then snd (startTask NewSync_task False p) else p)"
proof (cases "s_bNeedReSync p")
  case True
  have "sync_inv (snd (startTask NewSync_task False (p\<lparr> s_bSyncing := True, s_bNeedReSync := False \<rparr>)))"
    by (rule start_sync_inv) (use assms NewSync_task_wf in \<open>auto simp: wf_tasks_def syncs_def\<close>)
  with True show ?thesis by (simp add: IsNeedReSync_def)
next
  case False
  with assms show ?thesis by (auto simp: IsNeedReSync_def sync_inv_def wf_tasks_def syncs_def)
qed

lemma syncs_remove: "syncs (p\<lparr> map_task := (map_task p)(tid := None) \<rparr>) = syncs p - {tid}"
  by (auto simp: syncs_def split: if_splits)

lemma wf_remove: "wf_tasks p \<Longrightarrow> wf_tasks (p\<lparr> map_task := (map_task p)(tid := None) \<rparr>)"
  by (auto simp: wf_tasks_def split: if_splits)

lemma end_no_report:
  assumes "wf_tasks p" "\<And>t. map_task p tid = Some t \<Longrightarrow> t_cmdid t \<noteq> Some (cmd_id SEND_SYNC_SUCCESS)"
  shows "NS_OnTaskEnd V tid p = p\<lparr> map_task := (map_task p)(tid := None) \<rparr>"
proof (cases "map_task p tid")
  case None
  then show ?thesis by (simp add: NS_OnTaskEnd_def)
next
  case (Some t)
  with assms obtain c where "t_cmdid t = Some c" "c \<noteq> cmd_id SEND_SYNC_SUCCESS"
    by (auto simp: wf_tasks_def wf_task_def simp del: cmd_id.simps)
  with Some show ?thesis by (auto simp: NS_OnTaskEnd_def known_def Let_def)
qed

lemma end_sync:
  assumes "wf_tasks p" "s_bSyncing p" "syncs p \<subseteq> {tid, rid}"
    and "\<And>t. map_task p tid = Some t \<Longrightarrow> t_cmdid t = Some (cmd_id SEND_SYNC_SUCCESS) \<Longrightarrow> rid = tid"
  shows "sync_inv (NS_OnTaskEnd V tid p)"
proof (cases "\<exists>t. map_task p tid = Some t \<and> t_cmdid t = Some (cmd_id SEND_SYNC_SUCCESS)")
  case True
  then obtain t where t: "map_task p tid = Some t" "t_cmdid t = Some (cmd_id SEND_SYNC_SUCCESS)" by blast
  then have "syncs (p\<lparr> map_task := (map_task p)(tid := None) \<rparr>) = {}"
    using assms(3,4) by (auto simp: syncs_remove)
  from report_end [OF wf_remove [OF assms(1)] this] show ?thesis
    using t by (simp add: NS_OnTaskEnd_def known_def)
next
  case False
  then have "NS_OnTaskEnd V tid p = p\<lparr> map_task := (map_task p)(tid := None) \<rparr>"
    by (intro end_no_report assms(1)) blast
  then show ?thesis using assms(1,2,3) wf_remove [OF assms(1)] syncs_remove [of p tid] by (auto simp: sync_inv_def)
qed

lemma OnTaskEnd_keeps: "keeps p (NS_OnTaskEnd V tid p)"
proof -
  have inv: "sync_inv (NS_OnTaskEnd V tid p)" if i: "sync_inv p"
  proof (cases "s_bSyncing p")
    case True
    with i obtain r where r: "syncs p \<subseteq> {r}" by (auto simp: sync_inv_def)
    show ?thesis
    proof (rule end_sync [where rid = r])
      fix t assume t: "map_task p tid = Some t" "t_cmdid t = Some (cmd_id SEND_SYNC_SUCCESS)"
      then have "tid \<in> syncs p" by (auto simp: syncs_def is_sync_def sync_cmds_def)
      with r show "r = tid" by auto
    qed (use i True r in \<open>auto simp: sync_inv_def\<close>)
  next
    case False
    then have "syncs p = {}" "wf_tasks p" using i by (auto simp: sync_inv_def)
    then have "\<not> (\<exists>t. map_task p tid = Some t \<and> t_cmdid t = Some (cmd_id SEND_SYNC_SUCCESS))"
      by (auto simp: syncs_def is_sync_def sync_cmds_def)
    then have "NS_OnTaskEnd V tid p = p\<lparr> map_task := (map_task p)(tid := None) \<rparr>"
      by (intro end_no_report \<open>wf_tasks p\<close>) blast
    with i show ?thesis using remove_keeps by (simp add: keeps_def)
  qed
  have "stuck (NS_OnTaskEnd V tid p) \<and> sync_starts (NS_OnTaskEnd V tid p) = sync_starts p" if st: "stuck p"
  proof -
    have "\<not> (\<exists>t. map_task p tid = Some t \<and> t_cmdid t = Some (cmd_id SEND_SYNC_SUCCESS))" "wf_tasks p"
      using st by (auto simp: stuck_def syncs_def is_sync_def sync_cmds_def)
    then have "NS_OnTaskEnd V tid p = p\<lparr> map_task := (map_task p)(tid := None) \<rparr>"
      by (intro end_no_report) blast+
    with st show ?thesis using remove_keeps by (simp add: keeps_def)
  qed
  with inv show ?thesis by (simp add: keeps_def)
qed

lemma answer_other:
  assumes "map_task p tid = Some t" "wf_task t" "t_class t \<noteq> NewSyncCGITask"
  shows "outcome (\<lambda>(_, _, p'). keeps p p') (NS_Buf2Resp (with_ui V) tid d e p)"
proof -
  have k: "keeps p p2" if "task_Buf2Resp (with_ui V) t d e p = ok (e1, t1, p1)"
    "DoCallBack (with_ui V) r c i e1 (p1\<lparr> map_task := (if map_task p1 tid = Some t then (map_task p1)(tid \<mapsto> t1) else map_task p1) \<rparr>) = ok p2"
    for e1 t1 p1 r c i p2
  proof -
    let ?q = "p1\<lparr> map_task := (if map_task p1 tid = Some t then (map_task p1)(tid \<mapsto> t1) else map_task p1) \<rparr>"
    have q: "quiet p p1" "t_cmdid t1 = t_cmdid t" "t_class t1 = t_class t"
      using outcomeD [OF task_resp_quiet [OF assms(3)] that(1)] by auto
    then have "wf_task t1" using assms(2) by (simp add: wf_task_def)
    then have "quiet p1 ?q" using q(2) change_quiet [of p1 tid t t1] by auto
    with q(1) have "keeps p ?q" by (rule quiet_keeps [OF quiet_trans])
    moreover have "keeps ?q p2" using outcomeD [OF do_callback_effect that(2)] by (rule ui_keeps)
    ultimately show ?thesis by (rule keeps_trans)
  qed
  show ?thesis
    using assms(1) unfolding NS_Buf2Resp_def Let_def by (simp, intro outcome_rules) (use k in auto)
qed

text \<open>The answer to a sync: whatever the handler and the callback did, a sync is still marked, and
  besides the task itself at most the report it started is under way.\<close>

definition answered :: "dword \<Rightarrow> dword \<Rightarrow> proc \<Rightarrow> bool" where
  "answered tid rid p \<longleftrightarrow> wf_tasks p \<and> s_bSyncing p \<and> syncs p \<subseteq> {tid, rid} \<and> (tid \<in> reports p \<longrightarrow> rid = tid)"

lemma answered_quiet: "answered tid rid p \<Longrightarrow> quiet p p' \<Longrightarrow> answered tid rid p'"
  by (auto simp: answered_def quiet_def)

lemma answered_ui: "answered tid rid p \<Longrightarrow> ui_effect p p' \<Longrightarrow> answered tid rid p'"
  unfolding ui_effect_def
proof (elim disjE exE conjE)
  fix q assume a: "answered tid rid p" "quiet p q" "p' = NewSync q"
  then have q: "answered tid rid q" by (blast intro: answered_quiet)
  with a(3) show "answered tid rid p'"
    by (simp add: answered_def NewSync_marked wf_tasks_def syncs_def reports_def)
qed (rule answered_quiet)

lemma answered_end: "answered tid rid p \<Longrightarrow> sync_inv (NS_OnTaskEnd V tid p)"
  by (rule end_sync [where rid = rid]) (auto simp: answered_def reports_def)

lemma sync_net: "outcome (\<lambda>(_, _, _, p'). \<exists>q. same_net p q \<and> (p' = q \<or> p' = ReportSyncKV q)) (NewSync_Buf2Resp V d h p)"
proof -
  have el: "same_net p p'"
    if "alloc_batch (e_ext V) n new_BatchResult = ok r0" "n \<noteq> 0"
      "element_loop (sync_element V) ms 0 (nat n) r0 (SetSyncKey V k (p\<lparr> p_auth := a \<rparr>)) = ok (stop, r, p')" for n r0 ms k a stop r p'
  proof -
    have "db_only (SetSyncKey V k (p\<lparr> p_auth := a \<rparr>)) p'" using sync_elements [OF that] by blast
    then have "same_net (p\<lparr> p_auth := a \<rparr>) p'" by (rule same_net_db [OF db_only_trans [OF db_writers(2)]])
    then show ?thesis by (simp add: same_net_def)
  qed
  have key: "same_net p (SetSyncKey V k (p\<lparr> p_auth := a \<rparr>))" for k a
    using same_net_db [OF db_writers(2) [of "p\<lparr> p_auth := a \<rparr>" V k]] by (simp add: same_net_def)
  have plain: "\<exists>q. same_net p q \<and> (p' = q \<or> p' = ReportSyncKV q)" if "same_net p p'" for p' using that by blast
  have rep: "\<exists>q. same_net p q \<and> (ReportSyncKV p' = q \<or> ReportSyncKV p' = ReportSyncKV q)" if "same_net p p'" for p' using that by blast
  show ?thesis
    unfolding NewSync_Buf2Resp_def Let_def
  proof (intro outcome_rules, goal_cases)
    case (6 x body b ha a xa resp r0 xc stop ba r pa)
    then show ?case using el by (simp only: outcome_ok prod.case) blast
  next
    case (7 x body b ha a xa resp r0 xc stop ba r pa)
    then show ?case using el by (simp only: outcome_ok prod.case) blast
  qed (simp only: outcome_ok prod.case, rule plain, (rule key | simp))+
qed

lemma report_answered:
  assumes "wf_tasks p" "s_bSyncing p" "syncs p \<subseteq> {tid}" "map_task p tid = Some t" "t_class t = NewSyncCGITask" "wf_task t1" "t_cmdid t1 = t_cmdid t"
    "p1 \<in> {p, ReportSyncKV p}"
  shows "answered tid (gs_taskid p) (p1\<lparr> map_task := (if map_task p1 tid = Some t then (map_task p1)(tid \<mapsto> t1) else map_task p1) \<rparr>)"
proof -
  have t: "t_cmdid t = Some (cmd_id SEND_NEWSYNC_CMDID)" using assms(1,4,5) by (auto simp: wf_tasks_def wf_task_def)
  have ne: "ReportSyncKV_task \<noteq> t" using assms(5) by (auto simp: ReportSyncKV_task_def new_task_def)
  have wf: "\<And>i u. map_task p i = Some u \<Longrightarrow> wf_task u" and sy: "\<And>i u. map_task p i = Some u \<Longrightarrow> is_sync u \<Longrightarrow> i = tid"
    using assms(1,3) by (auto simp: wf_tasks_def syncs_def)
  have rep: "tid \<notin> reports p" using assms(4) t by (simp add: reports_def)
  from assms(8) show ?thesis
  proof (elim insertE emptyE)
    assume "p1 = p"
    then show ?thesis using assms(2,4,6,7) t wf sy
      by (auto simp: answered_def wf_tasks_def syncs_def reports_def)
  next
    assume "p1 = ReportSyncKV p"
    then show ?thesis using assms(2,4,6,7) t wf sy ne NewSync_task_wf(2)
      by (auto simp: answered_def wf_tasks_def syncs_def reports_def ReportSyncKV_def startTask_def Let_def split: if_splits)
  qed
qed

lemma answer_sync:
  assumes "sync_inv p" "map_task p tid = Some t" "t_class t = NewSyncCGITask"
  shows "outcome (\<lambda>(_, _, p'). \<exists>rid. answered tid rid p') (NS_Buf2Resp (with_ui V) tid d e p)"
proof -
  have wf: "wf_tasks p" "wf_task t" "t_cmdid t = Some (cmd_id SEND_NEWSYNC_CMDID)"
    using assms by (auto simp: sync_inv_def wf_tasks_def wf_task_def)
  then have "tid \<in> syncs p" using assms(2) by (auto simp: syncs_def is_sync_def sync_cmds_def)
  then have sy: "s_bSyncing p" "syncs p \<subseteq> {tid}" using assms(1) by (auto simp: sync_inv_def split: if_splits)
  have k: "\<exists>rid. answered tid rid p2" if "task_Buf2Resp (with_ui V) t d e p = ok (e1, t1, p1)"
    "DoCallBack (with_ui V) r c i e1 (p1\<lparr> map_task := (if map_task p1 tid = Some t then (map_task p1)(tid \<mapsto> t1) else map_task p1) \<rparr>) = ok p2"
    for e1 t1 p1 r c i p2
  proof -
    from that(1) assms(3) obtain r' h' where b: "NewSync_Buf2Resp (with_ui V) d (t_hdr t) p = ok (e1, r', h', p1)" "t1 = t\<lparr> m_res := ResSync r', t_hdr := h' \<rparr>"
      by (auto simp: task_Buf2Resp_def and_then_ok_iff)
    from outcomeD [OF sync_net b(1)] obtain q where q: "same_net p q" "p1 \<in> {q, ReportSyncKV q}" by auto
    have "answered tid (gs_taskid q) (p1\<lparr> map_task := (if map_task p1 tid = Some t then (map_task p1)(tid \<mapsto> t1) else map_task p1) \<rparr>)"
      by (rule report_answered [of q]) (use q wf sy assms(2,3) b(2) in \<open>auto simp: same_net_def wf_tasks_def syncs_def wf_task_def\<close>)
    then show ?thesis using answered_ui outcomeD [OF do_callback_effect that(2)] by blast
  qed
  show ?thesis
    using assms(2) unfolding NS_Buf2Resp_def Let_def by (simp, intro outcome_rules) (use k in auto)
qed

section \<open>Lemmas: every event\<close>

lemma short_keeps:
  "ty \<in> {CGI_TYPE_NEWINIT, CGI_TYPE_NEWSENDMSG, CGI_TYPE_SEARCHCONTACT, CGI_TYPE_VERIFYUSER, CGI_TYPE_BIND} \<Longrightarrow>
     c \<notin> {NewSyncCGITask, ReportSyncKVCGITask} \<Longrightarrow> keeps p (snd (startTask (short_task c ty cgi) b p))"
  by (intro quiet_keeps start_quiet) (simp_all add: short_task_wf)

lemma Login_keeps: "keeps p (snd (Login user pwd p))"
  unfolding Login_def
  by (intro quiet_keeps start_quiet) (simp_all add: wf_task_def is_sync_def sync_cmds_def new_task_def)

lemma NewSendMsg_keeps: "keeps p (NewSendMsg s w p)"
  unfolding NewSendMsg_def
  by (intro quiet_keeps start_quiet) (simp_all add: wf_task_def is_sync_def sync_cmds_def short_task_def new_task_def)

lemma callback_keeps: "outcome (keeps p) (DoCallBack (with_ui V) r c i e p)"
  by (rule outcome_mono [OF do_callback_effect ui_keeps])

lemma load_keeps: "outcome (keeps p) (LoadContact (with_ui V) p)" "outcome (keeps p) (LoadMsgRecord (with_ui V) p)"
  unfolding LoadContact_def LoadMsgRecord_def Let_def
  by (intro outcome_rules; rule outcome_mono [OF callback_keeps];
      auto dest!: db_exec_only same_net_db intro: keeps_trans [OF same_net_keeps])+

lemma LoadFromDB_keeps: "outcome (keeps p) (LoadFromDB (with_ui V) p)"
proof -
  have d: "keeps p q" if "same_net p q" for q using that by (rule same_net_keeps)
  have c: "db_only q (ClearDB V' q)" for V' q
  proof -
    have e: "(case db_exec V' st q1 of (_, _, r) \<Rightarrow> f r) = f (snd (snd (db_exec V' st q1)))" for st q1 and f :: "proc \<Rightarrow> proc"
      by (simp split: prod.split)
    show ?thesis unfolding ClearDB_def Let_def e
      by (rule db_only_trans [OF db_only_trans [OF db_exec_state db_exec_state] db_exec_state])
  qed
  have n: "keeps q (snd (NewInit q))" for q unfolding NewInit_def by (rule short_keeps) simp_all
  have i: "keeps p q" if "GetSyncKey V' (p\<lparr> p_db := x \<rparr>) = ok (k, q)" for V' x k q
    using outcomeD [OF GetSyncKey_net that] by (intro d) (simp add: same_net_def)
  show ?thesis
    unfolding LoadFromDB_def Let_def
  proof (intro outcome_rules, goal_cases)
    case (1 x k q)
    then have "keeps p q" using i by blast
    then show ?case using keeps_trans [OF keeps_trans [OF _ same_net_keeps [OF same_net_db [OF c]]] n] by simp
  next
    case (2 x k q q')
    then have "keeps p q" "keeps q q'" using i outcomeD [OF load_keeps(1)] by blast+
    then show ?case by (intro outcome_mono [OF load_keeps(2)]) (rule keeps_trans [OF keeps_trans])
  qed
qed

lemma api_keeps: "outcome (keeps p) (api (with_ui V) c p)"
  unfolding api_def
  by (cases c) (simp_all add: Login_keeps NewSendMsg_keeps LoadFromDB_keeps NewSync_keeps short_keeps SendMobileVerifyCode_def RecvMobileVerifyCode_def
      IsNeedVerify_def NewInit_def SearchContact_def AddNewFriend_def)

lemma request_keeps: "outcome (\<lambda>(_, _, p'). wf_tasks p \<longrightarrow> keeps p p') (NS_Req2Buf V tid b p)"
proof -
  have k: "wf_tasks p \<longrightarrow> keeps p (p'\<lparr> map_task := (map_task p')(tid \<mapsto> t') \<rparr>)"
    if "map_task p tid = Some t" "task_Req2Buf V t b p = ok (s, t', out, p')" for t t' s out p'
  proof
    assume w: "wf_tasks p"
    from outcomeD [OF task_req_net that(2)] have n: "same_net p p'" "t_cmdid t' = t_cmdid t" "wf_task t \<longrightarrow> wf_task t'" by auto
    have "map_task p' tid = Some t" "wf_task t'" using that(1) w n by (auto simp: same_net_def wf_tasks_def)
    from change_quiet [OF this n(2)] have "quiet p (p'\<lparr> map_task := (map_task p')(tid \<mapsto> t') \<rparr>)"
      by (rule quiet_trans [OF same_net_quiet [OF n(1)]])
    then show "keeps p (p'\<lparr> map_task := (map_task p')(tid \<mapsto> t') \<rparr>)" by (rule quiet_keeps)
  qed
  show ?thesis unfolding NS_Req2Buf_def by (intro outcome_rules) (use k in auto)
qed

lemma step_keeps:
  assumes "wf_tasks p" "\<And>tid d t. e = EvAnswer tid d \<Longrightarrow> map_task p tid = Some t \<Longrightarrow> t_class t \<noteq> NewSyncCGITask"
  shows "outcome (keeps p) (client_step (with_ui V) (ok p) e)"
proof (cases e)
  case (EvAnswer tid d)
  have "outcome (\<lambda>(_, _, q). keeps p (NS_OnTaskEnd (with_ui V) tid q)) (NS_Buf2Resp (with_ui V) tid d 0 p)"
  proof (cases "map_task p tid")
    case None
    then show ?thesis by (simp add: NS_Buf2Resp_def OnTaskEnd_keeps)
  next
    case (Some t)
    have "wf_task t" using assms(1) Some by (auto simp: wf_tasks_def)
    show ?thesis
      by (rule outcome_mono [OF answer_other [OF Some \<open>wf_task t\<close> assms(2) [OF EvAnswer Some]]]) (auto intro: keeps_trans OnTaskEnd_keeps)
  qed
  with EvAnswer show ?thesis by (auto simp: client_step_def intro!: outcome_and_then dest: outcomeD)
next
  case (EvApi c)
  then show ?thesis by (simp add: client_step_def) (rule api_keeps)
next
  case (EvRequest tid)
  then show ?thesis using assms(1) by (auto simp: client_step_def intro!: outcome_and_then dest: outcomeD [OF request_keeps])
next
  case EvPush
  then show ?thesis
    by (auto simp: client_step_def NS_OnPush_def intro!: outcome_and_then
        intro: keeps_trans [OF same_net_keeps NewSync_keeps] same_net_keeps dest!: outcomeD [OF GetSyncKey_net])
qed (simp_all add: client_step_def RequestSync_def NewSync_keeps OnTaskEnd_keeps)

lemma step_inv:
  assumes "sync_inv p"
  shows "outcome sync_inv (client_step (with_ui V) (ok p) e)"
proof (cases "\<exists>tid d t. e = EvAnswer tid d \<and> map_task p tid = Some t \<and> t_class t = NewSyncCGITask")
  case True
  then obtain tid d t where e: "e = EvAnswer tid d" "map_task p tid = Some t" "t_class t = NewSyncCGITask" by blast
  have "outcome (\<lambda>(_, _, q). sync_inv (NS_OnTaskEnd (with_ui V) tid q)) (NS_Buf2Resp (with_ui V) tid d 0 p)"
    by (rule outcome_mono [OF answer_sync [OF assms e(2,3)]]) (auto intro: answered_end)
  with e(1) show ?thesis by (auto simp: client_step_def intro!: outcome_and_then dest: outcomeD)
next
  case False
  then have "outcome (keeps p) (client_step (with_ui V) (ok p) e)"
    using assms by (intro step_keeps) (auto simp: sync_inv_def)
  then show ?thesis by (rule outcome_mono) (simp add: keeps_def assms)
qed

lemma step_stuck:
  assumes "stuck p"
  shows "outcome (\<lambda>q. stuck q \<and> sync_starts q = sync_starts p) (client_step (with_ui V) (ok p) e)"
proof -
  have "outcome (keeps p) (client_step (with_ui V) (ok p) e)"
    using assms by (intro step_keeps) (auto simp: stuck_def wf_tasks_def wf_task_def syncs_def is_sync_def sync_cmds_def)
  then show ?thesis by (rule outcome_mono) (simp add: keeps_def assms)
qed

interpretation client: machine "client_step (with_ui V)" "outcome sync_inv" for V
proof unfold_locales
  fix s e assume "outcome sync_inv s"
  then show "outcome sync_inv (client_step (with_ui V) s e)" using step_inv by (cases s) (auto simp: client_step_def)
qed

interpretation blocked: machine "client_step (with_ui V)" "outcome (\<lambda>q. stuck q \<and> sync_starts q = S)" for V S
proof unfold_locales
  fix s e assume "outcome (\<lambda>q. stuck q \<and> sync_starts q = S) s"
  then show "outcome (\<lambda>q. stuck q \<and> sync_starts q = S) (client_step (with_ui V) s e)" using step_stuck by (cases s) (auto simp: client_step_def)
qed

lemma start_state: "sync_inv (setCgiCallBack (proc0 cv))"
  by (simp add: sync_inv_def setCgiCallBack_def proc0_def wf_tasks_def syncs_def)

lemma sync_end_stuck:
  assumes "sync_inv p" "map_task p tid = Some t" "t_class t = NewSyncCGITask"
  shows "NS_OnTaskEnd V tid p = p\<lparr> map_task := (map_task p)(tid := None) \<rparr> \<and> stuck (NS_OnTaskEnd V tid p)"
proof -
  have t: "wf_tasks p" "t_cmdid t = Some (cmd_id SEND_NEWSYNC_CMDID)" using assms by (auto simp: sync_inv_def wf_tasks_def wf_task_def)
  then have "tid \<in> syncs p" using assms(2) by (auto simp: syncs_def is_sync_def sync_cmds_def)
  then have sy: "s_bSyncing p" "syncs p \<subseteq> {tid}" using assms(1) by (auto simp: sync_inv_def split: if_splits)
  have e: "NS_OnTaskEnd V tid p = p\<lparr> map_task := (map_task p)(tid := None) \<rparr>"
    by (rule end_no_report) (use t assms(2) in auto)
  with sy show ?thesis using wf_remove [OF t(1)] syncs_remove [of p tid] by (auto simp: stuck_def)
qed

section \<open>Properties\<close>

text \<open>C4: However the calls of the UI, the pushes, the timer, the answers of the server and the ends of
  tasks interleave, the running client has at most one sync or sync report under way, and none
  while the flag \<^verbatim>\<open>s_bSyncing\<close> is clear.\<close>

theorem one_sync_in_flight:
  "outcome (\<lambda>p. if s_bSyncing p then \<exists>tid. syncs p \<subseteq> {tid} else syncs p = {})
     (run_events (client_step (with_ui V)) (ok (setCgiCallBack (proc0 cv))) es)"
proof -
  have "outcome sync_inv (ok (setCgiCallBack (proc0 cv)))" by (simp add: start_state)
  from client.run_inv [OF this] show ?thesis
    by (rule outcome_mono) (auto simp: sync_inv_def split: if_splits)
qed

text \<open>C29: A sync whose task ends without an answer, because the network failed or gave up, blocks
  every later one: whatever happens afterwards, the client starts no sync again and keeps
  \<^verbatim>\<open>s_bSyncing\<close> set.\<close>

theorem failed_sync_blocks:
  assumes "sync_inv p" "map_task p tid = Some t" "t_class t = NewSyncCGITask"
  shows "outcome (\<lambda>q. s_bSyncing q \<and> sync_starts q = sync_starts p)
     (run_events (client_step (with_ui V)) (ok p) (EvTaskEnd tid # es))"
proof -
  have "stuck (NS_OnTaskEnd (with_ui V) tid p)" "sync_starts (NS_OnTaskEnd (with_ui V) tid p) = sync_starts p"
    using sync_end_stuck [OF assms, of "with_ui V"] by (auto simp: sync_starts_def)
  then have "outcome (\<lambda>q. stuck q \<and> sync_starts q = sync_starts p) (client_step (with_ui V) (ok p) (EvTaskEnd tid))"
    by (simp add: client_step_def)
  from blocked.run_inv [OF this, where es = es] show ?thesis
    unfolding run_events.simps by (rule outcome_mono) (simp add: stuck_def)
qed

theorem failed_sync_blocks_witness:
  "outcome (\<lambda>q. s_bSyncing q \<and> sync_starts q = sync_starts (NewSync (proc0 0)))
     (run_events (client_step (with_ui sample_env)) (ok (NewSync (proc0 0))) [EvTaskEnd 1, EvTimer, EvApi ApiSync])"
proof -
  have "sync_inv (NewSync (proc0 0))"
  proof -
    have "sync_inv (proc0 0)" by (simp add: sync_inv_def proc0_def wf_tasks_def syncs_def)
    then show ?thesis using NewSync_keeps [of "proc0 0"] by (simp add: keeps_def)
  qed
  moreover have "map_task (NewSync (proc0 0)) 1 = Some NewSync_task"
    by (simp add: NewSync_def IsSyncing_def startTask_def Let_def proc0_def)
  ultimately show ?thesis by (rule failed_sync_blocks) (simp add: NewSync_task_def new_task_def)
qed

text \<open>The end of a sync report, with or without an answer, settles the flags: when a sync was asked
  for meanwhile, the next one is started at once; otherwise the flag is freed, and the next request
  starts one.\<close>

theorem report_end_settles:
  assumes "wf_tasks p" "map_task p tid = Some t" "t_class t = ReportSyncKVCGITask"
  shows "let q = NS_OnTaskEnd V tid p in
    if s_bNeedReSync p
    then s_bSyncing q \<and> \<not> s_bNeedReSync q \<and> map_task q (gs_taskid p) = Some NewSync_task \<and> length (sync_starts q) = length (sync_starts p) + 1
    else \<not> s_bSyncing q \<and> sync_starts q = sync_starts p \<and> map_task (NewSync q) (gs_taskid p) = Some NewSync_task"
proof -
  have "t_cmdid t = Some (cmd_id SEND_SYNC_SUCCESS)" using assms by (auto simp: wf_tasks_def wf_task_def)
  then show ?thesis
    using assms(2) by (simp add: NS_OnTaskEnd_def known_def Let_def IsNeedReSync_def NewSync_def IsSyncing_def startTask_def sync_starts_def)
      (simp add: NewSync_task_def)
qed

theorem report_end_settles_witness:
  "let p = ReportSyncKV (proc0 0); q = NS_OnTaskEnd sample_env 1 p in
     \<not> s_bSyncing q \<and> sync_starts q = sync_starts p \<and> map_task (NewSync q) (gs_taskid p) = Some NewSync_task"
proof -
  have "map_task (ReportSyncKV (proc0 0)) 1 = Some ReportSyncKV_task" "wf_tasks (ReportSyncKV (proc0 0))" "\<not> s_bNeedReSync (ReportSyncKV (proc0 0))"
    using NewSync_task_wf(2) by (simp_all add: ReportSyncKV_def startTask_def Let_def proc0_def wf_tasks_def)
  moreover have "t_class ReportSyncKV_task = ReportSyncKVCGITask" by (simp add: ReportSyncKV_task_def new_task_def)
  ultimately show ?thesis using report_end_settles [of "ReportSyncKV (proc0 0)" 1 ReportSyncKV_task sample_env] by (simp add: Let_def)
qed

lemma mute_request:
  assumes "cipher_ok (e_ext V)" "length (m_Session (p_auth p)) \<notin> {16, 24, 32}"
  shows "session_request V c req b p = ok (False, b, p)"
  using bad_key_no_request(1) [OF assms] by (simp add: session_request_def)

lemma MakeNewSyncReq_auth: "outcome (\<lambda>(_, p'). p_auth p' = p_auth p) (MakeNewSyncReq V p)"
  unfolding MakeNewSyncReq_def
  by (intro outcome_rules) (auto dest!: GetSyncKey_only simp: db_only_def split: if_splits)

lemma mute_session:
  assumes "cipher_ok (e_ext V)" "length (m_Session (p_auth p)) \<notin> {16, 24, 32}"
  shows "outcome (\<lambda>(sent, out, _). \<not> sent \<and> out = b) (NewSync_Req2Buf V b p)"
    "outcome (\<lambda>(sent, out, _). \<not> sent \<and> out = b) (NewInit_Req2Buf V c b p)"
    "outcome (\<lambda>(sent, out, _). \<not> sent \<and> out = b) (NewSend_Req2Buf V s1 s2 b p)"
    "outcome (\<lambda>(sent, out, _). \<not> sent \<and> out = b) (SearchContact_Req2Buf V s1 b p)"
    "outcome (\<lambda>(sent, out, _). \<not> sent \<and> out = b) (GetContact_Req2Buf V s1 b p)"
    "outcome (\<lambda>(sent, out, _). \<not> sent \<and> out = b) (VerifyUser_Req2Buf V vm b p)"
proof -
  note m = mute_request [OF assms]
  show "outcome (\<lambda>(sent, out, _). \<not> sent \<and> out = b) (NewSync_Req2Buf V b p)"
    unfolding NewSync_Req2Buf_def
  proof (intro outcome_rules, goal_cases)
    case (1 x k q)
    then have "p_auth q = p_auth p" using outcomeD [OF MakeNewSyncReq_auth] by fastforce
    then show ?case using mute_request [OF assms(1)] assms(2) by simp
  qed
  show "outcome (\<lambda>(sent, out, _). \<not> sent \<and> out = b) (NewInit_Req2Buf V c b p)"
    "outcome (\<lambda>(sent, out, _). \<not> sent \<and> out = b) (NewSend_Req2Buf V s1 s2 b p)"
    by (simp_all add: NewInit_Req2Buf_def NewSend_Req2Buf_def m)
  show "outcome (\<lambda>(sent, out, _). \<not> sent \<and> out = b) (SearchContact_Req2Buf V s1 b p)"
    "outcome (\<lambda>(sent, out, _). \<not> sent \<and> out = b) (GetContact_Req2Buf V s1 b p)"
    "outcome (\<lambda>(sent, out, _). \<not> sent \<and> out = b) (VerifyUser_Req2Buf V vm b p)"
    unfolding SearchContact_Req2Buf_def GetContact_Req2Buf_def VerifyUser_Req2Buf_def Let_def m
    by (intro outcome_rules; simp)+
qed

text \<open>The classes of tasks whose requests are built on the session.\<close>

definition session_class :: "task_class \<Rightarrow> bool" where
  "session_class c \<longleftrightarrow> (case c of ManualAuthCGITask _ \<Rightarrow> False | BindCGITask _ \<Rightarrow> False | ReportSyncKVCGITask \<Rightarrow> False | _ \<Rightarrow> True)"

text \<open>The session is kept only up to its first NUL byte. If that leaves another length than an AES
  key has, every later request of the session is refused: no bytes are written and the task reports
  failure. (The three contact requests may end earlier, reading the device id.)\<close>

theorem truncated_session_mute:
  assumes "cipher_ok (e_ext V)" "length (c_str session) \<notin> {16, 24, 32}" "m_Session (p_auth p) = m_Session (login_store m session wx a)"
    and "session_class (t_class t)"
  shows "outcome (\<lambda>(sent, _, out, _). \<not> sent \<and> out = buf) (task_Req2Buf V t buf p)"
proof -
  have "length (m_Session (p_auth p)) \<notin> {16, 24, 32}" using assms(2,3) by (simp add: login_store_def)
  note m = mute_session [OF assms(1) this, THEN outcomeD]
  show ?thesis
    using assms(4) unfolding task_Req2Buf_def Let_def session_class_def
    by (cases "t_class t"; simp; intro outcome_rules; auto dest: m)
qed

theorem truncated_session_mute_witness:
  "outcome (\<lambda>(sent, _, out, _). \<not> sent \<and> out = new_buffer)
     (task_Req2Buf sample_env NewSync_task new_buffer ((proc0 0)\<lparr> p_auth := login_store sample_login (1 # 0 # replicate 14 2) [] (auth0 0) \<rparr>))"
  by (rule truncated_session_mute [where session = "1 # 0 # replicate 14 2" and wx = "[]" and a = "auth0 0" and m = sample_login])
    (use sample_cipher_ok in \<open>simp_all add: sample_env_def c_str_def session_class_def NewSync_task_def new_task_def\<close>)

end
