(* ===== verification/Longlink_Channel.thy ===== *)
theory Longlink_Channel imports Longlink_Packer Stn_Task begin

text \<open>
  The persistent connection as the engine sees it (\<^verbatim>\<open>longlink.cc\<close>): its status, the queue of packets
  to send, the answers being assembled, the identification of the connection
  (\<^verbatim>\<open>longlink_identify_checker.cc\<close>), and the monitor that paces reconnecting
  (\<^verbatim>\<open>longlink_connect_monitor.cc\<close>) by the activity of the application (\<^verbatim>\<open>active_logic.cc\<close>). The
  socket thread is a sequence of steps whose results come from the network: connecting, writing,
  reading, losing the connection. The code for other platforms than Windows is left out.
\<close>

section \<open>Activity\<close>

record active_logic =
  isforeground :: bool
  isactive :: bool
  lastforegroundchangetime :: qword

definition ActiveLogic :: "qword \<Rightarrow> active_logic" where
  "ActiveLogic now = \<lparr> isforeground = False, isactive = True, lastforegroundchangetime = now \<rparr>"

text \<open>The second result says whether a change of activity is signalled. The inactivity alarm, which runs
  in the background only, ends in \<open>OnInActive\<close>.\<close>

definition OnForeground :: "qword \<Rightarrow> bool \<Rightarrow> active_logic \<Rightarrow> active_logic \<times> bool" where
  "OnForeground now fg a =
     (if fg = isforeground a then (a, False)
      else (\<lparr> isforeground = fg, isactive = True, lastforegroundchangetime = now \<rparr>, \<not> isactive a))"

definition OnInActive :: "active_logic \<Rightarrow> active_logic" where
  "OnInActive a = (if \<not> isforeground a then a\<lparr> isactive := False \<rparr> else a)"

section \<open>Connection\<close>

datatype TLongLinkStatus = kConnectIdle | kConnecting | kConnected | kDisConnected | kConnectFailed

record identify_checker =
  has_checked :: bool
  ic_taskid :: dword
  ic_cmd_id :: dword
  hash_code_buffer :: bytes

definition LongLinkIdentifyChecker :: identify_checker where
  "LongLinkIdentifyChecker = \<lparr> has_checked = False, ic_taskid = 0, ic_cmd_id = 0, hash_code_buffer = [] \<rparr>"

text \<open>\<open>ans\<close> is the client's answer: mode, packet, hash and command. The result is the packet to send.\<close>

definition GetIdentifyBuffer :: "IdentifyMode \<times> bytes \<times> bytes \<times> dword \<Rightarrow> identify_checker \<Rightarrow> (bytes \<times> dword) option \<times> identify_checker" where
  "GetIdentifyBuffer ans c =
     (if has_checked c then (None, c)
      else case ans of (mode, buffer, hash, cmdid) \<Rightarrow>
        let c = c\<lparr> hash_code_buffer := hash \<rparr> in
        (case mode of
           kCheckNever \<Rightarrow> (None, c\<lparr> has_checked := True \<rparr>)
         | kCheckNext \<Rightarrow> (None, c\<lparr> has_checked := False \<rparr>)
         | kCheckNow \<Rightarrow> (Some (buffer, cmdid), c\<lparr> ic_cmd_id := cmdid \<rparr>)))"

definition SetID :: "dword \<Rightarrow> identify_checker \<Rightarrow> identify_checker" where
  "SetID taskid c = c\<lparr> ic_taskid := taskid \<rparr>"

definition IsIdentifyResp :: "dword \<Rightarrow> dword \<Rightarrow> identify_checker \<Rightarrow> bool" where
  "IsIdentifyResp cmdid taskid c = longlink_identify_isresp (ic_taskid c) cmdid taskid"

text \<open>\<open>accepted\<close> is the client's verdict.\<close>

definition OnIdentifyResp :: "bool \<Rightarrow> identify_checker \<Rightarrow> bool \<times> identify_checker" where
  "OnIdentifyResp accepted c =
     (let c = c\<lparr> ic_taskid := 0 \<rparr> in if accepted then (True, c\<lparr> has_checked := True \<rparr>) else (False, c))"

text \<open>A queued packet is its task, its bytes and how many of them are written.\<close>

record longlink =
  lk_status :: TLongLinkStatus
  lk_running :: bool
  lk_start_time :: qword
  lk_dns_time :: qword
  lk_senddata :: "(mtask \<times> bytes \<times> nat) list"
  lk_streams :: "dword \<rightharpoonup> bytes"
  lk_checker :: identify_checker

definition LongLink :: longlink where
  "LongLink = \<lparr> lk_status = kConnectIdle, lk_running = False, lk_start_time = 0, lk_dns_time = 0, lk_senddata = [],
     lk_streams = Map.empty, lk_checker = LongLinkIdentifyChecker \<rparr>"

definition LL_Send :: "dword \<Rightarrow> bytes \<Rightarrow> mtask \<Rightarrow> longlink \<Rightarrow> bool \<times> longlink" where
  "LL_Send ver body t k =
     (if lk_status k \<noteq> kConnected then (False, k)
      else (True, k\<lparr> lk_senddata := lk_senddata k @ [(t, frame_bytes ver (mt_cmdid t, mt_taskid t, body), 0)] \<rparr>))"

definition SendWhenNoData :: "dword \<Rightarrow> bytes \<Rightarrow> dword \<Rightarrow> dword \<Rightarrow> longlink \<Rightarrow> bool \<times> longlink" where
  "SendWhenNoData ver body cmdid taskid k =
     (if lk_status k \<noteq> kConnected then (False, k)
      else if lk_senddata k \<noteq> [] then (False, k)
      else (True, k\<lparr> lk_senddata := [((new_mtask taskid)\<lparr> mt_send_only := True \<rparr>, frame_bytes ver (cmdid, taskid, body), 0)] \<rparr>))"

fun stop_in :: "dword \<Rightarrow> (mtask \<times> bytes \<times> nat) list \<Rightarrow> (mtask \<times> bytes \<times> nat) list option" where
  "stop_in taskid [] = None"
| "stop_in taskid ((t, s, pos) # xs) =
     (if taskid = mt_taskid t \<and> pos = 0 then Some xs else map_option (\<lambda>ys. (t, s, pos) # ys) (stop_in taskid xs))"

definition LL_Stop :: "dword \<Rightarrow> longlink \<Rightarrow> bool \<times> longlink" where
  "LL_Stop taskid k = (case stop_in taskid (lk_senddata k) of None \<Rightarrow> (False, k) | Some xs \<Rightarrow> (True, k\<lparr> lk_senddata := xs \<rparr>))"

text \<open>The results are the return value and \<^verbatim>\<open>newone\<close>.\<close>

definition LL_MakeSureConnected :: "longlink \<Rightarrow> bool \<times> bool \<times> longlink" where
  "LL_MakeSureConnected k =
     (if lk_status k = kConnected then (True, False, k)
      else if lk_running k then (False, False, k)
      else (False, True, k\<lparr> lk_running := True, lk_status := kConnectIdle, lk_start_time := 0, lk_dns_time := 0,
              lk_checker := LongLinkIdentifyChecker, lk_senddata := [] \<rparr>))"

text \<open>\<^verbatim>\<open>Disconnect\<close> waits for the thread to end; it ends without an error response.\<close>

definition LL_Disconnect :: "longlink \<Rightarrow> longlink" where
  "LL_Disconnect k =
     (if \<not> lk_running k then k
      else k\<lparr> lk_running := False, lk_status := (if lk_status k = kConnected then kDisConnected else kConnectFailed) \<rparr>)"

section \<open>Socket thread\<close>

text \<open>\<^verbatim>\<open>__Run\<close> and \<^verbatim>\<open>__RunConnect\<close>: start, success, failure, loss.\<close>

definition LL_run_start :: "qword \<Rightarrow> longlink \<Rightarrow> longlink" where
  "LL_run_start now k = k\<lparr> lk_start_time := now, lk_dns_time := now, lk_status := kConnecting, lk_streams := Map.empty \<rparr>"

definition LL_run_connected :: "longlink \<Rightarrow> longlink" where
  "LL_run_connected k = k\<lparr> lk_status := kConnected \<rparr>"

definition LL_run_end :: "TLongLinkStatus \<Rightarrow> longlink \<Rightarrow> longlink" where
  "LL_run_end st k = k\<lparr> lk_status := st, lk_running := False \<rparr>"

text \<open>One call of \<^verbatim>\<open>send\<close> that wrote \<open>n\<close> bytes of the first packet. The results are the task whose
  sending began, and the queue.\<close>

definition LL_write :: "nat \<Rightarrow> longlink \<Rightarrow> dword option \<times> longlink" where
  "LL_write n k =
     (case lk_senddata k of
        [] \<Rightarrow> (None, k)
      | (t, s, pos) # xs \<Rightarrow>
          if n = 0 then (None, k)
          else let begun = (if pos = 0 then Some (mt_taskid t) else None) in
               if length s - pos \<le> n
               then (begun, k\<lparr> lk_senddata := xs,
                       lk_streams := (if mt_send_only t then lk_streams k
                                      else (lk_streams k)(mt_taskid t \<mapsto> (case lk_streams k (mt_taskid t) of None \<Rightarrow> [] | Some b \<Rightarrow> b))) \<rparr>)
               else (begun, k\<lparr> lk_senddata := (t, s, pos + n) # xs \<rparr>))"

text \<open>\<^verbatim>\<open>__NoopReq\<close>: whether something was sent.\<close>

definition NoopReq :: "dword \<Rightarrow> IdentifyMode \<times> bytes \<times> bytes \<times> dword \<Rightarrow> longlink \<Rightarrow> bool \<times> longlink" where
  "NoopReq ver ans k =
     (let (buf, c) = GetIdentifyBuffer ans (lk_checker k); k = k\<lparr> lk_checker := c \<rparr> in
      case buf of
        Some (buffer, cmdid) \<Rightarrow>
          (let (suc, k) = LL_Send ver buffer ((new_mtask kLongLinkIdentifyCheckerTaskID)\<lparr> mt_cmdid := cmdid \<rparr>) k
           in (suc, k\<lparr> lk_checker := SetID kLongLinkIdentifyCheckerTaskID (lk_checker k) \<rparr>))
      | None \<Rightarrow> SendWhenNoData ver [] longlink_noop_cmdid kNoopTaskID k)"

text \<open>\<^verbatim>\<open>__NoopResp\<close>: whether a frame belongs to the heartbeat, and whether a success is reported.\<close>

definition NoopResp :: "bool \<Rightarrow> dword \<Rightarrow> dword \<Rightarrow> longlink \<Rightarrow> bool \<times> bool \<times> longlink" where
  "NoopResp accepted cmdid taskid k =
     (let ident = IsIdentifyResp cmdid taskid (lk_checker k);
          (rep, k) = (if ident then let (r, c) = OnIdentifyResp accepted (lk_checker k) in (r, k\<lparr> lk_checker := c \<rparr>) else (False, k))
      in (ident \<or> longlink_noop_isresp kNoopTaskID cmdid taskid, rep, k))"

text \<open>One whole frame from the receive loop: the answer handed on, if it is no heartbeat. The body is
  appended to what is already there for the task; the entry of a heartbeat is not removed.\<close>

definition LL_frame :: "bool \<Rightarrow> dword \<times> dword \<times> bytes \<Rightarrow> longlink \<Rightarrow> (dword \<times> dword \<times> bytes) option \<times> longlink" where
  "LL_frame accepted fr k =
     (case fr of (cmdid, taskid, body) \<Rightarrow>
        let stream = (case lk_streams k taskid of None \<Rightarrow> [] | Some b \<Rightarrow> b) @ body;
            k = k\<lparr> lk_streams := (lk_streams k)(taskid \<mapsto> stream) \<rparr>;
            (noop, _, k) = NoopResp accepted cmdid taskid k
        in if noop then (None, k) else (Some (cmdid, taskid, stream), k\<lparr> lk_streams := (lk_streams k)(taskid := None) \<rparr>))"

section \<open>Connect monitor\<close>

datatype connect_type = kTaskConnect | kLongLinkConnect | kNetworkChangeConnect
datatype active_state = kForgroundOneMinute | kForgroundTenMinute | kForgroundActive | kBackgroundActive | kInactive

text \<open>Seconds.\<close>

fun sg_interval :: "connect_type \<Rightarrow> active_state \<Rightarrow> dword" where
  "sg_interval kTaskConnect kForgroundOneMinute = 5"
| "sg_interval kTaskConnect kForgroundTenMinute = 10"
| "sg_interval kTaskConnect kForgroundActive = 20"
| "sg_interval kTaskConnect kBackgroundActive = 30"
| "sg_interval kTaskConnect kInactive = 300"
| "sg_interval kLongLinkConnect kForgroundOneMinute = 15"
| "sg_interval kLongLinkConnect kForgroundTenMinute = 30"
| "sg_interval kLongLinkConnect kForgroundActive = 240"
| "sg_interval kLongLinkConnect kBackgroundActive = 300"
| "sg_interval kLongLinkConnect kInactive = 600"
| "sg_interval kNetworkChangeConnect _ = 0"

definition CurActiveState :: "qword \<Rightarrow> active_logic \<Rightarrow> active_state" where
  "CurActiveState now a =
     (if \<not> isactive a then kInactive
      else if \<not> isforeground a then kBackgroundActive
      else if 10 * 60 * 1000 \<le> now - lastforegroundchangetime a then kForgroundActive
      else if 60 * 1000 \<le> now - lastforegroundchangetime a then kForgroundTenMinute
      else kForgroundOneMinute)"

text \<open>\<open>noname\<close>: \<^verbatim>\<open>GetAccountInfo().username.empty()\<close>; \<open>rnd\<close>: \<^verbatim>\<open>rand()\<close>.\<close>

definition connect_interval :: "qword \<Rightarrow> NetType \<Rightarrow> bool \<Rightarrow> dword \<Rightarrow> connect_type \<Rightarrow> active_logic \<Rightarrow> dword" where
  "connect_interval now net noname rnd ty a =
     (let st = CurActiveState now a; interval = sg_interval ty st in
      if ty \<noteq> kLongLinkConnect then interval
      else if st = kInactive \<or> st = kForgroundActive
      then if \<not> isactive a \<and> noname then 7 * 24 * 60 * 60
           else if net = kNoNet then interval * 3 + 600
           else if noname then interval * 2 + 300
           else interval + rnd mod 20
      else interval)"

text \<open>The result is the time to wait, 0 when a connection exists or was started.\<close>

definition IntervalConnect :: "qword \<Rightarrow> NetType \<Rightarrow> bool \<Rightarrow> dword \<Rightarrow> connect_type \<Rightarrow> active_logic \<Rightarrow> longlink \<Rightarrow> qword \<times> longlink" where
  "IntervalConnect now net noname rnd ty a k =
     (if lk_status k = kConnecting \<or> lk_status k = kConnected then (0, k)
      else let interval = ucast (connect_interval now net noname rnd ty a * 1000);
               posttime = now - lk_dns_time k
           in if posttime \<ge> interval then (0, snd (snd (LL_MakeSureConnected k)))
              else (interval - posttime, k))"

definition Monitor_MakeSureConnected :: "qword \<Rightarrow> NetType \<Rightarrow> active_logic \<Rightarrow> longlink \<Rightarrow> bool \<times> longlink" where
  "Monitor_MakeSureConnected now net a k =
     (let k = snd (IntervalConnect now net True 0 kTaskConnect a k) in (lk_status k = kConnected, k))"

definition Monitor_NetworkChange :: "qword \<Rightarrow> NetType \<Rightarrow> active_logic \<Rightarrow> longlink \<Rightarrow> bool \<times> longlink" where
  "Monitor_NetworkChange now net a k =
     (let (w, k) = IntervalConnect now net True 0 kNetworkChangeConnect a (LL_Disconnect k) in (w = 0, k))"

text \<open>\<^verbatim>\<open>__AutoIntervalConnect\<close>: the result is the time for which the alarm is set, if it is.\<close>

definition AutoIntervalConnect :: "qword \<Rightarrow> NetType \<Rightarrow> bool \<Rightarrow> dword \<Rightarrow> active_logic \<Rightarrow> longlink \<Rightarrow> qword option \<times> longlink" where
  "AutoIntervalConnect now net noname rnd a k =
     (let (remain, k) = IntervalConnect now net noname rnd kLongLinkConnect a k
      in (if remain = 0 then None else Some remain, k))"

end
