(* ===== verification/Avalanche.thy ===== *)
theory Avalanche imports Stn_Task Interfaces begin

text \<open>
  The guard against request storms (\<^verbatim>\<open>anti_avalanche.cc\<close>): a leaky bucket for the traffic volume
  (\<^verbatim>\<open>flow_limit.cc\<close>) and a table of recent packets by checksum (\<^verbatim>\<open>frequency_limit.cc\<close>,
  \<^verbatim>\<open>comm/adler32.c\<close>). The lemmas show that the checksum with its deferred divisions is the plain
  sum modulo 65521, how much traffic the bucket lets through, and that only a storm of packets with
  one checksum is refused. The reading of the clock is a parameter of each call.
\<close>

unbundle bit_operations_syntax

section \<open>Checksum\<close>

definition BASE :: dword where "BASE = 65521"
definition NMAX :: nat where "NMAX = 5552"

text \<open>\<^verbatim>\<open>DO1\<close>; the larger macros unroll it.\<close>

definition DO1 :: "dword \<times> dword \<Rightarrow> byte \<Rightarrow> dword \<times> dword" where
  "DO1 = (\<lambda>(adler, sum2) b. let adler = adler + ucast b in (adler, sum2 + adler))"

definition MOD_both :: "dword \<times> dword \<Rightarrow> dword \<times> dword" where
  "MOD_both = (\<lambda>(adler, sum2). (adler mod BASE, sum2 mod BASE))"

function adler_blocks :: "dword \<times> dword \<Rightarrow> bytes \<Rightarrow> (dword \<times> dword) \<times> bytes" where
  "adler_blocks s buf =
     (if NMAX \<le> length buf then adler_blocks (MOD_both (foldl DO1 s (take NMAX buf))) (drop NMAX buf) else (s, buf))"
  by auto
termination by (relation "measure (\<lambda>(s, buf). length buf)") (auto simp: NMAX_def)

declare adler_blocks.simps [simp del]

definition adler_join :: "dword \<times> dword \<Rightarrow> dword" where
  "adler_join = (\<lambda>(adler, sum2). adler OR push_bit 16 sum2)"

text \<open>A null pointer is \<open>None\<close>; the one-byte case reads through it.\<close>

definition adler32 :: "dword \<Rightarrow> bytes option \<Rightarrow> nat \<Rightarrow> dword res" where
  "adler32 adler buf len =
     (let sum2 = drop_bit 16 adler AND 0xffff; adler = adler AND 0xffff in
      case buf of
        None \<Rightarrow> if len = 1 then crash NullPointer else ok 1
      | Some bs \<Rightarrow>
          if length bs < len then crash BadRead
          else let bs = take len bs in
          if len = 1 then
            (let adler = adler + ucast (hd bs); adler = (if adler \<ge> BASE then adler - BASE else adler);
                 sum2 = sum2 + adler; sum2 = (if sum2 \<ge> BASE then sum2 - BASE else sum2)
             in ok (adler_join (adler, sum2)))
          else if len < 16 then
            (let (adler, sum2) = foldl DO1 (adler, sum2) bs; adler = (if adler \<ge> BASE then adler - BASE else adler)
             in ok (adler_join (adler, sum2 mod BASE)))
          else let (s, rest) = adler_blocks (adler, sum2) bs
               in ok (adler_join (if rest = [] then s else MOD_both (foldl DO1 s rest))))"

section \<open>Volume\<close>

definition kInactiveSpeed :: int where "kInactiveSpeed = 2 * 1024 * 1024 div 3600"
definition kActiveSpeed :: int where "kActiveSpeed = 8 * 1024 * 1024 div 3600"
definition kInactiveMinvol :: int where "kInactiveMinvol = 6 * 1024 * 1024"
definition kMaxVol :: int where "kMaxVol = 8 * 1024 * 1024"

record flow_limit =
  funnel_speed :: int
  cur_funnel_vol :: int
  time_lastflow_computer :: qword

definition FlowLimit :: "bool \<Rightarrow> qword \<Rightarrow> flow_limit" where
  "FlowLimit isactive now = \<lparr> funnel_speed = (if isactive then kActiveSpeed else kInactiveSpeed), cur_funnel_vol = 0, time_lastflow_computer = now \<rparr>"

text \<open>\<^verbatim>\<open>cur_funnel_vol_ -= interval * funnel_speed_\<close> is computed in 64 unsigned bits and cut to an \<^verbatim>\<open>int\<close>.\<close>

definition FlashCurVol :: "qword \<Rightarrow> flow_limit \<Rightarrow> flow_limit" where
  "FlashCurVol now f =
     (let interval = (now - time_lastflow_computer f) div 1000 in
      if interval = 0 then f
      else let vol = sint (ucast (word_of_int (cur_funnel_vol f) - interval * word_of_int (funnel_speed f)) :: dword)
           in f\<lparr> cur_funnel_vol := max 0 vol, time_lastflow_computer := now \<rparr>)"

definition Flow_Check :: "qword \<Rightarrow> mtask \<Rightarrow> int \<Rightarrow> flow_limit \<Rightarrow> bool \<times> flow_limit" where
  "Flow_Check now t len f =
     (if \<not> mt_limit_flow t then (True, f)
      else let f = FlashCurVol now f in
           if int32 (cur_funnel_vol f + len) > kMaxVol then (False, f)
           else (True, f\<lparr> cur_funnel_vol := int32 (cur_funnel_vol f + len) \<rparr>))"

definition Flow_Active :: "qword \<Rightarrow> bool \<Rightarrow> flow_limit \<Rightarrow> flow_limit" where
  "Flow_Active now isactive f =
     (let f = FlashCurVol now f;
          f = (if \<not> isactive \<and> cur_funnel_vol f > kInactiveMinvol then f\<lparr> cur_funnel_vol := kInactiveMinvol \<rparr> else f)
      in f\<lparr> funnel_speed := (if isactive then kActiveSpeed else kInactiveSpeed) \<rparr>)"

section \<open>Frequency\<close>

definition MAX_RECORD_COUNT :: nat where "MAX_RECORD_COUNT = 30"
definition RECORD_INTERCEPT_COUNT :: int where "RECORD_INTERCEPT_COUNT = 105"
definition NOT_CLEAR_INTERCEPT_COUNT_RETRY :: int where "NOT_CLEAR_INTERCEPT_COUNT_RETRY = 99"
definition NOT_CLEAR_INTERCEPT_COUNT :: int where "NOT_CLEAR_INTERCEPT_COUNT = 75"
definition NOT_CLEAR_INTERCEPT_INTERVAL_MINUTE :: dword where "NOT_CLEAR_INTERCEPT_INTERVAL_MINUTE = 10 * 60 * 1000"
definition RUN_CLEAR_RECORDS_INTERVAL_MINUTE :: dword where "RUN_CLEAR_RECORDS_INTERVAL_MINUTE = 60 * 60 * 1000"

record avalanche_record =
  ar_hash :: dword
  ar_count :: int
  ar_time :: dword

record frequency_limit =
  iarr_record :: "avalanche_record list"
  itime_record_clear :: dword

definition FrequencyLimit :: "qword \<Rightarrow> frequency_limit" where
  "FrequencyLimit now = \<lparr> iarr_record = [], itime_record_clear = ucast now \<rparr>"

fun ClearRecord_list :: "dword \<Rightarrow> avalanche_record list \<Rightarrow> avalanche_record list" where
  "ClearRecord_list time_cur [] = []"
| "ClearRecord_list time_cur (r # rs) =
     (if time_cur - ar_time r \<le> NOT_CLEAR_INTERCEPT_INTERVAL_MINUTE \<and> NOT_CLEAR_INTERCEPT_COUNT \<le> ar_count r
      then (if NOT_CLEAR_INTERCEPT_COUNT_RETRY < ar_count r then r\<lparr> ar_count := NOT_CLEAR_INTERCEPT_COUNT_RETRY \<rparr> else r)
           # ClearRecord_list time_cur rs
      else ClearRecord_list time_cur rs)"

definition ClearRecord :: "qword \<Rightarrow> frequency_limit \<Rightarrow> frequency_limit" where
  "ClearRecord now q = q\<lparr> iarr_record := ClearRecord_list (ucast now) (iarr_record q) \<rparr>"

text \<open>The search runs from the back; \<open>n\<close> is the number of slots still to look at.\<close>

fun locate_back :: "dword \<Rightarrow> avalanche_record list \<Rightarrow> nat \<Rightarrow> nat option" where
  "locate_back hash rs 0 = None"
| "locate_back hash rs (Suc n) = (if ar_hash (rs ! n) = hash then Some n else locate_back hash rs n)"

definition LocateIndex :: "dword \<Rightarrow> frequency_limit \<Rightarrow> nat option" where
  "LocateIndex hash q = locate_back hash (iarr_record q) (length (iarr_record q))"

fun oldest_from :: "avalanche_record list \<Rightarrow> nat \<Rightarrow> nat \<Rightarrow> nat \<Rightarrow> nat" where
  "oldest_from rs del i 0 = del"
| "oldest_from rs del i (Suc n) = oldest_from rs (if ar_time (rs ! del) > ar_time (rs ! i) then i else del) (Suc i) n"

definition InsertRecord :: "qword \<Rightarrow> dword \<Rightarrow> frequency_limit \<Rightarrow> frequency_limit" where
  "InsertRecord now hash q =
     (let rs = iarr_record q in
      if MAX_RECORD_COUNT < length rs then q
      else let temp = \<lparr> ar_hash = hash, ar_count = 1, ar_time = ucast now \<rparr>;
               rs = (if MAX_RECORD_COUNT = length rs
                     then let d = oldest_from rs 0 1 (length rs - 1) in take d rs @ drop (Suc d) rs else rs)
           in q\<lparr> iarr_record := rs @ [temp] \<rparr>)"

definition UpdateRecord :: "qword \<Rightarrow> nat \<Rightarrow> frequency_limit \<Rightarrow> frequency_limit" where
  "UpdateRecord now i q =
     (let r = iarr_record q ! i
      in q\<lparr> iarr_record := (iarr_record q)[i := r\<lparr> ar_count := ar_count r + 1, ar_time := ucast now \<rparr>] \<rparr>)"

definition GetLastUpdateTillNow :: "qword \<Rightarrow> nat \<Rightarrow> frequency_limit \<Rightarrow> dword" where
  "GetLastUpdateTillNow now i q = ucast now - ar_time (iarr_record q ! i)"

definition CheckRecord :: "nat \<Rightarrow> frequency_limit \<Rightarrow> bool" where
  "CheckRecord i q \<longleftrightarrow> ar_count (iarr_record q ! i) \<le> RECORD_INTERCEPT_COUNT"

text \<open>The check, after the checksum \<open>hash\<close> has been computed. The third component is \<^verbatim>\<open>_span\<close>.\<close>

definition Frequency_hash :: "qword \<Rightarrow> dword \<Rightarrow> dword \<Rightarrow> frequency_limit \<Rightarrow> bool \<times> frequency_limit \<times> dword" where
  "Frequency_hash now hash span q =
     (let time_cur = ucast now;
          q = (if RUN_CLEAR_RECORDS_INTERVAL_MINUTE \<le> time_cur - itime_record_clear q
               then ClearRecord now (q\<lparr> itime_record_clear := time_cur \<rparr>) else q)
      in case LocateIndex hash q of
           Some i \<Rightarrow> (let span = GetLastUpdateTillNow now i q; q = UpdateRecord now i q in (CheckRecord i q, q, span))
         | None \<Rightarrow> (True, InsertRecord now hash q, span))"

definition Frequency_Check :: "qword \<Rightarrow> mtask \<Rightarrow> bytes option \<Rightarrow> nat \<Rightarrow> dword \<Rightarrow> frequency_limit \<Rightarrow> (bool \<times> frequency_limit \<times> dword) res" where
  "Frequency_Check now t buffer len span q =
     (if \<not> mt_limit_frequency t then ok (True, q, span)
      else and_then (adler32 0 buffer len) (\<lambda>hash. ok (Frequency_hash now hash span q)))"

section \<open>\<^verbatim>\<open>AntiAvalanche\<close>\<close>

record anti_avalanche =
  av_frequency :: frequency_limit
  av_flow :: flow_limit

definition AntiAvalanche :: "bool \<Rightarrow> qword \<Rightarrow> anti_avalanche" where
  "AntiAvalanche isactive now = \<lparr> av_frequency = FrequencyLimit now, av_flow = FlowLimit isactive now \<rparr>"

text \<open>The last component is what is reported for a refused task: the kind of limit and its parameter.\<close>

definition Avalanche_Check :: "qword \<Rightarrow> NetType \<Rightarrow> mtask \<Rightarrow> bytes option \<Rightarrow> nat \<Rightarrow> anti_avalanche \<Rightarrow> (bool \<times> anti_avalanche \<times> (nat \<times> dword) option) res" where
  "Avalanche_Check now net t buffer len a =
     and_then (Frequency_Check now t buffer len 0 (av_frequency a)) (\<lambda>(pass, q, span).
     let a = a\<lparr> av_frequency := q \<rparr> in
     if \<not> pass then ok (False, a, Some (1, span))
     else if net = kMobile
     then let (pass, f) = Flow_Check now t (int len) (av_flow a); a = a\<lparr> av_flow := f \<rparr>
          in ok (pass, a, if pass then None else Some (2, of_nat len))
     else ok (True, a, None))"

definition Avalanche_OnSignalActive :: "qword \<Rightarrow> bool \<Rightarrow> anti_avalanche \<Rightarrow> anti_avalanche" where
  "Avalanche_OnSignalActive now isactive a = a\<lparr> av_flow := Flow_Active now isactive (av_flow a) \<rparr>"

section \<open>The checksum is the plain one\<close>

text \<open>Adler's sums with a division after every byte, over the natural numbers.\<close>

definition adler_ref :: "nat \<times> nat \<Rightarrow> bytes \<Rightarrow> nat \<times> nat" where
  "adler_ref = foldl (\<lambda>(a, s) b. let a = (a + unat b) mod 65521 in (a, (s + a) mod 65521))"

definition plain_sums :: "nat \<times> nat \<Rightarrow> bytes \<Rightarrow> nat \<times> nat" where
  "plain_sums = foldl (\<lambda>(a, s) b. (a + unat b, s + a + unat b))"

definition nats :: "dword \<times> dword \<Rightarrow> nat \<times> nat" where
  "nats = (\<lambda>(a, s). (unat a, unat s))"

definition small :: "nat \<times> nat \<Rightarrow> bool" where
  "small = (\<lambda>(a, s). a < 65521 \<and> s < 65521)"

lemma plain_sums_Nil [simp]: "plain_sums p [] = p"
  by (simp add: plain_sums_def)

lemma plain_sums_Cons: "plain_sums (a, s) (b # bs) = plain_sums (a + unat b, s + a + unat b) bs"
  by (simp add: plain_sums_def)

lemma plain_sums_append: "plain_sums p (xs @ ys) = plain_sums (plain_sums p xs) ys"
  by (simp add: plain_sums_def)

lemma adler_ref_append: "adler_ref p (xs @ ys) = adler_ref (adler_ref p xs) ys"
  by (simp add: adler_ref_def)

lemma plain_bounds:
  "fst (plain_sums (a, s) bs) \<le> a + 255 * length bs
   \<and> 2 * snd (plain_sums (a, s) bs) \<le> 2 * s + 2 * length bs * a + 255 * (length bs * (length bs + 1))"
proof (induction bs arbitrary: a s)
  case (Cons b bs)
  have b: "unat b \<le> 255" using unat_byte_lt [of b] by simp
  note IH = Cons.IH [of "a + unat b" "s + a + unat b"]
  have d: "length bs * unat b \<le> length bs * 255" using b by (rule mult_le_mono2)
  have "2 * snd (plain_sums (a, s) (b # bs)) \<le> 2 * (s + a + unat b) + 2 * length bs * (a + unat b) + 255 * (length bs * (length bs + 1))"
    using IH unfolding plain_sums_Cons by (rule conjunct2)
  also have "\<dots> = 2 * s + 2 * (length bs + 1) * a + 2 * unat b + 2 * (length bs * unat b) + 255 * (length bs * (length bs + 1))"
    by (simp add: algebra_simps)
  also have "\<dots> \<le> 2 * s + 2 * (length bs + 1) * a + 2 * 255 + 2 * (length bs * 255) + 255 * (length bs * (length bs + 1))"
    using b d by (intro add_mono mult_le_mono order_refl)
  finally show ?case
    using IH b by (simp add: plain_sums_Cons algebra_simps)
qed simp

lemma plain_mod:
  assumes "small (a, s)"
  shows "adler_ref (a, s) bs = (fst (plain_sums (a, s) bs) mod 65521, snd (plain_sums (a, s) bs) mod 65521)"
proof -
  have *: "adler_ref (a mod 65521, s mod 65521) bs
      = (fst (plain_sums (a, s) bs) mod 65521, snd (plain_sums (a, s) bs) mod 65521)" for a s
  proof (induction bs arbitrary: a s)
    case (Cons b bs)
    have "adler_ref (a mod 65521, s mod 65521) (b # bs)
        = adler_ref ((a mod 65521 + unat b) mod 65521, (s mod 65521 + (a mod 65521 + unat b) mod 65521) mod 65521) bs"
      by (simp add: adler_ref_def Let_def)
    also have "\<dots> = adler_ref ((a + unat b) mod 65521, (s + a + unat b) mod 65521) bs"
      by (simp add: mod_add_eq mod_add_left_eq mod_add_right_eq add.assoc)
    finally show ?case using Cons.IH [of "a + unat b" "s + a + unat b"] by (simp add: plain_sums_Cons)
  qed (simp add: adler_ref_def)
  show ?thesis using * [of a s] assms by (simp add: small_def)
qed

lemma plain_mono: "fst p \<le> fst (plain_sums p bs) \<and> snd p \<le> snd (plain_sums p bs)"
proof (induction bs arbitrary: p)
  case (Cons b bs)
  obtain a s where p: "p = (a, s)" by (cases p)
  show ?case using Cons.IH [of "(a + unat b, s + a + unat b)"] by (simp add: p plain_sums_Cons)
qed simp

lemma DO1_exact:
  assumes "snd (plain_sums (nats p) bs) < 2 ^ 32" "fst (plain_sums (nats p) bs) < 2 ^ 32"
  shows "nats (foldl DO1 p bs) = plain_sums (nats p) bs"
  using assms
proof (induction bs arbitrary: p)
  case (Cons b bs)
  obtain a s where p: "p = (a, s)" by (cases p)
  let ?n = "(unat a + unat b, unat s + unat a + unat b)"
  have cons: "plain_sums (nats p) (b # bs) = plain_sums ?n bs"
    by (simp add: p nats_def plain_sums_Cons)
  then have lt: "snd (plain_sums ?n bs) < 2 ^ 32" "fst (plain_sums ?n bs) < 2 ^ 32"
    using Cons.prems by simp_all
  with plain_mono [of ?n bs] have "unat a + unat b < 2 ^ 32" "unat s + unat a + unat b < 2 ^ 32" by auto
  then have step: "nats (DO1 p b) = ?n"
    by (simp add: p nats_def DO1_def Let_def unat_word_ariths)
  have "foldl DO1 p (b # bs) = foldl DO1 (DO1 p b) bs" by simp
  then show ?case
    using Cons.IH [of "DO1 p b"] lt cons unfolding step by simp
qed simp

lemma block_fits:
  assumes "small q" "length bs \<le> 5552"
  shows "snd (plain_sums q bs) < 2 ^ 32" "fst (plain_sums q bs) < 2 ^ 32"
proof -
  obtain a s where q: "q = (a, s)" by (cases q)
  let ?n = "length bs"
  have as: "a \<le> 65520" "s \<le> 65520" using assms(1) by (simp_all add: q small_def)
  have "?n * (?n + 1) \<le> 5552 * 5553" by (rule mult_le_mono) (use assms(2) in simp_all)
  moreover have "?n * a \<le> 5552 * 65520" by (rule mult_le_mono) (use assms(2) as in simp_all)
  ultimately show "snd (plain_sums q bs) < 2 ^ 32" "fst (plain_sums q bs) < 2 ^ 32"
    using plain_bounds [of a s bs] as assms(2) by (simp_all add: q)
qed

lemma block_step:
  assumes "small (nats p)" "length bs \<le> 5552"
  shows "nats (MOD_both (foldl DO1 p bs)) = adler_ref (nats p) bs"
proof -
  obtain a s where n: "nats p = (a, s)" by (cases "nats p")
  have "nats (foldl DO1 p bs) = plain_sums (nats p) bs"
    by (rule DO1_exact) (use block_fits [OF assms] in simp_all)
  moreover have "nats (MOD_both q) = (fst (nats q) mod 65521, snd (nats q) mod 65521)" for q
    by (simp add: MOD_both_def nats_def BASE_def unat_mod split: prod.splits)
  ultimately show ?thesis
    using plain_mod [of a s bs] assms(1) by (simp add: n)
qed

lemma small_ref: "small p \<Longrightarrow> small (adler_ref p bs)"
proof (cases p)
  case (Pair a s)
  assume "small p"
  then show ?thesis using plain_mod [of a s bs] by (simp add: Pair small_def)
qed

lemma blocks_ref:
  assumes "small (nats p)" "adler_blocks p bs = (q, rest)"
  shows "adler_ref (nats p) bs = adler_ref (nats q) rest \<and> small (nats q) \<and> length rest < 5552"
  using assms
proof (induction p bs arbitrary: q rest rule: adler_blocks.induct)
  case (1 p bs)
  show ?case
  proof (cases "NMAX \<le> length bs")
    case True
    let ?p = "MOD_both (foldl DO1 p (take NMAX bs))"
    have st: "nats ?p = adler_ref (nats p) (take NMAX bs)"
      by (rule block_step) (use 1(2) in \<open>simp_all add: NMAX_def\<close>)
    have "small (nats ?p)" using small_ref [OF 1(2)] by (simp add: st)
    moreover have "adler_blocks ?p (drop NMAX bs) = (q, rest)"
      using 1(3) True by (simp add: adler_blocks.simps [of p bs])
    ultimately have "adler_ref (nats ?p) (drop NMAX bs) = adler_ref (nats q) rest \<and> small (nats q) \<and> length rest < 5552"
      by (rule 1(1) [OF True])
    then show ?thesis using adler_ref_append [of "nats p" "take NMAX bs" "drop NMAX bs"] by (simp add: st)
  next
    case False
    then show ?thesis using 1(2,3) by (simp add: adler_blocks.simps [of p bs] NMAX_def)
  qed
qed

lemma halves:
  fixes w :: dword
  shows "unat (w AND 0xffff) < 65536" "unat (drop_bit 16 w AND 0xffff) < 65536"
proof -
  have "v AND 0xffff = take_bit 16 v" for v :: dword
    by (simp add: take_bit_eq_mask mask_eq_exp_minus_1)
  then show "unat (w AND 0xffff) < 65536" "unat (drop_bit 16 w AND 0xffff) < 65536"
    by (simp_all only: unsigned_take_bit_eq) (simp_all add: take_bit_eq_mod)
qed

lemma once_mod: "unat (a :: dword) < 2 * 65521 \<Longrightarrow> unat (if a \<ge> BASE then a - BASE else a) = unat a mod 65521"
  by (auto simp: BASE_def word_le_nat_alt unat_sub not_le le_mod_geq)

lemma unat_plus_dword: "unat (a :: dword) + unat b < 4294967296 \<Longrightarrow> unat (a + b) = unat a + unat b"
  by (simp add: unat_word_ariths)

lemma adler_join_nats: "adler_join p = adler_join (of_nat (fst (nats p)), of_nat (snd (nats p)))"
  by (cases p) (simp add: adler_join_def nats_def)

lemma adler32_plain:
  assumes "a0 = unat (adler AND 0xffff)" "s0 = unat (drop_bit 16 adler AND 0xffff)" "small (a0, s0)"
  shows "adler32 adler (Some bs) (length bs) = ok (let (a, s) = adler_ref (a0, s0) bs in adler_join (of_nat a, of_nat s))"
proof -
  let ?p = "(adler AND 0xffff, drop_bit 16 adler AND 0xffff)"
  have p: "nats ?p = (a0, s0)" using assms by (simp add: nats_def)
  have goal: ?thesis if "adler32 adler (Some bs) (length bs) = ok (adler_join q)" "nats q = adler_ref (a0, s0) bs" for q
    using that adler_join_nats [of q] by (simp add: case_prod_unfold Let_def)
  show ?thesis
  proof (cases "length bs = 1")
    case True
    then obtain b where b: "bs = [b]" by (cases bs) auto
    let ?a = "(adler AND 0xffff) + ucast b" and ?once = "\<lambda>x::dword. if x \<ge> BASE then x - BASE else x"
    have lt: "a0 + unat b < 2 * 65521"
      using assms(3) unat_byte_lt [of b] by (simp add: small_def)
    then have a: "unat ?a = a0 + unat b" "a0 + unat b < 2 * 65521"
      using unat_plus_dword [of "adler AND 0xffff" "ucast b"] by (simp_all add: assms(1))
    then have 1: "unat (?once ?a) = (a0 + unat b) mod 65521" using once_mod [of ?a] by simp
    let ?s = "(drop_bit 16 adler AND 0xffff) + ?once ?a"
    have m: "(a0 + unat b) mod 65521 < 65521" by simp
    then have lt: "s0 + (a0 + unat b) mod 65521 < 2 * 65521"
      using assms(3) unfolding small_def prod.case by linarith
    then have s: "unat ?s = s0 + (a0 + unat b) mod 65521" "s0 + (a0 + unat b) mod 65521 < 2 * 65521"
      using unat_plus_dword [of "drop_bit 16 adler AND 0xffff" "?once ?a"] unfolding 1 assms(2) by linarith+
    then have 2: "unat (?once ?s) = (s0 + (a0 + unat b) mod 65521) mod 65521" using once_mod [of ?s] by simp
    show ?thesis
      by (rule goal [of "(?once ?a, ?once ?s)"])
        (simp_all only: nats_def prod.case 1 2, simp_all add: b adler32_def adler_ref_def Let_def)
  next
    case False
    show ?thesis
    proof (cases "length bs < 16")
      case True
      let ?q = "foldl DO1 ?p bs"
      have q: "nats ?q = plain_sums (a0, s0) bs"
        using DO1_exact [of ?p bs] block_fits [OF assms(3), of bs] True by (simp add: p)
      have "fst (plain_sums (a0, s0) bs) < 2 * 65521"
        using plain_bounds [of a0 s0 bs] True assms(3) by (simp add: small_def)
      then have "nats (if fst ?q \<ge> BASE then fst ?q - BASE else fst ?q, snd ?q mod BASE) = adler_ref (a0, s0) bs"
        using once_mod [of "fst ?q"] q plain_mod [OF assms(3), of bs]
        by (simp add: nats_def case_prod_unfold unat_mod BASE_def prod_eq_iff)
      then show ?thesis
        using True False by (intro goal) (simp_all add: adler32_def Let_def case_prod_unfold)
    next
      case big: False
      obtain q rest where br: "adler_blocks ?p bs = (q, rest)" by (cases "adler_blocks ?p bs")
      have r: "adler_ref (a0, s0) bs = adler_ref (nats q) rest" "small (nats q)" "length rest < 5552"
        using blocks_ref [OF _ br] assms(3) by (simp_all add: p)
      have "nats (if rest = [] then q else MOD_both (foldl DO1 q rest)) = adler_ref (a0, s0) bs"
        using block_step [OF r(2)] r by (auto simp: adler_ref_def)
      then show ?thesis
        using False big br by (intro goal) (simp_all add: adler32_def Let_def)
    qed
  qed
qed

section \<open>The leaky bucket\<close>

datatype flow_event = FlowPacket qword int | FlowActivity qword bool

text \<open>The limiter, the bytes it let through and the number of times the client went inactive.\<close>

definition flow_step :: "flow_limit \<times> int \<times> nat \<Rightarrow> flow_event \<Rightarrow> flow_limit \<times> int \<times> nat" where
  "flow_step = (\<lambda>(f, passed, n) e. case e of
     FlowPacket now len \<Rightarrow> (let (pass, f) = Flow_Check now (new_mtask 0) len f in (f, if pass then passed + len else passed, n))
   | FlowActivity now isactive \<Rightarrow> (Flow_Active now isactive f, passed, if isactive then n else Suc n))"

text \<open>The clock does not run backwards, no pause is longer than ten days and a half, and a packet has
  less than a gigabyte.\<close>

definition flow_fresh :: "flow_limit \<times> int \<times> nat \<Rightarrow> flow_event \<Rightarrow> bool" where
  "flow_fresh = (\<lambda>(f, _, _) e.
     let now = (case e of FlowPacket now _ \<Rightarrow> now | FlowActivity now _ \<Rightarrow> now)
     in time_lastflow_computer f \<le> now \<and> unat (now - time_lastflow_computer f) < 921000000
        \<and> (case e of FlowPacket _ len \<Rightarrow> 0 \<le> len \<and> len < 2 ^ 30 | _ \<Rightarrow> True))"

definition flow_ok :: "flow_limit \<Rightarrow> bool" where
  "flow_ok f \<longleftrightarrow> 0 \<le> cur_funnel_vol f \<and> cur_funnel_vol f \<le> kMaxVol \<and> funnel_speed f \<in> {kInactiveSpeed, kActiveSpeed}"

definition flow_inv :: "qword \<Rightarrow> flow_limit \<times> int \<times> nat \<Rightarrow> bool" where
  "flow_inv t0 = (\<lambda>(f, passed, n). flow_ok f \<and> t0 \<le> time_lastflow_computer f \<and>
     passed \<le> cur_funnel_vol f + kActiveSpeed * int (unat (time_lastflow_computer f - t0) div 1000) + 2 * 1024 * 1024 * int n)"

lemma flow_numbers: "kInactiveSpeed = 582" "kActiveSpeed = 2330" "kMaxVol = 8388608" "kInactiveMinvol = 6291456"
  by (simp_all add: kInactiveSpeed_def kActiveSpeed_def kMaxVol_def kInactiveMinvol_def)

lemma qword_eq_nat: "n < 2 ^ 64 \<Longrightarrow> (x :: qword) = of_nat n \<longleftrightarrow> unat x = n"
  by (auto simp: word_unat_eq_iff unat_of_nat)

lemma seconds: "(d :: qword) div 1000 = of_nat (unat d div 1000)"
proof -
  have "unat d < 2 ^ 64" using unsigned_less [of d] by simp
  then have "unat d div 1000 < 2 ^ 64" by (rule le_less_trans [OF div_le_dividend])
  then show ?thesis by (simp add: qword_eq_nat unat_div)
qed

lemma sint_cut: "- (2 ^ 31) \<le> x \<Longrightarrow> x < 2 ^ 31 \<Longrightarrow> sint (ucast (word_of_int x :: qword) :: dword) = x"
proof -
  assume x: "- (2 ^ 31) \<le> x" "x < 2 ^ 31"
  have "(ucast (word_of_int x :: qword) :: dword) = word_of_int x"
    by (rule bit_word_eqI) (auto simp: bit_simps)
  then show ?thesis using x by (simp add: signed_of_int signed_take_bit_int_eq_self)
qed

lemma FlashCurVol_exact:
  assumes "flow_ok f" "unat (now - time_lastflow_computer f) < 921000000"
  shows "FlashCurVol now f =
    (let i = unat (now - time_lastflow_computer f) div 1000
     in if i = 0 then f else f\<lparr> cur_funnel_vol := max 0 (cur_funnel_vol f - int i * funnel_speed f), time_lastflow_computer := now \<rparr>)"
proof -
  let ?i = "unat (now - time_lastflow_computer f) div 1000"
  let ?x = "cur_funnel_vol f - int ?i * funnel_speed f"
  have i: "?i \<le> 920999" using assms(2) by simp
  have sp: "0 \<le> funnel_speed f" "funnel_speed f \<le> 2330" using assms(1) by (auto simp: flow_ok_def flow_numbers)
  have "int ?i * funnel_speed f \<le> 920999 * 2330" by (rule mult_mono) (use i sp in auto)
  moreover have "0 \<le> int ?i * funnel_speed f" using sp by simp
  ultimately have x: "- (2 ^ 31) \<le> ?x" "?x < 2 ^ 31" using assms(1) by (simp_all add: flow_ok_def flow_numbers)
  have w: "(word_of_int (cur_funnel_vol f) - of_nat ?i * word_of_int (funnel_speed f) :: qword) = word_of_int ?x"
    by simp
  have z: "((of_nat ?i :: qword) = 0) = (?i = 0)"
    using i qword_eq_nat [of ?i 0] by (auto simp del: of_nat_0_eq_iff)
  show ?thesis
    unfolding FlashCurVol_def Let_def seconds w z sint_cut [OF x] by simp
qed

lemma flash_inv:
  assumes "flow_inv t0 (f, passed, n)" "time_lastflow_computer f \<le> now" "unat (now - time_lastflow_computer f) < 921000000"
  shows "flow_inv t0 (FlashCurVol now f, passed, n)"
proof (cases "unat (now - time_lastflow_computer f) div 1000 = 0")
  case True
  then show ?thesis using assms by (simp add: FlashCurVol_exact flow_inv_def)
next
  case False
  let ?l = "time_lastflow_computer f" let ?i = "unat (now - ?l) div 1000"
  have t: "t0 \<le> ?l" and ok: "flow_ok f" using assms(1) by (simp_all add: flow_inv_def)
  have sp: "0 \<le> funnel_speed f" "funnel_speed f \<le> 2330" using ok by (auto simp: flow_ok_def flow_numbers)
  have "unat (now - t0) = unat (now - ?l) + unat (?l - t0)"
    using t assms(2) by (simp add: unat_sub word_le_nat_alt)
  then have "unat (?l - t0) div 1000 + ?i \<le> unat (now - t0) div 1000" by simp
  then have secs: "2330 * int (unat (?l - t0) div 1000) + 2330 * int ?i \<le> 2330 * int (unat (now - t0) div 1000)"
    by linarith
  obtain L where L: "int ?i * funnel_speed f = L" "L \<le> 2330 * int ?i" "0 \<le> L"
    using mult_right_mono [OF sp(2), of "int ?i"] sp(1) by (simp add: mult.commute)
  have "t0 \<le> now" using t assms(2) by simp
  moreover have "passed \<le> max 0 (cur_funnel_vol f - L) + 2330 * int (unat (now - t0) div 1000) + 2 * 1024 * 1024 * int n"
    using assms(1) secs L(2) unfolding flow_inv_def flow_numbers prod.case by linarith
  ultimately show ?thesis
    using ok L(3) False
    unfolding FlashCurVol_exact [OF ok assms(3)] flow_inv_def flow_ok_def flow_numbers Let_def L(1)
    by simp
qed

lemma flow_step_inv:
  assumes "flow_inv t0 s" "flow_fresh s e"
  shows "flow_inv t0 (flow_step s e)"
proof -
  obtain f passed n where s: "s = (f, passed, n)" by (cases s)
  show ?thesis
  proof (cases e)
    case (FlowPacket now len)
    let ?f = "FlashCurVol now f"
    have i: "flow_inv t0 (?f, passed, n)" and len: "0 \<le> len" "len < 2 ^ 30"
      using flash_inv assms by (simp_all add: s flow_fresh_def FlowPacket)
    then have "int32 (cur_funnel_vol ?f + len) = cur_funnel_vol ?f + len"
      by (intro int32_id) (simp_all add: flow_inv_def flow_ok_def flow_numbers)
    then show ?thesis
      using i len by (simp add: s FlowPacket flow_step_def Flow_Check_def new_mtask_def Let_def flow_inv_def flow_ok_def)
  next
    case (FlowActivity now a)
    have "flow_inv t0 (FlashCurVol now f, passed, n)"
      using flash_inv assms by (simp add: s flow_fresh_def FlowActivity)
    then show ?thesis
      by (auto simp: s FlowActivity flow_step_def Flow_Active_def Let_def flow_inv_def flow_ok_def flow_numbers)
  qed
qed

interpretation bucket: guarded_machine flow_fresh flow_step "flow_inv t0" for t0
  by unfold_locales (rule flow_step_inv)




section \<open>The packet table\<close>

definition freq_step :: "frequency_limit \<Rightarrow> qword \<times> dword \<Rightarrow> frequency_limit" where
  "freq_step q e = fst (snd (Frequency_hash (fst e) (snd e) 0 q))"

definition hashes :: "frequency_limit \<Rightarrow> dword list" where
  "hashes q = map ar_hash (iarr_record q)"

definition seen :: "(qword \<times> dword) list \<Rightarrow> dword \<Rightarrow> nat" where
  "seen es h = count_list (map snd es) h"

text \<open>What every table of a run satisfies.\<close>

definition freq_inv :: "(qword \<times> dword) list \<Rightarrow> frequency_limit \<Rightarrow> bool" where
  "freq_inv es q \<longleftrightarrow> distinct (hashes q) \<and> length (hashes q) \<le> MAX_RECORD_COUNT
     \<and> (\<forall>r \<in> set (iarr_record q). ar_count r \<le> int (seen es (ar_hash r)))"

lemma locate_back_Some: "locate_back h rs n = Some i \<Longrightarrow> i < n \<and> ar_hash (rs ! i) = h"
  by (induction n) (auto split: if_splits)

lemma locate_back_None: "locate_back h rs n = None \<Longrightarrow> i < n \<Longrightarrow> ar_hash (rs ! i) \<noteq> h"
  by (induction n) (auto split: if_splits simp: less_Suc_eq)

lemma LocateIndex_Some: "LocateIndex h q = Some i \<Longrightarrow> i < length (iarr_record q) \<and> ar_hash (iarr_record q ! i) = h"
  by (simp add: LocateIndex_def locate_back_Some)

lemma LocateIndex_None: "LocateIndex h q = None \<longleftrightarrow> h \<notin> set (hashes q)"
proof
  assume "LocateIndex h q = None"
  then show "h \<notin> set (hashes q)"
    by (auto simp: LocateIndex_def hashes_def in_set_conv_nth dest: locate_back_None)
next
  assume "h \<notin> set (hashes q)"
  then show "LocateIndex h q = None"
    using LocateIndex_Some [of h q] by (cases "LocateIndex h q") (force simp: hashes_def)+
qed

lemma seen_snoc: "seen (es @ [e]) h = seen es h + (if snd e = h then 1 else 0)"
  by (simp add: seen_def)

lemma ClearRecord_list_sub:
  "r \<in> set (ClearRecord_list t rs) \<Longrightarrow> \<exists>r' \<in> set rs. ar_hash r = ar_hash r' \<and> ar_count r \<le> ar_count r'"
  by (induction rs) (auto split: if_splits)

lemma ClearRecord_list_shape:
  "distinct (map ar_hash rs) \<Longrightarrow> distinct (map ar_hash (ClearRecord_list t rs))"
  "length (ClearRecord_list t rs) \<le> length rs"
  using ClearRecord_list_sub by (induction rs) (auto split: if_splits, fastforce+)

lemma freq_inv_clear:
  assumes "freq_inv es q"
  shows "freq_inv es (ClearRecord now (q\<lparr> itime_record_clear := t \<rparr>))"
proof -
  have "ar_count r \<le> int (seen es (ar_hash r))" if "r \<in> set (ClearRecord_list (ucast now) (iarr_record q))" for r
    using ClearRecord_list_sub [OF that] assms by (fastforce simp: freq_inv_def)
  then show ?thesis
    using assms ClearRecord_list_shape [where rs = "iarr_record q" and t = "ucast now"]
    by (auto simp: freq_inv_def ClearRecord_def hashes_def intro: order_trans)
qed

lemma freq_inv_update:
  assumes "freq_inv es q" "LocateIndex h q = Some i"
  shows "freq_inv (es @ [(t, h)]) (UpdateRecord now i q)"
proof -
  note i = LocateIndex_Some [OF assms(2)]
  let ?r = "(iarr_record q ! i)\<lparr> ar_count := ar_count (iarr_record q ! i) + 1, ar_time := ucast now \<rparr>"
  have "hashes (UpdateRecord now i q) = hashes q"
    by (simp add: hashes_def UpdateRecord_def Let_def map_update list_update_same_conv i)
  moreover have "ar_count r \<le> int (seen (es @ [(t, h)]) (ar_hash r))" if "r \<in> set (iarr_record (UpdateRecord now i q))" for r
  proof (cases "r = ?r")
    case True
    then show ?thesis using assms(1) i by (auto simp: freq_inv_def seen_snoc)
  next
    case False
    then have "r \<in> set (iarr_record q)"
      using that set_update_subset_insert [of "iarr_record q" i ?r] by (auto simp: UpdateRecord_def Let_def)
    then show ?thesis using assms(1) by (auto simp: freq_inv_def seen_snoc)
  qed
  ultimately show ?thesis using assms(1) by (simp add: freq_inv_def)
qed

lemma oldest_from_lt: "del < m \<Longrightarrow> i + n \<le> m \<Longrightarrow> oldest_from rs del i n < m"
  by (induction n arbitrary: del i) auto

lemma freq_inv_insert:
  assumes "freq_inv es q" "LocateIndex h q = None"
  shows "freq_inv (es @ [(t, h)]) (InsertRecord now h q)"
proof -
  let ?rs = "iarr_record q" let ?t = "\<lparr> ar_hash = h, ar_count = 1, ar_time = ucast now \<rparr>"
  obtain ks where ks: "iarr_record (InsertRecord now h q) = ks @ [?t]" "set ks \<subseteq> set ?rs"
      "distinct (map ar_hash ks)" "length ks < MAX_RECORD_COUNT"
  proof (cases "MAX_RECORD_COUNT = length ?rs")
    case True
    let ?d = "oldest_from ?rs 0 1 (length ?rs - 1)"
    let ?ks = "take ?d ?rs @ drop (Suc ?d) ?rs"
    have d: "?d < length ?rs" using oldest_from_lt [of 0 "length ?rs" 1] True by (simp add: MAX_RECORD_COUNT_def)
    then have rs: "?rs = take ?d ?rs @ ?rs ! ?d # drop (Suc ?d) ?rs" by (rule id_take_nth_drop)
    have "distinct (map ar_hash ?ks)"
      using assms(1) arg_cong [OF rs, of "\<lambda>xs. distinct (map ar_hash xs)"] by (auto simp: freq_inv_def hashes_def)
    then show ?thesis
      using True d that [of ?ks] set_take_subset [of ?d ?rs] set_drop_subset [of "Suc ?d" ?rs]
      by (simp add: InsertRecord_def Let_def MAX_RECORD_COUNT_def)
  next
    case False
    then show ?thesis
      using assms(1) that [of ?rs] by (auto simp: InsertRecord_def Let_def freq_inv_def hashes_def)
  qed
  then show ?thesis
    using assms by (fastforce simp: freq_inv_def hashes_def LocateIndex_None seen_snoc subset_iff image_iff)
qed

text \<open>The table as the check looks at it.\<close>

definition freq_table :: "qword \<Rightarrow> frequency_limit \<Rightarrow> frequency_limit" where
  "freq_table now q =
     (if RUN_CLEAR_RECORDS_INTERVAL_MINUTE \<le> ucast now - itime_record_clear q
      then ClearRecord now (q\<lparr> itime_record_clear := ucast now \<rparr>) else q)"

lemma Frequency_hash_cases:
  "Frequency_hash now h span q =
    (case LocateIndex h (freq_table now q) of
       Some i \<Rightarrow> (ar_count (iarr_record (freq_table now q) ! i) < RECORD_INTERCEPT_COUNT,
                 UpdateRecord now i (freq_table now q), ucast now - ar_time (iarr_record (freq_table now q) ! i))
     | None \<Rightarrow> (True, InsertRecord now h (freq_table now q), span))"
  by (auto simp: Frequency_hash_def freq_table_def Let_def CheckRecord_def UpdateRecord_def GetLastUpdateTillNow_def
      split: option.splits dest: LocateIndex_Some)

lemma freq_inv_table: "freq_inv es q \<Longrightarrow> freq_inv es (freq_table now q)"
  by (simp add: freq_table_def freq_inv_clear)

lemma freq_step_inv: "freq_inv es q \<Longrightarrow> freq_inv (es @ [e]) (freq_step q e)"
  using freq_inv_table [of es q "fst e"]
  by (cases e) (auto simp: freq_step_def Frequency_hash_cases split: option.splits intro: freq_inv_update freq_inv_insert)

lemma freq_run_inv: "freq_inv es (run_events freq_step (FrequencyLimit t0) es)"
proof (induction es rule: rev_induct)
  case Nil
  then show ?case by (simp add: freq_inv_def FrequencyLimit_def hashes_def)
next
  case (snoc e es)
  then show ?case by (simp add: run_events_append freq_step_inv)
qed

lemma refused_seen:
  assumes "freq_inv es q" "\<not> fst (Frequency_hash now h span q)"
  shows "105 \<le> seen es h"
proof -
  obtain i where i: "LocateIndex h (freq_table now q) = Some i"
      "RECORD_INTERCEPT_COUNT \<le> ar_count (iarr_record (freq_table now q) ! i)"
    using assms(2) by (auto simp: Frequency_hash_cases split: option.splits)
  have "\<forall>r \<in> set (iarr_record (freq_table now q)). ar_count r \<le> int (seen es (ar_hash r))"
    using freq_inv_table [OF assms(1)] by (simp add: freq_inv_def)
  then show ?thesis
    using LocateIndex_Some [OF i(1)] i(2) nth_mem [of i "iarr_record (freq_table now q)"] by (fastforce simp: RECORD_INTERCEPT_COUNT_def)
qed

text \<open>Within an hour, and with at most thirty different packets, the counts are exact.\<close>

definition within_hour :: "qword \<Rightarrow> qword \<Rightarrow> bool" where
  "within_hour t0 t \<longleftrightarrow> (ucast t - ucast t0 :: dword) < RUN_CLEAR_RECORDS_INTERVAL_MINUTE"

definition freq_exact :: "qword \<Rightarrow> (qword \<times> dword) list \<Rightarrow> frequency_limit \<Rightarrow> bool" where
  "freq_exact t0 es q \<longleftrightarrow> itime_record_clear q = ucast t0 \<and> distinct (hashes q) \<and> set (hashes q) = snd ` set es
     \<and> (\<forall>r \<in> set (iarr_record q). ar_count r = int (seen es (ar_hash r)))"

lemma freq_table_hour: "freq_exact t0 es q \<Longrightarrow> within_hour t0 now \<Longrightarrow> freq_table now q = q"
  by (simp add: freq_table_def freq_exact_def within_hour_def)

lemma freq_exact_step:
  assumes "freq_exact t0 es q" "within_hour t0 t" "card (snd ` set (es @ [(t, h)])) \<le> 30"
  shows "freq_exact t0 (es @ [(t, h)]) (freq_step q (t, h))"
proof (cases "LocateIndex h q")
  case (Some i)
  note i = LocateIndex_Some [OF Some]
  let ?r = "(iarr_record q ! i)\<lparr> ar_count := ar_count (iarr_record q ! i) + 1, ar_time := ucast t \<rparr>"
  have st: "freq_step q (t, h) = UpdateRecord t i q"
    using Some freq_table_hour [OF assms(1,2)] by (simp add: freq_step_def Frequency_hash_cases)
  have hs: "hashes (UpdateRecord t i q) = hashes q"
    by (simp add: hashes_def UpdateRecord_def Let_def map_update list_update_same_conv i)
  have h: "h \<in> set (hashes q)" using i by (force simp: hashes_def)
  have "ar_count r = int (seen (es @ [(t, h)]) (ar_hash r))" if r: "r \<in> set ((iarr_record q)[i := ?r])" for r
  proof -
    obtain j where j: "j < length (iarr_record q)" "r = (iarr_record q)[i := ?r] ! j"
      using r by (auto simp: in_set_conv_nth)
    have "ar_hash (iarr_record q ! j) \<noteq> h" if "j \<noteq> i"
      using assms(1) j(1) i that nth_eq_iff_index_eq [of "hashes q" j i] by (auto simp: freq_exact_def hashes_def)
    then show ?thesis
      using j assms(1) i by (cases "j = i") (auto simp: freq_exact_def seen_snoc)
  qed
  then have "\<forall>r \<in> set (iarr_record (UpdateRecord t i q)). ar_count r = int (seen (es @ [(t, h)]) (ar_hash r))"
    by (simp add: UpdateRecord_def Let_def)
  moreover have "set (hashes q) = snd ` set (es @ [(t, h)])" 
  proof -
    have "set (hashes q) = snd ` set es" using assms(1) by (simp only: freq_exact_def)
    with h show ?thesis by (simp add: insert_absorb)
  qed
  moreover have "itime_record_clear (UpdateRecord t i q) = ucast t0" "distinct (hashes q)"
    using conjunct1 [OF assms(1) [unfolded freq_exact_def]] conjunct1 [OF conjunct2 [OF assms(1) [unfolded freq_exact_def]]]
    by (simp_all add: UpdateRecord_def Let_def)
  ultimately show ?thesis
    unfolding st freq_exact_def hs by (intro conjI)
next
  case None
  have "length (hashes q) < 30"
  proof -
    have d: "distinct (hashes q)" and e: "set (hashes q) = snd ` set es"
      using assms(1) by (simp_all only: freq_exact_def)
    have "h \<notin> snd ` set es" using None e by (simp only: LocateIndex_None) simp
    then have "card (snd ` set (es @ [(t, h)])) = Suc (card (snd ` set es))" by simp
    moreover have "length (hashes q) = card (snd ` set es)" using distinct_card [OF d] by (simp only: e)
    ultimately show ?thesis using assms(3) by linarith
  qed
  then have "iarr_record (freq_step q (t, h)) = iarr_record q @ [\<lparr> ar_hash = h, ar_count = 1, ar_time = ucast t \<rparr>]"
      "itime_record_clear (freq_step q (t, h)) = itime_record_clear q"
    using None freq_table_hour [OF assms(1,2)]
    by (simp_all add: freq_step_def Frequency_hash_cases InsertRecord_def Let_def hashes_def MAX_RECORD_COUNT_def)
  moreover have "seen es h = 0"
    using None assms(1) by (auto simp: LocateIndex_None freq_exact_def seen_def count_list_0_iff)
  ultimately show ?thesis
    using None assms(1) by (auto simp: freq_exact_def hashes_def LocateIndex_None seen_snoc)
qed

lemma freq_exact_run:
  "(\<forall>e \<in> set es. within_hour t0 (fst e)) \<Longrightarrow> card (snd ` set es) \<le> 30 \<Longrightarrow>
   freq_exact t0 es (run_events freq_step (FrequencyLimit t0) es)"
proof (induction es rule: rev_induct)
  case Nil
  then show ?case by (simp add: freq_exact_def FrequencyLimit_def hashes_def)
next
  case (snoc e es)
  have "card (snd ` set es) \<le> card (snd ` set (es @ [e]))" by (rule card_mono) auto
  then have "freq_exact t0 es (run_events freq_step (FrequencyLimit t0) es)" using snoc by simp
  then show ?case
    using snoc.prems freq_exact_step [of t0 es _ "fst e" "snd e"] by (simp add: run_events_append)
qed

lemma freq_exact_check:
  assumes "freq_exact t0 es q" "within_hour t0 now"
  shows "fst (Frequency_hash now h span q) \<longleftrightarrow> seen es h < 105"
proof (cases "LocateIndex h q")
  case (Some i)
  then show ?thesis
    using assms(1) LocateIndex_Some [OF Some] nth_mem [of i "iarr_record q"] freq_table_hour [OF assms]
    by (auto simp: Frequency_hash_cases freq_exact_def RECORD_INTERCEPT_COUNT_def)
next
  case None
  then have "seen es h = 0"
    using assms(1) by (auto simp: LocateIndex_None freq_exact_def seen_def count_list_0_iff)
  then show ?thesis using None freq_table_hour [OF assms] by (simp add: Frequency_hash_cases)
qed

text \<open>Only a storm is refused: a packet is turned away only if packets with its checksum were
  checked at least 105 times before. In the first hour, with at most thirty different checksums, the
  converse holds too: exactly the packets after the 105th with their checksum are refused. The table
  never holds more than thirty records, each checksum once.\<close>

theorem frequency_only_storms:
  assumes "q = run_events freq_step (FrequencyLimit t0) es"
  shows "length (iarr_record q) \<le> 30 \<and> distinct (map ar_hash (iarr_record q))
    \<and> (if (\<forall>e \<in> set es. within_hour t0 (fst e)) \<and> card (snd ` set es) \<le> 30 \<and> within_hour t0 now
       then fst (Frequency_hash now h span q) = (seen es h < 105)
       else fst (Frequency_hash now h span q) \<or> 105 \<le> seen es h)"
  using freq_run_inv [of es t0] refused_seen [of es q now h span] freq_exact_check [of t0 es q now h span] freq_exact_run [of es t0]
  by (auto simp: assms freq_inv_def hashes_def MAX_RECORD_COUNT_def)

theorem frequency_only_storms_witness:
  "fst (Frequency_hash 1000 7 0 (run_events freq_step (FrequencyLimit 0) [(10, 7), (20, 8)]))
     = (seen [(10, 7), (20, 8)] 7 < 105)"
  using frequency_only_storms [OF refl, of 0 "[(10, 7), (20, 8)]" 1000 7 0]
  by (simp add: within_hour_def RUN_CLEAR_RECORDS_INTERVAL_MINUTE_def)

text \<open>C26: The checksum with one division per block of 5552 bytes is Adler's checksum with a
  division after every byte: no sum overflows 32 bits in between, whatever the length.\<close>

theorem adler32_is_reference:
  assumes "small (unat (adler AND 0xffff), unat (drop_bit 16 adler AND 0xffff))"
  shows "adler32 adler (Some bs) (length bs)
    = ok (let (a, s) = adler_ref (unat (adler AND 0xffff), unat (drop_bit 16 adler AND 0xffff)) bs
          in adler_join (of_nat a, of_nat s))"
  by (rule adler32_plain [OF refl refl assms])

theorem adler32_is_reference_witness:
  "adler32 0 (Some [97, 98, 99]) 3 = ok (adler_join (294, 586))"
proof -
  have "small (unat ((0 :: dword) AND 0xffff), unat (drop_bit 16 (0 :: dword) AND 0xffff))" by (simp add: small_def)
  from adler32_is_reference [OF this, of "[97, 98, 99]"] show ?thesis
    by (simp add: adler_ref_def numeral_3_eq_3)
qed

end
