(* ===== verification/Dynamic_Timeout.thy ===== *)
theory Dynamic_Timeout imports Stn_Task Interfaces begin

text \<open>
  \<^verbatim>\<open>dynamic_timeout.cc\<close>: the judgement on the network that shortens the timeouts. Every finished task
  is rated by its size and time; ten good ones in a row make the network excellent, failures make it
  bad. Times are cut to the 32 bits of \<^verbatim>\<open>unsigned long\<close> when stored. The lemmas show what it takes to
  be rated excellent and what ends it, and bound the timeouts that follow.
\<close>

section \<open>Constants\<close>

definition kDynTimeSmallPackageLen :: dword where "kDynTimeSmallPackageLen = 3 * 1024"
definition kDynTimeMiddlePackageLen :: dword where "kDynTimeMiddlePackageLen = 10 * 1024"
definition kDynTimeBigPackageLen :: dword where "kDynTimeBigPackageLen = 30 * 1024"
definition kDynTimeSmallPackageCosttime :: "NetType \<Rightarrow> qword" where "kDynTimeSmallPackageCosttime net = by_net net 500 1000"
definition kDynTimeMiddlePackageCosttime :: "NetType \<Rightarrow> qword" where "kDynTimeMiddlePackageCosttime net = by_net net 2000 3000"
definition kDynTimeBigPackageCosttime :: "NetType \<Rightarrow> qword" where "kDynTimeBigPackageCosttime net = by_net net 4000 5000"
definition kDynTimeBiggerPackageCosttime :: "NetType \<Rightarrow> qword" where "kDynTimeBiggerPackageCosttime net = by_net net 6000 7000"
definition kDynTimeMaxContinuousExcellentCount :: nat where "kDynTimeMaxContinuousExcellentCount = 10"
definition kDynTimeMinNormalPkgCount :: nat where "kDynTimeMinNormalPkgCount = 6"
definition kDynTimeCountExpireTime :: qword where "kDynTimeCountExpireTime = 5 * 60 * 1000"
definition kDynTimeTaskFailedPkgLen :: dword where "kDynTimeTaskFailedPkgLen = 0xffffffff"

datatype task_rating = kDynTimeTaskFailedTag | KDynTimeTaskNormalTag | kDynTimeTaskMeetExpectTag
  | kDynTimeTaskMidPkgMeetExpectTag | kDynTimeTaskBigPkgMeetExpectTag | kDynTimeTaskBiggerPkgMeetExpectTag

section \<open>State and operations\<close>

record dyn_timeout =
  dyntime_status :: DynamicTimeoutStatus
  dyntime_continuous_good_count :: nat
  dyntime_latest_bigpkg_goodtime :: dword
  dyntime_failed_normal_count :: "bool list"
  dyntime_fncount_latstmodify_time :: dword
  dyntime_fncount_pos :: dword

definition DynamicTimeout :: dyn_timeout where
  "DynamicTimeout = \<lparr> dyntime_status = kEValuating, dyntime_continuous_good_count = 0, dyntime_latest_bigpkg_goodtime = 0,
     dyntime_failed_normal_count = replicate 10 True, dyntime_fncount_latstmodify_time = 0, dyntime_fncount_pos = -1 \<rparr>"

definition ResetStatus :: "dyn_timeout \<Rightarrow> dyn_timeout" where
  "ResetStatus d = DynamicTimeout"

definition normal_count :: "dyn_timeout \<Rightarrow> nat" where
  "normal_count d = length (filter id (dyntime_failed_normal_count d))"

definition set_bit_at :: "bool \<Rightarrow> dyn_timeout \<Rightarrow> dyn_timeout" where
  "set_bit_at b d = d\<lparr> dyntime_failed_normal_count := (dyntime_failed_normal_count d)[unat (dyntime_fncount_pos d) := b] \<rparr>"

text \<open>\<^verbatim>\<open>__StatusSwitch\<close>: the window of ten results, the counters, the status.\<close>

definition turn_window :: "qword \<Rightarrow> dyn_timeout \<Rightarrow> dyn_timeout" where
  "turn_window now d =
     (let d = (if dyntime_fncount_latstmodify_time d = 0 \<or> now - ucast (dyntime_fncount_latstmodify_time d) > kDynTimeCountExpireTime
               then d\<lparr> dyntime_fncount_latstmodify_time := ucast now, dyntime_fncount_pos := -1,
                       dyntime_failed_normal_count := replicate 10 (dyntime_status d \<noteq> kBad) \<rparr>
               else d);
          pos = dyntime_fncount_pos d + 1
      in d\<lparr> dyntime_fncount_pos := (if unat pos \<ge> length (dyntime_failed_normal_count d) then 0 else pos) \<rparr>)"

definition count_result :: "qword \<Rightarrow> task_rating \<Rightarrow> dyn_timeout \<Rightarrow> dyn_timeout" where
  "count_result now r d =
     (let evaluating = (dyntime_status d = kEValuating);
          good = (\<lambda>d. set_bit_at True (if evaluating then d\<lparr> dyntime_continuous_good_count := dyntime_continuous_good_count d + 1 \<rparr> else d));
          big = (\<lambda>d. if evaluating then d\<lparr> dyntime_latest_bigpkg_goodtime := ucast now \<rparr> else d)
      in case r of
           kDynTimeTaskMidPkgMeetExpectTag \<Rightarrow> good (big d)
         | kDynTimeTaskBigPkgMeetExpectTag \<Rightarrow> good (big d)
         | kDynTimeTaskBiggerPkgMeetExpectTag \<Rightarrow> good (big d)
         | kDynTimeTaskMeetExpectTag \<Rightarrow> good d
         | KDynTimeTaskNormalTag \<Rightarrow>
             set_bit_at True (if evaluating then d\<lparr> dyntime_continuous_good_count := 0, dyntime_latest_bigpkg_goodtime := 0 \<rparr> else d)
         | kDynTimeTaskFailedTag \<Rightarrow>
             set_bit_at False (d\<lparr> dyntime_continuous_good_count := 0, dyntime_latest_bigpkg_goodtime := 0 \<rparr>))"

definition switch_status :: "qword \<Rightarrow> dyn_timeout \<Rightarrow> dyn_timeout" where
  "switch_status now d =
     (case dyntime_status d of
        kEValuating \<Rightarrow>
          if dyntime_continuous_good_count d \<ge> kDynTimeMaxContinuousExcellentCount
             \<and> now - ucast (dyntime_latest_bigpkg_goodtime d) \<le> kDynTimeCountExpireTime
          then d\<lparr> dyntime_status := kExcellent \<rparr>
          else if normal_count d \<le> kDynTimeMinNormalPkgCount
          then d\<lparr> dyntime_status := kBad, dyntime_fncount_latstmodify_time := 0 \<rparr> else d
      | kExcellent \<Rightarrow>
          if dyntime_continuous_good_count d = 0 \<and> dyntime_latest_bigpkg_goodtime d = 0 then d\<lparr> dyntime_status := kEValuating \<rparr> else d
      | kBad \<Rightarrow>
          if normal_count d > kDynTimeMinNormalPkgCount
          then d\<lparr> dyntime_status := kEValuating, dyntime_fncount_latstmodify_time := 0 \<rparr> else d)"

definition StatusSwitch :: "qword \<Rightarrow> task_rating \<Rightarrow> dyn_timeout \<Rightarrow> dyn_timeout" where
  "StatusSwitch now r d = switch_status now (count_result now r (turn_window now d))"

definition rate_task :: "NetType \<Rightarrow> dword \<Rightarrow> qword \<Rightarrow> task_rating" where
  "rate_task net total_size cost_time =
     (if total_size = kDynTimeTaskFailedPkgLen \<or> cost_time = 0 then kDynTimeTaskFailedTag
      else if total_size < kDynTimeSmallPackageLen
      then if cost_time \<le> kDynTimeSmallPackageCosttime net then kDynTimeTaskMeetExpectTag else KDynTimeTaskNormalTag
      else if total_size \<le> kDynTimeMiddlePackageLen
      then if cost_time \<le> kDynTimeMiddlePackageCosttime net then kDynTimeTaskMidPkgMeetExpectTag else KDynTimeTaskNormalTag
      else if total_size \<le> kDynTimeBigPackageLen
      then if cost_time \<le> kDynTimeBigPackageCosttime net then kDynTimeTaskBigPkgMeetExpectTag else KDynTimeTaskNormalTag
      else if cost_time \<le> kDynTimeBiggerPackageCosttime net then kDynTimeTaskBiggerPkgMeetExpectTag
      else KDynTimeTaskNormalTag)"

definition CgiTaskStatistic :: "qword \<Rightarrow> NetType \<Rightarrow> dword \<Rightarrow> qword \<Rightarrow> dyn_timeout \<Rightarrow> dyn_timeout" where
  "CgiTaskStatistic now net total_size cost_time d = StatusSwitch now (rate_task net total_size cost_time) d"

section \<open>Lemmas\<close>

definition met :: "task_rating \<Rightarrow> bool" where
  "met r \<longleftrightarrow> r \<notin> {kDynTimeTaskFailedTag, KDynTimeTaskNormalTag}"

definition dyn_step :: "dyn_timeout \<Rightarrow> qword \<times> task_rating \<Rightarrow> dyn_timeout" where
  "dyn_step d e = StatusSwitch (fst e) (snd e) d"

text \<open>The good results since the last failure.\<close>

definition good_since :: "(qword \<times> task_rating) list \<Rightarrow> nat" where
  "good_since es = length (filter (\<lambda>e. met (snd e)) (takeWhile (\<lambda>e. snd e \<noteq> kDynTimeTaskFailedTag) (rev es)))"

definition dyn_inv :: "(qword \<times> task_rating) list \<Rightarrow> dyn_timeout \<Rightarrow> bool" where
  "dyn_inv es d \<longleftrightarrow> length (dyntime_failed_normal_count d) = 10 \<and> (dyntime_fncount_pos d = -1 \<or> unat (dyntime_fncount_pos d) < 10)
     \<and> dyntime_continuous_good_count d \<le> good_since es \<and> (dyntime_status d = kExcellent \<longrightarrow> 10 \<le> good_since es)"

lemma good_since_snoc:
  "good_since (es @ [e]) = (if snd e = kDynTimeTaskFailedTag then 0 else if met (snd e) then Suc (good_since es) else good_since es)"
  by (simp add: good_since_def met_def)

lemma turn_window_keeps:
  "dyntime_status (turn_window now d) = dyntime_status d"
  "dyntime_continuous_good_count (turn_window now d) = dyntime_continuous_good_count d"
  "dyntime_latest_bigpkg_goodtime (turn_window now d) = dyntime_latest_bigpkg_goodtime d"
  by (simp_all add: turn_window_def Let_def)

lemma count_result_keeps:
  "dyntime_status (count_result now r d) = dyntime_status d"
  "length (dyntime_failed_normal_count (count_result now r d)) = length (dyntime_failed_normal_count d)"
  "dyntime_fncount_pos (count_result now r d) = dyntime_fncount_pos d"
  by (simp_all add: count_result_def Let_def set_bit_at_def split: task_rating.split)

lemma count_result_good:
  "dyntime_continuous_good_count (count_result now r d) =
     (if r = kDynTimeTaskFailedTag then 0
      else if dyntime_status d \<noteq> kEValuating then dyntime_continuous_good_count d
      else if met r then Suc (dyntime_continuous_good_count d) else 0)"
  by (simp add: count_result_def Let_def set_bit_at_def met_def split: task_rating.split)


lemma turn_window_shape:
  assumes "length (dyntime_failed_normal_count d) = 10"
  shows "length (dyntime_failed_normal_count (turn_window now d)) = 10 \<and> unat (dyntime_fncount_pos (turn_window now d)) < 10"
  using assms by (auto simp: turn_window_def Let_def)

lemma switch_status_keeps:
  "dyntime_continuous_good_count (switch_status now d) = dyntime_continuous_good_count d"
  "dyntime_failed_normal_count (switch_status now d) = dyntime_failed_normal_count d"
  "dyntime_fncount_pos (switch_status now d) = dyntime_fncount_pos d"
  by (simp_all add: switch_status_def split: DynamicTimeoutStatus.split)

lemma switch_status_excellent:
  "dyntime_status (switch_status now d) = kExcellent \<Longrightarrow>
   dyntime_status d = kExcellent \<and> \<not> (dyntime_continuous_good_count d = 0 \<and> dyntime_latest_bigpkg_goodtime d = 0)
   \<or> dyntime_continuous_good_count d \<ge> 10"
  by (auto simp: switch_status_def kDynTimeMaxContinuousExcellentCount_def split: DynamicTimeoutStatus.splits if_splits)

lemma count_result_failed:
  "dyntime_latest_bigpkg_goodtime (count_result now kDynTimeTaskFailedTag d) = 0"
  "dyntime_continuous_good_count (count_result now kDynTimeTaskFailedTag d) = 0"
  by (simp_all add: count_result_def set_bit_at_def Let_def)

lemma failure_ends_excellence: "dyntime_status (StatusSwitch now kDynTimeTaskFailedTag d) \<noteq> kExcellent"
  using switch_status_excellent [of now "count_result now kDynTimeTaskFailedTag (turn_window now d)"]
  by (auto simp: StatusSwitch_def count_result_failed)

lemma dyn_step_inv:
  assumes "dyn_inv es d"
  shows "dyn_inv (es @ [e]) (dyn_step d e)"
proof -
  obtain now r where e: "e = (now, r)" by (cases e)
  let ?c = "count_result now r (turn_window now d)"
  have g: "dyntime_continuous_good_count ?c \<le> good_since (es @ [e])"
    using assms by (auto simp: e good_since_snoc count_result_good turn_window_keeps dyn_inv_def met_def)
  have "10 \<le> good_since (es @ [e])" if x: "dyntime_status (switch_status now ?c) = kExcellent"
  proof -
    have "r \<noteq> kDynTimeTaskFailedTag" using x failure_ends_excellence [of now d] by (auto simp: StatusSwitch_def)
    then show ?thesis
      using switch_status_excellent [OF x] g assms
      by (auto simp: e dyn_inv_def count_result_keeps turn_window_keeps good_since_snoc)
  qed
  then show ?thesis
    using g turn_window_shape [of d now] assms
    by (simp add: e dyn_step_def StatusSwitch_def dyn_inv_def switch_status_keeps count_result_keeps)
qed

lemma dyn_run_inv: "dyn_inv es (run_events dyn_step DynamicTimeout es)"
proof (induction es rule: rev_induct)
  case Nil
  then show ?case by (simp add: dyn_inv_def DynamicTimeout_def)
next
  case (snoc e es)
  then show ?case by (simp add: run_events_append dyn_step_inv)
qed

text \<open>The network is judged excellent only after ten good results since the last failure, and
  one failure ends the judgement. It has no effect on the client's tasks, though: the shorter first
  timeout is taken only for tasks with a declared server time of 0, and the default is -1.\<close>

theorem excellence_earned:
  assumes "d = run_events dyn_step DynamicTimeout es"
  shows "(if dyntime_status d = kExcellent then 10 \<le> good_since es else True)
    \<and> dyntime_status (CgiTaskStatistic now net kDynTimeTaskFailedPkgLen 0 d) \<noteq> kExcellent
    \<and> FirstPkgTimeout net (mt_server_process_cost (new_mtask tid)) len n (dyntime_status d)
      = FirstPkgTimeout net (mt_server_process_cost (new_mtask tid)) len n kEValuating"
  using dyn_run_inv [of es]
  by (simp add: assms dyn_inv_def CgiTaskStatistic_def rate_task_def failure_ends_excellence FirstPkgTimeout_def new_mtask_def)

theorem excellence_earned_witness:
  "let es = replicate 10 (5, kDynTimeTaskMidPkgMeetExpectTag); d = run_events dyn_step DynamicTimeout es
   in dyntime_status d = kExcellent \<and> 10 \<le> good_since es
      \<and> dyntime_status (CgiTaskStatistic 9 kWifi kDynTimeTaskFailedPkgLen 0 d) \<noteq> kExcellent"
proof -
  have "dyntime_status (run_events dyn_step DynamicTimeout (replicate 10 (5, kDynTimeTaskMidPkgMeetExpectTag))) = kExcellent"
    by code_simp
  then show ?thesis
    using excellence_earned [OF refl, of "replicate 10 (5, kDynTimeTaskMidPkgMeetExpectTag)" 9 kWifi] by (simp add: Let_def)
qed

end
