(* ===== verification/Engine_State.thy ===== *)
theory Engine_State imports Longlink_Channel Avalanche Dynamic_Timeout begin

text \<open>
  The state of the network engine (\<^verbatim>\<open>net_core.cc\<close>) and the operations its task managers share: the
  calls into the client (\<^verbatim>\<open>stn.h\<close>), the store for tasks that wait for the network
  (\<^verbatim>\<open>zombie_task_manager.cc\<close>) and the callback that ends a task or stores it. The engine runs all of
  this on one message queue; \<open>eg_posted\<close> holds the start messages in that queue. The client's own state
  is the type \<open>'c\<close>. \<open>eg_ended\<close>, \<open>eg_dropped\<close>, \<open>eg_started\<close> and \<open>eg_sent\<close> record what happened: the tasks
  whose end was reported, those removed on request, those accepted for starting, those sent.
\<close>

section \<open>Client interface\<close>

text \<open>\<open>ci_req\<close>: \<^verbatim>\<open>Req2Buf\<close> (success, packet or null, error code); \<open>ci_resp\<close>: \<^verbatim>\<open>Buf2Resp\<close> (handle type, error
  code); \<open>ci_end\<close>: \<^verbatim>\<open>OnTaskEnd\<close>; \<open>ci_push\<close>: \<^verbatim>\<open>OnPush\<close>; \<open>ci_authed\<close>: \<^verbatim>\<open>MakesureAuthed\<close>; \<open>ci_version\<close>: the
  version number in the frames.\<close>

record 'c client_if =
  ci_req :: "dword \<Rightarrow> 'c \<Rightarrow> (bool \<times> bytes option \<times> int) \<times> 'c"
  ci_resp :: "dword \<Rightarrow> bytes \<Rightarrow> 'c \<Rightarrow> (int \<times> int) \<times> 'c"
  ci_end :: "dword \<Rightarrow> ErrCmdType \<Rightarrow> int \<Rightarrow> 'c \<Rightarrow> int \<times> 'c"
  ci_push :: "dword \<Rightarrow> bytes \<Rightarrow> 'c \<Rightarrow> 'c"
  ci_authed :: bool
  ci_version :: dword

text \<open>What a step of the engine reads from outside.\<close>

record tick =
  tk_now :: qword
  tk_net :: NetType

section \<open>State\<close>

record zombie_task =
  zt_task :: mtask
  zt_save_time :: qword

record long_manager =
  lm_cmd :: "task_profile list"
  lm_lastbatcherrortime :: qword
  lm_retry_interval :: qword
  lm_fail_count :: dword

record short_manager =
  sm_cmd :: "task_profile list"
  sm_default_use_proxy :: bool
  sm_fail_count :: dword
  sm_workers :: nat

text \<open>\<^verbatim>\<open>OnLongLinkNetworkError\<close>, \<^verbatim>\<open>OnShortLinkNetworkError\<close>, \<^verbatim>\<open>ReportTaskLimited\<close>, \<^verbatim>\<open>ReportConnectStatus\<close>.\<close>

datatype net_report = LongNetError ErrCmdType int | ShortNetError ErrCmdType int | TaskLimited dword nat dword
  | ConnectStatus int int

record 'c engine =
  eg_client :: 'c
  eg_link :: longlink
  eg_active :: active_logic
  eg_avalanche :: anti_avalanche
  eg_dyn :: dyn_timeout
  eg_long :: long_manager
  eg_short :: short_manager
  eg_zombies :: "zombie_task list"
  eg_net_core_last_start_task_time :: qword
  eg_shortlink_error_count :: int
  eg_shortlink_try_flag :: bool
  eg_posted :: "mtask list"
  eg_started :: "dword list"
  eg_ended :: "(dword \<times> ErrCmdType \<times> int) list"
  eg_dropped :: "dword list"
  eg_sent :: "dword list"
  eg_reports :: "net_report list"

definition NetCore :: "qword \<Rightarrow> 'c \<Rightarrow> 'c engine" where
  "NetCore now c = \<lparr> eg_client = c, eg_link = LongLink, eg_active = ActiveLogic now, eg_avalanche = AntiAvalanche True now,
     eg_dyn = DynamicTimeout,
     eg_long = \<lparr> lm_cmd = [], lm_lastbatcherrortime = 0, lm_retry_interval = 0, lm_fail_count = 0 \<rparr>,
     eg_short = \<lparr> sm_cmd = [], sm_default_use_proxy = True, sm_fail_count = 0, sm_workers = 0 \<rparr>,
     eg_zombies = [], eg_net_core_last_start_task_time = now, eg_shortlink_error_count = 0, eg_shortlink_try_flag = False,
     eg_posted = [], eg_started = [], eg_ended = [], eg_dropped = [], eg_sent = [], eg_reports = [] \<rparr>"

section \<open>Calls into the client\<close>

definition call_Req2Buf :: "'c client_if \<Rightarrow> mtask \<Rightarrow> 'c engine \<Rightarrow> (bool \<times> bytes option \<times> int) \<times> 'c engine" where
  "call_Req2Buf V t e = (let (r, c) = ci_req V (mt_taskid t) (eg_client e) in (r, e\<lparr> eg_client := c \<rparr>))"

definition call_Buf2Resp :: "'c client_if \<Rightarrow> mtask \<Rightarrow> bytes \<Rightarrow> 'c engine \<Rightarrow> (int \<times> int) \<times> 'c engine" where
  "call_Buf2Resp V t body e = (let (r, c) = ci_resp V (mt_taskid t) body (eg_client e) in (r, e\<lparr> eg_client := c \<rparr>))"

definition OnTaskEnd :: "'c client_if \<Rightarrow> mtask \<Rightarrow> ErrCmdType \<Rightarrow> int \<Rightarrow> 'c engine \<Rightarrow> int \<times> 'c engine" where
  "OnTaskEnd V t err_type err_code e =
     (let (r, c) = ci_end V (mt_taskid t) err_type err_code (eg_client e)
      in (r, e\<lparr> eg_client := c, eg_ended := eg_ended e @ [(mt_taskid t, err_type, err_code)] \<rparr>))"

definition packet_bytes :: "bytes option \<Rightarrow> bytes" where
  "packet_bytes buf = (case buf of None \<Rightarrow> [] | Some s \<Rightarrow> s)"

text \<open>The storm guard. A limited task is reported. The checksum never faults, because length and pointer
  agree (\<open>avalanche_no_fault\<close> below).\<close>

definition anti_avalanche_check :: "tick \<Rightarrow> mtask \<Rightarrow> bytes option \<Rightarrow> 'c engine \<Rightarrow> bool \<times> 'c engine" where
  "anti_avalanche_check k t buf e =
     (case Avalanche_Check (tk_now k) (tk_net k) t buf (length (packet_bytes buf)) (eg_avalanche e) of
        Inl _ \<Rightarrow> (False, e)
      | Inr (pass, a, rep) \<Rightarrow>
          (pass, e\<lparr> eg_avalanche := a,
             eg_reports := (case rep of None \<Rightarrow> eg_reports e | Some (ty, x) \<Rightarrow> eg_reports e @ [TaskLimited (mt_taskid t) ty x]) \<rparr>))"

section \<open>Zombies\<close>

definition RETRY_INTERVAL :: qword where "RETRY_INTERVAL = 60 * 1000"

definition SaveTask :: "tick \<Rightarrow> mtask \<Rightarrow> dword \<Rightarrow> 'c engine \<Rightarrow> bool \<times> 'c engine" where
  "SaveTask k t taskcosttime e =
     (if mt_network_status_sensitive t then (False, e)
      else let z = \<lparr> zt_task = t\<lparr> mt_retry_count := 0, mt_total_timetout := int32 (mt_total_timetout t - uint taskcosttime) \<rparr>,
                     zt_save_time = tk_now k \<rparr>
           in if 0 \<ge> mt_total_timetout (zt_task z) then (False, e)
              else (True, e\<lparr> eg_zombies := eg_zombies e @ [z] \<rparr>))"

datatype call_from = kCallFromLong | kCallFromShort | kCallFromZombie

text \<open>\<^verbatim>\<open>NetCore::__CallBack\<close>; no hook is installed.\<close>

definition CallBack :: "'c client_if \<Rightarrow> tick \<Rightarrow> call_from \<Rightarrow> ErrCmdType \<Rightarrow> int \<Rightarrow> int \<Rightarrow> mtask \<Rightarrow> dword \<Rightarrow> 'c engine \<Rightarrow> int \<times> 'c engine" where
  "CallBack V k from err_type err_code fail_handle t taskcosttime e =
     (if err_type = kEctOK \<or> fail_handle = kTaskFailHandleTaskEnd then OnTaskEnd V t err_type err_code e
      else if from = kCallFromZombie then OnTaskEnd V t err_type err_code e
      else let (saved, e) = SaveTask k t taskcosttime e
           in if \<not> saved then OnTaskEnd V t err_type err_code e else (0, e))"

text \<open>\<^verbatim>\<open>fun_start_task_\<close> posts a start message.\<close>

definition post_start :: "mtask \<Rightarrow> 'c engine \<Rightarrow> 'c engine" where
  "post_start t e = e\<lparr> eg_posted := eg_posted e @ [t] \<rparr>"

definition zombie_spent :: "tick \<Rightarrow> zombie_task \<Rightarrow> qword" where
  "zombie_spent k z = tk_now k - zt_save_time z"

definition zombie_timeout :: "zombie_task \<Rightarrow> qword" where
  "zombie_timeout z = word_of_int (mt_total_timetout (zt_task z))"

text \<open>\<^verbatim>\<open>it->task.total_timetout -= (cur_time - it->save_time)\<close>\<close>

definition zombie_restart :: "tick \<Rightarrow> zombie_task \<Rightarrow> 'c engine \<Rightarrow> 'c engine" where
  "zombie_restart k z e =
     post_start ((zt_task z)\<lparr> mt_total_timetout := int32 (mt_total_timetout (zt_task z) - uint (zombie_spent k z)) \<rparr>) e"

definition zombie_expire :: "'c client_if \<Rightarrow> tick \<Rightarrow> zombie_task \<Rightarrow> 'c engine \<Rightarrow> 'c engine" where
  "zombie_expire V k z e =
     snd (CallBack V k kCallFromZombie kEctLocal kEctLocalTaskTimeout kTaskFailHandleTaskEnd (zt_task z) (ucast (zombie_spent k z)) e)"

fun zombie_start_all :: "'c client_if \<Rightarrow> tick \<Rightarrow> zombie_task list \<Rightarrow> 'c engine \<Rightarrow> 'c engine" where
  "zombie_start_all V k [] e = e"
| "zombie_start_all V k (z # zs) e =
     zombie_start_all V k zs
       (if zombie_spent k z \<ge> zombie_timeout z then zombie_expire V k z e else zombie_restart k z e)"

definition Zombie_RedoTasks :: "'c client_if \<Rightarrow> tick \<Rightarrow> 'c engine \<Rightarrow> 'c engine" where
  "Zombie_RedoTasks V k e =
     (if eg_zombies e = [] then e
      else zombie_start_all V k (sort_key (\<lambda>z. mt_priority (zt_task z)) (eg_zombies e)) (e\<lparr> eg_zombies := [] \<rparr>))"

text \<open>\<^verbatim>\<open>__TimerChecker\<close>. The list it walks is only changed by itself.\<close>

fun zombie_check :: "'c client_if \<Rightarrow> tick \<Rightarrow> qword \<Rightarrow> zombie_task list \<Rightarrow> 'c engine \<Rightarrow> zombie_task list \<times> 'c engine" where
  "zombie_check V k last_start [] e = ([], e)"
| "zombie_check V k last_start (z # zs) e =
     (if zombie_spent k z \<ge> zombie_timeout z then zombie_check V k last_start zs (zombie_expire V k z e)
      else if zombie_spent k z \<ge> RETRY_INTERVAL \<and> tk_now k - last_start \<ge> RETRY_INTERVAL
      then zombie_check V k last_start zs (zombie_restart k z e)
      else let (rest, e) = zombie_check V k last_start zs e in (z # rest, e))"

definition Zombie_TimerChecker :: "'c client_if \<Rightarrow> tick \<Rightarrow> 'c engine \<Rightarrow> 'c engine" where
  "Zombie_TimerChecker V k e =
     (let (zs, e) = zombie_check V k (eg_net_core_last_start_task_time e) (eg_zombies e) e in e\<lparr> eg_zombies := zs \<rparr>)"

text \<open>Removing the first element that satisfies a test.\<close>

fun remove_first :: "('a \<Rightarrow> bool) \<Rightarrow> 'a list \<Rightarrow> 'a list option" where
  "remove_first P [] = None"
| "remove_first P (x # xs) = (if P x then Some xs else map_option (\<lambda>ys. x # ys) (remove_first P xs))"

definition Zombie_StopTask :: "dword \<Rightarrow> 'c engine \<Rightarrow> bool \<times> 'c engine" where
  "Zombie_StopTask taskid e =
     (case remove_first (\<lambda>z. taskid = mt_taskid (zt_task z)) (eg_zombies e) of
        None \<Rightarrow> (False, e)
      | Some zs \<Rightarrow> (True, e\<lparr> eg_zombies := zs, eg_dropped := eg_dropped e @ [taskid] \<rparr>))"

definition Zombie_HasTask :: "dword \<Rightarrow> 'c engine \<Rightarrow> bool" where
  "Zombie_HasTask taskid e \<longleftrightarrow> list_ex (\<lambda>z. taskid = mt_taskid (zt_task z)) (eg_zombies e)"

definition Zombie_ClearTasks :: "'c engine \<Rightarrow> 'c engine" where
  "Zombie_ClearTasks e =
     e\<lparr> eg_zombies := [], eg_dropped := eg_dropped e @ map (\<lambda>z. mt_taskid (zt_task z)) (eg_zombies e) \<rparr>"

definition OnNetCoreStartTask :: "tick \<Rightarrow> 'c engine \<Rightarrow> 'c engine" where
  "OnNetCoreStartTask k e = e\<lparr> eg_net_core_last_start_task_time := tk_now k \<rparr>"

section \<open>Network errors\<close>

text \<open>\<^verbatim>\<open>NetStatus\<close>\<close>

definition kNetworkUnkown :: int where "kNetworkUnkown = -1"
definition kServerFailed :: int where "kServerFailed = 2"
definition net_kConnecting :: int where "net_kConnecting = 3"
definition net_kConnected :: int where "net_kConnected = 4"
definition kShortlinkErrTime :: int where "kShortlinkErrTime = 3"

definition short_status :: "int \<Rightarrow> 'c engine \<Rightarrow> int" where
  "short_status unknown e =
     (if eg_shortlink_try_flag e
      then if eg_shortlink_error_count e = 0 then net_kConnected
           else if eg_shortlink_error_count e \<ge> kShortlinkErrTime then kServerFailed else unknown
      else unknown)"

definition ConnStatusCallBack :: "'c engine \<Rightarrow> 'c engine" where
  "ConnStatusCallBack e =
     (case lk_status (eg_link e) of
        kDisConnected \<Rightarrow> e
      | kConnectFailed \<Rightarrow> e\<lparr> eg_reports := eg_reports e @ [ConnectStatus (short_status kNetworkUnkown e) kServerFailed] \<rparr>
      | kConnected \<Rightarrow> e\<lparr> eg_shortlink_error_count := 0, eg_shortlink_try_flag := False,
                        eg_reports := eg_reports e @ [ConnectStatus net_kConnected net_kConnected] \<rparr>
      | _ \<Rightarrow> e\<lparr> eg_reports := eg_reports e @ [ConnectStatus (short_status net_kConnecting e) net_kConnecting] \<rparr>)"

text \<open>Address bookkeeping (\<^verbatim>\<open>net_source_\<close>, \<^verbatim>\<open>netcheck_logic_\<close>) is left out.\<close>

definition OnLongLinkNetworkError :: "'c client_if \<Rightarrow> tick \<Rightarrow> ErrCmdType \<Rightarrow> int \<Rightarrow> 'c engine \<Rightarrow> 'c engine" where
  "OnLongLinkNetworkError V k err_type err_code e =
     (let e = e\<lparr> eg_reports := eg_reports e @ [LongNetError err_type err_code] \<rparr>
      in if err_type = kEctOK then Zombie_RedoTasks V k e else e)"

definition OnShortLinkNetworkError :: "'c client_if \<Rightarrow> tick \<Rightarrow> ErrCmdType \<Rightarrow> int \<Rightarrow> 'c engine \<Rightarrow> 'c engine" where
  "OnShortLinkNetworkError V k err_type err_code e =
     (let e = e\<lparr> eg_reports := eg_reports e @ [ShortNetError err_type err_code], eg_shortlink_try_flag := True,
                 eg_shortlink_error_count := (if err_type = kEctOK then 0 else int32 (eg_shortlink_error_count e + 1)) \<rparr>;
          e = ConnStatusCallBack e
      in if err_type = kEctOK then Zombie_RedoTasks V k e else e)"

section \<open>Walking a task list\<close>

text \<open>The managers go through \<^verbatim>\<open>lst_cmd_\<close> with the next position taken beforehand, and erase at most the
  task they look at: a visit returns the changed task, or nothing.\<close>

fun walk :: "('p \<Rightarrow> 's \<Rightarrow> 'p option \<times> 's) \<Rightarrow> 'p list \<Rightarrow> 's \<Rightarrow> 'p list \<times> 's" where
  "walk f [] s = ([], s)"
| "walk f (p # ps) s =
     (let (r, s) = f p s; (qs, s) = walk f ps s in (case r of None \<Rightarrow> qs | Some q \<Rightarrow> q # qs, s))"

text \<open>A visit to the first task that satisfies a test.\<close>

fun visit_first :: "('p \<Rightarrow> bool) \<Rightarrow> ('p \<Rightarrow> 's \<Rightarrow> 'p option \<times> 's) \<Rightarrow> 'p list \<Rightarrow> 's \<Rightarrow> 'p list \<times> 's" where
  "visit_first P f [] s = ([], s)"
| "visit_first P f (p # ps) s =
     (if P p then let (r, s) = f p s in (case r of None \<Rightarrow> ps | Some q \<Rightarrow> q # ps, s)
      else let (qs, s) = visit_first P f ps s in (p # qs, s))"

fun change_first :: "('a \<Rightarrow> bool) \<Rightarrow> ('a \<Rightarrow> 'a) \<Rightarrow> 'a list \<Rightarrow> 'a list" where
  "change_first P f [] = []"
| "change_first P f (x # xs) = (if P x then f x # xs else x # change_first P f xs)"

definition change_transfer :: "(transfer \<Rightarrow> transfer) \<Rightarrow> task_profile \<Rightarrow> task_profile" where
  "change_transfer f p = p\<lparr> tp_transfer := f (tp_transfer p) \<rparr>"

text \<open>What \<^verbatim>\<open>__OnSend\<close> and \<^verbatim>\<open>__OnRecv\<close> of both managers note, and \<^verbatim>\<open>RedoTasks\<close> resets.\<close>

definition send_begun :: "tick \<Rightarrow> transfer \<Rightarrow> transfer" where
  "send_begun k t = t\<lparr> tr_first_start_send_time := (if tr_first_start_send_time t = 0 then tk_now k else tr_first_start_send_time t),
     tr_start_send_time := tk_now k \<rparr>"

definition received :: "tick \<Rightarrow> dword \<Rightarrow> dword \<Rightarrow> transfer \<Rightarrow> transfer" where
  "received k cachedsize totalsize t = t\<lparr> tr_received_size := cachedsize, tr_receive_data_size := totalsize,
     tr_last_receive_pkg_time := tk_now k \<rparr>"

definition redo_profile :: "task_profile \<Rightarrow> task_profile" where
  "redo_profile p = (InitSendParam p)\<lparr> tp_last_failed_dyntime_status := None \<rparr>"

definition overdue :: "tick \<Rightarrow> task_profile \<Rightarrow> bool" where
  "overdue k p \<longleftrightarrow> tk_now k - tp_start_task_time p \<ge> tp_task_timeout p"

text \<open>The timeouts for one attempt of a task. \<open>n\<close> is \<^verbatim>\<open>sent_count\<close>.\<close>

definition attempt_timings :: "tick \<Rightarrow> nat \<Rightarrow> bytes \<Rightarrow> task_profile \<Rightarrow> 'c engine \<Rightarrow> task_profile" where
  "attempt_timings k n body p e =
     (let t = tp_task p; st = dyntime_status (eg_dyn e);
          first = FirstPkgTimeout (tk_net k) (mt_server_process_cost t) (of_nat (length body)) n st
      in p\<lparr> tp_transfer := (tp_transfer p)\<lparr> tr_loop_start_task_time := tk_now k, tr_first_pkg_timeout := first,
               tr_read_write_timeout := ReadWriteTimeout (tk_net k) first, tr_send_data_size := of_nat (length body) \<rparr>,
            tp_current_dyntime_status := Some (if mt_server_process_cost t \<le> 0 then st else kEValuating) \<rparr>)"

text \<open>The packet for a task, checked against storms: the packet, or why the task fails.\<close>

definition request_packet :: "'c client_if \<Rightarrow> tick \<Rightarrow> mtask \<Rightarrow> 'c engine \<Rightarrow> ((ErrCmdType \<times> int) + bytes option) \<times> 'c engine" where
  "request_packet V k t e =
     (let ((fine, buf, error_code), e) = call_Req2Buf V t e in
      if \<not> fine then (Inl (kEctEnDecode, error_code), e)
      else let (pass, e) = anti_avalanche_check k t buf e in
           if \<not> pass then (Inl (kEctLocal, kEctLocalAntiAvalanche), e) else (Inr buf, e))"

section \<open>Accounting\<close>

lemma avalanche_no_fault: "\<exists>r. Avalanche_Check now net t buf (length (packet_bytes buf)) a = ok r"
proof -
  have "\<exists>h. adler32 0 buf (length (packet_bytes buf)) = ok h"
  proof (cases buf)
    case None
    then show ?thesis by (simp add: adler32_def packet_bytes_def)
  next
    case (Some bs)
    have "small (unat ((0 :: dword) AND 0xffff), unat (drop_bit 16 (0 :: dword) AND 0xffff))" by (simp add: small_def)
    from adler32_plain [OF refl refl this, of bs] Some show ?thesis by (auto simp: packet_bytes_def)
  qed
  then show ?thesis by (auto simp: Avalanche_Check_def Frequency_Check_def Let_def split: prod.splits)
qed

text \<open>The tasks outside the two managers: waiting as zombies, in start messages, ended, removed.
  \<open>settles V M e N e'\<close>: the step from \<open>e\<close> to \<open>e'\<close> takes the tasks \<open>M\<close> from a manager's list, puts \<open>N\<close> back and
  accounts for the others; the lists themselves are not touched.\<close>

definition outside :: "'c engine \<Rightarrow> dword multiset" where
  "outside e = mset (map (\<lambda>z. mt_taskid (zt_task z)) (eg_zombies e)) + mset (map mt_taskid (eg_posted e))
     + mset (map fst (eg_ended e)) + mset (eg_dropped e)"

definition workers :: "'c engine \<Rightarrow> nat" where
  "workers e = sm_workers (eg_short e)"

text \<open>A relation \<open>P\<close> between the client and the ended tasks that no call of the client breaks, as long as the
  ends concern tasks of \<open>A\<close>; and steps that keep every such relation.\<close>

definition client_keeps :: "'c client_if \<Rightarrow> dword set \<Rightarrow> ('c \<Rightarrow> dword list \<Rightarrow> bool) \<Rightarrow> bool" where
  "client_keeps V A P \<longleftrightarrow> (\<forall>i c l. P c l \<longrightarrow> P (snd (ci_req V i c)) l) \<and> (\<forall>i b c l. P c l \<longrightarrow> P (snd (ci_resp V i b c)) l)
     \<and> (\<forall>i b c l. P c l \<longrightarrow> P (ci_push V i b c) l) \<and> (\<forall>i et ec c l. i \<in> A \<longrightarrow> P c l \<longrightarrow> P (snd (ci_end V i et ec c)) (l @ [i]))"

definition client_rel :: "'c client_if \<Rightarrow> dword multiset \<Rightarrow> 'c engine \<Rightarrow> 'c engine \<Rightarrow> bool" where
  "client_rel V S e e' \<longleftrightarrow> (\<forall>A P. client_keeps V A P \<longrightarrow> set_mset S \<subseteq> A \<longrightarrow> P (eg_client e) (map fst (eg_ended e))
     \<longrightarrow> P (eg_client e') (map fst (eg_ended e')))"

lemma client_rel_refl [simp]: "client_rel V S e e"
  by (simp add: client_rel_def)

lemma client_rel_trans: "client_rel V S e e' \<Longrightarrow> client_rel V S e' e'' \<Longrightarrow> client_rel V S e e''"
  unfolding client_rel_def by meson

lemma client_rel_mono: "client_rel V S e e' \<Longrightarrow> S \<subseteq># T \<Longrightarrow> client_rel V T e e'"
  unfolding client_rel_def by (meson set_mset_mono subset_trans)

lemma client_rel_set: "set_mset S = set_mset T \<Longrightarrow> client_rel V S e e' = client_rel V T e e'"
  by (simp add: client_rel_def)

lemma client_rel_upd [simp]:
  "client_rel V S e (e'\<lparr> eg_link := k \<rparr>) = client_rel V S e e'" "client_rel V S e (e'\<lparr> eg_active := a \<rparr>) = client_rel V S e e'"
  "client_rel V S e (e'\<lparr> eg_avalanche := v \<rparr>) = client_rel V S e e'" "client_rel V S e (e'\<lparr> eg_dyn := d \<rparr>) = client_rel V S e e'"
  "client_rel V S e (e'\<lparr> eg_long := lm \<rparr>) = client_rel V S e e'" "client_rel V S e (e'\<lparr> eg_short := sm \<rparr>) = client_rel V S e e'"
  "client_rel V S e (e'\<lparr> eg_zombies := zs \<rparr>) = client_rel V S e e'" "client_rel V S e (e'\<lparr> eg_posted := ts \<rparr>) = client_rel V S e e'"
  "client_rel V S e (e'\<lparr> eg_dropped := ds \<rparr>) = client_rel V S e e'" "client_rel V S e (e'\<lparr> eg_sent := ss \<rparr>) = client_rel V S e e'"
  "client_rel V S e (e'\<lparr> eg_reports := rs \<rparr>) = client_rel V S e e'" "client_rel V S e (e'\<lparr> eg_started := st \<rparr>) = client_rel V S e e'"
  "client_rel V S e (e'\<lparr> eg_shortlink_error_count := n \<rparr>) = client_rel V S e e'"
  "client_rel V S e (e'\<lparr> eg_shortlink_try_flag := b \<rparr>) = client_rel V S e e'"
  "client_rel V S e (e'\<lparr> eg_net_core_last_start_task_time := q \<rparr>) = client_rel V S e e'"
  by (simp_all add: client_rel_def)

definition settles :: "'c client_if \<Rightarrow> dword multiset \<Rightarrow> 'c engine \<Rightarrow> dword multiset \<Rightarrow> 'c engine \<Rightarrow> bool" where
  "settles V M e N e' \<longleftrightarrow> M + outside e = N + outside e' \<and> lm_cmd (eg_long e') = lm_cmd (eg_long e)
     \<and> sm_cmd (eg_short e') = sm_cmd (eg_short e) \<and> eg_started e' = eg_started e \<and> workers e \<le> workers e'
     \<and> client_rel V (M + outside e) e e'"

named_theorems settle

lemma settles_refl [simp, intro]: "settles V M e M e"
  by (simp add: settles_def)

lemma settles_trans: "settles V M e N e' \<Longrightarrow> settles V N e' L e'' \<Longrightarrow> settles V M e L e''"
  unfolding settles_def using client_rel_trans by (metis order_trans)

lemma settles_frame: "settles V M e N e' \<Longrightarrow> settles V (M + L) e (N + L) e'"
  unfolding settles_def by (auto simp: ac_simps intro: client_rel_mono)

lemma settles_add:
  assumes "settles V M e N e'" "settles V M' e' N' e''"
  shows "settles V (M + M') e (N + N') e''"
proof -
  have "settles V (M + M') e (N + M') e'" using assms(1) by (rule settles_frame)
  moreover have "settles V (N + M') e' (N + N') e''" using settles_frame [OF assms(2), of N] by (simp only: add.commute)
  ultimately show ?thesis by (rule settles_trans)
qed

text \<open>Fields that no account reads.\<close>

lemma settles_upd [simp]:
  "settles V M e N (e'\<lparr> eg_link := k \<rparr>) = settles V M e N e'"
  "settles V M e N (e'\<lparr> eg_avalanche := a \<rparr>) = settles V M e N e'" "settles V M e N (e'\<lparr> eg_dyn := d \<rparr>) = settles V M e N e'"
  "settles V M e N (e'\<lparr> eg_sent := l \<rparr>) = settles V M e N e'" "settles V M e N (e'\<lparr> eg_reports := r \<rparr>) = settles V M e N e'"
  "settles V M e N (e'\<lparr> eg_shortlink_error_count := n \<rparr>) = settles V M e N e'"
  "settles V M e N (e'\<lparr> eg_shortlink_try_flag := b \<rparr>) = settles V M e N e'"
  "settles V M e N (e'\<lparr> eg_net_core_last_start_task_time := q \<rparr>) = settles V M e N e'"
  "settles V M e N (e'\<lparr> eg_long := (eg_long e')\<lparr> lm_retry_interval := q \<rparr> \<rparr>) = settles V M e N e'"
  "settles V M e N (e'\<lparr> eg_long := (eg_long e')\<lparr> lm_fail_count := w \<rparr> \<rparr>) = settles V M e N e'"
  "settles V M e N (e'\<lparr> eg_long := (eg_long e')\<lparr> lm_lastbatcherrortime := q \<rparr> \<rparr>) = settles V M e N e'"
  "settles V M e N (e'\<lparr> eg_short := (eg_short e')\<lparr> sm_fail_count := w \<rparr> \<rparr>) = settles V M e N e'"
  "settles V M e N (e'\<lparr> eg_short := (eg_short e')\<lparr> sm_default_use_proxy := b \<rparr> \<rparr>) = settles V M e N e'"
  by (simp_all add: settles_def outside_def workers_def client_rel_def)

lemma settles_new_worker: "settles V M e M (e\<lparr> eg_short := (eg_short e)\<lparr> sm_workers := Suc (sm_workers (eg_short e)) \<rparr> \<rparr>)"
  by (simp add: settles_def outside_def workers_def client_rel_def)

lemma settles_long: "lm_cmd l = lm_cmd (eg_long e) \<Longrightarrow> settles V M e M (e\<lparr> eg_long := l \<rparr>)"
  by (simp add: settles_def outside_def workers_def)

lemma settles_short: "sm_cmd s = sm_cmd (eg_short e) \<Longrightarrow> sm_workers s = sm_workers (eg_short e) \<Longrightarrow> settles V M e M (e\<lparr> eg_short := s \<rparr>)"
  by (simp add: settles_def outside_def workers_def)

lemma settles_Req2Buf [settle]: "call_Req2Buf V t e = (r, e') \<Longrightarrow> settles V M e M e'"
  by (auto simp: call_Req2Buf_def settles_def outside_def workers_def client_rel_def client_keeps_def split: prod.splits) (metis snd_conv)

lemma settles_Buf2Resp [settle]: "call_Buf2Resp V t body e = (r, e') \<Longrightarrow> settles V M e M e'"
  by (auto simp: call_Buf2Resp_def settles_def outside_def workers_def client_rel_def client_keeps_def split: prod.splits) (metis snd_conv)

lemma settles_avalanche [settle]: "anti_avalanche_check k t buf e = (r, e') \<Longrightarrow> settles V M e M e'"
  by (auto simp: anti_avalanche_check_def settles_def outside_def workers_def client_rel_def split: sum.splits prod.splits)

lemma settles_OnTaskEnd [settle]: "OnTaskEnd V t et ec e = (r, e') \<Longrightarrow> settles V {# mt_taskid t #} e {#} e'"
  by (auto simp: OnTaskEnd_def settles_def outside_def workers_def client_rel_def client_keeps_def split: prod.splits) (metis snd_conv)

lemma settles_SaveTask: "SaveTask k t cost e = (r, e') \<Longrightarrow> settles V {# mt_taskid t #} e (if r then {#} else {# mt_taskid t #}) e'"
  by (auto simp: SaveTask_def settles_def outside_def workers_def client_rel_def Let_def split: if_splits)

lemma settles_CallBack [settle]: "CallBack V k from et ec fh t cost e = (r, e') \<Longrightarrow> settles V {# mt_taskid t #} e {#} e'"
  using settles_SaveTask [of k t cost e] settles_OnTaskEnd [of V t et ec]
  by (fastforce simp: CallBack_def split: if_splits prod.splits intro: settles_trans)

lemma settles_request [settle]: "request_packet V k t e = (r, e') \<Longrightarrow> settles V M e M e'"
  using settles_Req2Buf [of V t e] settles_avalanche [of k t]
  by (fastforce simp: request_packet_def split: if_splits prod.splits intro: settles_trans)

section \<open>Visits to a task list\<close>

text \<open>What stays of a task that is kept: the task, its deadline, and the balance of recorded attempts and
  attempts left, which never grows.\<close>

definition continues :: "task_profile \<Rightarrow> task_profile \<Rightarrow> bool" where
  "continues p q \<longleftrightarrow> tp_task q = tp_task p \<and> tp_start_task_time q = tp_start_task_time p \<and> tp_task_timeout q = tp_task_timeout p
     \<and> (0 \<le> tp_remain_retry_count p \<longrightarrow> 0 \<le> tp_remain_retry_count q)
     \<and> int (length (tp_history q)) + tp_remain_retry_count q \<le> int (length (tp_history p)) + tp_remain_retry_count p"

lemma continues_refl [simp, intro]: "continues p p"
  by (simp add: continues_def)

lemma continues_trans: "continues p q \<Longrightarrow> continues q r \<Longrightarrow> continues p r"
  by (simp add: continues_def)

lemma continues_id: "continues p q \<Longrightarrow> prof_id q = prof_id p"
  by (simp add: continues_def prof_id_def)

definition follows :: "task_profile list \<Rightarrow> task_profile list \<Rightarrow> bool" where
  "follows ps qs \<longleftrightarrow> (\<forall>q \<in> set qs. \<exists>p \<in> set ps. continues p q)"

lemma follows_refl [simp, intro]: "follows ps ps"
  by (auto simp: follows_def)

lemma follows_trans: "follows ps qs \<Longrightarrow> follows qs rs \<Longrightarrow> follows ps rs"
  unfolding follows_def by (meson continues_trans)

definition kept_ids :: "task_profile option \<Rightarrow> dword multiset" where
  "kept_ids r = (case r of None \<Rightarrow> {#} | Some q \<Rightarrow> {# prof_id q #})"

lemma kept_ids_simps [simp]: "kept_ids None = {#}" "kept_ids (Some q) = {# prof_id q #}"
  by (simp_all add: kept_ids_def)

text \<open>\<open>eng\<close> is the engine within the state of the walk.\<close>

locale task_visit =
  fixes V :: "'c client_if"
    and visit :: "task_profile \<Rightarrow> 's \<Rightarrow> task_profile option \<times> 's"
    and eng :: "'s \<Rightarrow> 'c engine"
  assumes visit_settles: "visit p s = (r, s') \<Longrightarrow> settles V {# prof_id p #} (eng s) (kept_ids r) (eng s')"
    and visit_continues: "visit p s = (Some q, s') \<Longrightarrow> continues p q"
begin

lemma walk_settles:
  "walk visit ps s = (qs, s') \<Longrightarrow> settles V (mset (map prof_id ps)) (eng s) (mset (map prof_id qs)) (eng s')"
proof (induction ps arbitrary: s qs s')
  case Nil
  then show ?case by simp
next
  case (Cons p ps)
  obtain r s1 where v: "visit p s = (r, s1)" by (cases "visit p s")
  obtain qs1 s2 where w: "walk visit ps s1 = (qs1, s2)" by (cases "walk visit ps s1")
  have "settles V ({# prof_id p #} + mset (map prof_id ps)) (eng s) (kept_ids r + mset (map prof_id qs1)) (eng s2)"
    by (rule settles_add [OF visit_settles [OF v] Cons.IH [OF w]])
  with Cons.prems v w show ?case by (auto split: option.splits)
qed

lemma walk_continues: "walk visit ps s = (qs, s') \<Longrightarrow> q \<in> set qs \<Longrightarrow> \<exists>p \<in> set ps. continues p q"
proof (induction ps arbitrary: s qs)
  case Nil
  then show ?case by simp
next
  case (Cons p ps)
  obtain r s1 where v: "visit p s = (r, s1)" by (cases "visit p s")
  obtain qs1 s2 where w: "walk visit ps s1 = (qs1, s2)" by (cases "walk visit ps s1")
  from Cons.prems v w have "r = Some q \<or> q \<in> set qs1 \<and> s2 = s'" by (auto split: option.splits)
  then show ?case using Cons.IH w v visit_continues by (auto intro: visit_continues)
qed

lemma visit_first_settles:
  "visit_first P visit ps s = (qs, s') \<Longrightarrow> settles V (mset (map prof_id ps)) (eng s) (mset (map prof_id qs)) (eng s')"
proof (induction ps arbitrary: qs)
  case Nil
  then show ?case by simp
next
  case (Cons p ps)
  show ?case
  proof (cases "P p")
    case True
    obtain r s1 where v: "visit p s = (r, s1)" by (cases "visit p s")
    have "settles V ({# prof_id p #} + mset (map prof_id ps)) (eng s) (kept_ids r + mset (map prof_id ps)) (eng s1)"
      by (rule settles_frame [OF visit_settles [OF v]])
    with Cons.prems True v show ?thesis by (auto split: option.splits)
  next
    case False
    obtain qs1 s1 where w: "visit_first P visit ps s = (qs1, s1)" by (cases "visit_first P visit ps s")
    have "qs = p # qs1" "s' = s1" using Cons.prems w False by simp_all
    then show ?thesis using settles_frame [OF Cons.IH [of qs1], of "{# prof_id p #}"] w by simp
  qed
qed

lemma visit_first_continues: "visit_first P visit ps s = (qs, s') \<Longrightarrow> q \<in> set qs \<Longrightarrow> \<exists>p \<in> set ps. continues p q"
proof (induction ps arbitrary: qs)
  case Nil
  then show ?case by simp
next
  case (Cons p ps)
  show ?case
  proof (cases "P p")
    case True
    with Cons.prems have "continues p q \<or> q \<in> set ps" by (auto split: prod.splits option.splits dest: visit_continues)
    then show ?thesis by auto
  next
    case False
    with Cons show ?thesis by (auto split: prod.splits)
  qed
qed

lemma walk_follows: "walk visit ps s = (qs, s') \<Longrightarrow> follows ps qs"
  using walk_continues by (auto simp: follows_def)

lemma visit_first_follows: "visit_first P visit ps s = (qs, s') \<Longrightarrow> follows ps qs"
  using visit_first_continues by (auto simp: follows_def)

end

lemma walk_all:
  assumes "\<And>p s q s'. p \<in> set ps \<Longrightarrow> visit p s = (Some q, s') \<Longrightarrow> P q"
  shows "walk visit ps s = (qs, s') \<Longrightarrow> q \<in> set qs \<Longrightarrow> P q"
  using assms
  by (induction ps arbitrary: s qs) (force split: prod.splits option.splits)+

lemma change_first_follows:
  assumes "\<And>p. continues p (f p)"
  shows "follows ps (change_first P f ps) \<and> map prof_id (change_first P f ps) = map prof_id ps"
  using assms by (induction ps) (auto simp: follows_def dest: continues_id)

lemma map_follows:
  assumes "\<And>p. continues p (f p)"
  shows "follows ps (map f ps) \<and> map prof_id (map f ps) = map prof_id ps"
  using assms by (auto simp: follows_def dest: continues_id)

lemma continues_changes [simp, intro]: "continues p (change_transfer f p)" "continues p (redo_profile p)"
  "continues p (attempt_timings k n body p e)" "continues p (SetLastFailedStatus p)"
  by (simp_all add: continues_def change_transfer_def redo_profile_def InitSendParam_def attempt_timings_def
        SetLastFailedStatus_def Let_def)

section \<open>Workers\<close>

text \<open>A visit that gives a task a worker takes a new number.\<close>

definition fresh_worker :: "task_profile \<Rightarrow> nat \<Rightarrow> task_profile \<Rightarrow> nat \<Rightarrow> bool" where
  "fresh_worker p n q n' \<longleftrightarrow> tp_running_id q = 0 \<or> tp_running_id q = tp_running_id p \<or> n < tp_running_id q \<and> tp_running_id q \<le> n'"

definition running_ids :: "task_profile list \<Rightarrow> nat list" where
  "running_ids ps = filter (\<lambda>i. i \<noteq> 0) (map tp_running_id ps)"

definition own_workers :: "nat \<Rightarrow> task_profile list \<Rightarrow> bool" where
  "own_workers n ps \<longleftrightarrow> distinct (running_ids ps) \<and> (\<forall>i \<in> set (running_ids ps). i \<le> n)"

lemma own_workers_Nil [simp]: "own_workers n []"
  by (simp add: own_workers_def running_ids_def)

lemma own_workers_Cons: "own_workers n (p # ps) \<longleftrightarrow>
    own_workers n ps \<and> (tp_running_id p = 0 \<or> tp_running_id p \<notin> set (running_ids ps) \<and> tp_running_id p \<le> n)"
  by (auto simp: own_workers_def running_ids_def)

lemma set_running_ids_Cons: "i \<in> set (running_ids (p # ps)) \<longleftrightarrow> i \<noteq> 0 \<and> i = tp_running_id p \<or> i \<in> set (running_ids ps)"
  by (auto simp: running_ids_def)

lemma own_workers_le: "own_workers n ps \<Longrightarrow> i \<in> set (running_ids ps) \<Longrightarrow> i \<le> n"
  by (simp add: own_workers_def)

lemma own_workers_mono: "own_workers n ps \<Longrightarrow> n \<le> m \<Longrightarrow> own_workers m ps"
  by (auto simp: own_workers_def)

lemma own_workers_step:
  assumes o: "own_workers n (p # ps)" and le: "n \<le> a" "a \<le> b" "b \<le> c"
    and f: "fresh_worker p a q b" and qs: "own_workers c qs" "\<forall>i \<in> set (running_ids qs). i \<in> set (running_ids ps) \<or> b < i"
  shows "own_workers c (q # qs)"
proof (cases "tp_running_id q = 0")
  case True
  then show ?thesis using qs by (simp add: own_workers_Cons)
next
  case False
  have "tp_running_id q \<notin> set (running_ids qs)"
  proof
    assume i: "tp_running_id q \<in> set (running_ids qs)"
    then consider "tp_running_id q \<in> set (running_ids ps)" | "b < tp_running_id q" using qs(2) by auto
    then show False
    proof cases
      case 1
      then have "tp_running_id q \<le> n" using o own_workers_le by (auto simp: own_workers_Cons)
      then have "tp_running_id q = tp_running_id p" using f False le by (auto simp: fresh_worker_def)
      then show False using 1 False o by (simp add: own_workers_Cons)
    next
      case 2
      then show False using f False o le by (auto simp: fresh_worker_def own_workers_Cons)
    qed
  qed
  moreover have "tp_running_id q \<le> c" using f False o le by (auto simp: fresh_worker_def own_workers_Cons)
  ultimately show ?thesis using qs by (simp add: own_workers_Cons)
qed

locale worker_visit = task_visit V visit eng for V :: "'c client_if" and visit :: "task_profile \<Rightarrow> 's \<Rightarrow> task_profile option \<times> 's" and eng :: "'s \<Rightarrow> 'c engine" +
  assumes visit_fresh: "visit p s = (Some q, s') \<Longrightarrow> fresh_worker p (workers (eng s)) q (workers (eng s'))"
begin

lemma visit_workers: "visit p s = (r, s') \<Longrightarrow> workers (eng s) \<le> workers (eng s')"
  using visit_settles by (auto simp: settles_def)

lemma walk_workers:
  "walk visit ps s = (qs, s') \<Longrightarrow> own_workers n ps \<Longrightarrow> n \<le> workers (eng s) \<Longrightarrow>
   workers (eng s) \<le> workers (eng s') \<and> own_workers (workers (eng s')) qs
   \<and> (\<forall>i \<in> set (running_ids qs). i \<in> set (running_ids ps) \<or> workers (eng s) < i)"
proof (induction ps arbitrary: s qs s')
  case Nil
  then show ?case by (auto simp: running_ids_def)
next
  case (Cons p ps)
  obtain r s1 where v: "visit p s = (r, s1)" by (cases "visit p s")
  obtain qs1 s2 where w: "walk visit ps s1 = (qs1, s2)" by (cases "walk visit ps s1")
  note m = visit_workers [OF v]
  have qs: "qs = (case r of None \<Rightarrow> qs1 | Some q \<Rightarrow> q # qs1)" "s' = s2" using Cons.prems(1) v w by simp_all
  have "own_workers n ps" using Cons.prems(2) by (simp add: own_workers_Cons)
  note ih = Cons.IH [OF w this order_trans [OF Cons.prems(3) m]]
  have i: "\<forall>i \<in> set (running_ids qs1). i \<in> set (running_ids (p # ps)) \<or> workers (eng s) < i"
    using ih m by (auto simp: set_running_ids_Cons)
  show ?case
  proof (cases r)
    case None
    then show ?thesis using ih m qs i by simp
  next
    case (Some q)
    have f: "fresh_worker p (workers (eng s)) q (workers (eng s1))" using visit_fresh v Some by simp
    have "own_workers (workers (eng s2)) (q # qs1)"
      using own_workers_step [OF Cons.prems(2,3) m _ f] ih by blast
    moreover have "\<forall>i \<in> set (running_ids (q # qs1)). i \<in> set (running_ids (p # ps)) \<or> workers (eng s) < i"
      using i f by (auto simp: set_running_ids_Cons fresh_worker_def)
    ultimately show ?thesis using ih m qs Some by simp
  qed
qed

lemma visit_first_workers:
  "visit_first P visit ps s = (qs, s') \<Longrightarrow> own_workers n ps \<Longrightarrow> n \<le> workers (eng s) \<Longrightarrow>
   workers (eng s) \<le> workers (eng s') \<and> own_workers (workers (eng s')) qs
   \<and> (\<forall>i \<in> set (running_ids qs). i \<in> set (running_ids ps) \<or> workers (eng s) < i)"
proof (induction ps arbitrary: qs)
  case Nil
  then show ?case by (auto simp: running_ids_def)
next
  case (Cons p ps)
  have o: "own_workers n ps" using Cons.prems(2) by (simp add: own_workers_Cons)
  show ?case
  proof (cases "P p")
    case True
    obtain r s1 where v: "visit p s = (r, s1)" by (cases "visit p s")
    have qs: "qs = (case r of None \<Rightarrow> ps | Some q \<Rightarrow> q # ps)" "s' = s1" using Cons.prems(1) v True by simp_all
    note m = visit_workers [OF v]
    have ps: "own_workers (workers (eng s1)) ps" using own_workers_mono [OF o] Cons.prems(3) m by simp
    show ?thesis
    proof (cases r)
      case None
      then show ?thesis using qs m ps by (simp add: set_running_ids_Cons)
    next
      case (Some q)
      have f: "fresh_worker p (workers (eng s)) q (workers (eng s1))" using visit_fresh v Some by simp
      have "own_workers (workers (eng s1)) (q # ps)" using own_workers_step [OF Cons.prems(2,3) m order_refl f ps] by blast
      then show ?thesis using qs m Some f by (auto simp: set_running_ids_Cons fresh_worker_def)
    qed
  next
    case False
    obtain qs1 s1 where w: "visit_first P visit ps s = (qs1, s1)" by (cases "visit_first P visit ps s")
    have qs: "qs = p # qs1" "s' = s1" using Cons.prems(1) w False by simp_all
    then have ih: "workers (eng s) \<le> workers (eng s1) \<and> own_workers (workers (eng s1)) qs1
        \<and> (\<forall>i \<in> set (running_ids qs1). i \<in> set (running_ids ps) \<or> workers (eng s) < i)"
      using Cons.IH [of qs1] w o Cons.prems(3) by simp
    then have "own_workers (workers (eng s1)) (p # qs1)"
      using own_workers_step [OF Cons.prems(2,3) order_refl _ _, of "workers (eng s1)" p qs1] by (simp add: fresh_worker_def)
    then show ?thesis using qs ih by (auto simp: set_running_ids_Cons)
  qed
qed

end

section \<open>Steps of the managers\<close>

text \<open>All tasks of the engine. A step makes progress if it accounts for every task, starts none, keeps in
  each list only tasks that were there, and lets no two tasks share a worker.\<close>

definition owners :: "'c engine \<Rightarrow> bool" where
  "owners e \<longleftrightarrow> own_workers (workers e) (sm_cmd (eg_short e))"

definition books :: "'c engine \<Rightarrow> dword multiset" where
  "books e = mset (map prof_id (lm_cmd (eg_long e))) + mset (map prof_id (sm_cmd (eg_short e))) + outside e"

text \<open>Tasks that come to have a worker have a new one.\<close>

definition hires :: "'c engine \<Rightarrow> 'c engine \<Rightarrow> bool" where
  "hires e e' \<longleftrightarrow> workers e \<le> workers e'
     \<and> (\<forall>i \<in> set (running_ids (sm_cmd (eg_short e'))). i \<in> set (running_ids (sm_cmd (eg_short e))) \<or> workers e < i)"

lemma hires_refl [simp]: "hires e e"
  by (simp add: hires_def)

lemma hires_trans: "hires e e' \<Longrightarrow> hires e' e'' \<Longrightarrow> hires e e''"
  unfolding hires_def by (meson order_trans order_le_less_trans)

definition progress :: "'c client_if \<Rightarrow> 'c engine \<Rightarrow> 'c engine \<Rightarrow> bool" where
  "progress V e e' \<longleftrightarrow> books e' = books e \<and> eg_started e' = eg_started e
     \<and> follows (lm_cmd (eg_long e)) (lm_cmd (eg_long e')) \<and> follows (sm_cmd (eg_short e)) (sm_cmd (eg_short e'))
     \<and> (owners e \<longrightarrow> owners e') \<and> (owners e \<longrightarrow> hires e e') \<and> client_rel V (books e) e e'"

lemma progress_refl [simp, intro]: "progress V e e"
  by (simp add: progress_def)

lemma progress_trans [trans]: "progress V e e' \<Longrightarrow> progress V e' e'' \<Longrightarrow> progress V e e''"
  by (auto simp: progress_def intro: follows_trans client_rel_trans hires_trans)

lemma books_outside: "outside e \<subseteq># books e" "mset (map prof_id (lm_cmd (eg_long e))) + outside e \<subseteq># books e"
  "mset (map prof_id (sm_cmd (eg_short e))) + outside e \<subseteq># books e"
  by (simp_all add: books_def subset_mset.add_increasing ac_simps)

lemma progress_settles:
  assumes "settles V {#} e {#} e'"
  shows "progress V e e'"
proof -
  have "client_rel V (books e) e e'" using assms by (auto simp: settles_def intro: client_rel_mono [OF _ books_outside(1)])
  moreover have "books e' = books e" using assms by (simp add: settles_def books_def)
  ultimately show ?thesis using assms by (auto simp: settles_def progress_def owners_def hires_def intro: own_workers_mono)
qed

definition set_long :: "task_profile list \<Rightarrow> 'c engine \<Rightarrow> 'c engine" where
  "set_long ps e = e\<lparr> eg_long := (eg_long e)\<lparr> lm_cmd := ps \<rparr> \<rparr>"

definition set_short :: "task_profile list \<Rightarrow> 'c engine \<Rightarrow> 'c engine" where
  "set_short ps e = e\<lparr> eg_short := (eg_short e)\<lparr> sm_cmd := ps \<rparr> \<rparr>"

lemma set_lists_sel [simp]:
  "lm_cmd (eg_long (set_long ps e)) = ps" "eg_short (set_long ps e) = eg_short e" "outside (set_long ps e) = outside e"
  "sm_cmd (eg_short (set_short ps e)) = ps" "eg_long (set_short ps e) = eg_long e" "outside (set_short ps e) = outside e"
  "eg_started (set_long ps e) = eg_started e" "eg_started (set_short ps e) = eg_started e"
  "workers (set_long ps e) = workers e" "workers (set_short ps e) = workers e"
  "client_rel V S e0 (set_long ps e) = client_rel V S e0 e" "client_rel V S e0 (set_short ps e) = client_rel V S e0 e"
  by (simp_all add: set_long_def set_short_def outside_def workers_def)

lemma progress_set_long:
  assumes "settles V (mset (map prof_id (lm_cmd (eg_long e)))) e (mset (map prof_id ps)) e'" "follows (lm_cmd (eg_long e)) ps"
  shows "progress V e (set_long ps e')"
proof -
  have "mset (map prof_id ps) + outside e' = mset (map prof_id (lm_cmd (eg_long e))) + outside e"
    using assms(1) by (simp add: settles_def)
  then have "books (set_long ps e') = books e"
    using assms(1) by (simp add: books_def settles_def ac_simps)
  moreover have "client_rel V (books e) e e'" using assms(1) client_rel_mono [OF _ books_outside(2)] by (auto simp: settles_def)
  ultimately show ?thesis using assms own_workers_mono by (auto simp: progress_def settles_def owners_def hires_def)
qed

lemma progress_set_short:
  assumes "settles V (mset (map prof_id (sm_cmd (eg_short e)))) e (mset (map prof_id ps)) e'" "follows (sm_cmd (eg_short e)) ps"
    and "owners e \<Longrightarrow> own_workers (workers e') ps \<and> (\<forall>i \<in> set (running_ids ps). i \<in> set (running_ids (sm_cmd (eg_short e))) \<or> workers e < i)"
  shows "progress V e (set_short ps e')"
proof -
  have "mset (map prof_id ps) + outside e' = mset (map prof_id (sm_cmd (eg_short e))) + outside e"
    using assms(1) by (simp add: settles_def)
  then have "books (set_short ps e') = books e"
    using assms(1) by (simp add: books_def settles_def ac_simps)
  moreover have "client_rel V (books e) e e'" using assms(1) client_rel_mono [OF _ books_outside(3)] by (auto simp: settles_def)
  ultimately show ?thesis using assms by (simp add: progress_def settles_def owners_def hires_def)
qed

lemma progress_upd [simp]:
  "progress V e (e'\<lparr> eg_link := k \<rparr>) = progress V e e'"
  "progress V e (e'\<lparr> eg_dyn := d \<rparr>) = progress V e e'" "progress V e (e'\<lparr> eg_reports := r \<rparr>) = progress V e e'"
  "progress V e (e'\<lparr> eg_shortlink_error_count := n \<rparr>) = progress V e e'"
  "progress V e (e'\<lparr> eg_shortlink_try_flag := b \<rparr>) = progress V e e'"
  "progress V e (e'\<lparr> eg_net_core_last_start_task_time := q \<rparr>) = progress V e e'"
  "progress V e (e'\<lparr> eg_active := a \<rparr>) = progress V e e'" "progress V e (e'\<lparr> eg_avalanche := v \<rparr>) = progress V e e'"
  "progress V e (e'\<lparr> eg_long := (eg_long e')\<lparr> lm_retry_interval := q \<rparr> \<rparr>) = progress V e e'"
  "progress V e (e'\<lparr> eg_long := (eg_long e')\<lparr> lm_lastbatcherrortime := q \<rparr> \<rparr>) = progress V e e'"
  by (simp_all add: progress_def books_def outside_def owners_def workers_def hires_def)

section \<open>Zombies\<close>

definition zombie_ids :: "zombie_task list \<Rightarrow> dword multiset" where
  "zombie_ids zs = mset (map (\<lambda>z. mt_taskid (zt_task z)) zs)"

lemma settles_post: "settles V {# mt_taskid t #} e {#} (post_start t e)"
  by (simp add: post_start_def settles_def outside_def workers_def)

lemma settles_zombie_restart: "settles V {# mt_taskid (zt_task z) #} e {#} (zombie_restart k z e)"
  using settles_post [of V "(zt_task z)\<lparr> mt_total_timetout := n \<rparr>" for n] by (simp add: zombie_restart_def)

lemma settles_zombie_expire: "settles V {# mt_taskid (zt_task z) #} e {#} (zombie_expire V k z e)"
  unfolding zombie_expire_def by (rule settles_CallBack) (rule prod.collapse [symmetric])

lemma zombie_keeps [simp]: "eg_zombies (zombie_restart k z e) = eg_zombies e" "eg_zombies (zombie_expire V k z e) = eg_zombies e"
  by (simp_all add: zombie_restart_def post_start_def zombie_expire_def CallBack_def OnTaskEnd_def kTaskFailHandleTaskEnd_def
      split: prod.splits)

lemma settles_start_all: "settles V (zombie_ids zs) e {#} (zombie_start_all V k zs e)"
proof (induction zs arbitrary: e)
  case Nil
  then show ?case by (simp add: zombie_ids_def)
next
  case (Cons z zs)
  let ?e = "if zombie_spent k z \<ge> zombie_timeout z then zombie_expire V k z e else zombie_restart k z e"
  have "settles V ({# mt_taskid (zt_task z) #} + zombie_ids zs) e ({#} + {#}) (zombie_start_all V k zs ?e)"
    by (rule settles_add [OF _ Cons.IH]) (simp add: settles_zombie_restart settles_zombie_expire)
  then show ?case by (simp add: zombie_ids_def)
qed

lemma settles_clear_zombies: "settles V M e (M + zombie_ids (eg_zombies e)) (e\<lparr> eg_zombies := [] \<rparr>)"
  by (simp add: settles_def outside_def zombie_ids_def workers_def ac_simps)

lemma settles_set_zombies: "eg_zombies e = [] \<Longrightarrow> settles V (M + zombie_ids zs) e M (e\<lparr> eg_zombies := zs \<rparr>)"
  by (simp add: settles_def outside_def zombie_ids_def workers_def ac_simps)

lemma progress_Zombie_RedoTasks: "progress V e (Zombie_RedoTasks V k e)"
proof -
  let ?zs = "sort_key (\<lambda>z. mt_priority (zt_task z)) (eg_zombies e)"
  have "settles V {#} e ({#} + zombie_ids (eg_zombies e)) (e\<lparr> eg_zombies := [] \<rparr>)" by (rule settles_clear_zombies)
  moreover have "zombie_ids ?zs = zombie_ids (eg_zombies e)" by (simp add: zombie_ids_def)
  ultimately have "settles V {#} e {#} (zombie_start_all V k ?zs (e\<lparr> eg_zombies := [] \<rparr>))"
    using settles_trans settles_start_all [of V ?zs] by fastforce
  then show ?thesis by (simp add: Zombie_RedoTasks_def progress_settles)
qed

text \<open>The timer takes from the list what it ends or restarts.\<close>

lemma settles_zombie_check:
  "zombie_check V k t zs e = (rest, e') \<Longrightarrow> settles V (zombie_ids zs) e (zombie_ids rest) e' \<and> eg_zombies e' = eg_zombies e"
proof (induction zs arbitrary: e rest)
  case Nil
  then show ?case by simp
next
  case (Cons z zs)
  show ?case
  proof (cases "zombie_spent k z \<ge> zombie_timeout z \<or> zombie_spent k z \<ge> RETRY_INTERVAL \<and> tk_now k - t \<ge> RETRY_INTERVAL")
    case True
    define e1 where "e1 = (if zombie_spent k z \<ge> zombie_timeout z then zombie_expire V k z e else zombie_restart k z e)"
    have e1: "zombie_check V k t zs e1 = (rest, e')" "settles V {# mt_taskid (zt_task z) #} e {#} e1" "eg_zombies e1 = eg_zombies e"
      using Cons.prems True by (auto simp: e1_def settles_zombie_restart settles_zombie_expire)
    have "settles V ({# mt_taskid (zt_task z) #} + zombie_ids zs) e ({#} + zombie_ids rest) e'"
      using settles_add [OF e1(2)] Cons.IH [OF e1(1)] by blast
    then show ?thesis using Cons.IH [OF e1(1)] e1(3) by (simp add: zombie_ids_def)
  next
    case False
    then obtain rest1 where r: "zombie_check V k t zs e = (rest1, e')" "rest = z # rest1"
      using Cons.prems by (auto split: prod.splits if_splits)
    have "settles V (zombie_ids zs + {# mt_taskid (zt_task z) #}) e (zombie_ids rest1 + {# mt_taskid (zt_task z) #}) e'"
      using Cons.IH [OF r(1)] by (intro settles_frame) simp
    then show ?thesis using Cons.IH [OF r(1)] r(2) by (simp add: zombie_ids_def)
  qed
qed

lemma progress_TimerChecker: "progress V e (Zombie_TimerChecker V k e)"
proof -
  let ?t = "eg_net_core_last_start_task_time e"
  obtain zs e1 where z: "zombie_check V k ?t (eg_zombies e) e = (zs, e1)" by (cases "zombie_check V k ?t (eg_zombies e) e")
  note s = settles_zombie_check [OF z]
  have "client_rel V (zombie_ids (eg_zombies e) + outside e) e e1" using s unfolding settles_def by blast
  then have "client_rel V (outside e) e e1"
    by (subst client_rel_set [of _ "zombie_ids (eg_zombies e) + outside e"]) (auto simp: outside_def zombie_ids_def)
  moreover have "outside (e1\<lparr> eg_zombies := zs \<rparr>) = outside e"
    using s by (auto simp: settles_def outside_def zombie_ids_def add.assoc)
  ultimately have "settles V {#} e {#} (e1\<lparr> eg_zombies := zs \<rparr>)"
    using s by (auto simp: settles_def workers_def)
  then show ?thesis using z by (simp add: Zombie_TimerChecker_def progress_settles)
qed

lemma progress_ConnStatus: "progress V e (ConnStatusCallBack e)"
  by (simp add: ConnStatusCallBack_def split: TLongLinkStatus.split)

lemma progress_LongError: "progress V e (OnLongLinkNetworkError V k et ec e)"
  by (simp add: OnLongLinkNetworkError_def Let_def progress_trans [OF _ progress_Zombie_RedoTasks])

lemma progress_ShortError: "progress V e (OnShortLinkNetworkError V k et ec e)"
  by (simp add: OnShortLinkNetworkError_def Let_def progress_trans [OF _ progress_Zombie_RedoTasks]
      progress_trans [OF _ progress_ConnStatus])

lemma ShortError_settles: "et \<noteq> kEctOK \<Longrightarrow> settles V M e M (OnShortLinkNetworkError V k et ec e)"
  by (simp add: OnShortLinkNetworkError_def Let_def ConnStatusCallBack_def split: TLongLinkStatus.split)

end
