(* ===== verification/Longlink_Tasks.thy ===== *)
theory Longlink_Tasks imports Engine_State begin

text \<open>
  The manager of the tasks on the long link (\<^verbatim>\<open>longlink_task_manager.cc\<close>): starting, stopping, timing
  out, sending, answering and retrying tasks. One handler is one step on the engine's state, at one
  reading of the clock. The lemmas account for every task a handler takes off the list, and show that
  no task outlives its deadline by a pass of the loop.
\<close>

section \<open>State\<close>

definition set_long_retry :: "qword \<Rightarrow> 'c engine \<Rightarrow> 'c engine" where
  "set_long_retry q e = e\<lparr> eg_long := (eg_long e)\<lparr> lm_retry_interval := q \<rparr> \<rparr>"

definition disconnect :: "'c engine \<Rightarrow> 'c engine" where
  "disconnect e = e\<lparr> eg_link := LL_Disconnect (eg_link e) \<rparr>"

section \<open>Ending and retrying\<close>

text \<open>\<^verbatim>\<open>__SingleRespHandle\<close>: nothing when the task has ended, the task with an attempt less otherwise.\<close>

definition Long_SingleResp :: "'c client_if \<Rightarrow> tick \<Rightarrow> task_profile \<Rightarrow> ErrCmdType \<Rightarrow> int \<Rightarrow> int \<Rightarrow> 'c engine \<Rightarrow> task_profile option \<times> 'c engine" where
  "Long_SingleResp V k p err_type err_code fail_handle e =
     (let e = (if err_type = kEctOK
               then e\<lparr> eg_long := (eg_long e)\<lparr> lm_retry_interval := 0, lm_fail_count := 0 \<rparr> \<rparr>
               else e\<lparr> eg_long := (eg_long e)\<lparr> lm_fail_count := lm_fail_count (eg_long e) + 1 \<rparr> \<rparr>)
      in if 0 \<ge> tp_remain_retry_count p \<or> err_type = kEctOK \<or> fail_handle = kTaskFailHandleTaskEnd \<or> fail_handle = kTaskFailHandleTaskTimeout
         then let (_, e) = CallBack V k kCallFromLong err_type err_code fail_handle (tp_task p) (ucast (tk_now k - tp_start_task_time p)) e
              in (None, e)
         else (Some (InitSendParam (PushHistory (p\<lparr> tp_remain_retry_count := tp_remain_retry_count p - 1 \<rparr>))), e))"

text \<open>\<^verbatim>\<open>__BatchErrorRespHandle\<close>. The visit of one task, then the whole.\<close>

definition long_batch_visit :: "'c client_if \<Rightarrow> tick \<Rightarrow> ErrCmdType \<Rightarrow> int \<Rightarrow> int \<Rightarrow> dword \<Rightarrow> bool \<Rightarrow> task_profile \<Rightarrow> 'c engine \<Rightarrow> task_profile option \<times> 'c engine" where
  "long_batch_visit V k err_type err_code fail_handle src_taskid callback_runing_task_only p e =
     (if callback_runing_task_only \<and> tp_running_id p = 0 then (Some p, e)
      else if src_taskid = kInvalidTaskID \<or> src_taskid = prof_id p then Long_SingleResp V k p err_type err_code fail_handle e
      else Long_SingleResp V k p err_type 0 fail_handle e)"

definition Long_BatchError :: "'c client_if \<Rightarrow> tick \<Rightarrow> ErrCmdType \<Rightarrow> int \<Rightarrow> int \<Rightarrow> dword \<Rightarrow> bool \<Rightarrow> 'c engine \<Rightarrow> 'c engine" where
  "Long_BatchError V k err_type err_code fail_handle src_taskid callback_runing_task_only e =
     (let (ps, e) = walk (long_batch_visit V k err_type err_code fail_handle src_taskid callback_runing_task_only) (lm_cmd (eg_long e)) e;
          e = set_long ps e;
          e = e\<lparr> eg_long := (eg_long e)\<lparr> lm_lastbatcherrortime := tk_now k \<rparr> \<rparr>;
          e = (if err_type \<noteq> kEctLocal \<and> ps \<noteq> [] then set_long_retry DEF_TASK_RETRY_INTERNAL e else e);
          e = (if fail_handle = kTaskFailHandleSessionTimeout \<or> fail_handle = kTaskFailHandleRetryAllTasks
               then set_long_retry 0 (disconnect e) else e);
          e = (if fail_handle = kTaskFailHandleDefault \<and> err_type \<noteq> kEctDns \<and> err_type \<noteq> kEctSocket then disconnect e else e)
      in if err_type = kEctNetMsgXP then disconnect e else e)"

section \<open>Timeouts\<close>

text \<open>\<^verbatim>\<open>__RunOnTimeout\<close>, one task: the socket timeout, if any, and the task with its record of the
  failure.\<close>

definition long_socket_timeout :: "tick \<Rightarrow> task_profile \<Rightarrow> int \<Rightarrow> int \<times> task_profile" where
  "long_socket_timeout k p code =
     (let t = tp_transfer p in
      if tp_running_id p \<noteq> 0 \<and> 0 < tr_start_send_time t then
        let (code, p) = (if tr_last_receive_pkg_time t = 0 \<and> tk_now k - tr_start_send_time t \<ge> tr_first_pkg_timeout t
                         then (kEctLongFirstPkgTimeout, SetLastFailedStatus p) else (code, p));
            code = (if 0 < tr_last_receive_pkg_time t \<and> tk_now k - tr_last_receive_pkg_time t \<ge> kPackageInterval (tk_net k)
                    then kEctLongPkgPkgTimeout else code);
            code = (if tk_now k - tr_start_send_time t \<ge> tr_read_write_timeout t then kEctLongReadWriteTimeout else code)
        in (code, p)
      else (code, p))"

definition long_timeout_visit :: "'c client_if \<Rightarrow> tick \<Rightarrow> task_profile \<Rightarrow> int \<times> bool \<times> 'c engine \<Rightarrow> task_profile option \<times> int \<times> bool \<times> 'c engine" where
  "long_timeout_visit V k p s =
     (case s of (code, istasktimeout, e) \<Rightarrow>
        let (code, p) = long_socket_timeout k p code in
        if overdue k p
        then let (r, e) = Long_SingleResp V k p kEctLocal kEctLocalTaskTimeout kTaskFailHandleTaskTimeout e in (r, code, True, e)
        else (Some p, code, istasktimeout, e))"

definition Long_RunOnTimeout :: "'c client_if \<Rightarrow> tick \<Rightarrow> 'c engine \<Rightarrow> 'c engine" where
  "Long_RunOnTimeout V k e =
     (let (ps, code, istasktimeout, e) = walk (long_timeout_visit V k) (lm_cmd (eg_long e)) (0, False, e);
          e = set_long ps e
      in if code \<noteq> 0 then
           let e = e\<lparr> eg_dyn := CgiTaskStatistic (tk_now k) (tk_net k) kDynTimeTaskFailedPkgLen 0 (eg_dyn e) \<rparr>;
               e = Long_BatchError V k kEctNetMsgXP code kTaskFailHandleDefault kInvalidTaskID True e
           in OnLongLinkNetworkError V k kEctNetMsgXP code e
         else if istasktimeout then Long_BatchError V k kEctNetMsgXP kEctLongTaskTimeout kTaskFailHandleDefault kInvalidTaskID True e
         else e)"

section \<open>Sending\<close>

text \<open>The end of \<^verbatim>\<open>__RunOnStartTask\<close> for one task, once it has its packet.\<close>

definition long_transmit :: "'c client_if \<Rightarrow> tick \<Rightarrow> nat \<Rightarrow> task_profile \<Rightarrow> bytes \<Rightarrow> 'c engine \<Rightarrow> task_profile option \<times> nat \<times> 'c engine" where
  "long_transmit V k n p body e =
     (let p = attempt_timings k n body p e; (sent, lk) = LL_Send (ci_version V) body (tp_task p) (eg_link e); e = e\<lparr> eg_link := lk \<rparr>;
          p = p\<lparr> tp_running_id := (if sent then 1 else 0) \<rparr>
      in if \<not> sent then (Some p, n, e)
         else let e = e\<lparr> eg_sent := eg_sent e @ [prof_id p] \<rparr> in
              if mt_send_only (tp_task p)
              then let (r, e) = Long_SingleResp V k p kEctOK 0 kTaskFailHandleNoError e in (r, Suc n, e)
              else (Some p, Suc n, e))"

definition long_fail :: "'c client_if \<Rightarrow> tick \<Rightarrow> nat \<Rightarrow> task_profile \<Rightarrow> ErrCmdType \<times> int \<Rightarrow> 'c engine \<Rightarrow> task_profile option \<times> nat \<times> 'c engine" where
  "long_fail V k n p err e =
     (let (r, e) = Long_SingleResp V k p (fst err) (snd err) kTaskFailHandleTaskEnd e in (r, n, e))"

text \<open>The part after the first packet was requested: the connection, the channel, and the packet again if
  there is none (a task that was checked before has none yet).\<close>

definition long_connected_part :: "'c client_if \<Rightarrow> tick \<Rightarrow> nat \<Rightarrow> task_profile \<Rightarrow> bytes option \<Rightarrow> 'c engine \<Rightarrow> task_profile option \<times> nat \<times> 'c engine" where
  "long_connected_part V k n p buf e =
     (let (conn, lk) = Monitor_MakeSureConnected (tk_now k) (tk_net k) (eg_active e) (eg_link e); e = e\<lparr> eg_link := lk \<rparr>;
          channel = mt_channel_id (tp_task p)
      in if \<not> conn then (if channel \<noteq> 0 then long_fail V k n p (kEctLocal, kEctLocalChannelID) e else (Some p, n, e))
         else if channel \<noteq> 0 \<and> lk_start_time lk \<noteq> channel then long_fail V k n p (kEctLocal, kEctLocalChannelID) e
         else let (r, e) = (if packet_bytes buf = [] then request_packet V k (tp_task p) e else (Inr buf, e)) in
              (case r of
                 Inl err \<Rightarrow> long_fail V k n p err e
               | Inr buf \<Rightarrow> long_transmit V k n p (packet_bytes buf) e))"

definition long_start_visit :: "'c client_if \<Rightarrow> tick \<Rightarrow> bool \<Rightarrow> task_profile \<Rightarrow> nat \<times> 'c engine \<Rightarrow> task_profile option \<times> nat \<times> 'c engine" where
  "long_start_visit V k canretry p s =
     (case s of (n, e) \<Rightarrow>
        if tp_running_id p \<noteq> 0 then (Some p, Suc n, e)
        else if mt_retry_count (tp_task p) > tp_remain_retry_count p \<and> \<not> canretry then (Some p, n, e)
        else if mt_need_authed (tp_task p) \<and> \<not> ci_authed V then (Some p, n, e)
        else let (r, e) = (if tp_antiavalanche_checked p then (Inr None, e) else request_packet V k (tp_task p) e) in
             (case r of
                Inl err \<Rightarrow> long_fail V k n p err e
              | Inr buf \<Rightarrow> long_connected_part V k n (p\<lparr> tp_antiavalanche_checked := True \<rparr>) buf e))"

definition Long_RunOnStartTask :: "'c client_if \<Rightarrow> tick \<Rightarrow> 'c engine \<Rightarrow> 'c engine" where
  "Long_RunOnStartTask V k e =
     (let canretry = (tk_now k - lm_lastbatcherrortime (eg_long e) \<ge> lm_retry_interval (eg_long e));
          (ps, n, e) = walk (long_start_visit V k canretry) (lm_cmd (eg_long e)) (0, e)
      in set_long ps e)"

definition Long_RunLoop :: "'c client_if \<Rightarrow> tick \<Rightarrow> 'c engine \<Rightarrow> 'c engine" where
  "Long_RunLoop V k e = (if lm_cmd (eg_long e) = [] then e else Long_RunOnStartTask V k (Long_RunOnTimeout V k e))"

section \<open>Operations\<close>

definition Long_StartTask :: "'c client_if \<Rightarrow> tick \<Rightarrow> mtask \<Rightarrow> 'c engine \<Rightarrow> bool \<times> 'c engine" where
  "Long_StartTask V k t e = (True, Long_RunLoop V k (set_long (queue_task (new_profile (tk_now k) t) (lm_cmd (eg_long e))) e))"

definition Long_StopTask :: "dword \<Rightarrow> 'c engine \<Rightarrow> bool \<times> 'c engine" where
  "Long_StopTask taskid e =
     (case remove_first (\<lambda>p. taskid = prof_id p) (lm_cmd (eg_long e)) of
        None \<Rightarrow> (False, e)
      | Some ps \<Rightarrow> (True, (set_long ps e)\<lparr> eg_link := snd (LL_Stop taskid (eg_link e)), eg_dropped := eg_dropped e @ [taskid] \<rparr>))"

definition Long_HasTask :: "dword \<Rightarrow> 'c engine \<Rightarrow> bool" where
  "Long_HasTask taskid e \<longleftrightarrow> list_ex (\<lambda>p. taskid = prof_id p) (lm_cmd (eg_long e))"

definition Long_ClearTasks :: "'c engine \<Rightarrow> 'c engine" where
  "Long_ClearTasks e = (set_long [] (disconnect e))\<lparr> eg_dropped := eg_dropped e @ map prof_id (lm_cmd (eg_long e)) \<rparr>"

definition Long_RedoTasks :: "'c client_if \<Rightarrow> tick \<Rightarrow> 'c engine \<Rightarrow> 'c engine" where
  "Long_RedoTasks V k e = Long_RunLoop V k (set_long_retry 0 (set_long (map redo_profile (lm_cmd (eg_long e))) e))"

definition Long_RetryTasks :: "'c client_if \<Rightarrow> tick \<Rightarrow> ErrCmdType \<Rightarrow> int \<Rightarrow> int \<Rightarrow> dword \<Rightarrow> 'c engine \<Rightarrow> 'c engine" where
  "Long_RetryTasks V k err_type err_code fail_handle src_taskid e =
     Long_RunLoop V k (Long_BatchError V k err_type err_code fail_handle src_taskid True e)"

text \<open>\<^verbatim>\<open>__Locate\<close> and a change of the task found.\<close>

definition Long_Locate :: "dword \<Rightarrow> 'c engine \<Rightarrow> task_profile option" where
  "Long_Locate taskid e = (if taskid = kInvalidTaskID then None else find (\<lambda>p. taskid = prof_id p) (lm_cmd (eg_long e)))"

definition long_change :: "dword \<Rightarrow> (transfer \<Rightarrow> transfer) \<Rightarrow> 'c engine \<Rightarrow> 'c engine" where
  "long_change taskid f e =
     (if taskid = kInvalidTaskID then e
      else set_long (change_first (\<lambda>p. taskid = prof_id p) (change_transfer f) (lm_cmd (eg_long e))) e)"

definition Long_OnSend :: "tick \<Rightarrow> dword \<Rightarrow> 'c engine \<Rightarrow> 'c engine" where
  "Long_OnSend k taskid e = long_change taskid (send_begun k) e"

definition Long_OnRecv :: "tick \<Rightarrow> dword \<Rightarrow> dword \<Rightarrow> dword \<Rightarrow> 'c engine \<Rightarrow> 'c engine" where
  "Long_OnRecv k taskid cachedsize totalsize e = long_change taskid (received k cachedsize totalsize) e"

text \<open>\<^verbatim>\<open>__SignalConnection\<close>\<close>

definition Long_SignalConnection :: "'c client_if \<Rightarrow> tick \<Rightarrow> TLongLinkStatus \<Rightarrow> 'c engine \<Rightarrow> 'c engine" where
  "Long_SignalConnection V k st e = (if st = kConnected then Long_RunLoop V k e else e)"

section \<open>Accounts\<close>

lemma settles_SingleResp [settle]:
  "Long_SingleResp V k p et ec fh e = (r, e') \<Longrightarrow> settles V {# prof_id p #} e (kept_ids r) e'"
proof -
  let ?l = "if et = kEctOK then (eg_long e)\<lparr> lm_retry_interval := 0, lm_fail_count := 0 \<rparr>
    else (eg_long e)\<lparr> lm_fail_count := lm_fail_count (eg_long e) + 1 \<rparr>"
  let ?e = "e\<lparr> eg_long := ?l \<rparr>"
  have 1: "settles V {# prof_id p #} e {# prof_id p #} ?e" by (rule settles_long) simp
  assume "Long_SingleResp V k p et ec fh e = (r, e')"
  then consider "r = None" "\<exists>x. CallBack V k kCallFromLong et ec fh (tp_task p) (ucast (tk_now k - tp_start_task_time p)) ?e = (x, e')"
    | q where "r = Some q" "prof_id q = prof_id p" "e' = ?e"
    by (auto simp: Long_SingleResp_def Let_def prof_id_def InitSendParam_def PushHistory_def split: if_splits prod.splits)
  then show ?thesis
  proof cases
    case 1
    then show ?thesis using settles_trans [OF \<open>settles V _ e _ ?e\<close>] settles_CallBack by (fastforce simp: prof_id_def)
  next
    case 2
    then show ?thesis using \<open>settles V _ e _ ?e\<close> by simp
  qed
qed

lemma SingleResp_continues: "Long_SingleResp V k p et ec fh e = (Some q, e') \<Longrightarrow> continues p q"
  by (auto simp: Long_SingleResp_def Let_def continues_def InitSendParam_def PushHistory_def split: if_splits prod.splits)

lemma SingleResp_ends: "Long_SingleResp V k p et ec kTaskFailHandleTaskTimeout e = (r, e') \<Longrightarrow> r = None"
  by (auto simp: Long_SingleResp_def Let_def split: prod.splits)

interpretation long_batch: task_visit V "long_batch_visit V k et ec fh src run" "\<lambda>e. e" for V k et ec fh src run
  by unfold_locales
    (auto simp: long_batch_visit_def split: if_splits intro: settles_SingleResp SingleResp_continues)

lemma socket_timeout_continues: "long_socket_timeout k p code = (code', q) \<Longrightarrow> continues p q"
  by (auto simp: long_socket_timeout_def Let_def split: if_splits)

interpretation long_timeout: task_visit V "long_timeout_visit V k" "\<lambda>s. snd (snd s)" for V k
proof unfold_locales
  fix p s r s'
  assume v: "long_timeout_visit V k p s = (r, s')"
  obtain code b e where s: "s = (code, b, e)" by (cases s)
  obtain code' q where q: "long_socket_timeout k p code = (code', q)" by (cases "long_socket_timeout k p code")
  have "prof_id q = prof_id p" using socket_timeout_continues [OF q] by (rule continues_id)
  with v show "settles V {# prof_id p #} (snd (snd s)) (kept_ids r) (snd (snd s'))"
    using settles_SingleResp [of V k q] by (fastforce simp: long_timeout_visit_def s q split: if_splits prod.splits)
next
  fix p s q s'
  assume v: "long_timeout_visit V k p s = (Some q, s')"
  obtain code b e where s: "s = (code, b, e)" by (cases s)
  from v show "continues p q"
    by (auto simp: long_timeout_visit_def s split: if_splits prod.splits dest: SingleResp_ends socket_timeout_continues)
qed

lemma settles_long_fail: "long_fail V k n p err e = (r, n', e') \<Longrightarrow> settles V {# prof_id p #} e (kept_ids r) e'"
  by (auto simp: long_fail_def split: prod.splits dest: settles_SingleResp)

lemma long_fail_continues: "long_fail V k n p err e = (Some q, n', e') \<Longrightarrow> continues p q"
  by (auto simp: long_fail_def split: prod.splits dest: SingleResp_continues)

lemma prof_id_changes [simp]: "prof_id (attempt_timings k n body p e) = prof_id p" "prof_id (p\<lparr> tp_running_id := i \<rparr>) = prof_id p"
  "prof_id (p\<lparr> tp_antiavalanche_checked := b \<rparr>) = prof_id p"
  by (simp_all add: prof_id_def attempt_timings_def Let_def)

lemma continues_running: "continues (p\<lparr> tp_running_id := i \<rparr>) q = continues p q"
  "continues (p\<lparr> tp_antiavalanche_checked := b \<rparr>) q = continues p q" "continues p (q\<lparr> tp_running_id := i \<rparr>) = continues p q"
  by (simp_all add: continues_def)

lemma long_transmit_visit:
  assumes "long_transmit V k n p body e = (r, n', e')"
  shows "settles V {# prof_id p #} e (kept_ids r) e' \<and> (r = Some q \<longrightarrow> continues p q)"
proof -
  let ?p = "attempt_timings k n body p e"
  obtain sent lk where l: "LL_Send (ci_version V) body (tp_task ?p) (eg_link e) = (sent, lk)" by (cases "LL_Send (ci_version V) body (tp_task ?p) (eg_link e)")
  let ?q = "?p\<lparr> tp_running_id := 1 \<rparr>"
  let ?e = "e\<lparr> eg_link := lk, eg_sent := eg_sent e @ [prof_id p] \<rparr>"
  obtain r1 e1 where v: "Long_SingleResp V k ?q kEctOK 0 kTaskFailHandleNoError ?e = (r1, e1)"
    by (cases "Long_SingleResp V k ?q kEctOK 0 kTaskFailHandleNoError ?e")
  have "settles V {# prof_id p #} ?e (kept_ids r1) e1" using settles_SingleResp [OF v] by simp
  moreover have "settles V {# prof_id p #} e {# prof_id p #} ?e" by simp
  ultimately have "settles V {# prof_id p #} e (kept_ids r1) e1" by (rule settles_trans [rotated])
  moreover have "continues p q" if "r1 = Some q"
  proof (rule continues_trans)
    show "continues p ?q" by (simp only: continues_running continues_changes)
    show "continues ?q q" using SingleResp_continues [of V k ?q] v that by simp
  qed
  ultimately show ?thesis
    using assms l v by (auto simp: long_transmit_def Let_def continues_running split: if_splits)
qed

lemma long_connected_visit:
  assumes "long_connected_part V k n p buf e = (r, n', e')"
  shows "settles V {# prof_id p #} e (kept_ids r) e' \<and> (r = Some q \<longrightarrow> continues p q)"
proof -
  obtain conn lk where m: "Monitor_MakeSureConnected (tk_now k) (tk_net k) (eg_active e) (eg_link e) = (conn, lk)"
    by (cases "Monitor_MakeSureConnected (tk_now k) (tk_net k) (eg_active e) (eg_link e)")
  let ?e = "e\<lparr> eg_link := lk \<rparr>"
  obtain req e1 where q: "(if packet_bytes buf = [] then request_packet V k (tp_task p) ?e else (Inr buf, ?e)) = (req, e1)"
    by (cases "if packet_bytes buf = [] then request_packet V k (tp_task p) ?e else (Inr buf, ?e)")
  have 0: "settles V M e M ?e" for M by simp
  have "settles V M ?e M e1" for M using q by (auto split: if_splits dest: settles_request)
  then have 1: "settles V M e M e1" for M using settles_trans [OF 0] by blast
  show ?thesis
    using assms m q settles_trans [OF 1] settles_trans [OF 0]
    by (fastforce simp: long_connected_part_def Let_def split: if_splits sum.splits
        dest: long_transmit_visit settles_long_fail long_fail_continues)
qed

interpretation long_start: task_visit V "long_start_visit V k canretry" "\<lambda>s. snd s" for V k canretry
proof -
  have "settles V {# prof_id p #} e (kept_ids r) e' \<and> (r = Some q \<longrightarrow> continues p q)"
    if v: "long_start_visit V k canretry p (n, e) = (r, n', e')" for p n e r n' e' q
  proof -
    obtain req e1 where q: "(if tp_antiavalanche_checked p then (Inr None, e) else request_packet V k (tp_task p) e) = (req, e1)"
      by (cases "if tp_antiavalanche_checked p then (Inr None, e) else request_packet V k (tp_task p) e")
    have 1: "settles V M e M e1" for M using q by (auto split: if_splits dest: settles_request)
    show ?thesis
      using v q settles_trans [OF 1]
      by (fastforce simp: long_start_visit_def Let_def continues_running split: if_splits sum.splits
          dest: long_connected_visit settles_long_fail long_fail_continues)
  qed
  then show "task_visit V (long_start_visit V k canretry) (\<lambda>s. snd s)"
    by unfold_locales (metis prod.collapse)+
qed

section \<open>Progress\<close>

named_theorems long_progress

lemma progress_disconnect [simp]: "progress V e (disconnect e') = progress V e e'"
  "progress V e (set_long_retry q e') = progress V e e'"
  by (simp_all add: disconnect_def set_long_retry_def)

lemma progress_Long_BatchError [long_progress]: "progress V e (Long_BatchError V k et ec fh src run e)"
proof -
  obtain ps e1 where w: "walk (long_batch_visit V k et ec fh src run) (lm_cmd (eg_long e)) e = (ps, e1)"
    by (cases "walk (long_batch_visit V k et ec fh src run) (lm_cmd (eg_long e)) e")
  have "progress V e (set_long ps e1)"
    by (rule progress_set_long [OF long_batch.walk_settles [OF w] long_batch.walk_follows [OF w]])
  with w show ?thesis by (auto simp: Long_BatchError_def Let_def)
qed

lemma progress_Long_RunOnTimeout [long_progress]: "progress V e (Long_RunOnTimeout V k e)"
proof -
  obtain ps code b e1 where w: "walk (long_timeout_visit V k) (lm_cmd (eg_long e)) (0, False, e) = (ps, code, b, e1)"
    by (cases "walk (long_timeout_visit V k) (lm_cmd (eg_long e)) (0, False, e)")
  have "progress V e (set_long ps e1)"
    using progress_set_long [OF _ long_timeout.walk_follows [OF w], of _ e1] long_timeout.walk_settles [OF w] by simp
  with w show ?thesis
    by (simp add: Long_RunOnTimeout_def Let_def progress_trans [OF _ progress_LongError] progress_trans [OF _ progress_Long_BatchError])
qed

lemma progress_Long_RunOnStartTask [long_progress]: "progress V e (Long_RunOnStartTask V k e)"
proof -
  define c where "c = (tk_now k - lm_lastbatcherrortime (eg_long e) \<ge> lm_retry_interval (eg_long e))"
  obtain ps n e1 where w: "walk (long_start_visit V k c) (lm_cmd (eg_long e)) (0, e) = (ps, n, e1)"
    by (cases "walk (long_start_visit V k c) (lm_cmd (eg_long e)) (0, e)")
  have "progress V e (set_long ps e1)"
    using progress_set_long [OF _ long_start.walk_follows [OF w], of _ e1] long_start.walk_settles [OF w] by simp
  with w show ?thesis by (simp add: Long_RunOnStartTask_def c_def)
qed

lemma progress_Long_RunLoop [long_progress]: "progress V e (Long_RunLoop V k e)"
  by (simp add: Long_RunLoop_def progress_trans [OF progress_Long_RunOnTimeout progress_Long_RunOnStartTask])

lemma progress_list_change:
  "follows (lm_cmd (eg_long e)) ps \<Longrightarrow> map prof_id ps = map prof_id (lm_cmd (eg_long e)) \<Longrightarrow> progress V e (set_long ps e)"
  by (rule progress_set_long) (simp_all del: mset_map)

lemma progress_Long_RedoTasks [long_progress]: "progress V e (Long_RedoTasks V k e)"
  unfolding Long_RedoTasks_def
  by (rule progress_trans [OF _ progress_Long_RunLoop]) (use map_follows [of redo_profile] in \<open>simp add: progress_list_change del: map_map\<close>)

lemma progress_Long_RetryTasks [long_progress]: "progress V e (Long_RetryTasks V k et ec fh src e)"
  unfolding Long_RetryTasks_def by (rule progress_trans [OF progress_Long_BatchError progress_Long_RunLoop])

lemma progress_long_change [long_progress]: "progress V e (long_change taskid f e)"
  by (simp add: long_change_def progress_list_change change_first_follows)

lemma progress_Long_events [long_progress]: "progress V e (Long_OnSend k taskid e)" "progress V e (Long_OnRecv k taskid a b e)"
  "progress V e (Long_SignalConnection V k st e)"
  by (simp_all add: Long_OnSend_def Long_OnRecv_def Long_SignalConnection_def progress_long_change progress_Long_RunLoop)

section \<open>Deadlines\<close>

text \<open>A pass of the loop leaves no overdue task in the list.\<close>

lemma walk_timeout_due:
  "walk (long_timeout_visit V k) ps s = (qs, s') \<Longrightarrow> q \<in> set qs \<Longrightarrow> \<not> overdue k q"
proof (erule walk_all [rotated])
  fix p s q s'
  assume v: "long_timeout_visit V k p s = (Some q, s')"
  obtain code b e where s: "s = (code, b, e)" by (cases s)
  from v show "\<not> overdue k q"
    by (auto simp: long_timeout_visit_def s overdue_def split: if_splits prod.splits dest: SingleResp_ends)
qed

definition none_overdue :: "tick \<Rightarrow> task_profile list \<Rightarrow> bool" where
  "none_overdue k ps \<longleftrightarrow> (\<forall>p \<in> set ps. \<not> overdue k p)"

lemma none_overdue_follows: "none_overdue k ps \<Longrightarrow> follows ps qs \<Longrightarrow> none_overdue k qs"
  by (force simp: none_overdue_def follows_def overdue_def continues_def)

lemma progress_none_overdue: "progress V e e' \<Longrightarrow> none_overdue k (lm_cmd (eg_long e)) \<Longrightarrow> none_overdue k (lm_cmd (eg_long e'))"
  using none_overdue_follows by (auto simp: progress_def)

lemma Long_RunOnTimeout_due: "none_overdue k (lm_cmd (eg_long (Long_RunOnTimeout V k e)))"
proof -
  obtain ps code b e1 where w: "walk (long_timeout_visit V k) (lm_cmd (eg_long e)) (0, False, e) = (ps, code, b, e1)"
    by (cases "walk (long_timeout_visit V k) (lm_cmd (eg_long e)) (0, False, e)")
  define e2 where "e2 = set_long ps e1"
  have 2: "none_overdue k (lm_cmd (eg_long e2))" using walk_timeout_due [OF w] by (simp add: none_overdue_def e2_def)
  have "progress V e2 (Long_RunOnTimeout V k e)"
    using w by (simp add: Long_RunOnTimeout_def Let_def progress_trans [OF _ progress_LongError]
        progress_trans [OF _ progress_Long_BatchError] flip: e2_def)
  then show ?thesis using 2 by (rule progress_none_overdue)
qed

lemma Long_RunLoop_due: "none_overdue k (lm_cmd (eg_long (Long_RunLoop V k e)))"
proof (cases "lm_cmd (eg_long e) = []")
  case True
  then show ?thesis by (simp add: Long_RunLoop_def none_overdue_def)
next
  case False
  then show ?thesis
    using progress_none_overdue [OF progress_Long_RunOnStartTask Long_RunOnTimeout_due] by (simp add: Long_RunLoop_def)
qed

end
