(* ===== verification/Shortlink_Tasks.thy ===== *)
theory Shortlink_Tasks imports Longlink_Tasks begin

text \<open>
  The manager of the tasks on short connections (\<^verbatim>\<open>shortlink_task_manager.cc\<close>): every attempt of a
  task has a connection of its own, its worker. Workers are numbered in the order of their creation;
  the number 0 stands for the null pointer. Deleting a worker cancels its messages, so an event of a
  deleted worker finds no task; that two tasks never share a worker is an invariant.
\<close>

section \<open>Ending and retrying\<close>

text \<open>\<^verbatim>\<open>__SingleRespHandle\<close>\<close>

definition Short_SingleResp :: "'c client_if \<Rightarrow> tick \<Rightarrow> task_profile \<Rightarrow> ErrCmdType \<Rightarrow> int \<Rightarrow> int \<Rightarrow> 'c engine \<Rightarrow> task_profile option \<times> 'c engine" where
  "Short_SingleResp V k p err_type err_code fail_handle e =
     (let e = (if err_type = kEctOK
               then e\<lparr> eg_short := (eg_short e)\<lparr> sm_fail_count := 0, sm_default_use_proxy := tp_use_proxy p \<rparr> \<rparr>
               else e\<lparr> eg_short := (eg_short e)\<lparr> sm_fail_count := sm_fail_count (eg_short e) + 1 \<rparr> \<rparr>)
      in if 0 \<ge> tp_remain_retry_count p \<or> err_type = kEctOK \<or> fail_handle = kTaskFailHandleTaskEnd \<or> fail_handle = kTaskFailHandleTaskTimeout
         then let (_, e) = CallBack V k kCallFromShort err_type err_code fail_handle (tp_task p) (ucast (tk_now k - tp_start_task_time p)) e
              in (None, e)
         else (Some ((InitSendParam (PushHistory (p\<lparr> tp_remain_retry_count := tp_remain_retry_count p - 1 \<rparr>)))
                 \<lparr> tp_retry_start_time := (if fail_handle = kTaskFailHandleSessionTimeout then 0 else tk_now k),
                   tp_retry_time_interval := DEF_TASK_RETRY_INTERNAL \<rparr>), e))"

text \<open>\<^verbatim>\<open>__BatchErrorRespHandle\<close>\<close>

definition short_batch_visit :: "'c client_if \<Rightarrow> tick \<Rightarrow> ErrCmdType \<Rightarrow> int \<Rightarrow> int \<Rightarrow> dword \<Rightarrow> bool \<Rightarrow> task_profile \<Rightarrow> 'c engine \<Rightarrow> task_profile option \<times> 'c engine" where
  "short_batch_visit V k err_type err_code fail_handle src_taskid callback_runing_task_only p e =
     (if callback_runing_task_only \<and> tp_running_id p = 0 then (Some p, e)
      else if fail_handle = kTaskFailHandleSessionTimeout \<and> \<not> mt_need_authed (tp_task p) then (Some p, e)
      else if src_taskid = kInvalidTaskID \<or> src_taskid = prof_id p then Short_SingleResp V k p err_type err_code fail_handle e
      else Short_SingleResp V k p err_type 0 fail_handle e)"

definition Short_BatchError :: "'c client_if \<Rightarrow> tick \<Rightarrow> ErrCmdType \<Rightarrow> int \<Rightarrow> int \<Rightarrow> dword \<Rightarrow> bool \<Rightarrow> 'c engine \<Rightarrow> 'c engine" where
  "Short_BatchError V k err_type err_code fail_handle src_taskid callback_runing_task_only e =
     (let (ps, e) = walk (short_batch_visit V k err_type err_code fail_handle src_taskid callback_runing_task_only) (sm_cmd (eg_short e)) e
      in set_short ps e)"

section \<open>Timeouts\<close>

definition short_timeout_code :: "tick \<Rightarrow> task_profile \<Rightarrow> (ErrCmdType \<times> int) option" where
  "short_timeout_code k p =
     (let t = tp_transfer p; sending = (tp_running_id p \<noteq> 0 \<and> 0 < tr_start_send_time t) in
      if overdue k p then Some (kEctLocal, kEctLocalTaskTimeout)
      else if sending \<and> tk_now k - tr_start_send_time t \<ge> tr_read_write_timeout t then Some (kEctHttp, kEctHttpReadWriteTimeout)
      else if sending \<and> tr_last_receive_pkg_time t = 0 \<and> tk_now k - tr_start_send_time t \<ge> tr_first_pkg_timeout t
      then Some (kEctHttp, kEctHttpFirstPkgTimeout)
      else if sending \<and> 0 < tr_last_receive_pkg_time t \<and> tk_now k - tr_last_receive_pkg_time t \<ge> kPackageInterval (tk_net k)
      then Some (kEctHttp, kEctHttpPkgPkgTimeout)
      else None)"

definition short_failed_statistic :: "tick \<Rightarrow> 'c engine \<Rightarrow> 'c engine" where
  "short_failed_statistic k e = e\<lparr> eg_dyn := CgiTaskStatistic (tk_now k) (tk_net k) kDynTimeTaskFailedPkgLen 0 (eg_dyn e) \<rparr>"

definition short_timeout_visit :: "'c client_if \<Rightarrow> tick \<Rightarrow> task_profile \<Rightarrow> 'c engine \<Rightarrow> task_profile option \<times> 'c engine" where
  "short_timeout_visit V k p e =
     (case short_timeout_code k p of
        None \<Rightarrow> (Some p, e)
      | Some (err_type, code) \<Rightarrow>
          let (r, e) = Short_SingleResp V k (SetLastFailedStatus p) err_type code
                         (if err_type = kEctLocal then kTaskFailHandleTaskTimeout else kTaskFailHandleDefault) (short_failed_statistic k e)
          in (r, OnShortLinkNetworkError V k err_type code e))"

definition Short_RunOnTimeout :: "'c client_if \<Rightarrow> tick \<Rightarrow> 'c engine \<Rightarrow> 'c engine" where
  "Short_RunOnTimeout V k e = (let (ps, e) = walk (short_timeout_visit V k) (sm_cmd (eg_short e)) e in set_short ps e)"

section \<open>Sending\<close>

text \<open>\<^verbatim>\<open>__RunOnStartTask\<close>: a new worker for the attempt.\<close>

definition short_transmit :: "tick \<Rightarrow> nat \<Rightarrow> task_profile \<Rightarrow> bytes \<Rightarrow> 'c engine \<Rightarrow> task_profile \<times> 'c engine" where
  "short_transmit k n p body e =
     (let p = attempt_timings k n body p e; dflt = sm_default_use_proxy (eg_short e); w = Suc (sm_workers (eg_short e)) in
      (p\<lparr> tp_use_proxy := (if tp_remain_retry_count p = 0 \<and> mt_retry_count (tp_task p) > 0 then \<not> dflt else dflt), tp_running_id := w \<rparr>,
       (e\<lparr> eg_short := (eg_short e)\<lparr> sm_workers := w \<rparr> \<rparr>)\<lparr> eg_sent := eg_sent e @ [prof_id p] \<rparr>))"

definition short_start_visit :: "'c client_if \<Rightarrow> tick \<Rightarrow> task_profile \<Rightarrow> nat \<times> 'c engine \<Rightarrow> task_profile option \<times> nat \<times> 'c engine" where
  "short_start_visit V k p s =
     (case s of (n, e) \<Rightarrow>
        if tp_running_id p \<noteq> 0 then (Some p, Suc n, e)
        else if tp_retry_time_interval p > tk_now k - tp_retry_start_time p then (Some p, n, e)
        else if mt_need_authed (tp_task p) \<and> \<not> ci_authed V then (Some p, n, e)
        else let (r, e) = request_packet V k (tp_task p) e in
             (case r of
                Inl err \<Rightarrow> let (r, e) = Short_SingleResp V k p (fst err) (snd err) kTaskFailHandleTaskEnd e in (r, n, e)
              | Inr buf \<Rightarrow> let (p, e) = short_transmit k n p (packet_bytes buf) e in (Some p, Suc n, e)))"

definition Short_RunOnStartTask :: "'c client_if \<Rightarrow> tick \<Rightarrow> 'c engine \<Rightarrow> 'c engine" where
  "Short_RunOnStartTask V k e =
     (let (ps, n, e) = walk (short_start_visit V k) (sm_cmd (eg_short e)) (0, e) in set_short ps e)"

definition Short_RunLoop :: "'c client_if \<Rightarrow> tick \<Rightarrow> 'c engine \<Rightarrow> 'c engine" where
  "Short_RunLoop V k e = (if sm_cmd (eg_short e) = [] then e else Short_RunOnStartTask V k (Short_RunOnTimeout V k e))"

section \<open>Operations\<close>

definition Short_StartTask :: "'c client_if \<Rightarrow> tick \<Rightarrow> mtask \<Rightarrow> 'c engine \<Rightarrow> bool \<times> 'c engine" where
  "Short_StartTask V k t e =
     (if mt_send_only t then (False, e)
      else (True, Short_RunLoop V k (set_short (queue_task (new_profile (tk_now k) t) (sm_cmd (eg_short e))) e)))"

definition Short_StopTask :: "dword \<Rightarrow> 'c engine \<Rightarrow> bool \<times> 'c engine" where
  "Short_StopTask taskid e =
     (case remove_first (\<lambda>p. taskid = prof_id p) (sm_cmd (eg_short e)) of
        None \<Rightarrow> (False, e)
      | Some ps \<Rightarrow> (True, (set_short ps e)\<lparr> eg_dropped := eg_dropped e @ [taskid] \<rparr>))"

definition Short_HasTask :: "dword \<Rightarrow> 'c engine \<Rightarrow> bool" where
  "Short_HasTask taskid e \<longleftrightarrow> list_ex (\<lambda>p. taskid = prof_id p) (sm_cmd (eg_short e))"

definition Short_ClearTasks :: "'c engine \<Rightarrow> 'c engine" where
  "Short_ClearTasks e = (set_short [] e)\<lparr> eg_dropped := eg_dropped e @ map prof_id (sm_cmd (eg_short e)) \<rparr>"

definition Short_RedoTasks :: "'c client_if \<Rightarrow> tick \<Rightarrow> 'c engine \<Rightarrow> 'c engine" where
  "Short_RedoTasks V k e = Short_RunLoop V k (set_short (map redo_profile (sm_cmd (eg_short e))) e)"

definition Short_RetryTasks :: "'c client_if \<Rightarrow> tick \<Rightarrow> ErrCmdType \<Rightarrow> int \<Rightarrow> int \<Rightarrow> dword \<Rightarrow> 'c engine \<Rightarrow> 'c engine" where
  "Short_RetryTasks V k err_type err_code fail_handle src_taskid e =
     Short_RunLoop V k (Short_BatchError V k err_type err_code fail_handle src_taskid True e)"

text \<open>\<^verbatim>\<open>__LocateBySeq\<close>: the test it uses, and a change of the task found.\<close>

definition owns :: "nat \<Rightarrow> task_profile \<Rightarrow> bool" where
  "owns w p \<longleftrightarrow> w \<noteq> 0 \<and> tp_running_id p = w"

definition short_edit :: "nat \<Rightarrow> (task_profile \<Rightarrow> task_profile) \<Rightarrow> 'c engine \<Rightarrow> 'c engine" where
  "short_edit w f e = set_short (change_first (owns w) f (sm_cmd (eg_short e))) e"

definition Short_OnSend :: "tick \<Rightarrow> nat \<Rightarrow> 'c engine \<Rightarrow> 'c engine" where
  "Short_OnSend k w e = short_edit w (change_transfer (send_begun k)) e"

definition Short_OnRecv :: "tick \<Rightarrow> nat \<Rightarrow> dword \<Rightarrow> dword \<Rightarrow> 'c engine \<Rightarrow> 'c engine" where
  "Short_OnRecv k w cached_size total_size e = short_edit w (change_transfer (received k cached_size total_size)) e"

section \<open>Accounts\<close>

lemma settles_Short_SingleResp [settle]:
  "Short_SingleResp V k p et ec fh e = (r, e') \<Longrightarrow> settles V {# prof_id p #} e (kept_ids r) e'"
proof -
  let ?s = "if et = kEctOK then (eg_short e)\<lparr> sm_fail_count := 0, sm_default_use_proxy := tp_use_proxy p \<rparr>
    else (eg_short e)\<lparr> sm_fail_count := sm_fail_count (eg_short e) + 1 \<rparr>"
  let ?e = "e\<lparr> eg_short := ?s \<rparr>"
  have 1: "settles V {# prof_id p #} e {# prof_id p #} ?e" by (rule settles_short) simp_all
  assume "Short_SingleResp V k p et ec fh e = (r, e')"
  then consider "r = None" "\<exists>x. CallBack V k kCallFromShort et ec fh (tp_task p) (ucast (tk_now k - tp_start_task_time p)) ?e = (x, e')"
    | q where "r = Some q" "prof_id q = prof_id p" "e' = ?e"
    by (auto simp: Short_SingleResp_def Let_def prof_id_def InitSendParam_def PushHistory_def split: if_splits prod.splits)
  then show ?thesis
  proof cases
    case 1
    then show ?thesis using settles_trans [OF \<open>settles V _ e _ ?e\<close>] settles_CallBack by (fastforce simp: prof_id_def)
  next
    case 2
    then show ?thesis using \<open>settles V _ e _ ?e\<close> by simp
  qed
qed

lemma Short_SingleResp_kept:
  "Short_SingleResp V k p et ec fh e = (Some q, e') \<Longrightarrow> continues p q \<and> tp_running_id q = 0"
  by (auto simp: Short_SingleResp_def Let_def continues_def InitSendParam_def PushHistory_def split: if_splits prod.splits)

lemma Short_SingleResp_ends [simp]: "Short_SingleResp V k p et ec kTaskFailHandleTaskTimeout e = (Some q, e') \<longleftrightarrow> False"
  by (auto simp: Short_SingleResp_def Let_def split: prod.splits)

lemma same_or_none [simp]: "fresh_worker p n p n'" "tp_running_id q = 0 \<Longrightarrow> fresh_worker p n q n'"
  by (simp_all add: fresh_worker_def)

interpretation short_batch: worker_visit V "short_batch_visit V k et ec fh src run" "\<lambda>e. e" for V k et ec fh src run
proof unfold_locales
  fix p e r e'
  assume v: "short_batch_visit V k et ec fh src run p e = (r, e')"
  then show "settles V {# prof_id p #} e (kept_ids r) e'"
    by (auto simp: short_batch_visit_def split: if_splits dest: settles_Short_SingleResp)
next
  fix p e q e'
  assume "short_batch_visit V k et ec fh src run p e = (Some q, e')"
  then have "continues p q \<and> (q = p \<or> tp_running_id q = 0)"
    by (auto simp: short_batch_visit_def split: if_splits dest: Short_SingleResp_kept)
  then show "continues p q" "fresh_worker p (workers e) q (workers e')" by auto
qed

lemma short_timeout_not_ok: "short_timeout_code k p = Some (et, c) \<Longrightarrow> et \<noteq> kEctOK"
  by (auto simp: short_timeout_code_def Let_def split: if_splits)

interpretation short_timeout: worker_visit V "short_timeout_visit V k" "\<lambda>e. e" for V k
proof unfold_locales
  fix p e r e'
  assume v: "short_timeout_visit V k p e = (r, e')"
  show "settles V {# prof_id p #} e (kept_ids r) e'"
  proof (cases "short_timeout_code k p")
    case None
    then show ?thesis using v by (auto simp: short_timeout_visit_def)
  next
    case (Some c)
    obtain et ec where c: "c = (et, ec)" by (cases c)
    define fh where "fh = (if et = kEctLocal then kTaskFailHandleTaskTimeout else kTaskFailHandleDefault)"
    obtain r1 e1 where r: "Short_SingleResp V k (SetLastFailedStatus p) et ec fh (short_failed_statistic k e) = (r1, e1)"
      by (cases "Short_SingleResp V k (SetLastFailedStatus p) et ec fh (short_failed_statistic k e)")
    have "settles V {# prof_id p #} e {# prof_id p #} (short_failed_statistic k e)" by (simp add: short_failed_statistic_def)
    moreover have "settles V {# prof_id p #} (short_failed_statistic k e) (kept_ids r1) e1"
      using settles_Short_SingleResp [OF r] by simp
    ultimately have "settles V {# prof_id p #} e (kept_ids r1) e1" by (rule settles_trans)
    then have "settles V {# prof_id p #} e (kept_ids r1) (OnShortLinkNetworkError V k et ec e1)"
      using settles_trans ShortError_settles short_timeout_not_ok Some c by blast
    then show ?thesis using v Some c r by (simp add: short_timeout_visit_def fh_def)
  qed
next
  fix p e q e'
  assume v: "short_timeout_visit V k p e = (Some q, e')"
  then show "continues p q"
    by (auto simp: short_timeout_visit_def split: option.splits prod.splits
        dest!: Short_SingleResp_kept intro: continues_trans [of p "SetLastFailedStatus p" q])
  from v show "fresh_worker p (workers e) q (workers e')"
    by (auto simp: short_timeout_visit_def split: option.splits prod.splits dest!: Short_SingleResp_kept)
qed

lemma short_transmit_visit:
  assumes "short_transmit k n p body e = (q, e')"
  shows "settles V {# prof_id p #} e {# prof_id q #} e'" "continues p q" "fresh_worker p (workers e) q (workers e')"
proof -
  have "prof_id q = prof_id p" using assms by (auto simp: short_transmit_def Let_def prof_id_def attempt_timings_def)
  then show "settles V {# prof_id p #} e {# prof_id q #} e'"
    using assms by (auto simp: short_transmit_def Let_def intro: settles_new_worker)
  show "continues p q" using assms by (auto simp: short_transmit_def Let_def continues_def attempt_timings_def)
  show "fresh_worker p (workers e) q (workers e')"
    using assms by (auto simp: short_transmit_def Let_def fresh_worker_def workers_def)
qed

lemma short_start_visit_facts:
  assumes "short_start_visit V k p (n, e) = (r, n', e')"
  shows "settles V {# prof_id p #} e (kept_ids r) e' \<and> (r = Some q \<longrightarrow> continues p q \<and> fresh_worker p (workers e) q (workers e'))"
proof (cases "tp_running_id p \<noteq> 0 \<or> tp_retry_time_interval p > tk_now k - tp_retry_start_time p \<or> mt_need_authed (tp_task p) \<and> \<not> ci_authed V")
  case True
  then show ?thesis using assms by (auto simp: short_start_visit_def split: if_splits)
next
  case False
  obtain req e1 where q: "request_packet V k (tp_task p) e = (req, e1)" by (cases "request_packet V k (tp_task p) e")
  have 1: "settles V M e M e1" for M by (rule settles_request [OF q])
  show ?thesis
  proof (cases req)
    case (Inl err)
    then have "Short_SingleResp V k p (fst err) (snd err) kTaskFailHandleTaskEnd e1 = (r, e')"
      using assms False q by (auto simp: short_start_visit_def split: prod.splits)
    then show ?thesis
      using settles_trans [OF 1 settles_Short_SingleResp] Short_SingleResp_kept by fastforce
  next
    case (Inr buf)
    obtain p' e2 where t: "short_transmit k n p (packet_bytes buf) e1 = (p', e2)" by (cases "short_transmit k n p (packet_bytes buf) e1")
    then have r: "r = Some p'" "e' = e2" using assms False q Inr by (auto simp: short_start_visit_def)
    have "workers e \<le> workers e1" using 1 [of "{#}"] by (simp add: settles_def)
    then have "fresh_worker p (workers e) p' (workers e2)"
      using short_transmit_visit(3) [OF t] by (auto simp: fresh_worker_def)
    then show ?thesis using r settles_trans [OF 1 short_transmit_visit(1) [OF t]] short_transmit_visit(2) [OF t] by auto
  qed
qed

interpretation short_start: worker_visit V "short_start_visit V k" "\<lambda>s. snd s" for V k
  by unfold_locales (metis prod.collapse short_start_visit_facts)+

section \<open>Progress\<close>

lemma progress_walk_short:
  assumes "settles V (mset (map prof_id (sm_cmd (eg_short e)))) e (mset (map prof_id ps)) e'" "follows (sm_cmd (eg_short e)) ps"
    and "own_workers (workers e) (sm_cmd (eg_short e)) \<Longrightarrow> own_workers (workers e') ps
      \<and> (\<forall>i \<in> set (running_ids ps). i \<in> set (running_ids (sm_cmd (eg_short e))) \<or> workers e < i)"
  shows "progress V e (set_short ps e')"
  by (rule progress_set_short [OF assms(1,2)]) (rule assms(3), simp add: owners_def)

lemma progress_Short_BatchError: "progress V e (Short_BatchError V k et ec fh src run e)"
proof -
  obtain ps e1 where w: "walk (short_batch_visit V k et ec fh src run) (sm_cmd (eg_short e)) e = (ps, e1)"
    by (cases "walk (short_batch_visit V k et ec fh src run) (sm_cmd (eg_short e)) e")
  have "progress V e (set_short ps e1)"
    using progress_walk_short [OF short_batch.walk_settles [OF w] short_batch.walk_follows [OF w]]
      short_batch.walk_workers [OF w _ order_refl] by blast
  with w show ?thesis by (simp add: Short_BatchError_def)
qed

lemma progress_Short_RunOnTimeout: "progress V e (Short_RunOnTimeout V k e)"
proof -
  obtain ps e1 where w: "walk (short_timeout_visit V k) (sm_cmd (eg_short e)) e = (ps, e1)"
    by (cases "walk (short_timeout_visit V k) (sm_cmd (eg_short e)) e")
  have "progress V e (set_short ps e1)"
    using progress_walk_short [OF short_timeout.walk_settles [OF w] short_timeout.walk_follows [OF w]]
      short_timeout.walk_workers [OF w _ order_refl] by blast
  with w show ?thesis by (simp add: Short_RunOnTimeout_def)
qed

lemma progress_Short_RunOnStartTask: "progress V e (Short_RunOnStartTask V k e)"
proof -
  obtain ps n e1 where w: "walk (short_start_visit V k) (sm_cmd (eg_short e)) (0, e) = (ps, n, e1)"
    by (cases "walk (short_start_visit V k) (sm_cmd (eg_short e)) (0, e)")
  have "progress V e (set_short ps e1)"
    using progress_walk_short [OF _ short_start.walk_follows [OF w], of _ e1] short_start.walk_settles [OF w]
      short_start.walk_workers [OF w, of "workers e"] by simp
  with w show ?thesis by (simp add: Short_RunOnStartTask_def)
qed

lemma progress_Short_RunLoop: "progress V e (Short_RunLoop V k e)"
  by (simp add: Short_RunLoop_def progress_trans [OF progress_Short_RunOnTimeout progress_Short_RunOnStartTask])

lemma progress_short_list_change:
  assumes "follows (sm_cmd (eg_short e)) ps" "map prof_id ps = map prof_id (sm_cmd (eg_short e))"
    and "set (running_ids ps) \<subseteq> set (running_ids (sm_cmd (eg_short e)))"
    and "distinct (running_ids (sm_cmd (eg_short e))) \<Longrightarrow> distinct (running_ids ps)"
  shows "progress V e (set_short ps e)"
  by (rule progress_set_short) (use assms in \<open>auto simp: owners_def own_workers_def simp del: mset_map\<close>)

lemma running_ids_redo [simp]: "running_ids (map redo_profile ps) = []"
  by (simp add: running_ids_def redo_profile_def InitSendParam_def filter_empty_conv)

lemma running_ids_change: "(\<And>p. tp_running_id (f p) = tp_running_id p) \<Longrightarrow> running_ids (change_first P f ps) = running_ids ps"
  by (induction ps) (auto simp: running_ids_def)

lemma progress_Short_RedoTasks: "progress V e (Short_RedoTasks V k e)"
  unfolding Short_RedoTasks_def
  by (rule progress_trans [OF _ progress_Short_RunLoop])
    (use map_follows [of redo_profile] in \<open>simp add: progress_short_list_change del: map_map\<close>)

lemma progress_Short_RetryTasks: "progress V e (Short_RetryTasks V k et ec fh src e)"
  unfolding Short_RetryTasks_def by (rule progress_trans [OF progress_Short_BatchError progress_Short_RunLoop])

lemma progress_short_edit:
  "(\<And>p. continues p (f p) \<and> tp_running_id (f p) = tp_running_id p) \<Longrightarrow> progress V e (short_edit w f e)"
  by (simp add: short_edit_def progress_short_list_change change_first_follows running_ids_change)

lemma progress_Short_events: "progress V e (Short_OnSend k w e)" "progress V e (Short_OnRecv k w a b e)"
  by (simp_all add: Short_OnSend_def Short_OnRecv_def progress_short_edit change_transfer_def continues_def)

section \<open>Deadlines\<close>

lemma continues_overdue: "continues p q \<Longrightarrow> overdue k q = overdue k p"
  by (simp add: continues_def overdue_def)

lemma SetLastFailedStatus_overdue [simp]: "overdue k (SetLastFailedStatus p) = overdue k p"
  by (simp add: SetLastFailedStatus_def overdue_def)

lemma short_timeout_due:
  "short_timeout_visit V k p e = (Some q, e') \<Longrightarrow> \<not> overdue k q"
  by (auto simp: short_timeout_visit_def short_timeout_code_def Let_def split: if_splits prod.splits
      dest!: Short_SingleResp_kept dest: continues_overdue)

lemma none_overdue_short: "progress V e e' \<Longrightarrow> none_overdue k (sm_cmd (eg_short e)) \<Longrightarrow> none_overdue k (sm_cmd (eg_short e'))"
  using none_overdue_follows by (auto simp: progress_def)

lemma Short_RunLoop_due: "none_overdue k (sm_cmd (eg_short (Short_RunLoop V k e)))"
proof (cases "sm_cmd (eg_short e) = []")
  case True
  then show ?thesis by (simp add: Short_RunLoop_def none_overdue_def)
next
  case False
  obtain ps e1 where w: "walk (short_timeout_visit V k) (sm_cmd (eg_short e)) e = (ps, e1)"
    by (cases "walk (short_timeout_visit V k) (sm_cmd (eg_short e)) e")
  have "none_overdue k ps"
    unfolding none_overdue_def using walk_all [of _ "short_timeout_visit V k" "\<lambda>q. \<not> overdue k q", OF _ w] short_timeout_due by blast
  then have "none_overdue k (sm_cmd (eg_short (Short_RunOnTimeout V k e)))" using w by (simp add: Short_RunOnTimeout_def)
  then show ?thesis
    using False none_overdue_short [OF progress_Short_RunOnStartTask] by (simp add: Short_RunLoop_def)
qed

end
