(* ===== verification/Net_Core.thy ===== *)
theory Net_Core imports Shortlink_Tasks begin

text \<open>
  The network engine as a whole (\<^verbatim>\<open>net_core.cc\<close>): starting a task on one of the two channels, stopping,
  clearing, redoing and retrying tasks, answers from both links, the change of the network and of the
  connection, and the step of the engine for every message of its queue. The theorems hold for every
  sequence of messages and every client: each accepted task is in exactly one place until its one end,
  attempts and timeouts are bounded, and no two tasks share a connection.
\<close>

unbundle bit_operations_syntax

section \<open>Starting a task\<close>

definition kFastSendUseLonglinkTaskCntLimit :: nat where "kFastSendUseLonglinkTaskCntLimit = 0"

definition ValidAndInitDefault :: "mtask \<Rightarrow> mtask option" where
  "ValidAndInitDefault t =
     (if 2 * 60 * 1000 < mt_server_process_cost t then None
      else if 30 < mt_retry_count t then None
      else if 10 * 60 * 1000 < mt_total_timetout t then None
      else let t = (if mt_channel_select t AND kChannelLong \<noteq> 0 \<and> mt_cmdid t = 0
                    then t\<lparr> mt_channel_select := mt_channel_select t AND NOT kChannelLong \<rparr> else t);
               t = (if mt_channel_select t AND kChannelShort \<noteq> 0 \<and> mt_cgi t = []
                    then t\<lparr> mt_channel_select := mt_channel_select t AND NOT kChannelShort \<rparr> else t)
           in Some (if 0 > mt_retry_count t then t\<lparr> mt_retry_count := DEF_TASK_RETRY_COUNT \<rparr> else t))"

definition end_local :: "'c client_if \<Rightarrow> mtask \<Rightarrow> int \<Rightarrow> 'c engine \<Rightarrow> 'c engine" where
  "end_local V t code e = snd (OnTaskEnd V t kEctLocal code e)"

definition early_connect :: "tick \<Rightarrow> mtask \<Rightarrow> 'c engine \<Rightarrow> 'c engine" where
  "early_connect k t e =
     (if lk_status (eg_link e) \<noteq> kConnected \<and> kChannelLong AND mt_channel_select t \<noteq> 0 \<and> isforeground (eg_active e)
         \<and> 15 * 60 * 1000 \<ge> tk_now k - lastforegroundchangetime (eg_active e)
      then e\<lparr> eg_link := snd (Monitor_MakeSureConnected (tk_now k) (tk_net k) (eg_active e) (eg_link e)) \<rparr>
      else e)"

definition use_long_link :: "mtask \<Rightarrow> 'c engine \<Rightarrow> bool" where
  "use_long_link t e \<longleftrightarrow> lk_status (eg_link e) = kConnected
     \<and> (mt_channel_strategy t = kChannelFastStrategy \<longrightarrow> length (lm_cmd (eg_long e)) \<le> kFastSendUseLonglinkTaskCntLimit)"

definition start_on_channel :: "'c client_if \<Rightarrow> tick \<Rightarrow> mtask \<Rightarrow> 'c engine \<Rightarrow> bool \<times> 'c engine" where
  "start_on_channel V k t e =
     (if mt_channel_select t = kChannelBoth
      then if use_long_link t e then Long_StartTask V k t e else Short_StartTask V k t e
      else if mt_channel_select t = kChannelLong then Long_StartTask V k t e
      else if mt_channel_select t = kChannelShort then Short_StartTask V k t e
      else (False, e))"

text \<open>The block that \<^verbatim>\<open>NetCore::StartTask\<close> posts; no hook is installed.\<close>

definition NC_StartTask :: "'c client_if \<Rightarrow> tick \<Rightarrow> mtask \<Rightarrow> 'c engine \<Rightarrow> 'c engine" where
  "NC_StartTask V k task e =
     (case ValidAndInitDefault task of
        None \<Rightarrow> end_local V task kEctLocalTaskParam e
      | Some t \<Rightarrow>
          if mt_channel_select t = 0 then end_local V t kEctLocalChannelSelect e
          else if mt_network_status_sensitive t \<and> tk_net k = kNoNet \<and> lk_status (eg_link e) \<noteq> kConnected
          then end_local V t kEctLocalNoNet e
          else let (start_ok, e) = start_on_channel V k t (early_connect k t e)
               in if \<not> start_ok then end_local V t kEctLocalStartTaskFail e else OnNetCoreStartTask k e)"

section \<open>Other operations\<close>

definition NC_StopTask :: "dword \<Rightarrow> 'c engine \<Rightarrow> 'c engine" where
  "NC_StopTask taskid e =
     (let (found, e) = Long_StopTask taskid e in
      if found then e
      else let (found, e) = Zombie_StopTask taskid e in
           if found then e else snd (Short_StopTask taskid e))"

definition NC_HasTask :: "dword \<Rightarrow> 'c engine \<Rightarrow> bool" where
  "NC_HasTask taskid e \<longleftrightarrow> Long_HasTask taskid e \<or> Zombie_HasTask taskid e \<or> Short_HasTask taskid e"

definition NC_ClearTasks :: "'c engine \<Rightarrow> 'c engine" where
  "NC_ClearTasks e = Short_ClearTasks (Zombie_ClearTasks (Long_ClearTasks e))"

definition NC_OnNetworkChange :: "'c client_if \<Rightarrow> tick \<Rightarrow> 'c engine \<Rightarrow> 'c engine" where
  "NC_OnNetworkChange V k e =
     (let e = e\<lparr> eg_dyn := ResetStatus (eg_dyn e) \<rparr>;
          (started, lk) = Monitor_NetworkChange (tk_now k) (tk_net k) (eg_active e) (eg_link e);
          e = e\<lparr> eg_link := lk \<rparr>;
          e = (if started then Long_RedoTasks V k e else e);
          e = Short_RedoTasks V k (Zombie_RedoTasks V k e)
      in e\<lparr> eg_shortlink_try_flag := False, eg_shortlink_error_count := 0 \<rparr>)"

definition NC_RedoTasks :: "'c client_if \<Rightarrow> tick \<Rightarrow> 'c engine \<Rightarrow> 'c engine" where
  "NC_RedoTasks V k e =
     (let e = disconnect e; e = e\<lparr> eg_link := snd (snd (LL_MakeSureConnected (eg_link e))) \<rparr>
      in Short_RedoTasks V k (Zombie_RedoTasks V k (Long_RedoTasks V k e)))"

definition NC_RetryTasks :: "'c client_if \<Rightarrow> tick \<Rightarrow> ErrCmdType \<Rightarrow> int \<Rightarrow> int \<Rightarrow> dword \<Rightarrow> 'c engine \<Rightarrow> 'c engine" where
  "NC_RetryTasks V k err_type err_code fail_handle src_taskid e =
     Long_RetryTasks V k err_type err_code fail_handle src_taskid (Short_RetryTasks V k err_type err_code fail_handle src_taskid e)"

definition NC_MakeSureLongLinkConnect :: "'c engine \<Rightarrow> 'c engine" where
  "NC_MakeSureLongLinkConnect e = e\<lparr> eg_link := snd (snd (LL_MakeSureConnected (eg_link e))) \<rparr>"

definition NC_OnTimerCheckSuc :: "'c engine \<Rightarrow> 'c engine" where
  "NC_OnTimerCheckSuc e = disconnect e"

text \<open>\<^verbatim>\<open>SignalConnection\<close>: the long manager first, then \<^verbatim>\<open>__OnLongLinkConnStatusChange\<close>.\<close>

definition NC_LinkStatus :: "'c client_if \<Rightarrow> tick \<Rightarrow> TLongLinkStatus \<Rightarrow> 'c engine \<Rightarrow> 'c engine" where
  "NC_LinkStatus V k st e =
     (let e = Long_SignalConnection V k st e; e = (if st = kConnected then Zombie_RedoTasks V k e else e) in ConnStatusCallBack e)"

definition NC_OnForeground :: "tick \<Rightarrow> bool \<Rightarrow> 'c engine \<Rightarrow> 'c engine" where
  "NC_OnForeground k fg e =
     (let (a, changed) = OnForeground (tk_now k) fg (eg_active e); e = e\<lparr> eg_active := a \<rparr>
      in if changed then e\<lparr> eg_avalanche := Avalanche_OnSignalActive (tk_now k) (isactive a) (eg_avalanche e) \<rparr> else e)"

definition NC_OnInActive :: "tick \<Rightarrow> 'c engine \<Rightarrow> 'c engine" where
  "NC_OnInActive k e =
     (let a = OnInActive (eg_active e); changed = (isactive a \<noteq> isactive (eg_active e)); e = e\<lparr> eg_active := a \<rparr>
      in if changed then e\<lparr> eg_avalanche := Avalanche_OnSignalActive (tk_now k) (isactive a) (eg_avalanche e) \<rparr> else e)"

section \<open>Answers on the long link\<close>

definition long_single_at :: "'c client_if \<Rightarrow> tick \<Rightarrow> dword \<Rightarrow> ErrCmdType \<Rightarrow> int \<Rightarrow> int \<Rightarrow> 'c engine \<Rightarrow> 'c engine" where
  "long_single_at V k taskid err_type err_code fail_handle e =
     (let (ps, e) = visit_first (\<lambda>p. taskid = prof_id p) (\<lambda>p e. Long_SingleResp V k p err_type err_code fail_handle e) (lm_cmd (eg_long e)) e
      in set_long ps e)"

definition good_statistic :: "tick \<Rightarrow> task_profile \<Rightarrow> bytes \<Rightarrow> 'c engine \<Rightarrow> 'c engine" where
  "good_statistic k p body e =
     e\<lparr> eg_dyn := CgiTaskStatistic (tk_now k) (tk_net k) (tr_send_data_size (tp_transfer p) + of_nat (length body))
                    (tk_now k - tr_start_send_time (tp_transfer p)) (eg_dyn e) \<rparr>"

text \<open>The switch of \<^verbatim>\<open>__OnResponse\<close> over what the client made of the answer.\<close>

definition long_decoded :: "'c client_if \<Rightarrow> tick \<Rightarrow> task_profile \<Rightarrow> bytes \<Rightarrow> int \<Rightarrow> int \<Rightarrow> 'c engine \<Rightarrow> 'c engine" where
  "long_decoded V k p body handle_type err_code e =
     (if handle_type = kTaskFailHandleNoError
      then OnLongLinkNetworkError V k kEctOK err_code (long_single_at V k (prof_id p) kEctOK err_code handle_type (good_statistic k p body e))
      else if handle_type = kTaskFailHandleSessionTimeout \<or> handle_type = kTaskFailHandleRetryAllTasks
      then NC_RetryTasks V k kEctEnDecode err_code handle_type (prof_id p) e
      else if handle_type = kTaskFailHandleTaskEnd then long_single_at V k (prof_id p) kEctEnDecode err_code handle_type e
      else OnLongLinkNetworkError V k kEctEnDecode (if handle_type = kTaskFailHandleDefault then err_code else handle_type)
             (Long_BatchError V k kEctEnDecode err_code handle_type (prof_id p) True e))"

definition Long_OnResponse :: "'c client_if \<Rightarrow> tick \<Rightarrow> ErrCmdType \<Rightarrow> int \<Rightarrow> dword \<Rightarrow> dword \<Rightarrow> bytes \<Rightarrow> 'c engine \<Rightarrow> 'c engine" where
  "Long_OnResponse V k error_type error_code cmdid taskid body e =
     (if error_type = kEctOK \<and> longlink_ispush cmdid taskid then e\<lparr> eg_client := ci_push V cmdid body (eg_client e) \<rparr>
      else if error_type \<noteq> kEctOK then Long_BatchError V k error_type error_code kTaskFailHandleDefault kInvalidTaskID True e
      else let e' = long_change taskid (received k (of_nat (length body)) (of_nat (length body))) e in
           (case Long_Locate taskid e' of
              None \<Rightarrow> e
            | Some p \<Rightarrow>
                let ((handle_type, err_code), e) = call_Buf2Resp V (tp_task p) body e' in long_decoded V k p body handle_type err_code e))"

section \<open>Answers on the short links\<close>

definition short_single_at :: "'c client_if \<Rightarrow> tick \<Rightarrow> nat \<Rightarrow> ErrCmdType \<Rightarrow> int \<Rightarrow> int \<Rightarrow> 'c engine \<Rightarrow> 'c engine" where
  "short_single_at V k w err_type err_code fail_handle e =
     (let (ps, e) = visit_first (owns w) (\<lambda>p e. Short_SingleResp V k p err_type err_code fail_handle e) (sm_cmd (eg_short e)) e
      in set_short ps e)"

definition short_decoded :: "'c client_if \<Rightarrow> tick \<Rightarrow> nat \<Rightarrow> task_profile \<Rightarrow> bytes \<Rightarrow> int \<Rightarrow> int \<Rightarrow> 'c engine \<Rightarrow> 'c engine" where
  "short_decoded V k w p body handle_type err_code e =
     (if handle_type = kTaskFailHandleNoError
      then OnShortLinkNetworkError V k kEctOK err_code (short_single_at V k w kEctOK err_code handle_type (good_statistic k p body e))
      else if handle_type = kTaskFailHandleSessionTimeout \<or> handle_type = kTaskFailHandleRetryAllTasks
      then NC_RetryTasks V k kEctEnDecode err_code handle_type (prof_id p) e
      else let e = short_single_at V k w kEctEnDecode err_code handle_type e
           in if handle_type = kTaskFailHandleTaskEnd then e else OnShortLinkNetworkError V k kEctEnDecode handle_type e)"

definition cancel_attempt :: "bool \<Rightarrow> task_profile \<Rightarrow> task_profile" where
  "cancel_attempt cancel_retry p =
     (if cancel_retry \<and> tp_remain_retry_count p > 0 then p\<lparr> tp_remain_retry_count := tp_remain_retry_count p - 1 \<rparr> else p)"

text \<open>\<open>status\<close> is the HTTP status or the error code; a redirection (\<^verbatim>\<open>__OnShortLinkResponse\<close>) has no effect.\<close>

definition Short_OnResponse :: "'c client_if \<Rightarrow> tick \<Rightarrow> nat \<Rightarrow> ErrCmdType \<Rightarrow> int \<Rightarrow> bytes \<Rightarrow> bool \<Rightarrow> 'c engine \<Rightarrow> 'c engine" where
  "Short_OnResponse V k w err_type status body cancel_retry e =
     (case find (owns w) (sm_cmd (eg_short e)) of
        None \<Rightarrow> e
      | Some _ \<Rightarrow>
          if err_type \<noteq> kEctOK then
            short_single_at V k w err_type status kTaskFailHandleDefault
              (if err_type = kEctSocket \<and> status = kEctSocketMakeSocketPrepared
               then short_edit w SetLastFailedStatus (short_failed_statistic k e) else e)
          else let e = short_edit w (change_transfer (received k (of_nat (length body)) (of_nat (length body)))) e;
                   e = short_edit w (cancel_attempt cancel_retry) e in
               (case find (owns w) (sm_cmd (eg_short e)) of
                  None \<Rightarrow> e
                | Some p \<Rightarrow>
                    let ((handle_type, err_code), e) = call_Buf2Resp V (tp_task p) body e
                    in short_decoded V k w p body handle_type err_code e))"

section \<open>The message queue\<close>

text \<open>What the socket thread does with the connection, and the messages the queue runs. \<open>EvRunStart\<close> runs
  the oldest start message; the environment decides when any message comes.\<close>

datatype link_event = LinkStart | LinkConnected | LinkEnd TLongLinkStatus | LinkWrite nat | LinkNoop "IdentifyMode \<times> bytes \<times> bytes \<times> dword"
  | LinkFrame bool "dword \<times> dword \<times> bytes" | LinkMonitor bool dword

definition link_step :: "dword \<Rightarrow> tick \<Rightarrow> active_logic \<Rightarrow> link_event \<Rightarrow> longlink \<Rightarrow> longlink" where
  "link_step ver k a ev lk =
     (case ev of
        LinkStart \<Rightarrow> LL_run_start (tk_now k) lk
      | LinkConnected \<Rightarrow> LL_run_connected lk
      | LinkEnd st \<Rightarrow> LL_run_end st lk
      | LinkWrite n \<Rightarrow> snd (LL_write n lk)
      | LinkNoop ans \<Rightarrow> snd (NoopReq ver ans lk)
      | LinkFrame accepted fr \<Rightarrow> snd (LL_frame accepted fr lk)
      | LinkMonitor noname rnd \<Rightarrow> snd (AutoIntervalConnect (tk_now k) (tk_net k) noname rnd a lk))"

datatype net_event = EvStart mtask | EvRunStart | EvStop dword | EvClear | EvNetworkChange | EvRedo | EvLongLoop | EvShortLoop
  | EvZombieTimer | EvLongResponse ErrCmdType int dword dword bytes | EvLongSend dword | EvLongRecv dword dword dword
  | EvShortResponse nat ErrCmdType int bytes bool | EvShortSend nat | EvShortRecv nat dword dword
  | EvLongError ErrCmdType int | EvShortError ErrCmdType int | EvLinkStatus TLongLinkStatus | EvLink link_event
  | EvMakeSure | EvTimerCheck | EvForeground bool | EvInActive

definition run_posted :: "'c client_if \<Rightarrow> tick \<Rightarrow> 'c engine \<Rightarrow> 'c engine" where
  "run_posted V k e = (case eg_posted e of [] \<Rightarrow> e | t # ts \<Rightarrow> NC_StartTask V k t (e\<lparr> eg_posted := ts \<rparr>))"

fun net_step :: "'c client_if \<Rightarrow> 'c engine \<Rightarrow> tick \<times> net_event \<Rightarrow> 'c engine" where
  "net_step V e (k, EvStart t) = (post_start t e)\<lparr> eg_started := eg_started e @ [mt_taskid t] \<rparr>"
| "net_step V e (k, EvRunStart) = run_posted V k e"
| "net_step V e (k, EvStop taskid) = NC_StopTask taskid e"
| "net_step V e (k, EvClear) = NC_ClearTasks e"
| "net_step V e (k, EvNetworkChange) = NC_OnNetworkChange V k e"
| "net_step V e (k, EvRedo) = NC_RedoTasks V k e"
| "net_step V e (k, EvLongLoop) = Long_RunLoop V k e"
| "net_step V e (k, EvShortLoop) = Short_RunLoop V k e"
| "net_step V e (k, EvZombieTimer) = Zombie_TimerChecker V k e"
| "net_step V e (k, EvLongResponse et ec cmdid taskid body) = Long_OnResponse V k et ec cmdid taskid body e"
| "net_step V e (k, EvLongSend taskid) = Long_OnSend k taskid e"
| "net_step V e (k, EvLongRecv taskid a b) = Long_OnRecv k taskid a b e"
| "net_step V e (k, EvShortResponse w et st body c) = Short_OnResponse V k w et st body c e"
| "net_step V e (k, EvShortSend w) = Short_OnSend k w e"
| "net_step V e (k, EvShortRecv w a b) = Short_OnRecv k w a b e"
| "net_step V e (k, EvLongError et ec) = OnLongLinkNetworkError V k et ec e"
| "net_step V e (k, EvShortError et ec) = OnShortLinkNetworkError V k et ec e"
| "net_step V e (k, EvLinkStatus st) = NC_LinkStatus V k st e"
| "net_step V e (k, EvLink ev) = e\<lparr> eg_link := link_step (ci_version V) k (eg_active e) ev (eg_link e) \<rparr>"
| "net_step V e (k, EvMakeSure) = NC_MakeSureLongLinkConnect e"
| "net_step V e (k, EvTimerCheck) = NC_OnTimerCheckSuc e"
| "net_step V e (k, EvForeground fg) = NC_OnForeground k fg e"
| "net_step V e (k, EvInActive) = NC_OnInActive k e"

section \<open>Progress of every operation\<close>

lemma remove_first_mset: "remove_first P xs = Some ys \<Longrightarrow> \<exists>x. P x \<and> mset xs = add_mset x (mset ys) \<and> set ys \<subseteq> set xs"
proof (induction xs arbitrary: ys)
  case Nil
  then show ?case by simp
next
  case (Cons x xs)
  show ?case
  proof (cases "P x")
    case True
    with Cons.prems show ?thesis by auto
  next
    case False
    with Cons.prems obtain zs where z: "remove_first P xs = Some zs" "ys = x # zs" by auto
    from Cons.IH [OF z(1)] obtain y where "P y" "mset xs = add_mset y (mset zs)" "set zs \<subseteq> set xs" by auto
    then show ?thesis using z by auto
  qed
qed

lemma remove_first_own: "remove_first P ps = Some qs \<Longrightarrow> own_workers n ps \<Longrightarrow> own_workers n qs \<and> set (running_ids qs) \<subseteq> set (running_ids ps)"
  by (induction ps arbitrary: qs) (auto simp: own_workers_Cons set_running_ids_Cons split: if_splits)

lemma subset_follows: "set qs \<subseteq> set ps \<Longrightarrow> follows ps qs"
  by (auto simp: follows_def)

lemma progress_Long_StopTask: "progress V e (snd (Long_StopTask taskid e))"
proof (cases "remove_first (\<lambda>p. taskid = prof_id p) (lm_cmd (eg_long e))")
  case None
  then show ?thesis by (simp add: Long_StopTask_def)
next
  case (Some ps)
  then obtain p where "taskid = prof_id p" "mset (lm_cmd (eg_long e)) = add_mset p (mset ps)" "set ps \<subseteq> set (lm_cmd (eg_long e))"
    using remove_first_mset [OF Some] by auto
  then show ?thesis
    using Some by (simp add: Long_StopTask_def progress_def books_def outside_def set_long_def subset_follows owners_def workers_def hires_def)
qed

lemma progress_Short_StopTask: "progress V e (snd (Short_StopTask taskid e))"
proof (cases "remove_first (\<lambda>p. taskid = prof_id p) (sm_cmd (eg_short e))")
  case None
  then show ?thesis by (simp add: Short_StopTask_def)
next
  case (Some ps)
  then obtain p where "taskid = prof_id p" "mset (sm_cmd (eg_short e)) = add_mset p (mset ps)" "set ps \<subseteq> set (sm_cmd (eg_short e))"
    using remove_first_mset [OF Some] by auto
  then show ?thesis
    using Some remove_first_own [OF Some]
    by (auto simp: Short_StopTask_def progress_def books_def outside_def set_short_def subset_follows owners_def workers_def hires_def)
qed

lemma progress_Zombie_StopTask: "progress V e (snd (Zombie_StopTask taskid e))"
proof (cases "remove_first (\<lambda>z. taskid = mt_taskid (zt_task z)) (eg_zombies e)")
  case None
  then show ?thesis by (simp add: Zombie_StopTask_def)
next
  case (Some zs)
  then obtain z where "taskid = mt_taskid (zt_task z)" "mset (eg_zombies e) = add_mset z (mset zs)"
    using remove_first_mset [OF Some] by auto
  then show ?thesis
    using Some by (simp add: Zombie_StopTask_def progress_def books_def outside_def owners_def workers_def hires_def)
qed

lemma progress_NC_StopTask: "progress V e (NC_StopTask taskid e)"
proof -
  obtain f e1 where 1: "Long_StopTask taskid e = (f, e1)" by (cases "Long_StopTask taskid e")
  obtain g e2 where 2: "Zombie_StopTask taskid e1 = (g, e2)" by (cases "Zombie_StopTask taskid e1")
  have "progress V e e1" "progress V e1 e2" "progress V e2 (snd (Short_StopTask taskid e2))"
    using progress_Long_StopTask [of V e taskid] progress_Zombie_StopTask [of V e1 taskid] 1 2 progress_Short_StopTask by simp_all
  then show ?thesis using 1 2 by (auto simp: NC_StopTask_def intro: progress_trans)
qed

lemma progress_NC_ClearTasks: "progress V e (NC_ClearTasks e)"
  by (simp add: NC_ClearTasks_def Long_ClearTasks_def Zombie_ClearTasks_def Short_ClearTasks_def progress_def books_def
      outside_def set_long_def set_short_def disconnect_def follows_def owners_def workers_def hires_def running_ids_def ac_simps)

lemmas progress_redo = progress_Long_RedoTasks progress_Zombie_RedoTasks progress_Short_RedoTasks

lemma progress_NC_RedoTasks: "progress V e (NC_RedoTasks V k e)"
  by (simp add: NC_RedoTasks_def Let_def progress_trans [OF _ progress_Short_RedoTasks] progress_trans [OF _ progress_Zombie_RedoTasks]
      progress_trans [OF _ progress_Long_RedoTasks])

lemma progress_NC_OnNetworkChange: "progress V e (NC_OnNetworkChange V k e)"
  by (simp add: NC_OnNetworkChange_def Let_def progress_trans [OF _ progress_Short_RedoTasks] progress_trans [OF _ progress_Zombie_RedoTasks]
      progress_trans [OF _ progress_Long_RedoTasks] split: prod.split)

lemma progress_NC_RetryTasks: "progress V e (NC_RetryTasks V k et ec fh src e)"
  unfolding NC_RetryTasks_def by (rule progress_trans [OF progress_Short_RetryTasks progress_Long_RetryTasks])

lemma progress_NC_LinkStatus: "progress V e (NC_LinkStatus V k st e)"
  by (simp add: NC_LinkStatus_def Let_def progress_trans [OF _ progress_ConnStatus] progress_trans [OF _ progress_Zombie_RedoTasks]
      progress_Long_events)

interpretation long_single: task_visit V "\<lambda>p e. Long_SingleResp V k p et ec fh e" "\<lambda>e. e" for V k et ec fh
  by unfold_locales (auto intro: settles_SingleResp SingleResp_continues)

interpretation short_single: worker_visit V "\<lambda>p e. Short_SingleResp V k p et ec fh e" "\<lambda>e. e" for V k et ec fh
  by unfold_locales (auto intro: settles_Short_SingleResp dest: Short_SingleResp_kept)

lemma progress_long_single_at: "progress V e (long_single_at V k taskid et ec fh e)"
proof -
  obtain ps e1 where w: "visit_first (\<lambda>p. taskid = prof_id p) (\<lambda>p e. Long_SingleResp V k p et ec fh e) (lm_cmd (eg_long e)) e = (ps, e1)"
    by (cases "visit_first (\<lambda>p. taskid = prof_id p) (\<lambda>p e. Long_SingleResp V k p et ec fh e) (lm_cmd (eg_long e)) e")
  have "progress V e (set_long ps e1)"
    by (rule progress_set_long [OF long_single.visit_first_settles [OF w] long_single.visit_first_follows [OF w]])
  with w show ?thesis by (simp add: long_single_at_def)
qed

lemma progress_short_single_at: "progress V e (short_single_at V k w et ec fh e)"
proof -
  obtain ps e1 where v: "visit_first (owns w) (\<lambda>p e. Short_SingleResp V k p et ec fh e) (sm_cmd (eg_short e)) e = (ps, e1)"
    by (cases "visit_first (owns w) (\<lambda>p e. Short_SingleResp V k p et ec fh e) (sm_cmd (eg_short e)) e")
  have "progress V e (set_short ps e1)"
    using progress_walk_short [OF short_single.visit_first_settles [OF v] short_single.visit_first_follows [OF v]]
      short_single.visit_first_workers [OF v _ order_refl] by blast
  with v show ?thesis by (simp add: short_single_at_def)
qed

lemma progress_long_decoded: "progress V e (long_decoded V k p body ht ec e)"
  by (simp add: long_decoded_def good_statistic_def progress_trans [OF _ progress_LongError] progress_trans [OF _ progress_long_single_at]
      progress_NC_RetryTasks progress_Long_BatchError)

lemma progress_short_decoded: "progress V e (short_decoded V k w p body ht ec e)"
  by (simp add: short_decoded_def good_statistic_def Let_def progress_trans [OF _ progress_ShortError]
      progress_trans [OF _ progress_short_single_at] progress_NC_RetryTasks)

lemma progress_Buf2Resp: "call_Buf2Resp V t body e = (r, e') \<Longrightarrow> progress V e e'"
  by (rule progress_settles) (rule settles_Buf2Resp)

lemma progress_push: "progress V e (e\<lparr> eg_client := ci_push V cmdid body (eg_client e) \<rparr>)"
  by (rule progress_settles) (simp add: settles_def outside_def workers_def client_rel_def client_keeps_def)

lemma progress_Long_OnResponse: "progress V e (Long_OnResponse V k et ec cmdid taskid body e)"
  by (auto simp: Long_OnResponse_def Let_def progress_Long_BatchError progress_push split: option.split prod.split
      intro: progress_trans [OF progress_long_change] progress_trans [OF progress_Buf2Resp progress_long_decoded])

lemma progress_short_edits: "progress V e (short_edit w SetLastFailedStatus e)" "progress V e (short_edit w (cancel_attempt c) e)"
  "progress V e (short_edit w (change_transfer f) e)"
  by (simp_all add: progress_short_edit SetLastFailedStatus_def cancel_attempt_def change_transfer_def continues_def)

lemma progress_Short_OnResponse: "progress V e (Short_OnResponse V k w et st body c e)"
proof -
  define r where "r = received k (of_nat (length body)) (of_nat (length body))"
  define e1 where "e1 = short_edit w (cancel_attempt c) (short_edit w (change_transfer r) e)"
  have 1: "progress V e e1" unfolding e1_def by (rule progress_trans [OF progress_short_edits(3,2)])
  have 2: "progress V e (short_decoded V k w p body ht ec e2)" if "call_Buf2Resp V t body e1 = (x, e2)" for p ht ec t x e2
    by (rule progress_trans [OF 1 progress_trans [OF progress_Buf2Resp [OF that] progress_short_decoded]])
  have "progress V e (short_failed_statistic k e)" by (simp add: short_failed_statistic_def)
  then have 3: "progress V e (short_edit w SetLastFailedStatus (short_failed_statistic k e))"
    by (rule progress_trans) (rule progress_short_edits(1))
  show ?thesis
    using progress_trans [OF 3 progress_short_single_at] progress_short_single_at 1 2
    by (auto simp: Short_OnResponse_def Let_def simp flip: r_def e1_def split: option.split prod.split)
qed

section \<open>Accepted tasks\<close>

text \<open>What the list of a manager holds: the attempts recorded and left stay within the retry count, and the
  deadline is the one computed at the start.\<close>

definition prof_ok :: "task_profile \<Rightarrow> bool" where
  "prof_ok p \<longleftrightarrow> 0 \<le> tp_remain_retry_count p \<and> int (length (tp_history p)) + tp_remain_retry_count p \<le> mt_retry_count (tp_task p)
     \<and> mt_retry_count (tp_task p) \<le> 30 \<and> mt_server_process_cost (tp_task p) \<le> 120000
     \<and> mt_total_timetout (tp_task p) \<le> 600000 \<and> tp_task_timeout p = ComputeTaskTimeout (tp_task p)"

definition profiles :: "'c engine \<Rightarrow> task_profile list" where
  "profiles e = lm_cmd (eg_long e) @ sm_cmd (eg_short e)"

definition net_inv :: "'c engine \<Rightarrow> bool" where
  "net_inv e \<longleftrightarrow> books e = mset (eg_started e) \<and> list_all prof_ok (profiles e) \<and> owners e"

lemma prof_ok_continues: "prof_ok p \<Longrightarrow> continues p q \<Longrightarrow> prof_ok q"
  by (simp add: prof_ok_def continues_def)

lemma prof_ok_follows: "list_all prof_ok ps \<Longrightarrow> follows ps qs \<Longrightarrow> list_all prof_ok qs"
  unfolding list_all_iff follows_def by (meson prof_ok_continues)

lemma net_inv_progress: "net_inv e \<Longrightarrow> progress V e e' \<Longrightarrow> net_inv e'"
  using prof_ok_follows by (auto simp: net_inv_def progress_def profiles_def)

lemma ValidAndInitDefault_facts:
  assumes "ValidAndInitDefault t = Some t'"
  shows "mt_taskid t' = mt_taskid t \<and> 0 \<le> mt_retry_count t' \<and> mt_retry_count t' \<le> 30
    \<and> mt_server_process_cost t' \<le> 120000 \<and> mt_total_timetout t' \<le> 600000"
  using assms by (auto simp: ValidAndInitDefault_def Let_def DEF_TASK_RETRY_COUNT_def split: if_splits)

lemma new_profile_ok: "ValidAndInitDefault t = Some t' \<Longrightarrow> prof_ok (new_profile now t')"
  using ValidAndInitDefault_facts by (simp add: prof_ok_def new_profile_def)

text \<open>Taking in one task, that is in no list yet.\<close>

definition takes_in :: "'c client_if \<Rightarrow> mtask \<Rightarrow> 'c engine \<Rightarrow> 'c engine \<Rightarrow> bool" where
  "takes_in V t e e' \<longleftrightarrow> books e' = add_mset (mt_taskid t) (books e) \<and> eg_started e' = eg_started e
     \<and> (list_all prof_ok (profiles e) \<longrightarrow> list_all prof_ok (profiles e')) \<and> (owners e \<longrightarrow> owners e' \<and> hires e e')
     \<and> client_rel V (add_mset (mt_taskid t) (books e)) e e'"

lemma client_rel_trans_books:
  "client_rel V S e e' \<Longrightarrow> client_rel V T e' e'' \<Longrightarrow> S \<subseteq># U \<Longrightarrow> T \<subseteq># U \<Longrightarrow> client_rel V U e e''"
  by (rule client_rel_trans [OF client_rel_mono client_rel_mono])

lemma takes_in_progress: "takes_in V t e e' \<Longrightarrow> progress V e' e'' \<Longrightarrow> takes_in V t e e''"
  using prof_ok_follows by (auto simp: takes_in_def progress_def profiles_def intro: client_rel_trans_books hires_trans)

lemma progress_takes_in: "progress V e e' \<Longrightarrow> takes_in V t e' e'' \<Longrightarrow> takes_in V t e e''"
  using prof_ok_follows by (auto simp: takes_in_def progress_def profiles_def intro: client_rel_trans_books hires_trans)

lemma settles_takes_in:
  assumes "settles V {# mt_taskid t #} e {#} e'"
  shows "takes_in V t e e'"
proof -
  have sub: "{# mt_taskid t #} + outside e \<subseteq># add_mset (mt_taskid t) (books e)" using books_outside(1) by simp
  have "client_rel V ({# mt_taskid t #} + outside e) e e'" using assms unfolding settles_def by blast
  then have "client_rel V (add_mset (mt_taskid t) (books e)) e e'" using sub by (rule client_rel_mono)
  moreover have "books e' = add_mset (mt_taskid t) (books e)" using assms by (simp add: settles_def books_def)
  ultimately show ?thesis
    using assms by (auto simp: settles_def takes_in_def profiles_def owners_def hires_def intro: own_workers_mono)
qed

lemma takes_in_end: "mt_taskid t' = mt_taskid t \<Longrightarrow> takes_in V t e (end_local V t' code e)"
  unfolding end_local_def by (rule settles_takes_in) (metis settles_OnTaskEnd prod.collapse)

lemma mset_ids_queue: "mset (map prof_id (queue_task p ps)) = add_mset (prof_id p) (mset (map prof_id ps))"
  by (simp add: queue_task_def)

lemma takes_in_set_long:
  "prof_ok p \<Longrightarrow> prof_id p = mt_taskid t \<Longrightarrow> takes_in V t e (set_long (queue_task p (lm_cmd (eg_long e))) e)"
  using mset_ids_queue [of p "lm_cmd (eg_long e)"]
  by (simp add: takes_in_def books_def profiles_def owners_def hires_def del: mset_map) (auto simp: queue_task_def list_all_iff)

lemma running_ids_queue: "tp_running_id p = 0 \<Longrightarrow> mset (running_ids (queue_task p ps)) = mset (running_ids ps)"
  by (simp add: running_ids_def queue_task_def)

lemma own_workers_queue: "tp_running_id p = 0 \<Longrightarrow> own_workers n (queue_task p ps) = own_workers n ps"
  using running_ids_queue [of p ps] mset_eq_setD mset_eq_imp_distinct_iff by (metis own_workers_def)

lemma takes_in_set_short:
  "prof_ok p \<Longrightarrow> prof_id p = mt_taskid t \<Longrightarrow> tp_running_id p = 0 \<Longrightarrow> takes_in V t e (set_short (queue_task p (sm_cmd (eg_short e))) e)"
  using mset_ids_queue [of p "sm_cmd (eg_short e)"] mset_eq_setD [OF running_ids_queue [of p "sm_cmd (eg_short e)"]]
  by (simp add: takes_in_def books_def profiles_def owners_def own_workers_queue hires_def del: mset_map) (auto simp: queue_task_def list_all_iff)

lemma new_profile_running [simp]: "tp_running_id (new_profile now t) = 0"
  by (simp add: new_profile_def)

lemma takes_in_start:
  assumes "ValidAndInitDefault t = Some t'" "start_on_channel V k t' e = (good, e')"
  shows "if good then takes_in V t e e' else e' = e"
proof -
  note f = ValidAndInitDefault_facts [OF assms(1)] and p = new_profile_ok [OF assms(1), of "tk_now k"]
  have l: "takes_in V t e (snd (Long_StartTask V k t' e)) \<and> fst (Long_StartTask V k t' e)"
    unfolding Long_StartTask_def using takes_in_progress [OF takes_in_set_long [OF p, of t V e] progress_Long_RunLoop] f by simp
  have s: "if fst (Short_StartTask V k t' e) then takes_in V t e (snd (Short_StartTask V k t' e)) else snd (Short_StartTask V k t' e) = e"
    unfolding Short_StartTask_def using takes_in_progress [OF takes_in_set_short [OF p, of t V e] progress_Short_RunLoop] f by simp
  show ?thesis using assms(2) l s by (auto simp: start_on_channel_def split: if_splits)
qed

lemma progress_early_connect: "progress V e (early_connect k t e)"
  by (simp add: early_connect_def)

lemma takes_in_NC_StartTask: "takes_in V t e (NC_StartTask V k t e)"
proof (cases "ValidAndInitDefault t")
  case None
  then show ?thesis by (simp add: NC_StartTask_def takes_in_end)
next
  case (Some t')
  obtain good e' where s: "start_on_channel V k t' (early_connect k t' e) = (good, e')"
    by (cases "start_on_channel V k t' (early_connect k t' e)")
  have id: "mt_taskid t' = mt_taskid t" using ValidAndInitDefault_facts [OF Some] by simp
  let ?c = "early_connect k t' e"
  have "takes_in V t ?c (if good then OnNetCoreStartTask k e' else end_local V t' kEctLocalStartTaskFail e')"
    using takes_in_start [OF Some s] takes_in_end [OF id, of V ?c]
      takes_in_progress [of V t ?c e' "OnNetCoreStartTask k e'"]
    by (auto simp: OnNetCoreStartTask_def split: if_splits)
  then have "takes_in V t e (if good then OnNetCoreStartTask k e' else end_local V t' kEctLocalStartTaskFail e')"
    by (rule progress_takes_in [OF progress_early_connect])
  then show ?thesis using Some s takes_in_end [OF id] by (auto simp: NC_StartTask_def)
qed

lemma client_rel_from_posted: "client_rel V S (e\<lparr> eg_posted := ts \<rparr>) e' = client_rel V S e e'"
  by (simp add: client_rel_def)

lemma run_posted_facts:
  "eg_started (run_posted V k e) = eg_started e \<and> (net_inv e \<longrightarrow> net_inv (run_posted V k e))
   \<and> client_rel V (books e) e (run_posted V k e)"
proof (cases "eg_posted e")
  case Nil
  then show ?thesis by (simp add: run_posted_def)
next
  case (Cons t ts)
  let ?e = "e\<lparr> eg_posted := ts \<rparr>"
  have "books e = add_mset (mt_taskid t) (books ?e)" by (simp add: books_def outside_def Cons)
  then show ?thesis
    using takes_in_NC_StartTask [of V t ?e k] Cons
    by (simp add: net_inv_def takes_in_def run_posted_def profiles_def owners_def workers_def client_rel_from_posted)
qed

fun start_event :: "net_event \<Rightarrow> dword list" where
  "start_event (EvStart t) = [mt_taskid t]"
| "start_event _ = []"

lemma net_step_progress: "start_event ev = [] \<Longrightarrow> ev \<noteq> EvRunStart \<Longrightarrow> progress V e (net_step V e (k, ev))"
  by (cases ev)
    (simp_all add: progress_NC_StopTask progress_NC_ClearTasks progress_NC_OnNetworkChange progress_NC_RedoTasks
      progress_Long_RunLoop progress_Short_RunLoop progress_TimerChecker progress_Long_OnResponse progress_Long_events
      progress_Short_OnResponse progress_Short_events progress_LongError progress_ShortError progress_NC_LinkStatus
      NC_MakeSureLongLinkConnect_def NC_OnTimerCheckSuc_def NC_OnForeground_def NC_OnInActive_def Let_def split: prod.split)

lemma net_step_facts:
  "eg_started (net_step V e (k, ev)) = eg_started e @ start_event ev \<and> (net_inv e \<longrightarrow> net_inv (net_step V e (k, ev)))
   \<and> client_rel V (books e) e (net_step V e (k, ev))"
proof (cases "ev = EvRunStart")
  case True
  then show ?thesis using run_posted_facts by simp
next
  case False
  show ?thesis
  proof (cases "start_event ev = []")
    case True
    then show ?thesis
      using net_step_progress [OF True False, of V e k] net_inv_progress by (auto simp: progress_def)
  next
    case False
    then obtain t where "ev = EvStart t" by (cases ev) auto
    then show ?thesis
      by (simp add: net_inv_def post_start_def books_def outside_def profiles_def owners_def workers_def)
  qed
qed

interpretation net: machine "net_step V" net_inv for V
  by unfold_locales (metis net_step_facts prod.collapse)

lemma net_inv_init: "net_inv (NetCore t0 c)"
  by (simp add: net_inv_def NetCore_def books_def outside_def profiles_def owners_def)

lemma net_run_inv: "net_inv (run_events (net_step V) (NetCore t0 c) es)"
  by (rule net.run_inv [OF net_inv_init])

definition started_ids :: "(tick \<times> net_event) list \<Rightarrow> dword list" where
  "started_ids es = concat (map (\<lambda>e. start_event (snd e)) es)"

lemma eg_started_run: "eg_started (run_events (net_step V) e es) = eg_started e @ started_ids es"
proof (induction es arbitrary: e)
  case Nil
  then show ?case by (simp add: started_ids_def)
next
  case (Cons x es)
  obtain k ev where "x = (k, ev)" by (cases x)
  then show ?case using Cons net_step_facts [of V e k ev] by (simp add: started_ids_def)
qed

text \<open>The tasks that wait for their end.\<close>

definition held_ids :: "'c engine \<Rightarrow> dword list" where
  "held_ids e = map prof_id (profiles e) @ map (\<lambda>z. mt_taskid (zt_task z)) (eg_zombies e) @ map mt_taskid (eg_posted e)"

lemma books_places: "books e = mset (held_ids e) + mset (map fst (eg_ended e)) + mset (eg_dropped e)"
  by (simp add: books_def outside_def held_ids_def profiles_def ac_simps)

text \<open>C5: Every task the client starts is, at every moment and for every behaviour of the network, the
  clock and the client, in exactly one place: waiting in the engine (as a start message, on one of the
  two channels, or as a zombie), ended with one report to the client, or removed on request. With
  distinct task ids no end is reported twice and none is reported for a waiting task.\<close>

theorem every_task_in_one_place:
  assumes "e = run_events (net_step V) (NetCore t0 c) es"
  shows "mset (held_ids e @ map fst (eg_ended e) @ eg_dropped e) = mset (started_ids es)
    \<and> (distinct (started_ids es) = distinct (held_ids e @ map fst (eg_ended e) @ eg_dropped e))"
proof -
  have "mset (held_ids e @ map fst (eg_ended e) @ eg_dropped e) = mset (started_ids es)"
    using net_run_inv [of V t0 c es] eg_started_run [of V "NetCore t0 c" es] books_places [of e]
    by (simp add: assms net_inv_def ac_simps) (simp add: NetCore_def)
  then show ?thesis using mset_eq_imp_distinct_iff by metis
qed

definition quiet_client :: "unit client_if" where
  "quiet_client = \<lparr> ci_req = (\<lambda>i c. ((True, Some [1, 2, 3], 0), c)), ci_resp = (\<lambda>i b c. ((kTaskFailHandleNoError, 0), c)),
     ci_end = (\<lambda>i et ec c. (0, c)), ci_push = (\<lambda>i b c. c), ci_authed = True, ci_version = 7 \<rparr>"

definition wifi_at :: "qword \<Rightarrow> tick" where
  "wifi_at t = \<lparr> tk_now = t, tk_net = kWifi \<rparr>"

definition short_mtask :: "dword \<Rightarrow> mtask" where
  "short_mtask i = (new_mtask i)\<lparr> mt_channel_select := kChannelShort, mt_cgi := [47] \<rparr>"

definition two_tasks :: "(tick \<times> net_event) list" where
  "two_tasks = [(wifi_at 1000, EvStart (short_mtask 5)), (wifi_at 1010, EvStart (short_mtask 6)), (wifi_at 1020, EvRunStart),
     (wifi_at 2000, EvShortSend 1), (wifi_at 3000, EvShortResponse 1 kEctOK 200 [9] False)]"

theorem every_task_in_one_place_witness:
  "let e = run_events (net_step quiet_client) (NetCore 500 ()) two_tasks
   in mset (held_ids e @ map fst (eg_ended e) @ eg_dropped e) = mset [5, 6] \<and> held_ids e = [6] \<and> eg_ended e = [(5, kEctOK, 0)]"
proof -
  have "started_ids two_tasks = [5, 6]" by code_simp
  moreover have "held_ids (run_events (net_step quiet_client) (NetCore 500 ()) two_tasks) = [6]" by code_simp
  moreover have "eg_ended (run_events (net_step quiet_client) (NetCore 500 ()) two_tasks) = [(5, kEctOK, 0)]" by code_simp
  ultimately show ?thesis
    using every_task_in_one_place [OF refl, of quiet_client 500 "()" two_tasks] by (simp add: Let_def)
qed

section \<open>Deadlines\<close>

text \<open>What \<open>ComputeTaskTimeout\<close> amounts to for an accepted task: no wrap-around, 20 seconds and the
  server's time for each attempt, at most the total the client allows.\<close>

definition time_allowed :: "mtask \<Rightarrow> int" where
  "time_allowed t =
     (let full = (max 0 (mt_server_process_cost t) + 20000) * (mt_retry_count t + 1)
      in if 0 < mt_total_timetout t then min full (mt_total_timetout t) else full)"

lemma time_allowed_exact:
  assumes "0 \<le> mt_retry_count t" "mt_retry_count t \<le> 30" "mt_server_process_cost t \<le> 120000" "mt_total_timetout t \<le> 600000"
  shows "uint (ComputeTaskTimeout t) = time_allowed t" and "0 \<le> time_allowed t \<and> time_allowed t \<le> 4340000"
proof -
  define c where "c = max 0 (mt_server_process_cost t)"
  define r where "r = mt_retry_count t + 1"
  define full where "full = (c + 20000) * r"
  have c: "0 \<le> c" "c \<le> 120000" and r: "1 \<le> r" "r \<le> 31" using assms by (auto simp: c_def r_def)
  have "full \<le> 140000 * 31" unfolding full_def using c r by (intro mult_mono) auto
  then have f: "0 \<le> full" "full \<le> 4340000" using c r by (auto simp: full_def)
  have "word_of_int (int32 (mt_server_process_cost t + 15 * 1000)) = (word_of_int (c + 15000) :: qword)" if "0 < mt_server_process_cost t"
    using that assms(3) by (simp add: c_def int32_id)
  then have "(if 0 < mt_server_process_cost t then word_of_int (int32 (mt_server_process_cost t + 15 * 1000)) else 15 * 1000)
      = (word_of_int (c + 15000) :: qword)"
    by (auto simp: c_def)
  then have w: "((if 0 < mt_server_process_cost t then word_of_int (int32 (mt_server_process_cost t + 15 * 1000)) else 15 * 1000) + 5 * 1000)
      * word_of_int r = (word_of_int full :: qword)"
    by (simp add: full_def add.commute flip: wi_hom_mult wi_hom_add)
  have u: "uint (word_of_int full :: qword) = full" using f by (simp add: unsigned_of_int take_bit_int_eq_self)
  have ut: "uint (word_of_int (mt_total_timetout t) :: qword) = mt_total_timetout t" if "0 < mt_total_timetout t"
    using that assms(4) by (simp add: unsigned_of_int take_bit_int_eq_self)
  have ta: "time_allowed t = (if 0 < mt_total_timetout t then min full (mt_total_timetout t) else full)"
    by (simp add: time_allowed_def full_def c_def r_def)
  have "ComputeTaskTimeout t = (if 0 < mt_total_timetout t \<and> word_of_int (mt_total_timetout t) < (word_of_int full :: qword)
      then word_of_int (mt_total_timetout t) else word_of_int full)"
    unfolding ComputeTaskTimeout_def Let_def using assms(1) w by (simp add: r_def)
  then show "uint (ComputeTaskTimeout t) = time_allowed t"
    using u ut by (auto simp: ta word_less_def)
  show "0 \<le> time_allowed t \<and> time_allowed t \<le> 4340000" using f by (auto simp: ta)
qed

definition time_spent :: "tick \<Rightarrow> task_profile \<Rightarrow> int" where
  "time_spent k p = uint (tk_now k - tp_start_task_time p)"

definition in_time :: "tick \<Rightarrow> task_profile \<Rightarrow> bool" where
  "in_time k p \<longleftrightarrow> time_spent k p < time_allowed (tp_task p) \<and> time_allowed (tp_task p) \<le> 4340000"

lemma prof_ok_time:
  assumes "prof_ok p" "\<not> overdue k p"
  shows "in_time k p"
proof -
  have "time_spent k p < uint (tp_task_timeout p)"
    using assms(2) by (simp add: overdue_def word_less_def time_spent_def not_le)
  moreover have "uint (tp_task_timeout p) = time_allowed (tp_task p) \<and> time_allowed (tp_task p) \<le> 4340000"
    using assms(1) time_allowed_exact [of "tp_task p"] by (auto simp: prof_ok_def)
  ultimately show ?thesis by (simp add: in_time_def)
qed

lemma held_in_time: "list_all prof_ok ps \<Longrightarrow> none_overdue k ps \<Longrightarrow> list_all (in_time k) ps"
  by (auto simp: list_all_iff none_overdue_def intro: prof_ok_time)

text \<open>C13: No task waits for ever: after a pass of a manager's loop every task on its list was started
  less than the allowed time ago, which is 20 seconds and the declared server time per attempt (40
  seconds for the chat client's tasks), at most the client's total, and never more than 72 minutes and
  20 seconds. This holds whatever the network did before; a task that is over its time has been ended
  or put aside by the pass.\<close>

theorem no_task_outlives_its_deadline:
  assumes "e = run_events (net_step V) (NetCore t0 c) es"
  shows "list_all (in_time k) (lm_cmd (eg_long (net_step V e (k, EvLongLoop))))
    \<and> list_all (in_time k) (sm_cmd (eg_short (net_step V e (k, EvShortLoop))))"
proof -
  have e: "net_inv e" using net_run_inv assms by simp
  have "list_all prof_ok (lm_cmd (eg_long (Long_RunLoop V k e)))" "list_all prof_ok (sm_cmd (eg_short (Short_RunLoop V k e)))"
    using net_inv_progress [OF e progress_Long_RunLoop [of V e k]] net_inv_progress [OF e progress_Short_RunLoop [of V e k]]
    by (simp_all add: net_inv_def profiles_def)
  from held_in_time [OF this(1) Long_RunLoop_due] held_in_time [OF this(2) Short_RunLoop_due]
  show ?thesis by simp
qed

definition slow_task :: "(tick \<times> net_event) list" where
  "slow_task = [(wifi_at 1000, EvStart (short_mtask 5)), (wifi_at 1020, EvRunStart), (wifi_at 2000, EvShortSend 1)]"

theorem no_task_outlives_its_deadline_witness:
  "let e = run_events (net_step quiet_client) (NetCore 500 ()) slow_task
   in list_all (in_time (wifi_at 41020)) (sm_cmd (eg_short (net_step quiet_client e (wifi_at 41020, EvShortLoop))))
      \<and> map time_allowed (map tp_task (profiles e)) = [40000]
      \<and> eg_ended (net_step quiet_client e (wifi_at 41020, EvShortLoop)) = [(5, kEctLocal, kEctLocalTaskTimeout)]"
proof -
  have "map time_allowed (map tp_task (profiles (run_events (net_step quiet_client) (NetCore 500 ()) slow_task))) = [40000]"
    by code_simp
  moreover have "eg_ended (net_step quiet_client (run_events (net_step quiet_client) (NetCore 500 ()) slow_task)
      (wifi_at 41020, EvShortLoop)) = [(5, kEctLocal, kEctLocalTaskTimeout)]"
    by code_simp
  ultimately show ?thesis
    using no_task_outlives_its_deadline [OF refl, of "wifi_at 41020" quiet_client 500 "()" slow_task] unfolding Let_def by blast
qed

section \<open>Attempts and workers\<close>

text \<open>Where the tasks on the lists come from: they were there with the same task and start, or they were started
  in this step.\<close>

definition origin :: "tick \<Rightarrow> mtask \<Rightarrow> 'c engine \<Rightarrow> 'c engine \<Rightarrow> bool" where
  "origin k t e e' \<longleftrightarrow> (\<forall>q \<in> set (profiles e'). (\<exists>p \<in> set (profiles e). continues p q)
     \<or> tp_start_task_time q = tk_now k \<and> prof_id q = mt_taskid t)"

lemma progress_profiles: "progress V e e' \<Longrightarrow> q \<in> set (profiles e') \<Longrightarrow> \<exists>p \<in> set (profiles e). continues p q"
  by (fastforce simp: progress_def follows_def profiles_def)

lemma continues_origin: "continues p q \<Longrightarrow> tp_start_task_time q = tp_start_task_time p \<and> prof_id q = prof_id p"
  using continues_id by (simp add: continues_def)

lemma origin_progress:
  assumes "origin k t e e'" "progress V e' e''"
  shows "origin k t e e''"
  unfolding origin_def
proof
  fix q assume "q \<in> set (profiles e'')"
  with assms(2) obtain r where r: "r \<in> set (profiles e')" "continues r q" using progress_profiles by blast
  then consider p where "p \<in> set (profiles e)" "continues p r" | "tp_start_task_time r = tk_now k" "prof_id r = mt_taskid t"
    using assms(1) unfolding origin_def by blast
  then show "(\<exists>p \<in> set (profiles e). continues p q) \<or> tp_start_task_time q = tk_now k \<and> prof_id q = mt_taskid t"
  proof cases
    case 1
    then show ?thesis using continues_trans [OF _ r(2)] by blast
  next
    case 2
    then show ?thesis using continues_origin [OF r(2)] by simp
  qed
qed

lemma progress_then_origin:
  assumes "progress V e e'" "origin k t e' e''"
  shows "origin k t e e''"
  unfolding origin_def
proof
  fix q assume "q \<in> set (profiles e'')"
  then consider r where "r \<in> set (profiles e')" "continues r q" | "tp_start_task_time q = tk_now k" "prof_id q = mt_taskid t"
    using assms(2) unfolding origin_def by blast
  then show "(\<exists>p \<in> set (profiles e). continues p q) \<or> tp_start_task_time q = tk_now k \<and> prof_id q = mt_taskid t"
  proof cases
    case 1
    then obtain p where "p \<in> set (profiles e)" "continues p r" using progress_profiles [OF assms(1)] by blast
    then show ?thesis using continues_trans [OF _ 1(2)] by blast
  qed simp
qed

lemma origin_same: "profiles e' = profiles e \<Longrightarrow> origin k t e e'"
  by (auto simp: origin_def)

lemma origin_end: "origin k t e (end_local V t' code e)"
proof -
  have "settles V {# mt_taskid t' #} e {#} (end_local V t' code e)"
    unfolding end_local_def by (rule settles_OnTaskEnd) (rule prod.collapse [symmetric])
  then show ?thesis by (intro origin_same) (simp add: settles_def profiles_def)
qed

lemma origin_start_on_channel:
  assumes "mt_taskid t' = mt_taskid t"
  shows "origin k t e (snd (start_on_channel V k t' e))"
proof -
  have n: "tp_start_task_time (new_profile (tk_now k) t') = tk_now k \<and> prof_id (new_profile (tk_now k) t') = mt_taskid t"
    using assms by (simp add: new_profile_def prof_id_def)
  have "origin k t e (set_long (queue_task (new_profile (tk_now k) t') (lm_cmd (eg_long e))) e)"
    "origin k t e (set_short (queue_task (new_profile (tk_now k) t') (sm_cmd (eg_short e))) e)"
    using n by (auto simp: origin_def profiles_def queue_task_def)
  from origin_progress [OF this(1) progress_Long_RunLoop] origin_progress [OF this(2) progress_Short_RunLoop] show ?thesis
    by (auto simp: start_on_channel_def Long_StartTask_def Short_StartTask_def origin_same)
qed

lemma origin_NC_StartTask: "origin k t e (NC_StartTask V k t e)"
proof (cases "ValidAndInitDefault t")
  case (Some t')
  let ?c = "early_connect k t' e"
  obtain good e' where s: "start_on_channel V k t' ?c = (good, e')" by (cases "start_on_channel V k t' ?c")
  have c: "origin k t ?c e'" using origin_start_on_channel [of t' t k ?c V] ValidAndInitDefault_facts [OF Some] s by simp
  have "origin k t ?c (OnNetCoreStartTask k e')" using origin_progress [OF c, of V "OnNetCoreStartTask k e'"] by (simp add: OnNetCoreStartTask_def)
  moreover have "origin k t ?c (end_local V t' kEctLocalStartTaskFail e')"
  proof -
    have "profiles (end_local V t' kEctLocalStartTaskFail e') = profiles e'"
    proof -
      have "settles V {# mt_taskid t' #} e' {#} (end_local V t' kEctLocalStartTaskFail e')"
        unfolding end_local_def by (rule settles_OnTaskEnd) (rule prod.collapse [symmetric])
      then show ?thesis by (simp add: settles_def profiles_def)
    qed
    with c show ?thesis by (simp add: origin_def)
  qed
  ultimately have "origin k t e (if good then OnNetCoreStartTask k e' else end_local V t' kEctLocalStartTaskFail e')"
    by (cases good) (auto intro: progress_then_origin [OF progress_early_connect])
  then show ?thesis using Some s origin_end by (auto simp: NC_StartTask_def)
qed (simp add: NC_StartTask_def origin_end)

lemma net_step_origin:
  assumes "q \<in> set (profiles (net_step V e (k, ev)))"
  shows "(\<exists>p \<in> set (profiles e). continues p q)
    \<or> ev = EvRunStart \<and> tp_start_task_time q = tk_now k \<and> (\<exists>t ts. eg_posted e = t # ts \<and> prof_id q = mt_taskid t)"
proof (cases "ev = EvRunStart")
  case True
  then show ?thesis using assms origin_NC_StartTask [of k _ "e\<lparr> eg_posted := tl (eg_posted e) \<rparr>" V]
    by (cases "eg_posted e") (auto simp: run_posted_def origin_def profiles_def)
next
  case False
  show ?thesis
  proof (cases "start_event ev = []")
    case True
    from progress_profiles [OF net_step_progress [OF True False] assms] show ?thesis by blast
  next
    case False
    then obtain t where "ev = EvStart t" by (cases ev) auto
    then show ?thesis using assms by (auto simp: post_start_def profiles_def)
  qed
qed

text \<open>C14: Retrying ends: of a waiting task the attempts that have failed and those left never exceed the
  retry count the client asked for, which is at most 30, and no attempt is left over below zero. Its deadline is
  fixed when it is taken in: the time allowed is computed from the task, and whatever happens next, a task
  on a list is one that was there with the same start and the same time allowed, or it is the one that the
  oldest start message has just brought, and it starts now.\<close>

theorem attempts_are_bounded:
  assumes "e = run_events (net_step V) (NetCore t0 c) es"
  shows "list_all (\<lambda>p. 0 \<le> tp_remain_retry_count p \<and> int (length (tp_history p)) + tp_remain_retry_count p \<le> mt_retry_count (tp_task p)
      \<and> mt_retry_count (tp_task p) \<le> 30 \<and> tp_task_timeout p = ComputeTaskTimeout (tp_task p)) (profiles e)
    \<and> (\<forall>q \<in> set (profiles (net_step V e (k, ev))).
        (\<exists>p \<in> set (profiles e). tp_task q = tp_task p \<and> tp_start_task_time q = tp_start_task_time p \<and> tp_task_timeout q = tp_task_timeout p)
        \<or> ev = EvRunStart \<and> tp_start_task_time q = tk_now k \<and> (\<exists>t ts. eg_posted e = t # ts \<and> mt_taskid (tp_task q) = mt_taskid t))"
proof (rule conjI)
  show "list_all (\<lambda>p. 0 \<le> tp_remain_retry_count p \<and> int (length (tp_history p)) + tp_remain_retry_count p \<le> mt_retry_count (tp_task p)
      \<and> mt_retry_count (tp_task p) \<le> 30 \<and> tp_task_timeout p = ComputeTaskTimeout (tp_task p)) (profiles e)"
    using net_run_inv [of V t0 c es] by (auto simp: assms net_inv_def prof_ok_def list_all_iff)
  show "\<forall>q \<in> set (profiles (net_step V e (k, ev))).
      (\<exists>p \<in> set (profiles e). tp_task q = tp_task p \<and> tp_start_task_time q = tp_start_task_time p \<and> tp_task_timeout q = tp_task_timeout p)
      \<or> ev = EvRunStart \<and> tp_start_task_time q = tk_now k \<and> (\<exists>t ts. eg_posted e = t # ts \<and> mt_taskid (tp_task q) = mt_taskid t)"
    using net_step_origin [of _ V e k ev] unfolding continues_def prof_id_def by meson
qed

theorem attempts_are_bounded_witness:
  "list_all (\<lambda>p. 0 \<le> tp_remain_retry_count p \<and> int (length (tp_history p)) + tp_remain_retry_count p \<le> mt_retry_count (tp_task p)
      \<and> mt_retry_count (tp_task p) \<le> 30 \<and> tp_task_timeout p = ComputeTaskTimeout (tp_task p))
     (profiles (run_events (net_step quiet_client) (NetCore 500 ()) (slow_task @ [(wifi_at 3000, EvShortResponse 1 kEctSocket 0 [] False)])))
   \<and> map (\<lambda>p. (length (tp_history p), tp_remain_retry_count p))
       (profiles (run_events (net_step quiet_client) (NetCore 500 ()) (slow_task @ [(wifi_at 3000, EvShortResponse 1 kEctSocket 0 [] False)]))) = [(1, 0)]"
proof -
  have "map (\<lambda>p. (length (tp_history p), tp_remain_retry_count p))
       (profiles (run_events (net_step quiet_client) (NetCore 500 ()) (slow_task @ [(wifi_at 3000, EvShortResponse 1 kEctSocket 0 [] False)]))) = [(1, 0)]"
    by code_simp
  with attempts_are_bounded [OF refl, of quiet_client 500 "()" "slow_task @ [(wifi_at 3000, EvShortResponse 1 kEctSocket 0 [] False)]"]
  show ?thesis by blast
qed

lemma owner_unique: "own_workers n ps \<Longrightarrow> length (filter (owns w) ps) \<le> 1"
proof (induction ps)
  case Nil
  then show ?case by simp
next
  case (Cons p ps)
  have "filter (owns w) ps = []" if "owns w p"
    using that Cons.prems by (auto simp: own_workers_Cons owns_def running_ids_def filter_empty_conv image_iff)
  then show ?case using Cons by (auto simp: own_workers_Cons)
qed

lemma visit_first_none: "find P ps = None \<Longrightarrow> visit_first P f ps s = (ps, s)" "find P ps = None \<Longrightarrow> change_first P g ps = ps"
  by (induction ps) (auto split: if_splits)

text \<open>The tasks that a worker serves: one at most, and none once it serves none.\<close>

definition served :: "nat \<Rightarrow> 'c engine \<Rightarrow> task_profile list" where
  "served w e = filter (owns w) (sm_cmd (eg_short e))"

lemma served_none: "served w e = [] \<longleftrightarrow> w = 0 \<or> w \<notin> set (running_ids (sm_cmd (eg_short e)))"
  by (auto simp: served_def owns_def running_ids_def filter_empty_conv)

lemma served_stays: "hires e e' \<Longrightarrow> w \<le> workers e \<Longrightarrow> served w e = [] \<Longrightarrow> served w e' = []"
  by (auto simp: served_none hires_def)

lemma served_progress: "progress V e e' \<Longrightarrow> owners e \<Longrightarrow> w \<le> workers e \<Longrightarrow> served w e = [] \<Longrightarrow> served w e' = []"
  using served_stays by (auto simp: progress_def)

lemma net_step_hires:
  assumes "net_inv e"
  shows "hires e (net_step V e (k, ev))"
proof (cases "ev = EvRunStart")
  case True
  show ?thesis
  proof (cases "eg_posted e")
    case (Cons t ts)
    have "owners (e\<lparr> eg_posted := ts \<rparr>)" using assms by (simp add: net_inv_def owners_def workers_def)
    then show ?thesis using takes_in_NC_StartTask [of V t "e\<lparr> eg_posted := ts \<rparr>" k] True Cons
      by (simp add: takes_in_def run_posted_def hires_def workers_def)
  qed (simp add: True run_posted_def)
next
  case False
  show ?thesis
  proof (cases "start_event ev = []")
    case True
    then show ?thesis using net_step_progress [OF True False, of V e k] assms by (simp add: progress_def net_inv_def)
  next
    case False
    then obtain t where "ev = EvStart t" by (cases ev) auto
    then show ?thesis by (simp add: post_start_def hires_def workers_def)
  qed
qed

lemma served_run: "net_inv e \<Longrightarrow> w \<le> workers e \<Longrightarrow> served w e = [] \<Longrightarrow> served w (run_events (net_step V) e es) = []"
proof (induction es arbitrary: e)
  case (Cons x es)
  obtain k ev where x: "x = (k, ev)" by (cases x)
  have h: "hires e (net_step V e (k, ev))" by (rule net_step_hires [OF Cons.prems(1)])
  then have "w \<le> workers (net_step V e (k, ev))" using Cons.prems(2) by (simp add: hires_def)
  then show ?case using Cons.IH [of "net_step V e (k, ev)"] net_step_facts [of V e k ev] served_stays [OF h] Cons.prems x by simp
qed simp

text \<open>What a visit leaves.\<close>

lemma walk_from: "walk f ps s = (qs, s') \<Longrightarrow> q \<in> set qs \<Longrightarrow> \<exists>p \<in> set ps. \<exists>s1 s2. f p s1 = (Some q, s2)"
  by (induction ps arbitrary: s qs) (fastforce split: prod.splits option.splits simp: Let_def)+

lemma visit_first_owner:
  assumes "visit_first (owns w) f ps s = (qs, s')" "own_workers n ps" "\<And>p s q s'. f p s = (Some q, s') \<Longrightarrow> tp_running_id q = 0"
  shows "filter (owns w) qs = []"
  using assms(1,2)
proof (induction ps arbitrary: qs s)
  case (Cons p ps)
  show ?case
  proof (cases "owns w p")
    case True
    then have "filter (owns w) ps = []"
      using Cons.prems(2) by (auto simp: own_workers_Cons owns_def running_ids_def filter_empty_conv image_iff)
    moreover obtain r s1 where f: "f p s = (r, s1)" by (cases "f p s")
    moreover have "\<not> owns w q" if "r = Some q" for q using assms(3) [of p s q s1] f that by (auto simp: owns_def)
    ultimately show ?thesis using Cons.prems(1) True by (cases r) auto
  next
    case False
    then show ?thesis using Cons by (auto simp: own_workers_Cons split: prod.splits)
  qed
qed simp

lemma single_at_served:
  assumes "owners e"
  shows "served w (short_single_at V k w et ec fh e) = []"
proof -
  obtain qs e1 where v: "visit_first (owns w) (\<lambda>p e. Short_SingleResp V k p et ec fh e) (sm_cmd (eg_short e)) e = (qs, e1)" by force
  have "own_workers (workers e) (sm_cmd (eg_short e))" using assms by (simp add: owners_def)
  from visit_first_owner [OF v this] have "filter (owns w) qs = []" using Short_SingleResp_kept by blast
  then show ?thesis using v by (simp add: short_single_at_def served_def)
qed

lemma batch_served:
  assumes "fh = kTaskFailHandleSessionTimeout \<Longrightarrow> \<forall>p \<in> set (sm_cmd (eg_short e)). owns w p \<longrightarrow> mt_need_authed (tp_task p)"
  shows "served w (Short_BatchError V k et ec fh src True e) = []"
proof -
  obtain qs e1 where v: "walk (short_batch_visit V k et ec fh src True) (sm_cmd (eg_short e)) e = (qs, e1)" by force
  have "\<not> owns w q" if q: "q \<in> set qs" for q
  proof -
    obtain p s1 s2 where p: "p \<in> set (sm_cmd (eg_short e))" "short_batch_visit V k et ec fh src True p s1 = (Some q, s2)"
      using walk_from [OF v q] by blast
    then have "tp_running_id q = 0 \<or> q = p \<and> fh = kTaskFailHandleSessionTimeout \<and> \<not> mt_need_authed (tp_task p)"
      by (auto simp: short_batch_visit_def split: if_splits dest: Short_SingleResp_kept)
    then show ?thesis using assms p(1) by (auto simp: owns_def)
  qed
  then show ?thesis using v by (simp add: Short_BatchError_def served_def filter_empty_conv)
qed

lemma retry_served:
  assumes "owners e" "w \<le> workers e"
    and "fh = kTaskFailHandleSessionTimeout \<Longrightarrow> \<forall>p \<in> set (sm_cmd (eg_short e)). owns w p \<longrightarrow> mt_need_authed (tp_task p)"
  shows "served w (NC_RetryTasks V k et ec fh src e) = []"
proof -
  let ?b = "Short_BatchError V k et ec fh src True e"
  have b: "owners ?b" "w \<le> workers ?b" using progress_Short_BatchError [of V e k et ec fh src True] assms(1,2) by (auto simp: progress_def hires_def)
  have "progress V ?b (NC_RetryTasks V k et ec fh src e)"
    unfolding NC_RetryTasks_def Short_RetryTasks_def by (rule progress_trans [OF progress_Short_RunLoop progress_Long_RetryTasks])
  from served_progress [OF this b batch_served [OF assms(3)]] show ?thesis .
qed

lemma timeout_served:
  assumes "owners e" "p \<in> set (sm_cmd (eg_short e))" "owns w p" "short_timeout_code k p \<noteq> None"
  shows "served w (Short_RunLoop V k e) = []"
proof -
  let ?t = "Short_RunOnTimeout V k e"
  obtain qs e1 where v: "walk (short_timeout_visit V k) (sm_cmd (eg_short e)) e = (qs, e1)" by force
  have u: "p' = p" if "p' \<in> set (sm_cmd (eg_short e))" "owns w p'" for p'
  proof -
    have "length (filter (owns w) (sm_cmd (eg_short e))) \<le> 1" using assms(1) owner_unique by (auto simp: owners_def)
    moreover have "p \<in> set (filter (owns w) (sm_cmd (eg_short e)))" "p' \<in> set (filter (owns w) (sm_cmd (eg_short e)))" using that assms(2,3) by auto
    ultimately show ?thesis by (cases "filter (owns w) (sm_cmd (eg_short e))") auto
  qed
  have "\<not> owns w q" if q: "q \<in> set qs" for q
  proof -
    obtain p' s1 s2 where p': "p' \<in> set (sm_cmd (eg_short e))" "short_timeout_visit V k p' s1 = (Some q, s2)"
      using walk_from [OF v q] by blast
    then have "tp_running_id q = 0 \<or> q = p' \<and> short_timeout_code k p' = None"
      by (auto simp: short_timeout_visit_def split: option.splits prod.splits dest!: Short_SingleResp_kept)
    then show ?thesis using u [OF p'(1)] assms(4) by (auto simp: owns_def)
  qed
  then have "served w ?t = []" using v by (simp add: Short_RunOnTimeout_def served_def filter_empty_conv)
  moreover have "w \<le> workers e" using assms(1-3) own_workers_le by (fastforce simp: owners_def owns_def running_ids_def)
  then have "owners ?t" "w \<le> workers ?t" using progress_Short_RunOnTimeout [of V e k] assms(1) by (auto simp: progress_def hires_def)
  ultimately show ?thesis using served_progress [OF progress_Short_RunOnStartTask, of ?t w V k] assms(2) by (auto simp: Short_RunLoop_def)
qed

lemma redo_served:
  assumes "owners e" "w \<le> workers e"
  shows "served w (Short_RedoTasks V k e) = []"
proof -
  let ?r = "set_short (map redo_profile (sm_cmd (eg_short e))) e"
  have "served w ?r = []" "owners ?r" using assms(1) by (simp_all add: served_none owners_def own_workers_def)
  then show ?thesis unfolding Short_RedoTasks_def using served_progress [OF progress_Short_RunLoop, of ?r w V k] assms(2) by simp
qed

lemma in_change_first: "y \<in> set (change_first P f xs) \<Longrightarrow> y \<in> set xs \<or> (\<exists>x \<in> set xs. P x \<and> y = f x)"
  by (induction xs) (auto split: if_splits)

lemma served_edit:
  assumes "y \<in> set (sm_cmd (eg_short (short_edit w f e)))" "owns w y" "\<And>p. tp_running_id (f p) = tp_running_id p \<and> tp_task (f p) = tp_task p"
  shows "\<exists>x \<in> set (served w e). tp_task x = tp_task y"
proof -
  have "y \<in> set (change_first (owns w) f (sm_cmd (eg_short e)))" using assms(1) by (simp add: short_edit_def)
  from in_change_first [OF this] consider "y \<in> set (sm_cmd (eg_short e))" | x where "x \<in> set (sm_cmd (eg_short e))" "owns w x" "y = f x" by blast
  then show ?thesis
  proof cases
    case 1
    then show ?thesis using assms(2) by (auto simp: served_def)
  next
    case 2
    then show ?thesis using assms(3) [of x] by (auto simp: served_def intro!: bexI [of _ x])
  qed
qed

text \<open>The one case in which a task keeps a worker that has answered: the client takes the answer for the end of a session, and
  the task does not need one.\<close>

definition kept_waiting :: "'c client_if \<Rightarrow> nat \<Rightarrow> ErrCmdType \<Rightarrow> bytes \<Rightarrow> 'c engine \<Rightarrow> bool" where
  "kept_waiting V w et body e \<longleftrightarrow> et = kEctOK \<and> list_ex (\<lambda>p. \<not> mt_need_authed (tp_task p)
     \<and> fst (fst (ci_resp V (mt_taskid (tp_task p)) body (eg_client e))) = kTaskFailHandleSessionTimeout) (served w e)"

lemma decoded_served:
  assumes "owners e" "w \<le> workers e"
    and "ht = kTaskFailHandleSessionTimeout \<Longrightarrow> \<forall>p \<in> set (sm_cmd (eg_short e)). owns w p \<longrightarrow> mt_need_authed (tp_task p)"
  shows "served w (short_decoded V k w p body ht ec e) = []"
proof -
  have s: "served w (short_single_at V k w et ec ht e') = [] \<and> owners (short_single_at V k w et ec ht e') \<and> w \<le> workers (short_single_at V k w et ec ht e')"
    if "owners e'" "w \<le> workers e'" for e' et ec
    using single_at_served [OF that(1)] progress_short_single_at [of V e' k w et ec ht] that by (auto simp: progress_def hires_def)
  have g: "owners (good_statistic k p body e)" "w \<le> workers (good_statistic k p body e)"
    using assms(1,2) by (simp_all add: good_statistic_def owners_def workers_def)
  have n: "served w (OnShortLinkNetworkError V k et ec (short_single_at V k w et' ec' ht e')) = []" if "owners e'" "w \<le> workers e'" for e' et et' ec ec'
    using served_progress [OF progress_ShortError] s [OF that] by blast
  show ?thesis using n [OF g] n [OF assms(1,2)] s [OF assms(1,2)] retry_served [OF assms]
    by (auto simp: short_decoded_def Let_def)
qed

lemma response_served:
  assumes "net_inv e" "\<not> kept_waiting V w et body e"
  shows "served w (Short_OnResponse V k w et st body c e) = []"
proof (cases "find (owns w) (sm_cmd (eg_short e))")
  case None
  then have "served w e = []" by (simp add: served_def find_None_iff filter_empty_conv)
  then show ?thesis using None by (simp add: Short_OnResponse_def)
next
  case (Some p)
  have o: "owners e" using assms(1) by (simp add: net_inv_def)
  from Some have p: "p \<in> set (sm_cmd (eg_short e))" "owns w p" by (auto simp: find_Some_iff)
  then have w: "w \<le> workers e" using o own_workers_le by (fastforce simp: owners_def owns_def running_ids_def)
  show ?thesis
  proof (cases "et = kEctOK")
    case False
    let ?e = "short_edit w SetLastFailedStatus (short_failed_statistic k e)"
    have "progress V (short_failed_statistic k e) ?e" by (rule progress_short_edits(1))
    then have "owners ?e" using o by (simp add: progress_def short_failed_statistic_def owners_def workers_def)
    then show ?thesis using Some False single_at_served [OF o] single_at_served [of ?e] by (simp add: Short_OnResponse_def)
  next
    case True
    define r where "r = received k (of_nat (length body)) (of_nat (length body))"
    define e1 where "e1 = short_edit w (cancel_attempt c) (short_edit w (change_transfer r) e)"
    have pr: "progress V e e1" unfolding e1_def by (rule progress_trans [OF progress_short_edits(3,2)])
    have R: "Short_OnResponse V k w et st body c e = (case find (owns w) (sm_cmd (eg_short e1)) of None \<Rightarrow> e1
        | Some p \<Rightarrow> let ((ht, ec), e2) = call_Buf2Resp V (tp_task p) body e1 in short_decoded V k w p body ht ec e2)"
      unfolding e1_def r_def by (simp add: Short_OnResponse_def Some True Let_def)
    have cl: "eg_client e1 = eg_client e" by (simp add: e1_def short_edit_def set_short_def)
    show ?thesis
    proof (cases "find (owns w) (sm_cmd (eg_short e1))")
      case None
      then have "served w e1 = []" by (simp add: served_def find_None_iff filter_empty_conv)
      then show ?thesis using None by (simp add: R)
    next
      case (Some q)
      obtain ht ec e2 where b: "call_Buf2Resp V (tp_task q) body e1 = ((ht, ec), e2)" by (metis surj_pair)
      have p2: "progress V e e2" by (rule progress_trans [OF pr progress_Buf2Resp [OF b]])
      have L: "sm_cmd (eg_short e2) = sm_cmd (eg_short e1)" using b by (auto simp: call_Buf2Resp_def split: prod.splits)
      have keeps: "tp_running_id (cancel_attempt c p) = tp_running_id p \<and> tp_task (cancel_attempt c p) = tp_task p"
        "tp_running_id (change_transfer r p) = tp_running_id p \<and> tp_task (change_transfer r p) = tp_task p" for p
        by (simp_all add: cancel_attempt_def change_transfer_def)
      have same: "\<exists>x \<in> set (served w e). tp_task x = tp_task y" if y: "y \<in> set (sm_cmd (eg_short e1))" "owns w y" for y
      proof -
        obtain x where x: "x \<in> set (served w (short_edit w (change_transfer r) e))" "tp_task x = tp_task y"
          using served_edit [OF y(1) [unfolded e1_def] y(2) keeps(1)] by blast
        then show ?thesis using served_edit [of x w "change_transfer r" e, OF _ _ keeps(2)] by (auto simp: served_def)
      qed
      have q: "q \<in> set (sm_cmd (eg_short e1))" "owns w q" using Some by (auto simp: find_Some_iff)
      have "owners e1" using pr o by (simp add: progress_def)
      then have "length (filter (owns w) (sm_cmd (eg_short e1))) \<le> 1" using owner_unique by (auto simp: owners_def)
      then have u: "y = q" if "y \<in> set (sm_cmd (eg_short e1))" "owns w y" for y
      proof -
        have "y \<in> set (filter (owns w) (sm_cmd (eg_short e1)))" "q \<in> set (filter (owns w) (sm_cmd (eg_short e1)))" using that q by auto
        with \<open>length (filter (owns w) (sm_cmd (eg_short e1))) \<le> 1\<close> show ?thesis by (cases "filter (owns w) (sm_cmd (eg_short e1))") auto
      qed
      obtain x where x: "x \<in> set (served w e)" "tp_task x = tp_task q" using same [OF q] by blast
      have ht: "ht = fst (fst (ci_resp V (mt_taskid (tp_task x)) body (eg_client e)))"
        using b cl x(2) by (auto simp: call_Buf2Resp_def case_prod_unfold Let_def)
      have "mt_need_authed (tp_task q)" if "ht = kTaskFailHandleSessionTimeout"
        using assms(2) True x ht that by (auto simp: kept_waiting_def list_ex_iff)
      then have "ht = kTaskFailHandleSessionTimeout \<Longrightarrow> \<forall>y \<in> set (sm_cmd (eg_short e2)). owns w y \<longrightarrow> mt_need_authed (tp_task y)"
        using u L by auto
      moreover have "owners e2" "w \<le> workers e2" using p2 o w by (auto simp: progress_def hires_def)
      ultimately have "served w (short_decoded V k w q body ht ec e2) = []" by (intro decoded_served)
      then show ?thesis by (simp add: R Some b)
    qed
  qed
qed

lemma served_nothing:
  assumes "served w e = []"
  shows "net_step V e (k, EvShortResponse w et st body b) = e \<and> net_step V e (k, EvShortSend w) = e \<and> net_step V e (k, EvShortRecv w x y) = e"
proof -
  have "find (owns w) (sm_cmd (eg_short e)) = None" using assms by (simp add: served_def find_None_iff filter_empty_conv)
  then show ?thesis by (auto simp: Short_OnResponse_def Short_OnSend_def Short_OnRecv_def short_edit_def visit_first_none set_short_def)
qed

lemma ended_served:
  assumes "net_inv e" "w \<le> workers e" "ev \<in> {EvClear, EvRedo, EvNetworkChange}"
  shows "served w (net_step V e (k, ev)) = []"
proof -
  have o: "owners e" using assms(1) by (simp add: net_inv_def)
  have "served w (NC_ClearTasks e) = []" by (simp add: NC_ClearTasks_def Short_ClearTasks_def served_def set_short_def)
  moreover have "served w (NC_RedoTasks V k e) = []"
  proof -
    define e1 where "e1 = Zombie_RedoTasks V k (Long_RedoTasks V k ((disconnect e)\<lparr> eg_link := snd (snd (LL_MakeSureConnected (eg_link (disconnect e)))) \<rparr>))"
    have "progress V e e1" unfolding e1_def
      by (rule progress_trans [OF progress_trans [OF _ progress_Long_RedoTasks] progress_Zombie_RedoTasks]) simp
    then have "owners e1" "w \<le> workers e1" using o assms(2) by (auto simp: progress_def hires_def)
    then show ?thesis using redo_served by (simp add: NC_RedoTasks_def Let_def e1_def)
  qed
  moreover have "served w (NC_OnNetworkChange V k e) = []"
  proof -
    obtain started lk where m: "Monitor_NetworkChange (tk_now k) (tk_net k) (eg_active e) (eg_link e) = (started, lk)" by force
    define e0 where "e0 = e\<lparr> eg_dyn := ResetStatus (eg_dyn e), eg_link := lk \<rparr>"
    define e1 where "e1 = Zombie_RedoTasks V k (if started then Long_RedoTasks V k e0 else e0)"
    have "progress V e e0" by (simp add: e0_def)
    then have "progress V e e1" unfolding e1_def
      by (cases started) (simp_all add: progress_trans [OF _ progress_Zombie_RedoTasks] progress_trans [OF _ progress_Long_RedoTasks])
    then have "owners e1" "w \<le> workers e1" using o assms(2) by (auto simp: progress_def hires_def)
    then have "served w (Short_RedoTasks V k e1) = []" by (rule redo_served)
    then show ?thesis using m by (cases started) (simp_all add: NC_OnNetworkChange_def Let_def e1_def e0_def served_def)
  qed
  ultimately show ?thesis using assms(3) by auto
qed

text \<open>C22: A worker serves one task at most. When its answer is handled, when its attempt is given up because of a timeout,
  when tasks are redone, cleared or started anew on another network, it serves none, with one exception: a task that needs no login
  and whose answer the client takes for an expired session keeps its worker until its timeout. A worker
  that serves no task never serves one again, whatever happens, and messages with its number then change nothing. A number
  stands for one worker; in the code it is the address of the object, so a message that comes late from a deleted worker
  whose memory has been used again is a message of the new worker here, and may come with any content.\<close>

theorem answers_reach_their_task:
  assumes "e = run_events (net_step V) (NetCore t0 c) es" "w \<le> workers e"
  shows "length (served w e) \<le> 1
    \<and> (kept_waiting V w et body e \<or> served w (net_step V e (k, EvShortResponse w et st body b)) = [])
    \<and> (list_ex (\<lambda>p. short_timeout_code k p \<noteq> None) (served w e) \<longrightarrow> served w (net_step V e (k, EvShortLoop)) = [])
    \<and> (\<forall>ev \<in> {EvClear, EvRedo, EvNetworkChange}. served w (net_step V e (k, ev)) = [])
    \<and> (served w e = [] \<longrightarrow> (let e' = run_events (net_step V) e es' in served w e' = []
        \<and> net_step V e' (k', EvShortResponse w et st body b) = e' \<and> net_step V e' (k', EvShortSend w) = e' \<and> net_step V e' (k', EvShortRecv w x y) = e'))"
proof -
  have n: "net_inv e" using net_run_inv [of V t0 c es] by (simp add: assms(1))
  then have o: "own_workers (workers e) (sm_cmd (eg_short e))" by (simp add: net_inv_def owners_def)
  have "length (served w e) \<le> 1" using owner_unique [OF o] by (simp add: served_def)
  moreover have "kept_waiting V w et body e \<or> served w (net_step V e (k, EvShortResponse w et st body b)) = []" using response_served [OF n, of V w et body k st b] by auto
  moreover have "served w (net_step V e (k, EvShortLoop)) = []" if "list_ex (\<lambda>p. short_timeout_code k p \<noteq> None) (served w e)"
    using that timeout_served [of e _ w k V] n by (auto simp: list_ex_iff served_def net_inv_def)
  moreover have "\<forall>ev \<in> {EvClear, EvRedo, EvNetworkChange}. served w (net_step V e (k, ev)) = []" using ended_served [OF n assms(2)] by blast
  moreover have "let e' = run_events (net_step V) e es' in served w e' = []
      \<and> net_step V e' (k', EvShortResponse w et st body b) = e' \<and> net_step V e' (k', EvShortSend w) = e' \<and> net_step V e' (k', EvShortRecv w x y) = e'"
    if "served w e = []"
    using served_nothing [OF served_run [OF n assms(2) that]] served_run [OF n assms(2) that] by (simp add: Let_def)
  ultimately show ?thesis by blast
qed

theorem answers_reach_their_task_witness:
  "let e = run_events (net_step quiet_client) (NetCore 500 ()) slow_task
   in map tp_running_id (served 1 e) = [1] \<and> served 1 (net_step quiet_client e (wifi_at 3000, EvShortResponse 1 kEctSocket 0 [] False)) = []"
proof -
  let ?e = "run_events (net_step quiet_client) (NetCore 500 ()) slow_task"
  have "map tp_running_id (served 1 ?e) = [1]" "workers ?e = 1" by code_simp+
  moreover have "\<not> kept_waiting quiet_client 1 kEctSocket [] ?e" by (simp add: kept_waiting_def)
  ultimately show ?thesis using answers_reach_their_task [where V = quiet_client and ?t0.0 = 500 and c = "()" and es = slow_task and w = 1
        and et = kEctSocket and body = "[]" and k = "wifi_at 3000" and st = 0 and b = False, OF refl] by (auto simp: Let_def)
qed

end
