(* ===== verification/Chat_System.thy ===== *)
theory Chat_System imports Client Net_Core begin

text \<open>
  The chat client on the network engine: the callbacks of \<^verbatim>\<open>stn_callback.cpp\<close> and
  \<^verbatim>\<open>NetworkService.cpp\<close> are the engine's client, and the tasks the client starts become start messages
  of the engine. The theorem says that the task table of the client and the engine agree at all times.
\<close>

section \<open>The client as the engine sees it\<close>

text \<open>\<^verbatim>\<open>NetworkService::startTask\<close> fills a \<^verbatim>\<open>Task\<close> with the members of the client's task.\<close>

definition hand_over :: "env \<Rightarrow> stn_task \<Rightarrow> mtask" where
  "hand_over V t = (new_mtask (st_taskid t))\<lparr> mt_cmdid := known V (st_cmdid t),
     mt_channel_select := (case st_channel_select t of None \<Rightarrow> e_uninit V | Some c \<Rightarrow> of_nat (channel_num c)),
     mt_cgi := st_cgi t, mt_send_only := st_send_only t, mt_shortlink_host_list := st_shortlink_host_list t \<rparr>"

text \<open>\<^verbatim>\<open>StnCallBack\<close> forwards to \<^verbatim>\<open>NetworkService\<close>. The client is a process that may have ended with a fault;
  a dead process answers nothing.\<close>

definition sdk_Req2Buf :: "env \<Rightarrow> dword \<Rightarrow> proc res \<Rightarrow> (bool \<times> bytes option \<times> int) \<times> proc res" where
  "sdk_Req2Buf V tid c =
     (case and_then c (NS_Req2Buf V tid new_buffer) of
        Inl f \<Rightarrow> ((False, None, 0), Inl f)
      | Inr (b, out, p) \<Rightarrow> ((b, (if ab_mem out = None then None else Some (data out)), 0), ok p))"

definition sdk_Buf2Resp :: "env \<Rightarrow> dword \<Rightarrow> bytes \<Rightarrow> proc res \<Rightarrow> (int \<times> int) \<times> proc res" where
  "sdk_Buf2Resp V tid body c =
     (case and_then c (NS_Buf2Resp V tid body 0) of
        Inl f \<Rightarrow> ((kTaskFailHandleNoError, 0), Inl f)
      | Inr (handle_type, error_code, p) \<Rightarrow> ((handle_type, error_code), ok p))"

definition sdk_OnTaskEnd :: "env \<Rightarrow> dword \<Rightarrow> proc res \<Rightarrow> int \<times> proc res" where
  "sdk_OnTaskEnd V tid c = (0, and_then c (\<lambda>p. ok (NS_OnTaskEnd V tid p)))"

definition sdk_OnPush :: "env \<Rightarrow> proc res \<Rightarrow> proc res" where
  "sdk_OnPush V c = and_then c (NS_OnPush V)"

definition StnCallBack :: "env \<Rightarrow> dword \<Rightarrow> proc res client_if" where
  "StnCallBack V ver = \<lparr> ci_req = sdk_Req2Buf V, ci_resp = sdk_Buf2Resp V, ci_end = (\<lambda>tid _ _. sdk_OnTaskEnd V tid),
     ci_push = (\<lambda>_ _. sdk_OnPush V), ci_authed = MakesureAuthed, ci_version = ver \<rparr>"

section \<open>The system\<close>

text \<open>The tasks the client has started and the engine has not yet been told of; every call of the engine
  posts a start message for each.\<close>

definition pump :: "env \<Rightarrow> dword \<Rightarrow> tick \<Rightarrow> proc res engine \<Rightarrow> proc res engine" where
  "pump V ver k e =
     (case eg_client e of
        Inl _ \<Rightarrow> e
      | Inr p \<Rightarrow> run_events (net_step (StnCallBack V ver)) e
          (map (\<lambda>t. (k, EvStart (hand_over V t))) (drop (length (eg_started e)) (p_started p))))"

datatype chat_event = Net net_event | Api api_call | Timer

text \<open>Start messages come from the client only.\<close>

definition chat_step :: "env \<Rightarrow> dword \<Rightarrow> proc res engine \<Rightarrow> tick \<times> chat_event \<Rightarrow> proc res engine" where
  "chat_step V ver e x =
     (case x of (k, ev) \<Rightarrow>
        pump V ver k
          (case ev of
             Net ev \<Rightarrow> if start_event ev = [] then net_step (StnCallBack V ver) e (k, ev) else e
           | Api c \<Rightarrow> e\<lparr> eg_client := and_then (eg_client e) (api V c) \<rparr>
           | Timer \<Rightarrow> e\<lparr> eg_client := and_then (eg_client e) (\<lambda>p. ok (RequestSync p)) \<rparr>))"

definition chat0 :: "qword \<Rightarrow> dword \<Rightarrow> proc res engine" where
  "chat0 t0 cv = NetCore t0 (ok (proc0 cv))"

section \<open>Every call of the client keeps track of its tasks\<close>

lemma quiet_tracks: "quiet p p' \<Longrightarrow> tracks p p'"
  by (simp add: quiet_def)

lemma NewSync_tracks: "tracks p (NewSync p)"
  using start_tracks [of "p\<lparr> s_bSyncing := True \<rparr>" NewSync_task False]
  by (simp add: NewSync_def IsSyncing_def tracks_flags) (simp add: tracks_def serial_def)

lemma ui_tracks: "ui_effect p p' \<Longrightarrow> tracks p p'"
  by (auto simp: ui_effect_def intro: quiet_tracks tracks_trans NewSync_tracks)

lemma callback_tracks: "DoCallBack (with_ui V) r c i e p = ok p' \<Longrightarrow> tracks p p'"
  using outcomeD [OF do_callback_effect] ui_tracks by blast

lemma change_tracks: "tid \<in> dom (map_task p) \<Longrightarrow> tracks p (p\<lparr> map_task := (map_task p)(tid \<mapsto> t) \<rparr>)"
  by (auto simp: tracks_def serial_def)

lemma request_tracks: "NS_Req2Buf V tid b p = ok (s, out, p') \<Longrightarrow> tracks p p'"
proof (cases "map_task p tid")
  case None
  then show "NS_Req2Buf V tid b p = ok (s, out, p') \<Longrightarrow> tracks p p'" by (simp add: NS_Req2Buf_def)
next
  case (Some t)
  assume "NS_Req2Buf V tid b p = ok (s, out, p')"
  then obtain t' q where q: "task_Req2Buf V t b p = ok (s, t', out, q)" "p' = q\<lparr> map_task := (map_task q)(tid \<mapsto> t') \<rparr>"
    using Some by (auto simp: NS_Req2Buf_def and_then_ok_iff)
  from outcomeD [OF task_req_net q(1)] have n: "same_net p q" by simp
  then have "tid \<in> dom (map_task q)" using Some by (auto simp: same_net_def)
  then show "tracks p p'" using tracks_trans [OF same_net_tracks [OF n] change_tracks] q(2) by simp
qed

lemma task_resp_tracks:
  assumes "task_Buf2Resp V t d e p = ok (e', t', p')"
  shows "tracks p p'"
proof (cases "t_class t = NewSyncCGITask")
  case True
  then obtain r h where "NewSync_Buf2Resp V d (t_hdr t) p = ok (e', r, h, p')"
    using assms by (auto simp: task_Buf2Resp_def and_then_ok_iff Let_def)
  from outcomeD [OF sync_net this] obtain q where q: "same_net p q" "p' = q \<or> p' = ReportSyncKV q" by auto
  have "tracks q (ReportSyncKV q)" by (simp add: ReportSyncKV_def start_tracks)
  with tracks_trans [OF same_net_tracks [OF q(1)]] show ?thesis using q(2) same_net_tracks [OF q(1)] by auto
next
  case False
  from outcomeD [OF task_resp_quiet [OF this] assms] show ?thesis by (auto intro: quiet_tracks)
qed

lemma answer_tracks: "NS_Buf2Resp (with_ui V) tid d e p = ok (h, e', p') \<Longrightarrow> tracks p p'"
proof (cases "map_task p tid")
  case None
  then show "NS_Buf2Resp (with_ui V) tid d e p = ok (h, e', p') \<Longrightarrow> tracks p p'" by (simp add: NS_Buf2Resp_def)
next
  case (Some t)
  assume "NS_Buf2Resp (with_ui V) tid d e p = ok (h, e', p')"
  then obtain t1 p1 where 1: "task_Buf2Resp (with_ui V) t d e p = ok (e', t1, p1)"
    and 2: "DoCallBack (with_ui V) (m_res t1) (t_cgitype t1) (t_taskid t1) e'
        (p1\<lparr> map_task := (if map_task p1 tid = Some t then (map_task p1)(tid \<mapsto> t1) else map_task p1) \<rparr>) = ok p'"
    using Some by (auto simp: NS_Buf2Resp_def and_then_ok_iff Let_def)
  let ?q = "p1\<lparr> map_task := (if map_task p1 tid = Some t then (map_task p1)(tid \<mapsto> t1) else map_task p1) \<rparr>"
  have "tracks p1 ?q" using change_tracks [of tid p1 t1] by auto
  with task_resp_tracks [OF 1] callback_tracks [OF 2] show "tracks p p'" by (blast intro: tracks_trans)
qed

lemma push_tracks: "NS_OnPush V p = ok p' \<Longrightarrow> tracks p p'"
  using outcomeD [OF GetSyncKey_net]
  by (auto simp: NS_OnPush_def and_then_ok_iff intro: tracks_trans [OF same_net_tracks NewSync_tracks] same_net_tracks split: if_splits)

lemma end_tracks:
  "tracks (p\<lparr> map_task := (map_task p)(tid := None) \<rparr>) (NS_OnTaskEnd V tid p)"
proof -
  let ?p = "p\<lparr> map_task := (map_task p)(tid := None) \<rparr>"
  have "tracks ?p (snd (startTask NewSync_task False (?p\<lparr> s_bSyncing := a, s_bNeedReSync := b \<rparr>)))" for a b
    using start_tracks [of "?p\<lparr> s_bSyncing := a, s_bNeedReSync := b \<rparr>" NewSync_task False] by (simp add: tracks_def)
  moreover have "tracks ?p (?p\<lparr> s_bSyncing := a, s_bNeedReSync := b \<rparr>)" for a b by (simp add: tracks_def serial_def)
  ultimately show ?thesis
    by (auto simp: NS_OnTaskEnd_def Let_def IsNeedReSync_def tracks_def serial_def split: prod.splits)
qed

lemma startTask_api_tracks:
  "tracks p (snd (Login u w p))" "tracks p (RecvMobileVerifyCode p)" "tracks p (snd (SendMobileVerifyCode u p))"
  "tracks p (IsNeedVerify u p)" "tracks p (snd (NewInit p))" "tracks p (NewSendMsg u w p)" "tracks p (SearchContact u p)"
  "tracks p (AddNewFriend u w g p)"
  by (simp_all add: Login_def RecvMobileVerifyCode_def SendMobileVerifyCode_def IsNeedVerify_def NewInit_def NewSendMsg_def
      SearchContact_def AddNewFriend_def start_tracks)

lemma load_tracks:
  "outcome (tracks p) (LoadContact (with_ui V) p)" "outcome (tracks p) (LoadMsgRecord (with_ui V) p)"
proof -
  have c: "outcome (tracks q) (DoCallBack (with_ui V) r c i e q)" for q r c i e
    by (rule outcome_mono [OF do_callback_effect ui_tracks])
  show "outcome (tracks p) (LoadContact (with_ui V) p)" "outcome (tracks p) (LoadMsgRecord (with_ui V) p)"
    unfolding LoadContact_def LoadMsgRecord_def Let_def
    by (intro outcome_rules; rule outcome_mono [OF c];
        auto dest!: db_exec_only same_net_db intro: tracks_trans [OF same_net_tracks])+
qed

lemma LoadFromDB_tracks: "outcome (tracks p) (LoadFromDB (with_ui V) p)"
proof -
  have c: "db_only q (ClearDB V' q)" for V' q
  proof -
    have e: "(case db_exec V' st q1 of (_, _, r) \<Rightarrow> f r) = f (snd (snd (db_exec V' st q1)))" for st q1 and f :: "proc \<Rightarrow> proc"
      by (simp split: prod.split)
    show ?thesis unfolding ClearDB_def Let_def e
      by (rule db_only_trans [OF db_only_trans [OF db_exec_state db_exec_state] db_exec_state])
  qed
  have i: "tracks p q" if "GetSyncKey V' (p\<lparr> p_db := x \<rparr>) = ok (k, q)" for V' x k q
    using outcomeD [OF GetSyncKey_net that] by (intro same_net_tracks) (simp add: same_net_def)
  show ?thesis
    unfolding LoadFromDB_def Let_def
  proof (intro outcome_rules, goal_cases)
    case (1 x k q)
    then have "tracks p q" using i by blast
    then show ?case
      using tracks_trans [OF tracks_trans [OF _ same_net_tracks [OF same_net_db [OF c]]] startTask_api_tracks(5)] by simp
  next
    case (2 x k q q')
    then have "tracks p q" "tracks q q'" using i outcomeD [OF load_tracks(1)] by blast+
    then show ?case by (intro outcome_mono [OF load_tracks(2)]) (rule tracks_trans [OF tracks_trans])
  qed
qed

lemma api_tracks: "api (with_ui V) c p = ok p' \<Longrightarrow> tracks p p'"
  using outcomeD [OF LoadFromDB_tracks [of p V]] startTask_api_tracks NewSync_tracks
  by (auto simp: api_def split: api_call.splits)

section \<open>The link between the table and the engine\<close>

definition task_ids :: "proc \<Rightarrow> dword list" where
  "task_ids p = map st_taskid (p_started p)"

text \<open>Ids are dealt out in turn from 1; before they wrap around, the table holds the tasks that have not
  ended. \<open>S\<close> are the tasks the engine knows, \<open>l\<close> those it has ended.\<close>

definition linked :: "dword list \<Rightarrow> proc res \<Rightarrow> dword list \<Rightarrow> bool" where
  "linked S c l \<longleftrightarrow> (\<forall>p. c = Inr p \<longrightarrow>
     task_ids p = serial 1 (length (p_started p)) \<and> gs_taskid p = 1 + of_nat (length (p_started p))
     \<and> take (length S) (task_ids p) = S \<and> set l \<subseteq> set S
     \<and> (length (p_started p) < 2 ^ 32 \<longrightarrow> dom (map_task p) = set (task_ids p) - set l))"

lemma distinct_serial: "n < 2 ^ 32 \<Longrightarrow> distinct (serial g n)"
proof -
  assume n: "n < 2 ^ 32"
  have "i = j" if ij: "i < n" "j < n" and eq: "(of_nat i :: dword) = of_nat j" for i j
  proof -
    have "unat (of_nat i :: dword) = i" "unat (of_nat j :: dword) = j" using ij n by (simp_all add: unat_of_nat take_bit_nat_eq_self)
    then show ?thesis using eq by metis
  qed
  then have "inj_on (\<lambda>i. g + of_nat i) {0..<n}" by (auto intro: inj_onI)
  then show ?thesis by (simp add: serial_def distinct_map)
qed

lemma linked_dead: "linked S (Inl f) l"
  by (simp add: linked_def)

lemma linked_tracks:
  assumes "linked S (Inr p) l" "tracks p q"
  shows "linked S (Inr q) l"
proof -
  obtain new where n: "p_started q = p_started p @ new" "map st_taskid new = serial (gs_taskid p) (length new)"
      "gs_taskid q = gs_taskid p + of_nat (length new)" "dom (map_task q) = dom (map_task p) \<union> set (map st_taskid new)"
    using assms(2) unfolding tracks_def by blast
  have p: "task_ids p = serial 1 (length (p_started p))" "gs_taskid p = 1 + of_nat (length (p_started p))"
      "take (length S) (task_ids p) = S" "set l \<subseteq> set S"
    and d: "length (p_started p) < 2 ^ 32 \<Longrightarrow> dom (map_task p) = set (task_ids p) - set l"
    using assms(1) [unfolded linked_def, THEN spec, THEN mp, OF refl] by blast+
  have ids: "task_ids q = task_ids p @ map st_taskid new" by (simp add: task_ids_def n(1))
  have ser: "task_ids q = serial 1 (length (p_started q))"
    using p(1,2) n(1,2) by (simp add: ids serial_add)
  have "length S \<le> length (task_ids p)" using p(3) by (metis length_take min.cobounded1 min_def)
  then have "take (length S) (task_ids q) = S" using p(3) by (simp add: ids)
  moreover have "dom (map_task q) = set (task_ids q) - set l" if len: "length (p_started q) < 2 ^ 32"
  proof -
    have "distinct (task_ids q)" unfolding ser by (rule distinct_serial [OF len])
    then have "set (map st_taskid new) \<inter> set (task_ids p) = {}" by (auto simp: ids)
    moreover have "set l \<subseteq> set (task_ids p)" using p(3,4) by (metis order_trans set_take_subset)
    ultimately have "set (map st_taskid new) \<inter> set l = {}" by blast
    moreover have "dom (map_task p) = set (task_ids p) - set l" using d len by (simp add: n(1))
    ultimately show ?thesis by (auto simp: n(4) ids)
  qed
  ultimately show ?thesis using ser p(2,4) n by (simp add: linked_def)
qed

lemma linked_step:
  "linked S c l \<Longrightarrow> (\<And>p q. c = Inr p \<Longrightarrow> f p = ok q \<Longrightarrow> tracks p q) \<Longrightarrow> linked S (and_then c f) l"
proof (cases "and_then c f")
  case (Inl x)
  then show ?thesis by (simp add: linked_dead)
next
  case (Inr q)
  then obtain p where "c = Inr p" "f p = ok q" by (auto simp: and_then_ok_iff)
  moreover assume "linked S c l" "\<And>p q. c = Inr p \<Longrightarrow> f p = ok q \<Longrightarrow> tracks p q"
  ultimately show ?thesis using Inr linked_tracks by simp
qed

lemma linked_end:
  assumes "linked S (Inr p) l" "i \<in> set S"
  shows "linked S (Inr (NS_OnTaskEnd V i p)) (l @ [i])"
proof (rule linked_tracks [OF _ end_tracks])
  show "linked S (Inr (p\<lparr> map_task := (map_task p)(i := None) \<rparr>)) (l @ [i])"
    using assms by (auto simp: linked_def task_ids_def)
qed

lemma client_keeps_linked: "client_keeps (StnCallBack (with_ui V) ver) (set S) (linked S)"
proof -
  have req: "linked S (snd (sdk_Req2Buf (with_ui V) i c)) l" if "linked S c l" for i c l
  proof (cases "and_then c (NS_Req2Buf (with_ui V) i new_buffer)")
    case (Inl f)
    then show ?thesis by (simp add: sdk_Req2Buf_def linked_dead)
  next
    case (Inr r)
    obtain b out q where r: "r = (b, out, q)" by (cases r)
    obtain p where "c = Inr p" "NS_Req2Buf (with_ui V) i new_buffer p = ok (b, out, q)"
      using Inr r by (auto simp: and_then_ok_iff)
    then show ?thesis using that Inr r linked_tracks request_tracks by (auto simp: sdk_Req2Buf_def)
  qed
  have resp: "linked S (snd (sdk_Buf2Resp (with_ui V) i b c)) l" if "linked S c l" for i b c l
  proof (cases "and_then c (NS_Buf2Resp (with_ui V) i b 0)")
    case (Inl f)
    then show ?thesis by (simp add: sdk_Buf2Resp_def linked_dead)
  next
    case (Inr r)
    obtain h e q where r: "r = (h, e, q)" by (cases r)
    obtain p where "c = Inr p" "NS_Buf2Resp (with_ui V) i b 0 p = ok (h, e, q)"
      using Inr r by (auto simp: and_then_ok_iff)
    then show ?thesis using that Inr r linked_tracks answer_tracks by (auto simp: sdk_Buf2Resp_def)
  qed
  have push: "linked S (sdk_OnPush (with_ui V) c) l" if "linked S c l" for c l
    unfolding sdk_OnPush_def using that by (rule linked_step) (rule push_tracks)
  have fin: "linked S (snd (sdk_OnTaskEnd (with_ui V) i c)) (l @ [i])" if "i \<in> set S" "linked S c l" for i c l
    using that linked_end linked_dead by (cases c) (auto simp: sdk_OnTaskEnd_def and_then_def)
  from req resp push fin show ?thesis by (simp add: client_keeps_def StnCallBack_def)
qed

section \<open>The system's invariant\<close>

definition chat_inv :: "proc res engine \<Rightarrow> bool" where
  "chat_inv e \<longleftrightarrow> net_inv e \<and> linked (eg_started e) (eg_client e) (map fst (eg_ended e))
     \<and> (\<forall>p. eg_client e = Inr p \<longrightarrow> task_ids p = eg_started e)"

lemma starts_keep:
  "eg_client (run_events (net_step W) e (map (\<lambda>t. (k, EvStart (f t))) ts)) = eg_client e
   \<and> eg_ended (run_events (net_step W) e (map (\<lambda>t. (k, EvStart (f t))) ts)) = eg_ended e"
  by (induction ts arbitrary: e) (simp_all add: post_start_def)

lemma pump_inv:
  assumes "net_inv e" "linked (eg_started e) (eg_client e) (map fst (eg_ended e))"
  shows "chat_inv (pump V ver k e)"
proof (cases "eg_client e")
  case (Inl f)
  then show ?thesis using assms by (simp add: pump_def chat_inv_def)
next
  case (Inr p)
  let ?S = "eg_started e"
  let ?es = "map (\<lambda>t. (k, EvStart (hand_over V t))) (drop (length ?S) (p_started p))"
  let ?e = "run_events (net_step (StnCallBack V ver)) e ?es"
  have e: "pump V ver k e = ?e" using Inr by (simp add: pump_def)
  have keep: "eg_client ?e = Inr p" "eg_ended ?e = eg_ended e"
    using starts_keep [of "StnCallBack V ver" e k "hand_over V"] Inr by simp_all
  have l: "take (length ?S) (task_ids p) = ?S" "set (map fst (eg_ended e)) \<subseteq> set ?S"
    using assms(2) [unfolded linked_def, THEN spec, THEN mp, OF Inr] by blast+
  have "started_ids ?es = drop (length ?S) (task_ids p)"
    by (simp add: started_ids_def task_ids_def hand_over_def new_mtask_def drop_map comp_def)
  then have started: "eg_started ?e = task_ids p"
    using l(1) append_take_drop_id [of "length ?S" "task_ids p"] by (simp add: eg_started_run)
  have "set ?S \<subseteq> set (task_ids p)" using l(1) by (metis set_take_subset)
  then have "linked (task_ids p) (Inr p) (map fst (eg_ended e))"
    using assms(2) l(2) by (auto simp: linked_def Inr)
  then show ?thesis using net.run_inv [OF assms(1)] keep started by (simp add: chat_inv_def e)
qed

lemma chat_step_inv:
  assumes "chat_inv e"
  shows "chat_inv (chat_step (with_ui V) ver e (k, ev))"
proof -
  let ?W = "StnCallBack (with_ui V) ver"
  have i: "net_inv e" "linked (eg_started e) (eg_client e) (map fst (eg_ended e))" using assms by (simp_all add: chat_inv_def)
  have b: "set_mset (books e) \<subseteq> set (eg_started e)" using i(1) by (simp add: net_inv_def)
  have n: "chat_inv (pump (with_ui V) ver k (net_step ?W e (k, x)))" if "start_event x = []" for x
  proof (rule pump_inv)
    show "net_inv (net_step ?W e (k, x))" using net_step_facts i(1) by blast
    have "client_rel ?W (books e) e (net_step ?W e (k, x))" using net_step_facts by blast
    then have "linked (eg_started e) (eg_client (net_step ?W e (k, x))) (map fst (eg_ended (net_step ?W e (k, x))))"
      using client_keeps_linked b i(2) unfolding client_rel_def by blast
    moreover have "eg_started (net_step ?W e (k, x)) = eg_started e" using net_step_facts [of ?W e k x] that by simp
    ultimately show "linked (eg_started (net_step ?W e (k, x))) (eg_client (net_step ?W e (k, x))) (map fst (eg_ended (net_step ?W e (k, x))))"
      by simp
  qed
  have c: "chat_inv (pump (with_ui V) ver k (e\<lparr> eg_client := and_then (eg_client e) f \<rparr>))" if "\<And>p q. f p = ok q \<Longrightarrow> tracks p q" for f
  proof (rule pump_inv)
    show "net_inv (e\<lparr> eg_client := and_then (eg_client e) f \<rparr>)"
      using i(1) by (simp add: net_inv_def books_def outside_def profiles_def owners_def workers_def)
    show "linked (eg_started (e\<lparr> eg_client := and_then (eg_client e) f \<rparr>)) (eg_client (e\<lparr> eg_client := and_then (eg_client e) f \<rparr>))
        (map fst (eg_ended (e\<lparr> eg_client := and_then (eg_client e) f \<rparr>)))"
      using linked_step [OF i(2), of f] that by simp
  qed
  show ?thesis
  proof (cases ev)
    case (Net x)
    then show ?thesis using n pump_inv [OF i] by (simp add: chat_step_def)
  next
    case (Api a)
    then show ?thesis using c [of "api (with_ui V) a"] api_tracks by (simp add: chat_step_def)
  next
    case Timer
    then show ?thesis using c [of "\<lambda>p. ok (RequestSync p)"] by (auto simp: chat_step_def RequestSync_def NewSync_tracks)
  qed
qed

interpretation chat: machine "chat_step (with_ui V) ver" chat_inv for V ver
  by unfold_locales (metis chat_step_inv prod.collapse)

lemma chat0_inv: "chat_inv (chat0 t0 cv)"
  by (simp add: chat_inv_def chat0_def NetCore_def net_inv_def books_def outside_def profiles_def owners_def linked_def proc0_def
      task_ids_def serial_def)

text \<open>C1: The client's task table and the engine agree, in whatever order the user, the network, the
  timers and the clock act: as long as the process lives and has started fewer than 2^32 tasks, a task
  is in the table exactly as long as the engine still owes its end (or the client itself has asked to
  drop it, which the chat program never does). So no entry is left behind, and the engine never reports,
  asks or answers for a task the client has forgotten.\<close>

theorem table_matches_engine:
  assumes "e = run_events (chat_step (with_ui V) ver) (chat0 t0 cv) es" "eg_client e = Inr p" "length (p_started p) < 2 ^ 32"
  shows "dom (map_task p) = set (held_ids e) \<union> set (eg_dropped e) \<and> distinct (held_ids e @ map fst (eg_ended e) @ eg_dropped e)"
proof -
  have "chat_inv e" unfolding assms(1) by (rule chat.run_inv [OF chat0_inv])
  then have n: "net_inv e" and ids: "task_ids p = eg_started e"
    and l: "linked (eg_started e) (Inr p) (map fst (eg_ended e))"
    using assms(2) by (simp_all add: chat_inv_def)
  have ser: "task_ids p = serial 1 (length (p_started p))" and dom: "dom (map_task p) = set (task_ids p) - set (map fst (eg_ended e))"
    using l [unfolded linked_def, THEN spec, THEN mp, OF refl] assms(3) by blast+
  have "distinct (task_ids p)" unfolding ser by (rule distinct_serial [OF assms(3)])
  moreover have m: "mset (held_ids e @ map fst (eg_ended e) @ eg_dropped e) = mset (task_ids p)"
    using n books_places [of e] by (simp add: net_inv_def ids ac_simps)
  ultimately have d: "distinct (held_ids e @ map fst (eg_ended e) @ eg_dropped e)" using mset_eq_imp_distinct_iff by metis
  moreover have "set (held_ids e @ map fst (eg_ended e) @ eg_dropped e) = set (task_ids p)" using m mset_eq_setD by blast
  ultimately show ?thesis using dom by auto
qed

lemma one_sync:
  "eg_client (run_events (chat_step (with_ui sample_env) 7) (chat0 5 9) [(wifi_at 10, Api ApiSync)]) = Inr (NewSync (proc0 9))"
  "held_ids (run_events (chat_step (with_ui sample_env) 7) (chat0 5 9) [(wifi_at 10, Api ApiSync)]) = [1]"
  by (simp_all add: chat_step_def chat0_def NetCore_def api_def and_then_def pump_def NewSync_def IsSyncing_def proc0_def startTask_def
      Let_def post_start_def held_ids_def profiles_def hand_over_def new_mtask_def)

theorem table_matches_engine_witness:
  "let e = run_events (chat_step (with_ui sample_env) 7) (chat0 5 9) [(wifi_at 10, Api ApiSync)]; q = NewSync (proc0 9)
   in dom (map_task q) = set (held_ids e) \<union> set (eg_dropped e) \<and> held_ids e = [1]"
proof -
  have "length (p_started (NewSync (proc0 9))) < 2 ^ 32"
    by (simp add: NewSync_def IsSyncing_def proc0_def startTask_def Let_def)
  from table_matches_engine [OF refl one_sync(1) this] one_sync(2) show ?thesis by (simp add: Let_def)
qed

end
