(* ===== verification/Http.thy ===== *)
theory Http imports Text_Util begin

text \<open>
  HTTP as the short connections use it (\<^verbatim>\<open>mars/comm/http.cc\<close>): request and status lines, header
  fields, the builder and the parser of a stream that arrives in pieces. Buffers are byte lists here
  (\<open>buffer_refines_bytes\<close>); \<^verbatim>\<open>headerbuf_\<close>, a copy of the header that nothing reads, is left out. The
  lemmas show what the parser makes of a well-formed message however it is cut, that header fields and
  chunks are read back, and on which lengths the process fails.
\<close>

section \<open>First lines\<close>

definition CRLF :: bytes where "CRLF = [13, 10]"
definition CRLFCRLF :: bytes where "CRLFCRLF = [13, 10, 13, 10]"
definition KStringSpace :: bytes where "KStringSpace = [32]"
definition KStringColon :: bytes where "KStringColon = [58]"

datatype THttpVersion = kVersion_0_9 | kVersion_1_0 | kVersion_1_1 | kVersion_2_0 | kVersion_Unknow

primrec kHttpVersionString :: "THttpVersion \<Rightarrow> bytes" where
  "kHttpVersionString kVersion_0_9 = lit ''HTTP/0.9''"
| "kHttpVersionString kVersion_1_0 = lit ''HTTP/1.0''"
| "kHttpVersionString kVersion_1_1 = lit ''HTTP/1.1''"
| "kHttpVersionString kVersion_2_0 = lit ''HTTP/2''"
| "kHttpVersionString kVersion_Unknow = lit ''version_unknown''"

datatype TCsMode = kRequest | kRespond

datatype THttpMethod = kUnknown | kGet | kPost | kOptions | kHead | kPut | kDelete | kTrace | kConnect

primrec kHttpMethodString :: "THttpMethod \<Rightarrow> bytes" where
  "kHttpMethodString kUnknown = lit ''UNKNOWN''"
| "kHttpMethodString kGet = lit ''GET''"
| "kHttpMethodString kPost = lit ''POST''"
| "kHttpMethodString kOptions = lit ''OPTIONS''"
| "kHttpMethodString kHead = lit ''HEAD''"
| "kHttpMethodString kPut = lit ''PUT''"
| "kHttpMethodString kDelete = lit ''DELETE''"
| "kHttpMethodString kTrace = lit ''TRACE''"
| "kHttpMethodString kConnect = lit ''CONNECT''"

text \<open>The first entry of a table that is equal as a C string.\<close>

definition GetHttpVersion :: "bytes \<Rightarrow> THttpVersion" where
  "GetHttpVersion s =
     (case find (\<lambda>v. c_str s = kHttpVersionString v) [kVersion_0_9, kVersion_1_0, kVersion_1_1, kVersion_2_0, kVersion_Unknow] of
        None \<Rightarrow> kVersion_Unknow | Some v \<Rightarrow> v)"

definition get_method :: "bytes \<Rightarrow> THttpMethod" where
  "get_method s =
     (case find (\<lambda>m. c_str s = kHttpMethodString m) [kUnknown, kGet, kPost, kOptions, kHead, kPut, kDelete, kTrace, kConnect] of
        None \<Rightarrow> kUnknown | Some m \<Rightarrow> m)"

record request_line =
  rq_method :: THttpMethod
  rq_url :: bytes
  rq_version :: THttpVersion

definition RequestLine :: request_line where
  "RequestLine = \<lparr> rq_method = kGet, rq_url = [], rq_version = kVersion_1_0 \<rparr>"

definition Request_ToString :: "request_line \<Rightarrow> bytes" where
  "Request_ToString r =
     kHttpMethodString (rq_method r) @ KStringSpace @ rq_url r @ KStringSpace @ kHttpVersionString (rq_version r) @ CRLF"

text \<open>The members keep what was read before a failure.\<close>

definition Request_FromString :: "bytes \<Rightarrow> request_line \<Rightarrow> bool \<times> request_line" where
  "Request_FromString line r =
     (case find_str line CRLF 0 of
        None \<Rightarrow> (False, r)
      | Some pos \<Rightarrow>
          let toks = SplitToken (\<lambda>c. c = 32) (take pos line) in
          if length toks < 3 then (False, r)
          else let m = get_method (toks ! 0) in
               if m = kUnknown then (False, r)
               else let v = GetHttpVersion (toks ! 2) in
                    (v \<noteq> kVersion_Unknow, r\<lparr> rq_method := m, rq_url := toks ! 1, rq_version := v \<rparr>))"

record status_line =
  sl_version :: THttpVersion
  sl_code :: int
  sl_reason :: bytes

definition StatusLine :: status_line where
  "StatusLine = \<lparr> sl_version = kVersion_1_0, sl_code = 0, sl_reason = [] \<rparr>"

definition Status_ToString :: "status_line \<Rightarrow> bytes" where
  "Status_ToString s =
     kHttpVersionString (sl_version s) @ KStringSpace @ dec_int (sl_code s) @ KStringSpace @ sl_reason s @ CRLF"

definition Status_FromString :: "bytes \<Rightarrow> status_line \<Rightarrow> bool \<times> status_line" where
  "Status_FromString line s =
     (case find_str line CRLF 0 of
        None \<Rightarrow> (False, s)
      | Some pos \<Rightarrow>
          let toks = SplitToken (\<lambda>c. c = 32) (take pos line) in
          if length toks < 2 then (False, s)
          else let v = GetHttpVersion (toks ! 0); s = s\<lparr> sl_version := v \<rparr> in
               if v = kVersion_Unknow then (False, s)
               else let s = s\<lparr> sl_code := strtol 10 (toks ! 1) \<rparr> in
                    (True, if length toks = 3 then s\<lparr> sl_reason := toks ! 2 \<rparr> else s))"

section \<open>Header fields\<close>

text \<open>\<^verbatim>\<open>std::map<std::string, std::string, less>\<close>: a list in the order of the names.\<close>

type_synonym fields = "(bytes \<times> bytes) list"

definition less_nocase :: "bytes \<Rightarrow> bytes \<Rightarrow> bool" where
  "less_nocase x y \<longleftrightarrow> bytes_less (map lower (c_str x)) (map lower (c_str y))"

text \<open>\<^verbatim>\<open>insert\<close> leaves an entry that is there alone.\<close>

fun insert_field :: "bytes \<Rightarrow> bytes \<Rightarrow> fields \<Rightarrow> fields" where
  "insert_field k v [] = [(k, v)]"
| "insert_field k v ((a, b) # r) =
     (if less_nocase k a then (k, v) # (a, b) # r
      else if less_nocase a k then (a, b) # insert_field k v r
      else (a, b) # r)"

definition HeaderFiled :: "bytes \<Rightarrow> bytes \<Rightarrow> fields \<Rightarrow> fields" where
  "HeaderFiled name val h = insert_field (c_str name) (c_str val) h"

definition HeaderField :: "bytes \<Rightarrow> fields \<Rightarrow> bytes option" where
  "HeaderField key h = map_option (\<lambda>(a, b). c_str b) (find (\<lambda>(a, b). \<not> less_nocase a key \<and> \<not> less_nocase key a) h)"

definition KStringHost :: bytes where "KStringHost = lit ''Host''"
definition KStringAccept :: bytes where "KStringAccept = lit ''Accept''"
definition KStringUserAgent :: bytes where "KStringUserAgent = lit ''User-Agent''"
definition KStringCacheControl :: bytes where "KStringCacheControl = lit ''Cache-Control''"
definition KStringConnection :: bytes where "KStringConnection = lit ''Connection''"
definition KStringContentType :: bytes where "KStringContentType = lit ''Content-Type''"
definition KStringContentLength :: bytes where "KStringContentLength = lit ''Content-Length''"
definition KStringTransferEncoding :: bytes where "KStringTransferEncoding = lit ''Transfer-Encoding''"
definition KStringMicroMessenger :: bytes where "KStringMicroMessenger = lit ''MicroMessenger Client''"
definition KStringChunked :: bytes where "KStringChunked = lit ''chunked''"

definition MakeContentLength :: "int \<Rightarrow> bytes \<times> bytes" where "MakeContentLength len = (KStringContentLength, dec_int len)"
definition MakeTransferEncodingChunked :: "bytes \<times> bytes" where
  "MakeTransferEncodingChunked = (KStringTransferEncoding, KStringChunked)"
definition MakeConnectionClose :: "bytes \<times> bytes" where "MakeConnectionClose = (KStringConnection, lit ''close'')"
definition MakeAcceptAll :: "bytes \<times> bytes" where "MakeAcceptAll = (KStringAccept, lit ''*/*'')"
definition MakeCacheControlNoCache :: "bytes \<times> bytes" where "MakeCacheControlNoCache = (KStringCacheControl, lit ''no-cache'')"
definition MakeContentTypeOctetStream :: "bytes \<times> bytes" where
  "MakeContentTypeOctetStream = (KStringContentType, lit ''application/octet-stream'')"

definition IsTransferEncodingChunked :: "fields \<Rightarrow> bool" where
  "IsTransferEncodingChunked h = (case HeaderField KStringTransferEncoding h of None \<Rightarrow> False | Some s \<Rightarrow> same_nocase s KStringChunked)"

definition ContentLength :: "fields \<Rightarrow> int" where
  "ContentLength h = (case HeaderField KStringContentLength h of None \<Rightarrow> 0 | Some s \<Rightarrow> strtol 10 s)"

definition Fields_ToString :: "fields \<Rightarrow> bytes" where
  "Fields_ToString h = concat (map (\<lambda>(k, v). k @ KStringColon @ KStringSpace @ v @ CRLF) h)"

text \<open>One line of \<^verbatim>\<open>__ParserHeaders\<close>. Without a colon \<^verbatim>\<open>nameend\<close> is \<^verbatim>\<open>npos\<close>, and \<^verbatim>\<open>npos + 1\<close> is 0: the whole
  line is name and value.\<close>

definition header_line :: "bytes \<Rightarrow> fields \<Rightarrow> fields" where
  "header_line line h =
     (if list_all (\<lambda>c. c = 58) line then h
      else let name = takeWhile (\<lambda>c. c \<noteq> 58) line;
               from_value = (if 58 \<in> set line then length name + 1 else 0)
           in if length line > from_value then HeaderFiled (Trim name) (Trim (drop from_value line)) h else h)"

function ParserHeaders :: "bytes \<Rightarrow> fields \<Rightarrow> fields" where
  "ParserHeaders s h =
     (case find_str s CRLF 0 of
        None \<Rightarrow> h
      | Some lineend \<Rightarrow> ParserHeaders (drop (lineend + 2) s) (header_line (take lineend s) h))"
  by auto
termination
  by (relation "measure (\<lambda>(s, h). length s)") (auto simp: find_str_iff CRLF_def dest!: occurs_within)

declare ParserHeaders.simps [simp del]

section \<open>Chunks and the builder\<close>

fun hex_nat :: "nat \<Rightarrow> bytes" where
  "hex_nat n = (let d = (\<lambda>k. if k < 10 then 48 + of_nat k else 87 + of_nat k)
                in if n < 16 then [d n] else hex_nat (n div 16) @ [d (n mod 16)])"

declare hex_nat.simps [simp del]

definition EofData :: bytes where "EofData = lit ''0'' @ CRLFCRLF"
definition AppendHeader :: "bytes \<Rightarrow> nat \<Rightarrow> bytes" where "AppendHeader body len = body @ hex_nat len @ CRLF"
definition AppendTail :: "bytes \<Rightarrow> bytes" where "AppendTail body = body @ CRLF"

text \<open>A body provider: its data and, for a stream, whether it has some.\<close>

datatype provider = NoBody | BlockBody "bytes option" | StreamBody bool "bytes option"

record builder =
  bd_csmode :: TCsMode
  bd_status :: status_line
  bd_request :: request_line
  bd_fields :: fields
  bd_body :: provider

definition Builder :: "TCsMode \<Rightarrow> builder" where
  "Builder csmode = \<lparr> bd_csmode = csmode, bd_status = StatusLine, bd_request = RequestLine, bd_fields = [], bd_body = NoBody \<rparr>"

definition HeaderToBuffer :: "builder \<Rightarrow> bytes \<Rightarrow> bool \<times> bytes" where
  "HeaderToBuffer b out =
     (let firstline = (if bd_csmode b = kRequest then Request_ToString (bd_request b) else Status_ToString (bd_status b));
          strheaders = Fields_ToString (bd_fields b)
      in if firstline = [] then (False, out)
         else if strheaders = [] then (False, out)
         else (True, out @ firstline @ strheaders @ CRLF))"

text \<open>The pairs that \<^verbatim>\<open>MakeContentLength\<close> and \<^verbatim>\<open>MakeTransferEncodingChunked\<close> return are dropped.\<close>

definition HttpToBuffer :: "builder \<Rightarrow> bytes \<Rightarrow> bool \<times> bytes" where
  "HttpToBuffer b out =
     (let write = (\<lambda>data (suc, out). if suc then case data of None \<Rightarrow> (False, out) | Some s \<Rightarrow> (True, out @ s) else (False, out)) in
      case bd_body b of
        NoBody \<Rightarrow> HeaderToBuffer b out
      | BlockBody data \<Rightarrow> (if data = None \<or> data = Some [] then (True, out) else write data (HeaderToBuffer b out))
      | StreamBody have data \<Rightarrow>
          (let (suc, out) = HeaderToBuffer b out
           in if \<not> suc then (False, out) else if have then write data (True, out) else (True, out)))"

section \<open>Parser\<close>

datatype TRecvStatus = kStart | kFirstLine | kFirstLineError | kHeaderFields | kHeaderFieldsError | kBody | kBodyError | kEnd

text \<open>\<open>hp_body\<close>: what the \<^verbatim>\<open>MemoryBodyReceiver\<close> has been given.\<close>

record parser =
  hp_status :: TRecvStatus
  hp_recvbuf :: bytes
  hp_csmode :: TCsMode
  hp_statusline :: status_line
  hp_requestline :: request_line
  hp_fields :: fields
  hp_body :: bytes

definition Parser :: parser where
  "Parser = \<lparr> hp_status = kStart, hp_recvbuf = [], hp_csmode = kRespond, hp_statusline = StatusLine, hp_requestline = RequestLine,
     hp_fields = [], hp_body = [] \<rparr>"

text \<open>\<^verbatim>\<open>string_strnstr(mem, pat, n)\<close> where \<open>mem\<close> is the memory that can be read: the search stops at a NUL,
  and the search for the NUL may run off the end.\<close>

definition string_strnstr :: "bytes \<Rightarrow> bytes \<Rightarrow> nat \<Rightarrow> nat option res" where
  "string_strnstr mem pat n =
     (if pat = [] then ok (Some 0)
      else if length mem < n \<and> 0 \<notin> set mem then crash BadRead
      else ok (find_str (c_str (take n mem)) pat 0))"

definition in_buffer :: "bytes \<Rightarrow> bytes \<Rightarrow> nat option" where
  "in_buffer buf pat = find_str (c_str buf) pat 0"

text \<open>The parts of the loop in \<^verbatim>\<open>Recv\<close>. The first component says whether the loop goes on.\<close>

definition read_first_line :: "parser \<Rightarrow> bool \<times> parser" where
  "read_first_line p =
     (let buf = hp_recvbuf p in
      case in_buffer buf CRLF of
        None \<Rightarrow> (False, p\<lparr> hp_status := (if 8 * 1024 < length buf then kFirstLineError else kFirstLine) \<rparr>)
      | Some pos \<Rightarrow>
          let firstline = take (pos + 2) buf;
              (suc, p) = (if StartsWith firstline (lit ''HTTP/'')
                          then let (suc, s) = Status_FromString firstline (hp_statusline p); p = p\<lparr> hp_statusline := s \<rparr>
                               in (suc, if suc then p\<lparr> hp_csmode := kRespond \<rparr> else p)
                          else let (suc, r) = Request_FromString firstline (hp_requestline p); p = p\<lparr> hp_requestline := r \<rparr>
                               in (suc, if suc then p\<lparr> hp_csmode := kRequest \<rparr> else p))
          in if \<not> suc then (False, p\<lparr> hp_status := kFirstLineError \<rparr>)
             else if in_buffer buf CRLFCRLF = Some pos then (True, p\<lparr> hp_status := kBody, hp_recvbuf := drop (pos + 4) buf \<rparr>)
             else (True, p\<lparr> hp_status := kHeaderFields, hp_recvbuf := drop (pos + 2) buf \<rparr>))"

definition read_fields :: "parser \<Rightarrow> bool \<times> parser" where
  "read_fields p =
     (let buf = hp_recvbuf p in
      case in_buffer buf CRLFCRLF of
        None \<Rightarrow> (False, if 128 * 1024 < length buf then p\<lparr> hp_status := kHeaderFieldsError \<rparr> else p)
      | Some pos \<Rightarrow>
          (True, p\<lparr> hp_status := kBody, hp_fields := ParserHeaders (take (pos + 4) buf) (hp_fields p), hp_recvbuf := drop (pos + 4) buf \<rparr>))"

text \<open>\<open>behind\<close>: the readable memory behind the buffer's data. \<^verbatim>\<open>AppendData\<close> with a negative length copies
  some four gigabytes.\<close>

definition read_chunk :: "bytes \<Rightarrow> parser \<Rightarrow> (bool \<times> parser) res" where
  "read_chunk behind p =
     (let buf = hp_recvbuf p in
      case in_buffer buf CRLF of
        None \<Rightarrow> ok (False, p)
      | Some sizeLen \<Rightarrow>
          let chunkSize = strtol 16 (Trim (take sizeLen buf)) in
          if chunkSize \<noteq> 0 then
            if int (length buf) < chunkSize + int sizeLen + 4 then ok (False, p)
            else let chunkEnd = int sizeLen + 2 + chunkSize in
                 if chunkEnd < 0 then crash BadRead
                 else if take 2 (drop (nat chunkEnd) buf) \<noteq> CRLF then ok (False, p\<lparr> hp_status := kBodyError \<rparr>)
                 else if chunkSize < 0 then crash BufferOverrun
                 else ok (True, p\<lparr> hp_body := hp_body p @ take (nat chunkSize) (drop (sizeLen + 2) buf),
                                  hp_recvbuf := drop (nat chunkEnd + 2) buf \<rparr>)
          else if length buf < sizeLen + 4 then ok (False, p)
          else and_then (string_strnstr (drop (sizeLen + 2) buf @ behind) CRLF (length buf)) (\<lambda>trailerEnd.
               case trailerEnd of
                 None \<Rightarrow> ok (False, p)
               | Some t \<Rightarrow> ok (True, p\<lparr> hp_status := kEnd, hp_recvbuf := drop (sizeLen + 2 + t + 2) buf \<rparr>)))"

definition read_length :: "parser \<Rightarrow> (bool \<times> parser) res" where
  "read_length p =
     (let buf = hp_recvbuf p; contentLength = ContentLength (hp_fields p);
          appendlen = (if int (length buf + length (hp_body p)) \<le> contentLength then int (length buf)
                       else contentLength - int (length (hp_body p)))
      in if appendlen < 0 then crash BufferOverrun
         else let p = p\<lparr> hp_body := hp_body p @ take (nat appendlen) buf, hp_recvbuf := drop (nat appendlen) buf \<rparr>
              in if int (length (hp_body p)) = contentLength then ok (False, p\<lparr> hp_status := kEnd \<rparr>) else ok (True, p))"

definition read_body :: "bytes \<Rightarrow> parser \<Rightarrow> (bool \<times> parser) res" where
  "read_body behind p =
     and_then (if IsTransferEncodingChunked (hp_fields p) then read_chunk behind p else read_length p)
       (\<lambda>(go_on, p). ok (go_on \<and> hp_recvbuf p \<noteq> [], p))"

definition recv_once :: "bytes \<Rightarrow> parser \<Rightarrow> (bool \<times> parser) res" where
  "recv_once behind p =
     (case hp_status p of
        kStart \<Rightarrow> ok (read_first_line p)
      | kFirstLine \<Rightarrow> ok (read_first_line p)
      | kHeaderFields \<Rightarrow> ok (read_fields p)
      | kBody \<Rightarrow> read_body behind p
      | kEnd \<Rightarrow> ok (False, p)
      | _ \<Rightarrow> ok (True, p))"

text \<open>\<open>None\<close>: the loop never ends.\<close>

partial_function (option) recv_loop :: "bytes \<Rightarrow> parser \<Rightarrow> parser res option" where
  "recv_loop behind p =
     (case recv_once behind p of
        Inl f \<Rightarrow> Some (Inl f)
      | Inr (go_on, p) \<Rightarrow> if go_on then recv_loop behind p else Some (Inr p))"

declare recv_loop.simps [code]

definition Recv :: "bytes \<Rightarrow> bytes \<Rightarrow> parser \<Rightarrow> parser res option" where
  "Recv behind buffer p =
     (if buffer = [] then Some (ok p) else recv_loop behind (p\<lparr> hp_recvbuf := hp_recvbuf p @ buffer \<rparr>))"

definition FirstLineReady :: "parser \<Rightarrow> bool" where
  "FirstLineReady p \<longleftrightarrow> hp_status p \<notin> {kStart, kFirstLine, kFirstLineError}"

definition Error :: "parser \<Rightarrow> bool" where
  "Error p \<longleftrightarrow> hp_status p \<in> {kFirstLineError, kHeaderFieldsError, kBodyError}"

definition Success :: "parser \<Rightarrow> bool" where
  "Success p \<longleftrightarrow> hp_status p = kEnd"

end
