(* ===== verification/Http_Laws.thy ===== *)
theory Http_Laws imports Http begin

text \<open>
  What the HTTP code of \<open>Http\<close> does: header fields and chunk sizes are read back as they were written,
  and the parser makes the same of a message however the stream is cut into pieces.
\<close>

section \<open>Numbers and texts\<close>

lemma hex_nat_read: "digits 16 (hex_nat n) \<and> hex_nat n \<noteq> [] \<and> digits_from 16 (hex_nat n) = n"
proof (induction n rule: hex_nat.induct)
  case (1 n)
  define d :: "nat \<Rightarrow> byte" where "d k = (if k < 10 then 48 + of_nat k else 87 + of_nat k)" for k
  have d: "digit_value 16 (d k) = Some k" if "k < 16" for k
    using that digit_value_hex [of k] by (simp add: d_def)
  have u: "hex_nat n = (if n < 16 then [d n] else hex_nat (n div 16) @ [d (n mod 16)])"
    by (simp add: hex_nat.simps [of n] d_def Let_def)
  show ?case
  proof (cases "n < 16")
    case True
    then show ?thesis using d [of n] by (simp add: u digits_from_def)
  next
    case False
    then have IH: "digits 16 (hex_nat (n div 16)) \<and> hex_nat (n div 16) \<noteq> [] \<and> digits_from 16 (hex_nat (n div 16)) = n div 16"
      using 1 by simp
    have e: "digit_value 16 (d (n mod 16)) = Some (n mod 16)" by (rule d) simp
    have "digits_from 16 (hex_nat n) = n div 16 * 16 + n mod 16"
      using False digits_from_snoc [OF _ e] IH by (simp add: u)
    then show ?thesis using IH False e by (auto simp: u)
  qed
qed

lemma strtol_hex_nat: "int n < 2 ^ 31 \<Longrightarrow> strtol 16 (hex_nat n) = int n"
  using strtol_digits [of "hex_nat n" 16] hex_nat_read [of n] by simp

lemma c_str_append: "0 \<notin> set u \<Longrightarrow> c_str (u @ v) = u @ c_str v"
  unfolding c_str_def by (rule takeWhile_append2) auto

lemma in_buffer_found: "find_str b pat 0 = Some k \<Longrightarrow> 0 \<notin> set b \<Longrightarrow> in_buffer (b @ r) pat = Some k"
  by (simp add: in_buffer_def c_str_append find_str_append)

lemma in_buffer_cut:
  assumes "find_str (b @ c) pat 0 = Some k" "0 \<notin> set b" "length b < k + length pat"
  shows "in_buffer b pat = None"
proof -
  have "\<not> occurs pat b m" for m
  proof
    assume o: "occurs pat b m"
    then have "\<not> m < k" using assms(1) occurs_append by (fastforce simp: find_str_iff)
    then show False using occurs_within [OF o] assms(3) by simp
  qed
  then show ?thesis using assms(2) by (simp add: in_buffer_def c_str_id find_str_none)
qed

lemma occurs_skip: "occurs pat (u @ r) (length u + j) \<longleftrightarrow> occurs pat r j"
  by (simp add: occurs_def)

lemma occurs_after_line:
  assumes "13 \<notin> set l"
  shows "occurs CRLFCRLF (l @ CRLF @ r) k \<longleftrightarrow> k = length l \<and> take 2 r = CRLF \<or> (\<exists>j. k = length l + 2 + j \<and> occurs CRLFCRLF r j)"
proof -
  consider "k < length l" | "k = length l" | "k = length l + 1" | j where "k = length l + 2 + j"
    by (metis One_nat_def Suc_eq_plus1 add_2_eq_Suc' add_Suc_shift le_Suc_ex less_SucE not_less)
  then show ?thesis
  proof cases
    case 1
    then have "(l @ CRLF @ r) ! k \<noteq> 13" using assms by (metis nth_append nth_mem)
    then show ?thesis using 1 occurs_hd [of 13 "[10, 13, 10]" "l @ CRLF @ r" k] by (auto simp: CRLFCRLF_def)
  next
    case 2
    then show ?thesis by (auto simp: occurs_def CRLF_def CRLFCRLF_def numeral_2_eq_2)
  next
    case 3
    then have "\<not> occurs CRLFCRLF (l @ CRLF @ r) k"
      using occurs_hd [of 13 "[10, 13, 10]" "l @ CRLF @ r" k] by (auto simp: CRLFCRLF_def CRLF_def nth_append)
    then show ?thesis using 3 by auto
  next
    case 4
    have "occurs CRLFCRLF ((l @ CRLF) @ r) (length (l @ CRLF) + j) \<longleftrightarrow> occurs CRLFCRLF r j" by (rule occurs_skip)
    then show ?thesis using 4 by (simp add: CRLF_def)
  qed
qed

section \<open>Header fields\<close>

lemma less_nocase_irrefl [simp]: "\<not> less_nocase s s"
  by (simp add: less_nocase_def)

lemma less_nocase_trans: "less_nocase s t \<Longrightarrow> less_nocase t u \<Longrightarrow> less_nocase s u"
  unfolding less_nocase_def by (rule bytes_less_trans)

lemma less_nocase_neither: "\<not> less_nocase s t \<and> \<not> less_nocase t s \<longleftrightarrow> same_nocase s t"
  using bytes_less_total [of "map lower (c_str s)" "map lower (c_str t)"]
  by (auto simp: less_nocase_def same_nocase_def)

lemma less_nocase_same: "same_nocase s t \<Longrightarrow> less_nocase s u = less_nocase t u \<and> less_nocase u s = less_nocase u t"
  by (simp add: less_nocase_def same_nocase_def)

text \<open>The order that the map keeps.\<close>

definition fields_sorted :: "fields \<Rightarrow> bool" where
  "fields_sorted h \<longleftrightarrow> sorted_wrt (\<lambda>x y. less_nocase (fst x) (fst y)) h"

lemma fields_sorted_simps [simp]:
  "fields_sorted []"
  "fields_sorted ((k, v) # h) \<longleftrightarrow> (\<forall>x \<in> set h. less_nocase k (fst x)) \<and> fields_sorted h"
  by (auto simp: fields_sorted_def)

lemma set_insert_field: "set (insert_field k v h) \<subseteq> insert (k, v) (set h)"
  by (induction k v h rule: insert_field.induct) auto

lemma fields_sorted_insert: "fields_sorted h \<Longrightarrow> fields_sorted (insert_field k v h)"
proof (induction k v h rule: insert_field.induct)
  case (2 k v a b r)
  show ?case
  proof (cases "less_nocase k a")
    case True
    then show ?thesis using 2(2) by (auto intro: less_nocase_trans)
  next
    case False
    then show ?thesis using 2 set_insert_field [of k v r] by (force simp: subset_iff)
  qed
qed simp

lemma HeaderField_Cons:
  "HeaderField key ((a, b) # h) = (if same_nocase a key then Some (c_str b) else HeaderField key h)"
  using less_nocase_neither [of a key] by (simp add: HeaderField_def)

lemma HeaderField_Nil [simp]: "HeaderField key [] = None"
  by (simp add: HeaderField_def)

lemma HeaderField_below: "(\<forall>x \<in> set h. less_nocase key (fst x)) \<Longrightarrow> HeaderField key h = None"
proof (induction h)
  case (Cons x h)
  then have "\<not> same_nocase (fst x) key" using less_nocase_neither [of "fst x" key] by auto
  with Cons show ?case by (cases x) (simp add: HeaderField_Cons)
qed simp

lemma HeaderField_insert:
  "fields_sorted h \<Longrightarrow> HeaderField key (insert_field k v h) =
     (if same_nocase k key \<and> HeaderField key h = None then Some (c_str v) else HeaderField key h)"
proof (induction k v h rule: insert_field.induct)
  case (2 k v a b r)
  show ?case
  proof (cases "less_nocase k a")
    case True
    then have "HeaderField key ((a, b) # r) = None" if "same_nocase k key"
      using 2(2) less_nocase_same [OF that] by (intro HeaderField_below) (auto intro: less_nocase_trans)
    then show ?thesis using True by (auto simp: HeaderField_Cons)
  next
    case F: False
    show ?thesis
    proof (cases "less_nocase a k")
      case True
      then have "\<not> (same_nocase a key \<and> same_nocase k key)"
        using less_nocase_neither [of a k] by (auto simp: same_nocase_def)
      then show ?thesis using True F 2 by (auto simp: HeaderField_Cons)
    next
      case False
      then have "same_nocase k a" using F less_nocase_neither [of k a] by blast
      then have "same_nocase k key = same_nocase a key" by (simp add: same_nocase_def)
      then show ?thesis using False F by (simp add: HeaderField_Cons)
    qed
  qed
qed (simp add: HeaderField_Cons)

text \<open>Fields that survive the way through the text.\<close>

definition field_text :: "bytes \<times> bytes \<Rightarrow> bool" where
  "field_text x \<longleftrightarrow> fst x \<noteq> [] \<and> 0 \<notin> set (fst x) \<and> 13 \<notin> set (fst x) \<and> 58 \<notin> set (fst x) \<and> Trim (fst x) = fst x
     \<and> 0 \<notin> set (snd x) \<and> 13 \<notin> set (snd x) \<and> Trim (snd x) = snd x"

definition fields_ok :: "fields \<Rightarrow> bool" where
  "fields_ok h \<longleftrightarrow> fields_sorted h \<and> (\<forall>x \<in> set h. field_text x)"

lemma fields_ok_simps [simp]:
  "fields_ok []"
  "fields_ok ((k, v) # h) \<longleftrightarrow> field_text (k, v) \<and> (\<forall>x \<in> set h. less_nocase k (fst x)) \<and> fields_ok h"
  by (auto simp: fields_ok_def)

lemma fields_ok_insert: "fields_ok h \<Longrightarrow> field_text (k, v) \<Longrightarrow> fields_ok (insert_field k v h)"
  using set_insert_field [of k v h] by (auto simp: fields_ok_def fields_sorted_insert)

abbreviation field_line :: "bytes \<Rightarrow> bytes \<Rightarrow> bytes" where
  "field_line k v \<equiv> k @ KStringColon @ KStringSpace @ v"

lemma Fields_ToString_simps [simp]:
  "Fields_ToString [] = []" "Fields_ToString ((k, v) # h) = field_line k v @ CRLF @ Fields_ToString h"
  by (simp_all add: Fields_ToString_def)

lemma field_line_cr: "field_text (k, v) \<Longrightarrow> 13 \<notin> set (field_line k v)"
  by (simp add: field_text_def KStringColon_def KStringSpace_def)

lemma insert_field_end: "\<forall>x \<in> set h. less_nocase (fst x) k \<Longrightarrow> insert_field k v h = h @ [(k, v)]"
proof (induction h)
  case (Cons x h)
  then have "less_nocase (fst x) k" "\<not> less_nocase k (fst x)" using less_nocase_trans [of k "fst x" k] by auto
  with Cons show ?case by (cases x) simp
qed simp

lemma Trim_space: "Trim (32 # s) = Trim s"
  by (simp add: Trim_def isspace_def)

text \<open>The lines of a head as they are sent, in any order: a name, a colon, a value, with spaces around both; a line
  with nothing behind its colon is passed over.\<close>

definition line_ok :: "bytes \<Rightarrow> bool" where
  "line_ok x \<longleftrightarrow> 0 \<notin> set x \<and> 13 \<notin> set x \<and> 58 \<in> set x \<and> hd x \<noteq> 58"

definition line_field :: "bytes \<Rightarrow> (bytes \<times> bytes) option" where
  "line_field x = (let name = takeWhile (\<lambda>c. c \<noteq> 58) x; val = drop (length name + 1) x
                   in if val = [] then None else Some (Trim name, Trim val))"

definition sent_fields :: "bytes list \<Rightarrow> (bytes \<times> bytes) list" where
  "sent_fields ls = List.map_filter line_field ls"

definition fields_of :: "bytes list \<Rightarrow> fields" where
  "fields_of ls = foldl (\<lambda>h (k, v). insert_field k v h) [] (sent_fields ls)"

definition lines_text :: "bytes list \<Rightarrow> bytes" where
  "lines_text ls = concat (map (\<lambda>x. x @ CRLF) ls)"

lemma lines_text_simps [simp]: "lines_text [] = []" "lines_text (x # ls) = x @ CRLF @ lines_text ls"
  by (simp_all add: lines_text_def)

lemma sent_fields_simps [simp]:
  "sent_fields [] = []"
  "sent_fields (x # ls) = (case line_field x of None \<Rightarrow> sent_fields ls | Some f \<Rightarrow> f # sent_fields ls)"
  by (simp_all add: sent_fields_def List.map_filter_def split: option.split)

lemma lines_no_nul: "\<forall>x \<in> set ls. line_ok x \<Longrightarrow> 0 \<notin> set (lines_text ls)"
  by (induction ls) (auto simp: line_ok_def CRLF_def)

lemma set_dropWhile: "set (dropWhile P xs) \<subseteq> set xs"
  by (auto dest: set_dropWhileD)

lemma set_Trim: "set (Trim s) \<subseteq> set s"
  using set_dropWhile [of isspace "rev (dropWhile isspace s)"] set_dropWhile [of isspace s] by (auto simp: Trim_def)

lemma c_str_Trim: "0 \<notin> set s \<Longrightarrow> c_str (Trim s) = Trim s"
  using set_Trim [of s] by (intro c_str_id) auto

lemma header_line_ok:
  assumes "line_ok x"
  shows "header_line x h = (case line_field x of None \<Rightarrow> h | Some (k, v) \<Rightarrow> insert_field k v h)"
proof -
  have c: "58 \<in> set x" "\<not> list_all (\<lambda>c. c = 58) x" using assms by (cases x; auto simp: line_ok_def)+
  have z: "0 \<notin> set (takeWhile P x)" "0 \<notin> set (drop n x)" for P n
    using assms set_takeWhileD [of 0 P x] in_set_dropD [of 0 n x] by (auto simp: line_ok_def)
  show ?thesis using c z by (auto simp: header_line_def line_field_def Let_def HeaderFiled_def c_str_Trim)
qed

lemma find_CRLF: "13 \<notin> set l \<Longrightarrow> find_str (l @ CRLF @ r) CRLF 0 = Some (length l)"
  using find_str_here [of 13 l "[10]" r] by (simp add: CRLF_def)

lemma ParserHeaders_line: "13 \<notin> set l \<Longrightarrow> ParserHeaders (l @ CRLF @ r) h = ParserHeaders r (header_line l h)"
  by (subst ParserHeaders.simps) (simp add: find_CRLF, simp add: CRLF_def)

lemma ParserHeaders_Nil: "ParserHeaders [] h = h"
  by (subst ParserHeaders.simps) (simp add: find_str_def CRLF_def)

lemma ParserHeaders_lines:
  "\<forall>x \<in> set ls. line_ok x \<Longrightarrow> ParserHeaders (lines_text ls @ CRLF) a = foldl (\<lambda>h (k, v). insert_field k v h) a (sent_fields ls)"
proof (induction ls arbitrary: a)
  case Nil
  show ?case using ParserHeaders_line [of "[]" "[]" a] by (simp add: ParserHeaders_Nil header_line_def)
next
  case (Cons x ls)
  then have "ParserHeaders (x @ CRLF @ (lines_text ls @ CRLF)) a = ParserHeaders (lines_text ls @ CRLF) (header_line x a)"
    by (intro ParserHeaders_line) (simp add: line_ok_def)
  then show ?case using Cons header_line_ok [of x a] by (auto split: option.split)
qed

text \<open>Looking a field up gives what the first line with that name says.\<close>

lemma HeaderField_inserts:
  "fields_sorted h \<Longrightarrow> HeaderField key (foldl (\<lambda>h (k, v). insert_field k v h) h xs) =
     (case HeaderField key h of None \<Rightarrow> HeaderField key xs | Some v \<Rightarrow> Some v)"
proof (induction xs arbitrary: h)
  case (Cons x xs)
  obtain k v where x: "x = (k, v)" by (cases x)
  from Cons.IH [OF fields_sorted_insert, of h k v] Cons.prems show ?case
    by (auto simp: x HeaderField_insert HeaderField_Cons split: option.split)
qed (simp split: option.split)

lemma HeaderField_of: "HeaderField key (fields_of ls) = HeaderField key (sent_fields ls)"
  by (simp add: fields_of_def HeaderField_inserts)

lemma lengths_of:
  "IsTransferEncodingChunked (fields_of ls) = IsTransferEncodingChunked (sent_fields ls)"
  "ContentLength (fields_of ls) = ContentLength (sent_fields ls)"
  by (simp_all add: IsTransferEncodingChunked_def ContentLength_def HeaderField_of)

text \<open>The lines that \<open>Fields_ToString\<close> writes.\<close>

definition field_lines :: "fields \<Rightarrow> bytes list" where
  "field_lines h = map (\<lambda>(k, v). field_line k v) h"

lemma field_lines_text: "Fields_ToString h = lines_text (field_lines h)"
  by (induction h) (auto simp: field_lines_def)

lemma field_line_ok:
  assumes "field_text (k, v)"
  shows "line_ok (field_line k v)" "line_field (field_line k v) = Some (k, v)"
proof -
  have k: "k \<noteq> []" "58 \<notin> set k" "Trim k = k" "Trim v = v" using assms by (auto simp: field_text_def)
  then have n: "takeWhile (\<lambda>c. c \<noteq> 58) (field_line k v) = k"
    unfolding KStringColon_def by (subst takeWhile_append2) auto
  have "drop (length k + 1) (field_line k v) = 32 # v" by (simp add: KStringColon_def KStringSpace_def)
  then show "line_field (field_line k v) = Some (k, v)"
    using k(3,4) by (simp only: line_field_def n Let_def Trim_space list.simps if_False)
  show "line_ok (field_line k v)"
    using assms k(1) by (cases k) (auto simp: line_ok_def field_text_def KStringColon_def KStringSpace_def)
qed

lemma field_lines_ok: "\<forall>x \<in> set h. field_text x \<Longrightarrow> \<forall>x \<in> set (field_lines h). line_ok x"
  using field_line_ok(1) by (fastforce simp: field_lines_def)

lemma sent_field_lines: "\<forall>x \<in> set h. field_text x \<Longrightarrow> sent_fields (field_lines h) = h"
  by (induction h) (auto simp: field_lines_def field_line_ok)

lemma inserts_sorted:
  "fields_sorted h \<Longrightarrow> \<forall>x \<in> set a. \<forall>y \<in> set h. less_nocase (fst x) (fst y) \<Longrightarrow>
   foldl (\<lambda>h (k, v). insert_field k v h) a h = a @ h"
proof (induction h arbitrary: a)
  case (Cons x h)
  obtain k v where x: "x = (k, v)" by (cases x)
  have i: "insert_field k v a = a @ [(k, v)]" using Cons.prems x by (intro insert_field_end) auto
  have "foldl (\<lambda>h (k, v). insert_field k v h) (a @ [(k, v)]) h = (a @ [(k, v)]) @ h" using Cons.prems x by (intro Cons.IH) auto
  then show ?case by (simp add: x i)
qed simp

lemma fields_of_sorted: "fields_ok h \<Longrightarrow> fields_of (field_lines h) = h"
  using inserts_sorted [of h "[]"] by (simp add: fields_of_def fields_ok_def sent_field_lines)

lemma lines_end:
  assumes "\<forall>x \<in> set ls. line_ok x" "ls \<noteq> []"
  shows "find_str (lines_text ls @ CRLF) CRLFCRLF 0 = Some (length (lines_text ls) - 2)
    \<and> 2 \<le> length (lines_text ls) \<and> take 2 (lines_text ls @ CRLF) \<noteq> CRLF"
  using assms
proof (induction ls)
  case (Cons x ls)
  let ?r = "lines_text ls @ CRLF"
  have cr: "13 \<notin> set x" and ne: "x \<noteq> []" using Cons.prems by (auto simp: line_ok_def)
  note o = occurs_after_line [OF cr, of ?r]
  have "find_str (x @ CRLF @ ?r) CRLFCRLF 0 = Some (length x + length (lines_text ls))"
  proof (cases ls)
    case Nil
    then show ?thesis using o by (auto simp: find_str_iff CRLF_def)
  next
    case (Cons y ls')
    then have IH: "find_str ?r CRLFCRLF 0 = Some (length (lines_text ls) - 2)" "2 \<le> length (lines_text ls)" "take 2 ?r \<noteq> CRLF"
      using Cons.IH Cons.prems by auto
    then obtain n where n: "length (lines_text ls) = n + 2" by (metis add.commute le_Suc_ex)
    have f: "occurs CRLFCRLF ?r n" "\<forall>m < n. \<not> occurs CRLFCRLF ?r m" using IH(1) by (simp_all add: find_str_iff n)
    show ?thesis unfolding find_str_iff o using f IH(3) by (auto simp: n)
  qed
  moreover have "take 2 (x @ CRLF @ ?r) \<noteq> CRLF" using ne cr by (cases x) (auto simp: CRLF_def)
  ultimately show ?case by (simp add: CRLF_def)
qed simp

lemma cut_within:
  assumes "b @ z = u @ w" "length b \<le> length u"
  obtains c where "b @ c = u"
  using assms by (auto simp: append_eq_append_conv2)

lemma cut_beyond:
  assumes "b @ z = u @ w" "length u \<le> length b"
  shows "b = u @ drop (length u) b" "drop (length u) b @ z = w"
  using assms by (auto simp: append_eq_append_conv2)

section \<open>The head of a message\<close>

text \<open>What the parser knows after the first line.\<close>

definition first_line :: "bytes \<Rightarrow> parser option" where
  "first_line l =
     (if StartsWith (l @ CRLF) (lit ''HTTP/'')
      then let (suc, s) = Status_FromString (l @ CRLF) StatusLine
           in if suc then Some (Parser\<lparr> hp_statusline := s, hp_csmode := kRespond \<rparr>) else None
      else let (suc, r) = Request_FromString (l @ CRLF) RequestLine
           in if suc then Some (Parser\<lparr> hp_requestline := r, hp_csmode := kRequest \<rparr>) else None)"

definition head_text :: "bytes \<Rightarrow> bytes list \<Rightarrow> bytes" where
  "head_text l h = l @ CRLF @ lines_text h @ CRLF"

definition head_ok :: "bytes \<Rightarrow> bytes list \<Rightarrow> parser \<Rightarrow> bool" where
  "head_ok l h q \<longleftrightarrow> first_line l = Some q \<and> 0 \<notin> set l \<and> 13 \<notin> set l \<and> length l < 8192 \<and> (\<forall>x \<in> set h. line_ok x) \<and> h \<noteq> []
     \<and> length (lines_text h) < 131072"

text \<open>The parser when \<open>d\<close>, a part of the head, has come.\<close>

definition in_head :: "bytes \<Rightarrow> bytes list \<Rightarrow> parser \<Rightarrow> bytes \<Rightarrow> parser \<Rightarrow> bool" where
  "in_head l h q d p \<longleftrightarrow> length d < length (head_text l h)
     \<and> p = (if length d < length l + 2 then Parser\<lparr> hp_status := (if d = [] then kStart else kFirstLine), hp_recvbuf := d \<rparr>
            else q\<lparr> hp_status := kHeaderFields, hp_recvbuf := drop (length l + 2) d \<rparr>)"

definition at_body :: "fields \<Rightarrow> parser \<Rightarrow> bytes \<Rightarrow> bytes \<Rightarrow> parser" where
  "at_body h q b r = q\<lparr> hp_status := kBody, hp_fields := h, hp_body := b, hp_recvbuf := r \<rparr>"

lemma first_line_q: "first_line l = Some q \<Longrightarrow> hp_fields q = [] \<and> hp_body q = []"
  by (auto simp: first_line_def Let_def Parser_def split: if_splits prod.splits)

lemma read_first_line_all:
  assumes "head_ok l h q" "st = kStart \<or> st = kFirstLine" "take 2 r \<noteq> CRLF"
  shows "read_first_line (Parser\<lparr> hp_status := st, hp_recvbuf := l @ CRLF @ r \<rparr>)
    = (True, q\<lparr> hp_status := kHeaderFields, hp_recvbuf := r \<rparr>)"
proof -
  have l: "0 \<notin> set l" "13 \<notin> set l" "first_line l = Some q" using assms(1) by (auto simp: head_ok_def)
  have f: "in_buffer (l @ CRLF @ r) CRLF = Some (length l)"
    using in_buffer_found [of "l @ CRLF" CRLF "length l" r] find_CRLF [OF l(2), of "[]"] l(1) by (simp add: CRLF_def)
  have "\<not> occurs CRLFCRLF (c_str (l @ CRLF @ r)) (length l)"
  proof
    assume "occurs CRLFCRLF (c_str (l @ CRLF @ r)) (length l)"
    then have "occurs CRLFCRLF (l @ CRLF @ c_str r) (length l)" using c_str_append [of "l @ CRLF" r] l(1) by (simp add: CRLF_def)
    then have "take 2 (c_str r) = [13, 10]" by (simp add: occurs_def CRLF_def CRLFCRLF_def numeral_2_eq_2 numeral_3_eq_3 numeral_eq_Suc)
    then have "take 2 r = [13, 10]"
      by (cases r; cases "tl r") (auto simp: c_str_def numeral_2_eq_2 split: if_splits)
    then show False using assms(3) by (simp add: CRLF_def)
  qed
  then have n: "in_buffer (l @ CRLF @ r) CRLFCRLF \<noteq> Some (length l)" by (auto simp: in_buffer_def find_str_iff)
  have t: "take (length l + 2) (l @ CRLF @ r) = l @ CRLF" "drop (length l + 2) (l @ CRLF @ r) = r" by (simp_all add: CRLF_def)
  show ?thesis
    using l(3) f n t assms(2)
    by (auto simp: read_first_line_def first_line_def Let_def Parser_def split: if_splits prod.splits)
qed

lemma recv_first_line_part:
  assumes "head_ok l h q" "b @ z = l @ CRLF @ r" "length b < length l + 2" "b \<noteq> []" "st = kStart \<or> st = kFirstLine"
  shows "recv_loop bh (Parser\<lparr> hp_status := st, hp_recvbuf := b \<rparr>) = Some (ok (Parser\<lparr> hp_status := kFirstLine, hp_recvbuf := b \<rparr>))"
proof -
  have l: "0 \<notin> set l" "13 \<notin> set l" "length l < 8192" using assms(1) by (auto simp: head_ok_def)
  obtain c where c: "b @ c = l @ CRLF"
    using cut_within [of b z "l @ CRLF" r] assms(2,3) by (auto simp: CRLF_def)
  have "0 \<notin> set (l @ CRLF)" using l(1) by (simp add: CRLF_def)
  then have nul: "0 \<notin> set b" using c by (metis Un_iff set_append)
  have "in_buffer b CRLF = None"
    using in_buffer_cut [of b c CRLF "length l"] find_CRLF [OF l(2), of "[]"] c nul assms(3) by (simp add: CRLF_def)
  then show ?thesis
    using assms(3-5) l(3) by (subst recv_loop.simps) (auto simp: recv_once_def read_first_line_def Parser_def)
qed

lemma recv_fields_part:
  assumes "head_ok l h q" "b @ z = (lines_text h @ CRLF) @ r"
  shows "recv_loop bh (q\<lparr> hp_status := kHeaderFields, hp_recvbuf := b \<rparr>) =
    (if length b < length (lines_text h @ CRLF) then Some (ok (q\<lparr> hp_status := kHeaderFields, hp_recvbuf := b \<rparr>))
     else recv_loop bh (at_body (fields_of h) q [] (drop (length (lines_text h @ CRLF)) b)))"
proof -
  let ?t = "lines_text h @ CRLF"
  have h: "\<forall>x \<in> set h. line_ok x" "h \<noteq> []" "length (lines_text h) < 131072" "hp_fields q = []" "hp_body q = []"
    using assms(1) first_line_q by (auto simp: head_ok_def)
  have e: "find_str ?t CRLFCRLF 0 = Some (length (lines_text h) - 2)" "2 \<le> length (lines_text h)"
    using lines_end [OF h(1,2)] by auto
  have nul: "0 \<notin> set ?t" using lines_no_nul [OF h(1)] by (simp add: CRLF_def)
  show ?thesis
  proof (cases "length b < length ?t")
    case True
    then obtain c where c: "b @ c = ?t" using cut_within [OF assms(2)] by auto
    then have "0 \<notin> set b" using nul by (metis Un_iff set_append)
    then have "in_buffer b CRLFCRLF = None"
      using in_buffer_cut [of b c CRLFCRLF] e c True by (simp add: CRLF_def CRLFCRLF_def)
    then show ?thesis using True h(3) by (subst recv_loop.simps) (simp add: recv_once_def read_fields_def CRLF_def)
  next
    case False
    then have b: "b = ?t @ drop (length ?t) b" using cut_beyond(1) [OF assms(2)] by simp
    have "in_buffer b CRLFCRLF = Some (length (lines_text h) - 2)"
      by (subst b) (rule in_buffer_found [OF e(1) nul])
    moreover have "length (lines_text h) - 2 + 4 = length ?t" using e(2) by (simp add: CRLF_def)
    moreover have "take (length ?t) b = ?t" using b by (metis append_eq_conv_conj)
    moreover have "ParserHeaders ?t [] = fields_of h" using ParserHeaders_lines [of h "[]"] h(1) by (simp add: fields_of_def)
    ultimately show ?thesis using False h(4,5)
      by (cases q, subst recv_loop.simps) (simp add: recv_once_def read_fields_def at_body_def del: length_append append_assoc)
  qed
qed

lemma Recv_fields:
  assumes "head_ok l h q" "d @ z = head_text l h @ r" "length l + 2 \<le> length d"
  shows "recv_loop bh (q\<lparr> hp_status := kHeaderFields, hp_recvbuf := drop (length l + 2) d \<rparr>) =
    (if length d < length (head_text l h) then Some (ok (q\<lparr> hp_status := kHeaderFields, hp_recvbuf := drop (length l + 2) d \<rparr>))
     else recv_loop bh (at_body (fields_of h) q [] (drop (length (head_text l h)) d)))"
proof -
  have "drop (length l + 2) d @ z = (lines_text h @ CRLF) @ r"
    using cut_beyond(2) [of d z "l @ CRLF" "(lines_text h @ CRLF) @ r"] assms(2,3) by (simp add: head_text_def CRLF_def)
  note f = recv_fields_part [OF assms(1) this, of bh]
  have n: "length (head_text l h) = length (lines_text h @ CRLF) + (length l + 2)" by (simp add: head_text_def CRLF_def)
  have "length (drop (length l + 2) d) < length (lines_text h @ CRLF) \<longleftrightarrow> length d < length (head_text l h)"
    unfolding n using assms(3) by (simp only: length_drop) linarith
  moreover have "drop (length (lines_text h @ CRLF)) (drop (length l + 2) d) = drop (length (head_text l h)) d"
    by (simp only: drop_drop n)
  ultimately show ?thesis using f by (simp only:)
qed

lemma recv_first_line_all:
  assumes "head_ok l h q" "d @ z = head_text l h @ r" "length l + 2 \<le> length d" "st = kStart \<or> st = kFirstLine"
  shows "recv_loop bh (Parser\<lparr> hp_status := st, hp_recvbuf := d \<rparr>)
    = recv_loop bh (q\<lparr> hp_status := kHeaderFields, hp_recvbuf := drop (length l + 2) d \<rparr>)"
proof -
  let ?r = "drop (length l + 2) d"
  have d: "d = l @ CRLF @ ?r" "?r @ z = (lines_text h @ CRLF) @ r"
    using cut_beyond [of d z "l @ CRLF" "(lines_text h @ CRLF) @ r"] assms(2,3) by (simp_all add: head_text_def CRLF_def)
  have "take 2 (lines_text h @ CRLF) \<noteq> CRLF" using lines_end [of h] assms(1) unfolding head_ok_def by blast
  moreover have "take 2 (?r @ z) = CRLF" if "take 2 ?r = CRLF"
  proof -
    have "length ?r \<ge> 2" using arg_cong [OF that, of length] by (simp add: CRLF_def)
    then show ?thesis using that by simp
  qed
  moreover have "take 2 (?r @ z) = take 2 (lines_text h @ CRLF)" unfolding d(2) by (simp add: CRLF_def del: append_assoc)
  ultimately have "take 2 ?r \<noteq> CRLF" by argo
  from read_first_line_all [OF assms(1,4) this] d(1)
  have "read_first_line (Parser\<lparr> hp_status := st, hp_recvbuf := d \<rparr>) = (True, q\<lparr> hp_status := kHeaderFields, hp_recvbuf := ?r \<rparr>)"
    by simp
  then show ?thesis using assms(4) by (subst recv_loop.simps) (auto simp: recv_once_def)
qed

lemma in_head_start:
  assumes "in_head l h q d p" "length d < length l + 2"
  obtains st where "st = kStart \<or> st = kFirstLine" "p\<lparr> hp_recvbuf := hp_recvbuf p @ x \<rparr> = Parser\<lparr> hp_status := st, hp_recvbuf := d @ x \<rparr>"
  using assms by (intro that [of "if d = [] then kStart else kFirstLine"]) (simp_all add: in_head_def)

text \<open>A piece that ends inside the head, and one that ends behind it.\<close>

lemma Recv_head:
  assumes "head_ok l h q" "in_head l h q d p" "d @ x @ z = head_text l h @ r" "x \<noteq> []"
  shows "if length (d @ x) < length (head_text l h)
    then \<exists>p'. Recv bh x p = Some (ok p') \<and> in_head l h q (d @ x) p'
    else Recv bh x p = recv_loop bh (at_body (fields_of h) q [] (drop (length (head_text l h)) (d @ x)))"
proof -
  let ?d = "d @ x"
  have e: "?d @ z = head_text l h @ r" using assms(3) by simp
  have R: "Recv bh x p = recv_loop bh (p\<lparr> hp_recvbuf := hp_recvbuf p @ x \<rparr>)" using assms(4) by (simp add: Recv_def)
  show ?thesis
  proof (cases "length ?d < length l + 2")
    case True
    then have "length d < length l + 2" by simp
    with assms(2) obtain st where st: "st = kStart \<or> st = kFirstLine" "p\<lparr> hp_recvbuf := hp_recvbuf p @ x \<rparr> = Parser\<lparr> hp_status := st, hp_recvbuf := ?d \<rparr>"
      by (rule in_head_start)
    have "?d @ z = l @ CRLF @ (lines_text h @ CRLF @ r)" using e by (simp add: head_text_def)
    from recv_first_line_part [OF assms(1) this True _ st(1), of bh] R st(2) True assms(4)
    show ?thesis by (auto simp: in_head_def head_text_def CRLF_def)
  next
    case False
    then have ge: "length l + 2 \<le> length ?d" by simp
    have "recv_loop bh (p\<lparr> hp_recvbuf := hp_recvbuf p @ x \<rparr>) = recv_loop bh (q\<lparr> hp_status := kHeaderFields, hp_recvbuf := drop (length l + 2) ?d \<rparr>)"
    proof (cases "length d < length l + 2")
      case True
      with assms(2) obtain st where st: "st = kStart \<or> st = kFirstLine" "p\<lparr> hp_recvbuf := hp_recvbuf p @ x \<rparr> = Parser\<lparr> hp_status := st, hp_recvbuf := ?d \<rparr>"
        by (rule in_head_start)
      then show ?thesis using recv_first_line_all [OF assms(1) e ge st(1), of bh] by simp
    next
      case False
      then show ?thesis using assms(2) by (simp add: in_head_def)
    qed
    then show ?thesis using Recv_fields [OF assms(1) e ge, of bh] R ge by (auto simp: in_head_def)
  qed
qed

section \<open>The body\<close>

text \<open>What the pieces of a stream lead to; each comes with the memory that can be read behind it.\<close>

fun recv_all :: "(bytes \<times> bytes) list \<Rightarrow> parser \<Rightarrow> parser res option" where
  "recv_all [] p = Some (ok p)"
| "recv_all ((bh, x) # xs) p =
     (case Recv bh x p of None \<Rightarrow> None | Some (Inl f) \<Rightarrow> Some (Inl f) | Some (Inr p) \<Rightarrow> recv_all xs p)"

text \<open>Messages of a form, and what the parser is in the middle of one: every next piece is taken in.\<close>

locale messages =
  fixes stream :: "'m \<Rightarrow> bytes" and good :: "'m \<Rightarrow> bool" and room :: "bytes \<Rightarrow> bool"
    and inv :: "'m \<Rightarrow> bytes \<Rightarrow> parser \<Rightarrow> bool"
  assumes start: "good m \<Longrightarrow> inv m [] Parser"
    and step: "good m \<Longrightarrow> inv m d p \<Longrightarrow> d @ x @ z = stream m \<Longrightarrow> x \<noteq> [] \<Longrightarrow> room bh \<Longrightarrow> \<exists>p'. Recv bh x p = Some (ok p') \<and> inv m (d @ x) p'"
begin

lemma pieces_from:
  "good m \<Longrightarrow> inv m d p \<Longrightarrow> d @ concat (map snd xs) @ z = stream m \<Longrightarrow> \<forall>(bh, x) \<in> set xs. room bh \<Longrightarrow>
   \<exists>p'. recv_all xs p = Some (ok p') \<and> inv m (d @ concat (map snd xs)) p'"
proof (induction xs arbitrary: d p)
  case (Cons y xs)
  obtain bh x where y: "y = (bh, x)" by (cases y)
  show ?case
  proof (cases "x = []")
    case True
    then show ?thesis using Cons y by (simp add: Recv_def)
  next
    case False
    with Cons.prems y step [of m d p x "concat (map snd xs) @ z" bh]
    obtain p' where p': "Recv bh x p = Some (ok p')" "inv m (d @ x) p'" by auto
    show ?thesis using Cons.IH [OF Cons.prems(1) p'(2)] Cons.prems y p'(1) by auto
  qed
qed simp

lemma pieces: "good m \<Longrightarrow> concat (map snd xs) @ z = stream m \<Longrightarrow> \<forall>(bh, x) \<in> set xs. room bh \<Longrightarrow>
  \<exists>p. recv_all xs Parser = Some (ok p) \<and> inv m (concat (map snd xs)) p"
  using pieces_from [of m "[]" Parser xs z] start by simp

end

definition finished :: "fields \<Rightarrow> parser \<Rightarrow> bytes \<Rightarrow> bytes \<Rightarrow> parser" where
  "finished h q b r = (at_body h q b r)\<lparr> hp_status := kEnd \<rparr>"

lemma Recv_finished: "Recv bh x (finished h q b r) = Some (ok (finished h q b (r @ x)))"
proof (cases "x = []")
  case False
  have "recv_loop bh (p\<lparr> hp_status := kEnd \<rparr>) = Some (ok (p\<lparr> hp_status := kEnd \<rparr>))" for p
    by (subst recv_loop.simps) (simp add: recv_once_def)
  from this [of "at_body h q b (r @ x)"] False show ?thesis by (cases q) (simp add: Recv_def finished_def at_body_def)
qed (simp add: Recv_def finished_def at_body_def)

text \<open>A piece that ends inside the head, one that ends behind it, and one that begins there.\<close>

lemma Recv_cases:
  assumes "head_ok l h q" "d @ x @ z = head_text l h @ r" "x \<noteq> []"
    and "if length d < length (head_text l h) then in_head l h q d p else B (drop (length (head_text l h)) d) p"
    and "\<And>e. e @ z = r \<Longrightarrow> \<exists>p'. recv_loop bh (at_body (fields_of h) q [] e) = Some (ok p') \<and> B e p'"
    and "\<And>e p. B e p \<Longrightarrow> e @ x @ z = r \<Longrightarrow> \<exists>p'. Recv bh x p = Some (ok p') \<and> B (e @ x) p'"
  shows "\<exists>p'. Recv bh x p = Some (ok p')
    \<and> (if length (d @ x) < length (head_text l h) then in_head l h q (d @ x) p' else B (drop (length (head_text l h)) (d @ x)) p')"
proof -
  let ?n = "length (head_text l h)"
  have eq: "(d @ x) @ z = head_text l h @ r" using assms(2) by simp
  show ?thesis
  proof (cases "length d < ?n")
    case True
    then have hd: "in_head l h q d p" using assms(4) by simp
    show ?thesis
    proof (cases "length (d @ x) < ?n")
      case True
      then show ?thesis using Recv_head [OF assms(1) hd assms(2,3), of bh] by simp
    next
      case False
      then have "drop ?n (d @ x) @ z = r" using cut_beyond(2) [OF eq] by simp
      from assms(5) [OF this] False show ?thesis using Recv_head [OF assms(1) hd assms(2,3), of bh] by simp
    qed
  next
    case False
    then have "drop ?n d @ x @ z = r" using cut_beyond(2) [of d "x @ z"] assms(2) by simp
    with assms(4,6) False show ?thesis by simp
  qed
qed

subsection \<open>With a length\<close>

text \<open>First line, fields, parser after the first line, body, what follows.\<close>

type_synonym message = "bytes \<times> bytes list \<times> parser \<times> bytes \<times> bytes"

fun sized_text :: "message \<Rightarrow> bytes" where
  "sized_text (l, h, q, b, r) = head_text l h @ b @ r"

fun sized_ok :: "message \<Rightarrow> bool" where
  "sized_ok (l, h, q, b, r) \<longleftrightarrow> head_ok l h q \<and> \<not> IsTransferEncodingChunked (sent_fields h) \<and> ContentLength (sent_fields h) = int (length b)"

definition sized_body :: "fields \<Rightarrow> parser \<Rightarrow> bytes \<Rightarrow> bytes \<Rightarrow> parser \<Rightarrow> bool" where
  "sized_body h q b e p \<longleftrightarrow> p = (if length e < length b then at_body h q e [] else finished h q b (drop (length b) e))"

fun sized_inv :: "message \<Rightarrow> bytes \<Rightarrow> parser \<Rightarrow> bool" where
  "sized_inv (l, h, q, b, r) d p \<longleftrightarrow>
     (if length d < length (head_text l h) then in_head l h q d p else sized_body (fields_of h) q b (drop (length (head_text l h)) d) p)"

lemma recv_sized:
  assumes "\<not> IsTransferEncodingChunked h" "ContentLength h = int (length b)" "(c @ e) @ z = b @ r" "length c \<le> length b"
  shows "\<exists>p. recv_loop bh (at_body h q c e) = Some (ok p) \<and> sized_body h q b (c @ e) p"
proof (cases "length (c @ e) < length b")
  case True
  then show ?thesis using assms(1,2)
    by (subst recv_loop.simps) (simp add: recv_once_def read_body_def read_length_def at_body_def sized_body_def Let_def)
next
  case False
  have "c @ take (length b - length c) e = take (length b) (c @ e)" using assms(4) by simp
  also have "\<dots> = b" using False cut_beyond(1) [OF assms(3)] by (metis append_eq_conv_conj linorder_not_less)
  finally have t: "c @ take (length b - length c) e = b" .
  have len: "nat (int (length b) - int (length c)) = length b - length c" "drop (length b) (c @ e) = drop (length b - length c) e"
    using assms(4) by auto
  have s: "length c + min (length e) (length b - length c) = length b" using False assms(4) by simp
  have "recv_once bh (at_body h q c e) = ok (False, finished h q b (drop (length b) (c @ e)))"
  proof (cases "length (c @ e) = length b")
    case True
    then have b: "b = c @ e" using t by simp
    show ?thesis using assms(1,2) unfolding b
      by (simp add: recv_once_def read_body_def read_length_def at_body_def finished_def Let_def)
  next
    case ne: False
    then show ?thesis using assms(1,2,4) False t len s
      by (simp add: recv_once_def read_body_def read_length_def at_body_def finished_def Let_def)
  qed
  then show ?thesis using False by (subst recv_loop.simps) (simp add: sized_body_def)
qed

interpretation sz: messages sized_text sized_ok "\<lambda>bh. True" sized_inv
proof
  fix m assume "sized_ok m"
  then show "sized_inv m [] Parser" by (cases m) (simp add: in_head_def head_text_def CRLF_def Parser_def)
next
  fix m d p x z bh
  assume m: "sized_ok m" "sized_inv m d p" "d @ x @ z = sized_text m" "x \<noteq> []"
  obtain l h q b r where e: "m = (l, h, q, b, r)" by (cases m)
  have ok: "head_ok l h q" "\<not> IsTransferEncodingChunked (fields_of h)" "ContentLength (fields_of h) = int (length b)"
    using m(1) e by (auto simp: lengths_of)
  have "\<exists>p'. Recv bh x p = Some (ok p') \<and> sized_body (fields_of h) q b (c @ x) p'" if B: "sized_body (fields_of h) q b c p" and c: "c @ x @ z = b @ r" for c p
  proof (cases "length c < length b")
    case True
    then have "p = at_body (fields_of h) q c []" using B by (simp add: sized_body_def)
    then have "Recv bh x p = recv_loop bh (at_body (fields_of h) q c x)" using m(4) by (simp add: Recv_def at_body_def)
    then show ?thesis using recv_sized [OF ok(2,3), of c x z r bh q] c True by simp
  next
    case False
    then show ?thesis using B by (simp add: sized_body_def Recv_finished)
  qed
  moreover have "\<exists>p'. recv_loop bh (at_body (fields_of h) q [] c) = Some (ok p') \<and> sized_body (fields_of h) q b c p'" if "c @ z = b @ r" for c
    using recv_sized [OF ok(2,3), of "[]" c z r bh q] that by simp
  ultimately show "\<exists>p'. Recv bh x p = Some (ok p') \<and> sized_inv m (d @ x) p'"
    using Recv_cases [OF ok(1), of d x z "b @ r" p "sized_body (fields_of h) q b" bh] m(2-4) e by simp
qed

subsection \<open>In chunks\<close>

definition chunk :: "bytes \<Rightarrow> bytes" where "chunk c = AppendTail (AppendHeader [] (length c) @ c)"

text \<open>First line, fields, parser after the first line, chunks, what follows.\<close>

type_synonym chunked_message = "bytes \<times> bytes list \<times> parser \<times> bytes list \<times> bytes"

fun chunked_text :: "chunked_message \<Rightarrow> bytes" where
  "chunked_text (l, h, q, cs, r) = head_text l h @ concat (map chunk cs) @ EofData @ r"

fun chunked_ok :: "chunked_message \<Rightarrow> bool" where
  "chunked_ok (l, h, q, cs, r) \<longleftrightarrow> head_ok l h q \<and> IsTransferEncodingChunked (sent_fields h)
     \<and> (\<forall>c \<in> set cs. c \<noteq> [] \<and> int (length c) < 2 ^ 31)"

text \<open>In the body, \<open>e\<close> has come of it.\<close>

definition chunked_body :: "fields \<Rightarrow> parser \<Rightarrow> bytes list \<Rightarrow> bytes \<Rightarrow> parser \<Rightarrow> bool" where
  "chunked_body h q cs e p \<longleftrightarrow>
     (\<exists>past rest b. cs = past @ rest \<and> e = concat (map chunk past) @ b \<and> length b < length (concat (map chunk rest) @ EofData)
        \<and> p = at_body h q (concat past) b)
     \<or> (\<exists>b. e = concat (map chunk cs) @ EofData @ b \<and> p = finished h q (concat cs) b)"

lemma chunked_body_in:
  "cs = past @ rest \<Longrightarrow> length b < length (concat (map chunk rest) @ EofData) \<Longrightarrow>
   chunked_body h q cs (concat (map chunk past) @ b) (at_body h q (concat past) b)"
  unfolding chunked_body_def by blast

fun chunked_inv :: "chunked_message \<Rightarrow> bytes \<Rightarrow> parser \<Rightarrow> bool" where
  "chunked_inv (l, h, q, cs, r) d p \<longleftrightarrow>
     (if length d < length (head_text l h) then in_head l h q d p
      else chunked_body (fields_of h) q cs (drop (length (head_text l h)) d) p)"

lemma Trim_digits: "digits b s \<Longrightarrow> b \<le> 16 \<Longrightarrow> Trim s = s"
proof -
  assume d: "digits b s" "b \<le> 16"
  then have "\<forall>c \<in> set s. \<not> isspace c" using digit_not(2) by blast
  then have "dropWhile isspace t = t" if "set t \<subseteq> set s" for t using that by (cases t) auto
  then show ?thesis by (simp add: Trim_def)
qed

lemma chunk_size:
  "Trim (hex_nat n) = hex_nat n" "0 \<notin> set (hex_nat n)" "13 \<notin> set (hex_nat n)"
  using hex_nat_read [of n] Trim_digits [of "hex_nat n" 16] digit_not(1) [of 16 0] digit_not(7) [of 16 13] by auto

lemma chunk_text: "chunk c = hex_nat (length c) @ CRLF @ c @ CRLF"
  by (simp add: chunk_def AppendTail_def AppendHeader_def)

lemma size_in_buffer: "in_buffer (hex_nat n @ CRLF @ r) CRLF = Some (length (hex_nat n))"
  using in_buffer_found [of "hex_nat n @ CRLF" CRLF "length (hex_nat n)" r] find_CRLF [OF chunk_size(3), of n "[]"] chunk_size(2) [of n]
  by (simp add: CRLF_def)

lemma size_not_in_buffer:
  assumes "b @ z = hex_nat n @ CRLF @ r" "length b < length (hex_nat n) + 2"
  shows "in_buffer b CRLF = None"
proof -
  obtain c where c: "b @ c = hex_nat n @ CRLF" using cut_within [of b z "hex_nat n @ CRLF" r] assms by (auto simp: CRLF_def)
  have "0 \<notin> set (hex_nat n @ CRLF)" using chunk_size(2) by (simp add: CRLF_def)
  then have "0 \<notin> set b" using c by (metis Un_iff set_append)
  then show ?thesis
    using in_buffer_cut [of b c CRLF "length (hex_nat n)"] find_CRLF [OF chunk_size(3), of n "[]"] c assms(2) by (simp add: CRLF_def)
qed

lemma read_chunk_part:
  assumes "hp_recvbuf p = b" "b @ z = chunk c @ r" "length b < length (chunk c)" "c \<noteq> []" "int (length c) < 2 ^ 31"
  shows "read_chunk bh p = ok (False, p)"
proof (cases "length b < length (hex_nat (length c)) + 2")
  case True
  then show ?thesis using size_not_in_buffer [of b z] assms(1,2) by (simp add: read_chunk_def chunk_text)
next
  case False
  let ?s = "hex_nat (length c)"
  define r' where "r' = drop (length (?s @ CRLF)) b"
  have "b = (?s @ CRLF) @ r'"
    using cut_beyond(1) [of b z "?s @ CRLF" "c @ CRLF @ r"] assms(2) False by (simp add: chunk_text r'_def CRLF_def)
  then have b: "b = ?s @ CRLF @ r'" by simp
  have "in_buffer b CRLF = Some (length ?s)" unfolding b by (rule size_in_buffer)
  moreover have "take (length ?s) b = ?s" by (simp add: b)
  moreover have "int (length b) < int (length c) + int (length ?s) + 4" using assms(3) by (simp add: chunk_text CRLF_def)
  ultimately show ?thesis using assms(1,4,5) by (simp add: read_chunk_def chunk_size strtol_hex_nat Let_def)
qed

lemma read_chunk_all:
  assumes "hp_recvbuf p = chunk c @ r" "c \<noteq> []" "int (length c) < 2 ^ 31"
  shows "read_chunk bh p = ok (True, p\<lparr> hp_body := hp_body p @ c, hp_recvbuf := r \<rparr>)"
proof -
  let ?s = "hex_nat (length c)"
  have b: "hp_recvbuf p = ?s @ CRLF @ c @ CRLF @ r" using assms(1) by (simp add: chunk_text)
  have n: "nat (int (length ?s) + 2 + int (length c)) = length ?s + 2 + length c" by linarith
  have "in_buffer (hp_recvbuf p) CRLF = Some (length ?s)" unfolding b by (rule size_in_buffer)
  then show ?thesis using assms(2,3)
    by (simp add: read_chunk_def b chunk_size strtol_hex_nat Let_def n) (simp add: CRLF_def)
qed

lemma hex_0: "hex_nat 0 = lit ''0''"
  by (simp add: hex_nat.simps lit_def)

lemma read_eof_part:
  assumes "hp_recvbuf p = b" "b @ z = EofData @ r" "length b < length EofData"
  shows "read_chunk bh p = ok (False, p)"
proof -
  have e: "EofData = hex_nat 0 @ CRLF @ CRLF" by (simp add: EofData_def hex_0 CRLF_def CRLFCRLF_def)
  have l: "length (hex_nat 0) = 1" by (simp add: hex_0 lit_def)
  show ?thesis
  proof (cases "length b < length (hex_nat 0) + 2")
    case True
    then show ?thesis using size_not_in_buffer [of b z 0 "CRLF @ r"] assms(1,2) by (simp add: read_chunk_def e)
  next
    case False
    define r' where "r' = drop (length (hex_nat 0 @ CRLF)) b"
    have "b = (hex_nat 0 @ CRLF) @ r'"
      using cut_beyond(1) [of b z "hex_nat 0 @ CRLF" "CRLF @ r"] assms(2) False by (simp add: e r'_def CRLF_def)
    then have b: "b = hex_nat 0 @ CRLF @ r'" by simp
    have "in_buffer b CRLF = Some 1" using size_in_buffer [of 0 r'] l b by simp
    moreover have "take 1 b = hex_nat 0" using l by (simp add: b)
    moreover have "length b < 1 + 4" using assms(3) by (simp add: e l CRLF_def)
    ultimately show ?thesis using assms(1) strtol_hex_nat [of 0] by (simp add: read_chunk_def chunk_size Let_def)
  qed
qed

lemma read_eof_all:
  assumes "hp_recvbuf p = EofData @ r" "3 \<le> length bh"
  shows "read_chunk bh p = ok (True, p\<lparr> hp_status := kEnd, hp_recvbuf := r \<rparr>)"
proof -
  have b: "hp_recvbuf p = hex_nat 0 @ CRLF @ CRLF @ r" using assms(1) by (simp add: EofData_def hex_0 CRLF_def CRLFCRLF_def)
  have l: "length (hex_nat 0) = 1" by (simp add: hex_0 lit_def)
  have s: "strtol 16 (Trim (hex_nat 0)) = 0" using strtol_hex_nat [of 0] by (simp add: chunk_size)
  have i: "in_buffer (hp_recvbuf p) CRLF = Some 1" using size_in_buffer [of 0 "CRLF @ r"] l b by simp
  have "find_str (c_str (take (length (hp_recvbuf p)) (CRLF @ r @ bh))) CRLF 0 = Some 0"
    by (simp add: find_str_iff c_str_def b CRLF_def)
  then have t: "string_strnstr (drop 3 (hp_recvbuf p) @ bh) CRLF (length (hp_recvbuf p)) = ok (Some 0)"
    using assms(2) l by (simp add: string_strnstr_def b CRLF_def)
  have d: "take 1 (hp_recvbuf p) = hex_nat 0" "drop 5 (hp_recvbuf p) = r" "\<not> length (hp_recvbuf p) < 5" using l by (simp_all add: b CRLF_def numeral_eq_Suc)
  show ?thesis using i t d s by (simp add: read_chunk_def Let_def and_then_def numeral_eq_Suc)
qed

lemma recv_body_stops:
  assumes "IsTransferEncodingChunked h" "read_chunk bh (at_body h q b e) = ok (False, at_body h q b e)"
  shows "recv_loop bh (at_body h q b e) = Some (ok (at_body h q b e))"
  using assms by (subst recv_loop.simps) (simp add: recv_once_def read_body_def at_body_def)

lemma recv_chunks:
  assumes "IsTransferEncodingChunked h" "3 \<le> length bh"
    and "\<forall>c \<in> set rest. c \<noteq> [] \<and> int (length c) < 2 ^ 31" "b @ z = concat (map chunk rest) @ EofData @ r"
  shows "\<exists>p. recv_loop bh (at_body h q (concat past) b) = Some (ok p) \<and> chunked_body h q (past @ rest) (concat (map chunk past) @ b) p"
  using assms(3,4)
proof (induction rest arbitrary: past b)
  case Nil
  show ?case
  proof (cases "length b < length EofData")
    case True
    then have "read_chunk bh (at_body h q (concat past) b) = ok (False, at_body h q (concat past) b)"
      using read_eof_part [of _ b z r] Nil.prems(2) by (simp add: at_body_def)
    from recv_body_stops [OF assms(1) this] True show ?thesis by (simp add: chunked_body_in [of _ past "[]"])
  next
    case False
    then have b: "b = EofData @ drop (length EofData) b" using cut_beyond(1) [of b z EofData r] Nil.prems(2) by simp
    define r' where "r' = drop (length EofData) b"
    have "read_chunk bh (at_body h q (concat past) b) = ok (True, finished h q (concat past) r')"
      using read_eof_all [of "at_body h q (concat past) b" r' bh] b assms(2) by (cases q) (simp add: at_body_def finished_def r'_def)
    moreover have "recv_loop bh (finished h q (concat past) r') = Some (ok (finished h q (concat past) r'))"
      by (subst recv_loop.simps) (simp add: recv_once_def finished_def)
    ultimately have "recv_loop bh (at_body h q (concat past) b) = Some (ok (finished h q (concat past) r'))"
      using assms(1) by (subst recv_loop.simps) (simp add: recv_once_def read_body_def at_body_def)
    then show ?thesis unfolding chunked_body_def using b by (auto simp: r'_def)
  qed
next
  case (Cons c rest)
  have c: "c \<noteq> []" "int (length c) < 2 ^ 31" using Cons.prems(1) by auto
  have e: "b @ z = chunk c @ (concat (map chunk rest) @ EofData @ r)" using Cons.prems(2) by simp
  show ?case
  proof (cases "length b < length (chunk c)")
    case True
    then have "read_chunk bh (at_body h q (concat past) b) = ok (False, at_body h q (concat past) b)"
      using read_chunk_part [OF _ e True c, of "at_body h q (concat past) b"] by (simp add: at_body_def)
    from recv_body_stops [OF assms(1) this] True show ?thesis by (simp add: chunked_body_in [of _ past "c # rest"])
  next
    case False
    define b' where "b' = drop (length (chunk c)) b"
    have b: "b = chunk c @ b'" "b' @ z = concat (map chunk rest) @ EofData @ r"
      using cut_beyond [OF e] False by (simp_all add: b'_def)
    obtain p where p: "recv_loop bh (at_body h q (concat (past @ [c])) b') = Some (ok p)"
        "chunked_body h q (past @ c # rest) (concat (map chunk past) @ b) p"
      using Cons.IH [of b' "past @ [c]"] Cons.prems(1) b by auto
    have rc: "read_chunk bh (at_body h q (concat past) b) = ok (True, at_body h q (concat (past @ [c])) b')"
      using read_chunk_all [OF _ c, of "at_body h q (concat past) b" b' bh] b(1) by (simp add: at_body_def)
    show ?thesis
    proof (cases "b' = []")
      case True
      have "recv_loop bh (at_body h q (concat past) b) = Some (ok (at_body h q (concat (past @ [c])) b'))"
        using assms(1) rc True by (subst recv_loop.simps) (simp add: recv_once_def read_body_def at_body_def)
      moreover have "chunked_body h q (past @ c # rest) (concat (map chunk past) @ b) (at_body h q (concat (past @ [c])) b')"
        using chunked_body_in [of "past @ c # rest" "past @ [c]" rest b' h q] True b(1) by (simp add: EofData_def CRLFCRLF_def)
      ultimately show ?thesis by blast
    next
      case False
      have "recv_loop bh (at_body h q (concat past) b) = recv_loop bh (at_body h q (concat (past @ [c])) b')"
        using assms(1) rc False by (subst recv_loop.simps) (simp add: recv_once_def read_body_def at_body_def)
      with p show ?thesis by auto
    qed
  qed
qed

interpretation ck: messages chunked_text chunked_ok "\<lambda>bh. 3 \<le> length bh" chunked_inv
proof
  fix m assume "chunked_ok m"
  then show "chunked_inv m [] Parser" by (cases m) (simp add: in_head_def head_text_def CRLF_def Parser_def)
next
  fix m d p x z and bh :: bytes
  assume m: "chunked_ok m" "chunked_inv m d p" "d @ x @ z = chunked_text m" "x \<noteq> []" "3 \<le> length bh"
  obtain l h q cs r where e: "m = (l, h, q, cs, r)" by (cases m)
  let ?t = "concat (map chunk cs) @ EofData @ r"
  have ok: "head_ok l h q" "IsTransferEncodingChunked (fields_of h)" "\<forall>c \<in> set cs. c \<noteq> [] \<and> int (length c) < 2 ^ 31"
    using m(1) e by (auto simp: lengths_of)
  have "\<exists>p'. Recv bh x p = Some (ok p') \<and> chunked_body (fields_of h) q cs (c @ x) p'" if B: "chunked_body (fields_of h) q cs c p" and c: "c @ x @ z = ?t" for c p
    using B unfolding chunked_body_def [of _ _ _ c]
  proof (elim disjE exE conjE)
    fix past rest b
    assume cs: "cs = past @ rest" "c = concat (map chunk past) @ b" "p = at_body (fields_of h) q (concat past) b"
    have "Recv bh x p = recv_loop bh (at_body (fields_of h) q (concat past) (b @ x))" using m(4) cs(3) by (simp add: Recv_def at_body_def)
    then show ?thesis using recv_chunks [OF ok(2) m(5), of rest "b @ x" z r q past] ok(3) c cs(1,2) by auto
  next
    fix b
    assume "c = concat (map chunk cs) @ EofData @ b" "p = finished (fields_of h) q (concat cs) b"
    then show ?thesis by (auto simp: Recv_finished chunked_body_def)
  qed
  moreover have "\<exists>p'. recv_loop bh (at_body (fields_of h) q [] c) = Some (ok p') \<and> chunked_body (fields_of h) q cs c p'" if "c @ z = ?t" for c
    using recv_chunks [OF ok(2) m(5), of cs c z r q "[]"] ok(3) that by simp
  ultimately show "\<exists>p'. Recv bh x p = Some (ok p') \<and> chunked_inv m (d @ x) p'"
    using Recv_cases [OF ok(1), of d x z ?t p "chunked_body (fields_of h) q cs" bh] m(2-4) e by simp
qed

section \<open>Whole messages\<close>

definition waiting :: "parser \<Rightarrow> bool" where
  "waiting p \<longleftrightarrow> hp_status p \<in> {kStart, kFirstLine, kHeaderFields, kBody}"

lemma waiting_not: "waiting p \<Longrightarrow> \<not> Error p \<and> \<not> Success p"
  by (auto simp: waiting_def Error_def Success_def)

lemma first_line_waiting: "first_line l = Some q \<Longrightarrow> waiting q"
  by (auto simp: first_line_def waiting_def Let_def Parser_def split: if_splits prod.splits)

lemma in_head_waiting: "in_head l h q d p \<Longrightarrow> waiting p"
  by (auto simp: in_head_def waiting_def Parser_def)

lemma at_body_waiting [simp]: "waiting (at_body h q b r)"
  by (simp add: at_body_def waiting_def)

lemma finished_simps [simp]:
  "hp_status (finished h q b r) = kEnd" "hp_body (finished h q b r) = b" "hp_recvbuf (finished h q b r) = r"
  "hp_fields (finished h q b r) = h" "hp_statusline (finished h q b r) = hp_statusline q"
  "hp_requestline (finished h q b r) = hp_requestline q" "hp_csmode (finished h q b r) = hp_csmode q"
  by (simp_all add: finished_def at_body_def)

text \<open>\<open>size\<close>: where the message ends; \<open>result\<close>: fields, parser after the first line, body.\<close>

locale whole_messages = messages stream good room inv
  for stream :: "'m \<Rightarrow> bytes" and good :: "'m \<Rightarrow> bool" and room :: "bytes \<Rightarrow> bool" and inv :: "'m \<Rightarrow> bytes \<Rightarrow> parser \<Rightarrow> bool" +
  fixes size :: "'m \<Rightarrow> nat" and result :: "'m \<Rightarrow> fields \<times> parser \<times> bytes"
  assumes before: "good m \<Longrightarrow> inv m d p \<Longrightarrow> length d < size m \<Longrightarrow> waiting p"
    and behind: "good m \<Longrightarrow> inv m d p \<Longrightarrow> size m \<le> length d \<Longrightarrow> result m = (h, q, b) \<Longrightarrow> \<exists>r. p = finished h q b r"
begin

lemma in_pieces:
  assumes "good m" "concat (map snd xs) @ z = stream m" "\<forall>(bh, x) \<in> set xs. room bh" "result m = (h, q, b)"
  shows "\<exists>p. recv_all xs Parser = Some (ok p) \<and> \<not> Error p \<and> (Success p \<longleftrightarrow> size m \<le> length (concat (map snd xs)))
    \<and> (Success p \<longrightarrow> (\<exists>r. p = finished h q b r))"
proof -
  obtain p where p: "recv_all xs Parser = Some (ok p)" "inv m (concat (map snd xs)) p" using pieces assms(1-3) by blast
  show ?thesis
  proof (cases "length (concat (map snd xs)) < size m")
    case True
    from waiting_not [OF before [OF assms(1) p(2) True]] p(1) True show ?thesis by auto
  next
    case False
    with behind [OF assms(1) p(2) _ assms(4)] obtain r where "p = finished h q b r" by auto
    with p(1) False show ?thesis by (auto simp: Error_def Success_def)
  qed
qed

end

fun sized_size :: "message \<Rightarrow> nat" where
  "sized_size (l, h, q, b, r) = length (head_text l h) + length b"

fun sized_result :: "message \<Rightarrow> fields \<times> parser \<times> bytes" where
  "sized_result (l, h, q, b, r) = (fields_of h, q, b)"

interpretation szw: whole_messages sized_text sized_ok "\<lambda>bh. True" sized_inv sized_size sized_result
proof
  fix m d p assume "sized_ok m" "sized_inv m d p" "length d < sized_size m"
  then show "waiting p" by (cases m) (auto simp: sized_body_def in_head_waiting split: if_splits)
next
  fix m d p h q b assume "sized_ok m" "sized_inv m d p" "sized_size m \<le> length d" "sized_result m = (h, q, b)"
  then show "\<exists>r. p = finished h q b r" by (cases m) (auto simp: sized_body_def split: if_splits)
qed

fun chunked_size :: "chunked_message \<Rightarrow> nat" where
  "chunked_size (l, h, q, cs, r) = length (head_text l h) + length (concat (map chunk cs) @ EofData)"

fun chunked_result :: "chunked_message \<Rightarrow> fields \<times> parser \<times> bytes" where
  "chunked_result (l, h, q, cs, r) = (fields_of h, q, concat cs)"

lemma chunked_body_cases:
  assumes "chunked_body h q cs e p"
  shows "if length e < length (concat (map chunk cs) @ EofData) then waiting p else \<exists>r. p = finished h q (concat cs) r"
  using assms unfolding chunked_body_def
proof (elim disjE exE conjE)
  fix past rest b
  assume "cs = past @ rest" "e = concat (map chunk past) @ b" "p = at_body h q (concat past) b"
    "length b < length (concat (map chunk rest) @ EofData)"
  then show ?thesis by simp
qed auto

interpretation ckw: whole_messages chunked_text chunked_ok "\<lambda>bh. 3 \<le> length bh" chunked_inv chunked_size chunked_result
proof
  fix m d p assume a: "chunked_ok m" "chunked_inv m d p" "length d < chunked_size m"
  obtain l h q cs r where m: "m = (l, h, q, cs, r)" by (cases m)
  show "waiting p"
    using a(2,3) chunked_body_cases [of "fields_of h" q cs "drop (length (head_text l h)) d" p] in_head_waiting [of l h q d p]
    by (auto simp: m split: if_splits)
next
  fix m d p h q b assume a: "chunked_ok m" "chunked_inv m d p" "chunked_size m \<le> length d" "chunked_result m = (h, q, b)"
  obtain l ls cs r where m: "m = (l, ls, q, cs, r)" "h = fields_of ls" "b = concat cs" using a(4) by (cases m) auto
  show "\<exists>r. p = finished h q b r"
    using a(2,3) chunked_body_cases [of h q cs "drop (length (head_text l ls)) d" p] by (auto simp: m split: if_splits)
qed

section \<open>The parser's loop ends\<close>

text \<open>Every round that goes on leaves the state of the parse or takes bytes; only a parse that failed before goes on for ever.\<close>

definition phase :: "parser \<Rightarrow> nat" where
  "phase p = (case hp_status p of kStart \<Rightarrow> 3 | kFirstLine \<Rightarrow> 3 | kHeaderFields \<Rightarrow> 2 | kBody \<Rightarrow> 1 | _ \<Rightarrow> 0)"

lemma read_chunk_goes_on: "read_chunk bh p = ok (True, p') \<Longrightarrow> hp_status p = kBody \<Longrightarrow>
  \<not> Error p' \<and> (phase p' = 0 \<or> phase p' = 1 \<and> length (hp_recvbuf p') < length (hp_recvbuf p))"
  by (auto simp: read_chunk_def Let_def and_then_ok_iff phase_def Error_def split: option.splits if_splits)

lemma read_length_goes_on: "read_length p = ok (True, p') \<Longrightarrow> hp_status p = kBody \<Longrightarrow> hp_recvbuf p' \<noteq> [] \<Longrightarrow>
  \<not> Error p' \<and> phase p' = 1 \<and> length (hp_recvbuf p') < length (hp_recvbuf p)"
  by (auto simp: read_length_def Let_def phase_def Error_def split: if_splits)

lemma recv_once_goes_on:
  assumes "recv_once bh p = ok (True, p')" "\<not> Error p"
  shows "\<not> Error p' \<and> (phase p' < phase p \<or> phase p' = phase p \<and> length (hp_recvbuf p') < length (hp_recvbuf p))"
proof (cases "hp_status p")
  case kBody
  from kBody assms(1) obtain g where g: "(if IsTransferEncodingChunked (hp_fields p) then read_chunk bh p else read_length p) = ok (g, p')"
      "g" "hp_recvbuf p' \<noteq> []"
    by (auto simp: recv_once_def read_body_def and_then_ok_iff)
  then show ?thesis using kBody read_chunk_goes_on [of bh p p'] read_length_goes_on [of p p']
    by (auto simp: phase_def split: if_splits)
qed (use assms in \<open>auto simp: recv_once_def read_first_line_def read_fields_def Let_def phase_def Error_def split: option.splits if_splits prod.splits\<close>)

lemma recv_loop_ends: "\<not> Error p \<Longrightarrow> recv_loop bh p \<noteq> None"
proof (induction p rule: wf_induct_rule [OF wf_measures [of "[phase, \<lambda>p. length (hp_recvbuf p)]"]])
  case (1 p)
  show ?case
  proof (cases "recv_once bh p")
    case (Inr x)
    obtain go_on p' where x: "x = (go_on, p')" by (cases x)
    show ?thesis
    proof (cases go_on)
      case True
      then show ?thesis using 1 recv_once_goes_on [of bh p p'] Inr x by (subst recv_loop.simps) simp
    qed (use Inr x in \<open>subst recv_loop.simps, simp\<close>)
  qed (subst recv_loop.simps, simp)
qed

lemma Recv_ends: "\<not> Error p \<Longrightarrow> Recv bh x p \<noteq> None"
  using recv_loop_ends [of "p\<lparr> hp_recvbuf := hp_recvbuf p @ x \<rparr>" bh] by (simp add: Recv_def Error_def)

text \<open>After an error the next piece never returns.\<close>

lemma recv_loop_stuck:
  assumes "recv_loop bh p = Some y"
  shows "recv_once bh p \<noteq> ok (True, p)"
proof (rule recv_loop.raw_induct [where P = "\<lambda>bh p y. recv_once bh p \<noteq> ok (True, p)", OF _ assms])
  fix f :: "bytes \<Rightarrow> parser \<Rightarrow> parser res option" and bh p y
  assume IH: "\<And>bh p y. f bh p = Some y \<Longrightarrow> recv_once bh p \<noteq> ok (True, p)"
    and y: "(case recv_once bh p of Inl x \<Rightarrow> Some (crash x) | Inr (go_on, p) \<Rightarrow> if go_on then f bh p else Some (ok p)) = Some y"
  show "recv_once bh p \<noteq> ok (True, p)"
  proof
    assume s: "recv_once bh p = ok (True, p)"
    with y have "f bh p = Some y" by simp
    with IH s show False by blast
  qed
qed

lemma Recv_after_error:
  assumes "Error p" "x \<noteq> []"
  shows "Recv bh x p = None"
proof -
  have "recv_once bh (p\<lparr> hp_recvbuf := hp_recvbuf p @ x \<rparr>) = ok (True, p\<lparr> hp_recvbuf := hp_recvbuf p @ x \<rparr>)"
    using assms(1) by (auto simp: Error_def recv_once_def)
  then show ?thesis using recv_loop_stuck [of bh] assms(2) by (cases "recv_loop bh (p\<lparr> hp_recvbuf := hp_recvbuf p @ x \<rparr>)") (auto simp: Recv_def)
qed

section \<open>Lines of text\<close>

lemma SplitToken_skip: "d c \<Longrightarrow> SplitToken d (c # r) = SplitToken d r"
  by (subst (1 2) SplitToken.simps) simp

lemma SplitToken_Nil [simp]: "SplitToken d [] = []"
  by (subst SplitToken.simps) simp

lemma SplitToken_token:
  assumes "t \<noteq> []" "\<forall>x \<in> set t. \<not> d x" "r = [] \<or> d (hd r)"
  shows "SplitToken d (t @ r) = t # SplitToken d r"
proof -
  have "dropWhile d (t @ r) = t @ r" using assms(1,2) by (cases t) auto
  moreover have "takeWhile (\<lambda>c. \<not> d c) (t @ r) = t" "dropWhile (\<lambda>c. \<not> d c) (t @ r) = r"
    using assms(2,3) by (cases r; simp add: takeWhile_append2 dropWhile_append2)+
  ultimately show ?thesis using assms(1) by (subst SplitToken.simps) (simp add: Let_def)
qed

lemma SplitToken_delim:
  "t \<noteq> [] \<Longrightarrow> \<forall>x \<in> set t. \<not> d x \<Longrightarrow> d c \<Longrightarrow> SplitToken d (t @ c # r) = t # SplitToken d r"
  by (simp add: SplitToken_token SplitToken_skip)

lemma three_tokens:
  assumes "\<forall>t \<in> {a, b, c}. t \<noteq> [] \<and> 32 \<notin> set t"
  shows "SplitToken (\<lambda>c. c = 32) (a @ 32 # b @ 32 # c) = [a, b, c]"
proof -
  have t: "t \<noteq> [] \<and> (\<forall>x \<in> set t. x \<noteq> 32)" if "t \<in> {a, b, c}" for t using assms that by blast
  have "SplitToken (\<lambda>c. c = 32) (c @ []) = c # SplitToken (\<lambda>c. c = 32) []" using t [of c] by (intro SplitToken_token) auto
  then show ?thesis using t [of a] t [of b] by (simp add: SplitToken_delim)
qed

definition token :: "bytes \<Rightarrow> bool" where
  "token t \<longleftrightarrow> t \<noteq> [] \<and> 0 \<notin> set t \<and> 13 \<notin> set t \<and> 32 \<notin> set t"

lemma version_token: "token (kHttpVersionString v)"
  by (cases v) (simp_all add: token_def lit_def)

lemma method_token: "token (kHttpMethodString m)"
  by (cases m) (simp_all add: token_def lit_def)

lemma GetHttpVersion_name: "GetHttpVersion (kHttpVersionString v) = v"
  by (cases v) (simp_all add: GetHttpVersion_def lit_def c_str_def)

lemma get_method_name: "get_method (kHttpMethodString m) = m"
  by (cases m) (simp_all add: get_method_def lit_def c_str_def)

definition request_text :: "request_line \<Rightarrow> bytes" where
  "request_text r = kHttpMethodString (rq_method r) @ KStringSpace @ rq_url r @ KStringSpace @ kHttpVersionString (rq_version r)"

definition status_text :: "status_line \<Rightarrow> bytes" where
  "status_text s = kHttpVersionString (sl_version s) @ KStringSpace @ dec_int (sl_code s) @ KStringSpace @ sl_reason s"

lemma ToString_text: "Request_ToString r = request_text r @ CRLF" "Status_ToString s = status_text s @ CRLF"
  by (simp_all add: Request_ToString_def request_text_def Status_ToString_def status_text_def)

lemma request_roundtrip:
  assumes "token (rq_url r)" "rq_method r \<noteq> kUnknown" "rq_version r \<noteq> kVersion_Unknow"
  shows "Request_FromString (Request_ToString r) r' = (True, r)"
proof -
  have t: "\<forall>t \<in> {kHttpMethodString (rq_method r), rq_url r, kHttpVersionString (rq_version r)}. t \<noteq> [] \<and> 32 \<notin> set t"
    and cr: "13 \<notin> set (request_text r)"
    using assms(1) method_token [of "rq_method r"] version_token [of "rq_version r"] by (auto simp: token_def request_text_def KStringSpace_def)
  have f: "find_str (request_text r @ CRLF) CRLF 0 = Some (length (request_text r))" using find_CRLF [OF cr, of "[]"] by simp
  have "SplitToken (\<lambda>c. c = 32) (request_text r) = [kHttpMethodString (rq_method r), rq_url r, kHttpVersionString (rq_version r)]"
    using three_tokens [OF t] by (simp add: request_text_def KStringSpace_def)
  then show ?thesis using assms(2,3) f
    by (simp add: Request_FromString_def ToString_text get_method_name GetHttpVersion_name Let_def)
qed

lemma dec_token: "token (dec_nat n)"
proof -
  have "digit_value 10 c \<noteq> None" if "c \<in> set (dec_nat n)" for c using dec_nat_read [of n] that by blast
  from digit_not(1,2,7) [OF this] have "\<forall>c \<in> set (dec_nat n). c \<noteq> 0 \<and> \<not> isspace c \<and> c \<noteq> 13" by simp
  then show ?thesis using dec_nat_read [of n] by (auto simp: token_def isspace_def)
qed

lemma status_roundtrip:
  assumes "token (sl_reason s)" "0 \<le> sl_code s" "sl_code s < 2 ^ 31" "sl_version s \<noteq> kVersion_Unknow"
  shows "Status_FromString (Status_ToString s) s' = (True, s)"
proof -
  have d: "dec_int (sl_code s) = dec_nat (nat (sl_code s))" using assms(2) by (simp add: dec_int_def)
  have t: "\<forall>t \<in> {kHttpVersionString (sl_version s), dec_nat (nat (sl_code s)), sl_reason s}. t \<noteq> [] \<and> 32 \<notin> set t"
    and cr: "13 \<notin> set (status_text s)"
    using assms(1) dec_token [of "nat (sl_code s)"] version_token [of "sl_version s"] by (auto simp: token_def status_text_def KStringSpace_def d)
  have f: "find_str (status_text s @ CRLF) CRLF 0 = Some (length (status_text s))" using find_CRLF [OF cr, of "[]"] by simp
  have "SplitToken (\<lambda>c. c = 32) (status_text s) = [kHttpVersionString (sl_version s), dec_nat (nat (sl_code s)), sl_reason s]"
    using three_tokens [OF t] by (simp add: status_text_def KStringSpace_def d)
  then show ?thesis using assms(2-4) f strtol_dec_nat [of "nat (sl_code s)"]
    by (simp add: Status_FromString_def ToString_text GetHttpVersion_name Let_def)
qed

text \<open>What the parser knows after these lines.\<close>

lemma first_line_request:
  assumes "token (rq_url r)" "rq_method r \<noteq> kUnknown" "rq_version r \<noteq> kVersion_Unknow"
  shows "first_line (request_text r) = Some (Parser\<lparr> hp_requestline := r, hp_csmode := kRequest \<rparr>)"
proof -
  have "\<not> StartsWith (request_text r @ CRLF) (lit ''HTTP/'')"
    by (cases "rq_method r") (simp_all add: StartsWith_iff request_text_def lit_def KStringSpace_def)
  then show ?thesis using request_roundtrip [OF assms] by (simp add: first_line_def ToString_text)
qed

lemma first_line_status:
  assumes "token (sl_reason s)" "0 \<le> sl_code s" "sl_code s < 2 ^ 31" "sl_version s \<noteq> kVersion_Unknow"
  shows "first_line (status_text s) = Some (Parser\<lparr> hp_statusline := s, hp_csmode := kRespond \<rparr>)"
proof -
  have "StartsWith (status_text s @ CRLF) (lit ''HTTP/'')"
    using assms(4) by (cases "sl_version s") (simp_all add: StartsWith_iff status_text_def lit_def)
  then show ?thesis using status_roundtrip [OF assms] by (simp add: first_line_def ToString_text)
qed

section \<open>Properties\<close>

text \<open>C11: However the stream is cut into pieces, the parser takes a message with a content length in: as long as
  the body is not complete it waits, without an error; then it has ended with exactly the body, the fields and
  the first line that were sent, and leaves what follows alone. The fields may come in any order, in any spelling of their
  names and more than once: the first value of a name counts.\<close>

theorem sized_message_received:
  assumes "head_ok l h q" "\<not> IsTransferEncodingChunked (sent_fields h)" "ContentLength (sent_fields h) = int (length b)"
    and "concat (map snd xs) @ z = head_text l h @ b @ r"
  shows "\<exists>p. recv_all xs Parser = Some (ok p) \<and> \<not> Error p
    \<and> (Success p \<longleftrightarrow> length (head_text l h) + length b \<le> length (concat (map snd xs)))
    \<and> (Success p \<longrightarrow> hp_body p = b \<and> hp_fields p = fields_of h \<and> (\<forall>key. HeaderField key (hp_fields p) = HeaderField key (sent_fields h))
        \<and> hp_statusline p = hp_statusline q \<and> hp_requestline p = hp_requestline q)"
  using szw.in_pieces [of "(l, h, q, b, r)" xs z "fields_of h" q b] assms by (auto simp: HeaderField_of)

definition sample_head :: bytes where "sample_head = lit ''HTTP/1.1 200 OK''"
definition sample_status :: status_line where "sample_status = \<lparr> sl_version = kVersion_1_1, sl_code = 200, sl_reason = lit ''OK'' \<rparr>"
definition sample_first :: parser where "sample_first = Parser\<lparr> hp_statusline := sample_status, hp_csmode := kRespond \<rparr>"

lemma sample_first_line: "first_line sample_head = Some sample_first"
proof -
  have "status_text sample_status = sample_head" by code_simp
  moreover have "token (sl_reason sample_status)" by code_simp
  ultimately show ?thesis using first_line_status [of sample_status] by (simp add: sample_first_def sample_status_def)
qed

definition sized_fields :: "bytes list" where
  "sized_fields = [lit ''Server: nginx'', lit ''content-length:2 '', lit ''Connection: close'', lit ''Content-Length: 7'']"
definition chunked_fields :: "bytes list" where
  "chunked_fields = [lit ''Transfer-Encoding: chunked'', lit ''Date: today'']"

lemma sample_head_ok: "h \<in> {sized_fields, chunked_fields} \<Longrightarrow> head_ok sample_head h sample_first"
proof -
  have "0 \<notin> set sample_head \<and> 13 \<notin> set sample_head \<and> length sample_head < 8192" by (simp add: sample_head_def lit_def)
  moreover have "list_all line_ok (sized_fields @ chunked_fields)" by code_simp
  then have "\<forall>x \<in> set sized_fields. line_ok x" "\<forall>x \<in> set chunked_fields. line_ok x" by (simp_all add: list_all_iff)
  moreover have "length (lines_text sized_fields) < 131072" "length (lines_text chunked_fields) < 131072"
      "sized_fields \<noteq> []" "chunked_fields \<noteq> []"
    by (simp_all add: sized_fields_def chunked_fields_def lit_def CRLF_def)
  ultimately show "h \<in> {sized_fields, chunked_fields} \<Longrightarrow> head_ok sample_head h sample_first"
    using sample_first_line by (auto simp: head_ok_def)
qed

definition sample_pieces :: "bytes \<Rightarrow> (bytes \<times> bytes) list" where
  "sample_pieces s = map (\<lambda>x. ([0, 0, 0], x)) [take 7 s, [], drop 7 s]"

lemma concat_sample_pieces: "concat (map snd (sample_pieces s)) = s" "\<forall>(bh, x) \<in> set (sample_pieces s). 3 \<le> length bh"
  by (simp_all add: sample_pieces_def)

lemma sample_lengths:
  "\<not> IsTransferEncodingChunked (sent_fields sized_fields)" "ContentLength (sent_fields sized_fields) = 2"
  "IsTransferEncodingChunked (sent_fields chunked_fields)"
  by code_simp+

theorem sized_message_received_witness:
  "\<exists>p. recv_all (sample_pieces (head_text sample_head sized_fields @ lit ''hi'' @ lit ''more'')) Parser = Some (ok p)
    \<and> Success p \<and> hp_body p = lit ''hi''"
  using sized_message_received [of sample_head sized_fields sample_first "lit ''hi''"
      "sample_pieces (head_text sample_head sized_fields @ lit ''hi'' @ lit ''more'')" "[]" "lit ''more''"]
    sample_head_ok sample_lengths by (auto simp: concat_sample_pieces lit_def)

text \<open>C12: The same for a message in chunks, whatever the chunks and the cuts: what \<^verbatim>\<open>AppendHeader\<close>, \<^verbatim>\<open>AppendTail\<close> and
  \<^verbatim>\<open>EofData\<close> write is put together to the same body, with the fields in any order, provided three bytes can
  be read behind the data of every buffer: the search for the end of the trailer runs past it, and crashes without
  them.\<close>

theorem chunked_message_received:
  assumes "head_ok l h q" "IsTransferEncodingChunked (sent_fields h)" "\<forall>c \<in> set cs. c \<noteq> [] \<and> int (length c) < 2 ^ 31"
    and "concat (map snd xs) @ z = head_text l h @ concat (map (\<lambda>c. AppendTail (AppendHeader [] (length c) @ c)) cs) @ EofData @ r"
    and "\<forall>(bh, x) \<in> set xs. 3 \<le> length bh"
  shows "\<exists>p. recv_all xs Parser = Some (ok p) \<and> \<not> Error p \<and> (Success p \<longrightarrow> hp_body p = concat cs \<and> hp_fields p = fields_of h
        \<and> (\<forall>key. HeaderField key (hp_fields p) = HeaderField key (sent_fields h))
        \<and> hp_statusline p = hp_statusline q \<and> hp_requestline p = hp_requestline q)
    \<and> (Success p \<longleftrightarrow> length (head_text l h) + length (concat (map (\<lambda>c. AppendTail (AppendHeader [] (length c) @ c)) cs) @ EofData)
        \<le> length (concat (map snd xs)))"
proof -
  have "chunk = (\<lambda>c. AppendTail (AppendHeader [] (length c) @ c))" by (simp add: chunk_def fun_eq_iff)
  then show ?thesis using ckw.in_pieces [of "(l, h, q, cs, r)" xs z "fields_of h" q "concat cs"] assms by (auto simp: HeaderField_of)
qed

theorem chunked_message_received_witness:
  "\<exists>p. recv_all (sample_pieces (head_text sample_head chunked_fields @ AppendTail (AppendHeader [] 2 @ lit ''hi'') @ AppendTail (AppendHeader [] 1 @ lit ''!'') @ EofData))
      Parser = Some (ok p) \<and> Success p \<and> hp_body p = lit ''hi!''"
  using chunked_message_received [of sample_head chunked_fields sample_first "[lit ''hi'', lit ''!'']"
      "sample_pieces (head_text sample_head chunked_fields @ AppendTail (AppendHeader [] 2 @ lit ''hi'') @ AppendTail (AppendHeader [] 1 @ lit ''!'') @ EofData)" "[]" "[]"]
    sample_head_ok sample_lengths by (simp add: concat_sample_pieces(1)) (auto simp: concat_sample_pieces lit_def numeral_2_eq_2)

text \<open>C16: The parser's loop ends on every input, unless an earlier call has ended with an error: then the next
  bytes make it run for ever.\<close>

theorem parser_ends_iff: "Recv bh x p = None \<longleftrightarrow> x \<noteq> [] \<and> Error p"
proof (cases "x = []")
  case False
  then show ?thesis using Recv_ends [of p bh x] Recv_after_error [of p x bh] by (cases "Error p") simp_all
qed (simp add: Recv_def)

section \<open>What the parser does not manage\<close>

text \<open>A head without fields is understood when its empty line comes in one piece with the first line; when it
  comes with the next piece, the parser waits for more.\<close>

lemma no_fields_cut:
  assumes "first_line l = Some q" "0 \<notin> set l" "13 \<notin> set l" "length l < 8192"
  shows "Recv bh (l @ CRLFCRLF) Parser = Some (ok (finished [] q [] []))"
    "recv_all [(bh, l @ CRLF), (bh, CRLF)] Parser = Some (ok (q\<lparr> hp_status := kHeaderFields, hp_recvbuf := CRLF \<rparr>))"
proof -
  have q: "hp_fields q = []" "hp_body q = []" using first_line_q [OF assms(1)] by auto
  have t: "in_buffer (l @ CRLF @ r) CRLF = Some (length l)" for r
    using in_buffer_found [of "l @ CRLF" CRLF "length l" r] find_CRLF [OF assms(3), of "[]"] assms(2) by (simp add: CRLF_def)
  have four: "l @ CRLFCRLF = l @ CRLF @ CRLF" by (simp add: CRLF_def CRLFCRLF_def)
  have e: "in_buffer (l @ CRLF @ CRLF) CRLFCRLF = Some (length l)"
    using find_str_here [of 13 l "[10, 13, 10]" "[]"] assms(2,3) by (simp add: in_buffer_def c_str_id CRLF_def CRLFCRLF_def)
  have n: "in_buffer (l @ CRLF) CRLFCRLF = None"
    using in_buffer_cut [of "l @ CRLF" CRLF CRLFCRLF "length l"] find_str_here [of 13 l "[10, 13, 10]" "[]"] assms(2,3)
    by (simp add: CRLF_def CRLFCRLF_def)
  have "read_first_line (Parser\<lparr> hp_recvbuf := l @ CRLF @ CRLF \<rparr>) = (True, at_body [] q [] [])"
    using assms(1) t [of CRLF] e q
    by (cases q) (auto simp: read_first_line_def first_line_def at_body_def Let_def Parser_def CRLF_def split: if_splits prod.splits)
  then have "recv_loop bh (Parser\<lparr> hp_recvbuf := l @ CRLF @ CRLF \<rparr>) = recv_loop bh (at_body [] q [] [])"
    by (subst recv_loop.simps) (simp add: recv_once_def Parser_def)
  also have "\<dots> = Some (ok (finished [] q [] []))"
    by (cases q, subst recv_loop.simps)
      (simp add: recv_once_def read_body_def read_length_def at_body_def finished_def IsTransferEncodingChunked_def ContentLength_def)
  finally show "Recv bh (l @ CRLFCRLF) Parser = Some (ok (finished [] q [] []))" by (simp add: Recv_def four CRLF_def Parser_def)
  have "read_first_line (Parser\<lparr> hp_recvbuf := l @ CRLF \<rparr>) = (True, q\<lparr> hp_status := kHeaderFields, hp_recvbuf := [] \<rparr>)"
    using assms(1) t [of "[]"] n by (auto simp: read_first_line_def first_line_def Let_def Parser_def CRLF_def split: if_splits prod.splits)
  then have a: "recv_loop bh (Parser\<lparr> hp_recvbuf := l @ CRLF \<rparr>) = recv_loop bh (q\<lparr> hp_status := kHeaderFields, hp_recvbuf := [] \<rparr>)"
    by (subst recv_loop.simps) (simp add: recv_once_def Parser_def)
  have w: "recv_loop bh (q\<lparr> hp_status := kHeaderFields, hp_recvbuf := x \<rparr>) = Some (ok (q\<lparr> hp_status := kHeaderFields, hp_recvbuf := x \<rparr>))"
    if "x = [] \<or> x = CRLF" for x
    using that by (subst recv_loop.simps) (auto simp: recv_once_def read_fields_def in_buffer_def c_str_def CRLF_def CRLFCRLF_def find_str_def)
  show "recv_all [(bh, l @ CRLF), (bh, CRLF)] Parser = Some (ok (q\<lparr> hp_status := kHeaderFields, hp_recvbuf := CRLF \<rparr>))"
    using a w [of "[]"] w [of CRLF] by (simp add: Recv_def Parser_def CRLF_def)
qed

text \<open>A negative length ends the process, and so does the end of a body in chunks that lies at the end of the
  readable memory.\<close>

lemma hostile_lengths:
  assumes "head_ok l h q"
  shows "\<not> IsTransferEncodingChunked (fields_of h) \<Longrightarrow> ContentLength (fields_of h) < 0 \<Longrightarrow> Recv bh (head_text l h @ b) Parser = Some (crash BufferOverrun)"
    and "IsTransferEncodingChunked (fields_of h) \<Longrightarrow> Recv [] (head_text l h @ EofData) Parser = Some (crash BadRead)"
proof -
  have i: "in_head l h q [] Parser" by (simp add: in_head_def head_text_def CRLF_def Parser_def)
  have ne: "head_text l h \<noteq> []" by (simp add: head_text_def CRLF_def)
  have R: "Recv bh (head_text l h @ b) Parser = recv_loop bh (at_body (fields_of h) q [] b)" for bh b
    using Recv_head [OF assms i, of "head_text l h @ b" "[]" b bh] ne by simp
  show "Recv bh (head_text l h @ b) Parser = Some (crash BufferOverrun)" if "\<not> IsTransferEncodingChunked (fields_of h)" "ContentLength (fields_of h) < 0"
    unfolding R using that by (subst recv_loop.simps) (simp add: recv_once_def read_body_def read_length_def at_body_def Let_def)
  have b: "in_buffer EofData CRLF = Some 1" "strtol 16 (Trim (take 1 EofData)) = 0" by code_simp+
  show "Recv [] (head_text l h @ EofData) Parser = Some (crash BadRead)" if "IsTransferEncodingChunked (fields_of h)"
    unfolding R using that b
    by (subst recv_loop.simps) (simp add: recv_once_def read_body_def read_chunk_def at_body_def string_strnstr_def EofData_def CRLF_def CRLFCRLF_def lit_def)
qed

text \<open>A line without a colon becomes a field with the line as name and value.\<close>

lemma header_line_without_colon:
  assumes s: "58 \<notin> set s" "s \<noteq> []"
  shows "header_line s h = HeaderFiled (Trim s) (Trim s) h"
proof -
  have tw: "takeWhile (\<lambda>c. c \<noteq> 58) s = s" using s(1) by (auto simp: takeWhile_eq_all_conv)
  have "\<not> list_all (\<lambda>c. c = 58) s" using s by (cases s) auto
  then show ?thesis unfolding header_line_def Let_def tw using s by simp
qed

end
