(* ===== verification/Block_Socket.thy ===== *)
theory Block_Socket imports Interfaces begin

text \<open>
  Sending and receiving on a socket that does not block (\<^verbatim>\<open>mars/comm/socket/block_socket.cc\<close>). What the
  operating system answers is an argument, a list of rounds: the result of \<^verbatim>\<open>send\<close> or \<^verbatim>\<open>recv\<close> and of the
  \<^verbatim>\<open>select\<close> after it. The result is \<open>None\<close> while the answers do not yet let the function return. The
  lemmas say which bytes were handed over or taken when it does.
\<close>

text \<open>\<open>RecvData []\<close> is the peer's close; the last argument of the failures is \<^verbatim>\<open>IS_NOBLOCK_..._ERRNO\<close>.\<close>

datatype send_result = SendRet int int bool
datatype recv_result = RecvData bytes | RecvFail int bool

text \<open>What \<^verbatim>\<open>SocketSelect\<close> says: the result of \<^verbatim>\<open>Select\<close>, \<^verbatim>\<open>Errno\<close>, \<^verbatim>\<open>IsException\<close>, \<^verbatim>\<open>IsBreak\<close>,
  \<^verbatim>\<open>Exception_FD_ISSET\<close>, \<^verbatim>\<open>Write_FD_ISSET\<close> or \<^verbatim>\<open>Read_FD_ISSET\<close>, \<^verbatim>\<open>socket_error\<close>.\<close>

record selected =
  se_ret :: int
  se_errno :: int
  se_exception :: bool
  se_break :: bool
  se_sock_exception :: bool
  se_sock_ready :: bool
  se_sock_error :: int

definition ETIMEDOUT :: int where "ETIMEDOUT = 10060"

text \<open>Result and error code, and the bytes that were sent.\<close>

fun block_socket_send :: "(send_result \<times> selected) list \<Rightarrow> bytes \<Rightarrow> nat \<Rightarrow> ((int \<times> int) \<times> bytes) option" where
  "block_socket_send [] buffer sent_len = None"
| "block_socket_send ((SendRet nwrite err noblock, sel) # rounds) buffer sent_len =
     (if nwrite = 0 \<or> 0 > nwrite \<and> \<not> noblock then Some ((- 1, err), take sent_len buffer)
      else let sent_len = (if 0 < nwrite then sent_len + nat nwrite else sent_len) in
           if sent_len \<ge> length buffer then Some ((int sent_len, 0), take sent_len buffer)
           else if se_ret sel < 0 then Some ((- 1, se_errno sel), take sent_len buffer)
           else if se_ret sel = 0 then Some ((int sent_len, ETIMEDOUT), take sent_len buffer)
           else if se_exception sel \<or> se_break sel then Some ((int sent_len, 0), take sent_len buffer)
           else if se_sock_exception sel then Some ((- 1, se_sock_error sel), take sent_len buffer)
           else if \<not> se_sock_ready sel then Some ((- 1, se_sock_error sel), take sent_len buffer)
           else block_socket_send rounds buffer sent_len)"

text \<open>Result and error code, and the bytes that the buffer gains; \<open>got\<close> lies behind its data already. A
  failure leaves the length as it was.\<close>

definition enough :: "nat \<Rightarrow> bool \<Rightarrow> bytes \<Rightarrow> ((int \<times> int) \<times> bytes) + bytes" where
  "enough max_size wait_full_size got =
     (if length got \<ge> max_size then Inl ((int (length got), 0), got)
      else if got \<noteq> [] \<and> \<not> wait_full_size then Inl ((int (length got), 0), got)
      else Inr got)"

definition after_recv :: "recv_result \<Rightarrow> nat \<Rightarrow> bool \<Rightarrow> bytes \<Rightarrow> ((int \<times> int) \<times> bytes) + bytes" where
  "after_recv r max_size wait_full_size got =
     (case r of
        RecvFail err noblock \<Rightarrow> if \<not> noblock then Inl ((- 1, err), []) else enough max_size wait_full_size got
      | RecvData s \<Rightarrow> if s = [] then Inl ((int (length got), 0), got) else enough max_size wait_full_size (got @ s))"

definition after_select :: "selected \<Rightarrow> bytes \<Rightarrow> ((int \<times> int) \<times> bytes) + bytes" where
  "after_select sel got =
     (if se_ret sel < 0 then Inl ((- 1, se_errno sel), [])
      else if se_ret sel = 0 then Inl ((int (length got), ETIMEDOUT), got)
      else if se_exception sel \<or> se_break sel then Inl ((int (length got), se_errno sel), got)
      else if se_sock_exception sel then Inl ((- 1, se_sock_error sel), [])
      else if \<not> se_sock_ready sel then Inl ((- 1, se_sock_error sel), [])
      else Inr got)"

fun block_socket_recv :: "(recv_result \<times> selected) list \<Rightarrow> nat \<Rightarrow> bool \<Rightarrow> bytes \<Rightarrow> ((int \<times> int) \<times> bytes) option" where
  "block_socket_recv [] max_size wait_full_size got = None"
| "block_socket_recv ((r, sel) # rounds) max_size wait_full_size got =
     (case after_recv r max_size wait_full_size got of
        Inl x \<Rightarrow> Some x
      | Inr got \<Rightarrow> (case after_select sel got of Inl x \<Rightarrow> Some x | Inr got \<Rightarrow> block_socket_recv rounds max_size wait_full_size got))"

section \<open>Lemmas\<close>

text \<open>What the operating system may answer: never more than it was asked for.\<close>

fun sends_fit :: "(send_result \<times> selected) list \<Rightarrow> nat \<Rightarrow> bool" where
  "sends_fit [] n \<longleftrightarrow> True"
| "sends_fit ((SendRet nwrite err noblock, sel) # rounds) n \<longleftrightarrow> nwrite \<le> int n \<and> sends_fit rounds (n - nat nwrite)"

text \<open>A result that is not negative is the number of bytes sent, and it is short only when the wait was
  broken off.\<close>

lemma block_socket_send_sent:
  assumes "block_socket_send rounds buffer sent = Some ((ret, err), out)" "sends_fit rounds (length buffer - sent)" "sent \<le> length buffer"
  shows "sent \<le> length out \<and> out = take (length out) buffer
    \<and> (0 \<le> ret \<longrightarrow> ret = int (length out) \<and> (ret < int (length buffer) \<longrightarrow> (\<exists>(r, sel) \<in> set rounds. se_ret sel = 0 \<or> se_exception sel \<or> se_break sel)))
    \<and> (ret < 0 \<longrightarrow> ret = - 1)"
  using assms
proof (induction rounds buffer sent rule: block_socket_send.induct)
  case (2 nwrite e nb sel rounds buffer sent)
  let ?n = "if 0 < nwrite then sent + nat nwrite else sent"
  have n: "sent \<le> ?n" "?n \<le> length buffer" "length buffer - ?n = length buffer - sent - nat nwrite"
    using 2(3,4) by auto
  show ?case
  proof (cases "(nwrite = 0 \<or> 0 > nwrite \<and> \<not> nb) \<or> ?n \<ge> length buffer \<or> se_ret sel \<le> 0 \<or> se_exception sel \<or> se_break sel
      \<or> se_sock_exception sel \<or> \<not> se_sock_ready sel")
    case True
    then show ?thesis using 2(2,4) n(1,2) by (auto simp: Let_def split: if_splits)
  next
    case False
    then have "block_socket_send rounds buffer ?n = Some ((ret, err), out)" using 2(2) by (auto simp: Let_def)
    from 2(1) [OF _ refl _ _ _ _ _ _ this] False 2(3) n show ?thesis by auto
  qed
qed simp

text \<open>Without \<^verbatim>\<open>_wait_full_size\<close> what a result that is not negative counts is what the one \<^verbatim>\<open>recv\<close> with
  data delivered; a failure takes nothing, so nothing is taken and lost.\<close>

fun first_data :: "(recv_result \<times> selected) list \<Rightarrow> bytes" where
  "first_data [] = []"
| "first_data ((RecvData s, sel) # rounds) = s"
| "first_data ((RecvFail err nb, sel) # rounds) = first_data rounds"

lemma block_socket_recv_data:
  assumes "block_socket_recv rounds max_size False [] = Some ((ret, err), s)"
  shows "(ret = - 1 \<and> s = [] \<or> ret = int (length s)) \<and> (s = [] \<or> s = first_data rounds \<and> err = 0)"
  using assms
proof (induction rounds)
  case (Cons x rounds)
  obtain r sel where x: "x = (r, sel)" by (cases x)
  show ?case
  proof (cases r)
    case (RecvData t)
    then show ?thesis using Cons.prems by (auto simp: x after_recv_def enough_def split: if_splits)
  next
    case (RecvFail e nb)
    show ?thesis
    proof (cases "block_socket_recv rounds max_size False [] = Some ((ret, err), s)")
      case True
      from Cons.IH [OF this] RecvFail show ?thesis by (simp add: x)
    next
      case False
      then show ?thesis using Cons.prems RecvFail
        by (auto simp: x after_recv_def enough_def after_select_def split: if_splits)
    qed
  qed
qed simp

end
