(* ===== verification/Base64.thy ===== *)
theory Base64 imports Interfaces begin

text \<open>
  Base64 (\<^verbatim>\<open>mars/comm/crypt/ibase64.cc\<close>), which the short connection uses for the account of a proxy.
  The lemmas show that decoding gives back what was encoded.
\<close>

unbundle bit_operations_syntax

text \<open>The two tables of \<^verbatim>\<open>init_conversion_tables\<close>; the second has 128 entries.\<close>

definition base64_to_char :: "byte \<Rightarrow> byte" where
  "base64_to_char i = (if i < 26 then 65 + i else if i < 52 then 97 + i - 26 else if i < 62 then 48 + i - 52 else if i = 62 then 43 else 47)"

definition char_to_base64 :: "byte \<Rightarrow> byte res" where
  "char_to_base64 c =
     (if 128 \<le> c then crash BadRead
      else ok (if 65 \<le> c \<and> c \<le> 90 then c - 65 else if 97 \<le> c \<and> c \<le> 122 then c - 97 + 26
               else if 48 \<le> c \<and> c \<le> 57 then c - 48 + 52 else if c = 43 then 62 else if c = 47 then 63 else 0))"

text \<open>One block of up to three bytes.\<close>

definition encode_block :: "byte \<Rightarrow> bytes \<Rightarrow> bytes" where
  "encode_block a r =
     [base64_to_char (drop_bit 2 a),
      base64_to_char (case r of [] \<Rightarrow> push_bit 4 (a AND 3) | b # _ \<Rightarrow> push_bit 4 (a AND 3) OR drop_bit 4 (b AND 0xF0)),
      (case r of [] \<Rightarrow> 61 | [b] \<Rightarrow> base64_to_char (push_bit 2 (b AND 0x0F))
         | b # c # _ \<Rightarrow> base64_to_char (push_bit 2 (b AND 0x0F) OR drop_bit 6 (c AND 0xC0))),
      (case r of b # c # _ \<Rightarrow> base64_to_char (c AND 0x3F) | _ \<Rightarrow> 61)]"

fun EncodeBase64 :: "bytes \<Rightarrow> bytes" where
  "EncodeBase64 [] = []"
| "EncodeBase64 [a] = encode_block a []"
| "EncodeBase64 [a, b] = encode_block a [b]"
| "EncodeBase64 (a # b # c # r) = encode_block a [b, c] @ EncodeBase64 r"

definition decode_block :: "byte \<Rightarrow> byte \<Rightarrow> byte \<Rightarrow> byte \<Rightarrow> bytes res" where
  "decode_block a b c d =
     and_then (char_to_base64 a) (\<lambda>a. and_then (char_to_base64 b) (\<lambda>b. and_then (char_to_base64 c) (\<lambda>c. and_then (char_to_base64 d) (\<lambda>d.
       ok [push_bit 2 a + drop_bit 4 (b AND 0x30), push_bit 4 (b AND 0x0F) + drop_bit 2 (c AND 0x3C), push_bit 6 (c AND 0x03) + d]))))"

fun decode_blocks :: "bytes \<Rightarrow> bytes res" where
  "decode_blocks (a # b # c # d # r) = and_then (decode_block a b c d) (\<lambda>x. and_then (decode_blocks r) (\<lambda>y. ok (x @ y)))"
| "decode_blocks _ = ok []"

text \<open>The size it returns, and what it has written. Every \<^verbatim>\<open>=\<close> at the end takes one off.\<close>

definition DecodeBase64 :: "bytes \<Rightarrow> (int \<times> bytes) res" where
  "DecodeBase64 s = and_then (decode_blocks s) (\<lambda>t. ok (int (length s div 4 * 3) - int (length (takeWhile (\<lambda>c. c = 61) (rev s))), t))"

section \<open>Lemmas\<close>

lemma byte_eq_bits:
  "(x :: byte) = y \<longleftrightarrow> bit x 0 = bit y 0 \<and> bit x 1 = bit y 1 \<and> bit x 2 = bit y 2 \<and> bit x 3 = bit y 3
     \<and> bit x 4 = bit y 4 \<and> bit x 5 = bit y 5 \<and> bit x 6 = bit y 6 \<and> bit x 7 = bit y 7" (is "_ \<longleftrightarrow> ?r")
proof
  assume r: ?r
  show "x = y"
  proof (rule bit_word_eqI)
    fix n assume "n < LENGTH(8)"
    then have "n = 0 \<or> n = 1 \<or> n = 2 \<or> n = 3 \<or> n = 4 \<or> n = 5 \<or> n = 6 \<or> n = 7" by auto
    then show "bit x n = bit y n" using r by blast
  qed
qed simp

lemma add_disjoint: "x AND y = 0 \<Longrightarrow> x + y = x OR (y :: byte)"
  using word_plus_and_or [of x y] by simp

lemma base64_table: "list_all (\<lambda>k. char_to_base64 (base64_to_char (of_nat k)) = ok (of_nat k) \<and> base64_to_char (of_nat k) \<noteq> 61) [0..<64]"
  by code_simp

lemma char_of_base64: "v AND 0x3F = v \<Longrightarrow> char_to_base64 (base64_to_char v) = ok v \<and> base64_to_char v \<noteq> 61"
proof -
  assume "v AND 0x3F = v"
  then have "v \<le> 0x3F" by (metis word_and_le1)
  then have "unat v < 64" by (simp add: word_le_nat_alt)
  then have "unat v \<in> set [0..<64]" by simp
  then have "char_to_base64 (base64_to_char (of_nat (unat v))) = ok (of_nat (unat v)) \<and> base64_to_char (of_nat (unat v)) \<noteq> 61"
    using base64_table unfolding list_all_iff by (rule bspec [rotated])
  then show ?thesis by simp
qed

lemma char_pad: "char_to_base64 61 = ok 0"
  by (simp add: char_to_base64_def)

lemmas byte_bits = byte_eq_bits bit_simps

lemma bit_word_beyond: "bit (x :: byte) (8) = False" "bit x 9 = False"
  using bit_imp_le_length [of x 8] bit_imp_le_length [of x 9] by auto

lemma six_bits:
  "drop_bit 2 a AND 0x3F = (drop_bit 2 a :: byte)"
  "push_bit 4 (a AND 3) AND 0x3F = (push_bit 4 (a AND 3) :: byte)"
  "(push_bit 4 (a AND 3) OR drop_bit 4 (b AND 0xF0)) AND 0x3F = (push_bit 4 (a AND 3) OR drop_bit 4 (b AND 0xF0) :: byte)"
  "push_bit 2 (b AND 0x0F) AND 0x3F = (push_bit 2 (b AND 0x0F) :: byte)"
  "(push_bit 2 (b AND 0x0F) OR drop_bit 6 (c AND 0xC0)) AND 0x3F = (push_bit 2 (b AND 0x0F) OR drop_bit 6 (c AND 0xC0) :: byte)"
  "(c AND 0x3F) AND 0x3F = (c AND 0x3F :: byte)"
  by (simp_all add: byte_bits bit_word_beyond)

lemma block_bits:
  "push_bit 2 (drop_bit 2 a) + drop_bit 4 ((push_bit 4 (a AND 3) OR drop_bit 4 (b AND 0xF0)) AND 0x30) = (a :: byte)"
  "push_bit 2 (drop_bit 2 a) + drop_bit 4 (push_bit 4 (a AND 3) AND 0x30) = (a :: byte)"
  "push_bit 4 ((push_bit 4 (a AND 3) OR drop_bit 4 (b AND 0xF0)) AND 0x0F) + drop_bit 2 ((push_bit 2 (b AND 0x0F) OR drop_bit 6 (c AND 0xC0)) AND 0x3C) = (b :: byte)"
  "push_bit 4 ((push_bit 4 (a AND 3) OR drop_bit 4 (b AND 0xF0)) AND 0x0F) + drop_bit 2 (push_bit 2 (b AND 0x0F) AND 0x3C) = (b :: byte)"
  "push_bit 6 ((push_bit 2 (b AND 0x0F) OR drop_bit 6 (c AND 0xC0)) AND 0x03) + (c AND 0x3F) = (c :: byte)"
  by (subst add_disjoint; simp add: byte_bits)+

lemma block_pad_bits:
  "push_bit 4 (push_bit 4 (a AND 3) AND 0x0F) = (0 :: byte)" "push_bit 6 (push_bit 2 (b AND 0x0F) AND 0x03) = (0 :: byte)"
  by (simp_all add: byte_bits)

lemmas block_decoded = char_of_base64 [THEN conjunct1] six_bits block_bits block_pad_bits char_pad

lemma decode_encode_block:
  "decode_blocks (encode_block a [] @ t) = and_then (decode_blocks t) (\<lambda>y. ok (a # 0 # 0 # y))"
  "decode_blocks (encode_block a [b] @ t) = and_then (decode_blocks t) (\<lambda>y. ok (a # b # 0 # y))"
  "decode_blocks (encode_block a [b, c] @ t) = and_then (decode_blocks t) (\<lambda>y. ok (a # b # c # y))"
  by (simp_all only: encode_block_def decode_block_def block_decoded list.case append.simps decode_blocks.simps and_then_simps) simp_all

text \<open>How many bytes the last block lacks.\<close>

definition lacking :: "bytes \<Rightarrow> nat" where
  "lacking s = (if length s mod 3 = 0 then 0 else 3 - length s mod 3)"

lemma lacking_simps [simp]:
  "lacking [] = 0" "lacking [a] = 2" "lacking [a, b] = 1" "lacking (a # b # c # r) = lacking r"
  by (simp_all add: lacking_def)

lemma decode_blocks_encoded: "decode_blocks (EncodeBase64 s) = ok (s @ replicate (lacking s) 0)"
proof (induction s rule: EncodeBase64.induct)
  case (2 a)
  show ?case using decode_encode_block(1) [of a "[]"] by (simp add: numeral_2_eq_2)
next
  case (3 a b)
  show ?case using decode_encode_block(2) [of a b "[]"] by simp
qed (simp_all add: decode_encode_block)

lemma length_EncodeBase64: "length (EncodeBase64 s) div 4 * 3 = length s + lacking s"
proof (induction s rule: EncodeBase64.induct)
  case (4 a b c r)
  then show ?case using div_add_self1 [of 4 "length (EncodeBase64 r)"] by (simp add: encode_block_def)
qed (simp_all add: encode_block_def)

lemma EncodeBase64_first: "s \<noteq> [] \<Longrightarrow> \<exists>c \<in> set (EncodeBase64 s). c \<noteq> 61"
  using char_of_base64 [OF six_bits(1)] by (cases s rule: EncodeBase64.cases) (auto simp: encode_block_def)

lemma EncodeBase64_pads: "length (takeWhile (\<lambda>c. c = 61) (rev (EncodeBase64 s))) = lacking s"
proof (induction s rule: EncodeBase64.induct)
  case (4 a b c r)
  have last: "base64_to_char (c AND 0x3F) \<noteq> 61" using char_of_base64 [OF six_bits(6)] by blast
  show ?case
  proof (cases "r = []")
    case True
    then show ?thesis using last by (simp add: encode_block_def)
  next
    case False
    then obtain x where "x \<in> set (rev (EncodeBase64 r))" "x \<noteq> 61" using EncodeBase64_first by auto
    from takeWhile_append1 [where P = "\<lambda>c. c = 61", OF this] 4 show ?thesis by simp
  qed
qed (use char_of_base64 [OF six_bits(2)] char_of_base64 [OF six_bits(4)] in \<open>simp_all add: encode_block_def\<close>)

lemma DecodeBase64_encoded: "DecodeBase64 (EncodeBase64 s) = ok (int (length s), s @ replicate (lacking s) 0)"
  using length_EncodeBase64 [of s] by (simp add: DecodeBase64_def decode_blocks_encoded EncodeBase64_pads)

interpretation b64: codec EncodeBase64 "\<lambda>t. case DecodeBase64 t of Inl f \<Rightarrow> None | Inr (n, s) \<Rightarrow> Some (take (nat n) s)" "\<lambda>s. True"
  by unfold_locales (simp add: DecodeBase64_encoded)

section \<open>Properties\<close>

text \<open>Decoding gives back what was encoded: the returned size is the length of the text, and the bytes written
  begin with it.\<close>

theorem base64_roundtrip: "DecodeBase64 (EncodeBase64 s) = ok (int (length s), s @ replicate (lacking s) 0)"
  by (rule DecodeBase64_encoded)

end
