(* ===== verification/Complex_Connect.thy ===== *)
theory Complex_Connect imports Http Block_Socket Base64 begin

text \<open>
  Connecting to one of several addresses, each started a while after the one before
  (\<^verbatim>\<open>mars/comm/socket/complexconnect.cc\<close>): the state machine of one connection (\<^verbatim>\<open>tcpclient_fsm.cc\<close>), what it does
  before it counts as connected (nothing, a tunnel through an HTTP proxy, SOCKS5), and the loop around \<^verbatim>\<open>select\<close>. What the
  operating system answers, the clock and the observer are arguments; the calls of the observer and what is opened, closed and
  sent are events. The clock stands still within one call of \<^verbatim>\<open>PreSelect\<close> or \<^verbatim>\<open>AfterSelect\<close>. The buffers are their contents.
  Options of the socket that are only logged when they fail are left out.
\<close>

section \<open>One connection\<close>

datatype ProxyType = kProxyNone | kProxyHttpTunel | kProxySocks5 | kProxyHttp

definition INVALID_SOCKET :: int where "INVALID_SOCKET = - 1"

datatype TSocketStatus = EStart | EConnecting | EReadWrite | EEnd

datatype TCheckStatus = ECheckInit | EConnProxySucc | EProxyHttpTunelConnSvrReq | EProxySocks5GreetReq | EProxySocks5GreetSucc
  | EProxySocks5AuthReq | EProxySocks5AuthSucc | EProxySocks5ConnSvrReq | EProxyConnSvrSucc | ECheckOK | ECheckFail

type_synonym sock_addr = "bytes \<times> ushort"
type_synonym ticks = "64 word"

text \<open>\<^verbatim>\<open>MComplexConnect\<close>, where it answers: whether to verify, what to send (the buffer afterwards), whether what was received is
  good.\<close>

record observer =
  OnShouldVerify :: "nat \<Rightarrow> sock_addr \<Rightarrow> bool"
  OnVerifySend :: "nat \<Rightarrow> sock_addr \<Rightarrow> bytes \<Rightarrow> bool \<times> bytes"
  OnVerifyRecv :: "nat \<Rightarrow> sock_addr \<Rightarrow> bytes \<Rightarrow> bool"

datatype conn_event =
    OnCreated nat sock_addr | OnConnect nat sock_addr int | OnConnected nat sock_addr int int int
  | Verified nat bytes bool | OnVerifyTimeout int | OnFinished nat sock_addr int int int int int
  | Opened int | Closed int | Sent int bytes | Started nat sock_addr ticks int | Waits int

text \<open>\<open>fs_kind\<close>: which of the three classes it is. \<open>fs_dest\<close>: \<^verbatim>\<open>destaddr_\<close>, for a proxy the server behind it.\<close>

record fsm =
  fs_kind :: ProxyType
  fs_index :: nat
  fs_addr :: sock_addr
  fs_dest :: sock_addr
  fs_username :: bytes
  fs_password :: bytes
  fs_timeout :: dword
  fs_status :: TSocketStatus
  fs_last_status :: TSocketStatus
  fs_error :: int
  fs_remote_close :: bool
  fs_request_send :: bool
  fs_sock :: int
  fs_start :: ticks
  fs_end :: ticks
  fs_send_buf :: bytes
  fs_recv_buf :: bytes
  fs_check :: TCheckStatus
  fs_checkfin :: ticks

definition ConnectCheckFSM :: "observer option \<Rightarrow> dword \<Rightarrow> ProxyType \<Rightarrow> bytes \<Rightarrow> bytes \<Rightarrow> nat \<Rightarrow> sock_addr \<Rightarrow> sock_addr \<Rightarrow> fsm" where
  "ConnectCheckFSM ob timeout kind user pwd i dest addr =
     \<lparr> fs_kind = kind, fs_index = i, fs_addr = addr, fs_dest = dest, fs_username = user, fs_password = pwd, fs_timeout = timeout,
       fs_status = EStart, fs_last_status = EStart, fs_error = 0, fs_remote_close = False, fs_request_send = False,
       fs_sock = INVALID_SOCKET, fs_start = 0, fs_end = 0, fs_send_buf = [], fs_recv_buf = [],
       fs_check = (if kind = kProxyHttpTunel \<or> kind = kProxySocks5 then ECheckInit
                   else case ob of None \<Rightarrow> ECheckOK | Some ob \<Rightarrow> if OnShouldVerify ob i addr then ECheckInit else ECheckOK),
       fs_checkfin = 0 \<rparr>"

text \<open>A 64-bit number of milliseconds as an \<^verbatim>\<open>int\<close>.\<close>

definition as_int :: "ticks \<Rightarrow> int" where
  "as_int t = sint (ucast t :: dword)"

definition Rtt :: "fsm \<Rightarrow> int" where "Rtt f = as_int (fs_end f - fs_start f)"
definition TotalRtt :: "fsm \<Rightarrow> int" where "TotalRtt f = as_int (fs_checkfin f - fs_start f)"
definition ConnectAbsTimeout :: "fsm \<Rightarrow> int" where "ConnectAbsTimeout f = sint (fs_timeout f)"
definition ReadWriteAbsTimeout :: "fsm \<Rightarrow> int" where
  "ReadWriteAbsTimeout f = max 1000 (min (6 * Rtt f) (ConnectAbsTimeout f - Rtt f))"
definition ConnectTimeout :: "ticks \<Rightarrow> fsm \<Rightarrow> int" where
  "ConnectTimeout now f = as_int (fs_start f + of_int (ConnectAbsTimeout f) - now)"
definition fsm_ReadWriteTimeout :: "ticks \<Rightarrow> fsm \<Rightarrow> int" where
  "fsm_ReadWriteTimeout now f = as_int (fs_end f + of_int (ReadWriteAbsTimeout f) - now)"

definition INT_MAX :: int where "INT_MAX = 2 ^ 31 - 1"

definition fsm_Timeout :: "ticks \<Rightarrow> fsm \<Rightarrow> int" where
  "fsm_Timeout now f =
     (case fs_status f of EConnecting \<Rightarrow> ConnectTimeout now f | EReadWrite \<Rightarrow> fsm_ReadWriteTimeout now f | EEnd \<Rightarrow> 0 | EStart \<Rightarrow> INT_MAX)"

definition OnClose :: "observer option \<Rightarrow> ticks \<Rightarrow> TSocketStatus \<Rightarrow> int \<Rightarrow> bool \<Rightarrow> fsm \<Rightarrow> fsm \<times> conn_event list" where
  "OnClose ob now status error userclose f =
     (let f = f\<lparr> fs_checkfin := now \<rparr>
      in (f, if ob \<noteq> None \<and> \<not> userclose
             then if status = EConnecting then [OnConnected (fs_index f) (fs_addr f) (fs_sock f) error (TotalRtt f)]
                  else if status = EReadWrite \<and> error = ETIMEDOUT then [OnVerifyTimeout (as_int (fs_checkfin f - fs_end f))] else []
             else []))"

definition fsm_Close :: "observer option \<Rightarrow> ticks \<Rightarrow> bool \<Rightarrow> fsm \<Rightarrow> fsm \<times> conn_event list" where
  "fsm_Close ob now notify f =
     (if fs_sock f = INVALID_SOCKET then (f, [])
      else let closed = Closed (fs_sock f); f = f\<lparr> fs_sock := INVALID_SOCKET \<rparr> in
           if fs_remote_close f \<or> fs_error f \<noteq> 0 then (f, [closed])
           else let f = f\<lparr> fs_last_status := fs_status f, fs_status := EEnd, fs_error := 0 \<rparr>
                in if notify then let (f, ev) = OnClose ob now (fs_last_status f) 0 (fs_remote_close f) f in (f, closed # ev) else (f, [closed]))"

definition end_with :: "int \<Rightarrow> fsm \<Rightarrow> fsm" where
  "end_with error f = f\<lparr> fs_error := error, fs_last_status := fs_status f, fs_status := EEnd \<rparr>"

text \<open>What the system answers to \<^verbatim>\<open>socket\<close>, \<^verbatim>\<open>socket_set_nobio\<close> and \<^verbatim>\<open>connect\<close>, with \<^verbatim>\<open>socket_errno\<close> where it is read and
  \<^verbatim>\<open>IS_NOBLOCK_CONNECT_ERRNO\<close>.\<close>

record connect_answer =
  ca_sock :: int
  ca_sock_errno :: int
  ca_nobio :: int
  ca_nobio_errno :: int
  ca_connect :: int
  ca_connect_errno :: int
  ca_noblock :: bool

text \<open>\<open>Started i a t s\<close>: at time \<open>t\<close> connection \<open>i\<close> has asked for a socket to connect to \<open>a\<close>, and has got \<open>s\<close>.\<close>

definition PreConnectSelect :: "observer option \<Rightarrow> connect_answer \<Rightarrow> ticks \<Rightarrow> fsm \<Rightarrow> fsm \<times> conn_event list" where
  "PreConnectSelect ob a now f =
     (let created = (if ob = None then [] else [OnCreated (fs_index f) (fs_addr f)]) @ [Started (fs_index f) (fs_addr f) now (ca_sock a)];
          f = f\<lparr> fs_sock := ca_sock a \<rparr> in
      if fs_sock f = INVALID_SOCKET
      then let f = end_with (ca_sock_errno a) f; (f, ev) = OnClose ob now (fs_last_status f) (fs_error f) False f in (f, created @ ev)
      else let opened = created @ [Opened (fs_sock f)]; f = (if ca_nobio a \<noteq> 0 then f\<lparr> fs_error := ca_nobio_errno a \<rparr> else f) in
           if fs_error f \<noteq> 0 then (f\<lparr> fs_last_status := fs_status f, fs_status := EEnd \<rparr>, opened)
           else let f = f\<lparr> fs_start := now \<rparr>;
                    f = (if ca_connect a \<noteq> 0 \<and> \<not> ca_noblock a then f\<lparr> fs_end := now, fs_error := ca_connect_errno a \<rparr> else f);
                    f = f\<lparr> fs_last_status := fs_status f, fs_status := (if fs_error f \<noteq> 0 then EEnd else EConnecting) \<rparr>
                in (f, opened @ (if fs_error f = 0 \<and> ob \<noteq> None then [OnConnect (fs_index f) (fs_addr f) (fs_sock f)] else [])))"

definition PreSelect :: "observer option \<Rightarrow> connect_answer \<Rightarrow> ticks \<Rightarrow> fsm \<Rightarrow> fsm \<times> conn_event list" where
  "PreSelect ob a now f = (if fs_status f = EStart then PreConnectSelect ob a now f else (f, []))"

section \<open>What is said on the connection\<close>

definition on_connected :: "observer option \<Rightarrow> ticks \<Rightarrow> fsm \<Rightarrow> fsm \<times> conn_event list" where
  "on_connected ob now f =
     (let f = f\<lparr> fs_checkfin := now \<rparr>;
          ev = (if ob = None then [] else [OnConnected (fs_index f) (fs_addr f) (fs_sock f) 0 (Rtt f)])
      in if fs_kind f = kProxyHttpTunel \<or> fs_kind f = kProxySocks5
         then (if fs_check f = ECheckOK then f else f\<lparr> fs_request_send := True, fs_check := EConnProxySucc \<rparr>, ev)
         else case ob of None \<Rightarrow> (f, ev)
              | Some ob \<Rightarrow>
                  if fs_check f = ECheckOK then (f, ev)
                  else let (suc, buf) = OnVerifySend ob (fs_index f) (fs_addr f) (fs_send_buf f); f = f\<lparr> fs_send_buf := buf \<rparr>
                       in (if suc then f else f\<lparr> fs_check := ECheckFail \<rparr>, ev))"

text \<open>The parser of the proxy's answer may read outside its memory or never return.\<close>

datatype stop = StopCrash fault | StopHung

type_synonym 'a step = "stop + 'a"

definition tunnel_recv :: "observer option \<Rightarrow> ticks \<Rightarrow> bytes \<Rightarrow> fsm \<Rightarrow> (fsm \<times> conn_event list) step" where
  "tunnel_recv ob now behind f =
     (if fs_check f = EProxyHttpTunelConnSvrReq
      then case Recv behind (fs_recv_buf f) Parser of
             None \<Rightarrow> Inl StopHung
           | Some (Inl e) \<Rightarrow> Inl (StopCrash e)
           | Some (Inr p) \<Rightarrow>
               if hp_status p \<noteq> kEnd then Inr (f, [])
               else if sl_code (hp_statusline p) = 200
               then Inr (f\<lparr> fs_check := (case ob of None \<Rightarrow> ECheckOK
                                          | Some ob \<Rightarrow> if OnShouldVerify ob (fs_index f) (fs_addr f) then EProxyConnSvrSucc else ECheckOK),
                           fs_request_send := True, fs_checkfin := now, fs_recv_buf := [] \<rparr>, [])
               else Inr (f\<lparr> fs_check := ECheckFail \<rparr>, [])
      else if fs_check f = EProxyConnSvrSucc
      then let good = (case ob of None \<Rightarrow> False | Some ob \<Rightarrow> OnVerifyRecv ob (fs_index f) (fs_dest f) (fs_recv_buf f))
           in Inr (f\<lparr> fs_check := (if good then ECheckOK else ECheckFail), fs_checkfin := now \<rparr>,
                   if ob = None then [] else [Verified (fs_index f) (fs_recv_buf f) good])
      else Inr (f, []))"

definition kSocks5Version :: byte where "kSocks5Version = 5"
definition kSocks5AuthVersion :: byte where "kSocks5AuthVersion = 1"
definition kSockstNAuthMethos :: byte where "kSockstNAuthMethos = 1"
definition kSocks5NoAuth :: byte where "kSocks5NoAuth = 0"
definition kSocks5UsrNamePwdAuth :: byte where "kSocks5UsrNamePwdAuth = 2"
definition kSocks5RespStatus :: byte where "kSocks5RespStatus = 0"
definition kSocks5ConnectCmd :: byte where "kSocks5ConnectCmd = 1"
definition kSocks5RsvVal :: byte where "kSocks5RsvVal = 0"
definition kSocksATYPIPv4 :: byte where "kSocksATYPIPv4 = 1"
definition kSocksATYPHost :: byte where "kSocksATYPHost = 3"
definition kSocksATYPIPv6 :: byte where "kSocksATYPIPv6 = 4"

text \<open>Whether the answer to the request to connect is still incomplete. Of four bytes the fifth is not looked at: with any value the
  answer is incomplete.\<close>

definition socks5_short :: "bytes \<Rightarrow> bool" where
  "socks5_short b \<longleftrightarrow> length b < 4
     \<or> (let atyp = b ! 3 in atyp = kSocksATYPIPv4 \<and> length b < 6 + 4
        \<or> atyp = kSocksATYPHost \<and> (length b < 5 \<or> length b < 6 + 1 + unat (b ! 4))
        \<or> atyp = kSocksATYPIPv6 \<and> length b < 6 + 16)"

definition socks5_recv :: "observer option \<Rightarrow> ticks \<Rightarrow> fsm \<Rightarrow> fsm \<times> conn_event list" where
  "socks5_recv ob now f =
     (let b = fs_recv_buf f; ver = b ! 0; status = b ! 1 in
      case fs_check f of
        EProxySocks5GreetReq \<Rightarrow>
          if length b < 2 then (f, [])
          else if ver \<noteq> kSocks5Version then (f\<lparr> fs_check := ECheckFail \<rparr>, [])
          else let f = (if status = kSocks5NoAuth then f\<lparr> fs_check := EProxySocks5AuthSucc, fs_request_send := True \<rparr>
                        else if status = kSocks5UsrNamePwdAuth then f\<lparr> fs_check := EProxySocks5GreetSucc, fs_request_send := True \<rparr>
                        else f\<lparr> fs_check := ECheckFail \<rparr>)
               in (f\<lparr> fs_recv_buf := [] \<rparr>, [])
      | EProxySocks5AuthReq \<Rightarrow>
          if length b < 2 then (f, [])
          else if ver \<noteq> kSocks5AuthVersion \<or> status \<noteq> kSocks5RespStatus then (f\<lparr> fs_check := ECheckFail \<rparr>, [])
          else (f\<lparr> fs_check := EProxySocks5AuthSucc, fs_request_send := True, fs_recv_buf := [] \<rparr>, [])
      | EProxySocks5ConnSvrReq \<Rightarrow>
          if socks5_short b then (f, [])
          else if ver \<noteq> kSocks5Version \<or> status \<noteq> kSocks5RespStatus then (f\<lparr> fs_check := ECheckFail \<rparr>, [])
          else (f\<lparr> fs_check := (case ob of None \<Rightarrow> ECheckOK
                                | Some ob \<Rightarrow> if OnShouldVerify ob (fs_index f) (fs_dest f) then EProxyConnSvrSucc else ECheckOK),
                  fs_checkfin := now, fs_request_send := True, fs_recv_buf := [] \<rparr>, [])
      | EProxyConnSvrSucc \<Rightarrow>
          let good = (case ob of None \<Rightarrow> False | Some ob \<Rightarrow> OnVerifyRecv ob (fs_index f) (fs_dest f) b)
          in (f\<lparr> fs_check := (if good then ECheckOK else ECheckFail), fs_checkfin := now \<rparr>,
              if ob = None then [] else [Verified (fs_index f) b good])
      | _ \<Rightarrow> (f, []))"

definition on_recv :: "observer option \<Rightarrow> ticks \<Rightarrow> bytes \<Rightarrow> fsm \<Rightarrow> (fsm \<times> conn_event list) step" where
  "on_recv ob now behind f =
     (if fs_check f = ECheckOK then Inr (f, [])
      else if fs_kind f = kProxyHttpTunel then tunnel_recv ob now behind f
      else if fs_kind f = kProxySocks5 then Inr (socks5_recv ob now f)
      else case ob of None \<Rightarrow> Inr (f, [])
           | Some ob \<Rightarrow> let good = OnVerifyRecv ob (fs_index f) (fs_addr f) (fs_recv_buf f)
                        in Inr (f\<lparr> fs_check := (if good then ECheckOK else ECheckFail), fs_checkfin := now \<rparr>,
                                [Verified (fs_index f) (fs_recv_buf f) good]))"

text \<open>The requests. \<^verbatim>\<open>ip_port\<close> has room for 63 bytes, \<^verbatim>\<open>auth_info\<close> for 1023.\<close>

definition tunnel_request :: "fsm \<Rightarrow> bytes" where
  "tunnel_request f =
     (let ip_port = take 63 (c_str (fst (fs_dest f)) @ lit '':'' @ dec_nat (unat (snd (fs_dest f))));
          field = (\<lambda>(k, v). HeaderFiled k v);
          fields = fold field ([(KStringHost, ip_port), (lit ''Proxy-Connection'', lit ''keep-alive''), (KStringUserAgent, KStringMicroMessenger)]
            @ (if fs_username f \<noteq> [] \<and> fs_password f \<noteq> []
               then [(lit ''Proxy-Authorization'', take 1023 (lit ''Basic '' @ c_str (EncodeBase64 (fs_username f @ lit '':'' @ fs_password f))))]
               else [])) []
      in snd (HeaderToBuffer ((Builder kRequest)\<lparr> bd_request := \<lparr> rq_method = kConnect, rq_url = ip_port, rq_version = kVersion_1_1 \<rparr>,
                                                bd_fields := fields \<rparr>) []))"

text \<open>\<open>inet_addr\<close>: the four bytes in memory that \<^verbatim>\<open>inet_addr\<close> gives.\<close>

definition socks5_greet :: "fsm \<Rightarrow> bytes" where
  "socks5_greet f = [kSocks5Version, kSockstNAuthMethos,
     if fs_username f = [] \<or> fs_password f = [] then kSocks5NoAuth else kSocks5UsrNamePwdAuth]"

definition socks5_auth :: "fsm \<Rightarrow> bytes" where
  "socks5_auth f = kSocks5AuthVersion # of_nat (length (fs_username f)) # fs_username f @ of_nat (length (fs_password f)) # fs_password f"

definition socks5_connect :: "(bytes \<Rightarrow> bytes) \<Rightarrow> fsm \<Rightarrow> bytes" where
  "socks5_connect inet_addr f = [kSocks5Version, kSocks5ConnectCmd, kSocks5RsvVal, kSocksATYPIPv4] @ inet_addr (fst (fs_dest f)) @ be16 (snd (fs_dest f))"

text \<open>With \<^verbatim>\<open>EProxyConnSvrSucc\<close> there is an observer.\<close>

definition verify_behind :: "observer option \<Rightarrow> bytes \<Rightarrow> fsm \<Rightarrow> fsm" where
  "verify_behind ob buf f =
     (case ob of None \<Rightarrow> f
      | Some ob \<Rightarrow> let (suc, buf) = OnVerifySend ob (fs_index f) (fs_dest f) buf; f = f\<lparr> fs_send_buf := buf \<rparr>
                   in if suc then f else f\<lparr> fs_check := ECheckFail \<rparr>)"

definition on_request_send :: "observer option \<Rightarrow> (bytes \<Rightarrow> bytes) \<Rightarrow> fsm \<Rightarrow> fsm" where
  "on_request_send ob inet_addr f =
     (if fs_kind f = kProxyHttpTunel
      then case fs_check f of
             EConnProxySucc \<Rightarrow> f\<lparr> fs_send_buf := fs_send_buf f @ tunnel_request f, fs_check := EProxyHttpTunelConnSvrReq \<rparr>
           | EProxyConnSvrSucc \<Rightarrow> verify_behind ob [] f
           | _ \<Rightarrow> f
      else if fs_kind f = kProxySocks5
      then case fs_check f of
             EConnProxySucc \<Rightarrow> f\<lparr> fs_send_buf := socks5_greet f, fs_check := EProxySocks5GreetReq \<rparr>
           | EProxySocks5GreetSucc \<Rightarrow>
               if fs_username f = [] \<or> fs_password f = [] \<or> length (fs_username f) > 255 \<or> length (fs_password f) > 255
               then f\<lparr> fs_check := ECheckFail \<rparr>
               else f\<lparr> fs_send_buf := socks5_auth f, fs_check := EProxySocks5AuthReq \<rparr>
           | EProxySocks5AuthSucc \<Rightarrow> f\<lparr> fs_send_buf := socks5_connect inet_addr f, fs_check := EProxySocks5ConnSvrReq \<rparr>
           | EProxyConnSvrSucc \<Rightarrow> verify_behind ob (fs_send_buf f) f
           | _ \<Rightarrow> f
      else f)"

section \<open>After \<^verbatim>\<open>select\<close>\<close>

text \<open>\<^verbatim>\<open>Exception_FD_ISSET\<close>, what \<^verbatim>\<open>getsockopt(SO_ERROR)\<close> leaves in \<^verbatim>\<open>error_\<close>, \<^verbatim>\<open>socket_error\<close>, \<^verbatim>\<open>Write_FD_ISSET\<close>,
  \<^verbatim>\<open>Read_FD_ISSET\<close>, what \<^verbatim>\<open>send\<close> and \<^verbatim>\<open>recv\<close> give, and the memory that can be read behind the parser's buffer.\<close>

record sock_answer =
  sa_exception :: bool
  sa_so_error :: int
  sa_socket_error :: int
  sa_writable :: bool
  sa_readable :: bool
  sa_send :: send_result
  sa_recv :: recv_result
  sa_behind :: bytes

definition AfterConnectSelect :: "observer option \<Rightarrow> sock_answer \<Rightarrow> ticks \<Rightarrow> fsm \<Rightarrow> fsm \<times> conn_event list" where
  "AfterConnectSelect ob a now f =
     (let timeout = ConnectTimeout now f in
      if sa_exception a then (end_with (sa_so_error a) (f\<lparr> fs_end := now \<rparr>), [])
      else let f = f\<lparr> fs_error := sa_socket_error a \<rparr> in
           if fs_error f \<noteq> 0 then (end_with (fs_error f) (f\<lparr> fs_end := now \<rparr>), [])
           else if sa_writable a
           then on_connected ob now (f\<lparr> fs_end := now, fs_last_status := fs_status f, fs_status := EReadWrite \<rparr>)
           else if 0 \<ge> timeout then (end_with ETIMEDOUT (f\<lparr> fs_end := now \<rparr>), [])
           else (f, []))"

text \<open>The writing half and the reading half of \<^verbatim>\<open>AfterReadWriteSelect\<close>; the first component says whether it returns.\<close>

definition write_part :: "observer option \<Rightarrow> (bytes \<Rightarrow> bytes) \<Rightarrow> sock_answer \<Rightarrow> fsm \<Rightarrow> bool \<times> fsm \<times> conn_event list" where
  "write_part ob inet_addr a f =
     (let f = (if fs_request_send f \<and> fs_send_buf f = [] then on_request_send ob inet_addr (f\<lparr> fs_request_send := False \<rparr>) else f) in
      case sa_send a of SendRet ret err noblock \<Rightarrow>
        if 0 < ret then (False, f\<lparr> fs_send_buf := drop (nat ret) (fs_send_buf f) \<rparr>, [Sent (fs_sock f) (take (nat ret) (fs_send_buf f))])
        else if noblock then (False, f, [])
        else (True, end_with err f, []))"

definition read_part :: "observer option \<Rightarrow> sock_answer \<Rightarrow> ticks \<Rightarrow> fsm \<Rightarrow> (fsm \<times> conn_event list) step" where
  "read_part ob a now f =
     (case sa_recv a of
        RecvData s \<Rightarrow>
          if s = [] then Inr ((end_with 0 f)\<lparr> fs_remote_close := True \<rparr>, [])
          else on_recv ob now (sa_behind a) (f\<lparr> fs_recv_buf := fs_recv_buf f @ s \<rparr>)
      | RecvFail err noblock \<Rightarrow> if noblock then Inr (f, []) else Inr (end_with err f, []))"

text \<open>The socket can only be writable when that was asked for: while there is something to send.\<close>

definition AfterReadWriteSelect :: "observer option \<Rightarrow> (bytes \<Rightarrow> bytes) \<Rightarrow> sock_answer \<Rightarrow> ticks \<Rightarrow> fsm \<Rightarrow> (fsm \<times> conn_event list) step" where
  "AfterReadWriteSelect ob inet_addr a now f =
     (let timeout = fsm_ReadWriteTimeout now f; writable = (sa_writable a \<and> (fs_send_buf f \<noteq> [] \<or> fs_request_send f)) in
      if sa_exception a then Inr (end_with (sa_so_error a) f, [])
      else let (ret, f, ev) = (if writable then write_part ob inet_addr a f else (False, f, [])) in
           if ret then Inr (f, ev)
           else if sa_readable a
           then (case read_part ob a now f of Inl e \<Rightarrow> Inl e | Inr (f, ev') \<Rightarrow> Inr (f, ev @ ev'))
           else if \<not> writable \<and> 0 \<ge> timeout then Inr (end_with ETIMEDOUT f, ev)
           else Inr (f, ev))"

definition AfterSelect :: "observer option \<Rightarrow> (bytes \<Rightarrow> bytes) \<Rightarrow> sock_answer \<Rightarrow> ticks \<Rightarrow> fsm \<Rightarrow> (fsm \<times> conn_event list) step" where
  "AfterSelect ob inet_addr a now f =
     (case (if fs_status f = EConnecting then Inr (AfterConnectSelect ob a now f)
            else if fs_status f = EReadWrite then AfterReadWriteSelect ob inet_addr a now f
            else Inr (f, [])) of
        Inl e \<Rightarrow> Inl e
      | Inr (f, ev) \<Rightarrow>
          if fs_status f = EEnd \<and> fs_sock f \<noteq> INVALID_SOCKET
          then let (f, ev') = OnClose ob now (fs_last_status f) (fs_error f) False f in Inr (f, ev @ ev')
          else Inr (f, ev))"

section \<open>\<^verbatim>\<open>ConnectImpatient\<close>\<close>

record complex_config =
  cx_timeout :: dword
  cx_interval :: dword
  cx_error_interval :: dword
  cx_max_connect :: dword

definition ComplexConnect :: "dword \<Rightarrow> dword \<Rightarrow> complex_config" where
  "ComplexConnect timeout interval = \<lparr> cx_timeout = timeout, cx_interval = interval, cx_error_interval = interval, cx_max_connect = 3 \<rparr>"

definition ComplexConnect4 :: "dword \<Rightarrow> dword \<Rightarrow> dword \<Rightarrow> dword \<Rightarrow> complex_config" where
  "ComplexConnect4 timeout interval error_interval max_connect =
     \<lparr> cx_timeout = timeout, cx_interval = interval, cx_error_interval = error_interval, cx_max_connect = max_connect \<rparr>"

text \<open>The members that the getters return, and the local variables. A \<^verbatim>\<open>NULL\<close> in \<^verbatim>\<open>vecsocketfsm\<close> is \<open>None\<close>.\<close>

record complex_state =
  cx_trycount :: nat
  cx_result_index :: int
  cx_errcode :: int
  cx_conn_rtt :: int
  cx_conn_totalcost :: int
  cx_totalcost :: int
  cx_fsms :: "fsm option list"
  cx_laststart :: ticks
  cx_lasterror :: int
  cx_index :: nat
  cx_retsocket :: int

text \<open>One pass of the loop: the clock before \<^verbatim>\<open>select\<close> and after it, what the system answers to each connection, the result of
  \<^verbatim>\<open>Select\<close>, \<^verbatim>\<open>IsException\<close>, \<^verbatim>\<open>IsBreak\<close>.\<close>

record complex_round =
  rn_now :: ticks
  rn_connect :: "nat \<Rightarrow> connect_answer"
  rn_ret :: int
  rn_exception :: bool
  rn_break :: bool
  rn_after :: "nat \<Rightarrow> sock_answer"
  rn_later :: ticks

text \<open>The arguments that stay the same.\<close>

record complex_env =
  cv_config :: complex_config
  cv_observer :: "observer option"
  cv_inet_addr :: "bytes \<Rightarrow> bytes"
  cv_starttime :: ticks

definition isconnecting :: "fsm option \<Rightarrow> bool" where
  "isconnecting f = (case f of None \<Rightarrow> False | Some f \<Rightarrow> fs_sock f \<noteq> INVALID_SOCKET)"

definition next_connect_timeout :: "complex_config \<Rightarrow> ticks \<Rightarrow> complex_state \<Rightarrow> int" where
  "next_connect_timeout c now s =
     as_int (ucast (if cx_lasterror s = 0 then cx_interval c else cx_error_interval c) - (now - cx_laststart s))"

definition may_connect :: "complex_config \<Rightarrow> complex_state \<Rightarrow> bool" where
  "may_connect c s \<longleftrightarrow> cx_index s < length (cx_fsms s)
     \<and> (of_nat (length (filter isconnecting (cx_fsms s))) :: dword) < cx_max_connect c"

text \<open>Whether one more connection is started, and how long \<^verbatim>\<open>select\<close> may wait for the next.\<close>

definition start_next :: "complex_config \<Rightarrow> ticks \<Rightarrow> complex_state \<Rightarrow> complex_state \<times> int" where
  "start_next c now s =
     (let next = next_connect_timeout c now s; timeout = sint (cx_timeout c); running = of_nat (length (filter isconnecting (cx_fsms s)));
          timeout = (if may_connect c s \<and> 0 < next then min timeout next else timeout)
      in if may_connect c s \<and> 0 \<ge> next
         then (s\<lparr> cx_laststart := now, cx_lasterror := 0, cx_trycount := cx_index s + 1, cx_index := cx_index s + 1 \<rparr>,
               if running + 1 < cx_max_connect c then min timeout (sint (cx_interval c)) else timeout)
         else (s, timeout))"

definition pre_one :: "complex_env \<Rightarrow> complex_round \<Rightarrow> fsm option \<Rightarrow> fsm option \<times> conn_event list" where
  "pre_one V r x =
     (case x of None \<Rightarrow> (None, [])
      | Some f \<Rightarrow> let (f, ev) = PreSelect (cv_observer V) (rn_connect r (fs_index f)) (rn_now r) f in (Some f, ev))"

definition pre_all :: "complex_env \<Rightarrow> complex_round \<Rightarrow> nat \<Rightarrow> fsm option list \<Rightarrow> fsm option list \<times> conn_event list" where
  "pre_all V r n fs = (map (fst \<circ> pre_one V r) (take n fs) @ drop n fs, concat (map (snd \<circ> pre_one V r) (take n fs)))"

definition select_timeout :: "complex_round \<Rightarrow> nat \<Rightarrow> fsm option list \<Rightarrow> int \<Rightarrow> int" where
  "select_timeout r n fs timeout =
     fold (\<lambda>x t. case x of None \<Rightarrow> t | Some f \<Rightarrow> min t (fsm_Timeout (rn_now r) f)) (take n fs) timeout"

definition finished_event :: "complex_env \<Rightarrow> complex_round \<Rightarrow> fsm \<Rightarrow> conn_event list" where
  "finished_event V r f =
     (if cv_observer V = None then []
      else [OnFinished (fs_index f) (fs_addr f) (fs_sock f) (fs_error f) (Rtt f) (TotalRtt f) (as_int (rn_later r - cv_starttime V))])"

text \<open>What becomes of one connection after \<^verbatim>\<open>select\<close>: it goes on, it is given up, it is the one that is returned.\<close>

datatype verdict = GoesOn fsm | GivenUp | Taken fsm

definition after_one :: "complex_env \<Rightarrow> complex_round \<Rightarrow> fsm \<Rightarrow> (verdict \<times> conn_event list) step" where
  "after_one V r f =
     (case AfterSelect (cv_observer V) (cv_inet_addr V) (rn_after r (fs_index f)) (rn_later r) f of
        Inl e \<Rightarrow> Inl e
      | Inr (f, ev) \<Rightarrow>
          if fs_status f = EEnd \<or> fs_status f = EReadWrite \<and> fs_check f = ECheckFail
          then Inr (GivenUp, ev @ finished_event V r f @ snd (fsm_Close (cv_observer V) (rn_later r) True f))
          else if fs_status f = EReadWrite \<and> fs_check f = ECheckOK then Inr (Taken f, ev @ finished_event V r f)
          else Inr (GoesOn f, ev))"

text \<open>The loop over the connections: what is left of them, whether one was given up, the one that is returned.\<close>

fun after_all :: "complex_env \<Rightarrow> complex_round \<Rightarrow> fsm option list \<Rightarrow> ((fsm option list \<times> bool \<times> fsm option) \<times> conn_event list) step" where
  "after_all V r [] = Inr (([], False, None), [])"
| "after_all V r (None # fs) =
     (case after_all V r fs of Inl e \<Rightarrow> Inl e | Inr ((fs, err, t), ev) \<Rightarrow> Inr ((None # fs, err, t), ev))"
| "after_all V r (Some f # fs) =
     (case after_one V r f of
        Inl e \<Rightarrow> Inl e
      | Inr (Taken g, ev) \<Rightarrow> Inr ((None # fs, False, Some g), ev)
      | Inr (v, ev) \<Rightarrow>
          (case after_all V r fs of
             Inl e \<Rightarrow> Inl e
           | Inr ((fs, err, t), ev') \<Rightarrow>
               Inr (((case v of GoesOn g \<Rightarrow> Some g | _ \<Rightarrow> None) # fs, v = GivenUp \<or> err, t), ev @ ev')))"

text \<open>One pass. \<open>Inr (True, _)\<close>: the loop is left.\<close>

definition connect_round :: "complex_env \<Rightarrow> complex_round \<Rightarrow> complex_state \<Rightarrow> ((bool \<times> complex_state) \<times> conn_event list) step" where
  "connect_round V r s =
     (let (s, timeout) = start_next (cv_config V) (rn_now r) s;
          (fs, ev) = pre_all V r (cx_index s) (cx_fsms s);
          s = s\<lparr> cx_fsms := fs \<rparr>;
          timeout = select_timeout r (cx_index s) fs timeout;
          ev = ev @ [Waits (if timeout = INT_MAX then INT_MAX else max 0 timeout)]
      in if rn_ret r < 0 \<or> rn_exception r \<or> rn_break r then Inr ((True, s), ev)
         else case after_all V r (take (cx_index s) fs) of
                Inl e \<Rightarrow> Inl e
              | Inr ((gs, err, taken), ev') \<Rightarrow>
                  let s = s\<lparr> cx_fsms := gs @ drop (cx_index s) fs, cx_lasterror := (if err then - 1 else cx_lasterror s) \<rparr>;
                      s = (case taken of None \<Rightarrow> s
                           | Some f \<Rightarrow> s\<lparr> cx_retsocket := fs_sock f, cx_result_index := int (fs_index f), cx_conn_rtt := Rtt f,
                                         cx_conn_totalcost := TotalRtt f \<rparr>)
                  in Inr ((list_all (\<lambda>x. x = None) (cx_fsms s) \<or> cx_retsocket s \<noteq> INVALID_SOCKET, s), ev @ ev'))"

text \<open>After the loop.\<close>

definition close_all :: "complex_env \<Rightarrow> ticks \<Rightarrow> fsm option list \<Rightarrow> conn_event list" where
  "close_all V now fs = concat (map (\<lambda>x. case x of None \<Rightarrow> [] | Some f \<Rightarrow> snd (fsm_Close (cv_observer V) now False f)) fs)"

datatype connect_end = Connecting | Connected | Stopped stop

text \<open>The end, the state and the events; with \<open>Connecting\<close> the rounds are used up and the loop is still on.\<close>

fun connect_loop :: "complex_env \<Rightarrow> complex_round list \<Rightarrow> complex_state \<Rightarrow> connect_end \<times> complex_state \<times> conn_event list" where
  "connect_loop V [] s = (Connecting, s, [])"
| "connect_loop V (r # rs) s =
     (case connect_round V r s of
        Inl e \<Rightarrow> (Stopped e, s, [])
      | Inr ((leave, s), ev) \<Rightarrow>
          if leave
          then (Connected, s\<lparr> cx_fsms := [], cx_totalcost := as_int (rn_later r - cv_starttime V) \<rparr>, ev @ close_all V (rn_later r) (cx_fsms s))
          else let (d, s, ev') = connect_loop V rs s in (d, s, ev @ ev'))"

definition new_fsms :: "complex_env \<Rightarrow> sock_addr list \<Rightarrow> ProxyType \<Rightarrow> sock_addr option \<Rightarrow> bytes \<Rightarrow> bytes \<Rightarrow> fsm option list res" where
  "new_fsms V vecaddr proxy_type proxy_addr user pwd =
     (if proxy_type = kProxyHttpTunel \<or> proxy_type = kProxySocks5
      then case proxy_addr of None \<Rightarrow> crash BadRead
           | Some p \<Rightarrow> ok (map (\<lambda>(i, a). Some (ConnectCheckFSM (cv_observer V) (cx_timeout (cv_config V)) proxy_type user pwd i a p)) (enumerate 0 vecaddr))
      else ok (map (\<lambda>(i, a). Some (ConnectCheckFSM (cv_observer V) (cx_timeout (cv_config V)) proxy_type [] [] i a a)) (enumerate 0 vecaddr)))"

definition ConnectImpatient :: "complex_env \<Rightarrow> complex_round list \<Rightarrow> sock_addr list \<Rightarrow> ProxyType \<Rightarrow> sock_addr option \<Rightarrow> bytes \<Rightarrow> bytes
    \<Rightarrow> connect_end \<times> complex_state \<times> conn_event list" where
  "ConnectImpatient V rounds vecaddr proxy_type proxy_addr user pwd =
     (let c = cv_config V;
          s = \<lparr> cx_trycount = 0, cx_result_index = - 1, cx_errcode = 0, cx_conn_rtt = 0, cx_conn_totalcost = 0, cx_totalcost = 0, cx_fsms = [],
                cx_laststart = cv_starttime V - ucast (max (cx_interval c) (cx_error_interval c)), cx_lasterror = 0, cx_index = 0,
                cx_retsocket = INVALID_SOCKET \<rparr>
      in if vecaddr = [] then (Connected, s, [])
         else case new_fsms V vecaddr proxy_type proxy_addr user pwd of
                Inl e \<Rightarrow> (Stopped (StopCrash e), s, [])
              | Inr fs \<Rightarrow> connect_loop V rounds (s\<lparr> cx_fsms := fs \<rparr>))"

end
