(* ===== verification/Ipport_Sort.thy ===== *)
theory Ipport_Sort imports Stn_Task Text_Util begin

text \<open>
  The memory of the server addresses that failed (\<^verbatim>\<open>simple_ipport_sort.cc\<close>). Random numbers, the clock and
  the label of the network are arguments. The XML document is a list of records of attribute values;
  \<^verbatim>\<open>tinyxml2\<close> reads and writes its file. The lemmas say which addresses pass the filter and how they are ordered.
\<close>

section \<open>Data\<close>

datatype IPSourceType = kIPSourceNULL | kIPSourceDebug | kIPSourceDNS | kIPSourceNewDns | kIPSourceProxy | kIPSourceBackup

record IPPortItem =
  ii_ip :: bytes
  ii_port :: ushort
  ii_source :: IPSourceType
  ii_host :: bytes

record BanItem =
  bi_ip :: bytes
  bi_port :: ushort
  bi_records :: byte
  bi_last_fail_time :: qword
  bi_last_suc_time :: qword

definition new_BanItem :: "bytes \<Rightarrow> ushort \<Rightarrow> BanItem" where
  "new_BanItem ip port = \<lparr> bi_ip = ip, bi_port = port, bi_records = 0, bi_last_fail_time = 0, bi_last_suc_time = 0 \<rparr>"

record xml_item =
  xi_ip :: "bytes option"
  xi_port :: dword
  xi_history :: qword

record xml_record =
  xr_netinfo :: "bytes option"
  xr_time :: "bytes option"
  xr_items :: "xml_item list"

record ip_sort =
  is_recordsxml :: "xml_record list"
  is_ban_fail_list :: "BanItem list"
  is_server_bans :: "bytes \<rightharpoonup> qword"

definition kRecordTimeout :: int where "kRecordTimeout = 60 * 60 * 24"
definition kBanTime :: int where "kBanTime = 6 * 60 * 1000"
definition kBanFailCount :: nat where "kBanFailCount = 3"
definition kSuccessUpdateInterval :: int where "kSuccessUpdateInterval = 10 * 1000"
definition kFailUpdateInterval :: int where "kFailUpdateInterval = 10 * 1000"

text \<open>\<^verbatim>\<open>SET_BIT\<close> at the width of its second argument, and \<^verbatim>\<open>CAL_BIT_COUNT\<close>.\<close>

definition SET_BIT :: "bool \<Rightarrow> 'a::len word \<Rightarrow> 'a word" where
  "SET_BIT b records = or (push_bit 1 records) (if b then 1 else 0)"

function CAL_BIT_COUNT :: "qword \<Rightarrow> nat" where
  "CAL_BIT_COUNT records = (if records = 0 then 0 else Suc (CAL_BIT_COUNT (and records (records - 1))))"
  by auto
termination
proof (relation "measure unat", simp)
  fix r :: qword assume "r \<noteq> 0"
  then have "unat (r - 1) < unat r" by (rule measure_unat)
  moreover have "and r (r - 1) \<le> r - 1" by (rule word_and_le1)
  ultimately show "(and r (r - 1), r) \<in> measure unat" by (simp add: word_le_nat_alt)
qed

declare CAL_BIT_COUNT.simps [simp del]

text \<open>\<^verbatim>\<open>tickcount_t::gettickspan\<close>\<close>

definition gettickspan :: "qword \<Rightarrow> qword \<Rightarrow> int" where
  "gettickspan now t = sint (now - t)"

text \<open>\<^verbatim>\<open>strtoul(s, NULL, 10)\<close> at 32 bits.\<close>

definition strtoul :: "bytes \<Rightarrow> int" where
  "strtoul str =
     (let s = dropWhile isspace (c_str str);
          neg = (s \<noteq> [] \<and> hd s = 45);
          s = (if s \<noteq> [] \<and> (hd s = 45 \<or> hd s = 43) then tl s else s);
          v = int (digits_from 10 s)
      in if 2 ^ 32 \<le> v then 2 ^ 32 - 1 else if neg then (- v) mod 2 ^ 32 else v)"

section \<open>The document\<close>

text \<open>\<^verbatim>\<open>__RemoveTimeoutXml\<close>; \<open>now\<close> is the wall clock in seconds.\<close>

definition RemoveTimeoutXml :: "int \<Rightarrow> ip_sort \<Rightarrow> ip_sort" where
  "RemoveTimeoutXml now s =
     s\<lparr> is_recordsxml := filter (\<lambda>r. case xr_time r of None \<Rightarrow> False
                                   | Some t \<Rightarrow> \<not> (now < strtoul t \<or> now - strtoul t \<ge> kRecordTimeout)) (is_recordsxml s) \<rparr>"

text \<open>\<^verbatim>\<open>__LoadXml\<close> with the document of the file, if there is one, and what \<^verbatim>\<open>__SaveXml\<close> writes.\<close>

definition LoadXml :: "int \<Rightarrow> xml_record list option \<Rightarrow> ip_sort \<Rightarrow> ip_sort" where
  "LoadXml now file s = (case file of None \<Rightarrow> s | Some d \<Rightarrow> RemoveTimeoutXml now (s\<lparr> is_recordsxml := d \<rparr>))"

definition SaveXml :: "int \<Rightarrow> ip_sort \<Rightarrow> ip_sort \<times> xml_record list" where
  "SaveXml now s = (let s = RemoveTimeoutXml now s in (s, is_recordsxml s))"

text \<open>Every byte of the history becomes one bit, the last byte first.\<close>

fun history_bits :: "nat \<Rightarrow> qword \<Rightarrow> byte \<Rightarrow> byte" where
  "history_bits 0 history records = records"
| "history_bits (Suc n) history records = history_bits n (drop_bit 8 history) (SET_BIT (and history 0xFF \<noteq> 0) records)"

definition ban_of_item :: "xml_item \<Rightarrow> BanItem res" where
  "ban_of_item x =
     (case xi_ip x of None \<Rightarrow> crash NullPointer
      | Some ip \<Rightarrow> ok ((new_BanItem ip (ucast (xi_port x)))\<lparr> bi_records := history_bits 8 (xi_history x) 0 \<rparr>))"

fun bans_of_items :: "xml_item list \<Rightarrow> BanItem list res" where
  "bans_of_items [] = ok []"
| "bans_of_items (x # xs) = and_then (ban_of_item x) (\<lambda>b. and_then (bans_of_items xs) (\<lambda>bs. ok (b # bs)))"

definition of_net :: "bytes \<Rightarrow> xml_record \<Rightarrow> bool" where
  "of_net label r \<longleftrightarrow> (case xr_netinfo r of None \<Rightarrow> False | Some n \<Rightarrow> c_str n = c_str label)"

text \<open>\<open>net\<close>: the label of the network, \<open>None\<close> without one.\<close>

definition InitHistory2BannedList :: "int \<Rightarrow> bytes option \<Rightarrow> bool \<Rightarrow> ip_sort \<Rightarrow> ip_sort res" where
  "InitHistory2BannedList now net savexml s =
     (let s = (if savexml then fst (SaveXml now s) else s)\<lparr> is_ban_fail_list := [] \<rparr> in
      case net of None \<Rightarrow> ok s
      | Some label \<Rightarrow>
          (case find (of_net label) (is_recordsxml s) of None \<Rightarrow> ok s
           | Some r \<Rightarrow> and_then (bans_of_items (xr_items r)) (\<lambda>bs. ok (s\<lparr> is_ban_fail_list := bs \<rparr>))))"

definition SimpleIPPortSort :: "int \<Rightarrow> bytes option \<Rightarrow> xml_record list option \<Rightarrow> ip_sort res" where
  "SimpleIPPortSort now net file =
     InitHistory2BannedList now net False
       (LoadXml now file \<lparr> is_recordsxml = [], is_ban_fail_list = [], is_server_bans = (\<lambda>_. None) \<rparr>)"

section \<open>Bans\<close>

definition is_address :: "bytes \<Rightarrow> ushort \<Rightarrow> BanItem \<Rightarrow> bool" where
  "is_address ip port b \<longleftrightarrow> bi_ip b = ip \<and> bi_port b = port"

definition RemoveBannedList :: "bytes \<Rightarrow> ip_sort \<Rightarrow> ip_sort" where
  "RemoveBannedList ip s = s\<lparr> is_ban_fail_list := filter (\<lambda>b. bi_ip b \<noteq> ip) (is_ban_fail_list s) \<rparr>"

text \<open>Change the first element that fits, or append a new one.\<close>

fun change_or_add :: "('a \<Rightarrow> bool) \<Rightarrow> ('a \<Rightarrow> 'a) \<Rightarrow> 'a \<Rightarrow> 'a list \<Rightarrow> 'a list" where
  "change_or_add P f new [] = [f new]"
| "change_or_add P f new (x # xs) = (if P x then f x # xs else x # change_or_add P f new xs)"

definition CanUpdate :: "qword \<Rightarrow> bytes \<Rightarrow> ushort \<Rightarrow> bool \<Rightarrow> ip_sort \<Rightarrow> bool" where
  "CanUpdate now ip port is_success s =
     (case find (is_address ip port) (is_ban_fail_list s) of None \<Rightarrow> True
      | Some b \<Rightarrow> if is_success then kSuccessUpdateInterval < gettickspan now (bi_last_suc_time b)
                  else kFailUpdateInterval < gettickspan now (bi_last_fail_time b))"

definition note_result :: "qword \<Rightarrow> bool \<Rightarrow> BanItem \<Rightarrow> BanItem" where
  "note_result now is_success b =
     (let b = b\<lparr> bi_records := SET_BIT (\<not> is_success) (bi_records b) \<rparr>
      in if is_success then b\<lparr> bi_last_suc_time := now \<rparr> else b\<lparr> bi_last_fail_time := now \<rparr>)"

definition UpdateBanList :: "qword \<Rightarrow> bool \<Rightarrow> bytes \<Rightarrow> ushort \<Rightarrow> ip_sort \<Rightarrow> ip_sort" where
  "UpdateBanList now is_success ip port s =
     s\<lparr> is_ban_fail_list := change_or_add (is_address ip port) (note_result now is_success) (new_BanItem ip port) (is_ban_fail_list s) \<rparr>"

definition note_item :: "bytes \<Rightarrow> ushort \<Rightarrow> bool \<Rightarrow> xml_record \<Rightarrow> xml_record" where
  "note_item ip port is_success r =
     r\<lparr> xr_items := change_or_add (\<lambda>x. (case xi_ip x of None \<Rightarrow> False | Some a \<Rightarrow> c_str a = c_str ip) \<and> xi_port x = ucast port)
          (\<lambda>x. x\<lparr> xi_history := SET_BIT (\<not> is_success) (xi_history x) \<rparr>)
          \<lparr> xi_ip = Some (c_str ip), xi_port = ucast port, xi_history = 0 \<rparr> (xr_items r) \<rparr>"

definition Sort_Update :: "qword \<Rightarrow> nat \<Rightarrow> bytes option \<Rightarrow> bytes \<Rightarrow> ushort \<Rightarrow> bool \<Rightarrow> ip_sort \<Rightarrow> ip_sort" where
  "Sort_Update now seconds net ip port is_success s =
     (case net of None \<Rightarrow> s
      | Some label \<Rightarrow>
          if \<not> CanUpdate now ip port is_success s then s
          else let s = UpdateBanList now is_success ip port s
               in s\<lparr> is_recordsxml := change_or_add (of_net label) (note_item ip port is_success)
                       \<lparr> xr_netinfo = Some (c_str label), xr_time = Some (dec_nat seconds), xr_items = [] \<rparr> (is_recordsxml s) \<rparr>)"

definition IsBanned :: "qword \<Rightarrow> bytes \<Rightarrow> ushort \<Rightarrow> ip_sort \<Rightarrow> bool" where
  "IsBanned now ip port s =
     (case find (is_address ip port) (is_ban_fail_list s) of None \<Rightarrow> False
      | Some b \<Rightarrow> if \<not> CAL_BIT_COUNT (ucast (bi_records b)) \<ge> kBanFailCount then False
                  else gettickspan now (bi_last_fail_time b) < kBanTime)"

definition AddServerBan :: "qword \<Rightarrow> bytes \<Rightarrow> ip_sort \<Rightarrow> ip_sort" where
  "AddServerBan now ip s = (if ip = [] then s else s\<lparr> is_server_bans := (is_server_bans s)(ip \<mapsto> now) \<rparr>)"

definition IsServerBan :: "qword \<Rightarrow> bytes \<Rightarrow> ip_sort \<Rightarrow> bool \<times> ip_sort" where
  "IsServerBan now ip s =
     (case is_server_bans s ip of None \<Rightarrow> (False, s)
      | Some t \<Rightarrow> if uint (now - t) < kBanTime then (True, s) else (False, s\<lparr> is_server_bans := (is_server_bans s)(ip := None) \<rparr>))"

section \<open>Filtering and sorting\<close>

fun FilterbyBanned :: "qword \<Rightarrow> IPPortItem list \<Rightarrow> ip_sort \<Rightarrow> IPPortItem list \<times> ip_sort" where
  "FilterbyBanned now [] s = ([], s)"
| "FilterbyBanned now (i # is) s =
     (let (out, s) = (if IsBanned now (ii_ip i) (ii_port i) s then (True, s) else IsServerBan now (ii_ip i) s);
          (is, s) = FilterbyBanned now is s
      in (if out then is else i # is, s))"

text \<open>The random numbers: what \<^verbatim>\<open>random_shuffle\<close> makes of a list, and the results of \<^verbatim>\<open>rand\<close>.\<close>

record dice =
  dc_shuffle :: "IPPortItem list \<Rightarrow> IPPortItem list"
  dc_rand :: "nat \<Rightarrow> nat"

definition in_history :: "ip_sort \<Rightarrow> IPPortItem \<Rightarrow> bool" where
  "in_history s i \<longleftrightarrow> list_ex (is_address (ii_ip i) (ii_port i)) (is_ban_fail_list s)"

text \<open>The comparison of \<^verbatim>\<open>std::sort\<close>. Equal elements stay in the shuffled order; since the shuffle is arbitrary,
  every outcome of the unstable sort is one of these.\<close>

definition better :: "ip_sort \<Rightarrow> IPPortItem \<Rightarrow> IPPortItem \<Rightarrow> bool" where
  "better s x y =
     (case (find (is_address (ii_ip x) (ii_port x)) (is_ban_fail_list s), find (is_address (ii_ip y) (ii_port y)) (is_ban_fail_list s)) of
        (Some l, Some r) \<Rightarrow>
          let cl = CAL_BIT_COUNT (ucast (bi_records l)); cr = CAL_BIT_COUNT (ucast (bi_records r)) in
          if cl \<noteq> cr then cl < cr
          else if bi_last_fail_time l \<noteq> bi_last_fail_time r then bi_last_fail_time l < bi_last_fail_time r
          else if bi_last_suc_time l \<noteq> bi_last_suc_time r then bi_last_suc_time l > bi_last_suc_time r
          else False
      | _ \<Rightarrow> False)"

fun place :: "('a \<Rightarrow> 'a \<Rightarrow> bool) \<Rightarrow> 'a \<Rightarrow> 'a list \<Rightarrow> 'a list" where
  "place lt x [] = [x]"
| "place lt x (y # ys) = (if lt y x then y # place lt x ys else x # y # ys)"

definition sort_by :: "('a \<Rightarrow> 'a \<Rightarrow> bool) \<Rightarrow> 'a list \<Rightarrow> 'a list" where
  "sort_by lt xs = foldr (place lt) xs []"

function merge_lists :: "(nat \<Rightarrow> nat) \<Rightarrow> nat \<Rightarrow> 'a list \<Rightarrow> 'a list \<Rightarrow> 'a list" where
  "merge_lists rand i history new =
     (if history = [] \<and> new = [] then []
      else let ran = rand i mod (length history + length new)
           in if ran < length history then hd history # merge_lists rand (Suc i) (tl history) new
              else hd new # merge_lists rand (Suc i) history (tl new))"
  by auto
termination
proof (relation "measure (\<lambda>(rand, i, h, n). length h + length n)", goal_cases)
  case (2 rand i h n ran)
  then have "h \<noteq> []" by auto
  then show ?case by (simp add: neq_Nil_conv)
next
  case (3 rand i h n ran)
  then have "n \<noteq> []" by (cases h) (auto dest: mod_less_divisor)
  then show ?case by (simp add: neq_Nil_conv)
qed simp

declare merge_lists.simps [simp del]

definition SortbyBanned :: "dice \<Rightarrow> ip_sort \<Rightarrow> IPPortItem list \<Rightarrow> IPPortItem list" where
  "SortbyBanned D s items =
     (let items = dc_shuffle D items
      in merge_lists (dc_rand D) 0 (sort_by (better s) (filter (in_history s) items)) (filter (\<lambda>i. \<not> in_history s i) items))"

text \<open>\<^verbatim>\<open>resize\<close> with a negative count throws.\<close>

definition SortandFilter :: "dice \<Rightarrow> qword \<Rightarrow> int \<Rightarrow> IPPortItem list \<Rightarrow> ip_sort \<Rightarrow> (IPPortItem list \<times> ip_sort) res" where
  "SortandFilter D now needcount items s =
     (let (items, s) = FilterbyBanned now items s; items = SortbyBanned D s items
      in if needcount < int (length items) then if needcount < 0 then crash OutOfRange else ok (take (nat needcount) items, s)
         else ok (items, s))"

section \<open>Counting the bits\<close>

text \<open>The number of ones of a number in binary.\<close>

fun ones :: "nat \<Rightarrow> nat" where
  "ones n = (if n = 0 then 0 else n mod 2 + ones (n div 2))"

declare ones.simps [simp del]

lemma ones_double [simp]: "ones (2 * n) = ones n" "ones (Suc (2 * n)) = Suc (ones n)" "ones 0 = 0"
  by (subst ones.simps; simp)+

lemma ones_lowest: "0 < n \<Longrightarrow> Suc (ones (and n (n - 1))) = ones n"
proof (induction n rule: less_induct)
  case (less n)
  show ?case
  proof (cases "even n")
    case True
    then obtain q where q: "n = 2 * q" by auto
    with less.prems have pos: "0 < q" by simp
    have "and n (n - 1) = 2 * and q (q - 1)"
      using pos by (subst and_nat_rec) (simp add: q mod_2_eq_odd, cases q, auto)
    then show ?thesis using less.IH [of q] pos q by simp
  next
    case False
    then obtain q where q: "n = Suc (2 * q)" by (auto elim: oddE)
    have "and n (n - 1) = 2 * q" by (subst and_nat_rec) (simp add: q)
    then show ?thesis by (simp add: q)
  qed
qed

lemma CAL_BIT_COUNT_ones: "CAL_BIT_COUNT r = ones (unat r)"
proof (induction r rule: CAL_BIT_COUNT.induct)
  case (1 r)
  show ?case
  proof (cases "r = 0")
    case False
    then have "unat (and r (r - 1)) = and (unat r) (unat r - 1)" by (simp add: unsigned_and_eq unat_minus_one)
    then show ?thesis using 1 False ones_lowest [of "unat r"] by (subst CAL_BIT_COUNT.simps) (simp add: unat_gt_0)
  qed (subst CAL_BIT_COUNT.simps, simp)
qed

section \<open>Filtering\<close>

text \<open>Shut out for the time being.\<close>

definition shut_out :: "qword \<Rightarrow> ip_sort \<Rightarrow> IPPortItem \<Rightarrow> bool" where
  "shut_out now s i \<longleftrightarrow> IsBanned now (ii_ip i) (ii_port i) s \<or> fst (IsServerBan now (ii_ip i) s)"

lemma IsServerBan_keeps:
  "IsServerBan now ip s = (b, s') \<Longrightarrow> is_ban_fail_list s' = is_ban_fail_list s \<and> shut_out now s' = shut_out now s"
  by (auto simp: IsServerBan_def shut_out_def IsBanned_def fun_eq_iff split: option.splits if_splits)

lemma FilterbyBanned_filter:
  "FilterbyBanned now items s = (out, s') \<Longrightarrow>
   out = filter (\<lambda>i. \<not> shut_out now s i) items \<and> is_ban_fail_list s' = is_ban_fail_list s \<and> shut_out now s' = shut_out now s"
proof (induction items arbitrary: s out s')
  case (Cons i items)
  obtain b s1 where b: "(if IsBanned now (ii_ip i) (ii_port i) s then (True, s) else IsServerBan now (ii_ip i) s) = (b, s1)" by fastforce
  obtain r where r: "FilterbyBanned now items s1 = (r, s')" "out = (if b then r else i # r)"
    using Cons.prems b by (auto split: prod.splits)
  have k: "is_ban_fail_list s1 = is_ban_fail_list s" "shut_out now s1 = shut_out now s"
    using b IsServerBan_keeps [of now "ii_ip i" s b s1] by (auto split: if_splits)
  have "b = shut_out now s i" using b by (auto simp: shut_out_def split: if_splits)
  with Cons.IH [OF r(1)] r(2) k show ?case by simp
qed simp

section \<open>Sorting\<close>

lemma set_place: "set (place lt x ys) = insert x (set ys)"
  by (induction ys) auto

lemma mset_place: "mset (place lt x ys) = add_mset x (mset ys)"
  by (induction ys) auto

lemma sort_by_simps [simp]: "sort_by lt [] = []" "sort_by lt (x # xs) = place lt x (sort_by lt xs)"
  by (simp_all add: sort_by_def)

lemma mset_sort_by [simp]: "mset (sort_by lt xs) = mset xs"
  by (induction xs) (simp_all add: mset_place)

lemma set_sort_by [simp]: "set (sort_by lt xs) = set xs"
  using mset_sort_by by (metis set_mset_mset)

lemma sorted_place:
  assumes tr: "\<And>x y z. lt x y \<Longrightarrow> lt y z \<Longrightarrow> lt x z" and weak: "\<And>x y z. \<not> lt x y \<Longrightarrow> \<not> lt y z \<Longrightarrow> \<not> lt x z" and ir: "\<And>x. \<not> lt x x"
  shows "sorted_wrt (\<lambda>x y. \<not> lt y x) ys \<Longrightarrow> sorted_wrt (\<lambda>x y. \<not> lt y x) (place lt x ys)"
proof (induction ys)
  case (Cons y ys)
  show ?case
  proof (cases "lt y x")
    case True
    then have "\<not> lt x y" using tr ir by blast
    then show ?thesis using Cons True by (auto simp: set_place)
  next
    case False
    then show ?thesis using Cons weak by auto
  qed
qed simp

lemma sorted_sort_by:
  assumes "\<And>x y z. lt x y \<Longrightarrow> lt y z \<Longrightarrow> lt x z" "\<And>x y z. \<not> lt x y \<Longrightarrow> \<not> lt y z \<Longrightarrow> \<not> lt x z" "\<And>x. \<not> lt x x"
  shows "sorted_wrt (\<lambda>x y. \<not> lt y x) (sort_by lt xs)"
  by (induction xs) (simp_all add: sorted_place [OF assms])

text \<open>What is remembered of an address, as the comparison weighs it.\<close>

definition merit :: "ip_sort \<Rightarrow> IPPortItem \<Rightarrow> nat \<times> qword \<times> qword" where
  "merit s i = (case find (is_address (ii_ip i) (ii_port i)) (is_ban_fail_list s) of None \<Rightarrow> (0, 0, 0)
     | Some b \<Rightarrow> (CAL_BIT_COUNT (ucast (bi_records b)), bi_last_fail_time b, bi_last_suc_time b))"

definition merit_less :: "nat \<times> qword \<times> qword \<Rightarrow> nat \<times> qword \<times> qword \<Rightarrow> bool" where
  "merit_less x y \<longleftrightarrow> fst x < fst y \<or> fst x = fst y \<and> (fst (snd x) < fst (snd y)
     \<or> fst (snd x) = fst (snd y) \<and> snd (snd y) < snd (snd x))"

lemma merit_less_order:
  "\<not> merit_less x x" "merit_less x y \<Longrightarrow> merit_less y z \<Longrightarrow> merit_less x z"
  "\<not> merit_less x y \<Longrightarrow> \<not> merit_less y z \<Longrightarrow> \<not> merit_less x z"
  unfolding merit_less_def by (auto simp: not_less)

lemma in_history_find: "in_history s i \<longleftrightarrow> find (is_address (ii_ip i) (ii_port i)) (is_ban_fail_list s) \<noteq> None"
  by (auto simp: in_history_def find_None_iff list_ex_iff)

lemma better_merit: "better s x y \<longleftrightarrow> in_history s x \<and> in_history s y \<and> merit_less (merit s x) (merit s y)"
  by (auto simp: better_def merit_def merit_less_def in_history_find Let_def split: option.splits)

lemma history_sorted: "sorted_wrt (\<lambda>x y. \<not> better s y x) (sort_by (better s) (filter (in_history s) items))"
proof -
  let ?lt = "\<lambda>x y. merit_less (merit s x) (merit s y)"
  have e: "place (better s) x ys = place ?lt x ys" if "in_history s x" "\<forall>y \<in> set ys. in_history s y" for x ys
    using that by (induction ys) (auto simp: better_merit)
  have "sort_by (better s) (filter (in_history s) items) = sort_by ?lt (filter (in_history s) items)"
  proof (induction items)
    case (Cons i items)
    show ?case
    proof (cases "in_history s i")
      case True
      have "place (better s) i (sort_by ?lt (filter (in_history s) items)) = place ?lt i (sort_by ?lt (filter (in_history s) items))"
        by (rule e) (use True in auto)
      then show ?thesis by (simp only: filter.simps True if_True sort_by_simps Cons.IH)
    qed (simp only: filter.simps if_False Cons.IH)
  qed simp
  moreover have "sorted_wrt (\<lambda>x y. \<not> ?lt y x) (sort_by ?lt (filter (in_history s) items))"
    by (rule sorted_sort_by) (use merit_less_order in blast)+
  ultimately show ?thesis by (auto simp: better_merit elim!: sorted_wrt_mono_rel [rotated])
qed

lemma merge_lists_parts:
  "\<forall>x \<in> set h. P x \<Longrightarrow> \<forall>x \<in> set n. \<not> P x \<Longrightarrow>
   filter P (merge_lists rand i h n) = h \<and> filter (\<lambda>x. \<not> P x) (merge_lists rand i h n) = n"
proof (induction rand i h n rule: merge_lists.induct)
  case (1 rand i h n)
  show ?case
  proof (cases "h = [] \<and> n = []")
    case False
    let ?ran = "rand i mod (length h + length n)"
    show ?thesis
    proof (cases "?ran < length h")
      case True
      then obtain a h' where h: "h = a # h'" by (cases h) auto
      show ?thesis using 1(1) [OF False refl True] 1(3,4) True by (subst (1 2) merge_lists.simps) (simp add: h)
    next
      case F: False
      then obtain a n' where n: "n = a # n'" using False by (cases n) (auto dest: mod_less_divisor)
      show ?thesis using 1(2) [OF False refl F] 1(3,4) F by (subst (1 2) merge_lists.simps) (simp add: n)
    qed
  qed (simp add: merge_lists.simps)
qed

lemma SortbyBanned_parts:
  "filter (in_history s) (SortbyBanned D s items) = sort_by (better s) (filter (in_history s) (dc_shuffle D items))"
  "filter (\<lambda>i. \<not> in_history s i) (SortbyBanned D s items) = filter (\<lambda>i. \<not> in_history s i) (dc_shuffle D items)"
proof -
  let ?h = "sort_by (better s) (filter (in_history s) (dc_shuffle D items))"
    and ?n = "filter (\<lambda>i. \<not> in_history s i) (dc_shuffle D items)"
  have "\<forall>x \<in> set ?h. in_history s x" "\<forall>x \<in> set ?n. \<not> in_history s x" by auto
  from merge_lists_parts [OF this, of "dc_rand D" 0]
  show "filter (in_history s) (SortbyBanned D s items) = ?h" "filter (\<lambda>i. \<not> in_history s i) (SortbyBanned D s items) = ?n"
    by (simp_all only: SortbyBanned_def Let_def)
qed

lemma mset_SortbyBanned: "mset (dc_shuffle D items) = mset items \<Longrightarrow> mset (SortbyBanned D s items) = mset items"
proof -
  assume m: "mset (dc_shuffle D items) = mset items"
  have part: "mset (filter P xs) + mset (filter (\<lambda>x. \<not> P x) xs) = mset xs" for P and xs :: "IPPortItem list"
    by (metis mset_filter multiset_partition)
  have "mset (SortbyBanned D s items) = mset (filter (in_history s) (dc_shuffle D items)) + mset (filter (\<lambda>i. \<not> in_history s i) (dc_shuffle D items))"
    unfolding part [of "in_history s" "SortbyBanned D s items", symmetric] by (simp only: SortbyBanned_parts mset_sort_by)
  then show ?thesis by (simp only: part m)
qed

lemma sorted_wrt_filter_take: "sorted_wrt R (filter P xs) \<Longrightarrow> sorted_wrt R (filter P (take k xs))"
  by (metis append_take_drop_id filter_append sorted_wrt_append)

text \<open>What passes: as many addresses as are asked for, none that is shut out, the ones that failed less first.\<close>

lemma SortandFilter_result:
  assumes "mset (dc_shuffle D (filter (\<lambda>i. \<not> shut_out now s i) items)) = mset (filter (\<lambda>i. \<not> shut_out now s i) items)" "0 \<le> n"
  shows "\<exists>out s'. SortandFilter D now n items s = ok (out, s')
    \<and> length out = min (nat n) (length (filter (\<lambda>i. \<not> shut_out now s i) items))
    \<and> mset out \<subseteq># mset (filter (\<lambda>i. \<not> shut_out now s i) items)
    \<and> sorted_wrt (\<lambda>x y. \<not> better s y x) (filter (in_history s) out)
    \<and> is_ban_fail_list s' = is_ban_fail_list s \<and> shut_out now s' = shut_out now s"
proof -
  let ?f = "filter (\<lambda>i. \<not> shut_out now s i) items"
  obtain s1 where f: "FilterbyBanned now items s = (?f, s1)" "is_ban_fail_list s1 = is_ban_fail_list s" "shut_out now s1 = shut_out now s"
    using FilterbyBanned_filter [of now items s] by (metis surj_pair)
  have e: "in_history s1 = in_history s" "better s1 = better s" using f(2) by (simp_all add: in_history_def better_def fun_eq_iff)
  let ?o = "SortbyBanned D s1 ?f"
  have m: "mset ?o = mset ?f" by (rule mset_SortbyBanned) (rule assms(1))
  have len: "length ?o = length ?f" using mset_eq_length [OF m] .
  have so: "sorted_wrt (\<lambda>x y. \<not> better s y x) (filter (in_history s) ?o)"
    using SortbyBanned_parts(1) [of s1 D ?f] history_sorted [of s1 "dc_shuffle D ?f"] by (simp add: e)
  have t: "mset (take k ?o) \<subseteq># mset ?f" for k
    using m by (metis append_take_drop_id mset_append mset_subset_eq_add_left)
  show ?thesis
    using assms(2) f len so m t [of "nat n"] sorted_wrt_filter_take [OF so, of "nat n"] by (auto simp: SortandFilter_def Let_def min_def)
qed

section \<open>Properties\<close>

text \<open>C28: Asked for \<open>n\<close> addresses, the memory delivers as many as there are, up to \<open>n\<close>, and none that is shut out;
  those it knows come in the order of their failures, whatever the dice do.\<close>

theorem addresses_sorted:
  assumes "mset (dc_shuffle D (filter (\<lambda>i. \<not> shut_out now s i) items)) = mset (filter (\<lambda>i. \<not> shut_out now s i) items)" "0 \<le> n"
  shows "\<exists>out s'. SortandFilter D now n items s = ok (out, s')
    \<and> length out = min (nat n) (length (filter (\<lambda>i. \<not> shut_out now s i) items))
    \<and> mset out \<subseteq># mset (filter (\<lambda>i. \<not> shut_out now s i) items)
    \<and> sorted_wrt (\<lambda>x y. \<not> better s y x) (filter (in_history s) out)"
  using SortandFilter_result [OF assms] by blast

definition sample_dice :: dice where "sample_dice = \<lparr> dc_shuffle = (\<lambda>xs. xs), dc_rand = (\<lambda>i. i) \<rparr>"

definition sample_item :: "bytes \<Rightarrow> IPPortItem" where
  "sample_item ip = \<lparr> ii_ip = ip, ii_port = 80, ii_source = kIPSourceDNS, ii_host = lit ''h'' \<rparr>"

definition sample_sort :: ip_sort where
  "sample_sort = \<lparr> is_recordsxml = [], is_ban_fail_list = [(new_BanItem (lit ''a'') 80)\<lparr> bi_records := 7, bi_last_fail_time := 1000 \<rparr>],
     is_server_bans = (\<lambda>_. None) \<rparr>"

lemma sample_shut_out: "shut_out 2000 sample_sort (sample_item (lit ''a''))" "\<not> shut_out 2000 sample_sort (sample_item (lit ''b''))"
  by code_simp+

theorem addresses_sorted_witness:
  "\<exists>out s'. SortandFilter sample_dice 2000 2 [sample_item (lit ''a''), sample_item (lit ''b'')] sample_sort = ok (out, s') \<and> length out = 1"
  using addresses_sorted [of sample_dice 2000 sample_sort "[sample_item (lit ''a''), sample_item (lit ''b'')]" 2] sample_shut_out
  by (auto simp: sample_dice_def)

section \<open>The history of a file\<close>

text \<open>When the history is read from the file its newest results take the highest bit, which the next result
  shifts out first; while the program runs the newest result is the lowest bit.\<close>

lemma history_order:
  "bit (history_bits 8 h 0) 7 \<longleftrightarrow> and h 0xFF \<noteq> 0" "bit (history_bits 8 h 0) 0 \<longleftrightarrow> and (drop_bit 56 h) 0xFF \<noteq> 0"
  by (simp_all add: eval_nat_numeral SET_BIT_def bit_simps)

end
