(* ===== verification/Net_Source.thy ===== *)
theory Net_Source imports Ipport_Sort begin

text \<open>
  Where the addresses of the servers come from (\<^verbatim>\<open>net_source.cc\<close>): the settings of the application, DNS and
  the backup addresses, sorted by what \<open>Ipport_Sort\<close> remembers. The static variables and the
  \<^verbatim>\<open>SimpleIPPortSort\<close> are one state. DNS, the dice, the clock (read once per call) and whether the
  application is active are arguments. The lemmas bound the lists and say which calls fail.
\<close>

section \<open>State and settings\<close>

record net_source =
  sg_longlink_hosts :: "bytes list"
  sg_longlink_ports :: "ushort list"
  sg_longlink_debugip :: bytes
  sg_shortlink_port :: ushort
  sg_shortlink_debugip :: bytes
  sg_host_backupips_mapping :: "bytes \<rightharpoonup> bytes list"
  sg_lowpriority_longlink_ports :: "ushort list"
  sg_host_debugip_mapping :: "bytes \<rightharpoonup> bytes"
  ipportstrategy_of :: ip_sort

definition NetSource :: "ip_sort \<Rightarrow> net_source" where
  "NetSource strategy = \<lparr> sg_longlink_hosts = [], sg_longlink_ports = [], sg_longlink_debugip = [], sg_shortlink_port = 0,
     sg_shortlink_debugip = [], sg_host_backupips_mapping = (\<lambda>_. None), sg_lowpriority_longlink_ports = [],
     sg_host_debugip_mapping = (\<lambda>_. None), ipportstrategy_of = strategy \<rparr>"

definition SetLongLink :: "bytes list \<Rightarrow> ushort list \<Rightarrow> bytes \<Rightarrow> net_source \<Rightarrow> net_source" where
  "SetLongLink hosts ports debugip s =
     (let s = s\<lparr> sg_longlink_debugip := debugip \<rparr>; s = (if hosts \<noteq> [] then s\<lparr> sg_longlink_hosts := hosts \<rparr> else s)
      in s\<lparr> sg_longlink_ports := ports \<rparr>)"

definition SetShortlink :: "ushort \<Rightarrow> bytes \<Rightarrow> net_source \<Rightarrow> net_source" where
  "SetShortlink port debugip s = s\<lparr> sg_shortlink_port := port, sg_shortlink_debugip := debugip \<rparr>"

definition SetBackupIPs :: "bytes \<Rightarrow> bytes list \<Rightarrow> net_source \<Rightarrow> net_source" where
  "SetBackupIPs host ips s = s\<lparr> sg_host_backupips_mapping := (sg_host_backupips_mapping s)(host \<mapsto> ips) \<rparr>"

definition SetDebugIP :: "bytes \<Rightarrow> bytes \<Rightarrow> net_source \<Rightarrow> net_source" where
  "SetDebugIP host ip s =
     (if ip = [] \<and> sg_host_debugip_mapping s host \<noteq> None
      then s\<lparr> sg_host_debugip_mapping := (sg_host_debugip_mapping s)(host := None) \<rparr>
      else s\<lparr> sg_host_debugip_mapping := (sg_host_debugip_mapping s)(host \<mapsto> ip) \<rparr>)"

definition SetLowPriorityLonglinkPorts :: "ushort list \<Rightarrow> net_source \<Rightarrow> net_source" where
  "SetLowPriorityLonglinkPorts ports s = s\<lparr> sg_lowpriority_longlink_ports := ports \<rparr>"

definition GetBackupIPs :: "bytes \<Rightarrow> net_source \<Rightarrow> bytes list" where
  "GetBackupIPs host s = (case sg_host_backupips_mapping s host of None \<Rightarrow> [] | Some ips \<Rightarrow> ips)"

definition on_strategy :: "(ip_sort \<Rightarrow> ip_sort) \<Rightarrow> net_source \<Rightarrow> net_source" where
  "on_strategy f s = s\<lparr> ipportstrategy_of := f (ipportstrategy_of s) \<rparr>"

text \<open>\<open>net\<close>: \<^verbatim>\<open>getNetInfo\<close>, with the label \<open>label\<close>.\<close>

definition ReportLongIP :: "qword \<Rightarrow> nat \<Rightarrow> NetType \<Rightarrow> bytes \<Rightarrow> bool \<Rightarrow> bytes \<Rightarrow> ushort \<Rightarrow> net_source \<Rightarrow> net_source" where
  "ReportLongIP now seconds net label is_success ip port s =
     (if ip = [] \<or> port = 0 then s
      else if net = kNoNet then s
      else on_strategy (Sort_Update now seconds (Some label) ip port is_success) s)"

definition ReportShortIP :: "qword \<Rightarrow> nat \<Rightarrow> NetType \<Rightarrow> bytes \<Rightarrow> bool \<Rightarrow> bytes \<Rightarrow> ushort \<Rightarrow> net_source \<Rightarrow> net_source" where
  "ReportShortIP now seconds net label is_success ip port s =
     (if ip = [] then s
      else if net = kNoNet then s
      else on_strategy (Sort_Update now seconds (Some label) ip port is_success) s)"

definition RemoveLongBanIP :: "bytes \<Rightarrow> net_source \<Rightarrow> net_source" where
  "RemoveLongBanIP ip s = on_strategy (RemoveBannedList ip) s"

definition ClearCache :: "int \<Rightarrow> bytes option \<Rightarrow> net_source \<Rightarrow> net_source res" where
  "ClearCache now net s = and_then (InitHistory2BannedList now net True (ipportstrategy_of s)) (\<lambda>t. ok (s\<lparr> ipportstrategy_of := t \<rparr>))"

section \<open>Debug addresses\<close>

definition debug_item :: "bytes \<Rightarrow> bytes \<Rightarrow> ushort \<Rightarrow> IPPortItem" where
  "debug_item ip host port = \<lparr> ii_ip = ip, ii_port = port, ii_source = kIPSourceDebug, ii_host = host \<rparr>"

text \<open>\<^verbatim>\<open>front\<close> of an empty vector is read only when there is a port to use it for.\<close>

definition GetLonglinkDebugIPPort :: "net_source \<Rightarrow> (bool \<times> IPPortItem list) res" where
  "GetLonglinkDebugIPPort s =
     (case find (\<lambda>h. sg_host_debugip_mapping s h \<noteq> None) (sg_longlink_hosts s) of
        Some h \<Rightarrow> ok (True, map (debug_item (the (sg_host_debugip_mapping s h)) h) (sg_longlink_ports s))
      | None \<Rightarrow>
          if sg_longlink_debugip s \<noteq> []
          then if sg_longlink_ports s = [] then ok (True, [])
               else (case sg_longlink_hosts s of [] \<Rightarrow> crash BadRead
                     | h # _ \<Rightarrow> ok (True, map (debug_item (sg_longlink_debugip s) h) (sg_longlink_ports s)))
          else ok (False, []))"

definition HasShortLinkDebugIP :: "bytes list \<Rightarrow> net_source \<Rightarrow> bool" where
  "HasShortLinkDebugIP hostlist s \<longleftrightarrow> sg_shortlink_debugip s \<noteq> [] \<or> (\<exists>h \<in> set hostlist. sg_host_debugip_mapping s h \<noteq> None)"

definition GetShortlinkDebugIPPort :: "bytes list \<Rightarrow> net_source \<Rightarrow> (bool \<times> IPPortItem list) res" where
  "GetShortlinkDebugIPPort hostlist s =
     (let items = concat (map (\<lambda>h. case sg_host_debugip_mapping s h of None \<Rightarrow> [] | Some ip \<Rightarrow> [debug_item ip h (sg_shortlink_port s)]) hostlist)
      in if sg_shortlink_debugip s \<noteq> []
         then (case hostlist of [] \<Rightarrow> crash BadRead
               | h # _ \<Rightarrow> let items = items @ [debug_item (sg_shortlink_debugip s) h (sg_shortlink_port s)] in ok (items \<noteq> [], items))
         else ok (items \<noteq> [], items))"

section \<open>Addresses\<close>

text \<open>\<open>dn_new\<close>: \<^verbatim>\<open>GetNewDNS().GetHostByName\<close>; \<open>dn_dns\<close>: \<^verbatim>\<open>GetDNS().GetHostByName\<close>, result and addresses.\<close>

record dns_env =
  dn_active :: bool
  dn_new :: "bytes \<Rightarrow> bytes list"
  dn_dns :: "bytes \<Rightarrow> bool \<times> bytes list"
  dn_dice :: dice
  dn_now :: qword

definition all_items :: "bytes list \<Rightarrow> ushort list \<Rightarrow> IPSourceType \<Rightarrow> bytes \<Rightarrow> IPPortItem list" where
  "all_items iplist ports ist host =
     concat (map (\<lambda>ip. map (\<lambda>port. \<lparr> ii_ip = ip, ii_port = port, ii_source = ist, ii_host = host \<rparr>) ports) iplist)"

definition MakeIPPorts :: "dns_env \<Rightarrow> IPPortItem list \<Rightarrow> bytes \<Rightarrow> nat \<Rightarrow> bool \<Rightarrow> bool \<Rightarrow> net_source \<Rightarrow> (nat \<times> IPPortItem list \<times> net_source) res" where
  "MakeIPPorts E items host limit isbackup islonglink s =
     (if \<not> isbackup
      then let (iplist, ist) = (if dn_new E host = [] then (snd (dn_dns E host), kIPSourceDNS) else (dn_new E host, kIPSourceNewDns));
               ports = (if islonglink then sg_longlink_ports s else [sg_shortlink_port s])
           in if iplist = [] then ok (0, items, s)
              else and_then (SortandFilter (dn_dice E) (dn_now E) (int limit - int (length items)) (all_items iplist ports ist host) (ipportstrategy_of s))
                     (\<lambda>(temp, t). let items = items @ temp in ok (length items, items, s\<lparr> ipportstrategy_of := t \<rparr>))
      else let iplist = GetBackupIPs host s;
               (iplist, s) = (if iplist = []
                              then let (ret, ips) = dn_dns E host
                                   in (ips, if ret then s\<lparr> sg_host_backupips_mapping := (sg_host_backupips_mapping s)(host \<mapsto> ips) \<rparr> else s)
                              else (iplist, s));
               ports = (if islonglink then if sg_lowpriority_longlink_ports s = [] then sg_longlink_ports s else sg_lowpriority_longlink_ports s
                        else [sg_shortlink_port s])
           in if iplist = [] then ok (0, items, s)
              else let items = take limit (items @ dc_shuffle (dn_dice E) (all_items iplist ports kIPSourceBackup host))
                   in ok (length items, items, s))"

definition kNumMakeCount :: nat where "kNumMakeCount = 5"

text \<open>One of the two loops while the application is active: \<open>merge\<close> and \<open>makelist\<close> are carried along.\<close>

fun make_active :: "dns_env \<Rightarrow> bool \<Rightarrow> bool \<Rightarrow> bytes list \<Rightarrow> nat \<Rightarrow> nat \<Rightarrow> IPPortItem list \<Rightarrow> net_source \<Rightarrow> (nat \<times> nat \<times> IPPortItem list \<times> net_source) res" where
  "make_active E isbackup islonglink [] merge makelist items s = ok (merge, makelist, items, s)"
| "make_active E isbackup islonglink (h # hs) merge makelist items s =
     (let makelist = (if merge = 1 \<and> length items = kNumMakeCount then kNumMakeCount + 1 else makelist)
      in and_then (MakeIPPorts E items h makelist isbackup islonglink s) (\<lambda>(n, items, s).
           make_active E isbackup islonglink hs (if 0 < n then merge + 1 else merge) makelist items s))"

text \<open>The loops while it is not.\<close>

fun make_inactive :: "dns_env \<Rightarrow> bool \<Rightarrow> nat \<Rightarrow> nat \<Rightarrow> bytes list \<Rightarrow> nat \<Rightarrow> nat \<Rightarrow> IPPortItem list \<Rightarrow> net_source \<Rightarrow> (nat \<times> IPPortItem list \<times> net_source) res" where
  "make_inactive E islonglink ret ret2 [] i limit items s = ok (limit, items, s)"
| "make_inactive E islonglink ret ret2 (h # hs) i limit items s =
     (if limit < kNumMakeCount - 1
      then let limit = limit + (if i < ret2 then ret + 1 else ret)
           in and_then (MakeIPPorts E items h limit False islonglink s) (\<lambda>(n, items, s). make_inactive E islonglink ret ret2 hs (Suc i) limit items s)
      else ok (limit, items, s))"

fun make_backup :: "dns_env \<Rightarrow> bool \<Rightarrow> bytes list \<Rightarrow> nat \<Rightarrow> IPPortItem list \<Rightarrow> net_source \<Rightarrow> (IPPortItem list \<times> net_source) res" where
  "make_backup E islonglink [] limit items s = ok (items, s)"
| "make_backup E islonglink (h # hs) limit items s =
     (if limit < kNumMakeCount
      then and_then (MakeIPPorts E items h kNumMakeCount True islonglink s) (\<lambda>(n, items, s). make_backup E islonglink hs limit items s)
      else ok (items, s))"

definition GetIPPortItems :: "dns_env \<Rightarrow> bytes list \<Rightarrow> bool \<Rightarrow> net_source \<Rightarrow> (IPPortItem list \<times> net_source) res" where
  "GetIPPortItems E hostlist islonglink s =
     (if dn_active E
      then and_then (make_active E False islonglink hostlist 0 kNumMakeCount [] s) (\<lambda>(merge, makelist, items, s).
           and_then (make_active E True islonglink hostlist merge makelist items s) (\<lambda>(merge, makelist, items, s). ok (items, s)))
      else if length hostlist = 0 then crash DivideByZero
      else and_then (make_inactive E islonglink ((kNumMakeCount - 1) div length hostlist) ((kNumMakeCount - 1) mod length hostlist) hostlist 0 0 [] s)
             (\<lambda>(limit, items, s). make_backup E islonglink hostlist limit items s))"

definition GetLongLinkItems :: "dns_env \<Rightarrow> net_source \<Rightarrow> (bool \<times> IPPortItem list \<times> net_source) res" where
  "GetLongLinkItems E s =
     and_then (GetLonglinkDebugIPPort s) (\<lambda>(found, items).
       if found then ok (True, items, s)
       else if sg_longlink_hosts s = [] then ok (False, items, s)
       else and_then (GetIPPortItems E (sg_longlink_hosts s) True s) (\<lambda>(items, s). ok (items \<noteq> [], items, s)))"

definition GetShortLinkItems :: "dns_env \<Rightarrow> bytes list \<Rightarrow> net_source \<Rightarrow> (bool \<times> IPPortItem list \<times> net_source) res" where
  "GetShortLinkItems E hostlist s =
     and_then (GetShortlinkDebugIPPort hostlist s) (\<lambda>(found, items).
       if found then ok (True, items, s)
       else if hostlist = [] then ok (False, items, s)
       else and_then (GetIPPortItems E hostlist False s) (\<lambda>(items, s). ok (items \<noteq> [], items, s)))"

section \<open>Lemmas\<close>

definition fair :: "dns_env \<Rightarrow> bool" where
  "fair E \<longleftrightarrow> (\<forall>xs. mset (dc_shuffle (dn_dice E) xs) = mset xs)"

text \<open>What the lists hold: an address of one of the hosts that is not shut out, or a backup address.\<close>

definition usable :: "dns_env \<Rightarrow> bytes list \<Rightarrow> net_source \<Rightarrow> IPPortItem \<Rightarrow> bool" where
  "usable E hosts s i \<longleftrightarrow> ii_host i \<in> set hosts
     \<and> (ii_source i = kIPSourceBackup \<or> ii_source i \<in> {kIPSourceDNS, kIPSourceNewDns} \<and> \<not> shut_out (dn_now E) (ipportstrategy_of s) i)"

definition list_fits :: "dns_env \<Rightarrow> bytes list \<Rightarrow> net_source \<Rightarrow> nat \<Rightarrow> IPPortItem list \<Rightarrow> net_source \<Rightarrow> bool" where
  "list_fits E hosts s0 limit items s \<longleftrightarrow> length items \<le> limit \<and> (\<forall>i \<in> set items. usable E hosts s0 i)
     \<and> shut_out (dn_now E) (ipportstrategy_of s) = shut_out (dn_now E) (ipportstrategy_of s0)"

lemma list_fits_mono: "list_fits E hosts s0 k items s \<Longrightarrow> k \<le> m \<Longrightarrow> list_fits E hosts s0 m items s"
  by (simp add: list_fits_def)

lemma all_items_facts: "i \<in> set (all_items iplist ports ist host) \<Longrightarrow> ii_source i = ist \<and> ii_host i = host"
  by (auto simp: all_items_def)

lemma set_shuffle: "fair E \<Longrightarrow> set (dc_shuffle (dn_dice E) xs) = set xs"
  unfolding fair_def by (metis set_mset_mset)

lemma MakeIPPorts_fits:
  assumes "fair E" "list_fits E hosts s0 limit items s" "h \<in> set hosts"
  shows "\<exists>n items' s'. MakeIPPorts E items h limit isbackup islonglink s = ok (n, items', s') \<and> list_fits E hosts s0 limit items' s'"
proof (cases isbackup)
  case True
  obtain iplist s1 where i: "(if GetBackupIPs h s = [] then let (ret, ips) = dn_dns E h
        in (ips, if ret then s\<lparr> sg_host_backupips_mapping := (sg_host_backupips_mapping s)(h \<mapsto> ips) \<rparr> else s)
      else (GetBackupIPs h s, s)) = (iplist, s1)" by fastforce
  have s1: "ipportstrategy_of s1 = ipportstrategy_of s" using i by (auto split: if_splits prod.splits)
  have "\<forall>i \<in> set (dc_shuffle (dn_dice E) (all_items iplist ports kIPSourceBackup h)). usable E hosts s0 i" for ports
    using set_shuffle [OF assms(1)] all_items_facts assms(3) by (fastforce simp: usable_def)
  then have "list_fits E hosts s0 limit (take limit (items @ dc_shuffle (dn_dice E) (all_items iplist ports kIPSourceBackup h))) s1" for ports
    using assms(2) s1 by (fastforce simp: list_fits_def dest: in_set_takeD)
  moreover have "list_fits E hosts s0 limit items s1" using assms(2) s1 by (simp add: list_fits_def)
  ultimately show ?thesis using True i by (simp add: MakeIPPorts_def Let_def)
next
  case False
  define ist where "ist = (if dn_new E h = [] then kIPSourceDNS else kIPSourceNewDns)"
  define iplist where "iplist = (if dn_new E h = [] then snd (dn_dns E h) else dn_new E h)"
  define ports where "ports = (if islonglink then sg_longlink_ports s else [sg_shortlink_port s])"
  let ?all = "all_items iplist ports ist h" and ?n = "int limit - int (length items)"
  have n: "0 \<le> ?n" using assms(2) by (simp add: list_fits_def)
  have "mset (dc_shuffle (dn_dice E) xs) = mset xs" for xs using assms(1) by (simp add: fair_def)
  from SortandFilter_result [OF this n, where now = "dn_now E" and s = "ipportstrategy_of s" and items = ?all]
  obtain out t where o: "SortandFilter (dn_dice E) (dn_now E) ?n ?all (ipportstrategy_of s) = ok (out, t)"
      "length out \<le> nat ?n" "mset out \<subseteq># mset (filter (\<lambda>i. \<not> shut_out (dn_now E) (ipportstrategy_of s) i) ?all)"
      "shut_out (dn_now E) t = shut_out (dn_now E) (ipportstrategy_of s)"
    by auto
  have "usable E hosts s0 i" if "i \<in> set out" for i
  proof -
    have "i \<in> set (filter (\<lambda>i. \<not> shut_out (dn_now E) (ipportstrategy_of s) i) ?all)"
      using set_mset_mono [OF o(3)] that by auto
    then show ?thesis using all_items_facts [of i iplist ports ist h] assms(2,3) by (auto simp: usable_def list_fits_def ist_def)
  qed
  then have "list_fits E hosts s0 limit (items @ out) (s\<lparr> ipportstrategy_of := t \<rparr>)"
    using assms(2) o(2,4) by (auto simp: list_fits_def)
  moreover have "MakeIPPorts E items h limit isbackup islonglink s = (if iplist = [] then ok (0, items, s)
      else and_then (SortandFilter (dn_dice E) (dn_now E) ?n ?all (ipportstrategy_of s))
        (\<lambda>(temp, t). let items = items @ temp in ok (length items, items, s\<lparr> ipportstrategy_of := t \<rparr>)))"
    using False by (auto simp: MakeIPPorts_def Let_def ist_def iplist_def ports_def)
  ultimately show ?thesis using o(1) assms(2) by (auto simp: Let_def)
qed

lemma make_active_fits:
  assumes "fair E"
  shows "list_fits E hosts s0 makelist items s \<Longrightarrow> makelist \<in> {kNumMakeCount, kNumMakeCount + 1} \<Longrightarrow> set hs \<subseteq> set hosts \<Longrightarrow>
    \<exists>merge' makelist' items' s'. make_active E isbackup islonglink hs merge makelist items s = ok (merge', makelist', items', s')
      \<and> list_fits E hosts s0 makelist' items' s' \<and> makelist' \<in> {kNumMakeCount, kNumMakeCount + 1}"
proof (induction hs arbitrary: merge makelist items s)
  case (Cons h hs)
  let ?m = "if merge = 1 \<and> length items = kNumMakeCount then kNumMakeCount + 1 else makelist"
  have m: "makelist \<le> ?m" "?m \<in> {kNumMakeCount, kNumMakeCount + 1}" using Cons.prems(2) by auto
  have h: "h \<in> set hosts" using Cons.prems(3) by simp
  obtain n items' s' where r: "MakeIPPorts E items h ?m isbackup islonglink s = ok (n, items', s')" "list_fits E hosts s0 ?m items' s'"
    using MakeIPPorts_fits [OF assms list_fits_mono [OF Cons.prems(1) m(1)] h, of isbackup islonglink] by blast
  have hs: "set hs \<subseteq> set hosts" using Cons.prems(3) by simp
  from Cons.IH [OF r(2) m(2) hs, of "if 0 < n then merge + 1 else merge"] r(1) show ?case
    by (simp only: make_active.simps Let_def and_then_simps prod.case)
qed simp

lemma make_inactive_fits:
  assumes "fair E"
  shows "list_fits E hosts s0 limit items s \<Longrightarrow> set hs \<subseteq> set hosts \<Longrightarrow> i + length hs = length hosts \<Longrightarrow>
    limit = i * ret + min i ret2 \<Longrightarrow> length hosts * ret + ret2 = kNumMakeCount - 1 \<Longrightarrow> ret2 < length hosts \<Longrightarrow>
    \<exists>limit' items' s'. make_inactive E islonglink ret ret2 hs i limit items s = ok (limit', items', s')
      \<and> list_fits E hosts s0 limit' items' s' \<and> limit' \<le> kNumMakeCount - 1"
proof (induction hs arbitrary: i limit items s)
  case Nil
  then show ?case by (auto simp: min_def)
next
  case (Cons h hs)
  have h: "h \<in> set hosts" and hs: "set hs \<subseteq> set hosts" using Cons.prems(2) by auto
  show ?case
  proof (cases "limit < kNumMakeCount - 1")
    case True
    let ?c = "limit + (if i < ret2 then ret + 1 else ret)"
    obtain n items' s' where r: "MakeIPPorts E items h ?c False islonglink s = ok (n, items', s')" "list_fits E hosts s0 ?c items' s'"
      using MakeIPPorts_fits [OF assms list_fits_mono [OF Cons.prems(1), of ?c] h, of False islonglink] by auto
    have c: "?c = Suc i * ret + min (Suc i) ret2" using Cons.prems(4) by auto
    have n: "Suc i + length hs = length hosts" using Cons.prems(3) by simp
    from Cons.IH [OF r(2) hs n c Cons.prems(5,6)] r(1) True show ?thesis
      by (simp only: make_inactive.simps Let_def and_then_simps prod.case if_True)
  next
    case False
    have "i * ret + min i ret2 \<le> length hosts * ret + ret2"
      using Cons.prems(3) by (intro add_mono mult_le_mono1) auto
    then have "limit \<le> kNumMakeCount - 1" using Cons.prems(4,5) by simp
    then show ?thesis using False Cons.prems(1) by simp
  qed
qed

lemma make_backup_fits:
  assumes "fair E"
  shows "list_fits E hosts s0 kNumMakeCount items s \<Longrightarrow> set hs \<subseteq> set hosts \<Longrightarrow>
    \<exists>items' s'. make_backup E islonglink hs limit items s = ok (items', s') \<and> list_fits E hosts s0 kNumMakeCount items' s'"
proof (induction hs arbitrary: items s)
  case (Cons h hs)
  have h: "h \<in> set hosts" and hs: "set hs \<subseteq> set hosts" using Cons.prems(2) by auto
  obtain n items' s' where r: "MakeIPPorts E items h kNumMakeCount True islonglink s = ok (n, items', s')" "list_fits E hosts s0 kNumMakeCount items' s'"
    using MakeIPPorts_fits [OF assms Cons.prems(1) h, of True islonglink] by blast
  from Cons.IH [OF r(2) hs] r(1) Cons.prems(1) show ?case by simp
qed simp

lemma GetIPPortItems_fits:
  assumes "fair E" "hosts \<noteq> []"
  shows "\<exists>items s'. GetIPPortItems E hosts islonglink s = ok (items, s')
    \<and> list_fits E hosts s (if dn_active E then kNumMakeCount + 1 else kNumMakeCount) items s'"
proof (cases "dn_active E")
  case True
  have i: "list_fits E hosts s kNumMakeCount [] s" by (simp add: list_fits_def)
  obtain m1 c1 i1 s1 where a: "make_active E False islonglink hosts 0 kNumMakeCount [] s = ok (m1, c1, i1, s1)"
      "list_fits E hosts s c1 i1 s1" "c1 \<in> {kNumMakeCount, kNumMakeCount + 1}"
    using make_active_fits [OF assms(1) i, of hosts False islonglink 0] by blast
  obtain m2 c2 i2 s2 where b: "make_active E True islonglink hosts m1 c1 i1 s1 = ok (m2, c2, i2, s2)"
      "list_fits E hosts s c2 i2 s2" "c2 \<in> {kNumMakeCount, kNumMakeCount + 1}"
    using make_active_fits [OF assms(1) a(2,3), of hosts True islonglink m1] by blast
  have "c2 \<le> kNumMakeCount + 1" using b(3) by auto
  then show ?thesis using True a(1) b(1) list_fits_mono [OF b(2)] by (simp add: GetIPPortItems_def)
next
  case False
  let ?n = "length hosts"
  have i: "list_fits E hosts s 0 [] s" by (simp add: list_fits_def)
  have d: "?n * ((kNumMakeCount - 1) div ?n) + (kNumMakeCount - 1) mod ?n = kNumMakeCount - 1" by simp
  have lt: "(kNumMakeCount - 1) mod ?n < ?n" using assms(2) by simp
  obtain c1 i1 s1 where a: "make_inactive E islonglink ((kNumMakeCount - 1) div ?n) ((kNumMakeCount - 1) mod ?n) hosts 0 0 [] s = ok (c1, i1, s1)"
      "list_fits E hosts s c1 i1 s1" "c1 \<le> kNumMakeCount - 1"
    using make_inactive_fits [OF assms(1) i _ _ _ d lt, of hosts 0 islonglink] by auto
  have "list_fits E hosts s kNumMakeCount i1 s1" using list_fits_mono [OF a(2)] a(3) by simp
  from make_backup_fits [OF assms(1) this, of hosts islonglink c1] obtain i2 s2 where
    "make_backup E islonglink hosts c1 i1 s1 = ok (i2, s2)" "list_fits E hosts s kNumMakeCount i2 s2" by blast
  then show ?thesis using False a(1) assms(2) by (simp add: GetIPPortItems_def)
qed

lemma GetShortlinkDebug_ok:
  assumes "\<not> (hosts = [] \<and> sg_shortlink_debugip s \<noteq> [])"
  shows "\<exists>items. GetShortlinkDebugIPPort hosts s = ok (items \<noteq> [], items) \<and> (sg_shortlink_debugip s \<noteq> [] \<longrightarrow> items \<noteq> [])"
proof (cases "sg_shortlink_debugip s = []")
  case True
  then show ?thesis by (simp add: GetShortlinkDebugIPPort_def Let_def)
next
  case False
  with assms obtain h hs where "hosts = h # hs" by (cases hosts) auto
  then show ?thesis using False by (simp add: GetShortlinkDebugIPPort_def Let_def)
qed

lemma GetShortLinkItems_cases:
  assumes "fair E"
  shows "if hosts = [] \<and> sg_shortlink_debugip s \<noteq> [] then GetShortLinkItems E hosts s = crash BadRead
    else \<exists>items s'. GetShortLinkItems E hosts s = ok (items \<noteq> [], items, s') \<and> (sg_shortlink_debugip s \<noteq> [] \<longrightarrow> items \<noteq> [])"
proof (cases "hosts = [] \<and> sg_shortlink_debugip s \<noteq> []")
  case True
  then show ?thesis by (simp add: GetShortLinkItems_def GetShortlinkDebugIPPort_def)
next
  case False
  then obtain items where d: "GetShortlinkDebugIPPort hosts s = ok (items \<noteq> [], items)" "sg_shortlink_debugip s \<noteq> [] \<longrightarrow> items \<noteq> []"
    using GetShortlinkDebug_ok by blast
  show ?thesis
  proof (cases "items = [] \<and> hosts \<noteq> []")
    case True
    then show ?thesis using d GetIPPortItems_fits [OF assms, of hosts False s] by (auto simp: GetShortLinkItems_def)
  next
    case False
    then show ?thesis using d \<open>\<not> (hosts = [] \<and> sg_shortlink_debugip s \<noteq> [])\<close> by (auto simp: GetShortLinkItems_def)
  qed
qed

section \<open>Properties\<close>

text \<open>What a list of addresses for \<open>hosts\<close> may hold.\<close>

definition good_list :: "dns_env \<Rightarrow> bytes list \<Rightarrow> net_source \<Rightarrow> IPPortItem list \<Rightarrow> bool" where
  "good_list E hosts s items \<longleftrightarrow> length items \<le> (if dn_active E then 6 else 5)
    \<and> (\<forall>i \<in> set items. ii_host i \<in> set hosts
        \<and> (ii_source i = kIPSourceBackup \<or> ii_source i \<in> {kIPSourceDNS, kIPSourceNewDns} \<and> \<not> shut_out (dn_now E) (ipportstrategy_of s) i))"

definition no_debug_address :: "net_source \<Rightarrow> bool" where
  "no_debug_address s \<longleftrightarrow> sg_longlink_debugip s = [] \<and> sg_shortlink_debugip s = [] \<and> sg_host_debugip_mapping s = Map.empty"

lemma items_good:
  assumes "fair E" "hosts \<noteq> []"
  shows "\<exists>items s'. GetIPPortItems E hosts islonglink s = ok (items, s') \<and> good_list E hosts s items"
  using GetIPPortItems_fits [OF assms, of islonglink s] by (auto simp: list_fits_def usable_def kNumMakeCount_def good_list_def)

text \<open>C27: Where no debug address is set, the address list of a connection is built without a fault for any
  hosts, for the long link and for a short link, the result says whether there is an address, and the list
  has at most six entries, five while the application is inactive. Every entry belongs to one of the hosts,
  and one that DNS gave is not shut out; only backup addresses are used unchecked. (With a debug address
  the list holds that address for every port, and a short link with no host crashes.)\<close>

theorem addresses_bounded:
  assumes "fair E" "no_debug_address s"
  shows "(\<exists>items s'. GetShortLinkItems E hosts s = ok (items \<noteq> [], items, s') \<and> good_list E hosts s items)
    \<and> (\<exists>items s'. GetLongLinkItems E s = ok (items \<noteq> [], items, s') \<and> good_list E (sg_longlink_hosts s) s items)"
proof
  have empty: "good_list E hs s []" for hs by (simp add: good_list_def)
  have "concat (map (\<lambda>h. []) hosts) = []" by (induction hosts) simp_all
  then have short: "GetShortlinkDebugIPPort hosts s = ok (False, [])"
    using assms(2) by (simp add: GetShortlinkDebugIPPort_def no_debug_address_def)
  show "\<exists>items s'. GetShortLinkItems E hosts s = ok (items \<noteq> [], items, s') \<and> good_list E hosts s items"
    using items_good [OF assms(1), of hosts False s] empty unfolding GetShortLinkItems_def short by (cases "hosts = []") auto
  have "find (\<lambda>h. False) hs = None" for hs :: "bytes list" by (induction hs) simp_all
  then have long: "GetLonglinkDebugIPPort s = ok (False, [])"
    using assms(2) by (simp add: GetLonglinkDebugIPPort_def no_debug_address_def)
  show "\<exists>items s'. GetLongLinkItems E s = ok (items \<noteq> [], items, s') \<and> good_list E (sg_longlink_hosts s) s items"
    using items_good [OF assms(1), of "sg_longlink_hosts s" True s] empty
    unfolding GetLongLinkItems_def long by (cases "sg_longlink_hosts s = []") auto
qed

definition sample_dns :: dns_env where
  "sample_dns = \<lparr> dn_active = True, dn_new = (\<lambda>_. []), dn_dns = (\<lambda>h. (True, [h])), dn_dice = sample_dice, dn_now = 2000 \<rparr>"

lemma sample_fair: "fair sample_dns"
  by (simp add: fair_def sample_dns_def sample_dice_def)

theorem addresses_bounded_witness:
  "(\<exists>items s'. GetShortLinkItems sample_dns [lit ''a'', lit ''b''] (NetSource sample_sort) = ok (items \<noteq> [], items, s')
      \<and> good_list sample_dns [lit ''a'', lit ''b''] (NetSource sample_sort) items)
    \<and> (\<exists>items s'. GetLongLinkItems sample_dns (NetSource sample_sort) = ok (items \<noteq> [], items, s')
      \<and> good_list sample_dns (sg_longlink_hosts (NetSource sample_sort)) (NetSource sample_sort) items)"
  by (rule addresses_bounded [OF sample_fair]) (simp add: no_debug_address_def NetSource_def)

end
