(* ===== verification/Shortlink.thy ===== *)
theory Shortlink imports Http_Laws Complex_Connect Net_Source begin

text \<open>
  A short connection (\<^verbatim>\<open>shortlink.cc\<close>, \<^verbatim>\<open>shortlink_packer.cc\<close>): the request in HTTP, and the worker that
  connects (\<open>Complex_Connect\<close>), sends it, reads the answer and reports. The sockets' answers, the addresses that
  \<open>Net_Source\<close> delivers and DNS are arguments; what the worker reports is a list of events. The times and labels in the profile are left out. The lemmas show that the request can be read back, that
  the worker never hangs in the parser, that it answers at most once, and that it delivers a whole body.
\<close>

section \<open>Error codes\<close>

definition kEctSocketWritenWithNonBlock :: int where "kEctSocketWritenWithNonBlock = -10088"
definition kEctSocketReadOnce :: int where "kEctSocketReadOnce = -10089"
definition kEctSocketShutdown :: int where "kEctSocketShutdown = -10090"
definition kEctHttpSplitHttpHeadAndBody :: int where "kEctHttpSplitHttpHeadAndBody = -10194"
definition kEctHttpParseStatusLine :: int where "kEctHttpParseStatusLine = -10195"
definition kEctDnsMakeSocketPrepared :: int where "kEctDnsMakeSocketPrepared = -10606"

section \<open>Packing a request\<close>

definition shortlink_fields :: "(bytes \<times> bytes) list \<Rightarrow> nat \<Rightarrow> fields" where
  "shortlink_fields headers len =
     (let field = (\<lambda>h (k, v). HeaderFiled k v h) in
      foldl field [] ([MakeAcceptAll, (KStringUserAgent, KStringMicroMessenger), MakeCacheControlNoCache, MakeContentTypeOctetStream,
        MakeConnectionClose, (KStringContentLength, dec_nat len)] @ headers))"

definition shortlink_pack :: "bytes \<Rightarrow> (bytes \<times> bytes) list \<Rightarrow> bytes \<Rightarrow> bytes" where
  "shortlink_pack url headers body =
     (let b = (Builder kRequest)\<lparr> bd_request := \<lparr> rq_method = kPost, rq_url = url, rq_version = kVersion_1_1 \<rparr>,
                                 bd_fields := shortlink_fields headers (length body) \<rparr>
      in snd (HeaderToBuffer b []) @ body)"

section \<open>Profile and events\<close>

record proxy_info =
  px_type :: ProxyType
  px_host :: bytes
  px_ip :: bytes
  px_port :: ushort
  px_username :: bytes
  px_password :: bytes

definition IsValid :: "proxy_info \<Rightarrow> bool" where
  "IsValid x \<longleftrightarrow> px_type x = kProxyNone \<or> (px_ip x \<noteq> [] \<or> px_host x \<noteq> []) \<and> px_port x > 0"

definition ProxyInfo :: proxy_info where
  "ProxyInfo = \<lparr> px_type = kProxyNone, px_host = [], px_ip = [], px_port = 0, px_username = [], px_password = [] \<rparr>"

record ConnectProfile =
  cp_ip_items :: "IPPortItem list"
  cp_conn_errcode :: int
  cp_ip :: bytes
  cp_port :: ushort
  cp_host :: bytes
  cp_ip_type :: IPSourceType
  cp_ip_index :: int
  cp_disconn_errtype :: ErrCmdType
  cp_disconn_errcode :: int
  cp_nat64 :: bool
  cp_proxy_info :: proxy_info

definition new_ConnectProfile :: ConnectProfile where
  "new_ConnectProfile = \<lparr> cp_ip_items = [], cp_conn_errcode = 0, cp_ip = [], cp_port = 0, cp_host = [], cp_ip_type = kIPSourceNULL,
     cp_ip_index = - 1, cp_disconn_errtype = kEctOK, cp_disconn_errcode = 0, cp_nat64 = False, cp_proxy_info = ProxyInfo \<rparr>"

text \<open>\<^verbatim>\<open>OnSend\<close>, \<^verbatim>\<open>OnRecv\<close>, \<^verbatim>\<open>func_network_report\<close>, \<^verbatim>\<open>OnResponse\<close> with the connection's profile.\<close>

datatype sl_event = SlSend | SlRecv nat nat | SlReport ErrCmdType int bytes bytes ushort
  | SlResponse ErrCmdType int bytes bool ConnectProfile

definition Short_worker_OnResponse :: "ErrCmdType \<Rightarrow> int \<Rightarrow> bytes \<Rightarrow> bool \<Rightarrow> ConnectProfile \<Rightarrow> ConnectProfile \<times> sl_event list" where
  "Short_worker_OnResponse errType status body report p =
     (let p = p\<lparr> cp_disconn_errtype := errType, cp_disconn_errcode := status \<rparr>
      in (p, (if errType \<noteq> kEctOK \<and> report then [SlReport errType status (cp_ip p) (cp_host p) (cp_port p)] else [])
           @ [SlResponse errType status body (- 1 \<noteq> cp_ip_index p) p]))"

definition RunResponseError :: "ErrCmdType \<Rightarrow> int \<Rightarrow> bool \<Rightarrow> ConnectProfile \<Rightarrow> ConnectProfile \<times> sl_event list" where
  "RunResponseError ty errcode report p = Short_worker_OnResponse ty errcode [] report p"

section \<open>Connecting\<close>

definition kShortlinkConnTimeout :: dword where "kShortlinkConnTimeout = 10 * 1000"
definition kShortlinkConnInterval :: dword where "kShortlinkConnInterval = 4 * 1000"

text \<open>What the system answers while the worker connects, and whether the worker is broken off by then, are the last four.\<close>

record connect_env =
  ce_GetProxyInfo :: "bytes \<Rightarrow> proxy_info"
  ce_nat64 :: bool
  ce_debugip :: bytes
  ce_shortlink_port :: ushort
  ce_items :: "bytes list \<Rightarrow> (bool \<times> IPPortItem list) res"
  ce_dns :: "bytes \<Rightarrow> bytes list option"
  ce_inet_addr :: "bytes \<Rightarrow> bytes"
  ce_starttime :: ticks
  ce_rounds :: "complex_round list"
  ce_break :: bool

text \<open>The first address is written to the profile.\<close>

definition use_item :: "IPPortItem \<Rightarrow> ConnectProfile \<Rightarrow> ConnectProfile" where
  "use_item i p = p\<lparr> cp_host := ii_host i, cp_ip_type := ii_source i, cp_ip := ii_ip i, cp_port := ii_port i \<rparr>"

definition http_proxy :: "bool \<Rightarrow> ConnectProfile \<Rightarrow> bool" where
  "http_proxy use_proxy p \<longleftrightarrow> use_proxy \<and> px_type (cp_proxy_info p) = kProxyHttp"

text \<open>The part of \<^verbatim>\<open>__RunConnect\<close> up to line 186: the proxy and the addresses.\<close>

definition proxied_profile :: "connect_env \<Rightarrow> mtask \<Rightarrow> bool \<Rightarrow> ConnectProfile" where
  "proxied_profile E t proxied =
     (let p = new_ConnectProfile;
          p = (case mt_shortlink_host_list t of [] \<Rightarrow> p | h # _ \<Rightarrow> p\<lparr> cp_host := h \<rparr>)
      in if proxied then p\<lparr> cp_proxy_info := ce_GetProxyInfo E (cp_host p) \<rparr> else p)"

definition find_addresses :: "connect_env \<Rightarrow> mtask \<Rightarrow> bool \<Rightarrow> (bool \<times> ConnectProfile) res" where
  "find_addresses E t proxied =
     (let p = proxied_profile E t proxied; use_proxy = (proxied \<and> IsValid (cp_proxy_info p))
      in if http_proxy use_proxy p \<and> ce_debugip E = []
         then let p = p\<lparr> cp_ip := px_ip (cp_proxy_info p), cp_port := px_port (cp_proxy_info p), cp_ip_type := kIPSourceProxy \<rparr>
              in ok (use_proxy, p\<lparr> cp_ip_items := [\<lparr> ii_ip = cp_ip p, ii_port = ce_shortlink_port E, ii_source = cp_ip_type p, ii_host = cp_host p \<rparr>] \<rparr>)
         else and_then (ce_items E (mt_shortlink_host_list t)) (\<lambda>(found, items).
                if \<not> found then ok (use_proxy, p\<lparr> cp_ip_items := items \<rparr>)
                else if items = [] then crash BadRead
                else ok (use_proxy, use_item (hd items) (p\<lparr> cp_ip_items := items \<rparr>))))"

text \<open>The proxy's address: \<open>None\<close> when DNS does not know it.\<close>

definition proxy_ip :: "connect_env \<Rightarrow> bool \<Rightarrow> ConnectProfile \<Rightarrow> bytes option" where
  "proxy_ip E use_proxy p =
     (let x = cp_proxy_info p in
      if use_proxy \<and> px_type x \<noteq> kProxyNone
      then if px_ip x = [] \<and> px_host x \<noteq> []
           then case ce_dns E (px_host x) of None \<Rightarrow> None | Some [] \<Rightarrow> None | Some (a # _) \<Rightarrow> Some a
           else Some (px_ip x)
      else Some [])"

definition vecaddr :: "bool \<Rightarrow> bytes \<Rightarrow> ConnectProfile \<Rightarrow> (bytes \<times> ushort) list" where
  "vecaddr use_proxy ip p =
     (if http_proxy use_proxy p then [(ip, px_port (cp_proxy_info p))]
      else map (\<lambda>i. (ii_ip i, cp_port p)) (cp_ip_items p))"

text \<open>\<^verbatim>\<open>ShortLinkConnectObserver\<close>: nothing is verified; a failed attempt with an item is reported with the address of the
  connection, which is the proxy's when there is a tunnel.\<close>

definition ShortLinkConnectObserver :: observer where
  "ShortLinkConnectObserver = \<lparr> OnShouldVerify = (\<lambda>i a. False), OnVerifySend = (\<lambda>i a b. (False, b)), OnVerifyRecv = (\<lambda>i a b. False) \<rparr>"

definition failed_reports :: "ConnectProfile \<Rightarrow> conn_event list \<Rightarrow> sl_event list" where
  "failed_reports p ev =
     concat (map (\<lambda>e. case e of
         OnConnected i addr sock err rtt \<Rightarrow>
           if err \<noteq> 0 \<and> i < length (cp_ip_items p) then [SlReport kEctSocket err (fst addr) (ii_host (cp_ip_items p ! i)) (snd addr)] else []
       | _ \<Rightarrow> []) ev)"

definition ConnectingIndex :: "conn_event list \<Rightarrow> nat \<Rightarrow> bool" where
  "ConnectingIndex ev =
     fold (\<lambda>e c. case e of OnConnect i addr sock \<Rightarrow> c(i := True) | OnConnected i addr sock err rtt \<Rightarrow> c(i := False) | _ \<Rightarrow> c) ev (\<lambda>_. False)"

text \<open>The attempts before the successful one that had not ended.\<close>

definition timeout_reports :: "ConnectProfile \<Rightarrow> conn_event list \<Rightarrow> int \<Rightarrow> sl_event list" where
  "timeout_reports p ev index =
     concat (map (\<lambda>i. if ConnectingIndex ev i
                      then let it = cp_ip_items p ! i in [SlReport kEctSocket ETIMEDOUT (ii_ip it) (ii_host it) (ii_port it)] else []) [0..<nat index])"

text \<open>How the worker stands: waiting for the socket, done, dead, or in the parser for ever.\<close>

datatype run_end = Running | Finished | Crashed fault | Hung

definition stuck_at :: "connect_end \<Rightarrow> run_end" where
  "stuck_at d = (case d of Connecting \<Rightarrow> Running | Stopped StopHung \<Rightarrow> Hung | Stopped (StopCrash f) \<Rightarrow> Crashed f | Connected \<Rightarrow> Finished)"

text \<open>The call of \<^verbatim>\<open>ConnectImpatient\<close>. A proxy's address is only made when the proxy is used; its type is passed anyway.\<close>

definition connect_call :: "connect_env \<Rightarrow> bool \<Rightarrow> bytes \<Rightarrow> proxy_info \<Rightarrow> sock_addr list \<Rightarrow> connect_end \<times> complex_state \<times> conn_event list" where
  "connect_call E use_proxy ip x addrs =
     (let V = \<lparr> cv_config = ComplexConnect kShortlinkConnTimeout kShortlinkConnInterval, cv_observer = Some ShortLinkConnectObserver,
                cv_inet_addr = ce_inet_addr E, cv_starttime = ce_starttime E \<rparr>;
          proxy_addr = (if use_proxy \<and> (px_type x = kProxyHttpTunel \<or> px_type x = kProxySocks5) then Some (ip, px_port x) else None)
      in ConnectImpatient V (ce_rounds E) addrs (px_type x) proxy_addr (px_username x) (px_password x))"

text \<open>\<^verbatim>\<open>__RunConnect\<close>; on the left how the worker stands when it does not get to the end. When DNS does not know the proxy it
  returns \<^verbatim>\<open>false\<close>, which is the socket 0.\<close>

definition RunConnect :: "connect_env \<Rightarrow> mtask \<Rightarrow> bool \<Rightarrow> run_end + (int \<times> ConnectProfile \<times> sl_event list)" where
  "RunConnect E t proxied =
     (case find_addresses E t proxied of
        Inl f \<Rightarrow> Inl (Crashed f)
      | Inr (use_proxy, p) \<Rightarrow>
          (case proxy_ip E use_proxy p of
             None \<Rightarrow> Inr (0, p, [])
           | Some ip \<Rightarrow>
               let addrs = vecaddr use_proxy ip p;
                   p = (if use_proxy \<and> (px_type (cp_proxy_info p) = kProxyHttpTunel \<or> px_type (cp_proxy_info p) = kProxySocks5)
                        then p\<lparr> cp_ip_type := kIPSourceProxy \<rparr> else p)
               in if addrs = [] then let (p, ev) = RunResponseError kEctDns kEctDnsMakeSocketPrepared False p in Inr (INVALID_SOCKET, p, ev)
                  else if cp_ip_items p = [] then Inl (Crashed BadRead)
                  else let p = (use_item (hd (cp_ip_items p)) p)\<lparr> cp_nat64 := ce_nat64 E \<rparr>;
                           (d, c, cev) = connect_call E use_proxy ip (cp_proxy_info p) addrs
                       in if d \<noteq> Connected then Inl (stuck_at d)
                          else let ev = failed_reports p cev; p = p\<lparr> cp_ip_index := cx_result_index c \<rparr>; sock = cx_retsocket c
                               in if sock = INVALID_SOCKET
                                  then let p = p\<lparr> cp_conn_errcode := cx_errcode c \<rparr> in
                                       if \<not> ce_break E
                                       then let (p, ev') = RunResponseError kEctSocket kEctSocketMakeSocketPrepared False p in Inr (INVALID_SOCKET, p, ev @ ev')
                                       else Inr (INVALID_SOCKET, p\<lparr> cp_disconn_errtype := kEctCanceld \<rparr>, ev)
                                  else let it = cp_ip_items p ! nat (cx_result_index c)
                                       in Inr (sock, p\<lparr> cp_host := ii_host it, cp_ip_type := ii_source it, cp_ip := ii_ip it \<rparr>,
                                               ev @ timeout_reports p cev (cx_result_index c))))"

section \<open>Sending and receiving\<close>

text \<open>\<^verbatim>\<open>snprintf\<close> into \<^verbatim>\<open>auth_info\<close> keeps 1023 bytes.\<close>

definition request_headers :: "ConnectProfile \<Rightarrow> (bytes \<times> bytes) list" where
  "request_headers p =
     (let x = cp_proxy_info p in
      [(KStringHost, cp_host p)]
      @ (if IsValid x \<and> px_type x = kProxyHttp \<and> px_username x \<noteq> [] \<and> px_password x \<noteq> []
         then [(lit ''Proxy-Authorization'', take 1023 (lit ''Basic '' @ c_str (EncodeBase64 (px_username x @ lit '':'' @ px_password x))))]
         else []))"

definition request_url :: "ConnectProfile \<Rightarrow> mtask \<Rightarrow> bytes" where
  "request_url p t = (if cp_ip_type p = kIPSourceProxy then lit ''http://'' @ cp_host p else []) @ mt_cgi t"

text \<open>One call of \<^verbatim>\<open>block_socket_recv\<close>: the answers of the socket, whether the worker is broken off after
  it, the memory that can be read behind the parser's buffer.\<close>

record recv_call =
  rc_rounds :: "(recv_result \<times> selected) list"
  rc_break :: bool
  rc_behind :: bytes

definition KBufferSize :: nat where "KBufferSize = 8 * 1024"

definition finish :: "ConnectProfile \<times> sl_event list \<Rightarrow> ConnectProfile \<times> sl_event list \<times> run_end" where
  "finish r = (fst r, snd r, Finished)"

definition parse_outcome :: "parser \<Rightarrow> ConnectProfile \<Rightarrow> (ConnectProfile \<times> sl_event list) option" where
  "parse_outcome ps p =
     (case hp_status ps of
        kFirstLineError \<Rightarrow> Some (RunResponseError kEctHttp kEctHttpParseStatusLine True p)
      | kHeaderFieldsError \<Rightarrow> Some (RunResponseError kEctHttp kEctHttpSplitHttpHeadAndBody True p)
      | kBodyError \<Rightarrow> Some (RunResponseError kEctHttp kEctHttpSplitHttpHeadAndBody True p)
      | kEnd \<Rightarrow>
          let status_code = sl_code (hp_statusline ps) in
          if status_code \<noteq> 200 then Some (RunResponseError kEctHttp status_code True p)
          else Some (Short_worker_OnResponse kEctOK status_code (hp_body ps) True p)
      | _ \<Rightarrow> None)"

text \<open>The loop of \<^verbatim>\<open>__RunReadWrite\<close>. \<^verbatim>\<open>recv_pos\<close> is the position of a buffer that is only appended to, so it stays 0.\<close>

fun read_loop :: "recv_call list \<Rightarrow> nat \<Rightarrow> parser \<Rightarrow> ConnectProfile \<Rightarrow> ConnectProfile \<times> sl_event list \<times> run_end" where
  "read_loop [] len ps p = (p, [], Running)"
| "read_loop (c # cs) len ps p =
     (case block_socket_recv (rc_rounds c) KBufferSize False [] of
        None \<Rightarrow> (p, [], Running)
      | Some ((recv_ret, err_code), s) \<Rightarrow>
          if recv_ret < 0 then finish (RunResponseError kEctSocket (if err_code = 0 then kEctSocketReadOnce else err_code) True p)
          else if rc_break c then (p\<lparr> cp_disconn_errtype := kEctCanceld \<rparr>, [], Finished)
          else if recv_ret = 0 \<and> err_code = ETIMEDOUT then read_loop cs len ps p
          else if recv_ret = 0 then finish (RunResponseError kEctSocket kEctSocketShutdown True p)
          else let len = len + length s; recvd = SlRecv len len in
               case Recv (rc_behind c) s ps of
                 None \<Rightarrow> (p, [recvd], Hung)
               | Some (Inl f) \<Rightarrow> (p, [recvd], Crashed f)
               | Some (Inr ps) \<Rightarrow>
                   (case parse_outcome ps p of
                      Some (p, ev) \<Rightarrow> (p, recvd # ev, Finished)
                    | None \<Rightarrow> let (p, ev, st) = read_loop cs len ps p in (p, recvd # ev, st)))"

text \<open>\<^verbatim>\<open>__RunReadWrite\<close>: the answers of the socket to the sending, whether the worker is broken off after it,
  and the calls that receive.\<close>

record rw_env =
  rw_send :: "(send_result \<times> selected) list"
  rw_break :: bool
  rw_recv :: "recv_call list"

definition RunReadWrite :: "rw_env \<Rightarrow> mtask \<Rightarrow> bytes \<Rightarrow> ConnectProfile \<Rightarrow> ConnectProfile \<times> sl_event list \<times> run_end" where
  "RunReadWrite R t send_body p =
     (case block_socket_send (rw_send R) (shortlink_pack (request_url p t) (request_headers p) send_body) 0 of
        None \<Rightarrow> (p, [], Running)
      | Some ((send_ret, err_code), out) \<Rightarrow>
          if send_ret < 0 then finish (RunResponseError kEctSocket (if err_code = 0 then kEctSocketWritenWithNonBlock else err_code) True p)
          else if rw_break R then (p, [], Finished)
          else read_loop (rw_recv R) 0 Parser p)"

text \<open>\<^verbatim>\<open>SendRequest\<close> starts the thread, which runs \<^verbatim>\<open>__Run\<close>.\<close>

definition ShortLink_Run :: "connect_env \<Rightarrow> rw_env \<Rightarrow> mtask \<Rightarrow> bool \<Rightarrow> bytes \<Rightarrow> ConnectProfile \<times> sl_event list \<times> run_end" where
  "ShortLink_Run E R t proxied send_body =
     (case RunConnect E t proxied of
        Inl e \<Rightarrow> (new_ConnectProfile, [], e)
      | Inr (sock, p, ev) \<Rightarrow>
          if sock = INVALID_SOCKET then (p, ev, Finished)
          else let (p, ev', st) = RunReadWrite R t send_body p in (p, ev @ SlSend # ev', st))"

end
