(* ===== verification/Complex_Laws.thy ===== *)
theory Complex_Laws imports Complex_Connect "HOL-Library.Multiset" begin

text \<open>
  What \<open>ConnectImpatient\<close> guarantees: no socket is lost or closed twice, no more than the configured number are open at any time,
  connections start in the order of the addresses and at least an interval apart, and a socket is only returned when
  the observer has accepted what came over it.
\<close>

section \<open>Sockets\<close>

definition opened :: "conn_event list \<Rightarrow> int multiset" where
  "opened ev = mset (concat (map (\<lambda>e. case e of Opened s \<Rightarrow> [s] | _ \<Rightarrow> []) ev))"

definition closed :: "conn_event list \<Rightarrow> int multiset" where
  "closed ev = mset (concat (map (\<lambda>e. case e of Closed s \<Rightarrow> [s] | _ \<Rightarrow> []) ev))"

lemma socket_events [simp]:
  "opened [] = {#}" "opened (e # ev) = (case e of Opened s \<Rightarrow> {#s#} | _ \<Rightarrow> {#}) + opened ev" "opened (a @ b) = opened a + opened b"
  "closed [] = {#}" "closed (e # ev) = (case e of Closed s \<Rightarrow> {#s#} | _ \<Rightarrow> {#}) + closed ev" "closed (a @ b) = closed a + closed b"
  by (auto simp: opened_def closed_def split: conn_event.split)

definition live :: "fsm option \<Rightarrow> int multiset" where
  "live x = (case x of None \<Rightarrow> {#} | Some f \<Rightarrow> if fs_sock f = INVALID_SOCKET then {#} else {#fs_sock f#})"

definition lives :: "fsm option list \<Rightarrow> int multiset" where
  "lives xs = (\<Sum>x \<leftarrow> xs. live x)"

lemma lives_simps [simp]: "lives [] = {#}" "lives (x # xs) = live x + lives xs" "lives (xs @ ys) = lives xs + lives ys" "live None = {#}"
  by (simp_all add: lives_def live_def)

text \<open>A connection that has not started has no socket; between two rounds none has ended.\<close>

definition fsm_ok :: "fsm \<Rightarrow> bool" where
  "fsm_ok f \<longleftrightarrow> (fs_status f = EStart \<longleftrightarrow> fs_sock f = INVALID_SOCKET) \<and> fs_status f \<noteq> EEnd"

definition fsms_ok :: "fsm option list \<Rightarrow> bool" where
  "fsms_ok fs \<longleftrightarrow> (\<forall>f. Some f \<in> set fs \<longrightarrow> fsm_ok f)"

lemma OnClose_simps [simp]:
  "fst (OnClose ob now st e u f) = f\<lparr> fs_checkfin := now \<rparr>" "opened (snd (OnClose ob now st e u f)) = {#}"
  "closed (snd (OnClose ob now st e u f)) = {#}"
  by (simp_all add: OnClose_def Let_def)

lemma end_with_simps [simp]: "fs_sock (end_with e f) = fs_sock f" "fs_status (end_with e f) = EEnd" "fs_index (end_with e f) = fs_index f"
  by (simp_all add: end_with_def)

lemma close_socket: "closed (snd (fsm_Close ob now n f)) = live (Some f)" "opened (snd (fsm_Close ob now n f)) = {#}"
  by (simp_all add: fsm_Close_def live_def Let_def case_prod_unfold)

lemma PreSelect_sockets:
  fixes ob a now f
  assumes "fsm_ok f"
  defines "g \<equiv> fst (PreSelect ob a now f)" and "ev \<equiv> snd (PreSelect ob a now f)"
  shows "live (Some g) = opened ev + live (Some f)" "closed ev = {#}" "fs_status g \<noteq> EStart" "fs_index g = fs_index f"
    "fs_sock g = INVALID_SOCKET \<Longrightarrow> fs_status g = EEnd"
proof -
  have "live (Some g) = opened ev + live (Some f) \<and> closed ev = {#} \<and> fs_status g \<noteq> EStart \<and> fs_index g = fs_index f
      \<and> (fs_sock g = INVALID_SOCKET \<longrightarrow> fs_status g = EEnd)"
  proof (cases "fs_status f = EStart")
    case True
    then have "fs_sock f = INVALID_SOCKET" using assms(1) by (simp add: fsm_ok_def)
    with True show ?thesis
      by (cases "ca_sock a = INVALID_SOCKET")
        (auto simp: g_def ev_def PreSelect_def PreConnectSelect_def live_def case_prod_unfold Let_def)
  next
    case False
    then show ?thesis using assms(1) by (auto simp: g_def ev_def PreSelect_def fsm_ok_def)
  qed
  then show "live (Some g) = opened ev + live (Some f)" "closed ev = {#}" "fs_status g \<noteq> EStart" "fs_index g = fs_index f"
    "fs_sock g = INVALID_SOCKET \<Longrightarrow> fs_status g = EEnd" by auto
qed

text \<open>What a step after \<^verbatim>\<open>select\<close> does to a connection: its socket stays, and it counts as checked only when nothing had to be
  checked or the observer has just accepted what was received.\<close>

definition needs :: "observer option \<Rightarrow> fsm \<Rightarrow> bool" where
  "needs ob f \<longleftrightarrow> (case ob of None \<Rightarrow> False
     | Some ob \<Rightarrow> OnShouldVerify ob (fs_index f) (if fs_kind f = kProxySocks5 then fs_dest f else fs_addr f))"

lemma needs_update [simp]:
  "needs ob (f\<lparr> fs_recv_buf := b \<rparr>) = needs ob f" "needs ob (f\<lparr> fs_request_send := q \<rparr>) = needs ob f"
  "needs ob (f\<lparr> fs_error := e, fs_end := t, fs_last_status := st, fs_status := st' \<rparr>) = needs ob f"
  by (auto simp: needs_def split: option.split)

text \<open>What stays of a connection: whether it has to be verified, and its address.\<close>

definition who :: "observer option \<Rightarrow> fsm \<Rightarrow> bool \<times> sock_addr" where
  "who ob f = (needs ob f, fs_addr f)"

definition quiet_events :: "conn_event list \<Rightarrow> bool" where
  "quiet_events ev \<longleftrightarrow> opened ev = {#} \<and> closed ev = {#} \<and> (\<forall>i a t s. Started i a t s \<notin> set ev)"

definition sound :: "observer option \<Rightarrow> fsm \<Rightarrow> fsm \<Rightarrow> conn_event list \<Rightarrow> bool" where
  "sound ob f g ev \<longleftrightarrow> fs_sock g = fs_sock f \<and> fs_index g = fs_index f \<and> fs_kind g = fs_kind f \<and> fs_addr g = fs_addr f
     \<and> fs_dest g = fs_dest f \<and> quiet_events ev
     \<and> (fs_check g = ECheckOK \<longrightarrow> fs_check f = ECheckOK \<or> \<not> needs ob f \<or> (\<exists>b. Verified (fs_index f) b True \<in> set ev))"

lemma quiet_events_simps [simp]: "quiet_events []" "quiet_events (a @ b) \<longleftrightarrow> quiet_events a \<and> quiet_events b"
  "quiet_events (snd (OnClose ob now st e u f))"
  by (auto simp: quiet_events_def OnClose_def Let_def)

lemma sound_refl [simp]: "sound ob f f []"
  by (simp add: sound_def)

lemma sound_trans: "sound ob f g e \<Longrightarrow> sound ob g h e' \<Longrightarrow> sound ob f h (e @ e')"
proof -
  assume s: "sound ob f g e" "sound ob g h e'"
  then have "needs ob g = needs ob f" by (cases ob) (simp_all add: sound_def needs_def)
  with s show "sound ob f h (e @ e')" unfolding sound_def by auto
qed

lemma sound_OnClose: "OnClose ob now st e u f = (g, ev) \<Longrightarrow> sound ob f g ev \<and> fs_status g = fs_status f"
  using OnClose_simps(1) [of ob now st e u f] quiet_events_simps(3) [of ob now st e u f] by (simp add: sound_def)

lemma sound_end_with [simp]: "sound ob f (end_with e f) []"
  by (simp add: sound_def end_with_def)

lemma sound_on_request_send: "sound ob f (on_request_send ob ia f) []" "fs_status (on_request_send ob ia f) = fs_status f"
proof -
  have v: "sound ob f (verify_behind ob b f) [] \<and> fs_status (verify_behind ob b f) = fs_status f" for b
    by (auto simp: verify_behind_def sound_def Let_def split: option.split prod.split)
  show "sound ob f (on_request_send ob ia f) []" "fs_status (on_request_send ob ia f) = fs_status f"
    using v by (cases "fs_check f"; simp add: on_request_send_def; simp add: sound_def)+
qed

lemma sound_on_connected:
  "sound ob f (fst (on_connected ob now f)) (snd (on_connected ob now f))" "fs_status (fst (on_connected ob now f)) = fs_status f"
  by (auto simp: on_connected_def sound_def quiet_events_def Let_def split: option.split prod.split)

lemma sound_tunnel_recv: "tunnel_recv ob now behind f = Inr (g, ev) \<Longrightarrow> fs_kind f = kProxyHttpTunel \<Longrightarrow> sound ob f g ev \<and> fs_status g = fs_status f"
  by (auto simp: tunnel_recv_def quiet_events_def sound_def needs_def Let_def split: option.splits sum.splits if_splits)

lemma sound_socks5_recv:
  assumes "fs_kind f = kProxySocks5"
  shows "sound ob f (fst (socks5_recv ob now f)) (snd (socks5_recv ob now f))" "fs_status (fst (socks5_recv ob now f)) = fs_status f"
  using assms by (cases "fs_check f"; simp add: socks5_recv_def quiet_events_def sound_def needs_def Let_def split: option.split)+

lemma sound_on_recv:
  assumes "on_recv ob now behind f = Inr (g, ev)"
  shows "sound ob f g ev \<and> fs_status g = fs_status f"
proof -
  consider "fs_check f = ECheckOK" | (tunnel) "tunnel_recv ob now behind f = Inr (g, ev)" "fs_kind f = kProxyHttpTunel"
    | (socks5) "socks5_recv ob now f = (g, ev)" "fs_kind f = kProxySocks5"
    | (plain) "fs_kind f \<noteq> kProxyHttpTunel" "fs_kind f \<noteq> kProxySocks5" "fs_check f \<noteq> ECheckOK"
    using assms by (auto simp: on_recv_def split: if_splits)
  then show ?thesis
  proof cases
    case tunnel
    then show ?thesis by (rule sound_tunnel_recv)
  next
    case socks5
    then show ?thesis using sound_socks5_recv [where f = f and ob = ob and now = now] by simp
  qed (use assms in \<open>auto simp: on_recv_def sound_def quiet_events_def Let_def split: option.splits if_splits\<close>)
qed

lemma sound_write_part:
  assumes "write_part ob ia a f = (ret, g, ev)"
  shows "sound ob f g ev \<and> (fs_status g = fs_status f \<or> fs_status g = EEnd)"
proof -
  define f' where "f' = (if fs_request_send f \<and> fs_send_buf f = [] then on_request_send ob ia (f\<lparr> fs_request_send := False \<rparr>) else f)"
  have f': "sound ob f f' []" "fs_status f' = fs_status f"
    using sound_on_request_send [where f = "f\<lparr> fs_request_send := False \<rparr>" and ob = ob and ia = ia] by (auto simp: f'_def sound_def)
  have "sound ob f' g ev \<and> (fs_status g = fs_status f' \<or> fs_status g = EEnd)"
    using assms by (auto simp: write_part_def f'_def [symmetric] sound_def quiet_events_def end_with_def Let_def split: send_result.splits if_splits)
  then show ?thesis using sound_trans [OF f'(1)] f'(2) by auto
qed

lemma sound_read_part:
  assumes "read_part ob a now f = Inr (g, ev)"
  shows "sound ob f g ev \<and> (fs_status g = fs_status f \<or> fs_status g = EEnd)"
proof (cases "sa_recv a")
  case (RecvData s)
  show ?thesis
  proof (cases "s = []")
    case False
    then have "on_recv ob now (sa_behind a) (f\<lparr> fs_recv_buf := fs_recv_buf f @ s \<rparr>) = Inr (g, ev)" using assms RecvData by (simp add: read_part_def)
    from sound_on_recv [OF this] show ?thesis by (simp add: sound_def)
  qed (use assms RecvData in \<open>auto simp: read_part_def sound_def end_with_def\<close>)
qed (use assms in \<open>auto simp: read_part_def sound_def end_with_def split: if_splits\<close>)

lemma sound_AfterReadWriteSelect:
  assumes "AfterReadWriteSelect ob ia a now f = Inr (g, ev)"
  shows "sound ob f g ev \<and> (fs_status g = fs_status f \<or> fs_status g = EEnd)"
proof -
  obtain ret h e where w: "(if sa_writable a \<and> (fs_send_buf f \<noteq> [] \<or> fs_request_send f) then write_part ob ia a f else (False, f, [])) = (ret, h, e)"
    by (metis prod_cases3)
  then have h: "sound ob f h e \<and> (fs_status h = fs_status f \<or> fs_status h = EEnd)"
    using sound_write_part by (auto split: if_splits)
  from assms consider "sa_exception a" "g = end_with (sa_so_error a) f" "ev = []" | "g = h" "ev = e"
    | e' where "read_part ob a now h = Inr (g, e')" "ev = e @ e'" | "g = end_with ETIMEDOUT h" "ev = e"
    unfolding AfterReadWriteSelect_def Let_def w prod.case by (auto split: if_splits sum.splits)
  then show ?thesis
  proof cases
    case 3
    then show ?thesis using h sound_read_part [OF 3(1)] sound_trans by auto
  next
    case 4
    then show ?thesis using h sound_trans [of ob f h e "end_with ETIMEDOUT h" "[]"] by simp
  qed (use h in simp_all)
qed

lemma sound_AfterConnectSelect:
  "sound ob f (fst (AfterConnectSelect ob a now f)) (snd (AfterConnectSelect ob a now f))"
  "fs_status f \<noteq> EStart \<Longrightarrow> fs_status (fst (AfterConnectSelect ob a now f)) \<noteq> EStart"
proof -
  let ?f = "f\<lparr> fs_error := 0, fs_end := now, fs_last_status := fs_status f, fs_status := EReadWrite \<rparr>"
  have "sound ob f (fst (on_connected ob now ?f)) (snd (on_connected ob now ?f))"
    using sound_on_connected(1) [of ob ?f now] by (simp add: sound_def)
  then show "sound ob f (fst (AfterConnectSelect ob a now f)) (snd (AfterConnectSelect ob a now f))"
    by (auto simp: AfterConnectSelect_def Let_def) (simp_all add: sound_def end_with_def)
  show "fs_status f \<noteq> EStart \<Longrightarrow> fs_status (fst (AfterConnectSelect ob a now f)) \<noteq> EStart"
    by (auto simp: AfterConnectSelect_def Let_def sound_on_connected(2))
qed

lemma sound_AfterSelect:
  assumes "AfterSelect ob ia a now f = Inr (g, ev)"
  shows "sound ob f g ev \<and> (fs_status f \<noteq> EStart \<longrightarrow> fs_status g \<noteq> EStart)"
proof -
  obtain h e where h: "(if fs_status f = EConnecting then Inr (AfterConnectSelect ob a now f)
      else if fs_status f = EReadWrite then AfterReadWriteSelect ob ia a now f else Inr (f, [])) = Inr (h, e)"
    using assms by (auto simp: AfterSelect_def split: sum.splits)
  have s: "sound ob f h e \<and> (fs_status f \<noteq> EStart \<longrightarrow> fs_status h \<noteq> EStart)"
    using h sound_AfterConnectSelect [where f = f and ob = ob and a = a and now = now] sound_AfterReadWriteSelect [of ob ia a now f h e] by (auto split: if_splits)
  from assms consider "g = h" "ev = e" | e' st er where "OnClose ob now st er False h = (g, e')" "ev = e @ e'"
    by (auto simp: AfterSelect_def h Let_def split: if_splits prod.splits)
  then show ?thesis using s sound_OnClose sound_trans by cases auto
qed

section \<open>One round\<close>

definition vetted :: "observer option \<Rightarrow> conn_event list \<Rightarrow> fsm \<Rightarrow> bool" where
  "vetted ob H f \<longleftrightarrow> (fs_check f = ECheckOK \<longrightarrow> \<not> needs ob f \<or> (\<exists>b. Verified (fs_index f) b True \<in> set H))"

text \<open>A connection between the two halves of a round.\<close>

definition mid :: "fsm \<Rightarrow> bool" where
  "mid f \<longleftrightarrow> fs_status f \<noteq> EStart \<and> (fs_sock f = INVALID_SOCKET \<longrightarrow> fs_status f = EEnd)"

lemma vetted_more: "vetted ob H f \<Longrightarrow> vetted ob (H @ ev) f" "vetted ob H f \<Longrightarrow> vetted ob (ev @ H) f"
  by (auto simp: vetted_def)

lemma vetted_sound: "vetted ob H f \<Longrightarrow> sound ob f g ev \<Longrightarrow> vetted ob (H @ ev) g"
proof -
  assume a: "vetted ob H f" "sound ob f g ev"
  then have "needs ob g = needs ob f" by (cases ob) (simp_all add: sound_def needs_def)
  with a show ?thesis by (auto simp: sound_def vetted_def)
qed

lemma ended_stays: "AfterSelect ob ia a now f = Inr (g, ev) \<Longrightarrow> fs_status f = EEnd \<Longrightarrow> fs_status g = EEnd"
  using sound_OnClose [of ob now _ _ False f g] by (auto simp: AfterSelect_def Let_def split: if_splits prod.splits)

lemma quiet_finished [simp]: "quiet_events (finished_event V r f)"
  by (simp add: finished_event_def quiet_events_def)

definition after_good :: "observer option \<Rightarrow> conn_event list \<Rightarrow> fsm \<Rightarrow> verdict \<Rightarrow> conn_event list \<Rightarrow> bool" where
  "after_good ob H f v ev \<longleftrightarrow> opened ev = {#} \<and> (\<forall>i a t s. Started i a t s \<notin> set ev) \<and>
     (case v of GivenUp \<Rightarrow> closed ev = live (Some f)
      | GoesOn g \<Rightarrow> closed ev = {#} \<and> fs_sock g = fs_sock f \<and> fs_index g = fs_index f \<and> who ob g = who ob f
          \<and> fsm_ok g \<and> fs_status g \<noteq> EStart \<and> vetted ob (H @ ev) g
      | Taken g \<Rightarrow> closed ev = {#} \<and> fs_sock g = fs_sock f \<and> fs_index g = fs_index f \<and> fs_sock g \<noteq> INVALID_SOCKET \<and> fs_check g = ECheckOK
          \<and> who ob g = who ob f \<and> vetted ob (H @ ev) g)"

lemma close_no_start: "Started i a t s \<notin> set (snd (fsm_Close ob now n f))"
  by (auto simp: fsm_Close_def OnClose_def Let_def)

lemma after_one_good:
  assumes "after_one V r f = Inr (v, ev)" "mid f" "vetted (cv_observer V) H f"
  shows "after_good (cv_observer V) H f v ev"
proof -
  obtain g e where g: "AfterSelect (cv_observer V) (cv_inet_addr V) (rn_after r (fs_index f)) (rn_later r) f = Inr (g, e)"
    using assms(1) by (auto simp: after_one_def split: sum.splits)
  have s: "sound (cv_observer V) f g e" "fs_status g \<noteq> EStart" using sound_AfterSelect [OF g] assms(2) by (auto simp: mid_def)
  have i: "fs_status g \<noteq> EEnd \<Longrightarrow> fs_sock g \<noteq> INVALID_SOCKET"
    using ended_stays [OF g] s(1) assms(2) by (auto simp: mid_def sound_def)
  have n: "who (cv_observer V) g = who (cv_observer V) f" using s(1) by (cases "cv_observer V") (simp_all add: sound_def needs_def who_def)
  have q: "quiet_events e" using s(1) by (simp add: sound_def)
  have v: "vetted (cv_observer V) (H @ e @ x) g" for x
    using vetted_more(1) [OF vetted_sound [OF assms(3) s(1)]] by simp
  have l: "live (Some g) = live (Some f)" using s(1) by (simp add: sound_def live_def)
  consider "v = GivenUp" "ev = e @ finished_event V r g @ snd (fsm_Close (cv_observer V) (rn_later r) True g)"
    | "v = Taken g" "ev = e @ finished_event V r g" "fs_status g = EReadWrite" "fs_check g = ECheckOK"
    | "v = GoesOn g" "ev = e" "fs_status g \<noteq> EEnd"
    using assms(1) by (auto simp: after_one_def g split: if_splits)
  then show ?thesis
  proof cases
    case 1
    then show ?thesis using q quiet_finished [of V r g] close_socket close_no_start l by (simp add: after_good_def quiet_events_def)
  next
    case 2
    then show ?thesis using q quiet_finished [of V r g] s(1) i n v by (simp add: after_good_def quiet_events_def sound_def)
  next
    case 3
    then show ?thesis using q s i n v [of "[]"] by (simp add: after_good_def quiet_events_def sound_def fsm_ok_def)
  qed
qed

text \<open>All of them.\<close>

definition all_good :: "observer option \<Rightarrow> conn_event list \<Rightarrow> fsm option list \<Rightarrow> fsm option list \<times> bool \<times> fsm option \<Rightarrow> conn_event list \<Rightarrow> bool" where
  "all_good ob H fs x ev \<longleftrightarrow> (case x of (gs, err, t) \<Rightarrow>
     length gs = length fs \<and> opened ev = {#} \<and> (\<forall>i a t s. Started i a t s \<notin> set ev) \<and> lives fs = closed ev + lives gs + live t \<and>
     (case t of None \<Rightarrow> \<forall>i g. i < length gs \<longrightarrow> gs ! i = Some g \<longrightarrow>
          (\<exists>f. fs ! i = Some f \<and> fs_index g = fs_index f \<and> fs_sock g = fs_sock f \<and> who ob g = who ob f \<and> fsm_ok g \<and> fs_status g \<noteq> EStart
             \<and> vetted ob (H @ ev) g)
      | Some g \<Rightarrow> fs_sock g \<noteq> INVALID_SOCKET \<and> fs_check g = ECheckOK \<and> vetted ob (H @ ev) g
          \<and> (\<exists>f. Some f \<in> set fs \<and> fs_index g = fs_index f \<and> fs_sock g = fs_sock f \<and> who ob g = who ob f)))"

lemma all_good_None: "all_good ob H fs (gs, err, t) ev \<Longrightarrow> all_good ob H (None # fs) (None # gs, err, t) ev"
  by (auto simp: all_good_def nth_Cons split: option.splits nat.splits)

lemma all_good_Some:
  assumes "after_good ob H f v e" "v = GoesOn g \<and> x = Some g \<or> v = GivenUp \<and> x = None" "all_good ob (H @ e) fs (gs, err, t) ev"
  shows "all_good ob H (Some f # fs) (x # gs, err', t) (e @ ev)"
proof (cases t)
  case None
  have "vetted ob (H @ e @ ev) h" if "vetted ob (H @ e) h" for h using vetted_more(1) [OF that, of ev] by simp
  then show ?thesis using assms None
    by (auto simp: all_good_def after_good_def nth_Cons live_def split: nat.splits)
next
  case (Some h)
  then show ?thesis using assms by (auto simp: all_good_def after_good_def live_def)
qed

lemma after_all_good:
  assumes "after_all V r fs = Inr (x, ev)" "\<And>f. Some f \<in> set fs \<Longrightarrow> mid f \<and> vetted (cv_observer V) H f"
  shows "all_good (cv_observer V) H fs x ev"
  using assms
proof (induction V r fs arbitrary: x ev H rule: after_all.induct)
  case (1 V r)
  then show ?case by (auto simp: all_good_def)
next
  case (2 V r fs)
  obtain gs err t where x: "after_all V r fs = Inr ((gs, err, t), ev)" "x = (None # gs, err, t)" using 2(2) by (auto split: sum.splits)
  show ?case unfolding x(2) using 2(1) [OF x(1), of H] 2(3) by (intro all_good_None) simp
next
  case (3 V r f fs)
  obtain v e where v: "after_one V r f = Inr (v, e)" using 3(3) by (auto split: sum.splits)
  have g: "after_good (cv_observer V) H f v e" using after_one_good [OF v] 3(4) by simp
  show ?case
  proof (cases "\<exists>g. v = Taken g")
    case True
    then obtain h where h: "v = Taken h" ..
    have "x = (None # fs, False, Some h)" "ev = e" using 3(3) by (simp_all add: v h)
    then show ?thesis using g by (auto simp: h all_good_def after_good_def live_def)
  next
    case False
    obtain gs err t ev' where r: "after_all V r fs = Inr ((gs, err, t), ev')"
      "x = ((case v of GoesOn g \<Rightarrow> Some g | _ \<Rightarrow> None) # gs, v = GivenUp \<or> err, t)" "ev = e @ ev'"
      using 3(3) False by (cases v) (auto simp: v split: sum.splits)
    have m: "mid f' \<and> vetted (cv_observer V) (H @ e) f'" if "Some f' \<in> set fs" for f' using 3(4) [of f'] that vetted_more(1) by simp
    have IH: "all_good (cv_observer V) (H @ e) fs (gs, err, t) ev'"
      using 3(1) [OF v refl _ r(1) m] 3(2) [OF v refl _ r(1) m] False by (cases v) auto
    show ?thesis unfolding r(2,3) using False by (intro all_good_Some [OF g _ IH, where g = "case v of GoesOn g \<Rightarrow> g"]) (cases v; simp)
  qed
qed

section \<open>How many, in which order, how far apart\<close>

definition bounded :: "nat \<Rightarrow> conn_event list \<Rightarrow> bool" where
  "bounded m ev \<longleftrightarrow> (\<forall>p q. ev = p @ q \<longrightarrow> size (opened p) \<le> size (closed p) + m)"

lemma bounded_append:
  assumes "bounded m H" "size (opened H) + size (opened ev) \<le> size (closed H) + m"
  shows "bounded m (H @ ev)"
  unfolding bounded_def
proof (intro allI impI)
  fix p q assume "H @ ev = p @ q"
  then consider us where "H = p @ us" | us where "p = H @ us" "ev = us @ q" by (auto simp: append_eq_append_conv2)
  then show "size (opened p) \<le> size (closed p) + m"
  proof cases
    case 1
    then show ?thesis using assms(1) by (simp add: bounded_def)
  next
    case 2
    then show ?thesis using assms(2) by simp
  qed
qed

lemma bounded_quiet: "bounded m H \<Longrightarrow> opened ev = {#} \<Longrightarrow> bounded m (H @ ev)"
proof -
  assume b: "bounded m H" and o: "opened ev = {#}"
  have "size (opened H) \<le> size (closed H) + m" using b unfolding bounded_def by (metis append_Nil2)
  then show ?thesis using bounded_append [OF b, of ev] o by simp
qed

text \<open>Index, address, time and socket of every connection that was started.\<close>

definition starts :: "conn_event list \<Rightarrow> (nat \<times> sock_addr \<times> ticks \<times> int) list" where
  "starts ev = concat (map (\<lambda>e. case e of Started i a t s \<Rightarrow> [(i, a, t, s)] | _ \<Rightarrow> []) ev)"

definition start_time :: "nat \<times> sock_addr \<times> ticks \<times> int \<Rightarrow> ticks" where
  "start_time x = fst (snd (snd x))"

lemma starts_simps [simp]: "starts [] = []" "starts (a @ b) = starts a @ starts b" "starts [Waits w] = []"
  "starts (e # ev) = (case e of Started i a t s \<Rightarrow> [(i, a, t, s)] | _ \<Rightarrow> []) @ starts ev"
  by (simp_all add: starts_def)

lemma no_starts: "\<forall>i a t s. Started i a t s \<notin> set ev \<Longrightarrow> starts ev = []"
  by (auto simp: starts_def split: conn_event.split)

text \<open>At least \<open>d\<close> milliseconds from one to the next, unless it is more than 24 days.\<close>

definition apart :: "nat \<Rightarrow> ticks \<Rightarrow> ticks \<Rightarrow> bool" where
  "apart d a b \<longleftrightarrow> (unat (b - a) < 2 ^ 31 \<longrightarrow> d \<le> unat (b - a))"

lemma as_int_diff:
  assumes "unat d < 2 ^ 31" "unat x < 2 ^ 31"
  shows "as_int (ucast (d :: dword) - (x :: ticks)) = int (unat d) - int (unat x)"
proof -
  let ?k = "int (unat d) - int (unat x)"
  have u: "uint (ucast d - x :: ticks) = ?k mod 2 ^ 64"
  proof -
    have "uint (ucast d :: ticks) = int (unat d)" using uint_lt2p [of d] by (simp add: unsigned_ucast_eq take_bit_eq_mod)
    then show ?thesis by (simp add: uint_word_ariths)
  qed
  have "(ucast (ucast d - x :: ticks) :: dword) = of_int (?k mod 2 ^ 64)"
    by (metis u ucast_eq word_of_int_uint of_int_uint)
  also have "\<dots> = of_int ?k"
    by (intro word_of_int_eq_iff [THEN iffD2]) (simp add: take_bit_eq_mod mod_mod_cancel)
  finally have "as_int (ucast d - x) = sint (of_int ?k :: dword)" by (simp add: as_int_def)
  moreover have "signed_take_bit 31 ?k = ?k"
  proof (rule signed_take_bit_int_eq_self)
    have "unat d < 2147483648" "unat x < 2147483648" using assms by simp_all
    then have "- 2147483648 \<le> ?k" "?k < 2147483648" by linarith+
    then show "- (2 ^ 31) \<le> ?k" "?k < 2 ^ 31" by simp_all
  qed
  moreover have "sint (of_int k :: dword) = signed_take_bit 31 k" for k
  proof -
    have "sint (of_int k :: dword) = of_int (signed_take_bit (LENGTH(32) - Suc 0) k)" by (rule signed_of_int)
    then show ?thesis by simp
  qed
  ultimately show ?thesis by metis
qed

lemma next_apart:
  assumes "0 \<ge> next_connect_timeout c now s" "unat (cx_interval c) < 2 ^ 31" "unat (cx_error_interval c) < 2 ^ 31"
  shows "apart (min (unat (cx_interval c)) (unat (cx_error_interval c))) (cx_laststart s) now"
  unfolding apart_def
proof
  let ?d = "if cx_lasterror s = 0 then cx_interval c else cx_error_interval c"
  assume "unat (now - cx_laststart s) < 2 ^ 31"
  then have "next_connect_timeout c now s = int (unat ?d) - int (unat (now - cx_laststart s))"
    unfolding next_connect_timeout_def using assms(2,3) by (intro as_int_diff) auto
  then have "unat ?d \<le> unat (now - cx_laststart s)" using assms(1) by linarith
  then show "min (unat (cx_interval c)) (unat (cx_error_interval c)) \<le> unat (now - cx_laststart s)" by (auto split: if_splits)
qed

section \<open>The invariant of the loop\<close>

definition fsm_at :: "complex_env \<Rightarrow> (nat \<Rightarrow> bool \<times> sock_addr) \<Rightarrow> conn_event list \<Rightarrow> nat \<Rightarrow> nat \<Rightarrow> fsm \<Rightarrow> bool" where
  "fsm_at V need H n i f \<longleftrightarrow> fs_index f = i \<and> who (cv_observer V) f = need i \<and> fsm_ok f \<and> (fs_status f = EStart \<longleftrightarrow> n \<le> i) \<and> vetted (cv_observer V) H f
     \<and> (fs_sock f \<noteq> INVALID_SOCKET \<longrightarrow> (\<exists>a t. (i, a, t, fs_sock f) \<in> set (starts H)))"

definition starts_ok :: "complex_config \<Rightarrow> (nat \<Rightarrow> bool \<times> sock_addr) \<Rightarrow> conn_event list \<Rightarrow> complex_state \<Rightarrow> bool" where
  "starts_ok c need H s \<longleftrightarrow> map (\<lambda>(i, a, _). (i, a)) (starts H) = map (\<lambda>i. (i, snd (need i))) [0..<cx_index s]
     \<and> (starts H \<noteq> [] \<longrightarrow> start_time (last (starts H)) = cx_laststart s)
     \<and> (\<forall>i. Suc i < length (starts H) \<longrightarrow>
          apart (min (unat (cx_interval c)) (unat (cx_error_interval c))) (start_time (starts H ! i)) (start_time (starts H ! Suc i)))"

definition conn_inv :: "complex_env \<Rightarrow> (nat \<Rightarrow> bool \<times> sock_addr) \<Rightarrow> nat \<Rightarrow> conn_event list \<Rightarrow> complex_state \<Rightarrow> bool" where
  "conn_inv V need N H s \<longleftrightarrow> length (cx_fsms s) = N \<and> cx_index s \<le> N \<and> cx_retsocket s = INVALID_SOCKET
     \<and> (\<forall>i. cx_index s \<le> i \<longrightarrow> i < N \<longrightarrow> cx_fsms s ! i \<noteq> None)
     \<and> (\<forall>i f. i < N \<longrightarrow> cx_fsms s ! i = Some f \<longrightarrow> fsm_at V need H (cx_index s) i f)
     \<and> opened H = closed H + lives (cx_fsms s) \<and> bounded (unat (cx_max_connect (cv_config V))) H \<and> starts_ok (cv_config V) need H s"

lemma size_lives: "size (lives fs) = length (filter isconnecting fs)"
  by (induction fs) (auto simp: live_def isconnecting_def split: option.splits)

lemma lives_sum: "(\<And>x. x \<in> set fs \<Longrightarrow> live (h x) = f x + live x) \<Longrightarrow> lives (map h fs) = (\<Sum>x \<leftarrow> fs. f x) + lives fs"
  by (induction fs) auto

lemma opened_concat: "opened (concat (map g fs)) = (\<Sum>x \<leftarrow> fs. opened (g x))" "closed (concat (map g fs)) = (\<Sum>x \<leftarrow> fs. closed (g x))"
  by (induction fs) simp_all

lemma PreSelect_rest:
  "fs_check (fst (PreSelect ob a now f)) = fs_check f" "fs_kind (fst (PreSelect ob a now f)) = fs_kind f"
  "fs_addr (fst (PreSelect ob a now f)) = fs_addr f" "fs_dest (fst (PreSelect ob a now f)) = fs_dest f"
  "fs_index (fst (PreSelect ob a now f)) = fs_index f"
  "starts (snd (PreSelect ob a now f)) = (if fs_status f = EStart then [(fs_index f, fs_addr f, now, ca_sock a)] else [])" "size (opened (snd (PreSelect ob a now f))) \<le> 1"
  "fs_status f \<noteq> EStart \<Longrightarrow> PreSelect ob a now f = (f, [])"
  "fs_status f = EStart \<Longrightarrow> fs_sock (fst (PreSelect ob a now f)) = ca_sock a"
  by (auto simp: PreSelect_def PreConnectSelect_def OnClose_def end_with_def starts_def Let_def)

lemma pre_one_Some: "pre_one V r (Some f) = (let x = PreSelect (cv_observer V) (rn_connect r (fs_index f)) (rn_now r) f in (Some (fst x), snd x))"
  "pre_one V r None = (None, [])"
  by (simp_all add: pre_one_def case_prod_unfold)

lemma pre_one_good:
  assumes "\<And>f. x = Some f \<Longrightarrow> fsm_ok f"
  shows "live (fst (pre_one V r x)) = opened (snd (pre_one V r x)) + live x" "closed (snd (pre_one V r x)) = {#}"
    "size (opened (snd (pre_one V r x))) \<le> 1"
  using assms PreSelect_sockets(1,2) PreSelect_rest(7) by (cases x; simp add: pre_one_Some Let_def; simp add: live_def)+

lemma pre_one_starts: "starts (snd (pre_one V r (Some f))) =
    (if fs_status f = EStart then [(fs_index f, fs_addr f, rn_now r, ca_sock (rn_connect r (fs_index f)))] else [])"
  by (simp add: pre_one_Some Let_def PreSelect_rest(6))

lemma pre_one_mid:
  assumes "fsm_ok f" "vetted (cv_observer V) H f"
  shows "\<exists>g. fst (pre_one V r (Some f)) = Some g \<and> fs_index g = fs_index f \<and> mid g \<and> vetted (cv_observer V) (H @ ev) g
    \<and> who (cv_observer V) g = who (cv_observer V) f
    \<and> (fs_status f \<noteq> EStart \<and> fs_sock g = fs_sock f \<or> fs_status f = EStart \<and> fs_sock g = ca_sock (rn_connect r (fs_index f)))"
proof -
  let ?g = "fst (PreSelect (cv_observer V) (rn_connect r (fs_index f)) (rn_now r) f)"
  have n: "needs (cv_observer V) ?g = needs (cv_observer V) f" by (cases "cv_observer V") (simp_all add: needs_def PreSelect_rest)
  have k: "fs_status f \<noteq> EStart \<and> fs_sock ?g = fs_sock f \<or> fs_status f = EStart \<and> fs_sock ?g = ca_sock (rn_connect r (fs_index f))"
    by (cases "fs_status f = EStart") (simp_all add: PreSelect_rest(8,9))
  have "mid ?g" using PreSelect_sockets(3,5) [OF assms(1)] by (simp add: mid_def)
  then show ?thesis using assms(2) n k by (simp add: pre_one_Some Let_def PreSelect_rest(1-5) who_def) (auto simp: vetted_def PreSelect_rest(1-5))
qed

text \<open>The half of a round before \<^verbatim>\<open>select\<close>: one connection at most is started, and only when one more may be.\<close>

definition started :: "complex_round \<Rightarrow> fsm option \<Rightarrow> nat \<times> sock_addr \<times> ticks \<times> int" where
  "started r x = (case x of Some f \<Rightarrow> (fs_index f, fs_addr f, rn_now r, ca_sock (rn_connect r (fs_index f))))"

lemma pre_all_good:
  fixes V r
  assumes "\<And>i f. i < length fs \<Longrightarrow> fs ! i = Some f \<Longrightarrow> fsm_ok f \<and> (fs_status f = EStart \<longleftrightarrow> m \<le> i)" "n \<le> length fs" "n \<le> Suc m"
    and "n = Suc m \<Longrightarrow> fs ! m \<noteq> None"
  defines "x \<equiv> pre_all V r n fs"
  shows "lives (fst x) = opened (snd x) + lives fs" "closed (snd x) = {#}" "starts (snd x) = (if n \<le> m then [] else [started r (fs ! m)])" "length (fst x) = length fs"
    "size (opened (snd x)) \<le> n - m" "drop n (fst x) = drop n fs"
proof -
  have ok: "fsm_ok f" if "Some f \<in> set (take n fs)" for f using that assms(1) by (metis in_set_takeD in_set_conv_nth)
  have t: "live (fst (pre_one V r y)) = opened (snd (pre_one V r y)) + live y" "closed (snd (pre_one V r y)) = {#}"
    if "y \<in> set (take n fs)" for y
    using pre_one_good [of y V r] ok that by blast+
  have "lives (map (fst \<circ> pre_one V r) (take n fs)) = (\<Sum>y \<leftarrow> take n fs. opened (snd (pre_one V r y))) + lives (take n fs)"
    using t(1) by (intro lives_sum) simp
  moreover have "lives fs = lives (take n fs) + lives (drop n fs)" by (metis append_take_drop_id lives_simps(3))
  ultimately show "lives (fst x) = opened (snd x) + lives fs" by (simp add: x_def pre_all_def opened_concat comp_def)
  have "(\<Sum>y \<leftarrow> ys. closed (snd (pre_one V r y))) = {#}" if "set ys \<subseteq> set (take n fs)" for ys using that t(2) by (induction ys) auto
  then show "closed (snd x) = {#}" by (simp add: x_def pre_all_def opened_concat comp_def)
  show "length (fst x) = length fs" "drop n (fst x) = drop n fs" using assms(2) by (simp_all add: x_def pre_all_def)
  have s: "snd (pre_one V r y) = []" if y: "y \<in> set (take (min n m) fs)" for y
  proof (cases y)
    case (Some f)
    obtain i where i: "i < length fs" "i < m" "fs ! i = Some f" using y Some by (auto simp: in_set_conv_nth)
    then have "fs_status f \<noteq> EStart" using assms(1) by fastforce
    then show ?thesis by (simp add: Some pre_one_Some PreSelect_rest(8))
  qed (simp add: pre_one_Some)
  then have e: "concat (map (snd \<circ> pre_one V r) ys) = []" if "set ys \<subseteq> set (take (min n m) fs)" for ys using that by (induction ys) auto
  have "size (opened (snd x)) \<le> n - m \<and> starts (snd x) = (if n \<le> m then [] else [started r (fs ! m)])"
  proof (cases "n \<le> m")
    case True
    then have "snd x = []" using e [of "take n fs"] by (simp add: x_def pre_all_def min_absorb1)
    then show ?thesis using True by simp
  next
    case False
    then have n: "n = Suc m" using assms(3) by simp
    then have tk: "take n fs = take m fs @ [fs ! m]" using assms(2) by (simp add: take_Suc_conv_app_nth)
    then have sx: "snd x = snd (pre_one V r (fs ! m))" using e [of "take m fs"] n by (simp add: x_def pre_all_def)
    obtain f where f: "fs ! m = Some f" using assms(4) [OF n] by blast
    have "fs_status f = EStart" "fsm_ok f" using assms(1) [of m f] f assms(2) n by auto
    then show ?thesis using pre_one_good(3) [of "fs ! m" V r] n f pre_one_starts [of V r f] by (simp add: sx started_def)
  qed
  then show "size (opened (snd x)) \<le> n - m" "starts (snd x) = (if n \<le> m then [] else [started r (fs ! m)])" by blast+
qed

lemma apart_snoc:
  assumes "\<forall>i. Suc i < length ts \<longrightarrow> R (ts ! i) (ts ! Suc i)" "ts \<noteq> [] \<Longrightarrow> R (last ts) t"
  shows "\<forall>i. Suc i < length (ts @ [t]) \<longrightarrow> R ((ts @ [t]) ! i) ((ts @ [t]) ! Suc i)"
proof (intro allI impI)
  fix i assume i: "Suc i < length (ts @ [t])"
  show "R ((ts @ [t]) ! i) ((ts @ [t]) ! Suc i)"
  proof (cases "Suc i < length ts")
    case True
    then show ?thesis using assms(1) by (simp add: nth_append)
  next
    case False
    then have "ts \<noteq> []" "i = length ts - 1" using i by auto
    then show ?thesis using assms(2) by (simp add: nth_append last_conv_nth)
  qed
qed

lemma start_next_good:
  assumes "conn_inv V need N H s" "N < 2 ^ 32" "unat (cx_interval (cv_config V)) < 2 ^ 31" "unat (cx_error_interval (cv_config V)) < 2 ^ 31"
    and "start_next (cv_config V) now s = (s', timeout)"
  shows "cx_fsms s' = cx_fsms s" "cx_retsocket s' = INVALID_SOCKET" "cx_index s \<le> cx_index s'" "cx_index s' \<le> N"
    "size (lives (cx_fsms s)) + (cx_index s' - cx_index s) \<le> max (unat (cx_max_connect (cv_config V))) (size (lives (cx_fsms s)))"
    "cx_index s' \<le> Suc (cx_index s)"
    "cx_index s' = cx_index s \<Longrightarrow> s' = s"
    "cx_index s' \<noteq> cx_index s \<Longrightarrow> cx_laststart s' = now
      \<and> apart (min (unat (cx_interval (cv_config V))) (unat (cx_error_interval (cv_config V)))) (cx_laststart s) now"
proof -
  let ?c = "cv_config V"
  have inv: "length (cx_fsms s) = N" "cx_index s \<le> N" "cx_retsocket s = INVALID_SOCKET" using assms(1) by (simp_all add: conn_inv_def)
  have all: "cx_fsms s' = cx_fsms s \<and> cx_retsocket s' = INVALID_SOCKET
      \<and> cx_index s \<le> cx_index s' \<and> cx_index s' \<le> N \<and> cx_index s' \<le> Suc (cx_index s)
      \<and> size (lives (cx_fsms s)) + (cx_index s' - cx_index s) \<le> max (unat (cx_max_connect ?c)) (size (lives (cx_fsms s)))
      \<and> (cx_index s' = cx_index s \<longrightarrow> s' = s)
      \<and> (cx_index s' \<noteq> cx_index s \<longrightarrow> cx_laststart s' = now
          \<and> apart (min (unat (cx_interval ?c)) (unat (cx_error_interval ?c))) (cx_laststart s) now)"
  proof (cases "may_connect ?c s \<and> 0 \<ge> next_connect_timeout ?c now s")
    case True
    then have s': "s' = s\<lparr> cx_laststart := now, cx_lasterror := 0, cx_trycount := cx_index s + 1, cx_index := cx_index s + 1 \<rparr>"
      using assms(5) by (auto simp: start_next_def Let_def)
    let ?n = "length (filter isconnecting (cx_fsms s))"
    have "?n \<le> N" using inv(1) by (metis length_filter_le)
    then have "unat (of_nat ?n :: dword) = ?n" using assms(2) by (simp add: unsigned_of_nat take_bit_nat_eq_self_iff)
    then have n: "?n < unat (cx_max_connect ?c)" using True by (simp add: may_connect_def word_less_nat_alt)
    have "apart (min (unat (cx_interval ?c)) (unat (cx_error_interval ?c))) (cx_laststart s) now"
      using True assms(3,4) by (intro next_apart) simp_all
    then show ?thesis using True inv n by (simp add: s' may_connect_def size_lives)
  next
    case False
    then have "s' = s" using assms(5) by (auto simp: start_next_def Let_def)
    then show ?thesis using inv by simp
  qed
  then show "cx_fsms s' = cx_fsms s" "cx_retsocket s' = INVALID_SOCKET" "cx_index s \<le> cx_index s'" "cx_index s' \<le> N"
    "size (lives (cx_fsms s)) + (cx_index s' - cx_index s) \<le> max (unat (cx_max_connect (cv_config V))) (size (lives (cx_fsms s)))"
    "cx_index s' \<le> Suc (cx_index s)"
    "cx_index s' = cx_index s \<Longrightarrow> s' = s"
    "cx_index s' \<noteq> cx_index s \<Longrightarrow> cx_laststart s' = now
      \<and> apart (min (unat (cx_interval (cv_config V))) (unat (cx_error_interval (cv_config V)))) (cx_laststart s) now" by blast+
qed

lemma starts_ok_next:
  assumes "conn_inv V need N H s" "starts ev = (if cx_index s' \<le> cx_index s then [] else [started r (cx_fsms s ! cx_index s)])"
    and "cx_index s \<le> cx_index s'" "cx_index s' \<le> Suc (cx_index s)" "cx_index s' \<le> N" "cx_index s' = cx_index s \<Longrightarrow> s' = s"
    and "cx_index s' \<noteq> cx_index s \<Longrightarrow> cx_laststart s' = rn_now r
      \<and> apart (min (unat (cx_interval (cv_config V))) (unat (cx_error_interval (cv_config V)))) (cx_laststart s) (rn_now r)"
  shows "starts_ok (cv_config V) need (H @ ev) s'"
proof (cases "cx_index s' = cx_index s")
  case True
  then show ?thesis using assms(1,2,6) by (simp add: conn_inv_def starts_ok_def)
next
  case False
  then have n: "cx_index s' = Suc (cx_index s)" "cx_index s < N" using assms(3-5) by auto
  then obtain f where f: "cx_fsms s ! cx_index s = Some f" using assms(1) by (auto simp: conn_inv_def)
  then have "fs_index f = cx_index s \<and> who (cv_observer V) f = need (cx_index s)"
    using assms(1) n(2) by (simp add: conn_inv_def fsm_at_def)
  then have a: "fs_index f = cx_index s" "fs_addr f = snd (need (cx_index s))" by (auto simp: who_def dest: sym)
  have st: "starts ev = [(cx_index s, snd (need (cx_index s)), rn_now r, ca_sock (rn_connect r (cx_index s)))]"
    using assms(2) n(1) f a by (simp add: started_def)
  have o: "starts_ok (cv_config V) need H s" using assms(1) by (simp add: conn_inv_def)
  let ?R = "\<lambda>x y. apart (min (unat (cx_interval (cv_config V))) (unat (cx_error_interval (cv_config V)))) (start_time x) (start_time y)"
  have "\<forall>i. Suc i < length (starts H @ starts ev) \<longrightarrow> ?R ((starts H @ starts ev) ! i) ((starts H @ starts ev) ! Suc i)"
    unfolding st using o assms(7) [OF False] by (intro apart_snoc [where R = ?R]) (auto simp: starts_ok_def start_time_def)
  then show ?thesis using o st assms(7) [OF False] n(1) by (simp add: starts_ok_def start_time_def)
qed

definition end_good :: "complex_env \<Rightarrow> (nat \<Rightarrow> bool \<times> sock_addr) \<Rightarrow> nat \<Rightarrow> conn_event list \<Rightarrow> complex_state \<Rightarrow> bool" where
  "end_good V need N H s \<longleftrightarrow> bounded (unat (cx_max_connect (cv_config V))) H \<and> starts_ok (cv_config V) need H s \<and> cx_index s \<le> N
     \<and> opened H = closed H + lives (cx_fsms s) + (if cx_retsocket s = INVALID_SOCKET then {#} else {#cx_retsocket s#})
     \<and> (cx_retsocket s \<noteq> INVALID_SOCKET \<longrightarrow>
          (\<exists>i < N. cx_result_index s = int i \<and> (\<exists>a t. (i, a, t, cx_retsocket s) \<in> set (starts H)) \<and> (fst (need i) \<longrightarrow> (\<exists>b. Verified i b True \<in> set H))))"

text \<open>The first half of a round leaves every connection it touched in the middle.\<close>

lemma half_round:
  fixes w
  assumes inv: "conn_inv V need N H s" "N < 2 ^ 32" "unat (cx_interval (cv_config V)) < 2 ^ 31" "unat (cx_error_interval (cv_config V)) < 2 ^ 31"
    and s1: "start_next (cv_config V) (rn_now r) s = (s1, timeout)" and pre: "pre_all V r (cx_index s1) (cx_fsms s1) = (fs, ev)"
  defines "G \<equiv> H @ ev @ [Waits w]"
  shows "bounded (unat (cx_max_connect (cv_config V))) G" "starts_ok (cv_config V) need G s1" "opened G = closed G + lives fs" "length fs = N"
    "\<And>i f. i < cx_index s1 \<Longrightarrow> fs ! i = Some f \<Longrightarrow> fs_index f = i \<and> who (cv_observer V) f = need i \<and> mid f \<and> vetted (cv_observer V) G f
      \<and> (fs_sock f \<noteq> INVALID_SOCKET \<longrightarrow> (\<exists>a t. (i, a, t, fs_sock f) \<in> set (starts G)))"
    "\<And>i f. cx_index s1 \<le> i \<Longrightarrow> i < N \<Longrightarrow> fs ! i = Some f \<Longrightarrow> fsm_at V need G (cx_index s1) i f"
    "\<And>i. cx_index s1 \<le> i \<Longrightarrow> i < N \<Longrightarrow> fs ! i \<noteq> None"
proof -
  let ?m = "unat (cx_max_connect (cv_config V))" let ?n = "cx_index s1"
  note sn = start_next_good [OF inv s1]
  have old: "length (cx_fsms s) = N" "\<And>i f. i < N \<Longrightarrow> cx_fsms s ! i = Some f \<Longrightarrow> fsm_at V need H (cx_index s) i f"
    "opened H = closed H + lives (cx_fsms s)" "bounded ?m H"
    "\<And>i. cx_index s \<le> i \<Longrightarrow> i < N \<Longrightarrow> cx_fsms s ! i \<noteq> None" using inv(1) by (simp_all add: conn_inv_def)
  have ok: "fsm_ok f \<and> (fs_status f = EStart \<longleftrightarrow> cx_index s \<le> i)" if "i < length (cx_fsms s1)" "cx_fsms s1 ! i = Some f" for i f
    using old(1,2) that by (simp add: sn(1) fsm_at_def)
  have le: "?n \<le> length (cx_fsms s1)" using sn(1,4) old(1) by simp
  have new: "?n = Suc (cx_index s) \<Longrightarrow> cx_fsms s1 ! cx_index s \<noteq> None" using old(5) [of "cx_index s"] sn(1,4) by simp
  note pg = pre_all_good [OF ok le sn(6) new, of V r, unfolded pre fst_conv snd_conv]
  show "length fs = N" using pg(4) sn(1) old(1) by simp
  show o: "opened G = closed G + lives fs" using pg(1,2) sn(1) old(3) by (simp add: G_def)
  have "size (opened H) + size (opened (ev @ [Waits w])) \<le> size (closed H) + ?m"
  proof -
    have "size (opened H) \<le> size (closed H) + ?m" using old(4) unfolding bounded_def by (metis append_Nil2)
    then have "size (lives (cx_fsms s)) \<le> ?m" using old(3) by simp
    then show ?thesis using pg(5) sn(5) old(3) by simp
  qed
  then show "bounded ?m G" unfolding G_def by (rule bounded_append [OF old(4)])
  have sv: "starts_ok (cv_config V) need (H @ ev) s1" using starts_ok_next [OF inv(1) _ sn(3,6,4,7,8)] pg(3) sn(1) by simp
  then show "starts_ok (cv_config V) need G s1" by (simp add: G_def starts_ok_def)
  fix i f assume f: "fs ! i = Some f"
  show "fs_index f = i \<and> who (cv_observer V) f = need i \<and> mid f \<and> vetted (cv_observer V) G f
      \<and> (fs_sock f \<noteq> INVALID_SOCKET \<longrightarrow> (\<exists>a t. (i, a, t, fs_sock f) \<in> set (starts G)))" if i: "i < ?n"
  proof -
    have iN: "i < N" using i sn(4) by simp
    have "fs ! i = fst (pre_one V r (cx_fsms s ! i))" using pre i le by (auto simp: pre_all_def sn(1) nth_append)
    then obtain g where g: "cx_fsms s ! i = Some g" "fst (pre_one V r (Some g)) = Some f"
      using f by (cases "cx_fsms s ! i") (auto simp: pre_one_Some(2))
    have a: "fsm_at V need H (cx_index s) i g" using old(2) [OF iN g(1)] .
    then have gi: "fs_index g = i" "fs_status g = EStart \<longleftrightarrow> cx_index s \<le> i" by (simp_all add: fsm_at_def)
    have m: "fs_index f = i \<and> who (cv_observer V) f = need i \<and> mid f \<and> vetted (cv_observer V) G f
        \<and> (fs_status g \<noteq> EStart \<and> fs_sock f = fs_sock g \<or> fs_status g = EStart \<and> fs_sock f = ca_sock (rn_connect r i))"
      using pre_one_mid [of g V H r "ev @ [Waits w]"] g(2) a by (auto simp: fsm_at_def G_def)
    have "\<exists>a t. (i, a, t, fs_sock f) \<in> set (starts G)" if v: "fs_sock f \<noteq> INVALID_SOCKET"
    proof (cases "fs_status g = EStart")
      case True
      then have "i = cx_index s" "?n = Suc i" using gi i sn(6) by auto
      then have "(i, fs_addr g, rn_now r, fs_sock f) \<in> set (starts ev)" using pg(3) sn(1) g(1) gi(1) m True by (simp add: started_def)
      then show ?thesis unfolding G_def by (intro exI [of _ "fs_addr g"] exI [of _ "rn_now r"]) simp
    next
      case False
      then show ?thesis using a m v by (auto simp: fsm_at_def G_def)
    qed
    then show ?thesis using m by blast
  qed
  show "fsm_at V need G ?n i f" if i: "?n \<le> i" "i < N"
  proof -
    have "fs ! i = cx_fsms s ! i"
      using pg(6) i pg(4) sn(1) old(1) by (metis le_add_diff_inverse nth_drop le sn(4))
    then have "fsm_at V need H (cx_index s) i f" using old(2) [OF i(2)] f by simp
    then show ?thesis using i sn(3) vetted_more(1) by (auto simp: fsm_at_def G_def)
  qed
next
  fix i assume i: "cx_index s1 \<le> i" "i < N"
  note sn = start_next_good [OF inv s1]
  have "length (cx_fsms s) = N" using inv(1) by (simp add: conn_inv_def)
  then have "fs ! i = cx_fsms s ! i" using pre i sn(4) by (auto simp: pre_all_def sn(1) nth_append min_absorb2)
  then show "fs ! i \<noteq> None" using inv(1) i sn(3) by (simp add: conn_inv_def)
qed

lemma all_good_at:
  assumes "all_good ob H fs (gs, err, None) ev" "i < length gs" "gs ! i = Some g"
  shows "\<exists>f. fs ! i = Some f \<and> fs_index g = fs_index f \<and> fs_sock g = fs_sock f \<and> who ob g = who ob f \<and> fsm_ok g
    \<and> fs_status g \<noteq> EStart \<and> vetted ob (H @ ev) g"
  using assms unfolding all_good_def prod.case option.case by blast

lemma round_good:
  assumes inv: "conn_inv V need N H s" "N < 2 ^ 32" "unat (cx_interval (cv_config V)) < 2 ^ 31" "unat (cx_error_interval (cv_config V)) < 2 ^ 31"
    and r: "connect_round V r s = Inr ((leave, s'), ev)"
  shows "leave \<Longrightarrow> end_good V need N (H @ ev) s'" "\<not> leave \<Longrightarrow> conn_inv V need N (H @ ev) s'"
proof -
  let ?m = "unat (cx_max_connect (cv_config V))"
  obtain s1 t where s1: "start_next (cv_config V) (rn_now r) s = (s1, t)" by force
  obtain fs e2 where pre: "pre_all V r (cx_index s1) (cx_fsms s1) = (fs, e2)" by force
  let ?n = "cx_index s1"
  define w where "w = (let t = select_timeout r ?n fs t in if t = INT_MAX then INT_MAX else max 0 t)"
  define G where "G = H @ e2 @ [Waits w]"
  note half = half_round(1,2,3,5,6) [OF inv s1 pre, where w = w, folded G_def] and rest = half_round(7) [OF inv s1 pre] and len = half_round(4) [OF inv s1 pre]
  have n: "?n \<le> N" "cx_retsocket s1 = INVALID_SOCKET" using start_next_good [OF inv s1] by simp_all
  have "(leave \<longrightarrow> end_good V need N (H @ ev) s') \<and> (\<not> leave \<longrightarrow> conn_inv V need N (H @ ev) s')"
  proof (cases "rn_ret r < 0 \<or> rn_exception r \<or> rn_break r")
    case True
    then have "leave" "s' = s1\<lparr> cx_fsms := fs \<rparr>" "H @ ev = G"
      using r by (auto simp: connect_round_def s1 pre w_def G_def Let_def)
    then show ?thesis using half(1-3) n by (simp add: end_good_def starts_ok_def)
  next
    case False
    define s2 where "s2 = s1\<lparr> cx_fsms := fs \<rparr>"
    define after where "after = (\<lambda>gs err (tk :: fsm option). let s = s2\<lparr> cx_fsms := gs @ drop (cx_index s2) fs, cx_lasterror := (if err then - 1 else cx_lasterror s2) \<rparr>
        in case tk of None \<Rightarrow> s | Some f \<Rightarrow> s\<lparr> cx_retsocket := fs_sock f, cx_result_index := int (fs_index f), cx_conn_rtt := Rtt f,
             cx_conn_totalcost := TotalRtt f \<rparr>)"
    have n2: "cx_index s2 = ?n" by (simp add: s2_def)
    have "(case after_all V r (take (cx_index s2) fs) of Inl e \<Rightarrow> Inl e | Inr ((gs, err, tk), e3) \<Rightarrow>
        Inr ((list_all (\<lambda>x. x = None) (cx_fsms (after gs err tk)) \<or> cx_retsocket (after gs err tk) \<noteq> INVALID_SOCKET, after gs err tk),
          (e2 @ [Waits w]) @ e3)) = Inr ((leave, s'), ev)"
      using r False unfolding connect_round_def s1 pre prod.case Let_def s2_def [symmetric] after_def w_def n2
      by (simp only: if_False append_assoc)
    then obtain gs err tk e3 where a: "after_all V r (take ?n fs) = Inr ((gs, err, tk), e3)" and ev: "H @ ev = G @ e3" and s': "s' = after gs err tk"
      and l: "leave \<longleftrightarrow> list_all (\<lambda>x. x = None) (cx_fsms s') \<or> cx_retsocket s' \<noteq> INVALID_SOCKET"
      by (auto simp: G_def n2 split: sum.splits)
    note s' = s' [unfolded after_def s2_def]
    have "mid f \<and> vetted (cv_observer V) G f" if "Some f \<in> set (take ?n fs)" for f
      using that half(4) by (auto simp: in_set_conv_nth)
    then have g: "all_good (cv_observer V) G (take ?n fs) (gs, err, tk) e3" by (rule after_all_good [OF a])
    have gs: "length gs = ?n" "opened e3 = {#}" "\<forall>i a t s. Started i a t s \<notin> set e3" "lives (take ?n fs) = closed e3 + lives gs + live tk"
      using g len n(1) by (simp_all add: all_good_def)
    have b: "bounded ?m (G @ e3)" by (rule bounded_quiet [OF half(1) gs(2)])
    have f: "cx_fsms s' = gs @ drop ?n fs" "cx_index s' = ?n" "cx_laststart s' = cx_laststart s1" "cx_retsocket s' = (case tk of None \<Rightarrow> INVALID_SOCKET | Some f \<Rightarrow> fs_sock f)"
      using n(2) by (simp_all add: s' Let_def split: option.split)
    have st: "starts_ok (cv_config V) need (G @ e3) s'" using half(2) no_starts [OF gs(3)] by (simp add: starts_ok_def f)
    have "lives fs = lives (take ?n fs) + lives (drop ?n fs)" by (metis append_take_drop_id lives_simps(3))
    then have o: "opened (G @ e3) = closed (G @ e3) + lives (cx_fsms s') + live tk" using half(3) gs(2,4) by (simp add: f)
    show ?thesis
    proof (cases tk)
      case None
      have "fsm_at V need (G @ e3) (cx_index s') i h" if "i < N" "cx_fsms s' ! i = Some h" for i h
      proof (cases "i < ?n")
        case True
        then have gi: "gs ! i = Some h" using that(2) gs(1) by (simp add: f nth_append)
        then obtain f0 where "take ?n fs ! i = Some f0" "fs_index h = fs_index f0" "fs_sock h = fs_sock f0" "who (cv_observer V) h = who (cv_observer V) f0"
          "fsm_ok h" "fs_status h \<noteq> EStart" "vetted (cv_observer V) (G @ e3) h"
          using all_good_at [OF g [unfolded None] _ gi] True gs(1) by auto
        then show ?thesis using half(4) [OF True, of f0] True by (auto simp: fsm_at_def f)
      next
        case False
        then have "fs ! i = Some h" using that gs(1) n(1) len by (simp add: f nth_append)
        then have "fsm_at V need G ?n i h" using half(5) False that(1) by simp
        then show ?thesis using vetted_more(1) by (fastforce simp: fsm_at_def f)
      qed
      moreover have "cx_fsms s' ! i \<noteq> None" if "?n \<le> i" "i < N" for i
        using rest [OF that] that gs(1) n(1) len by (simp add: f nth_append)
      ultimately show ?thesis using b st o n(1) f None gs(1) len unfolding ev
        by (simp add: conn_inv_def end_good_def)
    next
      case (Some h)
      have h: "fs_sock h \<noteq> INVALID_SOCKET" "fs_check h = ECheckOK" "vetted (cv_observer V) (G @ e3) h"
        "\<exists>f. Some f \<in> set (take ?n fs) \<and> fs_index h = fs_index f \<and> fs_sock h = fs_sock f \<and> who (cv_observer V) h = who (cv_observer V) f"
        using g by (simp_all add: all_good_def Some)
      then obtain i f0 where f0: "i < ?n" "fs ! i = Some f0" "fs_index h = fs_index f0" "fs_sock h = fs_sock f0"
          "who (cv_observer V) h = who (cv_observer V) f0"
        by (auto simp: in_set_conv_nth)
      then have i: "i < ?n" "fs_index h = i" "needs (cv_observer V) h = fst (need i)" "\<exists>a t. (i, a, t, fs_sock h) \<in> set (starts G)"
        using half(4) [OF f0(1,2)] h(1) by (auto simp: who_def dest: sym)
      have "cx_result_index s' = int i" by (simp add: s' Some i Let_def)
      then show ?thesis using b st o n(1) f Some h i l unfolding ev
        by (auto simp: end_good_def live_def vetted_def intro!: exI [of _ i])
    qed
  qed
  then show "leave \<Longrightarrow> end_good V need N (H @ ev) s'" "\<not> leave \<Longrightarrow> conn_inv V need N (H @ ev) s'" by blast+
qed

section \<open>The whole call\<close>

lemma close_all_good: "opened (close_all V now fs) = {#}" "closed (close_all V now fs) = lives fs" "starts (close_all V now fs) = []"
proof -
  have "opened (snd (fsm_Close ob now n f)) = {#} \<and> closed (snd (fsm_Close ob now n f)) = live (Some f) \<and> starts (snd (fsm_Close ob now n f)) = []"
    for ob n f using close_socket close_no_start by (simp add: no_starts)
  then have "opened (close_all V now fs) = {#} \<and> closed (close_all V now fs) = lives fs \<and> starts (close_all V now fs) = []"
    by (induction fs) (auto simp: close_all_def split: option.split)
  then show "opened (close_all V now fs) = {#}" "closed (close_all V now fs) = lives fs" "starts (close_all V now fs) = []" by blast+
qed

definition small_config :: "complex_config \<Rightarrow> nat \<Rightarrow> bool" where
  "small_config c N \<longleftrightarrow> N < 2 ^ 32 \<and> unat (cx_interval c) < 2 ^ 31 \<and> unat (cx_error_interval c) < 2 ^ 31"

definition call_good :: "complex_env \<Rightarrow> (nat \<Rightarrow> bool \<times> sock_addr) \<Rightarrow> nat \<Rightarrow> connect_end \<Rightarrow> complex_state \<Rightarrow> conn_event list \<Rightarrow> bool" where
  "call_good V need N d s ev \<longleftrightarrow> bounded (unat (cx_max_connect (cv_config V))) ev \<and> starts_ok (cv_config V) need ev s \<and> cx_index s \<le> N
     \<and> (d = Connected \<longrightarrow> opened ev = closed ev + (if cx_retsocket s = INVALID_SOCKET then {#} else {#cx_retsocket s#})
          \<and> (cx_retsocket s \<noteq> INVALID_SOCKET \<longrightarrow>
               (\<exists>i < N. cx_result_index s = int i \<and> (\<exists>a t. (i, a, t, cx_retsocket s) \<in> set (starts ev)) \<and> (fst (need i) \<longrightarrow> (\<exists>b. Verified i b True \<in> set ev)))))"

lemma loop_good:
  assumes "conn_inv V need N H s" "small_config (cv_config V) N" "connect_loop V rs s = (d, s', ev)" "\<forall>e. d \<noteq> Stopped e"
  shows "call_good V need N d s' (H @ ev)"
  using assms(1,3,4)
proof (induction rs arbitrary: H s d s' ev)
  case Nil
  then show ?case by (auto simp: call_good_def conn_inv_def)
next
  case (Cons r rs)
  obtain leave t e where r: "connect_round V r s = Inr ((leave, t), e)" using Cons.prems(2,3) by (auto split: sum.splits)
  note rg = round_good [OF Cons.prems(1) _ _ _ r] 
  have c: "N < 2 ^ 32" "unat (cx_interval (cv_config V)) < 2 ^ 31" "unat (cx_error_interval (cv_config V)) < 2 ^ 31"
    using assms(2) by (simp_all add: small_config_def)
  show ?case
  proof (cases leave)
    case True
    then have e: "end_good V need N (H @ e) t" using rg(1) c by simp
    have s': "d = Connected" "cx_retsocket s' = cx_retsocket t" "cx_result_index s' = cx_result_index t" "cx_index s' = cx_index t"
      "cx_laststart s' = cx_laststart t" and ev: "H @ ev = (H @ e) @ close_all V (rn_later r) (cx_fsms t)"
      using Cons.prems(2) True by (auto simp: r)
    have "bounded (unat (cx_max_connect (cv_config V))) (H @ ev)"
      unfolding ev using e close_all_good(1) by (intro bounded_quiet [where H = "H @ e"]) (simp_all add: end_good_def)
    then show ?thesis using e close_all_good [of V "rn_later r" "cx_fsms t"] unfolding ev
      by (auto simp: call_good_def end_good_def starts_ok_def s')
  next
    case False
    then have t: "conn_inv V need N (H @ e) t" using rg(2) c by simp
    obtain ev' where "connect_loop V rs t = (d, s', ev')" "ev = e @ ev'"
      using Cons.prems(2) False by (auto simp: r split: prod.splits)
    then show ?thesis using Cons.IH [OF t] Cons.prems(3) by simp
  qed
qed

definition to_verify :: "complex_env \<Rightarrow> sock_addr list \<Rightarrow> ProxyType \<Rightarrow> sock_addr option \<Rightarrow> nat \<Rightarrow> bool" where
  "to_verify V vecaddr ty proxy i = (case cv_observer V of None \<Rightarrow> False
     | Some ob \<Rightarrow> OnShouldVerify ob i (if ty = kProxyHttpTunel then the proxy else vecaddr ! i))"

text \<open>The address that is connected to.\<close>

definition target :: "sock_addr list \<Rightarrow> ProxyType \<Rightarrow> sock_addr option \<Rightarrow> nat \<Rightarrow> sock_addr" where
  "target vecaddr ty proxy i = (if ty = kProxyHttpTunel \<or> ty = kProxySocks5 then the proxy else vecaddr ! i)"

definition expected :: "complex_env \<Rightarrow> sock_addr list \<Rightarrow> ProxyType \<Rightarrow> sock_addr option \<Rightarrow> nat \<Rightarrow> bool \<times> sock_addr" where
  "expected V vecaddr ty proxy i = (to_verify V vecaddr ty proxy i, target vecaddr ty proxy i)"

lemma new_fsms_good:
  assumes "new_fsms V vecaddr ty proxy user pwd = Inr fs"
  shows "length fs = length vecaddr"
    "i < length fs \<Longrightarrow> \<exists>f. fs ! i = Some f \<and> fs_status f = EStart \<and> fsm_at V (expected V vecaddr ty proxy) [] 0 i f"
    "lives fs = {#}"
proof -
  let ?proxied = "ty = kProxyHttpTunel \<or> ty = kProxySocks5"
  have f: "fs ! i = Some (ConnectCheckFSM (cv_observer V) (cx_timeout (cv_config V)) ty (if ?proxied then user else [])
      (if ?proxied then pwd else []) i (vecaddr ! i) (if ?proxied then the proxy else vecaddr ! i))" if "i < length vecaddr" for i
    using assms that by (cases proxy) (auto simp: new_fsms_def nth_enumerate_eq)
  show l: "length fs = length vecaddr" using assms by (auto simp: new_fsms_def split: if_splits option.splits)
  have s: "\<exists>f. fs ! i = Some f \<and> fs_status f = EStart \<and> fsm_at V (expected V vecaddr ty proxy) [] 0 i f" if i: "i < length fs" for i
    using f [of i] i l
    by (auto simp: fsm_at_def ConnectCheckFSM_def fsm_ok_def vetted_def needs_def who_def expected_def target_def to_verify_def split: option.split if_splits)
  then show "i < length fs \<Longrightarrow> \<exists>f. fs ! i = Some f \<and> fs_status f = EStart \<and> fsm_at V (expected V vecaddr ty proxy) [] 0 i f" .
  have "live x = {#}" if x: "x \<in> set fs" for x
  proof -
    obtain i where "i < length fs" "fs ! i = x" using x by (auto simp: in_set_conv_nth)
    then show ?thesis using s [of i] by (auto simp: live_def fsm_at_def fsm_ok_def)
  qed
  then show "lives fs = {#}" by (induction fs) auto
qed

lemma call_is_good:
  assumes "small_config (cv_config V) (length vecaddr)" "ConnectImpatient V rounds vecaddr ty proxy user pwd = (d, s, ev)" "\<forall>e. d \<noteq> Stopped e"
  shows "call_good V (expected V vecaddr ty proxy) (length vecaddr) d s ev"
proof (cases "vecaddr = []")
  case True
  then show ?thesis using assms(2) by (auto simp: ConnectImpatient_def call_good_def bounded_def starts_ok_def Let_def)
next
  case False
  then obtain fs s0 where fs: "new_fsms V vecaddr ty proxy user pwd = Inr fs" and l: "connect_loop V rounds s0 = (d, s, ev)"
    and s0: "cx_fsms s0 = fs" "cx_index s0 = 0" "cx_retsocket s0 = INVALID_SOCKET"
    using assms(2,3) by (auto simp: ConnectImpatient_def Let_def split: sum.splits)
  have "conn_inv V (expected V vecaddr ty proxy) (length vecaddr) [] s0"
    using new_fsms_good [OF fs] by (fastforce simp: conn_inv_def s0 bounded_def starts_ok_def)
  from loop_good [OF this assms(1) l assms(3)] show ?thesis by simp
qed

section \<open>The proxy's answers\<close>

text \<open>The answers of a SOCKS5 proxy, whole.\<close>

definition socks5_reply :: "TCheckStatus \<Rightarrow> bytes \<Rightarrow> bool" where
  "socks5_reply st b \<longleftrightarrow> (st = EProxySocks5GreetReq \<or> st = EProxySocks5AuthReq) \<and> length b = 2
     \<or> st = EProxySocks5ConnSvrReq \<and> 4 < length b
       \<and> (b ! 3 = kSocksATYPIPv4 \<and> length b = 10 \<or> b ! 3 = kSocksATYPHost \<and> length b = 7 + unat (b ! 4) \<or> b ! 3 = kSocksATYPIPv6 \<and> length b = 22)"

lemma socks5_part:
  assumes "socks5_reply (fs_check f) (p @ q)" "q \<noteq> []"
  shows "socks5_recv ob now (f\<lparr> fs_recv_buf := p \<rparr>) = (f\<lparr> fs_recv_buf := p \<rparr>, [])"
proof -
  obtain a q' where q: "q = a # q'" using assms(2) by (cases q) auto
  have "fs_check f = EProxySocks5ConnSvrReq \<Longrightarrow> socks5_short p"
  proof -
    assume "fs_check f = EProxySocks5ConnSvrReq"
    then have r: "(p @ q) ! 3 = kSocksATYPIPv4 \<and> length (p @ q) = 10 \<or> (p @ q) ! 3 = kSocksATYPHost \<and> length (p @ q) = 7 + unat ((p @ q) ! 4)
        \<or> (p @ q) ! 3 = kSocksATYPIPv6 \<and> length (p @ q) = 22" using assms(1) by (simp add: socks5_reply_def)
    show "socks5_short p"
    proof (cases "length p < 5")
      case True
      have "length p = 4 \<Longrightarrow> (p @ q) ! 3 = p ! 3" by (simp add: nth_append)
      then show ?thesis using True r by (cases "length p < 4") (auto simp: socks5_short_def Let_def)
    next
      case False
      then have "(p @ q) ! 3 = p ! 3" "(p @ q) ! 4 = p ! 4" by (simp_all add: nth_append)
      then show ?thesis using r by (auto simp: socks5_short_def Let_def q)
    qed
  qed
  moreover have "fs_check f = EProxySocks5GreetReq \<or> fs_check f = EProxySocks5AuthReq \<Longrightarrow> length p < 2"
    using assms(1) by (auto simp: socks5_reply_def q)
  moreover have "fs_check f = EProxySocks5GreetReq \<or> fs_check f = EProxySocks5AuthReq \<or> fs_check f = EProxySocks5ConnSvrReq"
    using assms(1) by (auto simp: socks5_reply_def)
  ultimately show ?thesis by (elim disjE) (simp_all add: socks5_recv_def Let_def)
qed

text \<open>What is received piece by piece.\<close>

fun socks5_feed :: "observer option \<Rightarrow> ticks \<Rightarrow> fsm \<Rightarrow> bytes list \<Rightarrow> fsm \<times> conn_event list" where
  "socks5_feed ob now f [] = (f, [])"
| "socks5_feed ob now f (c # cs) =
     (let (f, ev) = socks5_recv ob now (f\<lparr> fs_recv_buf := fs_recv_buf f @ c \<rparr>); (f, ev') = socks5_feed ob now f cs in (f, ev @ ev'))"

lemma socks5_feed_at:
  assumes "socks5_reply (fs_check f) (p @ concat cs)" "fs_recv_buf f = p" "[] \<notin> set cs" "cs \<noteq> []"
  shows "socks5_feed ob now f cs = socks5_recv ob now (f\<lparr> fs_recv_buf := p @ concat cs \<rparr>)"
  using assms
proof (induction cs arbitrary: f p)
  case (Cons c cs)
  show ?case
  proof (cases "cs = []")
    case False
    then have "concat cs \<noteq> []" using Cons.prems(3) by (cases cs) auto
    with Cons.prems(1) have "socks5_recv ob now (f\<lparr> fs_recv_buf := p @ c \<rparr>) = (f\<lparr> fs_recv_buf := p @ c \<rparr>, [])"
      by (intro socks5_part [where q = "concat cs"]) simp_all
    then show ?thesis using Cons.IH [of "f\<lparr> fs_recv_buf := p @ c \<rparr>" "p @ c"] Cons.prems False by simp
  qed (use Cons.prems in \<open>simp add: case_prod_unfold\<close>)
qed simp

text \<open>C39: An answer of a SOCKS5 proxy, to the greeting, the authentication or the request to connect with any kind of
  address, is treated the same in whatever pieces it arrives as when it arrives at once.\<close>

theorem socks5_any_cut:
  assumes "socks5_reply (fs_check f) (concat cs)" "fs_recv_buf f = []" "[] \<notin> set cs"
  shows "socks5_feed ob now f cs = socks5_recv ob now (f\<lparr> fs_recv_buf := concat cs \<rparr>)"
proof -
  have "cs \<noteq> []" using assms(1) by (auto simp: socks5_reply_def)
  then show ?thesis using socks5_feed_at [of f "[]" cs] assms by simp
qed

definition race_fsm :: fsm where
  "race_fsm = (ConnectCheckFSM None 10000 kProxySocks5 [] [] 0 (lit ''10.0.0.1'', 80) (lit ''10.0.0.2'', 1080))
     \<lparr> fs_check := EProxySocks5ConnSvrReq, fs_status := EReadWrite, fs_sock := 7 \<rparr>"

lemma socks5_any_cut_witness:
  "fs_check (fst (socks5_feed None 0 race_fsm [[5, 0], [0, 1, 10, 0, 0, 2, 4], [56]])) = ECheckOK"
proof -
  have "socks5_reply (fs_check race_fsm) (concat [[5, 0], [0, 1, 10, 0, 0, 2, 4], [56]])" "fs_recv_buf race_fsm = []" by code_simp+
  from socks5_any_cut [OF this, of None 0]
  have "socks5_feed None 0 race_fsm [[5, 0], [0, 1, 10, 0, 0, 2, 4], [56]] = socks5_recv None 0 (race_fsm\<lparr> fs_recv_buf := [5, 0, 0, 1, 10, 0, 0, 2, 4, 56] \<rparr>)"
    by simp
  moreover have "fs_check (fst (socks5_recv None 0 (race_fsm\<lparr> fs_recv_buf := [5, 0, 0, 1, 10, 0, 0, 2, 4, 56] \<rparr>))) = ECheckOK" by code_simp
  ultimately show ?thesis by simp
qed

text \<open>A proxy without an address is dereferenced all the same.\<close>

lemma proxy_without_address_crashes:
  assumes "vecaddr \<noteq> []" "ty = kProxyHttpTunel \<or> ty = kProxySocks5"
  shows "fst (ConnectImpatient V rounds vecaddr ty None user pwd) = Stopped (StopCrash BadRead)"
  using assms by (auto simp: ConnectImpatient_def new_fsms_def Let_def)

section \<open>Properties of the call\<close>

text \<open>C9: Whatever the system answers: at no time are more sockets open than \<^verbatim>\<open>max_connect_\<close>, and when the call returns every socket it
  opened has been closed exactly once, except for the one that it returns.\<close>

theorem connect_keeps_sockets:
  assumes "ConnectImpatient V rounds vecaddr ty proxy user pwd = (d, s, ev)" "small_config (cv_config V) (length vecaddr)" "\<forall>e. d \<noteq> Stopped e"
  shows "(\<forall>p q. ev = p @ q \<longrightarrow> size (opened p) \<le> size (closed p) + unat (cx_max_connect (cv_config V)))
    \<and> (d = Connected \<longrightarrow> opened ev = closed ev + (if cx_retsocket s = INVALID_SOCKET then {#} else {#cx_retsocket s#}))"
  using call_is_good [OF assms(2,1,3)] by (simp add: call_good_def bounded_def)

text \<open>C10: The addresses are tried in their order, each at most once, one after the other and at least the shorter of the two
  intervals apart: that is when a connection asks for its socket and connects it, to the address itself or to
  the proxy. A socket that is returned is the one that the address with the reported index has got, and where the
  observer wanted to verify that connection it has accepted what came over it.\<close>

theorem connect_in_order:
  assumes "ConnectImpatient V rounds vecaddr ty proxy user pwd = (d, s, ev)" "small_config (cv_config V) (length vecaddr)" "\<forall>e. d \<noteq> Stopped e"
  shows "(\<exists>n \<le> length vecaddr. map (\<lambda>(i, a, _). (i, a)) (starts ev) = map (\<lambda>i. (i, target vecaddr ty proxy i)) [0..<n])
    \<and> (\<forall>i. Suc i < length (starts ev) \<longrightarrow>
        apart (min (unat (cx_interval (cv_config V))) (unat (cx_error_interval (cv_config V)))) (start_time (starts ev ! i)) (start_time (starts ev ! Suc i)))
    \<and> (d = Connected \<and> cx_retsocket s \<noteq> INVALID_SOCKET \<longrightarrow>
        (\<exists>i < length vecaddr. cx_result_index s = int i \<and> (\<exists>a t. (i, a, t, cx_retsocket s) \<in> set (starts ev))
           \<and> (to_verify V vecaddr ty proxy i \<longrightarrow> (\<exists>b. Verified i b True \<in> set ev))))"
  using call_is_good [OF assms(2,1,3)] by (auto simp: call_good_def starts_ok_def expected_def)

text \<open>Two addresses: the first does not answer, the second is verified.\<close>

definition race_call :: complex_env where
  "race_call = \<lparr> cv_config = ComplexConnect 10000 4000,
     cv_observer = Some \<lparr> OnShouldVerify = (\<lambda>i a. True), OnVerifySend = (\<lambda>i a b. (True, b @ [1])), OnVerifyRecv = (\<lambda>i a b. b = [2]) \<rparr>,
     cv_inet_addr = (\<lambda>_. [127, 0, 0, 1]), cv_starttime = 50000 \<rparr>"

definition race_round :: "ticks \<Rightarrow> bool \<Rightarrow> bytes \<Rightarrow> complex_round" where
  "race_round now writable data = \<lparr> rn_now = now,
     rn_connect = (\<lambda>i. \<lparr> ca_sock = 7 + int i, ca_sock_errno = 0, ca_nobio = 0, ca_nobio_errno = 0, ca_connect = - 1, ca_connect_errno = 0, ca_noblock = True \<rparr>),
     rn_ret = 1, rn_exception = False, rn_break = False,
     rn_after = (\<lambda>i. \<lparr> sa_exception = False, sa_so_error = 0, sa_socket_error = 0, sa_writable = i = 1 \<and> writable, sa_readable = i = 1 \<and> data \<noteq> [],
       sa_send = SendRet 1 0 False, sa_recv = RecvData data, sa_behind = [] \<rparr>),
     rn_later = now + 1 \<rparr>"

definition race_rounds :: "complex_round list" where
  "race_rounds = [race_round 50000 False [], race_round 54000 True [], race_round 54010 True [], race_round 54020 False [2]]"

definition race_result :: "connect_end \<times> complex_state \<times> conn_event list" where
  "race_result = ConnectImpatient race_call race_rounds [(lit ''10.0.0.1'', 80), (lit ''10.0.0.2'', 80)] kProxyNone None [] []"

lemma race_connected: "fst race_result = Connected \<and> cx_retsocket (fst (snd race_result)) = 8"
  by code_simp

lemma race_small: "small_config (cv_config race_call) (length [(lit ''10.0.0.1'', 80 :: ushort), (lit ''10.0.0.2'', 80)])"
  by (simp add: small_config_def race_call_def ComplexConnect_def)

lemma race_run: "\<exists>d s ev. ConnectImpatient race_call race_rounds [(lit ''10.0.0.1'', 80), (lit ''10.0.0.2'', 80)] kProxyNone None [] [] = (d, s, ev)
    \<and> d = Connected \<and> cx_retsocket s = 8 \<and> race_result = (d, s, ev)"
  using race_connected by (metis prod.collapse race_result_def)

lemma connect_keeps_sockets_witness:
  "case race_result of (d, s, ev) \<Rightarrow> d = Connected \<and> opened ev = add_mset 8 (closed ev)"
proof -
  obtain d s ev where r: "ConnectImpatient race_call race_rounds [(lit ''10.0.0.1'', 80), (lit ''10.0.0.2'', 80)] kProxyNone None [] [] = (d, s, ev)"
    "d = Connected" "cx_retsocket s = 8" "race_result = (d, s, ev)" using race_run by blast
  from connect_keeps_sockets [OF r(1) race_small] r(2,3) show ?thesis unfolding r(4) by (simp add: INVALID_SOCKET_def)
qed

lemma connect_in_order_witness:
  "case race_result of (d, s, ev) \<Rightarrow> d = Connected \<and> (\<exists>i < 2. cx_result_index s = int i \<and> (\<exists>a t. (i, a, t, 8) \<in> set (starts ev)) \<and> (\<exists>b. Verified i b True \<in> set ev))"
proof -
  obtain d s ev where r: "ConnectImpatient race_call race_rounds [(lit ''10.0.0.1'', 80), (lit ''10.0.0.2'', 80)] kProxyNone None [] [] = (d, s, ev)"
    "d = Connected" "cx_retsocket s = 8" "race_result = (d, s, ev)" using race_run by blast
  from connect_in_order [OF r(1) race_small] r(2,3) show ?thesis unfolding r(4)
    by (auto simp: INVALID_SOCKET_def to_verify_def race_call_def numeral_2_eq_2)
qed

end
