(* ===== verification/Shortlink_Laws.thy ===== *)
theory Shortlink_Laws imports Shortlink Complex_Laws begin

text \<open>
  What the worker of a short connection does: it never hangs, it answers once unless it is broken off, it
  hands over the body of every answer that comes whole, and its request can be read back.
\<close>


section \<open>The worker's events\<close>

fun is_response :: "sl_event \<Rightarrow> bool" where
  "is_response (SlResponse a b c d e) = True"
| "is_response _ = False"

definition responses :: "sl_event list \<Rightarrow> nat" where
  "responses ev = length (filter is_response ev)"

lemma responses_simps [simp]:
  "responses [] = 0" "responses (x # ev) = (if is_response x then 1 else 0) + responses ev" "responses (a @ b) = responses a + responses b"
  by (simp_all add: responses_def)

lemma responses_reports [simp]: "responses (failed_reports p cev) = 0" "responses (timeout_reports p cev i) = 0"
proof -
  have none: "responses (concat (map f xs)) = 0" if "\<And>x. x \<in> set xs \<Longrightarrow> responses (f x) = 0" for f :: "'a \<Rightarrow> sl_event list" and xs
    using that by (induction xs) auto
  show "responses (failed_reports p cev) = 0" unfolding failed_reports_def by (rule none) (auto split: conn_event.split)
  show "responses (timeout_reports p cev i) = 0" unfolding timeout_reports_def by (rule none) (auto simp: Let_def)
qed

lemma responses_OnResponse [simp]:
  "responses (snd (Short_worker_OnResponse et st body report p)) = 1" "responses (snd (RunResponseError et code report p)) = 1"
  by (simp_all add: RunResponseError_def Short_worker_OnResponse_def Let_def)

lemma responses_finish [simp]: "finish r = (fst r, snd r, Finished)"
  by (simp add: finish_def)

lemma parsed_waiting: "parse_outcome ps p = None \<longleftrightarrow> waiting ps"
  by (auto simp: parse_outcome_def waiting_def Let_def split: TRecvStatus.splits)

lemma responses_parsed: "parse_outcome ps p = Some r \<Longrightarrow> responses (snd r) = 1"
  by (auto simp: parse_outcome_def Let_def split: TRecvStatus.splits if_splits)

text \<open>How a run can end: with one answer, broken off without one, or not at all.\<close>

definition answered :: "bool \<Rightarrow> sl_event list \<times> run_end \<Rightarrow> bool" where
  "answered broken r \<longleftrightarrow> snd r \<noteq> Hung \<and> responses (fst r) \<le> 1 \<and> (snd r \<noteq> Finished \<longrightarrow> responses (fst r) = 0)
     \<and> (snd r = Finished \<and> \<not> broken \<longrightarrow> responses (fst r) = 1)"

lemma read_loop_answered: "waiting ps \<Longrightarrow> answered (\<exists>c \<in> set cs. rc_break c) (snd (read_loop cs len ps p))"
proof (induction cs arbitrary: len ps p)
  case Nil
  show ?case by (simp add: answered_def)
next
  case (Cons c cs)
  show ?case
  proof (cases "block_socket_recv (rc_rounds c) KBufferSize False []")
    case None
    then show ?thesis by (simp add: answered_def)
  next
    case (Some x)
    obtain ret err s where x: "x = ((ret, err), s)" by (metis surj_pair)
    show ?thesis
    proof (cases "ret \<le> 0 \<or> rc_break c")
      case True
      then show ?thesis using Some x Cons.IH [OF Cons.prems, of len p] by (auto simp: answered_def)
    next
      case False
      have "Recv (rc_behind c) s ps \<noteq> None" using Recv_ends waiting_not Cons.prems by blast
      then obtain r where r: "Recv (rc_behind c) s ps = Some r" by blast
      show ?thesis
      proof (cases r)
        case (Inl f)
        then show ?thesis using Some x r False by (simp add: answered_def Let_def)
      next
        case (Inr ps')
        show ?thesis
        proof (cases "parse_outcome ps' p")
          case None
          then have "waiting ps'" by (simp add: parsed_waiting)
          from Cons.IH [OF this, of "len + length s" p] show ?thesis
            using Some x r False Inr None by (auto simp: answered_def Let_def split: prod.split)
        next
          case (Some y)
          then show ?thesis using \<open>block_socket_recv (rc_rounds c) KBufferSize False [] = Some x\<close> x r False Inr responses_parsed [OF Some]
            by (cases y) (simp add: answered_def Let_def)
        qed
      qed
    qed
  qed
qed

lemma RunReadWrite_answered:
  "answered (rw_break R \<or> (\<exists>c \<in> set (rw_recv R). rc_break c)) (snd (RunReadWrite R t body p))"
proof -
  have "waiting Parser" by (simp add: waiting_def Parser_def)
  from read_loop_answered [OF this, of "rw_recv R" 0 p] show ?thesis
    by (auto simp: RunReadWrite_def answered_def split: option.split prod.split)
qed

section \<open>Connecting\<close>

text \<open>A fault or a hang while connecting comes from the parser, and only with a tunnel.\<close>

lemma tunnel_stops:
  assumes "tunnel_recv ob now behind f = Inl e"
  shows "\<exists>x. e = StopCrash x"
proof -
  have "\<not> Error Parser" by (simp add: Error_def Parser_def)
  then have "Recv behind (fs_recv_buf f) Parser \<noteq> None" by (rule Recv_ends)
  then show ?thesis using assms by (auto simp: tunnel_recv_def Let_def split: option.splits sum.splits if_splits)
qed

lemma AfterSelect_stops:
  assumes "AfterSelect ob ia a now f = Inl e"
  shows "fs_kind f = kProxyHttpTunel \<and> (\<exists>x. e = StopCrash x)"
proof -
  have "AfterReadWriteSelect ob ia a now f = Inl e" using assms by (auto simp: AfterSelect_def Let_def split: if_splits sum.splits prod.splits)
  then obtain g where g: "read_part ob a now g = Inl e" "fs_kind g = fs_kind f"
    using sound_write_part [of ob ia a f]
    by (auto simp: AfterReadWriteSelect_def sound_def Let_def split: if_splits sum.splits prod.splits)
  then obtain h where h: "on_recv ob now (sa_behind a) h = Inl e" "fs_kind h = fs_kind f"
    by (auto simp: read_part_def split: recv_result.splits if_splits)
  then have "tunnel_recv ob now (sa_behind a) h = Inl e" "fs_kind h = kProxyHttpTunel"
    by (auto simp: on_recv_def Let_def split: if_splits option.splits)
  then show ?thesis using tunnel_stops h(2) by simp
qed

lemma after_all_stops:
  "after_all V r fs = Inl e \<Longrightarrow> (\<exists>f. Some f \<in> set fs \<and> fs_kind f = kProxyHttpTunel) \<and> (\<exists>x. e = StopCrash x)"
proof (induction fs)
  case (Cons z fs)
  show ?case
  proof (cases z)
    case None
    then show ?thesis using Cons by (auto split: sum.splits)
  next
    case (Some f)
    show ?thesis
    proof (cases "after_one V r f")
      case (Inl e')
      then have "AfterSelect (cv_observer V) (cv_inet_addr V) (rn_after r (fs_index f)) (rn_later r) f = Inl e"
        using Cons.prems Some by (auto simp: after_one_def split: sum.splits if_splits)
      then show ?thesis using AfterSelect_stops Some by auto
    next
      case (Inr y)
      have "after_all V r fs = Inl e" using Cons.prems by (auto simp: Some Inr split: sum.splits prod.splits verdict.splits)
      then show ?thesis using Cons.IH by auto
    qed
  qed
qed simp

definition no_tunnel :: "fsm option list \<Rightarrow> bool" where
  "no_tunnel fs \<longleftrightarrow> (\<forall>f. Some f \<in> set fs \<longrightarrow> fs_kind f \<noteq> kProxyHttpTunel)"

lemma no_tunnel_pre: "no_tunnel fs \<Longrightarrow> no_tunnel (fst (pre_all V r n fs))"
  by (auto simp: no_tunnel_def pre_all_def pre_one_def PreSelect_rest case_prod_unfold Let_def dest: in_set_takeD in_set_dropD split: option.splits)

lemma after_one_kind:
  assumes "after_one V r f = Inr (GoesOn g, ev)"
  shows "fs_kind g = fs_kind f"
proof -
  obtain ev' where "AfterSelect (cv_observer V) (cv_inet_addr V) (rn_after r (fs_index f)) (rn_later r) f = Inr (g, ev')"
    using assms by (auto simp: after_one_def split: sum.splits if_splits)
  from sound_AfterSelect [OF this] show ?thesis by (simp add: sound_def)
qed

lemma no_tunnel_after:
  "after_all V r fs = Inr ((gs, err, t), ev) \<Longrightarrow> no_tunnel fs \<Longrightarrow> no_tunnel gs"
proof (induction fs arbitrary: gs err t ev)
  case (Cons z fs)
  have fs: "no_tunnel fs" using Cons.prems(2) by (auto simp: no_tunnel_def)
  show ?case
  proof (cases z)
    case None
    then show ?thesis using Cons.prems(1) Cons.IH [OF _ fs] by (auto simp: no_tunnel_def split: sum.splits)
  next
    case (Some f)
    obtain v e where v: "after_one V r f = Inr (v, e)" using Cons.prems(1) by (auto simp: Some split: sum.splits)
    show ?thesis
    proof (cases v)
      case (Taken g)
      then show ?thesis using Cons.prems(1) fs v by (auto simp: Some no_tunnel_def)
    next
      case (GoesOn g)
      have "fs_kind g \<noteq> kProxyHttpTunel" using after_one_kind v Cons.prems(2) by (fastforce simp: GoesOn Some no_tunnel_def)
      then show ?thesis using Cons.prems(1) Cons.IH [OF _ fs] v by (auto simp: Some GoesOn no_tunnel_def split: sum.splits)
    next
      case GivenUp
      then show ?thesis using Cons.prems(1) Cons.IH [OF _ fs] v by (auto simp: Some no_tunnel_def split: sum.splits)
    qed
  qed
qed (simp add: no_tunnel_def)

lemma round_stops:
  assumes "connect_round V r s = Inl e"
  shows "\<not> no_tunnel (cx_fsms s) \<and> (\<exists>x. e = StopCrash x)"
proof -
  obtain s1 t where s1: "start_next (cv_config V) (rn_now r) s = (s1, t)" by force
  obtain fs e2 where pre: "pre_all V r (cx_index s1) (cx_fsms s1) = (fs, e2)" by force
  have f: "cx_fsms s1 = cx_fsms s" using s1 by (auto simp: start_next_def Let_def split: if_splits)
  have a: "after_all V r (take (cx_index s1) fs) = Inl e"
    using assms by (auto simp: connect_round_def s1 pre Let_def split: if_splits sum.splits)
  then obtain g where "Some g \<in> set fs" "fs_kind g = kProxyHttpTunel" using after_all_stops by (meson in_set_takeD)
  then have "\<not> no_tunnel fs" by (auto simp: no_tunnel_def)
  then show ?thesis using no_tunnel_pre [of "cx_fsms s" V r "cx_index s1"] pre f after_all_stops [OF a] by auto
qed

lemma round_no_tunnel:
  assumes "connect_round V r s = Inr ((leave, s'), ev)" "no_tunnel (cx_fsms s)"
  shows "no_tunnel (cx_fsms s')"
proof -
  obtain s1 t where s1: "start_next (cv_config V) (rn_now r) s = (s1, t)" by force
  obtain fs e2 where pre: "pre_all V r (cx_index s1) (cx_fsms s1) = (fs, e2)" by force
  have f: "cx_fsms s1 = cx_fsms s" using s1 by (auto simp: start_next_def Let_def split: if_splits)
  have n: "no_tunnel fs" using no_tunnel_pre [of "cx_fsms s" V r "cx_index s1"] pre f assms(2) by simp
  then have d: "no_tunnel (take k fs)" "no_tunnel (drop k fs)" for k by (auto simp: no_tunnel_def dest: in_set_takeD in_set_dropD)
  have "cx_fsms s' = fs \<or> (\<exists>gs err t ev. after_all V r (take (cx_index s1) fs) = Inr ((gs, err, t), ev) \<and> cx_fsms s' = gs @ drop (cx_index s1) fs)"
    using assms(1) by (auto simp: connect_round_def s1 pre Let_def split: if_splits sum.splits option.splits)
  then show ?thesis
  proof
    assume "\<exists>gs err t ev. after_all V r (take (cx_index s1) fs) = Inr ((gs, err, t), ev) \<and> cx_fsms s' = gs @ drop (cx_index s1) fs"
    then obtain gs err t ev where a: "after_all V r (take (cx_index s1) fs) = Inr ((gs, err, t), ev)" "cx_fsms s' = gs @ drop (cx_index s1) fs" by blast
    show ?thesis using no_tunnel_after [OF a(1) d(1)] d(2) [of "cx_index s1"] by (auto simp: a(2) no_tunnel_def)
  qed (use n in simp)
qed

lemma loop_stops: "fst (connect_loop V rs s) = Stopped e \<Longrightarrow> \<not> no_tunnel (cx_fsms s) \<and> (\<exists>x. e = StopCrash x)"
proof (induction rs arbitrary: s)
  case (Cons r rs)
  show ?case
  proof (cases "connect_round V r s")
    case (Inl e')
    then show ?thesis using Cons.prems round_stops [OF Inl] by simp
  next
    case (Inr x)
    obtain leave t ev where x: "x = ((leave, t), ev)" by (metis surj_pair)
    have "fst (connect_loop V rs t) = Stopped e" using Cons.prems by (auto simp: Inr x case_prod_unfold Let_def split: if_splits)
    from Cons.IH [OF this] show ?thesis using round_no_tunnel [of V r s leave t ev] Inr x by auto
  qed
qed simp

lemma connect_stops:
  assumes "fst (ConnectImpatient V rounds addrs ty proxy user pwd) = Stopped e"
  shows "(ty = kProxyHttpTunel \<or> ty = kProxySocks5 \<and> proxy = None) \<and> (\<exists>x. e = StopCrash x)"
proof (cases "new_fsms V addrs ty proxy user pwd")
  case (Inl f)
  then show ?thesis using assms by (auto simp: ConnectImpatient_def new_fsms_def Let_def split: if_splits option.splits)
next
  case (Inr fs)
  have "ty \<noteq> kProxyHttpTunel \<Longrightarrow> no_tunnel fs"
    using Inr by (auto simp: new_fsms_def no_tunnel_def ConnectCheckFSM_def split: if_splits option.splits)
  moreover have "\<not> no_tunnel fs \<and> (\<exists>x. e = StopCrash x)"
    using assms Inr by (auto simp: ConnectImpatient_def Let_def dest!: loop_stops split: if_splits)
  ultimately show ?thesis by blast
qed

lemma RunConnect_events:
  assumes "RunConnect E t proxied = Inr (sock, p, ev)"
  shows "responses ev \<le> 1 \<and> (sock \<noteq> INVALID_SOCKET \<longrightarrow> responses ev = 0) \<and> (sock = INVALID_SOCKET \<and> \<not> ce_break E \<longrightarrow> responses ev = 1)"
proof -
  have z: "(0 :: int) \<noteq> INVALID_SOCKET" by (simp add: INVALID_SOCKET_def)
  obtain use_proxy q where q: "find_addresses E t proxied = ok (use_proxy, q)"
    using assms by (auto simp: RunConnect_def split: sum.splits)
  show ?thesis
  proof (cases "proxy_ip E use_proxy q")
    case None
    then show ?thesis using assms q z by (auto simp: RunConnect_def)
  next
    case (Some ip)
    then show ?thesis using assms q
      by (auto simp: RunConnect_def Let_def split: if_splits prod.splits
          dest!: arg_cong [where f = "\<lambda>r. responses (snd r)"])
  qed
qed

lemma stuck_call:
  assumes "connect_call E use_proxy ip x addrs = (d, c, cev)" "d \<noteq> Connected"
  shows "stuck_at d = Running \<or> (\<exists>f. stuck_at d = Crashed f)"
proof (cases d)
  case (Stopped e)
  have "\<exists>y. e = StopCrash y"
    using assms(1) connect_stops [where e = e] by (metis Stopped connect_call_def fst_conv)
  then show ?thesis by (auto simp: Stopped stuck_at_def)
qed (use assms(2) in \<open>simp_all add: stuck_at_def\<close>)

lemma RunConnect_stuck:
  assumes "RunConnect E t proxied = Inl e"
  shows "e = Running \<or> (\<exists>f. e = Crashed f)"
proof (cases "find_addresses E t proxied")
  case (Inl f)
  then show ?thesis using assms by (auto simp: RunConnect_def)
next
  case (Inr y)
  obtain use_proxy p where y: "y = (use_proxy, p)" by force
  show ?thesis
  proof (cases "proxy_ip E use_proxy p")
    case None
    then show ?thesis using assms by (simp add: RunConnect_def Inr y)
  next
    case (Some ip)
    have "e = Crashed BadRead \<or> (\<exists>d c cev. connect_call E use_proxy ip (cp_proxy_info p) (vecaddr use_proxy ip p) = (d, c, cev)
        \<and> d \<noteq> Connected \<and> e = stuck_at d)"
      using assms by (auto simp: RunConnect_def Inr y Some Let_def use_item_def split: if_splits prod.splits)
    then show ?thesis using stuck_call by blast
  qed
qed

text \<open>Something breaks the worker off.\<close>

definition broken :: "connect_env \<Rightarrow> rw_env \<Rightarrow> bool" where
  "broken E R \<longleftrightarrow> ce_break E \<or> rw_break R \<or> (\<exists>c \<in> set (rw_recv R). rc_break c)"

lemma Run_answered: "answered (broken E R) (snd (ShortLink_Run E R t proxied body))"
proof (cases "RunConnect E t proxied")
  case (Inl f)
  then show ?thesis using RunConnect_stuck [OF Inl] by (auto simp: ShortLink_Run_def answered_def)
next
  case (Inr x)
  obtain sock p ev where x: "x = (sock, p, ev)" by (cases x)
  note c = RunConnect_events [of E t proxied sock p ev]
  show ?thesis
    using c RunReadWrite_answered [of R t body p] Inr x
    by (auto simp: ShortLink_Run_def answered_def broken_def Let_def split: prod.split)
qed

section \<open>Receiving an answer\<close>

text \<open>A call that takes some bytes or runs into the timeout.\<close>

definition call_data :: "recv_call \<Rightarrow> bytes" where
  "call_data c = (case block_socket_recv (rc_rounds c) KBufferSize False [] of None \<Rightarrow> [] | Some (_, s) \<Rightarrow> s)"

definition quiet_call :: "recv_call \<Rightarrow> bool" where
  "quiet_call c \<longleftrightarrow> \<not> rc_break c \<and>
     (case block_socket_recv (rc_rounds c) KBufferSize False [] of
        None \<Rightarrow> False
      | Some ((ret, err), s) \<Rightarrow> ret = int (length s) \<and> (s \<noteq> [] \<or> err = ETIMEDOUT))"

definition message_outcome :: "parser \<Rightarrow> bytes \<Rightarrow> ConnectProfile \<Rightarrow> ConnectProfile \<times> sl_event list" where
  "message_outcome q b p =
     (let code = sl_code (hp_statusline q) in
      if code = 200 then Short_worker_OnResponse kEctOK 200 b True p else RunResponseError kEctHttp code True p)"

lemma parsed_finished: "parse_outcome (finished h q b r) p = Some (message_outcome q b p)"
  by (simp add: parse_outcome_def message_outcome_def Let_def)

definition all_recvs :: "sl_event list \<Rightarrow> bool" where
  "all_recvs ev \<longleftrightarrow> (\<forall>e \<in> set ev. \<exists>n. e = SlRecv n n)"

context whole_messages begin

lemma read_loop_message:
  assumes "good m" "result m = (h, q, b)"
  shows "inv m d ps \<Longrightarrow> d @ concat (map call_data cs) @ z = stream m \<Longrightarrow> length d < size m \<Longrightarrow>
    size m \<le> length d + length (concat (map call_data cs)) \<Longrightarrow> \<forall>c \<in> set cs. quiet_call c \<and> room (rc_behind c) \<Longrightarrow>
    \<exists>ev. all_recvs ev \<and> read_loop cs len ps p = (fst (message_outcome q b p), ev @ snd (message_outcome q b p), Finished)"
proof (induction cs arbitrary: d ps len)
  case (Cons c cs)
  have c: "quiet_call c" "room (rc_behind c)" using Cons.prems(5) by auto
  then obtain err s where r: "block_socket_recv (rc_rounds c) KBufferSize False [] = Some ((int (length s), err), s)" "s \<noteq> [] \<or> err = ETIMEDOUT"
    by (auto simp: quiet_call_def split: option.splits prod.splits)
  have cd: "call_data c = s" using r(1) by (simp add: call_data_def)
  have nb: "\<not> rc_break c" using c(1) by (simp add: quiet_call_def)
  show ?case
  proof (cases "s = []")
    case True
    then show ?thesis using Cons.IH [of d ps len] Cons.prems r nb cd by simp
  next
    case False
    have "d @ s @ (concat (map call_data cs) @ z) = stream m" using Cons.prems(2) cd by simp
    from step [OF assms(1) Cons.prems(1) this False c(2)]
    obtain ps' where ps': "Recv (rc_behind c) s ps = Some (ok ps')" "inv m (d @ s) ps'" by blast
    show ?thesis
    proof (cases "length (d @ s) < size m")
      case True
      from before [OF assms(1) ps'(2) True] have n: "parse_outcome ps' p = None" by (simp add: parsed_waiting)
      obtain ev where ev: "all_recvs ev"
          "read_loop cs (len + length s) ps' p = (fst (message_outcome q b p), ev @ snd (message_outcome q b p), Finished)"
        using Cons.IH [OF ps'(2) _ True, of "len + length s"] Cons.prems cd by auto
      have "read_loop (c # cs) len ps p = (fst (message_outcome q b p), (SlRecv (len + length s) (len + length s) # ev) @ snd (message_outcome q b p), Finished)"
        using r(1) nb False ps'(1) n ev(2) by (simp add: Let_def)
      moreover have "all_recvs (SlRecv (len + length s) (len + length s) # ev)" using ev(1) by (simp add: all_recvs_def)
      ultimately show ?thesis by blast
    next
      case ge: False
      with behind [OF assms(1) ps'(2) _ assms(2)] obtain r' where "ps' = finished h q b r'" by auto
      then have "read_loop (c # cs) len ps p = (fst (message_outcome q b p), [SlRecv (len + length s) (len + length s)] @ snd (message_outcome q b p), Finished)"
        using r(1) nb False ps'(1) by (simp add: Let_def parsed_finished split: prod.split)
      then show ?thesis by (auto simp: all_recvs_def)
    qed
  qed
qed simp

lemma whole_answer:
  assumes "good m" "result m = (h, q, b)" "concat (map call_data cs) @ z = stream m" "0 < size m"
    and "size m \<le> length (concat (map call_data cs))" "\<forall>c \<in> set cs. quiet_call c \<and> room (rc_behind c)"
  shows "\<exists>ev. all_recvs ev \<and> read_loop cs 0 Parser p = (fst (message_outcome q b p), ev @ snd (message_outcome q b p), Finished)"
  using read_loop_message [OF assms(1,2) start [OF assms(1)], of cs z 0 p] assms(3-6) by simp

end

section \<open>The request\<close>

definition put_field :: "fields \<Rightarrow> bytes \<times> bytes \<Rightarrow> fields" where
  "put_field h x = HeaderFiled (fst x) (snd x) h"

lemma field_text_c_str: "field_text (k, v) \<Longrightarrow> c_str k = k \<and> c_str v = v"
  by (simp add: field_text_def c_str_id)

lemma fields_ok_put: "fields_ok h \<Longrightarrow> field_text x \<Longrightarrow> fields_ok (put_field h x)"
  using fields_ok_insert [of h "fst x" "snd x"] field_text_c_str [of "fst x" "snd x"] by (simp add: put_field_def HeaderFiled_def)

lemma fields_ok_puts: "fields_ok h \<Longrightarrow> \<forall>x \<in> set xs. field_text x \<Longrightarrow> fields_ok (foldl put_field h xs)"
  by (induction xs arbitrary: h) (auto simp: fields_ok_put)

text \<open>The first field with a name stays.\<close>

lemma HeaderField_puts:
  "fields_sorted h \<Longrightarrow> \<forall>x \<in> set xs. field_text x \<Longrightarrow>
   HeaderField key (foldl put_field h xs) = (case HeaderField key h of None \<Rightarrow> HeaderField key xs | Some v \<Rightarrow> Some v)"
proof (induction xs arbitrary: h)
  case (Cons x xs)
  obtain k v where x: "x = (k, v)" by (cases x)
  have c: "c_str k = k" "c_str v = v" using Cons.prems(2) x field_text_c_str [of k v] by auto
  have "fields_sorted (put_field h x)" using Cons.prems(1) by (simp add: put_field_def HeaderFiled_def fields_sorted_insert)
  from Cons.IH [OF this] Cons.prems show ?case
    by (auto simp: x put_field_def HeaderFiled_def c HeaderField_insert HeaderField_Cons split: option.split)
qed (simp split: option.split)

definition fields_size :: "(bytes \<times> bytes) list \<Rightarrow> nat" where
  "fields_size xs = (\<Sum>(k, v) \<leftarrow> xs. length k + length v + 4)"

lemma fields_size_simps [simp]:
  "fields_size [] = 0" "fields_size ((k, v) # xs) = length k + length v + 4 + fields_size xs"
  "fields_size (xs @ ys) = fields_size xs + fields_size ys"
  by (simp_all add: fields_size_def)

lemma length_Fields_ToString: "length (Fields_ToString h) = fields_size h"
  by (induction h) (auto simp: KStringColon_def KStringSpace_def CRLF_def)

lemma fields_size_insert: "fields_size (insert_field k v h) \<le> length k + length v + 4 + fields_size h"
  by (induction k v h rule: insert_field.induct) auto

lemma fields_size_puts: "fields_size (foldl put_field h xs) \<le> fields_size h + fields_size xs"
proof (induction xs arbitrary: h)
  case (Cons x xs)
  obtain k v where x: "x = (k, v)" by (cases x)
  have "fields_size (put_field h x) \<le> length k + length v + 4 + fields_size h"
    using fields_size_insert [of "c_str k" "c_str v" h] c_str_le [of k] c_str_le [of v] by (simp add: x put_field_def HeaderFiled_def)
  with Cons.IH [of "put_field h x"] show ?case by (simp add: x)
qed simp

definition pack_list :: "nat \<Rightarrow> (bytes \<times> bytes) list" where
  "pack_list len = [MakeAcceptAll, (KStringUserAgent, KStringMicroMessenger), MakeCacheControlNoCache, MakeContentTypeOctetStream,
     MakeConnectionClose, (KStringContentLength, dec_nat len)]"

lemma shortlink_fields_put: "shortlink_fields headers len = foldl put_field [] (pack_list len @ headers)"
proof -
  have "(\<lambda>h (k, v). HeaderFiled k v h) = put_field" by (auto simp: put_field_def fun_eq_iff)
  then show ?thesis by (simp add: shortlink_fields_def pack_list_def)
qed

lemma dec_field: "field_text (KStringContentLength, dec_nat n)"
proof -
  have "Trim (dec_nat n) = dec_nat n" using Trim_digits [of "dec_nat n" 10] dec_nat_read [of n] by simp
  moreover have "field_text (KStringContentLength, [])" by code_simp
  ultimately show ?thesis using dec_token [of n] by (auto simp: field_text_def token_def)
qed

lemma constant_fields: "list_all field_text [MakeAcceptAll, (KStringUserAgent, KStringMicroMessenger), MakeCacheControlNoCache,
  MakeContentTypeOctetStream, MakeConnectionClose]"
  by code_simp

lemma pack_list_text: "\<forall>x \<in> set (pack_list len). field_text x"
  using constant_fields dec_field [of len] by (simp add: pack_list_def)

lemma pack_list_lookup:
  "HeaderField KStringContentLength (pack_list len) = Some (dec_nat len)" "HeaderField KStringTransferEncoding (pack_list len) = None"
proof -
  have n: "\<not> same_nocase k KStringContentLength \<and> \<not> same_nocase k KStringTransferEncoding"
    if "k \<in> {KStringAccept, KStringUserAgent, KStringCacheControl, KStringContentType, KStringConnection}" for k
  proof -
    have "list_all (\<lambda>k. \<not> same_nocase k KStringContentLength \<and> \<not> same_nocase k KStringTransferEncoding)
        [KStringAccept, KStringUserAgent, KStringCacheControl, KStringContentType, KStringConnection]" by code_simp
    then show ?thesis using that by auto
  qed
  have c: "same_nocase KStringContentLength KStringContentLength" "\<not> same_nocase KStringContentLength KStringTransferEncoding" by code_simp+
  have "c_str (dec_nat len) = dec_nat len" using dec_field [of len] by (simp add: field_text_c_str)
  then show "HeaderField KStringContentLength (pack_list len) = Some (dec_nat len)" "HeaderField KStringTransferEncoding (pack_list len) = None"
    using n c by (simp_all add: pack_list_def HeaderField_Cons MakeAcceptAll_def MakeCacheControlNoCache_def MakeContentTypeOctetStream_def
      MakeConnectionClose_def)
qed

lemma HeaderField_append: "HeaderField key (xs @ ys) = (case HeaderField key xs of None \<Rightarrow> HeaderField key ys | Some v \<Rightarrow> Some v)"
  by (induction xs) (auto simp: HeaderField_Cons)

lemma shortlink_fields_facts:
  assumes "\<forall>x \<in> set headers. field_text x" "HeaderField KStringTransferEncoding headers = None" "int len < 2 ^ 31"
  shows "fields_ok (shortlink_fields headers len)" "shortlink_fields headers len \<noteq> []"
    "\<not> IsTransferEncodingChunked (shortlink_fields headers len)" "ContentLength (shortlink_fields headers len) = int len"
    "length (Fields_ToString (shortlink_fields headers len)) \<le> 300 + fields_size headers"
proof -
  have t: "\<forall>x \<in> set (pack_list len @ headers). field_text x" using pack_list_text assms(1) by auto
  note lookup = HeaderField_puts [OF _ t, of "[]"]
  show "fields_ok (shortlink_fields headers len)" unfolding shortlink_fields_put using t by (intro fields_ok_puts) auto
  have cl: "HeaderField KStringContentLength (shortlink_fields headers len) = Some (dec_nat len)"
    unfolding shortlink_fields_put by (subst lookup) (simp_all add: HeaderField_append pack_list_lookup)
  then show "shortlink_fields headers len \<noteq> []" by auto
  show "ContentLength (shortlink_fields headers len) = int len" using assms(3) by (simp add: ContentLength_def cl strtol_dec_nat)
  have "HeaderField KStringTransferEncoding (shortlink_fields headers len) = None"
    unfolding shortlink_fields_put by (subst lookup) (simp_all add: HeaderField_append pack_list_lookup assms(2))
  then show "\<not> IsTransferEncodingChunked (shortlink_fields headers len)" by (simp add: IsTransferEncodingChunked_def)
  have "length (dec_nat len) \<le> 10" using length_dec_nat [of 10 len] assms(3) by simp
  then have "fields_size (pack_list len) \<le> 300"
    by (simp add: pack_list_def MakeAcceptAll_def MakeCacheControlNoCache_def MakeContentTypeOctetStream_def MakeConnectionClose_def
      KStringAccept_def KStringUserAgent_def KStringMicroMessenger_def KStringCacheControl_def KStringContentType_def KStringConnection_def
      KStringContentLength_def lit_def)
  then show "length (Fields_ToString (shortlink_fields headers len)) \<le> 300 + fields_size headers"
    using fields_size_puts [of "[]" "pack_list len @ headers"] by (simp add: shortlink_fields_put length_Fields_ToString)
qed

definition post_line :: "bytes \<Rightarrow> request_line" where
  "post_line url = \<lparr> rq_method = kPost, rq_url = url, rq_version = kVersion_1_1 \<rparr>"

lemma shortlink_pack_text:
  assumes "shortlink_fields headers (length body) \<noteq> []"
  shows "shortlink_pack url headers body = head_text (request_text (post_line url)) (field_lines (shortlink_fields headers (length body))) @ body"
proof -
  let ?h = "shortlink_fields headers (length body)"
  have "Fields_ToString ?h \<noteq> []" using assms by (cases ?h) (auto simp: Fields_ToString_def CRLF_def)
  then show ?thesis
    by (simp add: shortlink_pack_def HeaderToBuffer_def Builder_def ToString_text head_text_def post_line_def field_lines_text [symmetric] Let_def)
      (simp add: CRLF_def)
qed

lemma packed_request_ok:
  assumes "token url" "length url < 8000" "\<forall>x \<in> set headers. field_text x" "fields_size headers < 130000"
    and "HeaderField KStringTransferEncoding headers = None" "int (length body) < 2 ^ 31"
  shows "sized_ok (request_text (post_line url), field_lines (shortlink_fields headers (length body)),
    Parser\<lparr> hp_requestline := post_line url, hp_csmode := kRequest \<rparr>, body, r)"
proof -
  let ?r = "post_line url"
  note f = shortlink_fields_facts [OF assms(3,5,6)]
  have q: "first_line (request_text ?r) = Some (Parser\<lparr> hp_requestline := ?r, hp_csmode := kRequest \<rparr>)"
    using assms(1) by (intro first_line_request) (simp_all add: post_line_def)
  have t: "0 \<notin> set (request_text ?r)" "13 \<notin> set (request_text ?r)" "length (request_text ?r) < 8192"
    using assms(1,2) by (simp_all add: request_text_def post_line_def token_def KStringSpace_def lit_def)
  have x: "\<forall>x \<in> set (shortlink_fields headers (length body)). field_text x" using f(1) by (simp add: fields_ok_def)
  show ?thesis using q t f(2-5) assms(4) field_lines_ok [OF x] sent_field_lines [OF x]
    by (simp add: head_ok_def field_lines_text [symmetric]) (simp add: field_lines_def)
qed

definition source_env :: "dns_env \<Rightarrow> net_source \<Rightarrow> connect_env \<Rightarrow> connect_env" where
  "source_env N s E = E\<lparr> ce_debugip := sg_shortlink_debugip s, ce_shortlink_port := sg_shortlink_port s,
     ce_items := (\<lambda>hosts. and_then (GetShortLinkItems N hosts s) (\<lambda>(found, items, _). ok (found, items))) \<rparr>"

lemma found_proxy:
  assumes "find_addresses E t proxied = ok (use_proxy, p)"
  shows "use_proxy = (proxied \<and> IsValid (cp_proxy_info p)) \<and> (cp_proxy_info p = ProxyInfo \<or> proxied \<and> (\<exists>h. cp_proxy_info p = ce_GetProxyInfo E h))"
proof -
  let ?p = "proxied_profile E t proxied"
  have "cp_proxy_info p = cp_proxy_info ?p \<and> use_proxy = (proxied \<and> IsValid (cp_proxy_info ?p))"
    using assms by (auto simp: find_addresses_def use_item_def and_then_ok_iff Let_def split: if_splits prod.splits)
  moreover have "cp_proxy_info ?p = ProxyInfo \<or> proxied \<and> (\<exists>h. cp_proxy_info ?p = ce_GetProxyInfo E h)"
    by (auto simp: proxied_profile_def new_ConnectProfile_def Let_def split: list.split)
  ultimately show ?thesis by simp
qed

definition harmless_proxy :: "proxy_info \<Rightarrow> bool" where
  "harmless_proxy x \<longleftrightarrow> px_type x \<noteq> kProxyHttpTunel \<and> (px_type x = kProxySocks5 \<longrightarrow> IsValid x)"

lemma connect_call_safe:
  assumes "harmless_proxy x" "use_proxy \<or> px_type x \<noteq> kProxySocks5"
  shows "fst (connect_call E use_proxy ip x addrs) \<noteq> Stopped e"
  using assms connect_stops by (fastforce simp: connect_call_def harmless_proxy_def Let_def)

lemma RunConnect_safe:
  assumes "fair N" "mt_shortlink_host_list t \<noteq> [] \<or> sg_shortlink_debugip s = []" "\<forall>h. harmless_proxy (ce_GetProxyInfo E h)"
  shows "RunConnect (source_env N s E) t proxied = Inl e \<Longrightarrow> e = Running"
proof -
  let ?E = "source_env N s E"
  obtain items where i: "ce_items ?E (mt_shortlink_host_list t) = ok (items \<noteq> [], items)" "sg_shortlink_debugip s \<noteq> [] \<longrightarrow> items \<noteq> []"
    using GetShortLinkItems_cases [OF assms(1), of "mt_shortlink_host_list t" s] assms(2) by (auto simp: source_env_def split: if_splits)
  obtain use_proxy p where f: "find_addresses ?E t proxied = ok (use_proxy, p)" "http_proxy use_proxy p \<longrightarrow> cp_ip_items p \<noteq> []"
  proof (cases "http_proxy (proxied \<and> IsValid (cp_proxy_info (proxied_profile ?E t proxied))) (proxied_profile ?E t proxied)")
    case True
    then show ?thesis using that i by (cases "ce_debugip ?E = []") (simp_all add: find_addresses_def Let_def use_item_def source_env_def)
  next
    case False
    then show ?thesis using that i(1)
      by (cases "items = []") (simp_all add: find_addresses_def Let_def, simp_all add: http_proxy_def use_item_def)
  qed
  have "ce_GetProxyInfo ?E = ce_GetProxyInfo E" by (simp add: source_env_def)
  then have h: "harmless_proxy (cp_proxy_info p)" "use_proxy \<or> px_type (cp_proxy_info p) \<noteq> kProxySocks5"
    using found_proxy [OF f(1)] assms(3) by (auto simp: harmless_proxy_def ProxyInfo_def)
  show "RunConnect ?E t proxied = Inl e \<Longrightarrow> e = Running"
  proof (cases "proxy_ip ?E use_proxy p")
    case None
    then show "RunConnect ?E t proxied = Inl e \<Longrightarrow> e = Running" using f(1) by (simp add: RunConnect_def)
  next
    case (Some ip)
    have v: "cp_ip_items p = [] \<Longrightarrow> vecaddr use_proxy ip p = []" using f(2) by (simp add: vecaddr_def)
    have c: "fst (connect_call ?E use_proxy ip (cp_proxy_info p) addrs) \<noteq> Stopped st" for addrs st by (rule connect_call_safe [OF h])
    assume r: "RunConnect ?E t proxied = Inl e"
    obtain d cs cev where d: "connect_call ?E use_proxy ip (cp_proxy_info p) (vecaddr use_proxy ip p) = (d, cs, cev)" by (metis prod_cases3)
    have "d = Connecting" "e = stuck_at d"
      using r v c [of "vecaddr use_proxy ip p"] d by (cases d; auto simp: RunConnect_def f(1) Some Let_def use_item_def split: if_splits prod.splits)+
    then show "e = Running" by (simp add: stuck_at_def)
  qed
qed

text \<open>A proxy with a tunnel that is not valid is not used, but its type is passed on without an address.\<close>

lemma invalid_proxy_crashes:
  assumes "find_addresses E t proxied = ok (False, p)" "px_type (cp_proxy_info p) \<in> {kProxyHttpTunel, kProxySocks5}" "cp_ip_items p \<noteq> []"
  shows "RunConnect E t proxied = Inl (Crashed BadRead)"
proof -
  have v: "vecaddr False [] p \<noteq> []" using assms(3) by (simp add: vecaddr_def http_proxy_def)
  then have "fst (connect_call E False [] (cp_proxy_info p) (vecaddr False [] p)) = Stopped (StopCrash BadRead)"
    using assms(2) proxy_without_address_crashes by (auto simp: connect_call_def Let_def)
  then obtain c cev where "connect_call E False [] (cp_proxy_info p) (vecaddr False [] p) = (Stopped (StopCrash BadRead), c, cev)"
    by (metis prod.collapse)
  then show ?thesis using assms v by (simp add: RunConnect_def proxy_ip_def use_item_def stuck_at_def Let_def)
qed

section \<open>Properties\<close>

text \<open>C8: A worker's run never hangs and answers at most once. A run that has ended has answered once, unless it was
  broken off; one that waits for the socket or has died has not answered.\<close>

theorem worker_answers_once:
  "case ShortLink_Run E R t proxied body of (p, ev, st) \<Rightarrow>
     if st = Finished then responses ev = 1 \<or> responses ev = 0 \<and> broken E R
     else responses ev = 0 \<and> (st = Running \<or> (\<exists>f. st = Crashed f))"
proof -
  obtain p ev st where r: "ShortLink_Run E R t proxied body = (p, ev, st)" by (metis surj_pair)
  have "answered (broken E R) (ev, st)" using Run_answered [of E R t proxied body] by (simp add: r)
  then show ?thesis by (cases st) (auto simp: r answered_def le_Suc_eq)
qed

text \<open>The body as it is sent: in chunks when the head says so, else as long as its content length.\<close>

definition body_sent :: "bytes list \<Rightarrow> bytes \<Rightarrow> bytes \<Rightarrow> bool" where
  "body_sent h b w \<longleftrightarrow>
     (if IsTransferEncodingChunked (sent_fields h)
      then \<exists>cs. (\<forall>c \<in> set cs. c \<noteq> [] \<and> int (length c) < 2 ^ 31) \<and> b = concat cs \<and> w = concat (map chunk cs) @ EofData
      else ContentLength (sent_fields h) = int (length b) \<and> w = b)"

lemma whole_answer_read:
  assumes "head_ok l h q" "body_sent h b w" "concat (map call_data cs) @ z = head_text l h @ w @ r"
    and "length (head_text l h) + length w \<le> length (concat (map call_data cs))"
    and "\<forall>c \<in> set cs. quiet_call c \<and> (IsTransferEncodingChunked (sent_fields h) \<longrightarrow> 3 \<le> length (rc_behind c))"
  shows "\<exists>ev. all_recvs ev \<and> read_loop cs 0 Parser p = (fst (message_outcome q b p), ev @ snd (message_outcome q b p), Finished)"
proof (cases "IsTransferEncodingChunked (sent_fields h)")
  case True
  then obtain ks where ks: "\<forall>c \<in> set ks. c \<noteq> [] \<and> int (length c) < 2 ^ 31" "b = concat ks" "w = concat (map chunk ks) @ EofData"
    using assms(2) by (auto simp: body_sent_def)
  have pos: "0 < chunked_size (l, h, q, ks, r)" by (simp add: head_text_def CRLF_def)
  show ?thesis using ckw.whole_answer [OF _ _ _ pos, of "fields_of h" q b cs z p] True ks assms by auto
next
  case False
  then have w: "ContentLength (sent_fields h) = int (length b)" "w = b" using assms(2) by (simp_all add: body_sent_def)
  have pos: "0 < sized_size (l, h, q, b, r)" by (simp add: head_text_def CRLF_def)
  show ?thesis using szw.whole_answer [OF _ _ _ pos, of "fields_of h" q b cs z p] False w assms by auto
qed

text \<open>C7: An answer that says how long it is, with a content length equal to its body or in chunks, and comes whole, in any
  pieces and with any pauses, is handed over whole: status 200 gives exactly the body, another status an HTTP
  error with that status. Before it only progress is reported, and the connection is done. The fields may come
  in any order; for chunks three bytes can be read behind every buffer. An answer that ends with the
  connection is not covered: it is handed over empty.\<close>

theorem whole_answer_handed_over:
  assumes "head_ok l h q" "body_sent h b w"
    and "concat (map call_data (rw_recv R)) @ z = head_text l h @ w @ r" "length (head_text l h) + length w \<le> length (concat (map call_data (rw_recv R)))"
    and "\<forall>c \<in> set (rw_recv R). quiet_call c \<and> (IsTransferEncodingChunked (sent_fields h) \<longrightarrow> 3 \<le> length (rc_behind c))" "\<not> rw_break R"
    and "block_socket_send (rw_send R) (shortlink_pack (request_url p t) (request_headers p) body) 0 = Some ((sent, err), out)" "0 \<le> sent"
  shows "\<exists>ev p'. all_recvs ev \<and> RunReadWrite R t body p =
    (p', ev @ (if sl_code (hp_statusline q) = 200 then [SlResponse kEctOK 200 b (- 1 \<noteq> cp_ip_index p) p']
       else [SlReport kEctHttp (sl_code (hp_statusline q)) (cp_ip p) (cp_host p) (cp_port p),
             SlResponse kEctHttp (sl_code (hp_statusline q)) [] (- 1 \<noteq> cp_ip_index p) p']), Finished)"
proof -
  obtain ev where ev: "all_recvs ev" "read_loop (rw_recv R) 0 Parser p = (fst (message_outcome q b p), ev @ snd (message_outcome q b p), Finished)"
    using whole_answer_read [OF assms(1-5)] by blast
  show ?thesis
    by (intro exI [of _ ev] exI [of _ "fst (message_outcome q b p)"])
      (use ev assms(6-8) in \<open>simp add: RunReadWrite_def message_outcome_def RunResponseError_def Short_worker_OnResponse_def Let_def\<close>)
qed

definition sample_select :: selected where
  "sample_select = \<lparr> se_ret = 1, se_errno = 0, se_exception = False, se_break = False, se_sock_exception = False, se_sock_ready = True, se_sock_error = 0 \<rparr>"

definition sample_call :: "bytes \<Rightarrow> recv_call" where
  "sample_call s = \<lparr> rc_rounds = [(RecvFail 10035 True, sample_select), (RecvData s, sample_select)], rc_break = False, rc_behind = [] \<rparr>"

definition sample_timeout :: recv_call where
  "sample_timeout = \<lparr> rc_rounds = [(RecvFail 10035 True, sample_select\<lparr> se_ret := 0 \<rparr>)], rc_break = False, rc_behind = [] \<rparr>"

lemma sample_calls:
  "s \<noteq> [] \<Longrightarrow> block_socket_recv (rc_rounds (sample_call s)) KBufferSize False [] = Some ((int (length s), 0), s)"
  "block_socket_recv (rc_rounds sample_timeout) KBufferSize False [] = Some ((0, ETIMEDOUT), [])"
  by (simp_all add: sample_call_def sample_timeout_def sample_select_def after_recv_def after_select_def enough_def KBufferSize_def)

lemma sample_calls_quiet: "s \<noteq> [] \<Longrightarrow> quiet_call (sample_call s) \<and> call_data (sample_call s) = s" "quiet_call sample_timeout \<and> call_data sample_timeout = []"
  using sample_calls by (simp_all add: quiet_call_def call_data_def) (simp_all add: sample_call_def sample_timeout_def)

lemma insert_field_ne: "insert_field k v h \<noteq> []"
  by (induction k v h rule: insert_field.induct) auto

lemma puts_ne: "h \<noteq> [] \<or> xs \<noteq> [] \<Longrightarrow> foldl put_field h xs \<noteq> []"
  by (induction xs arbitrary: h) (auto simp: put_field_def HeaderFiled_def insert_field_ne)

lemma shortlink_pack_ne: "shortlink_pack url headers body \<noteq> []"
proof -
  have "shortlink_fields headers (length body) \<noteq> []" unfolding shortlink_fields_put by (rule puts_ne) (simp add: pack_list_def)
  then show ?thesis by (simp add: shortlink_pack_text head_text_def CRLF_def)
qed

definition sample_rw :: "mtask \<Rightarrow> rw_env" where
  "sample_rw t = \<lparr> rw_send = [(SendRet (int (length (shortlink_pack (request_url new_ConnectProfile t) (request_headers new_ConnectProfile) []))) 0 False, sample_select)],
     rw_break = False,
     rw_recv = [sample_timeout, sample_call (head_text sample_head sized_fields @ lit ''h''), sample_timeout, sample_call (lit ''i'')] \<rparr>"

lemma sample_send:
  "block_socket_send (rw_send (sample_rw t)) (shortlink_pack (request_url new_ConnectProfile t) (request_headers new_ConnectProfile) []) 0
    = Some ((int (length (shortlink_pack (request_url new_ConnectProfile t) (request_headers new_ConnectProfile) [])), 0),
        shortlink_pack (request_url new_ConnectProfile t) (request_headers new_ConnectProfile) [])"
  using shortlink_pack_ne by (simp add: sample_rw_def)

theorem whole_answer_handed_over_witness:
  "\<exists>ev p'. all_recvs ev \<and> RunReadWrite (sample_rw (new_mtask 1)) (new_mtask 1) [] new_ConnectProfile = (p', ev @ [SlResponse kEctOK 200 (lit ''hi'') False p'], Finished)"
proof -
  let ?a = "head_text sample_head sized_fields @ lit ''h''" and ?b = "lit ''i''" and ?R = "sample_rw (new_mtask 1)"
  have hi: "lit ''hi'' = lit ''h'' @ lit ''i''" "length (lit ''hi'') = 2" by (simp_all add: lit_def)
  have c: "quiet_call (sample_call ?a) \<and> call_data (sample_call ?a) = ?a" "quiet_call (sample_call ?b) \<and> call_data (sample_call ?b) = ?b"
    by (rule sample_calls_quiet(1), simp add: lit_def)+
  have R: "rw_recv ?R = [sample_timeout, sample_call ?a, sample_timeout, sample_call ?b]" "\<not> rw_break ?R" by (simp_all add: sample_rw_def)
  have d: "concat (map call_data (rw_recv ?R)) @ [] = head_text sample_head sized_fields @ lit ''hi'' @ []"
    using c sample_calls_quiet(2) by (simp add: R(1) hi(1))
  have l: "length (head_text sample_head sized_fields) + length (lit ''hi'') \<le> length (concat (map call_data (rw_recv ?R)))"
    using arg_cong [OF d, of length] by simp
  have q: "\<forall>c \<in> set (rw_recv ?R). quiet_call c \<and> (IsTransferEncodingChunked (sent_fields sized_fields) \<longrightarrow> 3 \<le> length (rc_behind c))"
    using c sample_calls_quiet(2) sample_lengths(1) by (simp add: R(1))
  have w: "body_sent sized_fields (lit ''hi'') (lit ''hi'')" using sample_lengths(1,2) by (simp add: body_sent_def hi(2))
  have st: "sl_code (hp_statusline sample_first) = 200" "cp_ip_index new_ConnectProfile = - 1"
    by (simp_all add: sample_first_def sample_status_def new_ConnectProfile_def)
  from whole_answer_handed_over [OF sample_head_ok w d l q R(2) sample_send] st
  show ?thesis by simp
qed

text \<open>C19: What \<^verbatim>\<open>shortlink_pack\<close> writes is read back, in any pieces, as the same POST request: address, fields and body.
  The fields are the six of every request and those given; the first field with a name stays, so the
  content length is always the body's.\<close>

theorem packed_request_received:
  assumes "token url" "length url < 8000" "\<forall>x \<in> set headers. field_text x" "fields_size headers < 130000"
    and "HeaderField KStringTransferEncoding headers = None" "int (length body) < 2 ^ 31"
    and "concat (map snd xs) = shortlink_pack url headers body"
  shows "\<exists>p. recv_all xs Parser = Some (ok p) \<and> Success p \<and> hp_body p = body \<and> hp_requestline p = post_line url \<and> hp_csmode p = kRequest
    \<and> hp_fields p = shortlink_fields headers (length body) \<and> ContentLength (hp_fields p) = int (length body)"
proof -
  let ?h = "shortlink_fields headers (length body)" and ?q = "Parser\<lparr> hp_requestline := post_line url, hp_csmode := kRequest \<rparr>"
    and ?l = "request_text (post_line url)"
  note f = shortlink_fields_facts [OF assms(3,5,6)]
  have t: "concat (map snd xs) = head_text ?l (field_lines ?h) @ body" using assms(7) shortlink_pack_text [OF f(2)] by simp
  then have "concat (map snd xs) @ [] = sized_text (?l, field_lines ?h, ?q, body, [])" by simp
  from szw.in_pieces [OF packed_request_ok [OF assms(1-6)] this _, of ?h ?q body] t f(4) fields_of_sorted [OF f(1)] show ?thesis by auto
qed

theorem packed_request_received_witness:
  "\<exists>p. recv_all (sample_pieces (shortlink_pack (lit ''/mm'') [(KStringHost, lit ''h.qq.com'')] (lit ''body''))) Parser = Some (ok p)
    \<and> Success p \<and> hp_body p = lit ''body'' \<and> rq_url (hp_requestline p) = lit ''/mm''"
proof -
  have "token (lit ''/mm'')" by (simp add: token_def lit_def)
  moreover have "list_all field_text [(KStringHost, lit ''h.qq.com'')]" "HeaderField KStringTransferEncoding [(KStringHost, lit ''h.qq.com'')] = None"
    by code_simp+
  ultimately show ?thesis
    using packed_request_received [of "lit ''/mm''" "[(KStringHost, lit ''h.qq.com'')]" "lit ''body''"
        "sample_pieces (shortlink_pack (lit ''/mm'') [(KStringHost, lit ''h.qq.com'')] (lit ''body''))"]
    by (auto simp: concat_sample_pieces(1) post_line_def) (auto simp: KStringHost_def lit_def)
qed

text \<open>With the addresses of \<open>Net_Source\<close> connecting never reads past a list and never hangs, whatever DNS and the
  network do, provided the task has hosts or no debug address is set, and no proxy is an HTTP tunnel or an incomplete SOCKS5 proxy.\<close>

theorem connecting_never_faults:
  assumes "fair N" "mt_shortlink_host_list t \<noteq> [] \<or> sg_shortlink_debugip s = []" "\<forall>h. harmless_proxy (ce_GetProxyInfo E h)"
  shows "case RunConnect (source_env N s E) t proxied of Inl e \<Rightarrow> e = Running | Inr r \<Rightarrow> True"
  using RunConnect_safe [OF assms] by (auto split: sum.split)

definition sample_env :: connect_env where
  "sample_env = \<lparr> ce_GetProxyInfo = (\<lambda>_. ProxyInfo), ce_nat64 = False, ce_debugip = [], ce_shortlink_port = 80,
     ce_items = (\<lambda>_. ok (False, [])), ce_dns = (\<lambda>_. None),
     ce_inet_addr = (\<lambda>_. [127, 0, 0, 1]), ce_starttime = 0, ce_rounds = [], ce_break = False \<rparr>"

theorem connecting_never_faults_witness:
  "case RunConnect (source_env sample_dns (NetSource sample_sort) sample_env) ((new_mtask 1)\<lparr> mt_shortlink_host_list := [lit ''h''] \<rparr>) True
   of Inl e \<Rightarrow> e = Running | Inr r \<Rightarrow> True"
  by (rule connecting_never_faults) (simp_all add: sample_fair sample_env_def harmless_proxy_def ProxyInfo_def)

end
