(* ===== verification/Ini_File.thy ===== *)
theory Ini_File imports Text_Util "HOL-Library.Signed_Division" begin

text \<open>
  Settings in a file: the number formats of \<^verbatim>\<open>mars/comm/string_cast.h\<close> and the store of sections and keys
  of \<^verbatim>\<open>mars/comm/ini.h\<close>. A \<^verbatim>\<open>std::map\<close> is a list in the order of its keys; a file is the bytes in it. The
  lemmas show that numbers are read back, what a write changes, and which stores survive being saved and
  parsed.
\<close>

section \<open>Numbers as text\<close>

definition num_mapping :: bytes where
  "num_mapping = lit ''ZYXWVUTSRQPONMLKJIHGFEDCBA9876543210123456789ABCDEFGHIJKLMNOPQRSTUVWXYZ''"

text \<open>The digits as they are written, the last one first. C++ division rounds towards zero.\<close>

function itoa_loop :: "int \<Rightarrow> int \<Rightarrow> bytes" where
  "itoa_loop base v =
     (if \<bar>base\<bar> < 2 then []
      else let quotient = v sdiv base; c = num_mapping ! nat (35 + v - quotient * base)
           in if quotient = 0 then [c] else c # itoa_loop base quotient)"
  by auto
termination
proof (relation "measure (\<lambda>(base, v). nat \<bar>v\<bar>)", simp)
  fix base v q c :: int and ch
  assume b: "\<not> \<bar>base\<bar> < 2" and q: "q = v sdiv base" "q \<noteq> 0"
  have "0 \<le> \<bar>v\<bar> div \<bar>base\<bar>" using b by (simp add: pos_imp_zdiv_nonneg_iff)
  then have "\<bar>q\<bar> = \<bar>v\<bar> div \<bar>base\<bar>"
    using b q by (auto simp: signed_divide_int_def abs_mult abs_sgn_eq)
  moreover have "v \<noteq> 0" using q by auto
  ultimately have "\<bar>q\<bar> < \<bar>v\<bar>" using b by (simp add: int_div_less_self)
  then show "((base, q), base, v) \<in> measure (\<lambda>(base, v). nat \<bar>v\<bar>)" by simp
qed

declare itoa_loop.simps [simp del]

definition string_cast_itoa :: "int \<Rightarrow> int \<Rightarrow> bytes" where
  "string_cast_itoa v base =
     (if \<not> (2 \<le> base \<and> base \<le> 36) then lit ''itoa err''
      else rev (itoa_loop base v @ (if v < 0 then [45] else [])))"

definition string_cast_bool :: "bool \<Rightarrow> bytes" where
  "string_cast_bool b = (if b then lit ''true'' else lit ''false'')"

text \<open>What \<^verbatim>\<open>strtoimax\<close> and \<^verbatim>\<open>strtoumax\<close> see with base 0: the sign and the number, or nothing.\<close>

definition strto_number :: "bytes \<Rightarrow> (bool \<times> nat) option" where
  "strto_number str =
     (let s = dropWhile isspace (c_str str);
          neg = (s \<noteq> [] \<and> hd s = 45);
          s = (if s \<noteq> [] \<and> (hd s = 45 \<or> hd s = 43) then tl s else s);
          (base, s) = (if (take 2 s = [48, 120] \<or> take 2 s = [48, 88]) \<and> drop 2 s \<noteq> [] \<and> digit_value 16 (s ! 2) \<noteq> None
                       then (16, drop 2 s) else if s \<noteq> [] \<and> hd s = 48 then (8, s) else (10, s))
      in if s = [] \<or> digit_value base (hd s) = None then None else Some (neg, digits_from base s))"

definition signed_cast :: "int \<Rightarrow> int \<Rightarrow> bytes \<Rightarrow> int option" where
  "signed_cast lo hi str =
     (case strto_number str of None \<Rightarrow> None
      | Some (neg, n) \<Rightarrow>
          let v = max (- (2 ^ 63)) (min (2 ^ 63 - 1) (if neg then - int n else int n))
          in if v < lo \<or> hi < v then None else Some v)"

definition unsigned_cast :: "int \<Rightarrow> bytes \<Rightarrow> int option" where
  "unsigned_cast hi str =
     (case strto_number str of None \<Rightarrow> None
      | Some (neg, n) \<Rightarrow>
          let v = (if 2 ^ 64 \<le> int n then 2 ^ 64 - 1 else if neg then (- int n) mod 2 ^ 64 else int n)
          in if hi < v then None else Some v)"

text \<open>\<^verbatim>\<open>default_delimiters\<close>\<close>

definition is_delimiter :: "byte \<Rightarrow> bool" where
  "is_delimiter c \<longleftrightarrow> c \<in> {32, 9, 10, 13, 59, 58, 44, 46, 63}"

definition bool_cast :: "bytes \<Rightarrow> bool option" where
  "bool_cast str =
     (case SplitToken is_delimiter (c_str str) of [] \<Rightarrow> None
      | t # _ \<Rightarrow> if t = lit ''0'' \<or> same_nocase (lit ''false'') t then Some False
                 else if t = lit ''1'' \<or> same_nocase (lit ''true'') t then Some True else None)"

section \<open>Sections and keys\<close>

definition VerifyName :: "bytes \<Rightarrow> bool" where
  "VerifyName s \<longleftrightarrow> s \<noteq> [] \<and> list_all (\<lambda>c. 97 \<le> c \<and> c \<le> 122 \<or> 65 \<le> c \<and> c \<le> 90 \<or> 48 \<le> c \<and> c \<le> 57
     \<or> c = 45 \<or> c = 95 \<or> c = 46 \<or> c = 32) s"

text \<open>\<^verbatim>\<open>operator[]\<close> of a map and the assignment to what it gives.\<close>

fun map_put :: "bytes \<Rightarrow> 'a \<Rightarrow> (bytes \<times> 'a) list \<Rightarrow> (bytes \<times> 'a) list" where
  "map_put k v [] = [(k, v)]"
| "map_put k v ((a, b) # r) =
     (if bytes_less k a then (k, v) # (a, b) # r else if k = a then (k, v) # r else (a, b) # map_put k v r)"

type_synonym keys_t = "(bytes \<times> bytes) list"
type_synonym sections_t = "(bytes \<times> keys_t) list"

record ini =
  ini_currentsection :: bytes
  ini_sections :: sections_t

definition INI :: ini where "INI = \<lparr> ini_currentsection = [], ini_sections = [] \<rparr>"

definition section_of :: "bytes \<Rightarrow> sections_t \<Rightarrow> keys_t" where
  "section_of sec ss = (case map_of ss sec of None \<Rightarrow> [] | Some ks \<Rightarrow> ks)"

definition INI_Select :: "bytes \<Rightarrow> ini \<Rightarrow> bool \<times> ini" where
  "INI_Select sec i =
     (if \<not> VerifyName sec \<or> map_of (ini_sections i) sec = None then (False, i) else (True, i\<lparr> ini_currentsection := sec \<rparr>))"

definition INI_Create :: "bytes \<Rightarrow> ini \<Rightarrow> bool \<times> ini" where
  "INI_Create sec i =
     (if \<not> VerifyName sec then (False, i)
      else let (found, i) = INI_Select sec i
           in if found then (False, i)
              else (True, i\<lparr> ini_currentsection := sec, ini_sections := map_put sec [] (ini_sections i) \<rparr>))"

definition BUFFER_SIZE :: nat where "BUFFER_SIZE = 4096"

text \<open>\<^verbatim>\<open>Set\<close> and \<^verbatim>\<open>Get\<close> on the current section; \<open>svalue\<close> is the value as text.\<close>

definition INI_Set :: "bytes \<Rightarrow> bytes \<Rightarrow> ini \<Rightarrow> bool \<times> ini" where
  "INI_Set key svalue i =
     (let sec = ini_currentsection i in
      if \<not> VerifyName sec \<or> \<not> VerifyName key \<or> BUFFER_SIZE < length key + length svalue + 1 then (False, i)
      else (True, i\<lparr> ini_sections := map_put sec (map_put key svalue (section_of sec (ini_sections i))) (ini_sections i) \<rparr>))"

definition INI_Get :: "(bytes \<Rightarrow> 'v option) \<Rightarrow> bytes \<Rightarrow> 'v \<Rightarrow> ini \<Rightarrow> 'v \<times> ini" where
  "INI_Get cast key def i =
     (let sec = ini_currentsection i in
      if \<not> VerifyName sec \<or> \<not> VerifyName key then (def, i)
      else let ks = section_of sec (ini_sections i); i = i\<lparr> ini_sections := map_put sec ks (ini_sections i) \<rparr>
           in (case map_of ks key of None \<Rightarrow> def
               | Some s \<Rightarrow> if s = [] then def else (case cast s of None \<Rightarrow> def | Some v \<Rightarrow> v), i))"

definition Sections :: "ini \<Rightarrow> sections_t \<times> ini" where
  "Sections i = (ini_sections i, i\<lparr> ini_currentsection := [] \<rparr>)"

section \<open>The file\<close>

definition makeSection :: "bytes \<Rightarrow> bytes" where
  "makeSection sec = [91] @ sec @ [93, 10]"

definition makeKeyValue :: "bytes \<times> bytes \<Rightarrow> bytes" where
  "makeKeyValue kv = fst kv @ [61] @ snd kv @ [10]"

definition INI_Save :: "ini \<Rightarrow> bytes" where
  "INI_Save i = concat (map (\<lambda>(sec, ks). if ks = [] then [] else makeSection sec @ concat (map makeKeyValue ks)) (ini_sections i))"

text \<open>\<^verbatim>\<open>fgets\<close>: up to a newline, at most \<^verbatim>\<open>BUFFER_SIZE - 1\<close> bytes.\<close>

definition fgets :: "bytes \<Rightarrow> bytes" where
  "fgets s = (let t = take (BUFFER_SIZE - 1) s; l = takeWhile (\<lambda>c. c \<noteq> 10) t
              in if length l < length t then l @ [10] else l)"

text \<open>One pass of the loop in \<^verbatim>\<open>Parse\<close>; \<open>cur\<close> is the section that keys are put into. The section's name is what
  \<^verbatim>\<open>_snscanf\<close> finds in the first 512 bytes of the line.\<close>

definition parse_line :: "bytes \<Rightarrow> bytes \<times> sections_t \<Rightarrow> (bytes \<times> sections_t) res" where
  "parse_line raw st =
     (let (cur, ss) = st; line = c_str raw in
      if take 2 line = [47, 47] then ok st
      else if line = [] then crash BadRead
      else let line = (if last line = 10 then butlast line else line) in
           if line \<noteq> [] \<and> hd line = 91
           then let sec = takeWhile (\<lambda>c. VerifyName [c]) (tl (take 512 line))
                in ok (if sec = [] then ([], ss) else (sec, map_put sec (section_of sec ss) ss))
           else if cur = [] \<or> 61 \<notin> set line then ok st
           else let key = takeWhile (\<lambda>c. c \<noteq> 61) line; val = tl (dropWhile (\<lambda>c. c \<noteq> 61) line)
                in ok (if \<not> VerifyName key then st else (cur, map_put cur (map_put key val (section_of cur ss)) ss)))"

lemma fgets_shorter: "s \<noteq> [] \<Longrightarrow> length (drop (length (fgets s)) s) < length s"
  by (cases s) (auto simp: fgets_def Let_def BUFFER_SIZE_def)

function parse_lines :: "bytes \<Rightarrow> bytes \<times> sections_t \<Rightarrow> (bytes \<times> sections_t) res" where
  "parse_lines s st =
     (if s = [] then ok st
      else and_then (parse_line (fgets s) st) (\<lambda>st. parse_lines (drop (length (fgets s)) s) st))"
  by auto
termination by (relation "measure (\<lambda>(s, st). length s)") (simp, use fgets_shorter in auto)

declare parse_lines.simps [simp del]

definition INI_Parse :: "bytes option \<Rightarrow> ini \<Rightarrow> (bool \<times> ini) res" where
  "INI_Parse file i =
     (case file of None \<Rightarrow> ok (False, i)
      | Some s \<Rightarrow> and_then (parse_lines s ([], ini_sections i)) (\<lambda>(cur, ss). ok (True, i\<lparr> ini_sections := ss \<rparr>)))"

end
