(* ===== verification/Smart_Heartbeat.thy ===== *)
theory Smart_Heartbeat imports Ini_File Stn_Task begin

text \<open>
  The interval between two heartbeats of the long link (\<^verbatim>\<open>smart_heartbeat.cc\<close>): it is searched for each
  network, stored in a file, and searched again when it fails. The clocks, the network's name and kind,
  whether the application is active, and the name of the section in the file (the MD5 sum of the network's name)
  are arguments. The statics of \<^verbatim>\<open>JudgeMIUIStyle\<close> are part of the state.
\<close>

section \<open>State\<close>

definition MinHeartInterval :: dword where "MinHeartInterval = 4 * 60 * 1000 + 30 * 1000"
definition MaxHeartInterval :: dword where "MaxHeartInterval = 9 * 60 * 1000 + 50 * 1000"
definition HeartStep :: dword where "HeartStep = 60 * 1000"
definition SuccessStep :: dword where "SuccessStep = 20 * 1000"
definition MaxHeartFailCount :: dword where "MaxHeartFailCount = 3"
definition BaseSuccCount :: dword where "BaseSuccCount = 3"
definition NetStableTestCount :: dword where "NetStableTestCount = 3"
definition ONE_DAY_SECONEDS :: int where "ONE_DAY_SECONEDS = 24 * 60 * 60"
definition MAX_JUDGE_TIMES :: nat where "MAX_JUDGE_TIMES = 10"
definition MAX_INI_SECTIONS :: nat where "MAX_INI_SECTIONS = 20"

record heart_info =
  net_detail_of :: bytes
  net_type_of :: int
  cur_heart :: dword
  is_stable :: bool
  fail_heart_count :: dword
  last_modify_time :: int
  success_curr_heart_count :: dword

text \<open>\<open>sh_file\<close>: the contents of \<^verbatim>\<open>Heartbeat.ini\<close>.\<close>

record smart_heart =
  is_wait_heart_response :: bool
  xiaomi_style_count :: dword
  success_heart_count :: dword
  last_heart :: dword
  heart_info_of :: heart_info
  sh_ini :: ini
  sh_file :: "bytes option"
  test_total_count :: nat
  last_alarm_tick :: qword

definition Clear :: heart_info where
  "Clear = \<lparr> net_detail_of = [], net_type_of = -1, cur_heart = MinHeartInterval, is_stable = False, fail_heart_count = 0,
     last_modify_time = 0, success_curr_heart_count = 0 \<rparr>"

text \<open>The constructor, with the file that is there.\<close>

definition SmartHeartbeat :: "bytes option \<Rightarrow> smart_heart res" where
  "SmartHeartbeat file =
     and_then (INI_Parse file INI) (\<lambda>(_, i).
       ok \<lparr> is_wait_heart_response = False, xiaomi_style_count = 0, success_heart_count = 0, last_heart = MinHeartInterval,
            heart_info_of = Clear, sh_ini = i, sh_file = file, test_total_count = 0, last_alarm_tick = 0 \<rparr>)"

abbreviation upd_info :: "(heart_info \<Rightarrow> heart_info) \<Rightarrow> smart_heart \<Rightarrow> smart_heart" where
  "upd_info f s \<equiv> s\<lparr> heart_info_of := f (heart_info_of s) \<rparr>"

definition IsMIUIStyle :: "smart_heart \<Rightarrow> bool" where
  "IsMIUIStyle s \<longleftrightarrow> 3 \<le> xiaomi_style_count s"

section \<open>The file\<close>

definition kKeyModifyTime :: bytes where "kKeyModifyTime = lit ''modifyTime''"
definition kKeyCurHeart :: bytes where "kKeyCurHeart = lit ''curHeart''"
definition kKeyFailHeartCount :: bytes where "kKeyFailHeartCount = lit ''failHeartCount''"
definition kKeyStable :: bytes where "kKeyStable = lit ''stable''"
definition kKeyNetType :: bytes where "kKeyNetType = lit ''netType''"

text \<open>\<open>now\<close> is \<^verbatim>\<open>time(NULL)\<close>, 64 bits wide.\<close>

definition SaveINI :: "int \<Rightarrow> smart_heart \<Rightarrow> smart_heart" where
  "SaveINI now s =
     (let s = upd_info (\<lambda>h. h\<lparr> last_modify_time := now \<rparr>) s; h = heart_info_of s;
          put = (\<lambda>k v i. snd (INI_Set k v i));
          i = put kKeyModifyTime (string_cast_itoa (last_modify_time h) 10) (sh_ini s);
          i = put kKeyCurHeart (string_cast_itoa (uint (cur_heart h)) 10) i;
          i = put kKeyFailHeartCount (string_cast_itoa (uint (fail_heart_count h)) 10) i;
          i = put kKeyStable (string_cast_bool (is_stable h)) i;
          i = put kKeyNetType (string_cast_itoa (net_type_of h) 10) i
      in s\<lparr> sh_ini := i, sh_file := Some (INI_Save i) \<rparr>)"

text \<open>The loop of \<^verbatim>\<open>__LimitINISize\<close>: sections without a time or with one in the future are dropped; the oldest
  of the others is remembered.\<close>

fun limit_loop :: "int \<Rightarrow> sections_t \<Rightarrow> int \<Rightarrow> bytes option \<Rightarrow> sections_t \<times> bytes option" where
  "limit_loop now [] min_time min_sec = ([], min_sec)"
| "limit_loop now ((sec, ks) # ss) min_time min_sec =
     (case map_of ks kKeyModifyTime of
        None \<Rightarrow> limit_loop now ss min_time min_sec
      | Some v \<Rightarrow>
          let t = (case signed_cast (- (2 ^ 63)) (2 ^ 63 - 1) v of None \<Rightarrow> 0 | Some t \<Rightarrow> t) in
          if now < t then limit_loop now ss min_time min_sec
          else let (min_time, min_sec) = (if min_time = 0 \<or> t < min_time then (t, Some sec) else (min_time, min_sec));
                   (ss, m) = limit_loop now ss min_time min_sec
               in ((sec, ks) # ss, m))"

definition LimitINISize :: "int \<Rightarrow> smart_heart \<Rightarrow> smart_heart" where
  "LimitINISize now s =
     (let (ss, i) = Sections (sh_ini s) in
      if length ss \<le> MAX_INI_SECTIONS then s\<lparr> sh_ini := i \<rparr>
      else let (ss, m) = limit_loop now ss 0 None;
               ss = (case m of None \<Rightarrow> ss | Some sec \<Rightarrow> filter (\<lambda>(a, _). a \<noteq> sec) ss)
           in s\<lparr> sh_ini := i\<lparr> ini_sections := ss \<rparr> \<rparr>)"

record heart_env =
  he_time :: int
  he_wday :: int
  he_active :: bool
  he_label :: bytes
  he_net_type :: int
  he_section :: "bytes \<Rightarrow> bytes"

text \<open>\<^verbatim>\<open>SpecialINI::Create\<close>: the section's own name is one of its values.\<close>

definition Special_Create :: "heart_env \<Rightarrow> bytes \<Rightarrow> ini \<Rightarrow> bool \<times> ini" where
  "Special_Create E name i =
     (let (ret, i) = INI_Create (he_section E name) i
      in if ret then (True, snd (INI_Set (lit ''name'') (c_str name) i)) else (False, i))"

definition read_info :: "heart_env \<Rightarrow> smart_heart \<Rightarrow> smart_heart" where
  "read_info E s =
     (let h = heart_info_of s;
          (t, i) = INI_Get (signed_cast (- (2 ^ 63)) (2 ^ 63 - 1)) kKeyModifyTime (last_modify_time h) (sh_ini s);
          (c, i) = INI_Get (unsigned_cast (2 ^ 32 - 1)) kKeyCurHeart (uint (cur_heart h)) i;
          (f, i) = INI_Get (unsigned_cast (2 ^ 32 - 1)) kKeyFailHeartCount (uint (fail_heart_count h)) i;
          (b, i) = INI_Get bool_cast kKeyStable (is_stable h) i;
          (n, i) = INI_Get (signed_cast (- (2 ^ 31)) (2 ^ 31 - 1)) kKeyNetType (net_type_of h) i;
          c = (word_of_int c :: dword);
          c = (if c < MinHeartInterval then MinHeartInterval else c);
          c = (if c > MaxHeartInterval then MaxHeartInterval - SuccessStep else c);
          t = (if he_time E < t then he_time E else t)
      in s\<lparr> sh_ini := i, heart_info_of := h\<lparr> last_modify_time := t, cur_heart := c, fail_heart_count := word_of_int f,
              is_stable := b, net_type_of := n \<rparr> \<rparr>)"

definition LoadINI :: "heart_env \<Rightarrow> smart_heart \<Rightarrow> smart_heart" where
  "LoadINI E s =
     (if he_label E = [] then s\<lparr> heart_info_of := Clear \<rparr>
      else if he_label E = net_detail_of (heart_info_of s) then s
      else let s = s\<lparr> heart_info_of := Clear\<lparr> net_detail_of := he_label E, net_type_of := he_net_type E \<rparr> \<rparr>;
               (found, i) = INI_Select (he_section E (he_label E)) (sh_ini s)
           in if found then read_info E (s\<lparr> sh_ini := i \<rparr>)
              else let s = LimitINISize (he_time E) s;
                       (ret, i) = Special_Create E (he_label E) (sh_ini s)
                   in SaveINI (he_time E) (s\<lparr> sh_ini := i \<rparr>))"

section \<open>Operations\<close>

definition OnHeartbeatStart :: "smart_heart \<Rightarrow> smart_heart" where
  "OnHeartbeatStart s = (if IsMIUIStyle s then s else s\<lparr> is_wait_heart_response := True \<rparr>)"

definition OnLongLinkEstablished :: "heart_env \<Rightarrow> smart_heart \<Rightarrow> smart_heart" where
  "OnLongLinkEstablished E s = (LoadINI E s)\<lparr> success_heart_count := 0 \<rparr>"

text \<open>A good answer while the interval is settled: from time to time a longer one is tried.\<close>

definition probe_bigger :: "heart_env \<Rightarrow> smart_heart \<Rightarrow> smart_heart" where
  "probe_bigger E s =
     (let h = heart_info_of s in
      if success_heart_count s \<ge> NetStableTestCount then
        if cur_heart h \<ge> MaxHeartInterval - SuccessStep then s
        else if he_time E - last_modify_time h \<ge> ONE_DAY_SECONEDS \<and> he_wday E = 2
        then SaveINI (he_time E) (s\<lparr> heart_info_of := h\<lparr> cur_heart := cur_heart h + SuccessStep, success_curr_heart_count := 0,
               is_stable := False, fail_heart_count := 0 \<rparr> \<rparr>)
        else s
      else s)"

definition heart_succeeded :: "heart_info \<Rightarrow> heart_info" where
  "heart_succeeded h =
     (let h = h\<lparr> success_curr_heart_count := success_curr_heart_count h + 1 \<rparr>;
          h = (if cur_heart h \<ge> MaxHeartInterval
               then h\<lparr> cur_heart := MaxHeartInterval - SuccessStep, success_curr_heart_count := 0, is_stable := True \<rparr>
               else if success_curr_heart_count h \<ge> BaseSuccCount
               then let c = cur_heart h + HeartStep; c = (if c > MaxHeartInterval then MaxHeartInterval else c)
                    in h\<lparr> cur_heart := c, success_curr_heart_count := 0 \<rparr>
               else h)
      in h\<lparr> fail_heart_count := 0 \<rparr>)"

definition heart_failed :: "heart_info \<Rightarrow> heart_info" where
  "heart_failed h =
     (let h = h\<lparr> fail_heart_count := fail_heart_count h + 1 \<rparr> in
      if fail_heart_count h \<ge> MaxHeartFailCount
      then if is_stable h
           then h\<lparr> cur_heart := MinHeartInterval, success_curr_heart_count := 0, is_stable := False, fail_heart_count := 0 \<rparr>
           else h\<lparr> cur_heart := (if cur_heart h - HeartStep - SuccessStep > MinHeartInterval
                                 then cur_heart h - HeartStep - SuccessStep else MinHeartInterval),
                   success_curr_heart_count := 0, fail_heart_count := 0, is_stable := True \<rparr>
      else h)"

definition OnHeartResult :: "heart_env \<Rightarrow> bool \<Rightarrow> smart_heart \<Rightarrow> smart_heart" where
  "OnHeartResult E sucess s =
     (if IsMIUIStyle s then s
      else if net_detail_of (heart_info_of s) = [] then s
      else let s = s\<lparr> is_wait_heart_response := False \<rparr>;
               s = (if sucess then s\<lparr> success_heart_count := success_heart_count s + 1 \<rparr> else s)
           in if sucess \<and> is_stable (heart_info_of s) then probe_bigger E s
              else if last_heart s \<noteq> cur_heart (heart_info_of s) then s
              else if success_heart_count s < NetStableTestCount then s
              else if sucess then SaveINI (he_time E) (upd_info heart_succeeded s)
              else if last_heart s = MinHeartInterval then s
              else SaveINI (he_time E) (upd_info heart_failed s))"

definition OnLongLinkDisconnect :: "heart_env \<Rightarrow> smart_heart \<Rightarrow> smart_heart" where
  "OnLongLinkDisconnect E s =
     (if IsMIUIStyle s then s
      else let s = (if is_wait_heart_response s then OnHeartResult E False s else s)\<lparr> is_wait_heart_response := False \<rparr>
           in if \<not> is_stable (heart_info_of s) then s
              else (upd_info (\<lambda>h. h\<lparr> success_curr_heart_count := 0 \<rparr>) s)\<lparr> success_heart_count := 0, last_heart := MinHeartInterval \<rparr>)"

text \<open>\<open>tick\<close> is \<^verbatim>\<open>gettickcount()\<close>.\<close>

definition JudgeMIUIStyle :: "heart_env \<Rightarrow> qword \<Rightarrow> smart_heart \<Rightarrow> smart_heart" where
  "JudgeMIUIStyle E tick s =
     (if test_total_count s \<ge> MAX_JUDGE_TIMES then s
      else if last_alarm_tick s = 0 then s\<lparr> last_alarm_tick := tick \<rparr>
      else let span = tick - last_alarm_tick s; s = s\<lparr> last_alarm_tick := tick \<rparr> in
           if span < 10000 then s
           else let s = (if span mod 300000 \<le> 10000 \<or> 300000 - span mod 300000 \<le> 10000
                         then let s = s\<lparr> xiaomi_style_count := xiaomi_style_count s + 1 \<rparr>
                              in if \<not> is_stable (heart_info_of s) \<and> xiaomi_style_count s \<ge> 3
                                 then SaveINI (he_time E) (upd_info (\<lambda>h. h\<lparr> is_stable := True \<rparr>) s) else s
                         else s\<lparr> xiaomi_style_count := 0 \<rparr>)
                in s\<lparr> test_total_count := test_total_count s + 1 \<rparr>)"

text \<open>The interval, and whether it is the one that was searched for.\<close>

definition GetNextHeartbeatInterval :: "heart_env \<Rightarrow> smart_heart \<Rightarrow> dword \<times> bool \<times> smart_heart" where
  "GetNextHeartbeatInterval E s =
     (if he_active E \<or> success_heart_count s < NetStableTestCount \<or> net_detail_of (heart_info_of s) = [] \<or> IsMIUIStyle s
      then (MinHeartInterval, False, s\<lparr> last_heart := MinHeartInterval \<rparr>)
      else let heart = cur_heart (heart_info_of s);
               s = (if heart < MinHeartInterval \<or> heart > MaxHeartInterval
                    then SaveINI (he_time E) (upd_info (\<lambda>h. h\<lparr> cur_heart := MinHeartInterval, success_curr_heart_count := 0,
                           is_stable := False \<rparr>) s) else s);
               s = s\<lparr> last_heart := cur_heart (heart_info_of s) \<rparr>
           in (last_heart s, True, s))"

section \<open>How the long link uses it\<close>

text \<open>One heartbeat of the loop in \<^verbatim>\<open>longlink.cc\<close>. The alarm has gone off after \<open>pending\<close> milliseconds
  (a new connection sends the first one at once): the request goes out, the next interval is asked for at once, and
  only then the answer comes. The loop asks for the interval once more when the heartbeat is written; nothing has changed in between,
  so the second answer is the same and is not shown here (every other packet that is written asks, too, and starts the alarm
  anew: this is the heartbeat of a connection without other traffic). The search is compiled for Android only: on other
  systems there is no \<^verbatim>\<open>SmartHeartbeat\<close> and the interval is the minimum. \<open>alive\<close> says whether the network still carries a connection that was idle that long. If it
  does not, the connection ends and another is made.\<close>

definition noop_round :: "heart_env \<Rightarrow> qword \<Rightarrow> (dword \<Rightarrow> bool) \<Rightarrow> dword \<times> smart_heart \<Rightarrow> dword \<times> smart_heart" where
  "noop_round E tick alive x =
     (let (pending, s) = x;
          s = (if pending = 0 then s else JudgeMIUIStyle E tick s);
          s = OnHeartbeatStart s;
          (interval, use_smart, s) = GetNextHeartbeatInterval E s
      in if alive pending then (interval, OnHeartResult E True s)
         else (0, OnLongLinkEstablished E (OnLongLinkDisconnect E (OnHeartResult E False s))))"

primrec noop_rounds :: "(nat \<Rightarrow> heart_env) \<Rightarrow> (nat \<Rightarrow> qword) \<Rightarrow> (dword \<Rightarrow> bool) \<Rightarrow> nat \<Rightarrow> smart_heart \<Rightarrow> dword \<times> smart_heart" where
  "noop_rounds E tick alive 0 s = (0, OnLongLinkEstablished (E 0) s)"
| "noop_rounds E tick alive (Suc n) s = noop_round (E (Suc n)) (tick n) alive (noop_rounds E tick alive n s)"

end
