(* ===== verification/Ini_Laws.thy ===== *)
theory Ini_Laws imports Ini_File begin

text \<open>
  What \<open>Ini_File\<close> guarantees: numbers written are the usual decimals and are read back, the store returns what was
  put into it (locale \<open>keyed_store\<close>), and a saved file is parsed to the same store.
\<close>

section \<open>Numbers\<close>

lemma mapped_digits: "list_all (\<lambda>r. num_mapping ! nat (35 + r) = 48 + of_nat (nat \<bar>r\<bar>)) [-9..9]"
  by code_simp

lemma mapped_digit: "\<bar>r\<bar> < 10 \<Longrightarrow> num_mapping ! nat (35 + r) = 48 + of_nat (nat \<bar>r\<bar>)"
proof -
  assume "\<bar>r\<bar> < 10"
  then have "r \<in> set [-9..9]" by (simp only: set_upto atLeastAtMost_iff) linarith
  with mapped_digits show ?thesis unfolding list_all_iff by blast
qed

lemma sdiv_10: "\<bar>v sdiv 10\<bar> = \<bar>v\<bar> div (10 :: int)" "\<bar>v - v sdiv 10 * 10\<bar> = \<bar>v\<bar> mod (10 :: int)"
proof -
  show "\<bar>v sdiv 10\<bar> = \<bar>v\<bar> div 10" by (cases "v = 0") (auto simp: signed_divide_int_def abs_mult abs_sgn_eq)
  have "v - v sdiv 10 * 10 = sgn v * (\<bar>v\<bar> mod 10)"
    by (simp add: signed_divide_int_def minus_div_mult_eq_mod [symmetric] right_diff_distrib mult.assoc mult_sgn_abs)
  then show "\<bar>v - v sdiv 10 * 10\<bar> = \<bar>v\<bar> mod 10" by (cases "v = 0") (auto simp: abs_mult abs_sgn_eq)
qed

lemma itoa_loop_dec: "rev (itoa_loop 10 v) = dec_nat (nat \<bar>v\<bar>)"
proof (induction "nat \<bar>v\<bar>" arbitrary: v rule: less_induct)
  case less
  let ?q = "v sdiv 10"
  have c: "num_mapping ! nat (35 + v - ?q * 10) = 48 + of_nat (nat \<bar>v\<bar> mod 10)"
    using mapped_digit [of "v - ?q * 10"] by (simp add: sdiv_10 add_diff_eq nat_mod_distrib)
  have q: "nat \<bar>?q\<bar> = nat \<bar>v\<bar> div 10" by (simp add: sdiv_10 nat_div_distrib)
  show ?case
  proof (cases "?q = 0")
    case True
    then have "nat \<bar>v\<bar> < 10" using q by simp
    then show ?thesis using True c by (simp add: itoa_loop.simps [of 10 v] Let_def dec_nat.simps [of "nat \<bar>v\<bar>"])
  next
    case False
    then have n: "\<not> nat \<bar>v\<bar> < 10" using q by (metis abs_0_eq div_less nat_0_iff zero_less_abs_iff not_less)
    then have "rev (itoa_loop 10 ?q) = dec_nat (nat \<bar>v\<bar> div 10)" using less [of ?q] q by (simp add: div_less_dividend)
    then show ?thesis using False n c
      by (subst itoa_loop.simps) (simp add: Let_def dec_nat.simps [of "nat \<bar>v\<bar>"])
  qed
qed

text \<open>The digits taken from a table that is read from its middle in both directions are the usual decimals.\<close>

lemma string_cast_dec: "string_cast_itoa v 10 = dec_int v"
  by (simp add: string_cast_itoa_def dec_int_def itoa_loop_dec)

lemma dec_nat_hd: "0 < n \<Longrightarrow> hd (dec_nat n) \<noteq> 48"
proof (induction n rule: dec_nat.induct)
  case (1 n)
  show ?case
  proof (cases "n < 10")
    case True
    have "48 + of_nat n \<noteq> (48 :: byte)"
    proof
      assume e: "48 + of_nat n = (48 :: byte)"
      have "unat (48 + of_nat n :: byte) = 48 + n" using unat_byte_add [of 48 n] True by simp
      with e "1.prems" show False by simp
    qed
    then show ?thesis using True by (simp add: dec_nat.simps [of n])
  next
    case False
    then show ?thesis using "1.IH" dec_nat_read [of "n div 10"] by (simp add: dec_nat.simps [of n])
  qed
qed

lemma dec_nat_chars: "c \<in> set (dec_nat n) \<Longrightarrow> c \<noteq> 0 \<and> c \<noteq> 10 \<and> c \<noteq> 45 \<and> c \<noteq> 43 \<and> \<not> isspace c \<and> c \<noteq> 120 \<and> c \<noteq> 88"
  using dec_nat_digits [of c n] by (auto simp: isspace_def word_le_nat_alt)

lemma length_dec_int: "\<bar>v\<bar> < 10 ^ Suc k \<Longrightarrow> length (dec_int v) \<le> k + 2"
  using length_dec_nat [of "Suc k" "nat \<bar>v\<bar>"] by (cases "v < 0") (simp_all add: dec_int_def nat_less_iff)

lemma strto_dec: "strto_number (dec_int v) = Some (v < 0, nat \<bar>v\<bar>)"
proof -
  let ?s = "dec_nat (nat \<bar>v\<bar>)"
  obtain a t where s: "?s = a # t" using dec_nat_read [of "nat \<bar>v\<bar>"] by (cases ?s) auto
  have a: "a \<noteq> 45" "a \<noteq> 43" "\<not> isspace a" "a \<noteq> 0" using dec_nat_chars [of a "nat \<bar>v\<bar>"] s by auto
  have x: "120 \<notin> set ?s" "88 \<notin> set ?s" using dec_nat_chars by blast+
  then have h: "take 2 ?s \<noteq> [48, 120]" "take 2 ?s \<noteq> [48, 88]" by (metis in_set_takeD list.set_intros)+
  have "0 \<notin> set ?s" using dec_nat_chars by blast
  then have c: "c_str (dec_int v) = dec_int v" by (intro c_str_id) (auto simp: dec_int_def split: if_splits)
  have w: "dropWhile isspace (dec_int v) = dec_int v"
    using a(3) s by (auto simp: dec_int_def isspace_def)
  have r: "digits_from 10 ?s = nat \<bar>v\<bar>" "digit_value 10 a \<noteq> None" using dec_nat_read [of "nat \<bar>v\<bar>"] s by auto
  have z: "a = 48 \<Longrightarrow> v = 0" using dec_nat_hd [of "nat \<bar>v\<bar>"] s by (cases "v = 0") auto
  have o: "digits_from 8 (dec_nat 0) = 0" "digit_value 8 48 \<noteq> None" "hd (dec_nat 0) = 48"
    by (simp_all add: dec_nat.simps [of 0] digits_from_def digit_value_def)
  let ?neg = "dec_int v \<noteq> [] \<and> hd (dec_int v) = 45"
  have n: "?neg \<longleftrightarrow> v < 0" "(if dec_int v \<noteq> [] \<and> (hd (dec_int v) = 45 \<or> hd (dec_int v) = 43) then tl (dec_int v) else dec_int v) = ?s"
    using a s by (auto simp: dec_int_def)
  show ?thesis unfolding strto_number_def Let_def c w n
    using h s r z o by (cases "a = 48") auto
qed

lemma cast_back:
  "lo \<le> v \<Longrightarrow> v \<le> hi \<Longrightarrow> - (2 ^ 63) \<le> lo \<Longrightarrow> hi < 2 ^ 63 \<Longrightarrow> signed_cast lo hi (string_cast_itoa v 10) = Some v"
  "0 \<le> v \<Longrightarrow> v \<le> hi \<Longrightarrow> hi < 2 ^ 64 \<Longrightarrow> unsigned_cast hi (string_cast_itoa v 10) = Some v"
  by (auto simp: signed_cast_def unsigned_cast_def string_cast_dec strto_dec Let_def)

lemma bool_cast_back: "bool_cast (string_cast_bool b) = Some b"
proof (cases b)
  case True
  have "bool_cast (lit ''true'') = Some True" by code_simp
  then show ?thesis by (simp add: True string_cast_bool_def)
next
  case False
  have "bool_cast (lit ''false'') = Some False" by code_simp
  then show ?thesis by (simp add: False string_cast_bool_def)
qed

section \<open>Maps\<close>

definition keys_sorted :: "(bytes \<times> 'a) list \<Rightarrow> bool" where
  "keys_sorted ks \<longleftrightarrow> sorted_wrt bytes_less (map fst ks)"

lemma lookup_put [simp]: "map_of (map_put k v ks) = (map_of ks)(k \<mapsto> v)"
  by (induction ks) (auto simp: fun_eq_iff)

lemma fst_map_put: "fst ` set (map_put k v ks) = insert k (fst ` set ks)"
  by (induction k v ks rule: map_put.induct) (simp_all add: insert_commute)

lemma keys_sorted_put: "keys_sorted ks \<Longrightarrow> keys_sorted (map_put k v ks)"
  unfolding keys_sorted_def
proof (induction ks)
  case (Cons x ks)
  obtain a b where x: "x = (a, b)" by (cases x)
  have "set (map fst (map_put k v ks)) = insert k (fst ` set ks)" using fst_map_put [of k v ks] by (simp add: image_image)
  then show ?case using Cons bytes_less_total [of k a] by (auto simp: x intro: bytes_less_trans)
qed simp

lemma map_put_same: "keys_sorted ks \<Longrightarrow> map_of ks k = Some v \<Longrightarrow> map_put k v ks = ks"
proof (induction ks)
  case (Cons x ks)
  obtain a b where x: "x = (a, b)" by (cases x)
  have "k \<noteq> a \<Longrightarrow> bytes_less a k" using Cons.prems weak_map_of_SomeI map_of_SomeD [of ks k v]
    by (force simp: x keys_sorted_def)
  then show ?case using Cons bytes_less_irrefl bytes_less_trans [of a k a] by (auto simp: x keys_sorted_def)
qed simp

lemma map_put_end:
  assumes "\<forall>a \<in> fst ` set ks. bytes_less a k"
  shows "map_put k v ks = ks @ [(k, v)]" "map_put k v (ks @ [(k, w)]) = ks @ [(k, v)]" "map_of (ks @ [(k, w)]) k = Some w" "map_of ks k = None"
  using assms
proof (induction ks)
  case (Cons x ks)
  {
    case 1 with Cons show ?case by (cases x) (auto dest: bytes_less_trans)
  next
    case 2 with Cons show ?case by (cases x) (auto dest: bytes_less_trans)
  next
    case 3 with Cons show ?case by (cases x) auto
  next
    case 4 with Cons show ?case by (cases x) auto
  }
qed auto

section \<open>The store\<close>

locale keyed_store =
  fixes put :: "'k \<Rightarrow> 'v \<Rightarrow> 's \<Rightarrow> 's" and get :: "'s \<Rightarrow> 'k \<Rightarrow> 'v option" and good :: "'s \<Rightarrow> bool" and fits :: "'k \<Rightarrow> 'v \<Rightarrow> bool"
  assumes get_put: "good s \<Longrightarrow> fits k v \<Longrightarrow> get (put k v s) = (get s)(k \<mapsto> v)"
    and good_put: "good s \<Longrightarrow> good (put k v s)"
begin

lemma good_puts: "good s \<Longrightarrow> good (fold (\<lambda>(k, v). put k v) kvs s)"
  by (induction kvs arbitrary: s) (auto intro: good_put)

lemma get_puts: "good s \<Longrightarrow> \<forall>(k, v) \<in> set kvs. fits k v \<Longrightarrow> get (fold (\<lambda>(k, v). put k v) kvs s) = get s ++ map_of (rev kvs)"
proof (induction kvs arbitrary: s)
  case (Cons x kvs)
  then show ?case using good_put get_put by (cases x) (auto simp: fun_eq_iff map_add_def split: option.splits)
qed simp

end

definition ini_value :: "ini \<Rightarrow> bytes \<Rightarrow> bytes option" where
  "ini_value i = map_of (section_of (ini_currentsection i) (ini_sections i))"

definition value_fits :: "bytes \<Rightarrow> bytes \<Rightarrow> bool" where
  "value_fits k v \<longleftrightarrow> VerifyName k \<and> length k + length v + 1 \<le> BUFFER_SIZE"

interpretation st: keyed_store "\<lambda>k v i. snd (INI_Set k v i)" ini_value "\<lambda>i. VerifyName (ini_currentsection i)" value_fits
proof unfold_locales
  fix i :: ini and k v assume "VerifyName (ini_currentsection i)" "value_fits k v"
  then show "ini_value (snd (INI_Set k v i)) = (ini_value i)(k \<mapsto> v)"
    by (simp add: INI_Set_def Let_def value_fits_def ini_value_def section_of_def)
next
  fix i :: ini and k v assume "VerifyName (ini_currentsection i)"
  then show "VerifyName (ini_currentsection (snd (INI_Set k v i)))" by (simp add: INI_Set_def Let_def)
qed

lemma INI_Get_value:
  assumes "VerifyName (ini_currentsection i)" "VerifyName k"
  shows "fst (INI_Get cast k def i) = (case ini_value i k of None \<Rightarrow> def | Some s \<Rightarrow> if s = [] then def else (case cast s of None \<Rightarrow> def | Some v \<Rightarrow> v))"
    "ini_value (snd (INI_Get cast k def i)) = ini_value i" "ini_currentsection (snd (INI_Get cast k def i)) = ini_currentsection i"
  using assms by (simp_all add: INI_Get_def Let_def ini_value_def section_of_def)

section \<open>Saving and parsing\<close>

definition line_ok :: "bytes \<Rightarrow> bool" where
  "line_ok t \<longleftrightarrow> t \<noteq> [] \<and> 10 \<notin> set t \<and> 0 \<notin> set t"

lemma before_newline: "10 \<notin> set t \<Longrightarrow> takeWhile (\<lambda>c. c \<noteq> 10) (t :: bytes) = t"
  by (induction t) auto

lemma fgets_line:
  assumes "10 \<notin> set t" "length t < BUFFER_SIZE - 1"
  shows "fgets (t @ 10 # r) = t @ [10]"
proof -
  obtain m where m: "BUFFER_SIZE - 1 - length t = Suc m" using assms(2) by (metis Suc_diff_Suc)
  have "takeWhile (\<lambda>c. c \<noteq> 10) (t @ 10 # take m r) = t" using assms(1) before_newline by (subst takeWhile_append2) auto
  then show ?thesis using assms(2) m by (simp add: fgets_def Let_def)
qed

lemma fgets_full: "10 \<notin> set t \<Longrightarrow> length t = BUFFER_SIZE - 1 \<Longrightarrow> fgets (t @ r) = t"
  by (simp add: fgets_def Let_def before_newline)

text \<open>A line is read with its newline, or the newline is read as a line of its own, which changes nothing.\<close>

lemma parse_lines_line:
  assumes "line_ok t" "length t < BUFFER_SIZE"
  shows "parse_lines (t @ 10 # r) st = and_then (parse_line t st) (parse_lines r)"
proof -
  have c: "c_str (t @ [10]) = t @ [10]" "c_str t = t" "c_str [10] = [10]"
    using assms(1) by (auto simp: line_ok_def intro: c_str_id)
  have l: "last t \<noteq> 10" using assms(1) last_in_set by (fastforce simp: line_ok_def)
  have p: "take 2 (t @ [10]) = [47, 47] \<longleftrightarrow> take 2 t = [47, 47]"
    by (cases t; cases "tl t") auto
  have same: "parse_line (t @ [10]) st = parse_line t st"
    unfolding parse_line_def Let_def c p using assms(1) l by (cases st) (simp add: line_ok_def)
  show ?thesis
  proof (cases "length t < BUFFER_SIZE - 1")
    case True
    then show ?thesis using assms(1) fgets_line [of t r]
      by (subst parse_lines.simps) (simp add: line_ok_def same)
  next
    case False
    then have len: "length t = BUFFER_SIZE - 1" using assms(2) by simp
    have f: "fgets (t @ 10 # r) = t" using assms(1) fgets_full [OF _ len] by (simp add: line_ok_def)
    have n: "fgets (10 # r) = [10]" using fgets_line [of "[]" r] by (simp add: BUFFER_SIZE_def)
    have "parse_lines (10 # r) = parse_lines r"
    proof
      fix st show "parse_lines (10 # r) st = parse_lines r st"
        by (subst parse_lines.simps) (auto simp: n parse_line_def c Let_def split: prod.splits)
    qed
    then show ?thesis using assms(1) by (subst parse_lines.simps) (simp add: f line_ok_def)
  qed
qed

definition entry_ok :: "bytes \<times> bytes \<Rightarrow> bool" where
  "entry_ok kv \<longleftrightarrow> VerifyName (fst kv) \<and> 10 \<notin> set (snd kv) \<and> 0 \<notin> set (snd kv) \<and> length (fst kv) + length (snd kv) + 1 < BUFFER_SIZE"

definition section_ok :: "bytes \<times> keys_t \<Rightarrow> bool" where
  "section_ok x \<longleftrightarrow> VerifyName (fst x) \<and> length (fst x) \<le> 510 \<and> keys_sorted (snd x) \<and> (\<forall>kv \<in> set (snd x). entry_ok kv)"

definition store_ok :: "sections_t \<Rightarrow> bool" where
  "store_ok ss \<longleftrightarrow> keys_sorted ss \<and> (\<forall>x \<in> set ss. section_ok x)"

lemma name_chars: "VerifyName s \<Longrightarrow> c \<in> set s \<Longrightarrow> VerifyName [c] \<and> c \<noteq> 0 \<and> c \<noteq> 10 \<and> c \<noteq> 47 \<and> c \<noteq> 61 \<and> c \<noteq> 91 \<and> c \<noteq> 93"
  by (auto simp: VerifyName_def list_all_iff word_le_nat_alt)

lemma name_scan: "VerifyName s \<Longrightarrow> \<not> VerifyName [c] \<Longrightarrow> takeWhile (\<lambda>c. VerifyName [c]) (s @ c # r) = s"
  using name_chars by (subst takeWhile_append2) auto

lemma parse_section:
  assumes "VerifyName sec" "length sec \<le> 510"
  shows "parse_lines (makeSection sec @ r) (cur, ss) = parse_lines r (sec, map_put sec (section_of sec ss) ss)"
proof -
  let ?t = "91 # sec @ [93 :: byte]"
  have t: "line_ok ?t" using name_chars [OF assms(1)] by (auto simp: line_ok_def)
  then have c: "c_str ?t = ?t" by (intro c_str_id) (simp add: line_ok_def)
  have n: "sec \<noteq> []" "\<not> VerifyName [93]" using assms(1) by (auto simp: VerifyName_def)
  have s: "take 512 ?t = ?t" using assms(2) by simp
  have "take 2 ?t \<noteq> [47, 47]" by simp
  then have "parse_line ?t (cur, ss) = ok (sec, map_put sec (section_of sec ss) ss)"
    unfolding parse_line_def Let_def c by (simp del: take_Cons_numeral add: s name_scan [OF assms(1) n(2)] n(1))
  then show ?thesis using parse_lines_line [OF t, of r "(cur, ss)"] assms(2)
    by (simp add: makeSection_def BUFFER_SIZE_def)
qed

lemma parse_keyvalue:
  assumes "entry_ok (k, v)" "cur \<noteq> []"
  shows "parse_lines (makeKeyValue (k, v) @ r) (cur, ss) = parse_lines r (cur, map_put cur (map_put k v (section_of cur ss)) ss)"
proof -
  let ?t = "k @ 61 # v"
  have k: "VerifyName k" using assms(1) by (simp add: entry_ok_def)
  then obtain a k' where a: "k = a # k'" by (cases k) (auto simp: VerifyName_def)
  have t: "line_ok ?t" using name_chars [OF k] assms(1) by (auto simp: line_ok_def entry_ok_def)
  then have c: "c_str ?t = ?t" by (intro c_str_id) (simp add: line_ok_def)
  have n: "10 \<notin> set ?t" "?t \<noteq> []" using t by (simp_all add: line_ok_def)
  then have l: "last ?t \<noteq> 10" by (metis last_in_set)
  have "a \<noteq> 47 \<and> a \<noteq> 91" using name_chars [OF k, of a] a by simp
  then have h: "take 2 ?t \<noteq> [47, 47]" "hd ?t \<noteq> 91" by (simp_all add: a)
  have w: "takeWhile (\<lambda>c. c \<noteq> 61) ?t = k" "dropWhile (\<lambda>c. c \<noteq> 61) ?t = 61 # v"
    using name_chars [OF k] by (subst takeWhile_append2 dropWhile_append2; auto)+
  have "parse_line ?t (cur, ss) = ok (cur, map_put cur (map_put k v (section_of cur ss)) ss)"
    unfolding parse_line_def Let_def c using l h w k assms(2) by (simp del: take_Cons_numeral take_append last_append hd_append add: a)
  then show ?thesis using parse_lines_line [OF t, of r "(cur, ss)"] assms(1)
    by (simp add: makeKeyValue_def entry_ok_def)
qed

lemma parse_keys:
  assumes "\<forall>kv \<in> set ks. entry_ok kv" "cur \<noteq> []" "keys_sorted (pre @ ks)" "\<forall>a \<in> fst ` set ss. bytes_less a cur"
  shows "parse_lines (concat (map makeKeyValue ks) @ r) (cur, ss @ [(cur, pre)]) = parse_lines r (cur, ss @ [(cur, pre @ ks)])"
  using assms
proof (induction ks arbitrary: pre)
  case (Cons x ks)
  obtain k v where x: "x = (k, v)" by (cases x)
  have "\<forall>a \<in> fst ` set pre. bytes_less a k" using Cons.prems(3) by (auto simp: x keys_sorted_def sorted_wrt_append)
  then have "map_put k v pre = pre @ [(k, v)]" by (rule map_put_end)
  moreover note map_put_end(2,3) [OF Cons.prems(4)]
  moreover have "keys_sorted ((pre @ [(k, v)]) @ ks)" using Cons.prems(3) by (simp add: x)
  ultimately show ?case
    using Cons.IH [of "pre @ [(k, v)]"] Cons.prems parse_keyvalue [of k v cur]
    by (simp add: x section_of_def)
qed simp

lemma parse_saved:
  assumes "keys_sorted (ss @ ts)" "\<forall>x \<in> set ts. section_ok x"
  shows "\<exists>cur'. parse_lines (INI_Save (i\<lparr> ini_sections := ts \<rparr>)) (cur, ss) = ok (cur', ss @ filter (\<lambda>(_, ks). ks \<noteq> []) ts)"
  using assms
proof (induction ts arbitrary: ss cur)
  case Nil
  then show ?case by (simp add: INI_Save_def parse_lines.simps)
next
  case (Cons x ts)
  obtain sec ks where x: "x = (sec, ks)" by (cases x)
  show ?case
  proof (cases "ks = []")
    case True
    have "keys_sorted (ss @ ts)" using Cons.prems(1) by (auto simp: keys_sorted_def sorted_wrt_append)
    then show ?thesis using Cons.IH [of ss cur] Cons.prems(2) by (simp add: x True INI_Save_def)
  next
    case False
    have o: "VerifyName sec" "length sec \<le> 510" "keys_sorted ks" "\<forall>kv \<in> set ks. entry_ok kv"
      using Cons.prems(2) by (auto simp: x section_ok_def)
    then have ne: "sec \<noteq> []" by (auto simp: VerifyName_def)
    have below: "\<forall>a \<in> fst ` set ss. bytes_less a sec" using Cons.prems(1) by (auto simp: x keys_sorted_def sorted_wrt_append)
    let ?rest = "INI_Save (i\<lparr> ini_sections := ts \<rparr>)"
    have "INI_Save (i\<lparr> ini_sections := x # ts \<rparr>) = makeSection sec @ concat (map makeKeyValue ks) @ ?rest"
      using False by (simp add: INI_Save_def x)
    then have "parse_lines (INI_Save (i\<lparr> ini_sections := x # ts \<rparr>)) (cur, ss) = parse_lines ?rest (sec, ss @ [(sec, ks)])"
      using parse_section [OF o(1,2)] parse_keys [OF o(4) ne _ below, of "[]"] o(3) map_put_end(1,4) [OF below]
      by (simp add: section_of_def)
    then show ?thesis using Cons.IH [of "ss @ [(sec, ks)]" sec] Cons.prems False by (simp add: x)
  qed
qed

text \<open>A store that fits the format is parsed from its file as it was saved; sections without keys are not
  written. It fits when sections and keys have plain names, a line has at most 4095 bytes, and no value has a
  newline or a NUL.\<close>

theorem ini_roundtrip:
  assumes "store_ok (ini_sections i)"
  shows "INI_Parse (Some (INI_Save i)) INI = ok (True, INI\<lparr> ini_sections := filter (\<lambda>(_, ks). ks \<noteq> []) (ini_sections i) \<rparr>)"
  using parse_saved [of "[]" "ini_sections i" i "[]"] assms by (auto simp: INI_Parse_def INI_def store_ok_def)

definition sample_ini :: ini where
  "sample_ini = snd (INI_Set (lit ''curHeart'') (lit ''270000'') (snd (INI_Create (lit ''net'') INI)))"

theorem ini_roundtrip_witness: "INI_Parse (Some (INI_Save sample_ini)) INI = ok (True, INI\<lparr> ini_sections := ini_sections sample_ini \<rparr>)"
proof -
  have s: "ini_sections sample_ini = [(lit ''net'', [(lit ''curHeart'', lit ''270000'')])]" by code_simp
  have "store_ok (ini_sections sample_ini)" unfolding s by code_simp
  from ini_roundtrip [OF this] show ?thesis by (simp add: s)
qed

interpretation inif: codec "\<lambda>ss. INI_Save (INI\<lparr> ini_sections := ss \<rparr>)"
  "\<lambda>f. case INI_Parse (Some f) INI of Inl _ \<Rightarrow> None | Inr (_, i) \<Rightarrow> Some (ini_sections i)"
  "\<lambda>ss. store_ok ss \<and> (\<forall>x \<in> set ss. snd x \<noteq> [])"
proof
  fix ss :: sections_t assume ss: "store_ok ss \<and> (\<forall>x \<in> set ss. snd x \<noteq> [])"
  then have f: "filter (\<lambda>(_, ks). ks \<noteq> []) ss = ss" by (auto intro!: filter_True)
  from parse_saved [of "[]" ss INI "[]"] ss show "(case INI_Parse (Some (INI_Save (INI\<lparr> ini_sections := ss \<rparr>))) INI of
      Inl _ \<Rightarrow> None | Inr (_, i) \<Rightarrow> Some (ini_sections i)) = Some ss"
    by (auto simp: f INI_Parse_def INI_def store_ok_def)
qed

text \<open>\<^verbatim>\<open>Set\<close> admits one byte more than \<^verbatim>\<open>Parse\<close> can read: the last byte of the value is lost.\<close>

lemma longest_value_cut:
  assumes "VerifyName k" "line_ok v" "length k + length v + 1 = BUFFER_SIZE" "61 \<noteq> last v" "91 \<noteq> last v" "cur \<noteq> []" "butlast v \<noteq> []"
  shows "value_fits k v" "parse_lines (makeKeyValue (k, v) @ r) (cur, ss) = parse_lines (makeKeyValue (k, butlast v) @ r) (cur, ss)"
proof -
  show "value_fits k v" using assms(1,3) by (simp add: value_fits_def)
  obtain u c where v: "v = u @ [c]" using assms(2) by (cases v rule: rev_cases) (auto simp: line_ok_def)
  have u: "entry_ok (k, u)" using assms(1-3) by (auto simp: v entry_ok_def line_ok_def)
  have c: "line_ok [c]" "c \<noteq> 61" "c \<noteq> 91" using assms(2,4,5) by (auto simp: v line_ok_def)
  let ?t = "k @ 61 # u"
  have len: "10 \<notin> set ?t" "length ?t = BUFFER_SIZE - 1" using name_chars [OF assms(1)] u assms(3) by (auto simp: v entry_ok_def)
  have k: "k \<noteq> []" using assms(1) by (auto simp: VerifyName_def)
  have f: "fgets (?t @ x) = ?t" for x using fgets_full [OF len] .
  have t: "line_ok ?t" using name_chars [OF assms(1)] u k by (auto simp: line_ok_def entry_ok_def)
  have "c_str [c] = [c]" using c(1) by (intro c_str_id) (simp add: line_ok_def)
  then have p: "parse_line [c] = ok" using c by (auto simp: parse_line_def Let_def line_ok_def fun_eq_iff)
  have "parse_lines (makeKeyValue (k, v) @ r) (cur, ss) = and_then (parse_line ?t (cur, ss)) (parse_lines (c # 10 # r))"
    using f [of "c # 10 # r"] k by (subst parse_lines.simps) (simp add: makeKeyValue_def v)
  also have "parse_lines (c # 10 # r) = parse_lines r"
    using parse_lines_line [OF c(1), of r] p by (simp add: fun_eq_iff BUFFER_SIZE_def)
  also have "and_then (parse_line ?t (cur, ss)) (parse_lines r) = parse_lines (makeKeyValue (k, u) @ r) (cur, ss)"
    using parse_lines_line [OF t, of r "(cur, ss)"] len by (simp add: makeKeyValue_def BUFFER_SIZE_def)
  finally show "parse_lines (makeKeyValue (k, v) @ r) (cur, ss) = parse_lines (makeKeyValue (k, butlast v) @ r) (cur, ss)"
    by (simp add: v)
qed

lemma store_ok_put:
  assumes "store_ok ss" "VerifyName sec" "length sec \<le> 510" "entry_ok (k, v)"
  shows "store_ok (map_put sec (map_put k v (section_of sec ss)) ss)"
proof -
  have sub: "set (map_put a b xs) \<subseteq> insert (a, b) (set xs)" for a and b :: 'x and xs :: "(bytes \<times> 'x) list"
    by (induction a b xs rule: map_put.induct) auto
  have "section_ok (sec, section_of sec ss)"
  proof (cases "map_of ss sec")
    case None
    then show ?thesis using assms(2,3) by (simp add: section_of_def section_ok_def keys_sorted_def)
  next
    case (Some ks)
    then have "section_ok (sec, ks)" using assms(1) map_of_SomeD by (fastforce simp: store_ok_def)
    with Some show ?thesis by (simp add: section_of_def)
  qed
  then have "section_ok (sec, map_put k v (section_of sec ss))"
    using keys_sorted_put [of "section_of sec ss" k v] sub [of k v "section_of sec ss"] assms(4) by (auto simp: section_ok_def)
  then show ?thesis
    using assms(1) keys_sorted_put [of ss] sub [of sec _ ss] unfolding store_ok_def by blast
qed

lemma INI_Set_ok:
  assumes "store_ok (ini_sections i)" "length (ini_currentsection i) \<le> 510" "entry_ok (k, v)"
  shows "store_ok (ini_sections (snd (INI_Set k v i)))"
  using assms store_ok_put by (simp add: INI_Set_def Let_def)

end
