(* ===== verification/Heartbeat_Laws.thy ===== *)
theory Heartbeat_Laws imports Smart_Heartbeat Ini_Laws begin

text \<open>
  What the search for the heartbeat interval does: the interval never leaves its range, the file always holds what is
  in use, and the search as the long link drives it overshoots: it settles on the longest interval on networks that do
  not carry it. Asked for the next interval after the answer, it would settle on one that the network carries.
\<close>

section \<open>Saving changes only the file and the time\<close>

lemma SaveINI_simps [simp]:
  "is_wait_heart_response (SaveINI now s) = is_wait_heart_response s" "xiaomi_style_count (SaveINI now s) = xiaomi_style_count s"
  "success_heart_count (SaveINI now s) = success_heart_count s" "last_heart (SaveINI now s) = last_heart s"
  "heart_info_of (SaveINI now s) = (heart_info_of s)\<lparr> last_modify_time := now \<rparr>"
  "test_total_count (SaveINI now s) = test_total_count s" "last_alarm_tick (SaveINI now s) = last_alarm_tick s"
  by (simp_all add: SaveINI_def Let_def)

lemmas heart_consts = MinHeartInterval_def MaxHeartInterval_def HeartStep_def SuccessStep_def MaxHeartFailCount_def
  BaseSuccCount_def NetStableTestCount_def

section \<open>The range\<close>

datatype heart_event = HeartStart | Established heart_env | Disconnected heart_env | Answered heart_env bool
  | Judged heart_env qword | Asked heart_env

fun heart_step :: "smart_heart \<Rightarrow> heart_event \<Rightarrow> smart_heart" where
  "heart_step s HeartStart = OnHeartbeatStart s"
| "heart_step s (Established E) = OnLongLinkEstablished E s"
| "heart_step s (Disconnected E) = OnLongLinkDisconnect E s"
| "heart_step s (Answered E b) = OnHeartResult E b s"
| "heart_step s (Judged E tick) = JudgeMIUIStyle E tick s"
| "heart_step s (Asked E) = snd (snd (GetNextHeartbeatInterval E s))"

definition in_range :: "dword \<Rightarrow> bool" where
  "in_range c \<longleftrightarrow> MinHeartInterval \<le> c \<and> c \<le> MaxHeartInterval"

lemma in_range_nat: "in_range c \<longleftrightarrow> 270000 \<le> unat c \<and> unat c \<le> 590000"
  by (simp add: in_range_def heart_consts word_le_nat_alt)

lemma range_consts [simp]: "in_range MinHeartInterval" "in_range MaxHeartInterval" "in_range (MaxHeartInterval - SuccessStep)"
  by (simp_all add: in_range_def heart_consts)

lemma range_moves:
  assumes "in_range c"
  shows "in_range (if c + HeartStep > MaxHeartInterval then MaxHeartInterval else c + HeartStep)"
    "\<not> MaxHeartInterval - SuccessStep \<le> c \<Longrightarrow> in_range (c + SuccessStep)"
    "in_range (if c - HeartStep - SuccessStep > MinHeartInterval then c - HeartStep - SuccessStep else MinHeartInterval)"
proof -
  have u: "unat (c + HeartStep) = unat c + 60000" "unat (c + SuccessStep) = unat c + 20000"
    "unat (c - HeartStep - SuccessStep) = unat c - 80000"
    using assms by (simp_all add: in_range_nat heart_consts unat_word_ariths unat_sub_if_size word_size)
  show "in_range (if c + HeartStep > MaxHeartInterval then MaxHeartInterval else c + HeartStep)"
    using assms u(1) by (auto simp: in_range_nat word_less_nat_alt not_less) (simp_all add: heart_consts)
  show "\<not> MaxHeartInterval - SuccessStep \<le> c \<Longrightarrow> in_range (c + SuccessStep)"
    using assms u(2) by (simp add: in_range_nat word_le_nat_alt heart_consts)
  show "in_range (if c - HeartStep - SuccessStep > MinHeartInterval then c - HeartStep - SuccessStep else MinHeartInterval)"
    using assms u(3) by (auto simp: in_range_nat word_less_nat_alt heart_consts)
qed

definition heart_inv :: "smart_heart \<Rightarrow> bool" where
  "heart_inv s \<longleftrightarrow> in_range (cur_heart (heart_info_of s)) \<and> in_range (last_heart s)"

lemma heart_inv_frame:
  "heart_inv (SaveINI now s) = heart_inv s" "heart_inv (s\<lparr> is_wait_heart_response := b \<rparr>) = heart_inv s"
  "heart_inv (s\<lparr> success_heart_count := n \<rparr>) = heart_inv s" "heart_inv (s\<lparr> xiaomi_style_count := n \<rparr>) = heart_inv s"
  "heart_inv (s\<lparr> test_total_count := k \<rparr>) = heart_inv s" "heart_inv (s\<lparr> last_alarm_tick := t \<rparr>) = heart_inv s"
  "heart_inv (s\<lparr> sh_ini := i \<rparr>) = heart_inv s"
  by (simp_all add: heart_inv_def)

lemma range_succeeded: "in_range (cur_heart h) \<Longrightarrow> in_range (cur_heart (heart_succeeded h))"
  using range_moves(1) [of "cur_heart h"] by (auto simp: heart_succeeded_def Let_def)

lemma range_failed: "in_range (cur_heart h) \<Longrightarrow> in_range (cur_heart (heart_failed h))"
  using range_moves(3) [of "cur_heart h"] by (auto simp: heart_failed_def Let_def)

lemma not_outside: "\<not> c < MinHeartInterval \<Longrightarrow> \<not> MaxHeartInterval < c \<Longrightarrow> in_range c"
  by (simp add: in_range_def not_less)

lemma read_info_last [simp]: "last_heart (read_info E s) = last_heart s"
  by (simp add: read_info_def Let_def split: prod.split)

lemma read_info_range: "in_range (cur_heart (heart_info_of (read_info E s)))"
  by (simp add: read_info_def Let_def not_outside split: prod.split)

lemma LimitINISize_frame [simp]:
  "heart_info_of (LimitINISize now s) = heart_info_of s" "last_heart (LimitINISize now s) = last_heart s"
  by (simp_all add: LimitINISize_def Let_def split: prod.split)

lemma range_loaded: "heart_inv s \<Longrightarrow> heart_inv (LoadINI E s)"
  by (simp add: LoadINI_def heart_inv_def Let_def Clear_def read_info_range split: prod.split)

lemma result_inv: "heart_inv s \<Longrightarrow> heart_inv (OnHeartResult E b s)"
  using range_succeeded range_failed range_moves(2)
  by (auto simp: OnHeartResult_def probe_bigger_def Let_def heart_inv_def)

lemma next_inv: "heart_inv s \<Longrightarrow> GetNextHeartbeatInterval E s =
    (let c = (if he_active E \<or> success_heart_count s < NetStableTestCount \<or> net_detail_of (heart_info_of s) = [] \<or> IsMIUIStyle s
              then MinHeartInterval else cur_heart (heart_info_of s))
     in (c, \<not> (he_active E \<or> success_heart_count s < NetStableTestCount \<or> net_detail_of (heart_info_of s) = [] \<or> IsMIUIStyle s),
         s\<lparr> last_heart := c \<rparr>))"
  by (auto simp: GetNextHeartbeatInterval_def Let_def heart_inv_def in_range_def not_less)

interpretation heart: machine heart_step heart_inv
proof
  fix s e assume inv: "heart_inv s"
  show "heart_inv (heart_step s e)"
  proof (cases e)
    case (Disconnected E)
    then show ?thesis using inv result_inv [OF inv, of E False]
      by (auto simp: OnLongLinkDisconnect_def Let_def heart_inv_def)
  next
    case (Judged E tick)
    then show ?thesis using inv by (auto simp: JudgeMIUIStyle_def Let_def heart_inv_def)
  next
    case (Asked E)
    then show ?thesis using inv next_inv [OF inv, of E] by (auto simp: Let_def heart_inv_def)
  qed (use inv in \<open>auto simp: OnHeartbeatStart_def OnLongLinkEstablished_def heart_inv_frame intro: range_loaded result_inv\<close>)
qed

lemma heart_inv_start: "SmartHeartbeat file = ok s \<Longrightarrow> heart_inv s"
  by (auto simp: SmartHeartbeat_def and_then_ok_iff heart_inv_def Clear_def)

text \<open>C17: Whatever was read from the file and in whatever order connections, heartbeats, answers and alarms come, the interval is
  never shorter than four and a half minutes or longer than nine minutes fifty: the assertion in
  \<^verbatim>\<open>GetNextHeartbeatInterval\<close> never fails, and the interval it gives is the searched one exactly in the background on a known
  network after three answers when the system has not been found to align its alarms.\<close>

theorem heart_in_range:
  "case SmartHeartbeat file of Inl _ \<Rightarrow> True
   | Inr s0 \<Rightarrow> (let s = run_events heart_step s0 es; (interval, smart, s') = GetNextHeartbeatInterval E s in
       MinHeartInterval \<le> interval \<and> interval \<le> MaxHeartInterval
       \<and> interval = (if smart then cur_heart (heart_info_of s) else MinHeartInterval) \<and> s' = s\<lparr> last_heart := interval \<rparr>
       \<and> (smart \<longleftrightarrow> \<not> he_active E \<and> NetStableTestCount \<le> success_heart_count s \<and> net_detail_of (heart_info_of s) \<noteq> [] \<and> \<not> IsMIUIStyle s))"
proof (cases "SmartHeartbeat file")
  case (Inr s0)
  let ?s = "run_events heart_step s0 es"
  have "heart_inv ?s" by (rule heart.run_inv [OF heart_inv_start [OF Inr]])
  from next_inv [OF this, of E] this show ?thesis
    by (auto simp: Inr Let_def heart_inv_def in_range_def not_less heart_consts)
qed simp

section \<open>The search\<close>

text \<open>What the search depends on: two counters and the interval's part of \<^verbatim>\<open>NetHeartbeatInfo\<close>.\<close>

definition bare :: "heart_info \<Rightarrow> heart_info" where
  "bare h = h\<lparr> net_detail_of := [], net_type_of := 0, last_modify_time := 0 \<rparr>"

type_synonym heart_core = "dword \<times> dword \<times> heart_info"

definition core :: "smart_heart \<Rightarrow> heart_core" where
  "core s = (success_heart_count s, last_heart s, bare (heart_info_of s))"

text \<open>Nothing but the answers changes the state: the network stays the same, the application is in the background, and the
  ten alarms that \<^verbatim>\<open>JudgeMIUIStyle\<close> looks at are over.\<close>

definition quiet_heart :: "bytes \<Rightarrow> smart_heart \<Rightarrow> bool" where
  "quiet_heart label s \<longleftrightarrow> label \<noteq> [] \<and> net_detail_of (heart_info_of s) = label \<and> \<not> IsMIUIStyle s \<and> MAX_JUDGE_TIMES \<le> test_total_count s"

text \<open>A network that carries idle times up to \<open>a\<close> and none from \<open>b\<close> on. The round is defined where the answer does not
  depend on more than that, and where no longer interval is tried out.\<close>

definition core_round :: "dword \<Rightarrow> dword \<Rightarrow> dword \<times> heart_core \<Rightarrow> (dword \<times> heart_core) option" where
  "core_round a b x =
     (let (pending, n, last, h) = x; last = (if n < NetStableTestCount then MinHeartInterval else cur_heart h);
          found = (last = cur_heart h)
      in if pending \<le> a then
           let n = n + 1 in
           if is_stable h then (if n \<ge> NetStableTestCount \<and> cur_heart h < MaxHeartInterval - SuccessStep then None else Some (last, n, last, h))
           else Some (last, n, last, if found \<and> n \<ge> NetStableTestCount then heart_succeeded h else h)
         else if b \<le> pending then
           let h = (if found \<and> n \<ge> NetStableTestCount \<and> last \<noteq> MinHeartInterval then heart_failed h else h)
           in Some (0, 0, if is_stable h then (MinHeartInterval, h\<lparr> success_curr_heart_count := 0 \<rparr>) else (last, h))
         else None)"

primrec core_run :: "dword \<Rightarrow> dword \<Rightarrow> nat \<Rightarrow> dword \<times> heart_core \<Rightarrow> (dword \<times> heart_core) option" where
  "core_run a b 0 x = Some x"
| "core_run a b (Suc n) x = Option.bind (core_round a b x) (core_run a b n)"

definition core1 :: "dword \<times> heart_core" where
  "core1 = (MinHeartInterval, 1, MinHeartInterval, bare Clear)"

lemma bare_simps [simp]:
  "cur_heart (bare h) = cur_heart h" "is_stable (bare h) = is_stable h"
  "bare (h\<lparr> last_modify_time := t \<rparr>) = bare h" "bare (h\<lparr> net_detail_of := l, net_type_of := k \<rparr>) = bare h"
  "bare (h\<lparr> success_curr_heart_count := n \<rparr>) = (bare h)\<lparr> success_curr_heart_count := n \<rparr>"
  "bare (heart_succeeded h) = heart_succeeded (bare h)" "bare (heart_failed h) = heart_failed (bare h)"
  "net_detail_of (heart_succeeded h) = net_detail_of h" "net_detail_of (heart_failed h) = net_detail_of h"
  by (simp_all add: bare_def heart_succeeded_def heart_failed_def Let_def)

definition tracks_core :: "bytes \<Rightarrow> dword \<times> smart_heart \<Rightarrow> dword \<times> heart_core \<Rightarrow> bool" where
  "tracks_core label x c \<longleftrightarrow> quiet_heart label (snd x) \<and> heart_inv (snd x) \<and> fst x = fst c \<and> core (snd x) = snd c"

lemma judged_quiet: "quiet_heart label s \<Longrightarrow> JudgeMIUIStyle E tick s = s"
  by (simp add: JudgeMIUIStyle_def quiet_heart_def)

lemma asked_quiet:
  assumes "quiet_heart (he_label E) s" "heart_inv s" "\<not> he_active E"
  shows "GetNextHeartbeatInterval E (OnHeartbeatStart s) =
    (let c = (if success_heart_count s < NetStableTestCount then MinHeartInterval else cur_heart (heart_info_of s))
     in (c, \<not> success_heart_count s < NetStableTestCount, s\<lparr> is_wait_heart_response := True, last_heart := c \<rparr>))"
  using assms by (subst next_inv) (auto simp: OnHeartbeatStart_def quiet_heart_def IsMIUIStyle_def heart_inv_def Let_def)

lemma good_answer:
  assumes "quiet_heart label s" "\<not> (is_stable (heart_info_of s) \<and> NetStableTestCount \<le> success_heart_count s + 1 \<and> cur_heart (heart_info_of s) < MaxHeartInterval - SuccessStep)"
  shows "quiet_heart label (OnHeartResult E True s)" "core (OnHeartResult E True s) =
     (success_heart_count s + 1, last_heart s,
      if \<not> is_stable (heart_info_of s) \<and> last_heart s = cur_heart (heart_info_of s) \<and> NetStableTestCount \<le> success_heart_count s + 1
      then heart_succeeded (bare (heart_info_of s)) else bare (heart_info_of s))"
  using assms
  by (auto simp: OnHeartResult_def probe_bigger_def quiet_heart_def core_def IsMIUIStyle_def Let_def not_less not_le)

lemma bad_answer:
  assumes "quiet_heart label s"
  shows "quiet_heart label (OnHeartResult E False s)" "\<not> is_wait_heart_response (OnHeartResult E False s)"
    "core (OnHeartResult E False s) = (success_heart_count s, last_heart s,
      if last_heart s = cur_heart (heart_info_of s) \<and> NetStableTestCount \<le> success_heart_count s \<and> last_heart s \<noteq> MinHeartInterval
      then heart_failed (bare (heart_info_of s)) else bare (heart_info_of s))"
  using assms by (auto simp: OnHeartResult_def quiet_heart_def core_def IsMIUIStyle_def Let_def not_less not_le)

lemma connected_again:
  assumes "quiet_heart (he_label E) s" "\<not> is_wait_heart_response s" "core s = (n, l, h)"
  shows "quiet_heart (he_label E) (OnLongLinkEstablished E (OnLongLinkDisconnect E s))"
    "core (OnLongLinkEstablished E (OnLongLinkDisconnect E s)) =
      (0, if is_stable h then (MinHeartInterval, h\<lparr> success_curr_heart_count := 0 \<rparr>) else (l, h))"
  using assms by (auto simp: OnLongLinkDisconnect_def OnLongLinkEstablished_def LoadINI_def quiet_heart_def core_def IsMIUIStyle_def Let_def)

lemmas no_answer = connected_again [OF bad_answer]

lemma quiet_asked [simp]: "quiet_heart label (s\<lparr> is_wait_heart_response := b, last_heart := c \<rparr>) = quiet_heart label s"
  by (simp add: quiet_heart_def IsMIUIStyle_def)

text \<open>A round is a sequence of the operations.\<close>

lemma round_events:
  "snd (noop_round E tick alive x) = run_events heart_step (snd x)
     ((if fst x = 0 then [] else [Judged E tick]) @ [HeartStart, Asked E, Answered E (alive (fst x))] @
      (if alive (fst x) then [] else [Disconnected E, Established E]))"
  by (simp add: noop_round_def Let_def split: prod.split)

lemma round_inv: "heart_inv (snd x) \<Longrightarrow> heart_inv (snd (noop_round E tick alive x))"
  unfolding round_events by (rule heart.run_inv)

lemma tracks_round:
  assumes "tracks_core (he_label E) x c" "\<not> he_active E" "\<And>p. p \<le> a \<Longrightarrow> alive p" "\<And>p. b \<le> p \<Longrightarrow> \<not> alive p" "core_round a b c = Some c'"
  shows "tracks_core (he_label E) (noop_round E tick alive x) c'"
proof -
  obtain p s where x: "x = (p, s)" by force
  obtain n l h where c: "c = (p, n, l, h)" and core: "core s = (n, l, h)"
    using assms(1) by (cases c) (auto simp: tracks_core_def x)
  have q: "quiet_heart (he_label E) s" and inv: "heart_inv s" using assms(1) by (simp_all add: tracks_core_def x)
  let ?c = "if n < NetStableTestCount then MinHeartInterval else cur_heart h"
  let ?s = "s\<lparr> is_wait_heart_response := True, last_heart := ?c \<rparr>"
  have core': "n = success_heart_count s" "h = bare (heart_info_of s)" using core by (simp_all add: core_def)
  have r: "noop_round E tick alive x = (if alive p then (?c, OnHeartResult E True ?s)
      else (0, OnLongLinkEstablished E (OnLongLinkDisconnect E (OnHeartResult E False ?s))))"
    using asked_quiet [OF q inv assms(2)] judged_quiet [OF q, of E tick]
    by (simp add: noop_round_def x Let_def core')
  have q': "quiet_heart (he_label E) ?s" using q by simp
  have t: "heart_inv (snd (noop_round E tick alive x))" using inv by (intro round_inv) (simp add: x)
  show ?thesis
  proof (cases "p \<le> a")
    case True
    then show ?thesis using assms(3, 5) good_answer [OF q'] t
      by (auto simp: r tracks_core_def c core' core_round_def Let_def split: if_splits)
  next
    case False
    then have b: "b \<le> p" using assms(5) by (simp add: c core_round_def Let_def split: if_splits)
    from no_answer [OF q' q' q'] False b assms(4) [OF b] assms(5) t show ?thesis
      by (auto simp: r tracks_core_def c core' core_round_def Let_def)
  qed
qed

text \<open>The ladder: from the first interval back to the first interval, past one of nine minutes thirty. What the network
  carries matters only up to the steps of the ladder that it lies between.\<close>

definition climbs :: "dword \<Rightarrow> dword \<Rightarrow> nat \<Rightarrow> bool" where
  "climbs a b n \<longleftrightarrow>
     (case core_run a b n core1 of None \<Rightarrow> False | Some y \<Rightarrow> fst y = 570000 \<and> core_run a b 2 y = Some core1)"

lemma ladder:
  "climbs 270000 330000 90"
  "climbs 330000 390000 78"
  "climbs 390000 450000 66"
  "climbs 450000 510000 54"
  "climbs 510000 570000 42"
  by code_simp+

lemma core_run_add: "core_run a b (m + n) x = Option.bind (core_run a b m x) (core_run a b n)"
  by (induction m arbitrary: x) (simp_all split: bind_split)

lemma climbs_again:
  assumes "climbs a b n"
  shows "core_run a b (m * (n + 2)) core1 = Some core1" "\<exists>y. core_run a b (m * (n + 2) + n) core1 = Some (570000, y)"
proof -
  obtain y where y: "core_run a b n core1 = Some (570000, y)" "core_run a b 2 (570000, y) = Some core1"
    using assms by (auto simp: climbs_def split: option.splits prod.splits)
  have once: "core_run a b (n + 2) core1 = Some core1" by (simp only: core_run_add y Option.bind.bind_lunit)
  show m: "core_run a b (m * (n + 2)) core1 = Some core1"
    by (induction m) (simp_all only: mult_Suc mult_0 core_run_add [of a b "n + 2"] once Option.bind.bind_lunit core_run.simps(1))
  show "\<exists>y. core_run a b (m * (n + 2) + n) core1 = Some (570000, y)"
    by (simp only: core_run_add [of _ _ "m * (n + 2)"] m Option.bind.bind_lunit) (use y(1) in blast)
qed

lemma tracks_rounds:
  assumes "tracks_core label (noop_rounds E tick alive m s) c" "\<And>k. he_label (E k) = label \<and> \<not> he_active (E k)"
    and "\<And>p. p \<le> a \<Longrightarrow> alive p" "\<And>p. b \<le> p \<Longrightarrow> \<not> alive p" "core_run a b n c = Some c'"
  shows "tracks_core label (noop_rounds E tick alive (m + n) s) c'"
  using assms(1, 5)
proof (induction n arbitrary: m c)
  case (Suc n)
  then obtain d where d: "core_round a b c = Some d" "core_run a b n d = Some c'" by (auto split: bind_splits)
  have "tracks_core label (noop_rounds E tick alive (Suc m) s) d"
    using tracks_round [of "E (Suc m)" _ c a alive b d "tick m"] Suc.prems(1) d(1) assms(2-4) by simp
  from Suc.IH [OF this d(2)] show ?case by simp
qed simp

lemma first_round: "core_round a b (0, 0, l, bare Clear) = Some core1"
  by (simp add: core_round_def core1_def bare_def Clear_def heart_consts word_le_nat_alt Let_def)

lemma new_network:
  assumes "heart_inv s" "\<not> IsMIUIStyle s" "MAX_JUDGE_TIMES \<le> test_total_count s" "he_label E \<noteq> []"
    and "net_detail_of (heart_info_of s) \<noteq> he_label E" "\<not> fst (INI_Select (he_section E (he_label E)) (sh_ini s))"
  shows "tracks_core (he_label E) (0, OnLongLinkEstablished E s) (0, 0, last_heart s, bare Clear)"
  using assms range_loaded [OF assms(1), of E]
  by (auto simp: tracks_core_def OnLongLinkEstablished_def LoadINI_def quiet_heart_def core_def IsMIUIStyle_def LimitINISize_def heart_inv_frame
      Let_def split: prod.splits)

text \<open>C40: On a network that carries idle times of \<open>L\<close> milliseconds, four and a half minutes or more but less than nine and a half,
  that the file does not know, with the application always in the background, with the alarms judged (ten of them) and not found
  aligned, and with no traffic but the heartbeats, the search never comes to rest below what the network carries: however long it has gone on, there is a later round in which
  the connection is left idle for nine and a half minutes, and lost. The next interval is asked for before the
  answer arrives, so the answers to the first short heartbeats after each loss are booked on the interval being tried: it is taken as
  carried, and the next step of the ladder is tried.\<close>

theorem heart_search_never_ends:
  assumes "heart_inv s" "\<not> IsMIUIStyle s" "MAX_JUDGE_TIMES \<le> test_total_count s"
    and "\<And>k. he_label (E k) = label \<and> \<not> he_active (E k)" "label \<noteq> []" "net_detail_of (heart_info_of s) \<noteq> label"
    and "\<not> fst (INI_Select (he_section (E 0) label) (sh_ini s))" "270000 \<le> L" "L < 570000"
  shows "\<exists>k\<ge>n. fst (noop_rounds E tick (\<lambda>p. unat p \<le> L) k s) = 570000"
proof -
  obtain a b :: dword and m where ab: "unat a \<le> L" "L < unat b" "climbs a b m"
  proof -
    from assms(8, 9) that [OF _ _ ladder(1)] that [OF _ _ ladder(2)] that [OF _ _ ladder(3)] that [OF _ _ ladder(4)] that [OF _ _ ladder(5)]
    show ?thesis by (cases "L < 330000"; cases "L < 390000"; cases "L < 450000"; cases "L < 510000"; simp)
  qed
  have alive: "\<And>p. p \<le> a \<Longrightarrow> unat p \<le> L" "\<And>p. b \<le> p \<Longrightarrow> \<not> unat p \<le> L" using ab(1, 2) by (auto simp: word_le_nat_alt)
  let ?r = "\<lambda>k. noop_rounds E tick (\<lambda>p. unat p \<le> L) k s"
  have "tracks_core label (?r 0) (0, 0, last_heart s, bare Clear)" using new_network [of s "E 0"] assms by simp
  note tracks_rounds [OF this assms(4) alive]
  from this [where n = 1] have 1: "tracks_core label (?r 1) core1" by (simp add: first_round)
  obtain y where "core_run a b (n * (m + 2) + m) core1 = Some (570000, y)" using climbs_again(2) [OF ab(3)] by blast
  from tracks_rounds [OF 1 assms(4) alive this] have "fst (?r (1 + (n * (m + 2) + m))) = 570000" by (simp add: tracks_core_def)
  then show ?thesis by (intro exI [of _ "1 + (n * (m + 2) + m)"]) simp
qed

text \<open>A network that carries five minutes.\<close>

lemma heart_search_never_ends_witness:
  "\<exists>k\<ge>40. fst (noop_rounds (\<lambda>_. \<lparr> he_time = 0, he_wday = 0, he_active = False, he_label = lit ''wifi'', he_net_type = 1, he_section = id \<rparr>)
       (\<lambda>_. 0) (\<lambda>p. unat p \<le> 300000) k
       \<lparr> is_wait_heart_response = False, xiaomi_style_count = 0, success_heart_count = 0, last_heart = MinHeartInterval,
         heart_info_of = Clear, sh_ini = INI, sh_file = None, test_total_count = 10, last_alarm_tick = 0 \<rparr>) = 570000"
  by (rule heart_search_never_ends [where label = "lit ''wifi''"])
    (simp_all add: heart_inv_def IsMIUIStyle_def MAX_JUDGE_TIMES_def Clear_def INI_Select_def INI_def lit_def)

end
