(* ===== verification/Heartbeat_File.thy ===== *)
theory Heartbeat_File imports Heartbeat_Laws begin

text \<open>
  What the search has learned survives restarts: the file always says what is in use, and the sections of other networks
  stay as they are.
\<close>

section \<open>The values of a section\<close>

definition got :: "(bytes \<Rightarrow> 'v option) \<Rightarrow> bytes \<Rightarrow> 'v \<Rightarrow> (bytes \<Rightarrow> bytes option) \<Rightarrow> 'v" where
  "got cast k d m = (case m k of None \<Rightarrow> d | Some s \<Rightarrow> if s = [] then d else (case cast s of None \<Rightarrow> d | Some v \<Rightarrow> v))"

definition clip :: "dword \<Rightarrow> dword" where
  "clip c = (let c = if c < MinHeartInterval then MinHeartInterval else c in if c > MaxHeartInterval then MaxHeartInterval - SuccessStep else c)"

definition learned :: "(bytes \<Rightarrow> bytes option) \<Rightarrow> dword \<times> dword \<times> bool" where
  "learned m = (clip (word_of_int (got (unsigned_cast (2 ^ 32 - 1)) kKeyCurHeart (uint MinHeartInterval) m)),
     word_of_int (got (unsigned_cast (2 ^ 32 - 1)) kKeyFailHeartCount 0 m), got bool_cast kKeyStable False m)"

definition known_of :: "heart_info \<Rightarrow> dword \<times> dword \<times> bool" where
  "known_of h = (cur_heart h, fail_heart_count h, is_stable h)"

lemma heart_keys [simp]: "VerifyName kKeyModifyTime" "VerifyName kKeyCurHeart" "VerifyName kKeyFailHeartCount" "VerifyName kKeyStable"
  "VerifyName kKeyNetType" "VerifyName (lit ''name'')"
  by code_simp+

lemma heart_keys_length: "length kKeyModifyTime = 10" "length kKeyCurHeart = 8" "length kKeyFailHeartCount = 14" "length kKeyStable = 6"
  "length kKeyNetType = 7" "length (lit ''name'') = 4"
  by code_simp+

lemma heart_keys_differ:
  "distinct [kKeyModifyTime, kKeyCurHeart, kKeyFailHeartCount, kKeyStable, kKeyNetType]"
  by code_simp

lemma number_chars: "10 \<notin> set (dec_int v)" "0 \<notin> set (dec_int v)"
  using dec_nat_chars by (auto simp: dec_int_def)

lemma number_entry:
  assumes "VerifyName k" "length k \<le> 14" "\<bar>v\<bar> < 10 ^ 20"
  shows "entry_ok (k, string_cast_itoa v 10)"
proof -
  have "length (dec_int v) \<le> 21" using length_dec_int [of v 19] assms(3) by simp
  then show ?thesis using assms(1,2) number_chars [of v] by (simp add: entry_ok_def string_cast_dec BUFFER_SIZE_def)
qed

lemma bool_texts: "string_cast_bool b \<noteq> [] \<and> 10 \<notin> set (string_cast_bool b) \<and> 0 \<notin> set (string_cast_bool b) \<and> length (string_cast_bool b) \<le> 5"
proof -
  have "list_all (\<lambda>b. string_cast_bool b \<noteq> [] \<and> 10 \<notin> set (string_cast_bool b) \<and> 0 \<notin> set (string_cast_bool b)
    \<and> length (string_cast_bool b) \<le> 5) [True, False]" by code_simp
  then show ?thesis by (cases b) simp_all
qed

lemma bool_entry: "VerifyName k \<Longrightarrow> length k \<le> 14 \<Longrightarrow> entry_ok (k, string_cast_bool b)"
  using bool_texts [of b] by (simp add: entry_ok_def BUFFER_SIZE_def)

lemma entry_fits: "entry_ok (k, v) \<Longrightarrow> value_fits k v"
  by (simp add: entry_ok_def value_fits_def)

section \<open>The file in line with the store\<close>

definition saved_values :: "heart_info \<Rightarrow> (bytes \<times> bytes) list" where
  "saved_values h = [(kKeyModifyTime, string_cast_itoa (last_modify_time h) 10), (kKeyCurHeart, string_cast_itoa (uint (cur_heart h)) 10),
     (kKeyFailHeartCount, string_cast_itoa (uint (fail_heart_count h)) 10), (kKeyStable, string_cast_bool (is_stable h)),
     (kKeyNetType, string_cast_itoa (net_type_of h) 10)]"

lemma SaveINI_puts:
  "sh_ini (SaveINI now s) = fold (\<lambda>(k, v) i. snd (INI_Set k v i)) (saved_values ((heart_info_of s)\<lparr> last_modify_time := now \<rparr>)) (sh_ini s)"
  "sh_file (SaveINI now s) = Some (INI_Save (sh_ini (SaveINI now s)))"
  by (simp_all add: SaveINI_def saved_values_def Let_def)

definition info_ok :: "heart_info \<Rightarrow> bool" where
  "info_ok h \<longleftrightarrow> \<bar>last_modify_time h\<bar> < 10 ^ 20 \<and> \<bar>net_type_of h\<bar> < 10 ^ 20"

lemma word_small: "\<bar>uint (w :: dword)\<bar> < 10 ^ 20"
  using uint_lt2p [of w] by simp

lemma saved_entries: "info_ok h \<Longrightarrow> \<forall>kv \<in> set (saved_values h). entry_ok kv"
  using word_small [of "cur_heart h"] word_small [of "fail_heart_count h"]
  by (auto simp: saved_values_def info_ok_def heart_keys_length intro!: number_entry bool_entry)

lemma learned_saved: "in_range (cur_heart h) \<Longrightarrow> learned (m ++ map_of (rev (saved_values h))) = known_of h"
proof -
  have u: "unsigned_cast (2 ^ 32 - 1) (string_cast_itoa (uint w) 10) = Some (uint w)" "string_cast_itoa (uint w) 10 \<noteq> []" for w :: dword
    using cast_back(2) [of "uint w" "2 ^ 32 - 1"] uint_lt2p [of w] dec_nat_read [of "nat \<bar>uint w\<bar>"]
    by (auto simp: string_cast_dec dec_int_def)
  assume "in_range (cur_heart h)"
  then have "clip (cur_heart h) = cur_heart h" by (auto simp: clip_def in_range_def Let_def)
  then show ?thesis using heart_keys_differ
    by (auto simp: learned_def got_def known_of_def saved_values_def map_add_def u [simplified] bool_texts bool_cast_back)
qed

section \<open>What the store keeps\<close>

definition sections_ok :: "ini \<Rightarrow> bool" where
  "sections_ok i \<longleftrightarrow> store_ok (ini_sections i) \<and> (\<forall>x \<in> set (ini_sections i). snd x \<noteq> []) \<and> length (ini_currentsection i) \<le> 510"

lemma map_put_ne [simp]: "map_put a b xs \<noteq> []"
  by (induction a b xs rule: map_put.induct) auto

lemma map_put_sub: "set (map_put a b xs) \<subseteq> insert (a, b) (set xs)" "map_put a c (map_put a b xs) = map_put a c xs"
  by (induction a b xs rule: map_put.induct) (auto simp: bytes_less_irrefl)

lemma set_keeps:
  assumes "sections_ok i" "entry_ok (k, v)"
  shows "sections_ok (snd (INI_Set k v i))" "ini_currentsection (snd (INI_Set k v i)) = ini_currentsection i"
proof -
  have "store_ok (ini_sections (snd (INI_Set k v i)))" using INI_Set_ok [of i k v] assms by (simp add: sections_ok_def)
  then show "sections_ok (snd (INI_Set k v i))" using assms(1)
    by (auto simp: sections_ok_def INI_Set_def Let_def dest!: subsetD [OF map_put_sub(1)])
qed (simp add: INI_Set_def Let_def)

lemma sets_keep:
  assumes "sections_ok i" "\<forall>kv \<in> set kvs. entry_ok kv"
  defines "i' \<equiv> fold (\<lambda>(k, v) i. snd (INI_Set k v i)) kvs i"
  shows "sections_ok i'" "ini_currentsection i' = ini_currentsection i"
proof -
  have "sections_ok i' \<and> ini_currentsection i' = ini_currentsection i"
    using assms(1,2) unfolding i'_def by (induction kvs arbitrary: i) (auto simp: set_keeps)
  then show "sections_ok i'" "ini_currentsection i' = ini_currentsection i" by auto
qed

lemma get_keeps:
  assumes "store_ok (ini_sections i)" "VerifyName (ini_currentsection i)" "VerifyName k" "map_of (ini_sections i) (ini_currentsection i) \<noteq> None"
  shows "INI_Get cast k d i = (got cast k d (ini_value i), i)"
proof -
  obtain ks where ks: "map_of (ini_sections i) (ini_currentsection i) = Some ks" using assms(4) by auto
  have "map_put (ini_currentsection i) ks (ini_sections i) = ini_sections i"
    using map_put_same [OF _ ks] assms(1) by (simp add: store_ok_def)
  then show ?thesis using assms(2,3) ks by (simp add: INI_Get_def Let_def got_def ini_value_def section_of_def)
qed

lemma INI_Save_current [simp]: "INI_Save (i\<lparr> ini_currentsection := c \<rparr>) = INI_Save i"
  by (simp add: INI_Save_def)

section \<open>The invariant\<close>

definition file_good :: "(bytes \<Rightarrow> bytes) \<Rightarrow> smart_heart \<Rightarrow> bool" where
  "file_good S s \<longleftrightarrow> sections_ok (sh_ini s) \<and> info_ok (heart_info_of s)
     \<and> (sh_file s = Some (INI_Save (sh_ini s)) \<or> sh_file s = None \<and> ini_sections (sh_ini s) = [])
     \<and> (let l = net_detail_of (heart_info_of s); i = sh_ini s in
        l \<noteq> [] \<longrightarrow> ini_currentsection i = S l \<and> VerifyName (S l) \<and> map_of (ini_sections i) (S l) \<noteq> None
          \<and> known_of (heart_info_of s) = learned (ini_value i))"

definition env_ok :: "(bytes \<Rightarrow> bytes) \<Rightarrow> heart_env \<Rightarrow> bool" where
  "env_ok S E \<longleftrightarrow> he_section E = S \<and> \<bar>he_time E\<bar> < 2 ^ 63 \<and> \<bar>he_net_type E\<bar> < 2 ^ 31
     \<and> 10 \<notin> set (c_str (he_label E)) \<and> length (c_str (he_label E)) + 5 < BUFFER_SIZE
     \<and> VerifyName (S (he_label E)) \<and> length (S (he_label E)) \<le> 510"

lemma save_good:
  assumes "sections_ok (sh_ini s)" "info_ok (heart_info_of s)" "\<bar>now\<bar> < 2 ^ 63" "in_range (cur_heart (heart_info_of s))"
    and "net_detail_of (heart_info_of s) \<noteq> [] \<Longrightarrow> ini_currentsection (sh_ini s) = S (net_detail_of (heart_info_of s))
      \<and> VerifyName (S (net_detail_of (heart_info_of s)))"
  shows "file_good S (SaveINI now s)"
proof -
  let ?h = "(heart_info_of s)\<lparr> last_modify_time := now \<rparr>"
  have h: "info_ok ?h" using assms(2,3) by (simp add: info_ok_def)
  note e = saved_entries [OF h]
  note k = sets_keep [OF assms(1) e, folded SaveINI_puts]
  have v: "VerifyName (ini_currentsection (sh_ini s)) \<Longrightarrow> ini_value (sh_ini (SaveINI now s)) = ini_value (sh_ini s) ++ map_of (rev (saved_values ?h))"
    unfolding SaveINI_puts using e entry_fits by (intro st.get_puts) auto
  have "(ini_value (sh_ini s) ++ map_of (rev (saved_values ?h))) kKeyStable = Some (string_cast_bool (is_stable ?h))"
    using heart_keys_differ by (simp add: saved_values_def)
  with v have val: "VerifyName (ini_currentsection (sh_ini s)) \<Longrightarrow>
      ini_value (sh_ini (SaveINI now s)) kKeyStable = Some (string_cast_bool (is_stable ?h))" by simp
  have "ini_value (sh_ini (SaveINI now s)) kKeyStable = Some x \<Longrightarrow>
      map_of (ini_sections (sh_ini (SaveINI now s))) (ini_currentsection (sh_ini s)) \<noteq> None" for x
    by (auto simp: ini_value_def section_of_def k split: option.splits)
  note this [OF val]
  with v learned_saved [of ?h "ini_value (sh_ini s)"] assms(4,5) h k show ?thesis
    by (auto simp: file_good_def SaveINI_puts(2) Let_def known_of_def)
qed

section \<open>Loading\<close>

lemma read_info_known:
  assumes "store_ok (ini_sections (sh_ini s))" "VerifyName (ini_currentsection (sh_ini s))"
    and "map_of (ini_sections (sh_ini s)) (ini_currentsection (sh_ini s)) \<noteq> None"
    and "heart_info_of s = Clear\<lparr> net_detail_of := l, net_type_of := n \<rparr>"
  shows "known_of (heart_info_of (read_info E s)) = learned (ini_value (sh_ini s))" "sh_ini (read_info E s) = sh_ini s"
    "sh_file (read_info E s) = sh_file s" "net_detail_of (heart_info_of (read_info E s)) = l"
  by (simp_all add: read_info_def get_keeps [OF assms(1,2) _ assms(3)] assms(4) known_of_def learned_def clip_def Clear_def Let_def)

lemma got_bounded:
  assumes "\<bar>d\<bar> < 10 ^ 20" "- (2 ^ 63) \<le> lo" "hi < 2 ^ 63"
  shows "\<bar>got (signed_cast lo hi) k d m\<bar> < 10 ^ 20"
proof -
  have "\<bar>v\<bar> < 10 ^ 20" if "signed_cast lo hi x = Some v" for x v
    using that assms(2,3) by (cases "strto_number x") (auto simp: signed_cast_def Let_def split: prod.splits if_splits)
  then show ?thesis using assms(1) by (auto simp: got_def split: option.split)
qed

lemma read_info_ok:
  assumes "store_ok (ini_sections (sh_ini s))" "VerifyName (ini_currentsection (sh_ini s))"
    and "map_of (ini_sections (sh_ini s)) (ini_currentsection (sh_ini s)) \<noteq> None"
    and "info_ok (heart_info_of s)" "\<bar>he_time E\<bar> < 2 ^ 63"
  shows "info_ok (heart_info_of (read_info E s))"
proof -
  have t: "\<bar>got (signed_cast (- (2 ^ 63)) (2 ^ 63 - 1)) kKeyModifyTime (last_modify_time (heart_info_of s)) m\<bar> < 10 ^ 20"
    "\<bar>got (signed_cast (- (2 ^ 31)) (2 ^ 31 - 1)) kKeyNetType (net_type_of (heart_info_of s)) m\<bar> < 10 ^ 20" for m
    using assms(4) by (intro got_bounded; simp add: info_ok_def)+
  have "\<bar>he_time E\<bar> < 10 ^ 20" using assms(5) by simp
  with t show ?thesis
    by (simp add: read_info_def get_keeps [OF assms(1,2) _ assms(3)] info_ok_def Let_def del: power_numeral)
qed

definition kept_time :: "int \<Rightarrow> bytes \<times> keys_t \<Rightarrow> bool" where
  "kept_time now x = (case map_of (snd x) kKeyModifyTime of None \<Rightarrow> False
     | Some v \<Rightarrow> \<not> now < (case signed_cast (- (2 ^ 63)) (2 ^ 63 - 1) v of None \<Rightarrow> 0 | Some t \<Rightarrow> t))"

lemma limit_loop_filter: "fst (limit_loop now ss t m) = filter (kept_time now) ss"
proof (induction ss arbitrary: t m)
  case (Cons x ss)
  obtain sec ks where "x = (sec, ks)" by force
  with Cons show ?case
    by (cases "map_of ks kKeyModifyTime") (simp_all add: kept_time_def Let_def split_beta del: power_numeral)
qed simp

lemma store_ok_filter: "store_ok ss \<Longrightarrow> store_ok (filter P ss)"
proof -
  have "sorted_wrt r (map fst (filter P ss))" if "sorted_wrt r (map fst ss)" for r
    using that by (induction ss) auto
  then show "store_ok ss \<Longrightarrow> store_ok (filter P ss)" by (auto simp: store_ok_def keys_sorted_def)
qed

lemma map_of_filtered: "map_of ss k = None \<Longrightarrow> map_of (filter P ss) k = None"
  by (auto simp: map_of_eq_None_iff)

lemma limited_filter: "\<exists>P. ini_sections (sh_ini (LimitINISize now s)) = filter P (ini_sections (sh_ini s))"
proof (cases "length (ini_sections (sh_ini s)) \<le> MAX_INI_SECTIONS")
  case True
  then show ?thesis by (intro exI [of _ "\<lambda>_. True"]) (simp add: LimitINISize_def Sections_def)
next
  case False
  obtain m where l: "limit_loop now (ini_sections (sh_ini s)) 0 None = (filter (kept_time now) (ini_sections (sh_ini s)), m)"
    using limit_loop_filter [of now _ 0 None] by (metis prod.collapse)
  show ?thesis
    by (rule exI [of _ "\<lambda>x. kept_time now x \<and> (case m of None \<Rightarrow> True | Some sec \<Rightarrow> fst x \<noteq> sec)"])
      (cases m; simp add: LimitINISize_def Sections_def False l case_prod_unfold)
qed

lemma limited:
  assumes "sections_ok (sh_ini s)"
  shows "sections_ok (sh_ini (LimitINISize now s))" "sh_file (LimitINISize now s) = sh_file s"
    "map_of (ini_sections (sh_ini s)) k = None \<Longrightarrow> map_of (ini_sections (sh_ini (LimitINISize now s))) k = None"
proof -
  obtain P where P: "ini_sections (sh_ini (LimitINISize now s)) = filter P (ini_sections (sh_ini s))" using limited_filter by blast
  have c: "ini_currentsection (sh_ini (LimitINISize now s)) = []"
    by (simp add: LimitINISize_def Sections_def Let_def split: prod.split)
  show "sections_ok (sh_ini (LimitINISize now s))" using assms store_ok_filter by (simp add: sections_ok_def P c)
  show "map_of (ini_sections (sh_ini s)) k = None \<Longrightarrow> map_of (ini_sections (sh_ini (LimitINISize now s))) k = None"
    by (simp add: P map_of_filtered)
qed (simp add: LimitINISize_def Let_def split: prod.split)

lemma store_ok_map_put: "store_ok ss \<Longrightarrow> section_ok (sec, ks) \<Longrightarrow> store_ok (map_put sec ks ss)"
  using keys_sorted_put [of ss sec ks] map_put_sub(1) [of sec ks ss] by (auto simp: store_ok_def)

lemma created:
  assumes "sections_ok i" "env_ok S E" "map_of (ini_sections i) (S (he_label E)) = None"
  shows "sections_ok (snd (Special_Create E (he_label E) i))" "ini_currentsection (snd (Special_Create E (he_label E) i)) = S (he_label E)"
proof -
  let ?sec = "S (he_label E)" let ?v = "c_str (he_label E)" let ?k = "lit ''name''"
  have n: "VerifyName ?sec" "length ?sec \<le> 510" "he_section E = S" using assms(2) by (auto simp: env_ok_def)
  have "0 \<notin> set ?v" by (auto simp: c_str_def dest: set_takeWhileD)
  then have e: "entry_ok (?k, ?v)" using assms(2) heart_keys heart_keys_length by (simp add: env_ok_def entry_ok_def)
  then have l: "\<not> BUFFER_SIZE < Suc (length ?k + length ?v)" by (simp add: entry_ok_def)
  have c: "snd (Special_Create E (he_label E) i) = i\<lparr> ini_currentsection := ?sec, ini_sections := map_put ?sec [(?k, ?v)] (ini_sections i) \<rparr>"
    using assms(3) n l by (simp add: Special_Create_def INI_Create_def INI_Select_def INI_Set_def section_of_def map_put_sub(2) Let_def)
  have "section_ok (?sec, [(?k, ?v)])" using n e by (simp add: section_ok_def keys_sorted_def)
  then have "store_ok (map_put ?sec [(?k, ?v)] (ini_sections i))" using assms(1) store_ok_map_put by (simp add: sections_ok_def)
  then show "sections_ok (snd (Special_Create E (he_label E) i))" using assms(1) n(2)
    by (auto simp: c sections_ok_def dest!: subsetD [OF map_put_sub(1)])
  show "ini_currentsection (snd (Special_Create E (he_label E) i)) = ?sec" by (simp add: c)
qed

lemma load_good:
  assumes "file_good S s" "heart_inv s" "env_ok S E"
  shows "file_good S (LoadINI E s)"
proof -
  let ?l = "he_label E"
  have n: "VerifyName (S ?l)" "length (S ?l) \<le> 510" "he_section E = S" using assms(3) by (auto simp: env_ok_def)
  consider "?l = []" | "?l = net_detail_of (heart_info_of s)" | (other) "?l \<noteq> []" "?l \<noteq> net_detail_of (heart_info_of s)" by blast
  then show ?thesis
  proof cases
    case other
    let ?s = "s\<lparr> heart_info_of := Clear\<lparr> net_detail_of := ?l, net_type_of := he_net_type E \<rparr> \<rparr>"
    have i: "info_ok (heart_info_of ?s)" using assms(3) by (simp add: info_ok_def env_ok_def Clear_def)
    have ok: "sections_ok (sh_ini s)" using assms(1) by (simp add: file_good_def)
    show ?thesis
    proof (cases "map_of (ini_sections (sh_ini s)) (S ?l)")
      case (Some ks)
      let ?t = "?s\<lparr> sh_ini := (sh_ini s)\<lparr> ini_currentsection := S ?l \<rparr> \<rparr>"
      have L: "LoadINI E s = read_info E ?t" using other n Some by (simp add: LoadINI_def INI_Select_def Let_def)
      have t: "store_ok (ini_sections (sh_ini ?t))" "VerifyName (ini_currentsection (sh_ini ?t))"
        "map_of (ini_sections (sh_ini ?t)) (ini_currentsection (sh_ini ?t)) \<noteq> None"
        using ok n(1) Some by (simp_all add: sections_ok_def)
      have f: "sh_file s = Some (INI_Save (sh_ini s))" using assms(1) Some by (auto simp: file_good_def)
      have m: "\<bar>he_time E\<bar> < 2 ^ 63" using assms(3) by (simp add: env_ok_def)
      note k = read_info_known [OF t, where l = ?l and n = "he_net_type E" and E = E] read_info_ok [OF t _ m]
      show ?thesis unfolding L using k i ok n Some f by (simp add: file_good_def sections_ok_def Let_def)
    next
      case None
      let ?t = "LimitINISize (he_time E) ?s" let ?i = "snd (Special_Create E ?l (sh_ini ?t))"
      have L: "LoadINI E s = SaveINI (he_time E) (?t\<lparr> sh_ini := ?i \<rparr>)"
        using other n None by (simp add: LoadINI_def INI_Select_def Let_def split: prod.split)
      have t: "sections_ok (sh_ini ?t)" "map_of (ini_sections (sh_ini ?t)) (S ?l) = None"
        using limited [of ?s, where now = "he_time E"] ok None by simp_all
      show ?thesis unfolding L using created [OF t(1) assms(3) t(2)] i n assms(3)
        by (intro save_good) (simp_all add: env_ok_def Clear_def)
    qed
  qed (use assms in \<open>auto simp: LoadINI_def file_good_def info_ok_def Clear_def\<close>)
qed

section \<open>Every operation keeps the file in line\<close>

lemma file_good_frame:
  "file_good S (s\<lparr> is_wait_heart_response := b \<rparr>) = file_good S s" "file_good S (s\<lparr> success_heart_count := n \<rparr>) = file_good S s"
  "file_good S (s\<lparr> xiaomi_style_count := n \<rparr>) = file_good S s" "file_good S (s\<lparr> test_total_count := k \<rparr>) = file_good S s"
  "file_good S (s\<lparr> last_alarm_tick := t \<rparr>) = file_good S s" "file_good S (s\<lparr> last_heart := c \<rparr>) = file_good S s"
  "file_good S (s\<lparr> heart_info_of := (heart_info_of s)\<lparr> success_curr_heart_count := n \<rparr> \<rparr>) = file_good S s"
  "file_good S (s\<lparr> is_wait_heart_response := b, heart_info_of := (heart_info_of s)\<lparr> success_curr_heart_count := n \<rparr> \<rparr>) = file_good S s"
  by (simp_all add: file_good_def info_ok_def known_of_def)

lemma resave:
  assumes "file_good S s" "\<bar>now\<bar> < 2 ^ 63" "in_range (cur_heart h)" "net_detail_of h = net_detail_of (heart_info_of s)"
    and "last_modify_time h = last_modify_time (heart_info_of s)" "net_type_of h = net_type_of (heart_info_of s)"
  shows "file_good S (SaveINI now (s\<lparr> heart_info_of := h \<rparr>))"
  using assms by (intro save_good) (auto simp: file_good_def info_ok_def Let_def)

lemma heart_info_frame [simp]:
  "net_detail_of (heart_succeeded h) = net_detail_of h" "last_modify_time (heart_succeeded h) = last_modify_time h"
  "net_type_of (heart_succeeded h) = net_type_of h" "net_detail_of (heart_failed h) = net_detail_of h"
  "last_modify_time (heart_failed h) = last_modify_time h" "net_type_of (heart_failed h) = net_type_of h"
  by (simp_all add: heart_succeeded_def heart_failed_def Let_def)

lemma result_good:
  assumes "file_good S s" "heart_inv s" "env_ok S E"
  shows "file_good S (OnHeartResult E b s)"
proof -
  let ?s = "s\<lparr> is_wait_heart_response := False \<rparr>"
  define t where "t = (if b then ?s\<lparr> success_heart_count := success_heart_count ?s + 1 \<rparr> else ?s)"
  have t: "file_good S t" "heart_info_of t = heart_info_of s" using assms(1) by (simp_all add: t_def file_good_frame)
  have r: "in_range (cur_heart (heart_info_of s))" "\<bar>he_time E\<bar> < 2 ^ 63" using assms(2,3) by (simp_all add: heart_inv_def env_ok_def)
  note save = resave [OF t(1) r(2)]
  have "file_good S (probe_bigger E t)"
    using t save range_moves(2) [OF r(1)] by (auto simp: probe_bigger_def Let_def not_le intro!: save)
  moreover have "file_good S (SaveINI (he_time E) (upd_info heart_succeeded t))"
    using range_succeeded [OF r(1)] t(2) by (intro save) simp_all
  moreover have "file_good S (SaveINI (he_time E) (upd_info heart_failed t))"
    using range_failed [OF r(1)] t(2) by (intro save) simp_all
  moreover have "OnHeartResult E b s =
      (if IsMIUIStyle s \<or> net_detail_of (heart_info_of s) = [] then s
       else if b \<and> is_stable (heart_info_of t) then probe_bigger E t
       else if last_heart t \<noteq> cur_heart (heart_info_of t) \<or> success_heart_count t < NetStableTestCount then t
       else if b then SaveINI (he_time E) (upd_info heart_succeeded t)
       else if last_heart t = MinHeartInterval then t else SaveINI (he_time E) (upd_info heart_failed t))"
    by (simp add: OnHeartResult_def t_def Let_def)
  ultimately show ?thesis using assms(1) t(1) by simp
qed

fun event_env :: "heart_event \<Rightarrow> heart_env option" where
  "event_env HeartStart = None"
| "event_env (Established E) = Some E"
| "event_env (Disconnected E) = Some E"
| "event_env (Answered E b) = Some E"
| "event_env (Judged E t) = Some E"
| "event_env (Asked E) = Some E"

definition event_ok :: "(bytes \<Rightarrow> bytes) \<Rightarrow> smart_heart \<Rightarrow> heart_event \<Rightarrow> bool" where
  "event_ok S s e \<longleftrightarrow> (case event_env e of None \<Rightarrow> True | Some E \<Rightarrow> env_ok S E)"

interpretation saved: guarded_machine "event_ok S" heart_step "\<lambda>s. heart_inv s \<and> file_good S s" for S
proof
  fix s e assume "heart_inv s \<and> file_good S s" and e: "event_ok S s e"
  then have inv: "heart_inv s" and good: "file_good S s" by simp_all
  have "file_good S (heart_step s e)"
  proof (cases e)
    case HeartStart
    then show ?thesis using good by (simp add: OnHeartbeatStart_def file_good_frame)
  next
    case (Established E)
    then show ?thesis using load_good [OF good inv] e by (simp add: OnLongLinkEstablished_def file_good_frame event_ok_def)
  next
    case (Disconnected E)
    have "file_good S (OnHeartResult E False s)" using result_good [OF good inv] e Disconnected by (simp add: event_ok_def)
    show ?thesis using good \<open>file_good S (OnHeartResult E False s)\<close> Disconnected
      by (simp add: OnLongLinkDisconnect_def file_good_frame Let_def)
  next
    case (Answered E b)
    then show ?thesis using result_good [OF good inv] e by (simp add: event_ok_def)
  next
    case (Judged E tick)
    let ?t = "s\<lparr> last_alarm_tick := tick, xiaomi_style_count := xiaomi_style_count s + 1 \<rparr>"
    have t: "file_good S ?t" using good by (simp add: file_good_frame)
    have "file_good S (SaveINI (he_time E) (?t\<lparr> heart_info_of := (heart_info_of s)\<lparr> is_stable := True \<rparr> \<rparr>))"
      using e inv by (intro resave [OF t]) (simp_all add: Judged event_ok_def env_ok_def heart_inv_def)
    then show ?thesis using good Judged t by (simp add: JudgeMIUIStyle_def file_good_frame Let_def)
  next
    case (Asked E)
    then show ?thesis using next_inv [OF inv, of E] good by (simp add: file_good_frame Let_def)
  qed
  then show "heart_inv (heart_step s e) \<and> file_good S (heart_step s e)" using heart.step_inv [OF inv] by blast
qed

lemma start_good: "SmartHeartbeat None = ok s \<Longrightarrow> heart_inv s \<and> file_good S s"
  using heart_inv_start [of None s]
  by (simp, auto simp: SmartHeartbeat_def INI_Parse_def file_good_def sections_ok_def store_ok_def keys_sorted_def INI_def info_ok_def Clear_def)

section \<open>Sections of other networks\<close>

text \<open>The section \<open>sec\<close> has the keys \<open>v\<close>, it is not the current one, and there are at most \<open>n\<close> sections.\<close>

definition spared :: "bytes \<Rightarrow> keys_t \<Rightarrow> nat \<Rightarrow> ini \<Rightarrow> bool" where
  "spared sec v n i \<longleftrightarrow> map_of (ini_sections i) sec = Some v \<and> ini_currentsection i \<noteq> sec
     \<and> (VerifyName (ini_currentsection i) \<longrightarrow> map_of (ini_sections i) (ini_currentsection i) \<noteq> None) \<and> length (ini_sections i) \<le> n"

lemma keys_sorted_card: "keys_sorted ks \<Longrightarrow> length ks = card (fst ` set ks)"
proof -
  assume "keys_sorted ks"
  then have "distinct (map fst ks)" using bytes_less_irrefl by (induction ks) (auto simp: keys_sorted_def)
  then show "length ks = card (fst ` set ks)" by (metis distinct_card length_map list.set_map)
qed

lemma length_map_put: "keys_sorted ks \<Longrightarrow> length (map_put k v ks) = (if map_of ks k = None then Suc (length ks) else length ks)"
  using keys_sorted_card [of ks] keys_sorted_card [OF keys_sorted_put [of ks k v]]
  by (simp add: fst_map_put card_insert_if map_of_eq_None_iff)

lemma spared_Set:
  assumes "spared sec v n i" "keys_sorted (ini_sections i)"
  shows "spared sec v n (snd (INI_Set k x i))"
  using assms length_map_put [of "ini_sections i" "ini_currentsection i"] by (auto simp: spared_def INI_Set_def Let_def)

lemma spared_Sets:
  "spared sec v n i \<Longrightarrow> keys_sorted (ini_sections i) \<Longrightarrow> spared sec v n (fold (\<lambda>(k, v) i. snd (INI_Set k v i)) kvs i)"
proof (induction kvs arbitrary: i)
  case (Cons kv kvs)
  obtain k x where kv: "kv = (k, x)" by force
  have "keys_sorted (ini_sections (snd (INI_Set k x i)))" using Cons.prems(2) keys_sorted_put by (auto simp: INI_Set_def Let_def)
  then show ?case using Cons spared_Set [of sec v n i k x] by (simp add: kv)
qed simp

lemma spared_Save: "spared sec v n (sh_ini s) \<Longrightarrow> keys_sorted (ini_sections (sh_ini s)) \<Longrightarrow> spared sec v n (sh_ini (SaveINI now s))"
  unfolding SaveINI_puts by (rule spared_Sets)

lemma file_good_sorted: "file_good S s \<Longrightarrow> keys_sorted (ini_sections (sh_ini s))"
  by (simp add: file_good_def sections_ok_def store_ok_def)

lemma spared_Load:
  assumes "file_good S s" "env_ok S E" "spared sec v n (sh_ini s)" "S (he_label E) \<noteq> sec" "n \<le> MAX_INI_SECTIONS" "sec \<noteq> []"
  shows "spared sec v (Suc n) (sh_ini (LoadINI E s))"
proof -
  let ?l = "he_label E"
  have n: "VerifyName (S ?l)" "he_section E = S" using assms(2) by (auto simp: env_ok_def)
  have ok: "sections_ok (sh_ini s)" "keys_sorted (ini_sections (sh_ini s))" using assms(1) file_good_sorted by (simp_all add: file_good_def)
  have w: "spared sec v (Suc n) (sh_ini s)" using assms(3) by (simp add: spared_def)
  consider "?l = [] \<or> ?l = net_detail_of (heart_info_of s)" | (other) "?l \<noteq> []" "?l \<noteq> net_detail_of (heart_info_of s)" by blast
  then show ?thesis
  proof cases
    case other
    let ?s = "s\<lparr> heart_info_of := Clear\<lparr> net_detail_of := ?l, net_type_of := he_net_type E \<rparr> \<rparr>"
    show ?thesis
    proof (cases "map_of (ini_sections (sh_ini s)) (S ?l)")
      case (Some ks)
      let ?t = "?s\<lparr> sh_ini := (sh_ini s)\<lparr> ini_currentsection := S ?l \<rparr> \<rparr>"
      have L: "LoadINI E s = read_info E ?t" using other n Some by (simp add: LoadINI_def INI_Select_def Let_def)
      have t: "store_ok (ini_sections (sh_ini ?t))" "VerifyName (ini_currentsection (sh_ini ?t))"
        "map_of (ini_sections (sh_ini ?t)) (ini_currentsection (sh_ini ?t)) \<noteq> None"
        using ok n(1) Some by (simp_all add: sections_ok_def)
      have "sh_ini (LoadINI E s) = sh_ini ?t"
        unfolding L using read_info_known(2) [OF t, where l = ?l and n = "he_net_type E" and E = E] by simp
      then show ?thesis using w assms(4) Some by (simp add: spared_def)
    next
      case None
      have lim: "LimitINISize (he_time E) ?s = ?s\<lparr> sh_ini := (sh_ini s)\<lparr> ini_currentsection := [] \<rparr> \<rparr>"
        using assms(3,5) by (simp add: LimitINISize_def Sections_def spared_def)
      let ?i = "snd (Special_Create E ?l ((sh_ini s)\<lparr> ini_currentsection := [] \<rparr>))"
      have L: "LoadINI E s = SaveINI (he_time E) (?s\<lparr> sh_ini := ?i \<rparr>)"
        using other n None lim by (simp add: LoadINI_def INI_Select_def Let_def split: prod.split)
      have c: "?i = snd (INI_Set (lit ''name'') (c_str ?l) ((sh_ini s)\<lparr> ini_currentsection := S ?l, ini_sections := map_put (S ?l) [] (ini_sections (sh_ini s)) \<rparr>))"
        using n None by (simp add: Special_Create_def INI_Create_def INI_Select_def Let_def)
      have "spared sec v (Suc n) ?i \<and> keys_sorted (ini_sections ?i)"
        unfolding c using assms(3,4) ok(2) length_map_put [OF ok(2), of "S ?l" "[]"] None keys_sorted_put [OF ok(2)]
        by (intro conjI spared_Set) (auto simp: spared_def INI_Set_def Let_def keys_sorted_put)
      then show ?thesis unfolding L by (intro spared_Save) simp_all
    qed
  qed (use w in \<open>auto simp: LoadINI_def\<close>)
qed

lemma spared_result:
  assumes "spared sec v n (sh_ini s)" "keys_sorted (ini_sections (sh_ini s))"
  shows "spared sec v n (sh_ini (OnHeartResult E b s))"
  using assms by (auto simp: OnHeartResult_def probe_bigger_def Let_def intro!: spared_Save)

text \<open>How many networks were connected to, at most.\<close>

fun connections :: "heart_event list \<Rightarrow> nat" where
  "connections [] = 0"
| "connections (Established E # es) = Suc (connections es)"
| "connections (_ # es) = connections es"

lemma spared_run:
  assumes "heart_inv s \<and> file_good S s" "run_ok (event_ok S) heart_step s es" "spared sec v n (sh_ini s)" "sec \<noteq> []"
    and "\<forall>E. Established E \<in> set es \<longrightarrow> S (he_label E) \<noteq> sec" "n + connections es \<le> Suc MAX_INI_SECTIONS"
  shows "map_of (ini_sections (sh_ini (run_events heart_step s es))) sec = Some v"
  using assms(1-3,5,6)
proof (induction es arbitrary: s n)
  case (Cons e es)
  let ?s = "heart_step s e"
  have ok: "event_ok S s e" "run_ok (event_ok S) heart_step ?s es" using Cons.prems(2) by simp_all
  have g: "heart_inv ?s \<and> file_good S ?s" by (rule saved.step_guarded [OF Cons.prems(1) ok(1)])
  have k: "keys_sorted (ini_sections (sh_ini s))" using Cons.prems(1) file_good_sorted by blast
  show ?case
  proof (cases "\<exists>E. e = Established E")
    case True
    then obtain E where E: "e = Established E" ..
    have "spared sec v (Suc n) (sh_ini (LoadINI E s))"
      using Cons.prems ok(1) assms(4) by (intro spared_Load [of S]) (auto simp: E event_ok_def)
    then have "spared sec v (Suc n) (sh_ini ?s)" by (simp add: E OnLongLinkEstablished_def)
    from Cons.IH [OF g ok(2) this] Cons.prems(4,5) show ?thesis by (simp add: E)
  next
    case False
    note sv = spared_Save [OF _ k] Cons.prems(3)
    have "spared sec v n (sh_ini ?s)"
    proof (cases e)
      case (Disconnected E)
      have "spared sec v n (sh_ini (OnHeartResult E False s))" by (rule spared_result [OF Cons.prems(3) k])
      then show ?thesis using Cons.prems(3) by (simp add: Disconnected OnLongLinkDisconnect_def Let_def)
    next
      case (Judged E tick)
      have "spared sec v n (sh_ini (SaveINI (he_time E) t))" if "sh_ini t = sh_ini s" for t
        using that Cons.prems(3) k by (intro spared_Save) simp_all
      then show ?thesis using Cons.prems(3) by (simp add: Judged JudgeMIUIStyle_def Let_def)
    qed (use False Cons.prems(1,3) next_inv spared_result [OF Cons.prems(3) k] in \<open>auto simp: OnHeartbeatStart_def Let_def\<close>)
    moreover have "connections (e # es) = connections es" using False by (cases e) auto
    ultimately show ?thesis using Cons.IH [OF g ok(2)] Cons.prems(4,5) by simp
  qed
qed (simp add: spared_def)

section \<open>Restarts\<close>

text \<open>The files that sessions of the program leave, the first of which begins without a file.\<close>

inductive left_by :: "(bytes \<Rightarrow> bytes) \<Rightarrow> bytes option \<Rightarrow> bool" for S where
  no_file: "left_by S None"
| session: "left_by S f \<Longrightarrow> SmartHeartbeat f = ok s0 \<Longrightarrow> run_ok (event_ok S) heart_step s0 es \<Longrightarrow>
    left_by S (sh_file (run_events heart_step s0 es))"

definition started_with :: "sections_t \<Rightarrow> bytes option \<Rightarrow> smart_heart \<Rightarrow> bool" where
  "started_with ss f t \<longleftrightarrow> sh_ini t = INI\<lparr> ini_sections := ss \<rparr> \<and> heart_info_of t = Clear \<and> sh_file t = f"

lemma restart:
  assumes "file_good S s"
  shows "\<exists>t. SmartHeartbeat (sh_file s) = ok t \<and> started_with (ini_sections (sh_ini s)) (sh_file s) t"
proof (cases "sh_file s")
  case None
  then show ?thesis using assms by (auto simp: SmartHeartbeat_def INI_Parse_def file_good_def started_with_def INI_def)
next
  case (Some x)
  let ?i = "sh_ini s"
  have f: "sh_file s = Some (INI_Save ?i)" using assms Some by (auto simp: file_good_def)
  have k: "sections_ok ?i" using assms by (simp add: file_good_def)
  then have "filter (\<lambda>(_, ks). ks \<noteq> []) (ini_sections ?i) = ini_sections ?i" by (auto simp: sections_ok_def intro!: filter_True)
  then have "INI_Parse (sh_file s) INI = ok (True, INI\<lparr> ini_sections := ini_sections ?i \<rparr>)"
    using parse_saved [of "[]" "ini_sections ?i" ?i "[]"] k by (auto simp: f INI_Parse_def INI_def sections_ok_def store_ok_def)
  then show ?thesis by (auto simp: SmartHeartbeat_def started_with_def)
qed

lemma restart_good:
  assumes "file_good S s" "SmartHeartbeat (sh_file s) = ok t"
  shows "heart_inv t \<and> file_good S t"
proof -
  have t: "started_with (ini_sections (sh_ini s)) (sh_file s) t" using restart [OF assms(1)] assms(2) by auto
  have "INI_Save (sh_ini t) = INI_Save (sh_ini s)" using t by (simp add: started_with_def INI_Save_def)
  then have "file_good S t" using t assms(1)
    by (auto simp: started_with_def file_good_def sections_ok_def info_ok_def Clear_def INI_def)
  then show ?thesis using heart_inv_start [OF assms(2)] by simp
qed

lemma left_by_good: "left_by S f \<Longrightarrow> SmartHeartbeat f = ok s0 \<Longrightarrow> heart_inv s0 \<and> file_good S s0"
proof (induction arbitrary: s0 rule: left_by.induct)
  case no_file
  then show ?case using start_good by blast
next
  case (session f s0 es)
  from saved.run_guarded [OF session.IH [OF session.hyps(2)] session.hyps(3)] session.prems show ?case using restart_good by blast
qed

text \<open>What is in use after a program that was started with these sections has connected.\<close>

lemma connected_values:
  assumes "started_with ss f t" "store_ok ss" "env_ok S E" "he_label E \<noteq> []" "map_of ss (S (he_label E)) = Some v"
  shows "known_of (heart_info_of (OnLongLinkEstablished E t)) = learned (map_of v)"
proof -
  let ?l = "he_label E" let ?j = "INI\<lparr> ini_sections := ss \<rparr>"
  have n: "VerifyName (S ?l)" "he_section E = S" using assms(3) by (auto simp: env_ok_def)
  let ?u = "t\<lparr> heart_info_of := Clear\<lparr> net_detail_of := ?l, net_type_of := he_net_type E \<rparr>, sh_ini := ?j\<lparr> ini_currentsection := S ?l \<rparr> \<rparr>"
  have "LoadINI E t = read_info E ?u"
    using assms(1,4,5) n by (auto simp: started_with_def LoadINI_def INI_Select_def Clear_def Let_def)
  moreover have "known_of (heart_info_of (read_info E ?u)) = learned (ini_value (sh_ini ?u))"
    using assms(2,5) n by (intro read_info_known) auto
  moreover have "ini_value (sh_ini ?u) = map_of v" using assms(5) by (simp add: ini_value_def section_of_def fun_eq_iff)
  ultimately show ?thesis by (simp add: OnLongLinkEstablished_def)
qed


lemma Sets_names:
  "fst ` set (ini_sections (fold (\<lambda>(k, v) i. snd (INI_Set k v i)) kvs i)) \<subseteq> insert (ini_currentsection i) (fst ` set (ini_sections i))"
proof (induction kvs arbitrary: i)
  case (Cons kv kvs)
  obtain k v where kv: "kv = (k, v)" by force
  have "fst ` set (ini_sections (snd (INI_Set k v i))) \<subseteq> insert (ini_currentsection i) (fst ` set (ini_sections i))"
    "ini_currentsection (snd (INI_Set k v i)) = ini_currentsection i" by (auto simp: INI_Set_def Let_def fst_map_put)
  with Cons.IH [of "snd (INI_Set k v i)"] show ?case by (simp add: kv) blast
qed auto

lemma insert_sub: "c = x \<Longrightarrow> A \<subseteq> {x} \<Longrightarrow> insert c A \<subseteq> {x}"
  by blast

lemma first_network:
  assumes "started_with [] f t" "env_ok S E" "he_label E \<noteq> []"
  shows "fst ` set (ini_sections (sh_ini (LoadINI E t))) \<subseteq> {S (he_label E)}"
proof -
  have n: "VerifyName (S (he_label E))" "he_section E = S" using assms(2) by (auto simp: env_ok_def)
  let ?i = "snd (INI_Set (lit ''name'') (c_str (he_label E)) (INI\<lparr> ini_currentsection := S (he_label E), ini_sections := [(S (he_label E), [])] \<rparr>))"
  obtain s where s: "LoadINI E t = SaveINI (he_time E) s" "sh_ini s = ?i"
    using assms(1,3) n
    by (auto simp: started_with_def LoadINI_def INI_Select_def LimitINISize_def Sections_def Special_Create_def INI_Create_def Clear_def INI_def Let_def)
  have "ini_currentsection ?i = S (he_label E)" "fst ` set (ini_sections ?i) \<subseteq> {S (he_label E)}"
    by (auto simp: INI_Set_def Let_def)
  then show ?thesis unfolding s(1) SaveINI_puts s(2) by (intro subset_trans [OF Sets_names] insert_sub)
qed

lemma loaded_label: "net_detail_of (heart_info_of (LoadINI E s)) = he_label E"
  by (simp add: LoadINI_def read_info_def Clear_def Let_def split: prod.split)

definition sample_section :: "bytes \<Rightarrow> bytes" where
  "sample_section l = (if l = lit ''home wifi'' then lit ''5A9E'' else lit ''77B0'')"

definition home :: heart_env where
  "home = \<lparr> he_time = 1500000000, he_wday = 0, he_active = False, he_label = lit ''home wifi'', he_net_type = 1, he_section = sample_section \<rparr>"

definition office :: heart_env where "office = home\<lparr> he_label := lit ''office'' \<rparr>"

lemma sample_envs: "env_ok sample_section home" "env_ok sample_section office"
proof -
  have h: "he_section home = sample_section" "he_section office = sample_section" by (simp_all add: home_def office_def)
  show "env_ok sample_section home" "env_ok sample_section office" unfolding env_ok_def by (intro conjI h; code_simp)+
qed

definition home_events :: "heart_event list" where "home_events = [Established home, HeartStart]"
definition office_events :: "heart_event list" where "office_events = [Established office, HeartStart]"


end
