(* ===== verification/Main_Window.thy ===== *)
theory Main_Window imports Service "HOL-Library.Signed_Division" begin

text \<open>
  The main window of the chat program, \<^verbatim>\<open>MicroChat/MainWnd.cpp\<close>: the list of contacts, the conversation of each, the panel that
  shows the conversation of the selected contact, and the messages and clicks that change them. Of DuiLib it has what the window
  relies on: the table of names and the order of a list. Sizes, pictures and downloads are left out. The skin is the one of
  \<^verbatim>\<open>Release/skin\<close>; the controls named there are found.
\<close>

section \<open>Text\<close>

type_synonym wide = "ushort list"

text \<open>\<open>we_mbs\<close>: what \<^verbatim>\<open>%S\<close> makes of a narrow string.\<close>

record wnd_env =
  we_env :: env
  we_mbs :: "bytes \<Rightarrow> wide"

definition CA2W :: "ext \<Rightarrow> bytes \<Rightarrow> wide" where "CA2W E s = to_wide E CP_ACP (c_str s)"
definition CW2A :: "ext \<Rightarrow> wide \<Rightarrow> bytes" where "CW2A E s = from_wide E CP_ACP s"

text \<open>\<^verbatim>\<open>CString::Find\<close>\<close>

fun wfind :: "wide \<Rightarrow> wide \<Rightarrow> nat option" where
  "wfind pat [] = (if pat = [] then Some 0 else None)"
| "wfind pat (c # s) = (if take (length pat) (c # s) = pat then Some 0 else map_option Suc (wfind pat s))"

definition widen :: "bytes \<Rightarrow> wide" where "widen s = map ucast s"

text \<open>The time of a message in the list: the time of day, and for a message that is not of today the date.\<close>

definition time_of_day :: "env \<Rightarrow> dword \<Rightarrow> wide" where
  "time_of_day V t = (let (year, mon, mday, hour, min, sec) = e_localtime V t in widen (dec2 hour @ [58] @ dec2 min @ [58] @ dec2 sec))"

definition message_time :: "env \<Rightarrow> dword \<Rightarrow> wide" where
  "message_time V t =
     (if take 10 (Utc2BeijingTime V t) = take 10 (Utc2BeijingTime V (e_time V)) then time_of_day V t
      else let (year, mon, mday, hour, min, sec) = e_localtime V t
           in widen (dec2 ((year + 1900) smod 1000) @ [47] @ dec2 (mon + 1) @ [47] @ dec2 mday))"

section \<open>State\<close>

record chat_node =
  cn_me :: bool
  cn_content :: wide
  cn_wxid :: wide

text \<open>A row of the contact list with its \<^verbatim>\<open>CNodeInfo\<close>.\<close>

record contact_node =
  cr_name :: wide
  cr_nickname :: wide
  cr_history_msg :: wide
  cr_time :: wide
  msgRecordList :: "chat_node list"
  contactinfo :: ContactInfo

text \<open>The named controls of the skin, and what a name stands for: a row of the contact list, in the order they were made, or
  another control.\<close>

definition main_names :: "wide list" where
  "main_names = map wlit [''myicon'', ''testFriend'', ''main_list'', ''main_friendNickName'', ''main_mini_btn'', ''main_close_btn'',
     ''show_anything'', ''chat_list'', ''biaoqing'', ''dir'', ''screenshot'', ''inputEdit'', ''send'']"
definition list_node_names :: "wide list" where "list_node_names = map wlit [''icon'', ''nickname'', ''time'', ''history_msg'']"
definition chat_node_names :: "wide list" where "chat_node_names = map wlit [''wxid'', ''icon'', ''content'']"

datatype control = ContactControl nat | OtherControl

text \<open>The item of a contact, and the space above it.\<close>

datatype list_item = Spacer | Item nat

datatype wnd_end = Open | Closed | Terminated

record main_wnd =
  mw_names :: "wide \<Rightarrow> control option"
  mw_rows :: "contact_node list"
  mw_list :: "list_item list"
  m_pCurSelContactControlUI :: "nat option"
  mw_title :: wide
  mw_input :: wide
  mw_chat_list :: "chat_node list"
  mw_end :: wnd_end

text \<open>\<^verbatim>\<open>CPaintManagerUI::InitControls\<close>: every control below is entered under its name.\<close>

definition InitControls :: "wide list \<Rightarrow> (wide \<Rightarrow> control option) \<Rightarrow> wide \<Rightarrow> control option" where
  "InitControls ns m = fold (\<lambda>n m. m(n \<mapsto> OtherControl)) ns m"

definition CMainWnd :: main_wnd where
  "CMainWnd = \<lparr> mw_names = InitControls main_names Map.empty, mw_rows = [], mw_list = [], m_pCurSelContactControlUI = None,
     mw_title = [], mw_input = [], mw_chat_list = [], mw_end = Open \<rparr>"

text \<open>\<^verbatim>\<open>CListUI::SetItemIndex\<close> with the index 0.\<close>

definition SetItemIndex0 :: "nat \<Rightarrow> list_item list \<Rightarrow> list_item list" where
  "SetItemIndex0 k xs = (if Item k \<in> set xs then Item k # remove1 (Item k) xs else xs)"

abbreviation upd_row :: "nat \<Rightarrow> (contact_node \<Rightarrow> contact_node) \<Rightarrow> main_wnd \<Rightarrow> main_wnd" where
  "upd_row k f w \<equiv> w\<lparr> mw_rows := (mw_rows w)[k := f (mw_rows w ! k)] \<rparr>"

section \<open>Operations\<close>

text \<open>The list of the conversation is emptied without deleting its items, then filled again.\<close>

definition MainWnd_UpdateRecord :: "main_wnd \<Rightarrow> main_wnd" where
  "MainWnd_UpdateRecord w =
     (case m_pCurSelContactControlUI w of None \<Rightarrow> w
      | Some k \<Rightarrow> let ms = msgRecordList (mw_rows w ! k)
                  in w\<lparr> mw_chat_list := ms, mw_names := (if ms = [] then mw_names w else InitControls chat_node_names (mw_names w)) \<rparr>)"

text \<open>\<^verbatim>\<open>NewOneFrientListNode\<close> gives nothing when the name is taken. The row is entered under its name only when it is added to
  the list, after the controls inside it.\<close>

definition NewOneFrientListNode :: "ext \<Rightarrow> ContactInfo \<Rightarrow> main_wnd \<Rightarrow> (contact_node \<times> main_wnd) option" where
  "NewOneFrientListNode E pInfo w =
     (let name = CA2W E (wxid pInfo) in
      if mw_names w name \<noteq> None then None
      else let strText = CA2W E (Utf82CStringA E (nickName pInfo))
           in Some (\<lparr> cr_name = name, cr_nickname = (if strText = [] then name else strText), cr_history_msg = [], cr_time = [],
                      msgRecordList = [], contactinfo = pInfo \<rparr>,
                    w\<lparr> mw_names := InitControls list_node_names (mw_names w) \<rparr>))"

definition add_friend :: "ext \<Rightarrow> ContactInfo \<Rightarrow> main_wnd \<Rightarrow> main_wnd" where
  "add_friend E pInfo w =
     (case NewOneFrientListNode E pInfo w of None \<Rightarrow> w
      | Some (row, w) \<Rightarrow>
          let k = length (mw_rows w); names = InitControls list_node_names (mw_names w)
          in w\<lparr> mw_rows := mw_rows w @ [row], mw_list := mw_list w @ [Spacer, Item k],
                mw_names := (if cr_name row = [] then names else names(cr_name row \<mapsto> ContactControl k)) \<rparr>)"

definition is_chatroom :: "wide \<Rightarrow> bool" where
  "is_chatroom strFrom \<longleftrightarrow> wfind (wlit ''@chatroom'') strFrom \<noteq> None"

text \<open>In a group the message begins with the name of the speaker, a colon and a line feed.\<close>

definition shown_content :: "wide \<Rightarrow> wide \<Rightarrow> wide" where
  "shown_content strFrom strContent =
     (if is_chatroom strFrom then (case wfind [58] strContent of None \<Rightarrow> strContent | Some i \<Rightarrow> drop (i + 1 + 1) strContent)
      else strContent)"

definition speaker :: "wide \<Rightarrow> wide \<Rightarrow> wide" where
  "speaker strFrom strContent =
     (if is_chatroom strFrom then (case wfind [58] strContent of None \<Rightarrow> [] | Some i \<Rightarrow> take i strContent) else strFrom)"

definition NewOneChatListNodeOther :: "wnd_env \<Rightarrow> NewMsg \<Rightarrow> chat_node" where
  "NewOneChatListNodeOther W pMsg =
     (let V = we_env W; from = CA2W (e_ext V) (szFrom pMsg); content = CA2W (e_ext V) (szContent pMsg)
      in \<lparr> cn_me = False, cn_content = shown_content from content,
           cn_wxid = we_mbs W (Utc2BeijingTime V (utc pMsg)) @ [32] @ speaker from content \<rparr>)"

text \<open>\<^verbatim>\<open>WM_MAIN_ADD_NEW_MSG\<close>. The contact is looked up again after the new item has been made.\<close>

definition add_new_msg :: "wnd_env \<Rightarrow> NewMsg \<Rightarrow> main_wnd \<Rightarrow> main_wnd" where
  "add_new_msg W pMsg w =
     (let from = CA2W (e_ext (we_env W)) (szFrom pMsg) in
      case mw_names w from of
        Some (ContactControl k) \<Rightarrow>
          let node = NewOneChatListNodeOther W pMsg;
              w = upd_row k (\<lambda>r. r\<lparr> msgRecordList := msgRecordList r @ [node] \<rparr>) (w\<lparr> mw_names := InitControls chat_node_names (mw_names w) \<rparr>)
          in (case mw_names w from of
                Some (ContactControl j) \<Rightarrow>
                  let w = upd_row j (\<lambda>r. r\<lparr> cr_history_msg := cn_content node, cr_time := message_time (we_env W) (utc pMsg) \<rparr>)
                            (w\<lparr> mw_list := SetItemIndex0 j (mw_list w) \<rparr>)
                  in if m_pCurSelContactControlUI w = Some j then MainWnd_UpdateRecord w else w
              | _ \<Rightarrow> w)
      | _ \<Rightarrow> w)"

definition NewOneChatListNodeMe :: "wnd_env \<Rightarrow> bytes \<Rightarrow> wide \<Rightarrow> chat_node" where
  "NewOneChatListNodeMe W me strInput =
     \<lparr> cn_me = True, cn_content = strInput,
       cn_wxid = we_mbs W (Utc2BeijingTime (we_env W) (e_time (we_env W))) @ [32] @ we_mbs W me \<rparr>"

text \<open>A click on the button that sends.\<close>

definition send_input :: "wnd_env \<Rightarrow> proc \<times> main_wnd \<Rightarrow> proc \<times> main_wnd" where
  "send_input W s =
     (let (p, w) = s; strInput = mw_input w; E = e_ext (we_env W) in
      if strInput = [] then s
      else case m_pCurSelContactControlUI w of
             None \<Rightarrow> (p, w\<lparr> mw_input := [] \<rparr>)
           | Some k \<Rightarrow>
               let row = mw_rows w ! k; node = NewOneChatListNodeMe W (g_wxid p) strInput;
                   p = NewSendMsg (CStringA2Utf8 E (CW2A E strInput)) (wxid (contactinfo row)) p;
                   w = w\<lparr> mw_names := InitControls chat_node_names (mw_names w), mw_list := SetItemIndex0 k (mw_list w) \<rparr>;
                   w = upd_row k (\<lambda>r. r\<lparr> msgRecordList := msgRecordList r @ [node], cr_history_msg := strInput,
                                         cr_time := time_of_day (we_env W) (e_time (we_env W)) \<rparr>) w
               in (p, (MainWnd_UpdateRecord w)\<lparr> mw_input := [] \<rparr>))"

definition OnItemClick :: "nat \<Rightarrow> main_wnd \<Rightarrow> main_wnd" where
  "OnItemClick k w =
     (if m_pCurSelContactControlUI w = Some k then w
      else MainWnd_UpdateRecord (w\<lparr> m_pCurSelContactControlUI := Some k, mw_title := cr_nickname (mw_rows w ! k) \<rparr>))"

text \<open>\<^verbatim>\<open>InitWindow\<close>: the messages that \<^verbatim>\<open>LoadFromDB\<close> posts find the new window.\<close>

definition MainWnd_InitWindow :: "env \<Rightarrow> proc \<Rightarrow> (proc \<times> main_wnd) res" where
  "MainWnd_InitWindow V p = and_then (LoadFromDB V p) (\<lambda>p. ok (p, CMainWnd))"

section \<open>Messages and clicks\<close>

text \<open>A null pointer is \<open>None\<close>. \<open>MainInput\<close> is what the user types; \<open>MainItemClick\<close> is a click on a row of the contact list.\<close>

datatype main_event = MainAddFriend "ContactInfo option" | MainAddNewMsg "NewMsg option" | MainForceQuit | MainErr
  | MainClick wide | MainReturn wide | MainItemClick nat | MainInput wide

text \<open>\<^verbatim>\<open>_tcsicmp\<close> with a name in lower case.\<close>

definition same_name :: "wide \<Rightarrow> wide \<Rightarrow> bool" where
  "same_name a b \<longleftrightarrow> map (\<lambda>c. if 65 \<le> c \<and> c \<le> 90 then c + 32 else c) a = map (\<lambda>c. if 65 \<le> c \<and> c \<le> 90 then c + 32 else c) b"

definition main_step :: "wnd_env \<Rightarrow> proc \<times> main_wnd \<Rightarrow> main_event \<Rightarrow> proc \<times> main_wnd" where
  "main_step W s e =
     (let (p, w) = s in
      if mw_end w \<noteq> Open then s
      else case e of
        MainAddFriend None \<Rightarrow> s
      | MainAddFriend (Some pInfo) \<Rightarrow> (p, add_friend (e_ext (we_env W)) pInfo w)
      | MainAddNewMsg None \<Rightarrow> s
      | MainAddNewMsg (Some pMsg) \<Rightarrow> (p, add_new_msg W pMsg w)
      | MainForceQuit \<Rightarrow> (p, w\<lparr> mw_end := Terminated \<rparr>)
      | MainErr \<Rightarrow> (p, w\<lparr> mw_end := Closed \<rparr>)
      | MainClick name \<Rightarrow>
          if same_name name (wlit ''main_close_btn'') then (p, w\<lparr> mw_end := Closed \<rparr>)
          else if same_name name (wlit ''main_mini_btn'') \<or> same_name name (wlit ''testFriend'') then s
          else if same_name name (wlit ''send'') then send_input W s
          else s
      | MainReturn name \<Rightarrow> if name = wlit ''inputEdit'' then send_input W s else s
      | MainItemClick k \<Rightarrow> if k < length (mw_rows w) then (p, OnItemClick k w) else s
      | MainInput t \<Rightarrow> (p, w\<lparr> mw_input := t \<rparr>))"

definition run_main :: "(wnd_env \<times> main_event) list \<Rightarrow> proc \<times> main_wnd \<Rightarrow> proc \<times> main_wnd" where
  "run_main es s = fold (\<lambda>(W, e) s. main_step W s e) es s"

end
