(* ===== verification/Main_Laws.thy ===== *)
theory Main_Laws imports Main_Window begin

text \<open>
  What the main window shows. The specification knows nothing of controls and tables of names: contacts with a conversation each,
  an order, a selection. The lemmas show that after any sequence of messages and clicks the screen is the one it gives, and that exactly
  what was sent went to the network.
\<close>

section \<open>Specification\<close>

record chat_spec =
  sp_contacts :: "wide list"
  sp_order :: "wide list"
  sp_nickname :: "wide \<Rightarrow> wide"
  sp_to :: "wide \<Rightarrow> bytes"
  sp_conversation :: "wide \<Rightarrow> chat_node list"
  sp_preview :: "wide \<Rightarrow> wide \<times> wide"
  sp_selected :: "wide option"
  sp_input :: wide
  sp_end :: wnd_end
  sp_sent :: "(bytes \<times> bytes) list"

definition no_contacts :: chat_spec where
  "no_contacts = \<lparr> sp_contacts = [], sp_order = [], sp_nickname = (\<lambda>_. []), sp_to = (\<lambda>_. []), sp_conversation = (\<lambda>_. []),
     sp_preview = (\<lambda>_. ([], [])), sp_selected = None, sp_input = [], sp_end = Open, sp_sent = [] \<rparr>"

definition new_contact :: "ext \<Rightarrow> ContactInfo \<Rightarrow> chat_spec \<Rightarrow> chat_spec" where
  "new_contact E c s =
     (let n = CA2W E (wxid c); nick = CA2W E (Utf82CStringA E (nickName c)) in
      if n \<in> set (sp_contacts s) then s
      else s\<lparr> sp_contacts := sp_contacts s @ [n], sp_order := sp_order s @ [n],
              sp_nickname := (sp_nickname s)(n := if nick = [] then n else nick), sp_to := (sp_to s)(n := wxid c) \<rparr>)"

text \<open>Something is said in the conversation of \<open>n\<close>: the conversation grows, the contact goes to the top.\<close>

definition said :: "wide \<Rightarrow> chat_node \<Rightarrow> wide \<Rightarrow> chat_spec \<Rightarrow> chat_spec" where
  "said n node time s =
     s\<lparr> sp_conversation := (sp_conversation s)(n := sp_conversation s n @ [node]), sp_order := n # remove1 n (sp_order s),
        sp_preview := (sp_preview s)(n := (cn_content node, time)) \<rparr>"

definition spec_send :: "wnd_env \<Rightarrow> bytes \<Rightarrow> chat_spec \<Rightarrow> chat_spec" where
  "spec_send W me s =
     (let V = we_env W; t = sp_input s in
      if t = [] then s
      else case sp_selected s of None \<Rightarrow> s\<lparr> sp_input := [] \<rparr>
           | Some n \<Rightarrow> (said n (NewOneChatListNodeMe W me t) (time_of_day V (e_time V)) s)
                         \<lparr> sp_input := [], sp_sent := sp_sent s @ [(CStringA2Utf8 (e_ext V) (CW2A (e_ext V) t), sp_to s n)] \<rparr>)"

definition spec_step :: "bytes \<Rightarrow> wnd_env \<Rightarrow> chat_spec \<Rightarrow> main_event \<Rightarrow> chat_spec" where
  "spec_step me W s e =
     (if sp_end s \<noteq> Open then s
      else case e of
        MainAddFriend (Some c) \<Rightarrow> new_contact (e_ext (we_env W)) c s
      | MainAddNewMsg (Some m) \<Rightarrow>
          let n = CA2W (e_ext (we_env W)) (szFrom m)
          in if n \<in> set (sp_contacts s) then said n (NewOneChatListNodeOther W m) (message_time (we_env W) (utc m)) s else s
      | MainForceQuit \<Rightarrow> s\<lparr> sp_end := Terminated \<rparr>
      | MainErr \<Rightarrow> s\<lparr> sp_end := Closed \<rparr>
      | MainClick name \<Rightarrow>
          if same_name name (wlit ''main_close_btn'') then s\<lparr> sp_end := Closed \<rparr>
          else if same_name name (wlit ''send'') then spec_send W me s else s
      | MainReturn name \<Rightarrow> if name = wlit ''inputEdit'' then spec_send W me s else s
      | MainItemClick k \<Rightarrow> if k < length (sp_contacts s) then s\<lparr> sp_selected := Some (sp_contacts s ! k) \<rparr> else s
      | MainInput t \<Rightarrow> s\<lparr> sp_input := t \<rparr>
      | _ \<Rightarrow> s)"

definition spec_run :: "bytes \<Rightarrow> (wnd_env \<times> main_event) list \<Rightarrow> chat_spec \<Rightarrow> chat_spec" where
  "spec_run me es s = fold (\<lambda>(W, e) s. spec_step me W s e) es s"

section \<open>The screen\<close>

text \<open>Contacts from top to bottom, each with its nickname, the last thing said and its time; the title and the conversation panel; the
  input.\<close>

record screen =
  sc_contacts :: "(wide \<times> wide \<times> wide \<times> wide) list"
  sc_title :: wide
  sc_panel :: "chat_node list"
  sc_input :: wide
  sc_end :: wnd_end

primrec items :: "list_item list \<Rightarrow> nat list" where
  "items [] = []"
| "items (x # xs) = (case x of Spacer \<Rightarrow> items xs | Item k \<Rightarrow> k # items xs)"

definition screen_of :: "main_wnd \<Rightarrow> screen" where
  "screen_of w = \<lparr> sc_contacts = map (\<lambda>k. let r = mw_rows w ! k in (cr_name r, cr_nickname r, cr_history_msg r, cr_time r)) (items (mw_list w)),
     sc_title = mw_title w, sc_panel = mw_chat_list w, sc_input = mw_input w, sc_end = mw_end w \<rparr>"

definition spec_screen :: "chat_spec \<Rightarrow> screen" where
  "spec_screen s = \<lparr> sc_contacts = map (\<lambda>n. (n, sp_nickname s n, sp_preview s n)) (sp_order s),
     sc_title = (case sp_selected s of None \<Rightarrow> [] | Some n \<Rightarrow> sp_nickname s n),
     sc_panel = (case sp_selected s of None \<Rightarrow> [] | Some n \<Rightarrow> sp_conversation s n), sc_input = sp_input s, sc_end = sp_end s \<rparr>"

section \<open>Invariant\<close>

definition reserved :: "wide list" where
  "reserved = [] # main_names @ list_node_names @ chat_node_names"

lemma InitControls_at: "InitControls ns m n = (if n \<in> set ns then Some OtherControl else m n)"
proof -
  have "fold (\<lambda>n m. m(n \<mapsto> OtherControl)) ns m n = (if n \<in> set ns then Some OtherControl else m n)"
    by (induction ns arbitrary: m) auto
  then show ?thesis by (simp add: InitControls_def)
qed

text \<open>The table of names leads to the rows, and to nothing else under a name that the skin does not use.\<close>

definition names_ok :: "main_wnd \<Rightarrow> bool" where
  "names_ok w \<longleftrightarrow> (\<forall>n k. mw_names w n = Some (ContactControl k) \<longleftrightarrow> k < length (mw_rows w) \<and> cr_name (mw_rows w ! k) = n)
     \<and> (\<forall>n. mw_names w n = Some OtherControl \<longrightarrow> n \<in> set reserved) \<and> (\<forall>r \<in> set (mw_rows w). cr_name r \<notin> set reserved)"

definition list_ok :: "main_wnd \<Rightarrow> bool" where
  "list_ok w \<longleftrightarrow> distinct (items (mw_list w)) \<and> set (items (mw_list w)) = {..<length (mw_rows w)}"

definition row_key :: "contact_node \<Rightarrow> wide \<times> wide \<times> bytes \<times> chat_node list \<times> wide \<times> wide" where
  "row_key r = (cr_name r, cr_nickname r, wxid (contactinfo r), msgRecordList r, cr_history_msg r, cr_time r)"

definition spec_key :: "chat_spec \<Rightarrow> wide \<Rightarrow> wide \<times> wide \<times> bytes \<times> chat_node list \<times> wide \<times> wide" where
  "spec_key s n = (n, sp_nickname s n, sp_to s n, sp_conversation s n, sp_preview s n)"

definition simulates :: "chat_spec \<Rightarrow> main_wnd \<Rightarrow> bool" where
  "simulates s w \<longleftrightarrow> names_ok w \<and> list_ok w \<and> map row_key (mw_rows w) = map (spec_key s) (sp_contacts s)
     \<and> map (\<lambda>k. sp_contacts s ! k) (items (mw_list w)) = sp_order s
     \<and> (case m_pCurSelContactControlUI w of None \<Rightarrow> sp_selected s = None \<and> mw_title w = [] \<and> mw_chat_list w = []
        | Some k \<Rightarrow> k < length (mw_rows w) \<and> sp_selected s = Some (sp_contacts s ! k)
            \<and> mw_title w = sp_nickname s (sp_contacts s ! k) \<and> mw_chat_list w = sp_conversation s (sp_contacts s ! k))
     \<and> mw_input w = sp_input s \<and> mw_end w = sp_end s
     \<and> (\<forall>n. n \<notin> set (sp_contacts s) \<longrightarrow> sp_conversation s n = [] \<and> sp_preview s n = ([], []))"

lemma names_set: "set list_node_names \<subseteq> set reserved" "set chat_node_names \<subseteq> set reserved" "set main_names \<subseteq> set reserved"
  by (auto simp: reserved_def)

lemma names_ok_init:
  assumes "names_ok w" "set ns \<subseteq> set reserved"
  shows "names_ok (w\<lparr> mw_names := InitControls ns (mw_names w) \<rparr>)"
proof -
  have "cr_name (mw_rows w ! k) \<notin> set ns" if "k < length (mw_rows w)" for k
    using assms that nth_mem [OF that] by (auto simp: names_ok_def)
  then show ?thesis using assms by (auto simp: names_ok_def InitControls_at)
qed

lemma names_ok_cong:
  assumes "names_ok w" "map cr_name (mw_rows w') = map cr_name (mw_rows w)" "mw_names w' = mw_names w"
  shows "names_ok w'"
proof -
  have l: "length (mw_rows w') = length (mw_rows w)" using assms(2) by (metis length_map)
  have nm: "cr_name (mw_rows w' ! k) = cr_name (mw_rows w ! k)" if "k < length (mw_rows w)" for k
    using assms(2) that l by (metis nth_map)
  have n: "mw_names w n = Some (ContactControl k) \<longleftrightarrow> k < length (mw_rows w) \<and> cr_name (mw_rows w ! k) = n"
      "mw_names w n = Some OtherControl \<Longrightarrow> n \<in> set reserved" "r \<in> set (mw_rows w) \<Longrightarrow> cr_name r \<notin> set reserved" for n k r
    using assms(1) by (simp_all add: names_ok_def)
  show ?thesis unfolding names_ok_def
  proof (intro conjI allI ballI impI)
    fix n k show "mw_names w' n = Some (ContactControl k) \<longleftrightarrow> k < length (mw_rows w') \<and> cr_name (mw_rows w' ! k) = n"
      using nm n(1) l by (auto simp: assms(3))
  next
    fix r assume "r \<in> set (mw_rows w')"
    then have "cr_name r \<in> set (map cr_name (mw_rows w))" unfolding assms(2) [symmetric] by simp
    then show "cr_name r \<notin> set reserved" using n(3) by auto
  qed (use n(2) in \<open>simp add: assms(3)\<close>)
qed

lemma simulates_rows:
  assumes "simulates s w"
  shows "length (mw_rows w) = length (sp_contacts s)"
    and "k < length (sp_contacts s) \<Longrightarrow> row_key (mw_rows w ! k) = spec_key s (sp_contacts s ! k)"
    and "distinct (sp_contacts s)" and "set (sp_contacts s) \<inter> set reserved = {}"
proof -
  have m: "map row_key (mw_rows w) = map (spec_key s) (sp_contacts s)" and n: "names_ok w" using assms by (auto simp: simulates_def)
  show l: "length (mw_rows w) = length (sp_contacts s)" using m by (metis length_map)
  show r: "row_key (mw_rows w ! k) = spec_key s (sp_contacts s ! k)" if "k < length (sp_contacts s)" for k
    using m that l by (metis nth_map)
  then have c: "cr_name (mw_rows w ! k) = sp_contacts s ! k" if "k < length (sp_contacts s)" for k
    using that by (simp add: row_key_def spec_key_def)
  show "distinct (sp_contacts s)"
    using n c l unfolding distinct_conv_nth names_ok_def by (metis option.inject control.inject)
  have "map cr_name (mw_rows w) = sp_contacts s" using c l by (auto intro: nth_equalityI)
  then have "set (sp_contacts s) = cr_name ` set (mw_rows w)" by (metis set_map)
  then show "set (sp_contacts s) \<inter> set reserved = {}" using n by (auto simp: names_ok_def)
qed

lemma simulates_contact:
  assumes "simulates s w"
  shows "mw_names w n = Some (ContactControl k) \<longleftrightarrow> k < length (sp_contacts s) \<and> sp_contacts s ! k = n"
  using assms simulates_rows(1,2) [OF assms] by (auto simp: simulates_def names_ok_def row_key_def spec_key_def)

lemma simulates_known: "simulates s w \<Longrightarrow> (\<exists>k. mw_names w n = Some (ContactControl k)) \<longleftrightarrow> n \<in> set (sp_contacts s)"
  by (simp add: simulates_contact in_set_conv_nth)

lemma simulates_free: "simulates s w \<Longrightarrow> n \<notin> set reserved \<Longrightarrow> mw_names w n = None \<longleftrightarrow> n \<notin> set (sp_contacts s)"
  using simulates_known [of s w n] by (cases "mw_names w n"; cases "the (mw_names w n)") (auto simp: simulates_def names_ok_def)

section \<open>The list\<close>

lemma items_append [simp]: "items (xs @ ys) = items xs @ items ys"
  by (induction xs) (auto split: list_item.split)

lemma items_set: "Item k \<in> set xs \<longleftrightarrow> k \<in> set (items xs)"
  by (induction xs) (auto split: list_item.splits)

lemma items_remove: "items (remove1 (Item k) xs) = remove1 k (items xs)"
  by (induction xs) (auto split: list_item.splits)

lemma items_front: "k \<in> set (items xs) \<Longrightarrow> items (SetItemIndex0 k xs) = k # remove1 k (items xs)"
  by (simp add: SetItemIndex0_def items_set items_remove)

lemma map_remove1: "inj_on f (insert x (set xs)) \<Longrightarrow> map f (remove1 x xs) = remove1 (f x) (map f xs)"
  by (induction xs) (auto simp: inj_on_def)

section \<open>Steps\<close>

lemma update_keys:
  assumes "simulates s w" "k < length (sp_contacts s)" "row_key r = spec_key s' (sp_contacts s ! k)"
    and "\<And>n. n \<noteq> sp_contacts s ! k \<Longrightarrow> spec_key s' n = spec_key s n"
  shows "map row_key ((mw_rows w)[k := r]) = map (spec_key s') (sp_contacts s)"
proof (rule nth_equalityI)
  note r = simulates_rows [OF assms(1)]
  show "length (map row_key ((mw_rows w)[k := r])) = length (map (spec_key s') (sp_contacts s))" by (simp add: r(1))
  fix i assume i: "i < length (map row_key ((mw_rows w)[k := r]))"
  then have "sp_contacts s ! i = sp_contacts s ! k \<longleftrightarrow> i = k" using r(1,3) assms(2) by (simp add: nth_eq_iff_index_eq)
  then show "map row_key ((mw_rows w)[k := r]) ! i = map (spec_key s') (sp_contacts s) ! i"
    using i r(1) r(2) [of i] assms(3,4) by (cases "i = k") auto
qed

lemma MainWnd_UpdateRecord_rest [simp]:
  "mw_rows (MainWnd_UpdateRecord w) = mw_rows w" "mw_list (MainWnd_UpdateRecord w) = mw_list w" "mw_title (MainWnd_UpdateRecord w) = mw_title w"
  "mw_input (MainWnd_UpdateRecord w) = mw_input w" "mw_end (MainWnd_UpdateRecord w) = mw_end w"
  "m_pCurSelContactControlUI (MainWnd_UpdateRecord w) = m_pCurSelContactControlUI w"
  by (simp_all add: MainWnd_UpdateRecord_def Let_def split: option.split)

lemma MainWnd_UpdateRecord_names: "names_ok w \<Longrightarrow> names_ok (MainWnd_UpdateRecord w)"
  using names_ok_cong [OF names_ok_init [OF _ names_set(2)], of w "MainWnd_UpdateRecord w"] names_ok_cong [of w "MainWnd_UpdateRecord w"]
  by (auto simp: MainWnd_UpdateRecord_def Let_def split: option.split)

lemma list_front:
  assumes "list_ok w" "k < length (mw_rows w)" "mw_list w' = SetItemIndex0 k (mw_list w)" "length (mw_rows w') = length (mw_rows w)"
  shows "list_ok w'" "items (mw_list w') = k # remove1 k (items (mw_list w))"
proof -
  have k: "k \<in> set (items (mw_list w))" "distinct (items (mw_list w))" using assms(1,2) by (auto simp: list_ok_def)
  then show i: "items (mw_list w') = k # remove1 k (items (mw_list w))" by (simp add: assms(3) items_front)
  show "list_ok w'" using assms(1,2,4) k by (auto simp: list_ok_def i)
qed

lemma order_front:
  assumes "simulates s w" "k < length (sp_contacts s)"
  shows "map (\<lambda>k. sp_contacts s ! k) (k # remove1 k (items (mw_list w))) = sp_contacts s ! k # remove1 (sp_contacts s ! k) (sp_order s)"
proof -
  have i: "set (items (mw_list w)) = {..<length (sp_contacts s)}" "map (\<lambda>k. sp_contacts s ! k) (items (mw_list w)) = sp_order s"
    using assms(1) simulates_rows(1) [OF assms(1)] by (auto simp: simulates_def list_ok_def)
  have "inj_on (\<lambda>k. sp_contacts s ! k) {..<length (sp_contacts s)}"
    using simulates_rows(3) [OF assms(1)] by (simp add: inj_on_def nth_eq_iff_index_eq)
  then show ?thesis using assms(2) by (simp add: map_remove1 i insert_absorb)
qed

lemma simulates_said:
  assumes s: "simulates s w" and k: "k < length (sp_contacts s)" and n: "n = sp_contacts s ! k"
    and r: "row_key r = spec_key (said n node time s) n" "mw_rows w' = (mw_rows w)[k := r]"
    and w': "mw_names w' = InitControls chat_node_names (mw_names w)" "mw_list w' = SetItemIndex0 k (mw_list w)"
      "m_pCurSelContactControlUI w' = m_pCurSelContactControlUI w" "mw_title w' = mw_title w" "mw_input w' = mw_input w"
      "mw_end w' = mw_end w" "mw_chat_list w' = mw_chat_list w"
  shows "simulates (said n node time s) (if m_pCurSelContactControlUI w = Some k then MainWnd_UpdateRecord w' else w')"
proof -
  let ?s = "said n node time s" let ?w = "if m_pCurSelContactControlUI w = Some k then MainWnd_UpdateRecord w' else w'"
  note rows = simulates_rows [OF s]
  have c: "sp_contacts ?s = sp_contacts s" "sp_selected ?s = sp_selected s" "sp_nickname ?s = sp_nickname s" "sp_input ?s = sp_input s"
    "sp_end ?s = sp_end s" "sp_order ?s = n # remove1 n (sp_order s)" by (simp_all add: said_def)
  have keys: "map row_key (mw_rows w') = map (spec_key ?s) (sp_contacts ?s)" unfolding r(2) c(1)
    using update_keys [OF s k, of r ?s] r(1) n by (simp add: spec_key_def said_def)
  have nk: "cr_name r = cr_name (mw_rows w ! k)" using r(1) rows(2) [OF k] n by (simp add: row_key_def spec_key_def)
  have names: "names_ok w'"
    using names_ok_cong [OF names_ok_init [OF _ names_set(2)], of w w'] s nk
    by (simp add: simulates_def w'(1) r(2) map_update) (metis list_update_id map_update)
  have l: "list_ok w'" "items (mw_list w') = k # remove1 k (items (mw_list w))"
    using list_front [of w k w'] s k rows(1) by (simp_all add: simulates_def w'(2) r(2))
  have order: "map (\<lambda>k. sp_contacts s ! k) (items (mw_list w')) = sp_order ?s"
    unfolding l(2) c(6) using order_front [OF s k] by (simp add: n)
  have mem: "n \<in> set (sp_contacts s)" using k n by simp
  have sel: "case m_pCurSelContactControlUI ?w of None \<Rightarrow> sp_selected ?s = None \<and> mw_title ?w = [] \<and> mw_chat_list ?w = []
     | Some j \<Rightarrow> j < length (mw_rows ?w) \<and> sp_selected ?s = Some (sp_contacts ?s ! j)
         \<and> mw_title ?w = sp_nickname ?s (sp_contacts ?s ! j) \<and> mw_chat_list ?w = sp_conversation ?s (sp_contacts ?s ! j)"
  proof (cases "m_pCurSelContactControlUI w")
    case None
    then show ?thesis using s w' by (simp add: simulates_def c)
  next
    case (Some j)
    then have j: "j < length (sp_contacts s)" "sp_selected s = Some (sp_contacts s ! j)" "mw_title w = sp_nickname s (sp_contacts s ! j)"
      "mw_chat_list w = sp_conversation s (sp_contacts s ! j)" using s rows(1) by (simp_all add: simulates_def)
    have "msgRecordList r = sp_conversation ?s n" using r(1) by (simp add: row_key_def spec_key_def)
    then show ?thesis using Some j w' rows(1,3) k n
      by (cases "j = k") (auto simp: c r(2) MainWnd_UpdateRecord_def Let_def said_def nth_eq_iff_index_eq)
  qed
  have w: "mw_rows ?w = mw_rows w'" "mw_list ?w = mw_list w'" "names_ok ?w" "list_ok ?w" "mw_input ?w = mw_input w" "mw_end ?w = mw_end w"
    using names MainWnd_UpdateRecord_names l(1) w'(5,6) by (simp_all add: list_ok_def)
  have rest: "\<forall>m. m \<notin> set (sp_contacts ?s) \<longrightarrow> sp_conversation ?s m = [] \<and> sp_preview ?s m = ([], [])"
    using s mem by (auto simp: simulates_def said_def)
  have "mw_input w = sp_input ?s" "mw_end w = sp_end ?s" using s by (simp_all add: simulates_def c)
  then show ?thesis unfolding simulates_def w using w(3,4) keys order sel [unfolded w] rest by (simp only: c simp_thms)
qed

lemma simulates_msg:
  assumes "simulates s w" "CA2W (e_ext (we_env W)) (szFrom m) = n"
  shows "simulates (if n \<in> set (sp_contacts s) then said n (NewOneChatListNodeOther W m) (message_time (we_env W) (utc m)) s else s)
    (add_new_msg W m w)"
proof (cases "n \<in> set (sp_contacts s)")
  case False
  then have "\<not> (\<exists>k. mw_names w n = Some (ContactControl k))" using simulates_known [OF assms(1)] by simp
  then have "add_new_msg W m w = w" by (auto simp: add_new_msg_def assms(2) Let_def split: option.split control.split)
  then show ?thesis using False assms(1) by simp
next
  case True
  then obtain k where k: "k < length (sp_contacts s)" "n = sp_contacts s ! k" by (auto simp: in_set_conv_nth)
  then have l: "mw_names w n = Some (ContactControl k)" using simulates_contact [OF assms(1)] by simp
  have "n \<notin> set chat_node_names" using True simulates_rows(4) [OF assms(1)] names_set by blast
  then have l2: "InitControls chat_node_names (mw_names w) n = Some (ContactControl k)" by (simp add: InitControls_at l)
  let ?node = "NewOneChatListNodeOther W m" let ?t = "message_time (we_env W) (utc m)"
  let ?r = "(mw_rows w ! k)\<lparr> msgRecordList := msgRecordList (mw_rows w ! k) @ [?node], cr_history_msg := cn_content ?node, cr_time := ?t \<rparr>"
  let ?w = "w\<lparr> mw_names := InitControls chat_node_names (mw_names w), mw_list := SetItemIndex0 k (mw_list w), mw_rows := (mw_rows w)[k := ?r] \<rparr>"
  have kl: "k < length (mw_rows w)" using k(1) simulates_rows(1) [OF assms(1)] by simp
  have "row_key ?r = spec_key (said n ?node ?t s) n"
    using simulates_rows(2) [OF assms(1) k(1)] k(2) by (simp add: row_key_def spec_key_def said_def)
  from simulates_said [OF assms(1) k this, of ?w]
  have "simulates (said n ?node ?t s) (if m_pCurSelContactControlUI w = Some k then MainWnd_UpdateRecord ?w else ?w)" by simp
  moreover have "add_new_msg W m w = (if m_pCurSelContactControlUI w = Some k then MainWnd_UpdateRecord ?w else ?w)"
    using l l2 kl by (simp add: add_new_msg_def assms(2) Let_def)
  ultimately show ?thesis using True by simp
qed

lemma simulates_input:
  assumes "simulates s w"
  shows "simulates (s\<lparr> sp_input := t \<rparr>) (w\<lparr> mw_input := t \<rparr>)" "simulates (s\<lparr> sp_input := t, sp_sent := x \<rparr>) (w\<lparr> mw_input := t \<rparr>)"
    "simulates (s\<lparr> sp_end := e \<rparr>) (w\<lparr> mw_end := e \<rparr>)"
proof -
  have k: "spec_key (s\<lparr> sp_input := t \<rparr>) = spec_key s" "spec_key (s\<lparr> sp_input := t, sp_sent := x \<rparr>) = spec_key s"
    "spec_key (s\<lparr> sp_end := e \<rparr>) = spec_key s" by (simp_all add: spec_key_def fun_eq_iff)
  show "simulates (s\<lparr> sp_input := t \<rparr>) (w\<lparr> mw_input := t \<rparr>)" "simulates (s\<lparr> sp_input := t, sp_sent := x \<rparr>) (w\<lparr> mw_input := t \<rparr>)"
    "simulates (s\<lparr> sp_end := e \<rparr>) (w\<lparr> mw_end := e \<rparr>)"
    using assms unfolding simulates_def names_ok_def list_ok_def k by (cases "m_pCurSelContactControlUI w"; simp)+
qed

lemma simulates_send:
  assumes "simulates s w" "send_input W (p, w) = (q, v)"
  shows "simulates (spec_send W (g_wxid p) s) v
    \<and> (\<exists>ms. sp_sent (spec_send W (g_wxid p) s) = sp_sent s @ ms \<and> q = fold (\<lambda>(c, t). NewSendMsg c t) ms p)"
proof -
  have inp: "mw_input w = sp_input s" using assms(1) by (simp add: simulates_def)
  show ?thesis
  proof (cases "sp_input s = []")
    case True
    then show ?thesis using assms inp by (simp add: send_input_def spec_send_def)
  next
    case False
    show ?thesis
    proof (cases "m_pCurSelContactControlUI w")
      case None
      then have "sp_selected s = None" using assms(1) by (simp add: simulates_def)
      then show ?thesis using False None assms inp
        by (auto simp: send_input_def spec_send_def intro: simulates_input(1))
    next
      case (Some k)
      then have k: "k < length (sp_contacts s)" "sp_selected s = Some (sp_contacts s ! k)" and kl: "k < length (mw_rows w)"
        using assms(1) simulates_rows(1) [OF assms(1)] by (simp_all add: simulates_def)
      let ?n = "sp_contacts s ! k" let ?V = "we_env W"
      let ?node = "NewOneChatListNodeMe W (g_wxid p) (sp_input s)" let ?t = "time_of_day ?V (e_time ?V)"
      let ?r = "(mw_rows w ! k)\<lparr> msgRecordList := msgRecordList (mw_rows w ! k) @ [?node], cr_history_msg := sp_input s, cr_time := ?t \<rparr>"
      let ?w = "w\<lparr> mw_names := InitControls chat_node_names (mw_names w), mw_list := SetItemIndex0 k (mw_list w), mw_rows := (mw_rows w)[k := ?r] \<rparr>"
      have key: "row_key (mw_rows w ! k) = spec_key s ?n" by (rule simulates_rows(2) [OF assms(1) k(1)])
      have "row_key ?r = spec_key (said ?n ?node ?t s) ?n"
        using key by (simp add: row_key_def spec_key_def said_def NewOneChatListNodeMe_def)
      from simulates_said [OF assms(1) k(1) refl this, of ?w] have "simulates (said ?n ?node ?t s) (MainWnd_UpdateRecord ?w)" using Some by simp
      note sim = simulates_input(2) [OF this]
      have to: "wxid (contactinfo (mw_rows w ! k)) = sp_to s ?n" using key by (simp add: row_key_def spec_key_def)
      have "(q, v) = (NewSendMsg (CStringA2Utf8 (e_ext ?V) (CW2A (e_ext ?V) (sp_input s))) (sp_to s ?n) p, (MainWnd_UpdateRecord ?w)\<lparr> mw_input := [] \<rparr>)"
        using assms(2) inp False Some by (simp add: send_input_def to Let_def)
      then show ?thesis using sim k(2) False by (simp add: spec_send_def Let_def)
    qed
  qed
qed

lemma simulates_click:
  assumes "simulates s w" "k < length (mw_rows w)"
  shows "simulates (s\<lparr> sp_selected := Some (sp_contacts s ! k) \<rparr>) (OnItemClick k w)"
proof -
  let ?s = "s\<lparr> sp_selected := Some (sp_contacts s ! k) \<rparr>"
  let ?w = "w\<lparr> m_pCurSelContactControlUI := Some k, mw_title := cr_nickname (mw_rows w ! k) \<rparr>"
  have k: "k < length (sp_contacts s)" using assms simulates_rows(1) by metis
  have key: "row_key (mw_rows w ! k) = spec_key s (sp_contacts s ! k)" by (rule simulates_rows(2) [OF assms(1) k])
  have sk: "spec_key ?s = spec_key s" by (simp add: spec_key_def fun_eq_iff)
  show ?thesis
  proof (cases "m_pCurSelContactControlUI w = Some k")
    case True
    then have "?s = s" using assms(1) by (simp add: simulates_def)
    then show ?thesis using True assms(1) by (simp add: OnItemClick_def)
  next
    case False
    have n: "names_ok (MainWnd_UpdateRecord ?w)" using assms(1) MainWnd_UpdateRecord_names [of ?w] by (simp add: simulates_def names_ok_def)
    have "mw_chat_list (MainWnd_UpdateRecord ?w) = sp_conversation s (sp_contacts s ! k)" "mw_title ?w = sp_nickname s (sp_contacts s ! k)"
      using key by (simp_all add: MainWnd_UpdateRecord_def row_key_def spec_key_def Let_def)
    then show ?thesis using False assms n unfolding simulates_def sk by (simp add: OnItemClick_def list_ok_def)
  qed
qed

lemma simulates_friend:
  assumes s: "simulates s w" and n: "CA2W E (wxid c) \<notin> set reserved"
  shows "simulates (new_contact E c s) (add_friend E c w)"
proof (cases "CA2W E (wxid c) \<in> set (sp_contacts s)")
  case True
  then show ?thesis using s simulates_free [OF s n]
    by (simp add: new_contact_def add_friend_def NewOneFrientListNode_def Let_def)
next
  case False
  let ?n = "CA2W E (wxid c)" let ?nick = "CA2W E (Utf82CStringA E (nickName c))" let ?k = "length (mw_rows w)"
  let ?row = "\<lparr> cr_name = ?n, cr_nickname = (if ?nick = [] then ?n else ?nick), cr_history_msg = [], cr_time = [], msgRecordList = [], contactinfo = c \<rparr>"
  let ?m = "InitControls list_node_names (InitControls list_node_names (mw_names w))"
  let ?w = "w\<lparr> mw_names := ?m(?n \<mapsto> ContactControl ?k), mw_rows := mw_rows w @ [?row], mw_list := mw_list w @ [Spacer, Item ?k] \<rparr>"
  let ?s = "new_contact E c s"
  note rows = simulates_rows [OF s]
  have free: "mw_names w ?n = None" "?n \<noteq> []" using simulates_free [OF s n] False n by (auto simp: reserved_def)
  then have w: "add_friend E c w = ?w" by (simp add: add_friend_def NewOneFrientListNode_def Let_def)
  have ns: "?s = s\<lparr> sp_contacts := sp_contacts s @ [?n], sp_order := sp_order s @ [?n],
      sp_nickname := (sp_nickname s)(?n := if ?nick = [] then ?n else ?nick), sp_to := (sp_to s)(?n := wxid c) \<rparr>"
    using False by (simp add: new_contact_def Let_def)
  have ok: "names_ok (w\<lparr> mw_names := ?m \<rparr>)"
    using names_ok_init [OF names_ok_init [OF _ names_set(1)] names_set(1), of w] s by (simp add: simulates_def)
  have mn: "?m ?n = None" using free(1) n names_set(1) by (auto simp: InitControls_at)
  have fresh: "\<forall>k < length (mw_rows w). cr_name (mw_rows w ! k) \<noteq> ?n" using free(1) s unfolding simulates_def names_ok_def by (metis option.distinct(1))
  have names: "names_ok ?w" using ok fresh n mn by (auto simp: names_ok_def nth_append less_Suc_eq)
  have list: "list_ok ?w" using s by (auto simp: simulates_def list_ok_def lessThan_Suc)
  have old: "spec_key ?s m = spec_key s m" if "m \<in> set (sp_contacts s)" for m using that False by (auto simp: ns spec_key_def)
  have new: "sp_conversation s ?n = []" "sp_preview s ?n = ([], [])" using s False by (auto simp: simulates_def)
  have keys: "map row_key (mw_rows ?w) = map (spec_key ?s) (sp_contacts ?s)"
  proof -
    have "map (spec_key ?s) (sp_contacts s) = map (spec_key s) (sp_contacts s)" using old by simp
    moreover have "row_key ?row = spec_key ?s ?n" using new by (simp add: row_key_def spec_key_def ns)
    moreover have "sp_contacts ?s = sp_contacts s @ [?n]" by (simp add: ns)
    ultimately show ?thesis using s by (simp add: simulates_def)
  qed
  have it: "set (items (mw_list w)) = {..<length (sp_contacts s)}" using s rows(1) by (simp add: simulates_def list_ok_def)
  have o: "map (\<lambda>k. sp_contacts s ! k) (items (mw_list w)) = sp_order s" using s by (simp add: simulates_def)
  have "map (\<lambda>k. sp_contacts ?s ! k) (items (mw_list w)) = sp_order s" unfolding o [symmetric] using it by (auto simp: ns nth_append)
  then have order: "map (\<lambda>k. sp_contacts ?s ! k) (items (mw_list ?w)) = sp_order ?s" using rows(1) by (simp add: ns)
  have sel: "sp_contacts ?s ! k = sp_contacts s ! k \<and> sp_nickname ?s (sp_contacts s ! k) = sp_nickname s (sp_contacts s ! k)"
    if "k < length (sp_contacts s)" for k
  proof -
    have "sp_contacts s ! k \<noteq> ?n" using that False nth_mem by metis
    then show ?thesis using that by (simp add: ns nth_append)
  qed
  have fs: "sp_selected ?s = sp_selected s" "sp_conversation ?s = sp_conversation s" "sp_preview ?s = sp_preview s" "sp_input ?s = sp_input s"
    "sp_end ?s = sp_end s" "set (sp_contacts s) \<subseteq> set (sp_contacts ?s)" by (auto simp: ns)
  have shown: "case m_pCurSelContactControlUI ?w of None \<Rightarrow> sp_selected ?s = None \<and> mw_title ?w = [] \<and> mw_chat_list ?w = []
     | Some k \<Rightarrow> k < length (mw_rows ?w) \<and> sp_selected ?s = Some (sp_contacts ?s ! k)
         \<and> mw_title ?w = sp_nickname ?s (sp_contacts ?s ! k) \<and> mw_chat_list ?w = sp_conversation ?s (sp_contacts ?s ! k)"
    using s sel rows(1) by (cases "m_pCurSelContactControlUI w") (simp_all add: simulates_def fs)
  have rest: "mw_input ?w = sp_input ?s" "mw_end ?w = sp_end ?s"
    "\<forall>n. n \<notin> set (sp_contacts ?s) \<longrightarrow> sp_conversation ?s n = [] \<and> sp_preview ?s n = ([], [])"
    using s fs(6) by (auto simp: simulates_def fs(1-5))
  show ?thesis unfolding w simulates_def by (intro conjI names list keys order shown rest)
qed

text \<open>A new contact does not have the name of a control of the skin.\<close>

definition plain_friend :: "wnd_env \<Rightarrow> main_event \<Rightarrow> bool" where
  "plain_friend W e \<longleftrightarrow> (case e of MainAddFriend (Some c) \<Rightarrow> CA2W (e_ext (we_env W)) (wxid c) \<notin> set reserved | _ \<Rightarrow> True)"

lemma simulates_step:
  assumes s: "simulates s w" and e: "plain_friend W e" and m: "main_step W (p, w) e = (q, v)"
  shows "simulates (spec_step (g_wxid p) W s e) v
    \<and> (\<exists>ms. sp_sent (spec_step (g_wxid p) W s e) = sp_sent s @ ms \<and> q = fold (\<lambda>(c, t). NewSendMsg c t) ms p)"
proof (cases "mw_end w = Open")
  case False
  moreover have "sp_end s = mw_end w" using s by (simp add: simulates_def)
  ultimately show ?thesis using s m by (simp add: main_step_def spec_step_def)
next
  case True
  then have o: "mw_end w = Open" "sp_end s = Open" using s by (simp_all add: simulates_def)
  have l: "length (mw_rows w) = length (sp_contacts s)" by (rule simulates_rows(1) [OF s])
  note send = simulates_send [OF s, of W p q v]
  have end_: "simulates (s\<lparr> sp_end := x \<rparr>) (w\<lparr> mw_end := x \<rparr>)" for x by (rule simulates_input(3) [OF s])
  show ?thesis
  proof (cases e)
    case (MainAddFriend c)
    have "sp_sent (new_contact E f s) = sp_sent s" for E f by (simp add: new_contact_def Let_def)
    then show ?thesis using m o s e simulates_friend [OF s]
      by (cases c) (auto simp: MainAddFriend main_step_def spec_step_def plain_friend_def)
  next
    case (MainAddNewMsg x)
    show ?thesis
    proof (cases x)
      case (Some y)
      have "sp_sent (spec_step (g_wxid p) W s e) = sp_sent s" using o by (simp add: MainAddNewMsg Some spec_step_def said_def Let_def)
      then show ?thesis using m o simulates_msg [OF s refl, of W y] by (simp add: MainAddNewMsg Some main_step_def spec_step_def Let_def)
    qed (use m o s in \<open>simp add: MainAddNewMsg main_step_def spec_step_def\<close>)
  next
    case (MainClick n)
    have "\<not> (same_name n (wlit ''main_close_btn'') \<and> same_name n (wlit ''send''))"
         "\<not> (same_name n (wlit ''main_mini_btn'') \<and> same_name n (wlit ''send''))" "\<not> (same_name n (wlit ''testFriend'') \<and> same_name n (wlit ''send''))"
      by (auto simp: same_name_def wlit_def)
    then show ?thesis using m o s send end_ by (auto simp: MainClick main_step_def spec_step_def split: if_splits)
  qed (use m o s l send end_ simulates_click [OF s] simulates_input(1) [OF s] in
      \<open>auto simp: main_step_def spec_step_def split: if_splits\<close>)
qed

lemma simulates_screen:
  assumes "simulates s w"
  shows "screen_of w = spec_screen s"
proof -
  note rows = simulates_rows [OF assms]
  have o: "sp_order s = map (\<lambda>k. sp_contacts s ! k) (items (mw_list w))" and i: "set (items (mw_list w)) = {..<length (mw_rows w)}"
    using assms by (simp_all add: simulates_def list_ok_def)
  have "(let r = mw_rows w ! k in (cr_name r, cr_nickname r, cr_history_msg r, cr_time r)) = (let n = sp_contacts s ! k in (n, sp_nickname s n, sp_preview s n))"
    if "k \<in> set (items (mw_list w))" for k
  proof -
    have "row_key (mw_rows w ! k) = spec_key s (sp_contacts s ! k)" using that rows(1,2) i by simp
    then show ?thesis by (simp add: row_key_def spec_key_def Let_def)
  qed
  then show ?thesis using assms by (auto simp: screen_of_def spec_screen_def simulates_def o Let_def split: option.splits)
qed

lemma simulates_start: "simulates no_contacts CMainWnd"
  using names_set(3) by (auto simp: simulates_def no_contacts_def CMainWnd_def names_ok_def list_ok_def InitControls_at split: if_splits)

lemma sent_keeps_name: "g_wxid (fold (\<lambda>(c, t). NewSendMsg c t) ms p) = g_wxid p"
  by (induction ms arbitrary: p) (auto simp: NewSendMsg_def startTask_def Let_def)

lemma simulates_run:
  "simulates s w \<Longrightarrow> \<forall>x \<in> set es. plain_friend (fst x) (snd x) \<Longrightarrow> run_main es (p, w) = (q, v) \<Longrightarrow>
   simulates (spec_run (g_wxid p) es s) v
    \<and> (\<exists>ms. sp_sent (spec_run (g_wxid p) es s) = sp_sent s @ ms \<and> q = fold (\<lambda>(c, t). NewSendMsg c t) ms p)"
proof (induction es arbitrary: s w p)
  case Nil
  then show ?case by (simp add: run_main_def spec_run_def)
next
  case (Cons x es)
  obtain W e where x: "x = (W, e)" by force
  obtain p' w' where st: "main_step W (p, w) e = (p', w')" by force
  let ?s = "spec_step (g_wxid p) W s e"
  have 1: "simulates ?s w'" and "\<exists>ms. sp_sent ?s = sp_sent s @ ms \<and> p' = fold (\<lambda>(c, t). NewSendMsg c t) ms p"
    using simulates_step [OF Cons.prems(1) _ st] Cons.prems(2) by (auto simp: x)
  then obtain ms where ms: "sp_sent ?s = sp_sent s @ ms" "p' = fold (\<lambda>(c, t). NewSendMsg c t) ms p" by blast
  have "g_wxid p' = g_wxid p" unfolding ms(2) by (rule sent_keeps_name)
  moreover have "run_main es (p', w') = (q, v)" using Cons.prems(3) by (simp add: run_main_def x st)
  ultimately show ?case using Cons.IH [OF 1, of p'] Cons.prems(2) ms by (auto simp: x spec_run_def)
qed

section \<open>Properties\<close>

text \<open>C3: Whatever contacts and messages arrive and whatever the user selects, types and sends: the window shows the contacts with
  the one last heard from or written to at the top, each with its nickname, the last thing said and its time, and the panel shows
  the whole conversation of the selected contact in order. What the user sent, and nothing else, went to the network. This holds as
  long as no contact has the name of a control of the skin; one that has breaks the window.\<close>

theorem main_window_refines:
  assumes "\<forall>(W, e) \<in> set es. plain_friend W e"
  shows "let s = spec_run (g_wxid p) es no_contacts; (q, w) = run_main es (p, CMainWnd)
    in screen_of w = spec_screen s \<and> q = fold (\<lambda>(content, to). NewSendMsg content to) (sp_sent s) p"
proof -
  obtain q w where r: "run_main es (p, CMainWnd) = (q, w)" by force
  have "\<forall>x \<in> set es. plain_friend (fst x) (snd x)" using assms by auto
  from simulates_run [OF simulates_start this r] show ?thesis
    using simulates_screen by (auto simp: r no_contacts_def)
qed

text \<open>Two contacts; the first one writes, is selected and answered.\<close>

definition sample_wnd_env :: wnd_env where
  "sample_wnd_env = \<lparr> we_env = sample_env, we_mbs = widen \<rparr>"

definition sample_chat :: "(wnd_env \<times> main_event) list" where
  "sample_chat = map (Pair sample_wnd_env)
     [MainAddFriend (Some (new_ContactInfo\<lparr> wxid := lit ''bob'' \<rparr>)), MainAddFriend (Some (new_ContactInfo\<lparr> wxid := lit ''eve'' \<rparr>)),
      MainAddNewMsg (Some (new_NewMsg\<lparr> szFrom := lit ''eve'', szContent := lit ''hi'' \<rparr>)), MainItemClick 1, MainInput (wlit ''yes''),
      MainReturn (wlit ''inputEdit'')]"

lemma sample_texts: "CA2W sample_ext (lit ''bob'') = wlit ''bob''" "CA2W sample_ext (lit ''eve'') = wlit ''eve''"
  "CA2W sample_ext (lit ''hi'') = wlit ''hi''" "wlit ''bob'' \<noteq> wlit ''eve''" "wlit ''yes'' \<noteq> []"
  by code_simp+

lemma sample_group: "shown_content (wlit ''eve'') (wlit ''hi'') = wlit ''hi''"
  by code_simp

lemma sample_nick: "CA2W sample_ext (Utf82CStringA sample_ext []) = []"
  by (simp add: CA2W_def Utf82CStringA_def sample_ext_def c_str_def)

lemma sample_spec:
  "let s = spec_run me sample_chat no_contacts
   in sp_order s = [wlit ''eve'', wlit ''bob''] \<and> sp_selected s = Some (wlit ''eve'') \<and> map cn_content (sp_conversation s (wlit ''eve'')) = [wlit ''hi'', wlit ''yes'']"
  using sample_texts(4) [symmetric]
  by (simp add: spec_run_def sample_chat_def spec_step_def new_contact_def said_def spec_send_def no_contacts_def sample_wnd_env_def
      new_ContactInfo_def new_NewMsg_def sample_texts sample_group sample_nick sample_env_def NewOneChatListNodeOther_def NewOneChatListNodeMe_def Let_def)

theorem main_window_refines_witness:
  "let w = snd (run_main sample_chat (proc0 0, CMainWnd))
   in map fst (sc_contacts (screen_of w)) = [wlit ''eve'', wlit ''bob''] \<and> map cn_content (sc_panel (screen_of w)) = [wlit ''hi'', wlit ''yes'']"
proof -
  have "list_all (\<lambda>(W, e). plain_friend W e) sample_chat" by code_simp
  then have "\<forall>(W, e) \<in> set sample_chat. plain_friend W e" by (simp add: list_all_iff)
  from main_window_refines [OF this, of "proc0 0"]
  have "screen_of (snd (run_main sample_chat (proc0 0, CMainWnd))) = spec_screen (spec_run (g_wxid (proc0 0)) sample_chat no_contacts)"
    by (simp add: case_prod_unfold Let_def)
  then show ?thesis using sample_spec [of "g_wxid (proc0 0)"] by (simp add: Let_def spec_screen_def comp_def)
qed

end
