(* ===== verification/Desktop.thy ===== *)
theory Desktop imports Main_Laws Client begin

text \<open>
  From the network to the screen: the answer to a sync is read by the task, filed in the database, posted by \<^verbatim>\<open>callback.cpp\<close> and
  shown by the main window, whatever the user does there meanwhile.
\<close>

section \<open>Posts\<close>

text \<open>The handlers of \<^verbatim>\<open>CMainWnd\<close> by message; the other messages go to other windows.\<close>

fun to_main :: "ui_post \<Rightarrow> main_event option" where
  "to_main (WM_MAIN_ADD_FRIEND c) = Some (MainAddFriend (Some c))"
| "to_main (WM_MAIN_ADD_NEW_MSG m) = Some (MainAddNewMsg (Some m))"
| "to_main _ = None"

text \<open>What the user does between the messages.\<close>

fun by_user :: "main_event \<Rightarrow> bool" where
  "by_user (MainClick _) = True"
| "by_user (MainReturn _) = True"
| "by_user (MainItemClick _) = True"
| "by_user (MainInput _) = True"
| "by_user _ = False"

section \<open>Conversations\<close>

definition conversation :: "main_wnd \<Rightarrow> wide \<Rightarrow> chat_node list" where
  "conversation w n = (case find (\<lambda>r. cr_name r = n) (mw_rows w) of None \<Rightarrow> [] | Some r \<Rightarrow> msgRecordList r)"

definition contact_names :: "main_wnd \<Rightarrow> wide set" where
  "contact_names w = cr_name ` set (mw_rows w)"

abbreviation incoming :: "chat_node list \<Rightarrow> chat_node list" where
  "incoming \<equiv> filter (\<lambda>x. \<not> cn_me x)"

lemma simulates_contacts: "simulates s w \<Longrightarrow> contact_names w = set (sp_contacts s)"
proof -
  assume s: "simulates s w"
  have "map cr_name (mw_rows w) = sp_contacts s"
    using simulates_rows(1,2) [OF s] by (auto intro!: nth_equalityI simp: row_key_def spec_key_def)
  then show ?thesis unfolding contact_names_def by (metis set_map)
qed

lemma simulates_conversation:
  assumes "simulates s w"
  shows "conversation w n = sp_conversation s n"
proof (cases "find (\<lambda>r. cr_name r = n) (mw_rows w)")
  case None
  then have "n \<notin> contact_names w" by (auto simp: find_None_iff contact_names_def)
  then have "n \<notin> set (sp_contacts s)" by (simp add: simulates_contacts [OF assms])
  then show ?thesis using assms None by (simp add: simulates_def conversation_def)
next
  case (Some r)
  then obtain k where "k < length (mw_rows w)" "r = mw_rows w ! k" "cr_name r = n" by (auto simp: find_Some_iff)
  then show ?thesis using Some simulates_rows(1,2) [OF assms] by (auto simp: conversation_def row_key_def spec_key_def)
qed

section \<open>What is heard\<close>

text \<open>The messages among the events that are from a contact known at that moment.\<close>

fun heard :: "wnd_env \<Rightarrow> wide set \<Rightarrow> main_event list \<Rightarrow> wide \<Rightarrow> chat_node list" where
  "heard W C [] n = []"
| "heard W C (e # es) n =
     (case e of
        MainAddFriend (Some c) \<Rightarrow> heard W (insert (CA2W (e_ext (we_env W)) (wxid c)) C) es n
      | MainAddNewMsg (Some m) \<Rightarrow>
          (if CA2W (e_ext (we_env W)) (szFrom m) = n \<and> n \<in> C then [NewOneChatListNodeOther W m] else []) @ heard W C es n
      | _ \<Rightarrow> heard W C es n)"

lemma spec_ended: "sp_end s \<noteq> Open \<Longrightarrow> spec_run me es s = s"
proof (induction es)
  case (Cons x es)
  then show ?case by (cases x) (simp add: spec_run_def spec_step_def)
qed (simp add: spec_run_def)

lemma send_received: "incoming (sp_conversation (spec_send W me s) n) = incoming (sp_conversation s n)" "sp_contacts (spec_send W me s) = sp_contacts s"
  by (auto simp: spec_send_def said_def NewOneChatListNodeMe_def Let_def split: option.split)

lemma step_heard:
  assumes "sp_end s = Open"
  shows "incoming (sp_conversation (spec_step me W s e) n) = incoming (sp_conversation s n) @ heard W (set (sp_contacts s)) [e] n"
    and "set (sp_contacts (spec_step me W s e)) = set (sp_contacts s)
      \<union> (case e of MainAddFriend (Some c) \<Rightarrow> {CA2W (e_ext (we_env W)) (wxid c)} | _ \<Rightarrow> {})"
  using assms send_received
  by (auto simp: spec_step_def new_contact_def said_def NewOneChatListNodeOther_def Let_def split: main_event.splits option.splits)

lemma run_heard:
  assumes "sp_end (spec_run me (map (Pair W) es) s) = Open"
  shows "incoming (sp_conversation (spec_run me (map (Pair W) es) s) n) = incoming (sp_conversation s n) @ heard W (set (sp_contacts s)) es n"
  using assms
proof (induction es arbitrary: s)
  case Nil
  then show ?case by (simp add: spec_run_def)
next
  case (Cons e es)
  let ?s = "spec_step me W s e"
  have run: "spec_run me (map (Pair W) (e # es)) s = spec_run me (map (Pair W) es) ?s" by (simp add: spec_run_def)
  then have "sp_end s = Open"
    using Cons.prems spec_ended [of s me "map (Pair W) (e # es)"] by metis
  note st = step_heard [OF this, of me W e]
  have "sp_end (spec_run me (map (Pair W) es) ?s) = Open" using Cons.prems unfolding run .
  note IH = Cons.IH [OF this]
  show ?case unfolding run IH using st
    by (simp split: main_event.split option.split)
qed

lemma run_contacts:
  assumes "sp_end (spec_run me (map (Pair W) es) s) = Open"
  shows "set (sp_contacts (spec_run me (map (Pair W) es) s))
    = set (sp_contacts s) \<union> {CA2W (e_ext (we_env W)) (wxid c) | c. MainAddFriend (Some c) \<in> set es}"
  using assms
proof (induction es arbitrary: s)
  case Nil
  then show ?case by (simp add: spec_run_def)
next
  case (Cons e es)
  let ?s = "spec_step me W s e"
  have run: "spec_run me (map (Pair W) (e # es)) s = spec_run me (map (Pair W) es) ?s" by (simp add: spec_run_def)
  then have "sp_end s = Open"
    using Cons.prems spec_ended [of s me "map (Pair W) (e # es)"] by metis
  note st = step_heard(2) [OF this, of me W e]
  have "sp_end (spec_run me (map (Pair W) es) ?s) = Open" using Cons.prems unfolding run .
  note IH = Cons.IH [OF this]
  show ?case unfolding run IH st by (cases e) (auto split: option.split)
qed

text \<open>The messages of a batch come after its contacts.\<close>

lemma heard_msgs:
  assumes "filter (\<lambda>e. \<not> by_user e) es = map (\<lambda>m. MainAddNewMsg (Some m)) xs"
  shows "heard W C es n = (if n \<in> C then map (NewOneChatListNodeOther W) (filter (\<lambda>m. CA2W (e_ext (we_env W)) (szFrom m) = n) xs) else [])"
  using assms
proof (induction es arbitrary: xs)
  case (Cons e es)
  show ?case
  proof (cases "by_user e")
    case True
    then show ?thesis using Cons by (cases e) auto
  next
    case False
    with Cons.prems obtain m ms where "xs = m # ms" "e = MainAddNewMsg (Some m)" "filter (\<lambda>e. \<not> by_user e) es = map (\<lambda>m. MainAddNewMsg (Some m)) ms"
      by (cases xs) auto
    then show ?thesis using Cons.IH by simp
  qed
qed simp

lemma heard_batch:
  assumes "filter (\<lambda>e. \<not> by_user e) es = map (\<lambda>c. MainAddFriend (Some c)) ys @ map (\<lambda>m. MainAddNewMsg (Some m)) xs"
  shows "heard W C es n = (if n \<in> C \<union> (\<lambda>c. CA2W (e_ext (we_env W)) (wxid c)) ` set ys
     then map (NewOneChatListNodeOther W) (filter (\<lambda>m. CA2W (e_ext (we_env W)) (szFrom m) = n) xs) else [])"
  using assms
proof (induction es arbitrary: ys C)
  case Nil
  then show ?case by simp
next
  case (Cons e es)
  show ?case
  proof (cases "ys = [] \<or> by_user e")
    case True
    show ?thesis
    proof (cases "ys = []")
      case True
      then show ?thesis using heard_msgs [of "e # es" xs] Cons.prems by simp
    next
      case False
      with True have "by_user e" by blast
      then show ?thesis using Cons by (cases e) auto
    qed
  next
    case False
    with Cons.prems obtain c cs where "ys = c # cs" "e = MainAddFriend (Some c)"
      "filter (\<lambda>e. \<not> by_user e) es = map (\<lambda>c. MainAddFriend (Some c)) cs @ map (\<lambda>m. MainAddNewMsg (Some m)) xs"
      by (cases ys) auto
    then show ?thesis using Cons.IH by simp
  qed
qed

section \<open>The answer to a sync\<close>

text \<open>The elements that an answer announces.\<close>

definition elements_of :: "pb \<Rightarrow> pb list" where
  "elements_of resp = (let newmsg = pb_sub resp ''newmsg'' in take (nat (pb_int newmsg ''cnt'')) (pb_rep newmsg ''msg''))"

text \<open>The database after the key and the messages of an answer have been filed.\<close>

definition filed :: "env \<Rightarrow> auth \<Rightarrow> pb \<Rightarrow> proc \<Rightarrow> proc" where
  "filed V a resp p = fold (AddMsg V) (concat (map (sync_msgs V) (elements_of resp))) (SetSyncKey V (pb_bytes resp ''strsynckey'') (p\<lparr> p_auth := a \<rparr>))"

lemma filed_rest: "p_posts (filed V a resp p) = p_posts p" "p_cgiCallBack (filed V a resp p) = p_cgiCallBack p"
proof -
  have "db_only (p\<lparr> p_auth := a \<rparr>) (filed V a resp p)"
    unfolding filed_def by (rule db_only_trans [OF db_writers(2) fold_db [OF db_writers(1)]])
  then show "p_posts (filed V a resp p) = p_posts p" "p_cgiCallBack (filed V a resp p) = p_cgiCallBack p" by (auto simp: db_only_def)
qed

lemma NewSync_answer:
  assumes "NewSync_Buf2Resp V d h p = ok (0, r, h', p')"
  shows "\<exists>a resp. read_sync V d h p = Some (a, resp) \<and> p' \<in> {filed V a resp p, ReportSyncKV (filed V a resp p)}
    \<and> batch_holds r (concat (map (sync_msgs V) (elements_of resp))) (concat (map (sync_contacts V) (elements_of resp)))"
  using outcomeD [OF sync_answer_cases assms] by (auto simp: Let_def elements_of_def filed_def split: if_splits)

text \<open>The same after the callback has run.\<close>

lemma sync_task_answer:
  assumes t: "map_task p tid = Some t" "t_class t = NewSyncCGITask" "t_cgitype t = Some (cgi_num CGI_TYPE_NEWSYNC)" "p_cgiCallBack p"
    and a: "NS_Buf2Resp (with_ui V) tid d e p = ok (k, 0, q)"
  shows "\<exists>a resp. read_sync (with_ui V) d (t_hdr t) p = Some (a, resp) \<and> p_db q = p_db (filed (with_ui V) a resp p)
     \<and> p_posts q = p_posts p @ map WM_MAIN_ADD_FRIEND (concat (map (sync_contacts (with_ui V)) (elements_of resp)))
         @ map WM_MAIN_ADD_NEW_MSG (filter (\<lambda>m. \<not> is_chatter m) (concat (map (sync_msgs (with_ui V)) (elements_of resp))))"
proof -
  from a t(1,2) obtain r h' p1 where b: "NewSync_Buf2Resp (with_ui V) d (t_hdr t) p = ok (0, r, h', p1)"
    and c: "DoCallBack (with_ui V) (ResSync r) (t_cgitype t) (t_taskid t) 0
      (p1\<lparr> map_task := (if map_task p1 tid = Some t then (map_task p1)(tid \<mapsto> t\<lparr> m_res := ResSync r, t_hdr := h' \<rparr>) else map_task p1) \<rparr>) = ok q"
    by (auto simp: NS_Buf2Resp_def task_Buf2Resp_def and_then_ok_iff Let_def)
  from NewSync_answer [OF b] obtain a resp where r: "read_sync (with_ui V) d (t_hdr t) p = Some (a, resp)"
    "p1 \<in> {filed (with_ui V) a resp p, ReportSyncKV (filed (with_ui V) a resp p)}"
    "batch_holds r (concat (map (sync_msgs (with_ui V)) (elements_of resp))) (concat (map (sync_contacts (with_ui V)) (elements_of resp)))"
    by blast
  have p1: "p_posts p1 = p_posts p" "p_cgiCallBack p1" "p_db p1 = p_db (filed (with_ui V) a resp p)"
    using r(2) t(4) by (auto simp: filed_rest ReportSyncKV_def startTask_def Let_def)
  then show ?thesis
    using c r(1) t(3) by (auto simp: DoCallBack_def with_ui_def SDKCallBack_def NewSyncCallBack_def show_batch_holds [OF r(3)] intro!: exI [of _ a] exI [of _ resp])
qed

section \<open>Properties\<close>

lemma main_posts: "List.map_filter to_main (drop (length zs) (zs @ map WM_MAIN_ADD_FRIEND ys @ map WM_MAIN_ADD_NEW_MSG xs))
    = map (\<lambda>c. MainAddFriend (Some c)) ys @ map (\<lambda>m. MainAddNewMsg (Some m)) xs"
  by (simp add: List.map_filter_def filter_map comp_def)

lemma batch_friends:
  assumes "filter (\<lambda>e. \<not> by_user e) es = map (\<lambda>c. MainAddFriend (Some c)) ys @ map (\<lambda>m. MainAddNewMsg (Some m)) xs"
  shows "MainAddFriend (Some c) \<in> set es \<longleftrightarrow> c \<in> set ys"
proof -
  have "MainAddFriend (Some c) \<in> set es \<longleftrightarrow> MainAddFriend (Some c) \<in> set (filter (\<lambda>e. \<not> by_user e) es)" by simp
  also have "\<dots> \<longleftrightarrow> c \<in> set ys" unfolding assms by auto
  finally show ?thesis .
qed

text \<open>What the window of a running program shows after the events \<open>es\<close>, among them the messages of a batch.\<close>

lemma batch_shown:
  assumes w: "simulates s w" "mw_end w' = Open" "run_main (map (Pair W) es) (p1, w) = (p2, w')" "\<forall>e \<in> set es. plain_friend W e"
    and b: "filter (\<lambda>e. \<not> by_user e) es = map (\<lambda>c. MainAddFriend (Some c)) ys @ map (\<lambda>m. MainAddNewMsg (Some m)) xs"
  shows "contact_names w' = contact_names w \<union> (\<lambda>c. CA2W (e_ext (we_env W)) (wxid c)) ` set ys"
    and "n \<in> contact_names w' \<Longrightarrow> incoming (conversation w' n) = incoming (conversation w n)
      @ map (NewOneChatListNodeOther W) (filter (\<lambda>m. CA2W (e_ext (we_env W)) (szFrom m) = n) xs)"
proof -
  let ?s = "spec_run (g_wxid p1) (map (Pair W) es) s"
  have s: "simulates ?s w'" using simulates_run [OF w(1) _ w(3)] w(4) by auto
  then have o: "sp_end ?s = Open" using w(2) by (simp add: simulates_def)
  show c: "contact_names w' = contact_names w \<union> (\<lambda>c. CA2W (e_ext (we_env W)) (wxid c)) ` set ys"
    unfolding simulates_contacts [OF s] simulates_contacts [OF w(1)] run_contacts [OF o] batch_friends [OF b] by blast
  show "incoming (conversation w' n) = incoming (conversation w n)
      @ map (NewOneChatListNodeOther W) (filter (\<lambda>m. CA2W (e_ext (we_env W)) (szFrom m) = n) xs)" if "n \<in> contact_names w'"
    using that unfolding simulates_conversation [OF s] simulates_conversation [OF w(1)] run_heard [OF o] heard_batch [OF b] c
    by (simp add: simulates_contacts [OF w(1)])
qed


text \<open>An answer with a contact and a message from it. The user selects the contact in between and types.\<close>

definition desk_answer :: pb where
  "desk_answer = PB [(''newmsg'', PMsg (PB [(''cnt'', PInt 2), (''msg'', PRep [PB [(''type'', PInt 2)], PB [(''type'', PInt 5)]])]))]"

definition desk_parse :: "string \<Rightarrow> bytes \<Rightarrow> pb option" where
  "desk_parse ty b =
     (if ty = ''NewSyncResp'' then Some desk_answer
      else if ty = ''ContactInfo'' then Some (PB [(''wxid'', PMsg (PB [(''id'', PBytes (lit ''bob''))]))])
      else if ty = ''NewSyncRespMsg_'' then Some (PB [(''content'', PMsg (PB [(''from'', PMsg (PB [(''id'', PBytes (lit ''bob''))])),
        (''rawcontent'', PMsg (PB [(''content'', PBytes (lit ''hi''))]))]))])
      else Some (PB []))"

definition desk_env :: env where
  "desk_env = sample_env\<lparr> e_ext := sample_ext\<lparr> pb_parse := desk_parse \<rparr> \<rparr>"

definition desk_proc :: proc where
  "desk_proc = (proc0 0)\<lparr> p_auth := (auth0 0)\<lparr> m_Session := replicate 16 1 \<rparr>, p_cgiCallBack := True, map_task := [7 \<mapsto> NewSync_task] \<rparr>"

definition desk_pack :: bytes where
  "desk_pack = frame 13 False 0 5 0 77 [] [1] [2] [3] (replicate 20 8)"

abbreviation bob :: ContactInfo where "bob \<equiv> new_ContactInfo\<lparr> wxid := lit ''bob'' \<rparr>"
abbreviation hello :: NewMsg where "hello \<equiv> new_NewMsg\<lparr> szFrom := lit ''bob'', szContent := lit ''hi'' \<rparr>"

lemma desk_unpacked:
  "UnPackHeader desk_pack h a = ok (replicate 20 8, read_lens h 0 5 [2] [3], keep_cookie a [])"
proof -
  have "frame_ok 13 False 0 5 []" "wf_varint [1]" "wf_varint [2]" "wf_varint [3]"
    by (simp_all add: frame_ok_def wf_varint_def top_bit)
  note read = read_frame(3) [OF this desk_pack_def, of h a]
  have "length desk_pack = 33" "drop 13 desk_pack = replicate 20 8" by code_simp+
  then show ?thesis using read by simp
qed

lemma desk_plain: "session_plain (with_ui desk_env) (desk_proc\<lparr> p_auth := keep_cookie (p_auth desk_proc) [] \<rparr>) (read_lens h 0 5 [2] [3]) (replicate 20 8)
    = ok (replicate 12 8)"
proof -
  have "strip_padding (replicate 16 1) (replicate 20 8) = ok (Some (replicate 12 8))" by code_simp
  then show ?thesis
    by (simp add: session_plain_def read_lens_def aes_nouncompress_def keep_cookie_def desk_proc_def desk_env_def with_ui_def sample_env_def sample_ext_def
      resize_def)
qed

lemma desk_read: "read_sync (with_ui desk_env) desk_pack (t_hdr NewSync_task) desk_proc = Some (keep_cookie (p_auth desk_proc) [], desk_answer)"
  by (simp add: read_sync_def desk_unpacked desk_plain) (simp add: desk_env_def with_ui_def desk_parse_def)

lemma desk_elements: "elements_of desk_answer = [PB [(''type'', PInt 2)], PB [(''type'', PInt 5)]]"
  by (simp add: elements_of_def desk_answer_def pb_sub_def pb_int_def pb_rep_def)

lemma desk_decoded:
  "sync_msgs (with_ui desk_env) (PB [(''type'', PInt 5)]) = [hello]" "sync_contacts (with_ui desk_env) (PB [(''type'', PInt 5)]) = []"
  "sync_msgs (with_ui desk_env) (PB [(''type'', PInt 2)]) = []" "sync_contacts (with_ui desk_env) (PB [(''type'', PInt 2)]) = [bob]"
proof -
  have t: "Utf82CStringA (e_ext desk_env) (c_str (lit ''hi'')) = lit ''hi''"
    by (simp add: Utf82CStringA_def desk_env_def sample_env_def sample_ext_def c_str_def lit_def)
  have s: "strcpy_s 1024 (lit ''bob'') = ok (lit ''bob'')" "strcpy_s 100 (lit ''bob'') = ok (lit ''bob'')" "strcpy_s MAX_BUF (lit ''hi'') = ok (lit ''hi'')"
    "0 < n \<Longrightarrow> strcpy_s n [] = ok []" for n
    by (simp_all add: strcpy_s_def lit_def c_str_def MAX_BUF_def)
  show "sync_msgs (with_ui desk_env) (PB [(''type'', PInt 5)]) = [hello]" "sync_contacts (with_ui desk_env) (PB [(''type'', PInt 5)]) = []"
    "sync_msgs (with_ui desk_env) (PB [(''type'', PInt 2)]) = []" "sync_contacts (with_ui desk_env) (PB [(''type'', PInt 2)]) = [bob]"
    using t s
    by (simp_all add: sync_msgs_def sync_contacts_def pb_int_def parsed_def with_ui_def desk_env_def desk_parse_def decoded_def new_msg_of_def contact_of_def
        set_field_def pb_sub_def pb_bytes_def new_NewMsg_def new_ContactInfo_def)
qed

text \<open>The batch that the task makes of it.\<close>

definition desk_batch :: BatchResult where
  "desk_batch = \<lparr> ppContanct = [Some bob, None], dwContanct = 1, ppNewMsg = [Some hello, None], dwNewMsg = 1, dwSize = 2 \<rparr>"

lemma desk_elements_read:
  "sync_element (with_ui desk_env) (PB [(''type'', PInt 2)]) r p = and_then (push_contact bob r) (\<lambda>r. ok (False, r, p))"
  "sync_element (with_ui desk_env) (PB [(''type'', PInt 5)]) r p = and_then (push_msg hello r) (\<lambda>r. ok (False, r, AddMsg (with_ui desk_env) hello p))"
  using desk_decoded(1,4)
  by (auto simp: sync_element_def sync_msgs_def sync_contacts_def pb_int_def parsed_def decoded_def split: option.splits sum.splits)

lemma desk_loop:
  "alloc_batch (e_ext (with_ui desk_env)) 2 new_BatchResult = ok (new_BatchResult\<lparr> ppNewMsg := [None, None], ppContanct := [None, None], dwSize := 2 \<rparr>)"
  "element_loop (sync_element (with_ui desk_env)) [PB [(''type'', PInt 2)], PB [(''type'', PInt 5)]] 0 2
      (new_BatchResult\<lparr> ppNewMsg := [None, None], ppContanct := [None, None], dwSize := 2 \<rparr>) p
    = ok (False, desk_batch, AddMsg (with_ui desk_env) hello p)"
proof -
  have "alloc_ok (e_ext (with_ui desk_env)) n" for n by (simp add: with_ui_def desk_env_def sample_env_def sample_ext_def)
  then show "alloc_batch (e_ext (with_ui desk_env)) 2 new_BatchResult = ok (new_BatchResult\<lparr> ppNewMsg := [None, None], ppContanct := [None, None], dwSize := 2 \<rparr>)"
    by (simp add: alloc_batch_def new_array_def numeral_2_eq_2)
  show "element_loop (sync_element (with_ui desk_env)) [PB [(''type'', PInt 2)], PB [(''type'', PInt 5)]] 0 2
      (new_BatchResult\<lparr> ppNewMsg := [None, None], ppContanct := [None, None], dwSize := 2 \<rparr>) p
    = ok (False, desk_batch, AddMsg (with_ui desk_env) hello p)"
    by (simp add: numeral_2_eq_2 pb_elem_def desk_elements_read push_msg_def push_contact_def put_ptr_def new_BatchResult_def desk_batch_def)
qed

lemma desk_answered: "\<exists>q. NS_Buf2Resp (with_ui desk_env) 7 desk_pack 0 desk_proc = ok (kTaskFailHandleNoError, 0, q)"
proof -
  let ?p = "desk_proc\<lparr> p_auth := keep_cookie (p_auth desk_proc) [] \<rparr>" let ?h = "read_lens hdr0 0 5 [2] [3]"
  have parse: "pb_parse (e_ext (with_ui desk_env)) ''NewSyncResp'' b = Some desk_answer" for b
    by (simp add: desk_env_def with_ui_def desk_parse_def)
  have ans: "pb_int (pb_sub desk_answer ''newmsg'') ''cnt'' = 2" "pb_rep (pb_sub desk_answer ''newmsg'') ''msg'' = [PB [(''type'', PInt 2)], PB [(''type'', PInt 5)]]"
    by (simp_all add: desk_answer_def pb_int_def pb_sub_def pb_rep_def)
  have d: "m_nDecryptType ?h = 5" by (simp add: read_lens_def)
  obtain p1 where p1: "NewSync_Buf2Resp (with_ui desk_env) desk_pack hdr0 desk_proc = ok (0, desk_batch, ?h, p1)"
    by (simp add: NewSync_Buf2Resp_def desk_unpacked d desk_plain parse ans desk_loop Let_def)
  have h: "batch_holds desk_batch [hello] [bob]" by (simp add: batch_holds_def desk_batch_def)
  have "map_task desk_proc 7 = Some NewSync_task" "t_class NewSync_task = NewSyncCGITask" "t_hdr NewSync_task = hdr0"
    "t_cgitype NewSync_task = Some (cgi_num CGI_TYPE_NEWSYNC)" by (simp_all add: desk_proc_def NewSync_task_def new_task_def)
  then show ?thesis
    by (simp add: NS_Buf2Resp_def task_Buf2Resp_def p1 DoCallBack_def Let_def)
      (simp add: with_ui_def SDKCallBack_def NewSyncCallBack_def show_batch_holds [OF h])
qed

definition desk_wnd :: wnd_env where
  "desk_wnd = \<lparr> we_env = desk_env, we_mbs = widen \<rparr>"

definition desk_events :: "main_event list" where
  "desk_events = [MainAddFriend (Some bob), MainItemClick 0, MainInput (wlit ''yo''), MainAddNewMsg (Some hello), MainReturn (wlit ''inputEdit'')]"

lemma desk_texts: "CA2W (e_ext (we_env desk_wnd)) (lit ''bob'') = wlit ''bob''" "CA2W (e_ext (we_env desk_wnd)) (lit ''hi'') = wlit ''hi''"
  by (simp_all add: CA2W_def desk_wnd_def desk_env_def sample_env_def sample_ext_def c_str_def lit_def wlit_def)

lemma desk_friends: "\<forall>e \<in> set desk_events. plain_friend desk_wnd e"
proof -
  have "wlit ''bob'' \<notin> set reserved" by code_simp
  then show ?thesis by (simp add: desk_events_def plain_friend_def desk_texts)
qed

lemma desk_open: "mw_end (snd (run_main (map (Pair desk_wnd) desk_events) (desk_proc, CMainWnd))) = Open"
proof -
  obtain q w where r: "run_main (map (Pair desk_wnd) desk_events) (desk_proc, CMainWnd) = (q, w)" by force
  have "sp_end (new_contact E c s) = sp_end s" "sp_end (said n x t s) = sp_end s" "sp_end (spec_send W me s) = sp_end s" for E c s n x t W me
    by (auto simp: new_contact_def said_def spec_send_def Let_def split: option.split)
  then have "sp_end (spec_run (g_wxid desk_proc) (map (Pair desk_wnd) desk_events) no_contacts) = Open"
    by (simp add: spec_run_def desk_events_def spec_step_def no_contacts_def Let_def)
  then show ?thesis using simulates_run [OF simulates_start _ r] desk_friends by (auto simp: r simulates_def)
qed

lemma desk_shown: "shown_content (wlit ''bob'') (wlit ''hi'') = wlit ''hi''"
  by code_simp


end
