(* ===== verification/Login_Window.thy ===== *)
theory Login_Window imports Main_Window Ui_Callback begin

text \<open>
  The windows before and beside the main window: the login window with the dialog for the code of a text message
  (\<^verbatim>\<open>MicroChat/LoginWnd.cpp\<close>) and the search window (\<^verbatim>\<open>friendWnd.cpp\<close>). The windows have no owner, so a modal one disables
  no other. A text on the screen is a constructor that names the format with the values in it. Results are never null here: the task
  that posts them has one.
\<close>

section \<open>The login window\<close>

datatype login_label = NoLabel | UserMissing | PasswordMissing | LoggedIn | ScanReason int bytes | FailReason int wide
  | CodeAccepted | CodeRefused int bytes

datatype login_end = LoginRuns | LoginClosed | LoginKilled

text \<open>\<open>lw_pages\<close>: what was opened in the browser; \<open>lw_verify\<close>: the input of each open dialog for a code; \<open>lw_modal\<close>: how many loops of
  \<^verbatim>\<open>ShowModal\<close> of the main window are running, one inside the other.\<close>

record login_wnd =
  lw_username :: wide
  lw_password :: wide
  loginMsg :: login_label
  lw_shown :: bool
  lw_pages :: "wide list"
  lw_verify :: "wide list"
  lw_modal :: nat
  lw_end :: login_end

text \<open>\<^verbatim>\<open>wWinMain\<close> creates it; \<^verbatim>\<open>InitWindow\<close> registers the callback.\<close>

definition LoginWnd_InitWindow :: "proc \<Rightarrow> proc \<times> login_wnd" where
  "LoginWnd_InitWindow p = (setCgiCallBack p, \<lparr> lw_username = [], lw_password = [], loginMsg = NoLabel, lw_shown = True, lw_pages = [],
     lw_verify = [], lw_modal = 0, lw_end = LoginRuns \<rparr>)"

text \<open>The words for an unknown error, in the code page of the source.\<close>

definition unknown_error :: bytes where
  "unknown_error = [0xCE, 0xB4, 0xD6, 0xAA, 0xB4, 0xED, 0xCE, 0xF3]"

definition ScanQrcode :: "ext \<Rightarrow> LoginResult \<Rightarrow> int \<Rightarrow> login_wnd \<Rightarrow> login_wnd" where
  "ScanQrcode E res error_code w =
     (let res = (if szMsg res = [] then res\<lparr> szMsg := unknown_error \<rparr> else res)
      in w\<lparr> loginMsg := ScanReason error_code (szMsg res), lw_pages := lw_pages w @ [CA2W E (szUrl res)] \<rparr>)"

definition MobileVerify :: "MobileVerifyResult \<Rightarrow> login_wnd \<Rightarrow> login_wnd" where
  "MobileVerify res w =
     (if mv_nCode res = 0 then
        if nOption res = 10 then w\<lparr> lw_verify := lw_verify w @ [[]] \<rparr>
        else if nOption res = 13 then w
        else w\<lparr> loginMsg := CodeAccepted \<rparr>
      else if nOption res = 13 then w
      else w\<lparr> loginMsg := CodeRefused (mv_nCode res) (mv_szMsgResult res) \<rparr>)"

text \<open>The main window is one object, created again on every success; it is deleted when the loop that shows it has ended.\<close>

definition login_success :: "env \<Rightarrow> proc \<times> login_wnd \<Rightarrow> (proc \<times> login_wnd) res" where
  "login_success V s =
     (case s of (p, w) \<Rightarrow> and_then (MainWnd_InitWindow V p) (\<lambda>(p, _).
        ok (p, w\<lparr> loginMsg := LoggedIn, lw_shown := False, lw_modal := lw_modal w + 1 \<rparr>)))"

text \<open>The main window has been closed. A loop around the one that ends goes on with the deleted object.\<close>

definition main_ended :: "proc \<times> login_wnd \<Rightarrow> (proc \<times> login_wnd) res" where
  "main_ended s =
     (case s of (p, w) \<Rightarrow>
        if lw_modal w = 0 then ok s else if lw_modal w = 1 then ok (p, w\<lparr> lw_modal := 0, lw_end := LoginClosed \<rparr>) else crash BadRead)"

definition as_login :: "cgi_result \<Rightarrow> LoginResult res" where
  "as_login r = (case r of ResLogin x \<Rightarrow> ok x | _ \<Rightarrow> crash BadRead)"

definition as_mobile :: "cgi_result \<Rightarrow> MobileVerifyResult res" where
  "as_mobile r = (case r of ResMobile x \<Rightarrow> ok x | _ \<Rightarrow> crash BadRead)"

text \<open>\<^verbatim>\<open>CLoginWnd::HandleCustomMessage\<close>, and the end of the process by \<^verbatim>\<open>ForceQuit\<close>.\<close>

definition login_message :: "env \<Rightarrow> ui_post \<Rightarrow> proc \<times> login_wnd \<Rightarrow> (proc \<times> login_wnd) res" where
  "login_message V m s =
     (case s of (p, w) \<Rightarrow>
        if lw_end w \<noteq> LoginRuns then ok s
        else case m of
          WM_SHOW_LOGIN_RESULT r c \<Rightarrow> and_then (as_login r) (\<lambda>r. ok (p, w\<lparr> loginMsg := FailReason c (CA2W (e_ext V) (szMsg r)) \<rparr>))
        | WM_LOGIN_SCAN_QRCODE r c \<Rightarrow> and_then (as_login r) (\<lambda>r. ok (p, ScanQrcode (e_ext V) r c w))
        | WM_LOGIN_SUCC \<Rightarrow> login_success V (p, w)
        | WM_MOBILE_VERIFY r \<Rightarrow> and_then (as_mobile r) (\<lambda>r. ok (p, MobileVerify r w))
        | FORCE_QUIT _ \<Rightarrow> ok (p, w\<lparr> lw_end := LoginKilled \<rparr>)
        | _ \<Rightarrow> ok s)"

section \<open>What the user does\<close>

datatype login_event = LoginMessage ui_post | TypeUser wide | TypePassword wide | LoginClick wide
  | TypeCode nat wide | VerifyClick nat wide | MainEnds

definition login_button :: "env \<Rightarrow> proc \<times> login_wnd \<Rightarrow> proc \<times> login_wnd" where
  "login_button V s =
     (case s of (p, w) \<Rightarrow>
        let user = CW2A (e_ext V) (lw_username w); pwd = CW2A (e_ext V) (lw_password w) in
        if user = [] then (p, w\<lparr> loginMsg := UserMissing \<rparr>)
        else if pwd = [] then (p, w\<lparr> loginMsg := PasswordMissing \<rparr>)
        else (snd (Login user pwd p), w))"

text \<open>\<^verbatim>\<open>CVerifyWnd::Notify\<close> for the \<open>i\<close>-th dialog.\<close>

definition verify_click :: "env \<Rightarrow> nat \<Rightarrow> wide \<Rightarrow> proc \<times> login_wnd \<Rightarrow> proc \<times> login_wnd" where
  "verify_click V i name s =
     (case s of (p, w) \<Rightarrow>
        if length (lw_verify w) \<le> i then s
        else if name = wlit ''closebutton'' then (p, w\<lparr> lw_verify := take i (lw_verify w) @ drop (Suc i) (lw_verify w) \<rparr>)
        else if name = wlit ''send'' then (snd (SendMobileVerifyCode (CW2A (e_ext V) (lw_verify w ! i)) p), w)
        else s)"

definition login_step :: "env \<Rightarrow> proc \<times> login_wnd \<Rightarrow> login_event \<Rightarrow> (proc \<times> login_wnd) res" where
  "login_step V s e =
     (case s of (p, w) \<Rightarrow>
        if lw_end w \<noteq> LoginRuns then ok s
        else case e of
          LoginMessage m \<Rightarrow> login_message V m s
        | TypeUser t \<Rightarrow> ok (if lw_shown w then (p, w\<lparr> lw_username := t \<rparr>) else s)
        | TypePassword t \<Rightarrow> ok (if lw_shown w then (p, w\<lparr> lw_password := t \<rparr>) else s)
        | LoginClick name \<Rightarrow>
            ok (if \<not> lw_shown w then s
                else if same_name name (wlit ''closebtn'') then (p, w\<lparr> lw_end := LoginClosed \<rparr>)
                else if same_name name (wlit ''minbtn'') then s
                else if name = wlit ''login'' then login_button V s
                else s)
        | TypeCode i t \<Rightarrow> ok (p, w\<lparr> lw_verify := (lw_verify w)[i := t] \<rparr>)
        | VerifyClick i name \<Rightarrow> ok (verify_click V i name s)
        | MainEnds \<Rightarrow> main_ended s)"

fun login_run :: "env \<Rightarrow> login_event list \<Rightarrow> proc \<times> login_wnd \<Rightarrow> (proc \<times> login_wnd) res" where
  "login_run V [] s = ok s"
| "login_run V (e # es) s = and_then (login_step V s e) (login_run V es)"

section \<open>The search window\<close>

datatype search_text = NoText | Found bytes bytes bytes | SearchRefused int bytes | RequestSent | NeedsVerification

datatype head_icon = DefaultIcon | ContactIcon wide

record friend_wnd =
  fw_username :: wide
  fw_v2Name :: wide
  fw_sayHello :: wide
  fw_log :: search_text
  fw_headicon :: head_icon
  fw_shown :: bool

definition as_search :: "cgi_result \<Rightarrow> SearchContactResult res" where
  "as_search r = (case r of ResSearch x \<Rightarrow> ok x | _ \<Rightarrow> crash BadRead)"

definition as_verify :: "cgi_result \<Rightarrow> VerifyUserResult res" where
  "as_verify r = (case r of ResVerify x \<Rightarrow> ok x | _ \<Rightarrow> crash BadRead)"

text \<open>\<open>downloaded\<close>: whether the picture could be loaded.\<close>

definition OnSearchContact :: "ext \<Rightarrow> bool \<Rightarrow> SearchContactResult \<Rightarrow> friend_wnd \<Rightarrow> friend_wnd" where
  "OnSearchContact E downloaded res w =
     (if sc_nCode res = 0 then
        (let w = w\<lparr> fw_log := Found (szNickName res) (szV1_Name res) (szV2_Name res) \<rparr>
         in if downloaded then w\<lparr> fw_headicon := ContactIcon (CA2W E (szV1_Name res)) \<rparr> else w)
      else w\<lparr> fw_log := SearchRefused (sc_nCode res) (sc_szMsgResult res), fw_headicon := DefaultIcon \<rparr>)"

definition OnAddNewFriend :: "VerifyUserResult \<Rightarrow> friend_wnd \<Rightarrow> friend_wnd" where
  "OnAddNewFriend res w =
     (if vu_nCode res = 0 then w\<lparr> fw_log := RequestSent \<rparr> else if vu_nCode res = - 44 then w\<lparr> fw_log := NeedsVerification \<rparr> else w)"

datatype friend_event = FriendMessage bool ui_post | FriendTimer int | TypeName wide | TypeV2 wide | TypeHello wide | FriendClick wide

definition utf8_of :: "ext \<Rightarrow> wide \<Rightarrow> bytes" where
  "utf8_of E t = CStringA2Utf8 E (CW2A E t)"

definition friend_step :: "env \<Rightarrow> proc \<times> friend_wnd \<Rightarrow> friend_event \<Rightarrow> (proc \<times> friend_wnd) res" where
  "friend_step V s e =
     (case s of (p, w) \<Rightarrow>
        case e of
          FriendMessage d (WM_FRIEND_SEARCH_CONTACT r) \<Rightarrow> and_then (as_search r) (\<lambda>r. ok (p, OnSearchContact (e_ext V) d r w))
        | FriendMessage d (WM_FRIEND_ADD_NEW_FRIEND r) \<Rightarrow> and_then (as_verify r) (\<lambda>r. ok (p, OnAddNewFriend r w))
        | FriendMessage d _ \<Rightarrow> ok s
        | FriendTimer i \<Rightarrow> ok (if i = 0 then (p, w\<lparr> fw_shown := False \<rparr>) else s)
        | TypeName t \<Rightarrow> ok (p, w\<lparr> fw_username := t \<rparr>)
        | TypeV2 t \<Rightarrow> ok (p, w\<lparr> fw_v2Name := t \<rparr>)
        | TypeHello t \<Rightarrow> ok (p, w\<lparr> fw_sayHello := t \<rparr>)
        | FriendClick name \<Rightarrow>
            let E = e_ext V in
            ok (if name = wlit ''closebutton'' then (p, w\<lparr> fw_shown := False \<rparr>)
                else if name = wlit ''search'' then (SearchContact (utf8_of E (fw_username w)) p, w)
                else if name = wlit ''verify'' then
                  (AddNewFriend (utf8_of E (fw_username w)) (utf8_of E (fw_v2Name w)) (utf8_of E (fw_sayHello w)) p, w)
                else s))"

end
