(* ===== verification/Login_Laws.thy ===== *)
theory Login_Laws imports Login_Window Client begin

text \<open>
  What the user sees of a login: each of the codes a login can end with has its own effect in the window.
\<close>

section \<open>The answer to a login\<close>

lemma login_refused_answer:
  "outcome (\<lambda>(e, r, p'). \<exists>a. p' = p\<lparr> p_auth := a \<rparr> \<and> e \<in> login_codes \<and> e \<noteq> 0
     \<and> (e = code CGI_CODE_LOGIN_NEED_MOBILE_MSG \<longrightarrow> m_mobileNum a = m_strUserName m))
   (login_refused E m resp nCode r p)"
  unfolding login_refused_def Let_def
  by (intro outcome_rules; auto simp: login_codes_def intro: exI [of _ "p_auth p"])

lemma login_answer:
  "outcome (\<lambda>(e, r, h', p'). \<exists>a. p' = p\<lparr> p_auth := a \<rparr> \<and> e \<in> login_codes
     \<and> (e = 0 \<longrightarrow> szWxid r = m_WxId a \<and> length (c_str (szWxid r)) < 100 \<and> c_str (szWxid r) = szWxid r \<and> dwUin r = m_uin a)
     \<and> (e = code CGI_CODE_LOGIN_NEED_MOBILE_MSG \<longrightarrow> m_mobileNum a = m_strUserName m))
   (ManualAuth_Buf2Resp V m inbuffer h p)"
  unfolding ManualAuth_Buf2Resp_def Let_def
proof (intro outcome_rules, goal_cases)
  case 4
  then show ?case by (auto simp: login_codes_def set_field_ok_iff login_store_def)
next
  case 5
  then show ?case by (auto dest!: outcomeD [OF login_refused_answer])
qed (auto simp: login_codes_def)

section \<open>The answer in the window\<close>

text \<open>What the messages that a login with code \<open>e\<close> and result \<open>r\<close> ends with make of the window.\<close>

definition login_effect :: "env \<Rightarrow> int \<Rightarrow> LoginResult \<Rightarrow> proc \<Rightarrow> login_wnd \<Rightarrow> (proc \<times> login_wnd) res" where
  "login_effect V e r p w =
     (if e = 0 then and_then (LoadFromDB V p) (\<lambda>p. ok (p, w\<lparr> loginMsg := LoggedIn, lw_shown := False, lw_modal := lw_modal w + 1 \<rparr>))
      else if e = code CGI_CODE_LOGIN_NEED_SCAN_QRCODE
      then ok (p, w\<lparr> loginMsg := ScanReason e (if szMsg r = [] then unknown_error else szMsg r), lw_pages := lw_pages w @ [CA2W (e_ext V) (szUrl r)] \<rparr>)
      else if e = code CGI_CODE_LOGIN_NEED_MOBILE_MSG then ok (p, w)
      else if e = code CGI_CODE_LOGIN_FAIL then ok (p, w\<lparr> loginMsg := FailReason e (CA2W (e_ext V) (szMsg r)) \<rparr>)
      else ok (p, w\<lparr> lw_end := LoginKilled \<rparr>))"

lemma RecvMobileVerifyCode_rest:
  "p_posts (RecvMobileVerifyCode p) = p_posts p" "p_calls (RecvMobileVerifyCode p) = p_calls p"
  "map_task (RecvMobileVerifyCode p) (gs_taskid p) = Some (short_task (BindCGITask \<lparr> m_strPhoneNum = m_mobileNum (p_auth p),
     m_strAuthTicket = m_mobilecode_authticket (p_auth p), m_nOptionType = 10, m_strVerifyCode = [], b_strAesKey = [] \<rparr>) CGI_TYPE_BIND CGI_BIND)"
  by (simp_all add: RecvMobileVerifyCode_def startTask_def Let_def)

text \<open>The callback.\<close>

lemma login_callback:
  assumes "e \<in> login_codes" "e = 0 \<longrightarrow> length (c_str (szWxid r)) < 100 \<and> c_str (szWxid r) = szWxid r" "lw_end w = LoginRuns"
    and "SDKCallBack u (ResLogin r) (Some (cgi_num CGI_TYPE_MANUALAUTH)) tid e p = ok q"
  shows "login_run V (map LoginMessage (drop (length (p_posts p)) (p_posts q))) (q, w) = login_effect V e r q w \<and> p_calls q = p_calls p
     \<and> (e = 0 \<longrightarrow> g_wxid q = szWxid r \<and> g_dwUin q = dwUin r \<and> p_auth q = p_auth p)
     \<and> (e = code CGI_CODE_LOGIN_NEED_MOBILE_MSG \<longrightarrow> q = RecvMobileVerifyCode p)"
proof (cases "e = 0")
  case True
  then have q: "q = post WM_LOGIN_SUCC (p\<lparr> g_dwUin := dwUin r, g_wxid := szWxid r \<rparr>)"
    using assms(2,4) by (auto simp: SDKCallBack_def LoginCallBack_def set_field_ok_iff and_then_ok_iff)
  then show ?thesis using assms(3) True
    by (cases "LoadFromDB V q") (simp_all add: post_def login_step_def login_message_def login_success_def login_effect_def MainWnd_InitWindow_def)
next
  case False
  then have "q = HandleCallBackError (ResLogin r) e p" using assms(4) by (simp add: SDKCallBack_def)
  then show ?thesis using assms(1,3) False
    by (auto simp: login_codes_def HandleCallBackError_def post_def login_step_def login_message_def login_effect_def as_login_def ScanQrcode_def Let_def
        RecvMobileVerifyCode_rest)
qed

section \<open>What goes wrong\<close>

text \<open>Two logins may be under way at once: nothing disables the button. When both succeed, the end of the main window is the end of the
  process.\<close>

lemma double_login_crashes:
  assumes "lw_end w = LoginRuns" "lw_modal w = 0" "LoadFromDB V p = ok p1" "LoadFromDB V p1 = ok p2"
  shows "login_run V [LoginMessage WM_LOGIN_SUCC, LoginMessage WM_LOGIN_SUCC, MainEnds] (p, w) = crash BadRead"
  using assms by (simp add: login_step_def login_message_def login_success_def MainWnd_InitWindow_def main_ended_def)

text \<open>The dialog for the code has a button \<^verbatim>\<open>closebtn\<close>, its handler looks for \<^verbatim>\<open>closebutton\<close>.\<close>

lemma code_dialog_stays:
  assumes "name \<in> set (map wlit [''closebtn'', ''code'', ''send''])"
  shows "lw_verify (snd (verify_click V i name (p, w))) = lw_verify w"
proof -
  have "wlit ''closebutton'' \<notin> set (map wlit [''closebtn'', ''code'', ''send''])" by code_simp
  then have "name \<noteq> wlit ''closebutton''" using assms by metis
  then show ?thesis by (simp add: verify_click_def)
qed

text \<open>A request for a new contact that is refused changes nothing in the search window.\<close>

lemma refused_request_unseen:
  "vu_nCode r \<notin> {0, - 44} \<Longrightarrow> friend_step V (p, w) (FriendMessage d (WM_FRIEND_ADD_NEW_FRIEND (ResVerify r))) = ok (p, w)"
  by (simp add: friend_step_def as_verify_def OnAddNewFriend_def)

section \<open>Properties\<close>

text \<open>C21: What becomes of a login is decided by its code alone, and none is lost. Code 0 opens the main window on the database of the
  account that the server named; the code for a scan opens the page that the answer names and shows the reason; the code for a text
  message shows nothing and asks for one to the number that was typed as user name; a refusal shows the reason of the answer; every other
  code ends the process. The result is the one given to the callback.\<close>

theorem login_outcome_visible:
  assumes task: "map_task p tid = Some t" "t_class t = ManualAuthCGITask m" "t_cgitype t = Some (cgi_num CGI_TYPE_MANUALAUTH)" "p_cgiCallBack p"
    and answer: "NS_Buf2Resp (with_ui V) tid inbuffer 0 p = ok (k, e, q)"
    and window: "lw_end w = LoginRuns"
  shows "\<exists>r. e \<in> login_codes \<and> p_calls q = p_calls p @ [(ResLogin r, t_cgitype t, t_taskid t, e)]
    \<and> login_run V (map LoginMessage (drop (length (p_posts p)) (p_posts q))) (q, w) = login_effect V e r q w
    \<and> (e = 0 \<longrightarrow> g_wxid q = m_WxId (p_auth q) \<and> g_dwUin q = m_uin (p_auth q))
    \<and> (e = code CGI_CODE_LOGIN_NEED_MOBILE_MSG \<longrightarrow> (\<exists>i ticket. map_task q i = Some (short_task (BindCGITask
          \<lparr> m_strPhoneNum = m_strUserName m, m_strAuthTicket = ticket, m_nOptionType = 10, m_strVerifyCode = [], b_strAesKey = [] \<rparr>) CGI_TYPE_BIND CGI_BIND)))"
proof -
  from answer task(1,2) obtain r h' p1 where b: "ManualAuth_Buf2Resp (with_ui V) m inbuffer (t_hdr t) p = ok (e, r, h', p1)"
    and c: "DoCallBack (with_ui V) (ResLogin r) (t_cgitype t) (t_taskid t) e
      (p1\<lparr> map_task := (if map_task p1 tid = Some t then (map_task p1)(tid \<mapsto> t\<lparr> m_res := ResLogin r, t_hdr := h' \<rparr>) else map_task p1) \<rparr>) = ok q"
    by (auto simp: NS_Buf2Resp_def task_Buf2Resp_def and_then_ok_iff Let_def)
  from outcomeD [OF login_answer b] obtain a where a: "p1 = p\<lparr> p_auth := a \<rparr>" "e \<in> login_codes"
    "e = 0 \<longrightarrow> szWxid r = m_WxId a \<and> length (c_str (szWxid r)) < 100 \<and> c_str (szWxid r) = szWxid r \<and> dwUin r = m_uin a"
    "e = code CGI_CODE_LOGIN_NEED_MOBILE_MSG \<longrightarrow> m_mobileNum a = m_strUserName m" by auto
  let ?p = "p1\<lparr> map_task := (map_task p1)(tid \<mapsto> t\<lparr> m_res := ResLogin r, t_hdr := h' \<rparr>), p_calls := p_calls p @ [(ResLogin r, t_cgitype t, t_taskid t, e)] \<rparr>"
  have "SDKCallBack (e_uninit V) (ResLogin r) (Some (cgi_num CGI_TYPE_MANUALAUTH)) (t_taskid t) e ?p = ok q"
    using c task(1,3,4) a(1) by (simp add: DoCallBack_def with_ui_def)
  from login_callback [OF a(2) _ window this, of V] a(3)
  have l: "login_run V (map LoginMessage (drop (length (p_posts p)) (p_posts q))) (q, w) = login_effect V e r q w" "p_calls q = p_calls ?p"
    "e = 0 \<longrightarrow> g_wxid q = szWxid r \<and> g_dwUin q = dwUin r \<and> p_auth q = a" "e = code CGI_CODE_LOGIN_NEED_MOBILE_MSG \<longrightarrow> q = RecvMobileVerifyCode ?p"
    by (auto simp: a(1))
  have "map_task (RecvMobileVerifyCode ?p) (gs_taskid p) = Some (short_task (BindCGITask \<lparr> m_strPhoneNum = m_mobileNum a,
     m_strAuthTicket = m_mobilecode_authticket a, m_nOptionType = 10, m_strVerifyCode = [], b_strAesKey = [] \<rparr>) CGI_TYPE_BIND CGI_BIND)"
    using RecvMobileVerifyCode_rest(3) [of ?p] by (simp add: a(1))
  then have mobile: "e = code CGI_CODE_LOGIN_NEED_MOBILE_MSG \<longrightarrow> (\<exists>i ticket. map_task q i = Some (short_task (BindCGITask
      \<lparr> m_strPhoneNum = m_strUserName m, m_strAuthTicket = ticket, m_nOptionType = 10, m_strVerifyCode = [], b_strAesKey = [] \<rparr>) CGI_TYPE_BIND CGI_BIND))"
    using l(4) a(4) by (intro impI exI [of _ "gs_taskid p"] exI [of _ "m_mobilecode_authticket a"]) metis
  have "e = 0 \<longrightarrow> g_wxid q = m_WxId (p_auth q) \<and> g_dwUin q = m_uin (p_auth q)" using l(3) a(3) by auto
  with l(1,2) a(2) mobile show ?thesis by (intro exI [of _ r] conjI) simp_all
qed

text \<open>The server asks for a scan.\<close>

definition scan_xml :: bytes where
  "scan_xml = lit ''<Url><![CDATA[http://qr]]></Url>''"

definition scan_env :: env where
  "scan_env = sample_env\<lparr> e_ext := sample_ext\<lparr> pb_parse := (\<lambda>_ _. Some (PB [(''result'', PMsg (PB [(''code'', PInt (- 106)),
     (''err_msg'', PMsg (PB [(''msg'', PBytes scan_xml)]))]))])) \<rparr> \<rparr>"

definition scan_login :: login_members where
  "scan_login = \<lparr> m_strUserName = lit ''bob'', m_strPwd = lit ''x'', m_strAesKey = replicate 16 1, m_strLocalEcdhPubKey = [],
     m_strLocalEcdhPriKey = [], m_nid = ECDH_NID \<rparr>"

definition scan_task :: task where
  "scan_task = (new_task (ManualAuthCGITask scan_login))\<lparr> t_cgitype := Some (cgi_num CGI_TYPE_MANUALAUTH) \<rparr>"

definition scan_proc :: proc where
  "scan_proc = (proc0 0)\<lparr> p_cgiCallBack := True, map_task := [7 \<mapsto> scan_task] \<rparr>"

definition scan_pack :: bytes where
  "scan_pack = frame 13 False 0 5 0 77 [] [1] [2] [3] (replicate 20 8)"

abbreviation scan_result :: LoginResult where
  "scan_result \<equiv> new_LoginResult\<lparr> szMsg := scan_xml, szUrl := lit ''http://qr'' \<rparr>"

lemma scan_texts: "xml_reason scan_xml = None" "xml_url scan_xml = Some (ok (lit ''http://qr''))" "c_str scan_xml = scan_xml"
  "c_str (lit ''http://qr'') = lit ''http://qr''" "length scan_xml < 4096" "length (lit ''http://qr'') < 4096" "scan_xml \<noteq> []"
  by code_simp+

lemma scan_unpacked:
  "ManualAuth_UnPackHeader scan_pack h a = ok (replicate 20 8, read_lens h 0 5 [2] [3], keep_cookie (a\<lparr> s_dwUin := 77 \<rparr>) [])"
proof -
  have "frame_ok 13 False 0 5 []" "wf_varint [1]" "wf_varint [2]" "wf_varint [3]"
    by (simp_all add: frame_ok_def wf_varint_def top_bit)
  note read = read_frame(2) [OF this scan_pack_def, of h a]
  have "length scan_pack = 33" "drop 13 scan_pack = replicate 20 8" by code_simp+
  then show ?thesis using read by simp
qed

lemma scan_answered: "\<exists>q. NS_Buf2Resp (with_ui scan_env) 7 scan_pack 0 scan_proc = ok (kTaskFailHandleNoError, - 106, q)
    \<and> p_calls q = [(ResLogin scan_result, t_cgitype scan_task, t_taskid scan_task, - 106)]"
proof -
  have "strip_padding (replicate 16 1) (replicate 20 8) = ok (Some (replicate 12 8))" by code_simp
  then have plain: "aes_nouncompress (e_ext (with_ui scan_env)) (m_strAesKey scan_login) (replicate 20 8) = ok (replicate 12 8)"
    by (simp add: aes_nouncompress_def scan_login_def scan_env_def with_ui_def sample_env_def sample_ext_def resize_def)
  have parse: "pb_parse (e_ext (with_ui scan_env)) ty b = Some (PB [(''result'', PMsg (PB [(''code'', PInt (- 106)),
     (''err_msg'', PMsg (PB [(''msg'', PBytes scan_xml)]))]))])" for ty b
    by (simp add: scan_env_def with_ui_def)
  obtain h' p1 where p1: "ManualAuth_Buf2Resp (with_ui scan_env) scan_login scan_pack hdr0 scan_proc = ok (- 106, scan_result, h', p1)"
    "p_cgiCallBack p1" "p_calls p1 = []"
    by (simp add: ManualAuth_Buf2Resp_def scan_unpacked read_lens_def plain parse pb_int_def pb_sub_def pb_bytes_def login_refused_def
        scan_texts set_field_def strcpy_s_def Let_def scan_proc_def proc0_def)
  have "map_task scan_proc 7 = Some scan_task" "t_class scan_task = ManualAuthCGITask scan_login" "t_hdr scan_task = hdr0"
    by (simp_all add: scan_proc_def scan_task_def new_task_def)
  then show ?thesis using p1(2,3)
    by (simp add: NS_Buf2Resp_def task_Buf2Resp_def p1(1) DoCallBack_def Let_def)
      (simp add: with_ui_def SDKCallBack_def HandleCallBackError_def post_def)
qed

theorem login_outcome_visible_witness:
  "\<exists>q w. login_run scan_env (map LoginMessage (p_posts q)) (q, snd (LoginWnd_InitWindow scan_proc)) = ok (q, w)
    \<and> loginMsg w = ScanReason (- 106) scan_xml \<and> lw_pages w = [CA2W (e_ext scan_env) (lit ''http://qr'')] \<and> lw_end w = LoginRuns"
proof -
  let ?w = "snd (LoginWnd_InitWindow scan_proc)"
  have t: "map_task scan_proc 7 = Some scan_task" "t_class scan_task = ManualAuthCGITask scan_login"
    "t_cgitype scan_task = Some (cgi_num CGI_TYPE_MANUALAUTH)" "p_cgiCallBack scan_proc"
    by (simp_all add: scan_proc_def scan_task_def new_task_def)
  have w: "lw_end ?w = LoginRuns" "lw_pages ?w = []" by (simp_all add: LoginWnd_InitWindow_def)
  obtain q where q: "NS_Buf2Resp (with_ui scan_env) 7 scan_pack 0 scan_proc = ok (kTaskFailHandleNoError, - 106, q)"
    "p_calls q = [(ResLogin scan_result, t_cgitype scan_task, t_taskid scan_task, - 106)]" using scan_answered by blast
  from login_outcome_visible [OF t q(1) w(1)] q(2)
  have "login_run scan_env (map LoginMessage (p_posts q)) (q, ?w) = login_effect scan_env (- 106) scan_result q ?w"
    by (auto simp: scan_proc_def proc0_def)
  then show ?thesis using w by (intro exI [of _ q]) (simp add: login_effect_def scan_texts)
qed

end
