(* ===== verification/Spec2Isabelle.thy ===== *)
theory Spec2Isabelle
  imports Chat_System Shortlink_Laws Heartbeat_File Desktop Login_Laws
begin

text \<open>
  MicroChat is a chat client for Windows. The library \<^verbatim>\<open>src/MicroChatSDK\<close> speaks the protocol of the
  chat server: it builds and encrypts requests, reads answers, keeps the login session, the contacts
  and the messages, and calls the user interface (\<^verbatim>\<open>src/MicroChat\<close>) when a task has ended. It runs on
  the network engine \<^verbatim>\<open>src/mars\<close>, which owns the threads and sockets and calls back into the library
  to build a request, read an answer, report the end of a task or deliver a push.

  \<^bold>\<open>Parts and theories.\<close>

  \<^item> \<open>Prelude\<close>: machine integers (\<open>byte\<close>, \<open>ushort\<close>, \<open>dword\<close>), \<open>'a res\<close> (a value or the fault of
    the process: an uncaught exception, an access outside a buffer, a null pointer, a failed
    allocation, a double free), its sequencing \<open>and_then\<close>, \<^verbatim>\<open>std::string\<close> and C string operations,
    and the two predicates on results: \<open>outcome P r\<close> (if \<open>r\<close> is a value, it satisfies \<open>P\<close>; nothing is
    said of a fault) and \<open>faults_in F r\<close> (a fault of \<open>r\<close> is one of \<open>F\<close>).
  \<^item> \<open>Interfaces\<close>: the locales \<open>codec\<close>, \<open>prefix_codec\<close>, \<open>machine\<close> and \<open>guarded_machine\<close>.
  \<^item> \<open>External\<close>: what the sources call but do not contain: OpenSSL, zlib, the code pages of Windows,
    the generated protobuf classes. They are fields of the record \<open>ext\<close>; the laws a theorem relies on
    are the hypotheses \<open>cipher_ok\<close>, \<open>zlib_ok\<close>, \<open>rsa_ok\<close>, \<open>codepages_ok\<close>, and \<open>sample_ext\<close> satisfies
    them. SQLite is the record \<open>sqlite\<close> of \<open>Sql_Store\<close>. A protobuf message is a list of named fields.
  \<^item> \<open>Codec\<close> (\<^verbatim>\<open>Business/fun.cpp\<close>): hexadecimal text and the variable-length numbers of the headers.
  \<^item> \<open>Crypto\<close> (\<^verbatim>\<open>Business/crypto/mmCryptInterface.cpp\<close>): AES with and without compression, blockwise
    RSA, key agreement, MD5.
  \<^item> \<open>Header\<close> (\<^verbatim>\<open>Business/MakeHeader.cpp\<close>, \<^verbatim>\<open>AuthInfo.h\<close> and the headers of the login, binding and
    report tasks): the record \<open>auth\<close> of the process-wide session state, the record \<open>hdr\<close> of one header
    object, writers and readers.
  \<^item> \<open>Auto_Buffer\<close> (\<^verbatim>\<open>mars/comm/autobuffer.cc\<close>): the growable byte buffer.
  \<^item> \<open>Longlink_Packer\<close> (\<^verbatim>\<open>PublicComponentV2/longlink_packer.cc\<close>, the receive loop of
    \<^verbatim>\<open>mars/stn/src/longlink.cc\<close>): the frames of the persistent connection.
  \<^item> \<open>Sql_Store\<close> (\<^verbatim>\<open>db/sql.cpp\<close>): the database connection, its queue and its worker thread, one
    atomic section of a thread per step.
  \<^item> \<open>Client_State\<close> (\<^verbatim>\<open>interface.h\<close>, \<^verbatim>\<open>Business/define.h\<close>, \<^verbatim>\<open>Wrapper/CGITask.h\<close>): result structures,
    task objects, and the record \<open>proc\<close> of the whole process state: session, database, the sync flags,
    the task table of \<^verbatim>\<open>NetworkService\<close>, the tasks handed to the engine, the calls and posts made.
    The record \<open>env\<close> collects what the process does not control: clock, random numbers, allocator,
    uninitialised memory, the callback function.
  \<^item> \<open>Chat_Db\<close> (\<^verbatim>\<open>db/db.cpp\<close>): the sync key, the contacts and the messages in the database.
  \<^item> \<open>Login_Task\<close> (\<^verbatim>\<open>ManualAuthCGITask.cpp\<close>, \<^verbatim>\<open>bindCGITask.cpp\<close>), \<open>Sync_Tasks\<close> (\<^verbatim>\<open>NewSyncCGITask.cpp\<close>,
    \<^verbatim>\<open>NewInitCGITask.cpp\<close>, \<^verbatim>\<open>ReportSyncKVCGITask.cpp\<close>), \<open>Contact_Tasks\<close> (\<^verbatim>\<open>NewSendMsgCGITask.cpp\<close>,
    \<^verbatim>\<open>SearchContactCGITask.cpp\<close>, \<^verbatim>\<open>GetContactCGITask.cpp\<close>, \<^verbatim>\<open>VerifyUserCGITask.cpp\<close>): one function per
    request builder (\<^verbatim>\<open>Req2Buf\<close>) and answer handler (\<^verbatim>\<open>Buf2Resp\<close>), every branch included.
  \<^item> \<open>Service\<close> (\<^verbatim>\<open>interface.cpp\<close>, \<^verbatim>\<open>Wrapper/NetworkService.cpp\<close>, \<^verbatim>\<open>stn_callback.cpp\<close>): the calls of the
    user interface and the callbacks of the engine.
  \<^item> \<open>Ui_Callback\<close> (\<^verbatim>\<open>MicroChat/business/callback.cpp\<close>): what the interface does with a result.
  \<^item> \<open>Client\<close>: the running client: \<open>client_step\<close> takes one call of the interface, one callback of the
    engine or one tick of the timer, in any order.
  \<^item> \<open>Stn_Task\<close> (\<^verbatim>\<open>mars/stn/stn.h\<close>, \<^verbatim>\<open>task_profile.h\<close>, \<^verbatim>\<open>src/task_profile.cc\<close>, \<^verbatim>\<open>config.h\<close>): the engine's tasks,
    the run-time profile of a task, the timeouts computed for it.
  \<^item> \<open>Avalanche\<close> (\<^verbatim>\<open>anti_avalanche.cc\<close>, \<^verbatim>\<open>flow_limit.cc\<close>, \<^verbatim>\<open>frequency_limit.cc\<close>, \<^verbatim>\<open>adler32.c\<close>): the guard against
    request storms. \<open>Dynamic_Timeout\<close> (\<^verbatim>\<open>dynamic_timeout.cc\<close>): the rating of the network.
  \<^item> \<open>Longlink_Channel\<close> (\<^verbatim>\<open>longlink.cc\<close>, \<^verbatim>\<open>longlink_identify_checker.cc\<close>, \<^verbatim>\<open>longlink_connect_monitor.cc\<close>,
    \<^verbatim>\<open>active_logic.cc\<close>): the persistent connection as the engine sees it, with the socket thread as
    steps.
  \<^item> \<open>Engine_State\<close>: the record \<open>engine\<close> of \<^verbatim>\<open>NetCore\<close> and what its managers share: the calls into the
    client (record \<open>client_if\<close>, one field for each function of \<^verbatim>\<open>stn.h\<close>), the tasks that wait for the
    network (\<^verbatim>\<open>zombie_task_manager.cc\<close>), the callback that ends a task, network errors, the walk over a
    task list. It also holds the accounting predicates and two locales for a visit to a task.
  \<^item> \<open>Longlink_Tasks\<close> (\<^verbatim>\<open>longlink_task_manager.cc\<close>) and \<open>Shortlink_Tasks\<close> (\<^verbatim>\<open>shortlink_task_manager.cc\<close>): the
    managers of the tasks on the persistent and on the short connections.
  \<^item> \<open>Net_Core\<close> (\<^verbatim>\<open>net_core.cc\<close>): the operations of the engine, the answers from both links, and \<open>net_step\<close>,
    the step for one message of the engine's queue.
  \<^item> \<open>Chat_System\<close>: the client on the engine. \<open>StnCallBack\<close> makes the client model the engine's client,
    \<open>hand_over\<close> makes a task of the client one of the engine, and \<open>chat_step\<close> runs both together.
  \<^item> \<open>Text_Util\<close> (\<^verbatim>\<open>mars/comm/strutil.cc\<close> and the C functions on text), \<open>Http\<close> and \<open>Http_Laws\<close>
    (\<^verbatim>\<open>mars/comm/http.cc\<close>): request and status lines, header fields, the builder, and the parser that
    takes a message in from pieces.
  \<^item> \<open>Block_Socket\<close> (\<^verbatim>\<open>mars/comm/socket/block_socket.cc\<close>): sending and receiving over the answers of the
    operating system. \<open>Base64\<close> (\<^verbatim>\<open>mars/comm/crypt/ibase64.cc\<close>).
  \<^item> \<open>Ipport_Sort\<close> (\<^verbatim>\<open>simple_ipport_sort.cc\<close>) and \<open>Net_Source\<close> (\<^verbatim>\<open>net_source.cc\<close>): which addresses failed, and
    the addresses that a connection tries.
  \<^item> \<open>Complex_Connect\<close> and \<open>Complex_Laws\<close> (\<^verbatim>\<open>mars/comm/socket/complexconnect.cc\<close>, \<^verbatim>\<open>tcpclient_fsm.cc\<close>): connections to
    several addresses started one after the other, each a state machine that may go through a proxy; the first
    that is ready is returned, the others are closed.
  \<^item> \<open>Shortlink\<close> and \<open>Shortlink_Laws\<close> (\<^verbatim>\<open>mars/stn/src/shortlink.cc\<close>, \<^verbatim>\<open>shortlink_packer.cc\<close>): one short
    connection, from the addresses through \<^verbatim>\<open>ConnectImpatient\<close> to the answer that it reports.
  \<^item> \<open>Ini_File\<close> and \<open>Ini_Laws\<close> (\<^verbatim>\<open>mars/comm/ini.h\<close>, \<^verbatim>\<open>string_cast.h\<close>): numbers as text, sections and keys in a file.
  \<^item> \<open>Smart_Heartbeat\<close>, \<open>Heartbeat_Laws\<close> and \<open>Heartbeat_File\<close> (\<^verbatim>\<open>mars/stn/src/smart_heartbeat.cc\<close>): the search for
    the longest interval between heartbeats that a network tolerates, and its memory in \<^verbatim>\<open>Heartbeat.ini\<close>.
  \<^item> \<open>Main_Window\<close> and \<open>Main_Laws\<close> (\<^verbatim>\<open>MicroChat/MainWnd.cpp\<close>): the contacts and conversations on the screen, and a
    specification of a chat window that they refine.
  \<^item> \<open>Login_Window\<close> and \<open>Login_Laws\<close> (\<^verbatim>\<open>MicroChat/LoginWnd.cpp\<close>, \<^verbatim>\<open>friendWnd.cpp\<close>): the login window with the dialog
    for a code, the search window, and a login from the answer to what the user sees.
  \<^item> \<open>Desktop\<close>: task, database, callback and main window together.
\<close>

text \<open>
  \<^bold>\<open>What the lemmas show.\<close> For the coders: round trips, agreement with a reference coding, and
  the exact inputs on which they fail. For the headers: readers never fault, declared lengths, round
  trips. For the buffer: memory safety of every sequence of operations and the refinement of a byte
  list. For the frames: the receive loop takes whole frames whatever the cuts. For the store: order,
  completeness and transaction brackets in every interleaving of the threads. For the tasks: the
  possible codes, what is stored and passed on, which faults can occur. For the client: the
  serialisation of syncs in every interleaving, and what a failed sync does to it. For the storm guard:
  the budget of the bucket, the refusals of the table, the checksum against its definition. For the
  engine, for every sequence of messages, every clock and every client: each task is in exactly one
  place (\<open>settles\<close> says of every operation which tasks it takes on, keeps and ends, and the locale
  \<open>task_visit\<close> lifts it from one task to a walk over the list), deadlines and attempts are bounded, no
  two tasks share a connection (\<open>worker_visit\<close>). For client and engine together: the task table agrees
  with the engine (\<open>linked\<close>). For HTTP: a message comes in whole however it is cut (the locales \<open>messages\<close>
  and \<open>whole_messages\<close>, interpreted for a content length and for chunks), the parser ends, and the inputs
  on which it crashes, waits or runs for ever. For a short connection: the request can be read back, the
  worker answers at most once, a whole answer is handed over, connecting never reads past a list. For the
  addresses: which pass, in which order, and how many. For the race of connections: every socket that is
  opened is closed or returned, exactly once; connections are started in the order of the addresses, no two
  sooner than the interval allows, and never more at a time than allowed; a SOCKS5 answer may be cut anywhere.
  For the settings file: which stores are read back as they were written. For the heartbeat: the interval
  stays in its range in every sequence of calls (locale \<open>machine\<close>), what a restart remembers (locale
  \<open>guarded_machine\<close>), and networks on which the search never settles. For the
  window: it refines a chat (\<open>simulates\<close>), and what a sync brings is filed and shown alike, whatever the user does meanwhile;
  each code of a login has its own effect on the screen.

  \<^bold>\<open>Bounds and fuel.\<close> The only fuel is the one of \<open>drain\<close>: one more than the number of whole
  frames suffices (\<open>drain_takes_whole_frames\<close>), and for an empty frame none suffices
  (\<open>hostile_headers\<close>). The allocator is a predicate on the size of a request; \<open>heap_ok\<close> says that it
  serves requests up to the 10 MB the buffer itself asserts. Sizes are natural numbers where the code
  uses \<^verbatim>\<open>size_t\<close> without wrapping, and words where it wraps (lengths in headers, the 16- and 32-bit
  fields of frames, counters of the server).

  \<^bold>\<open>Atomicity.\<close> A step of \<open>sql_step\<close> is one critical section of a thread. A step of
  \<open>client_step\<close> is a whole callback: \<^verbatim>\<open>NetworkService\<close> runs them on the engine's callback thread, and
  the two flags and the task table are only touched under their locks. A step of \<open>net_step\<close> is one
  message of the engine's queue, which one thread serves; it reads the clock and the kind of network
  once. Start messages are served in order, all other messages come at any time, so timers and the
  once-a-second passes of the managers are messages too. The socket thread of the long link changes
  the link between two messages.

  \<^bold>\<open>Not modelled.\<close> Logging; what DuiLib draws; \<^verbatim>\<open>StartSDK\<close>, \<^verbatim>\<open>StopSDK\<close> and the address setters, which only
  configure the engine; of \<^verbatim>\<open>src/mars\<close> threads, DNS, the operating system's sockets
  and the XML library, which are arguments; the network check, \<^verbatim>\<open>timing_sync.cc\<close> and
  \<^verbatim>\<open>signalling_keeper.cc\<close>, whose results are events; in HTTP the
  second overload of \<^verbatim>\<open>Recv\<close> and \<^verbatim>\<open>ContentRange\<close>, which nothing calls; the parts of the profiles that are
  only logged or reported; the destructors of the engine; vendored and generated
  code (Boost, OpenSSL, protobuf, SQLite, DuiLib).
\<close>

end
